(* ===== verification/Prelude.thy ===== *)
theory Prelude
  imports Main "HOL-Library.AList" "HOL-Library.Word" "HOL-Library.Multiset"
begin

text \<open>
  Shared vocabulary of the development.  Rust's fixed-width integers are written as
  \<open>nat\<close> (unsigned) or \<open>int\<close> (signed) with the width made explicit at every operation that can
  leave it: \<open>add32_sat\<close> and \<open>sub32\<close> for \<open>u32\<close>, \<open>sat64\<close> and \<open>wrap64\<close> for \<open>i64\<close>.  The release
  build of the server has overflow checks off, so plain \<open>+\<close> and \<open>-\<close> wrap.  A Rust \<open>HashMap\<close> is an
  association list with distinct keys whose order stands for the map's unspecified iteration
  order; lookups are \<open>map_of\<close>, writes \<open>AList.update\<close> and \<open>AList.delete\<close>.  Strings are byte lists.
\<close>

named_theorems total_simps \<open>how each operation changes the totals it is measured by\<close>
named_theorems msg_simps \<open>definitions that only build outgoing messages\<close>

section \<open>Fixed-width integers\<close>

abbreviation u32_max :: nat where "u32_max \<equiv> 4294967295"
abbreviation i32_max :: int where "i32_max \<equiv> 2147483647"
abbreviation i64_max :: int where "i64_max \<equiv> 9223372036854775807"
abbreviation i64_min :: int where "i64_min \<equiv> - 9223372036854775808"

text \<open>\<open>u32::saturating_add\<close> and the wrapping \<open>u32\<close> subtraction.\<close>

definition add32_sat :: "nat \<Rightarrow> nat \<Rightarrow> nat" where
  "add32_sat a b = min (a + b) u32_max"

definition sub32 :: "nat \<Rightarrow> nat \<Rightarrow> nat" where
  "sub32 a b = (if b \<le> a then a - b else a + 4294967296 - b)"

lemma add32_sat_exact [simp]: "a + b \<le> u32_max \<Longrightarrow> add32_sat a b = a + b"
  by (simp add: add32_sat_def)

lemma add32_sat_le: "add32_sat a b \<le> u32_max"
  by (simp add: add32_sat_def)

lemma sub32_exact [simp]: "b \<le> a \<Longrightarrow> sub32 a b = a - b"
  by (simp add: sub32_def)

text \<open>\<open>i64\<close>: saturating results and two's-complement wrap-around.\<close>

definition sat64 :: "int \<Rightarrow> int" where
  "sat64 x = (if x > i64_max then i64_max else if x < i64_min then i64_min else x)"

definition wrap64 :: "int \<Rightarrow> int" where
  "wrap64 x = (x + 9223372036854775808) mod 18446744073709551616 - 9223372036854775808"

lemma sat64_exact [simp]: "i64_min \<le> x \<Longrightarrow> x \<le> i64_max \<Longrightarrow> sat64 x = x"
  by (simp add: sat64_def)

lemma sat64_range: "i64_min \<le> sat64 x \<and> sat64 x \<le> i64_max"
  by (simp add: sat64_def)

lemma sat64_nonneg: "0 \<le> x \<Longrightarrow> 0 \<le> sat64 x"
  by (simp add: sat64_def)

lemma wrap64_exact [simp]: "i64_min \<le> x \<Longrightarrow> x \<le> i64_max \<Longrightarrow> wrap64 x = x"
  by (simp add: wrap64_def)

text \<open>Rust's \<open>as i32\<close> on a \<open>u32\<close>, and \<open>as u32\<close> on a non-negative \<open>i32\<close>.\<close>

definition as_i32 :: "nat \<Rightarrow> int" where
  "as_i32 n = (let m = int n mod 4294967296 in if m \<ge> 2147483648 then m - 4294967296 else m)"

lemma as_i32_exact [simp]: "n < 2147483648 \<Longrightarrow> as_i32 n = int n"
  by (simp add: as_i32_def Let_def)

section \<open>Decimal text\<close>

text \<open>
  The \<open>{}\<close> formatting of an unsigned integer, and \<open>str::parse::<u32>\<close>: an optional leading
  \<open>+\<close>, at least one digit, digits only, and no overflow of 32 bits.
\<close>

definition digit_char :: "nat \<Rightarrow> char" where
  "digit_char d = char_of (48 + d)"

fun show_nat :: "nat \<Rightarrow> string" where
  "show_nat n = (if n < 10 then [digit_char n] else show_nat (n div 10) @ [digit_char (n mod 10)])"

declare show_nat.simps [simp del]

definition digit_val :: "char \<Rightarrow> nat option" where
  "digit_val c = (let k = of_char c :: nat in if 48 \<le> k \<and> k \<le> 57 then Some (k - 48) else None)"

fun parse_digits :: "nat \<Rightarrow> string \<Rightarrow> nat option" where
  "parse_digits acc [] = Some acc"
| "parse_digits acc (c # cs) =
     (case digit_val c of
        None \<Rightarrow> None
      | Some d \<Rightarrow> (if acc * 10 + d > u32_max then None else parse_digits (acc * 10 + d) cs))"

definition parse_u32 :: "string \<Rightarrow> nat option" where
  "parse_u32 s =
     (let ds = (case s of [] \<Rightarrow> [] | c # cs \<Rightarrow> if c = CHR ''+'' then cs else s)
      in if ds = [] then None else parse_digits 0 ds)"

definition strip_prefix :: "string \<Rightarrow> string \<Rightarrow> string option" where
  "strip_prefix p s = (if take (length p) s = p then Some (drop (length p) s) else None)"

lemma strip_prefix_append [simp]: "strip_prefix p (p @ s) = Some s"
  by (simp add: strip_prefix_def)

lemma digit_val_digit_char [simp]: "d < 10 \<Longrightarrow> digit_val (digit_char d) = Some d"
  by (simp add: digit_val_def digit_char_def Let_def)

lemma digit_char_not_plus [simp]: "d < 10 \<Longrightarrow> digit_char d \<noteq> CHR ''+''"
proof
  assume "d < 10" and "digit_char d = CHR ''+''"
  then have "(of_char (digit_char d) :: nat) = of_char (CHR ''+'')" by simp
  with \<open>d < 10\<close> show False by (simp add: digit_char_def)
qed

lemma parse_digits_snoc:
  "parse_digits acc (xs @ [c]) =
     (case parse_digits acc xs of
        None \<Rightarrow> None
      | Some m \<Rightarrow> (case digit_val c of
                    None \<Rightarrow> None
                  | Some d \<Rightarrow> if m * 10 + d > u32_max then None else Some (m * 10 + d)))"
  by (induction xs arbitrary: acc) (auto split: option.splits)

lemma parse_digits_show_nat: "n \<le> u32_max \<Longrightarrow> parse_digits 0 (show_nat n) = Some n"
proof (induction n rule: show_nat.induct)
  case (1 n)
  show ?case
  proof (cases "n < 10")
    case True
    then show ?thesis by (simp add: show_nat.simps [of n])
  next
    case False
    with "1.IH" "1.prems" have ih: "parse_digits 0 (show_nat (n div 10)) = Some (n div 10)"
      by simp
    have "n div 10 * 10 + n mod 10 = n" by simp
    with False ih "1.prems" show ?thesis
      by (simp add: show_nat.simps [of n] parse_digits_snoc del: div_mult_mod_eq)
  qed
qed

lemma show_nat_head: "\<exists>d cs. d < 10 \<and> show_nat n = digit_char d # cs"
proof (induction n rule: show_nat.induct)
  case (1 n)
  show ?case
  proof (cases "n < 10")
    case True
    then show ?thesis by (auto simp: show_nat.simps [of n])
  next
    case False
    with "1.IH" obtain d cs where "d < 10" and "show_nat (n div 10) = digit_char d # cs"
      by blast
    with False show ?thesis by (auto simp: show_nat.simps [of n])
  qed
qed

lemma parse_show_nat [simp]: "n \<le> u32_max \<Longrightarrow> parse_u32 (show_nat n) = Some n"
  using show_nat_head [of n] parse_digits_show_nat [of n]
  by (auto simp: parse_u32_def Let_def)

lemma show_nat_inj: "m \<le> u32_max \<Longrightarrow> n \<le> u32_max \<Longrightarrow> show_nat m = show_nat n \<Longrightarrow> m = n"
  by (metis option.inject parse_show_nat)

section \<open>Vectors\<close>

text \<open>\<open>slice::get(i)\<close> followed by \<open>and_then(as_ref)\<close> on a vector of optional cells.\<close>

definition vget :: "'a option list \<Rightarrow> nat \<Rightarrow> 'a option" where
  "vget xs i = (if i < length xs then xs ! i else None)"

lemma vget_nth [simp]: "i < length xs \<Longrightarrow> vget xs i = xs ! i"
  by (simp add: vget_def)

lemma vget_beyond [simp]: "length xs \<le> i \<Longrightarrow> vget xs i = None"
  by (simp add: vget_def)

lemma vget_Some_less: "vget xs i = Some e \<Longrightarrow> i < length xs \<and> xs ! i = Some e"
  by (simp add: vget_def split: if_splits)

text \<open>Updating one cell moves a sum by exactly that cell.\<close>

lemma sum_list_update_nat:
  fixes f :: "'a \<Rightarrow> nat"
  assumes "i < length xs"
  shows "sum_list (map f (xs[i := x])) + f (xs ! i) = sum_list (map f xs) + f x"
  using assms
proof (induction xs arbitrary: i)
  case Nil
  then show ?case by simp
next
  case (Cons a xs)
  then show ?case by (cases i) auto
qed

lemma list_all_update: "list_all P xs \<Longrightarrow> P x \<Longrightarrow> list_all P (xs[i := x])"
  using set_update_subset_insert [of xs i x] by (auto simp: list_all_iff)

section \<open>Hash maps\<close>

text \<open>The sum of a measure over the values of a map.\<close>

definition al_sum :: "('v \<Rightarrow> nat) \<Rightarrow> ('k \<times> 'v) list \<Rightarrow> nat" where
  "al_sum f m = sum_list (map (\<lambda>kv. f (snd kv)) m)"

lemma al_sum_Nil [simp]: "al_sum f [] = 0"
  by (simp add: al_sum_def)

lemma al_sum_Cons [simp]: "al_sum f ((k, v) # m) = f v + al_sum f m"
  by (simp add: al_sum_def)

abbreviation opt_sum :: "('v \<Rightarrow> nat) \<Rightarrow> 'v option \<Rightarrow> nat" where
  "opt_sum f v \<equiv> (case v of None \<Rightarrow> 0 | Some x \<Rightarrow> f x)"

lemma al_sum_delete:
  "distinct (map fst m) \<Longrightarrow> al_sum f (AList.delete k m) + opt_sum f (map_of m k) = al_sum f m"
proof (induction m)
  case Nil
  then show ?case by simp
next
  case (Cons kv m)
  obtain a v where kv: "kv = (a, v)" by (cases kv)
  with Cons.prems have fresh: "a \<notin> fst ` set m" and dist: "distinct (map fst m)" by auto
  have keep: "a = k \<Longrightarrow> AList.delete k m = m"
    using fresh by (simp add: delete_id)
  show ?case
    using Cons.IH [OF dist] keep kv by (cases "a = k") (simp_all add: al_sum_def)
qed

lemma al_sum_update:
  "distinct (map fst m) \<Longrightarrow> al_sum f (AList.update k v m) + opt_sum f (map_of m k) = al_sum f m + f v"
proof (induction m)
  case Nil
  then show ?case by simp
next
  case (Cons kv m)
  obtain a w where kv: "kv = (a, w)" by (cases kv)
  with Cons show ?case by (cases "a = k") simp_all
qed

lemma al_sum_update_new:
  "distinct (map fst m) \<Longrightarrow> map_of m k = None \<Longrightarrow> al_sum f (AList.update k v m) = al_sum f m + f v"
  using al_sum_update [of m f k v] by simp

lemma map_of_al_update [simp]: "map_of (AList.update k v m) = (map_of m)(k \<mapsto> v)"
  by (rule update_conv')

lemma map_of_al_delete [simp]: "map_of (AList.delete k m) = (map_of m)(k := None)"
  by (rule delete_conv')

lemma distinct_keys_update [simp]: "distinct (map fst m) \<Longrightarrow> distinct (map fst (AList.update k v m))"
  by (rule distinct_update)

lemma distinct_keys_delete [simp]: "distinct (map fst m) \<Longrightarrow> distinct (map fst (AList.delete k m))"
  by (rule distinct_delete)

text \<open>Proofs about maps go through the lookup function, not through membership.\<close>

declare map_of_eq_Some_iff [simp del] Some_eq_map_of_iff [simp del] map_of_eq_None_iff [simp del]
  empty_eq_map_of_iff [simp del]

text \<open>A predicate on all entries, through the lookup function.\<close>

lemma list_all_map_of:
  "distinct (map fst m) \<Longrightarrow> list_all (\<lambda>(k, v). P k v) m \<longleftrightarrow> (\<forall>k v. map_of m k = Some v \<longrightarrow> P k v)"
  by (auto simp: list_all_iff map_of_eq_Some_iff)

text \<open>\<open>or_insert_with\<close>, and putting back a value that was taken out, if there was one.\<close>

definition or_insert :: "'k \<Rightarrow> 'v \<Rightarrow> ('k \<times> 'v) list \<Rightarrow> ('k \<times> 'v) list" where
  "or_insert k v m = (case map_of m k of None \<Rightarrow> AList.update k v m | Some _ \<Rightarrow> m)"

definition reattach :: "'k \<Rightarrow> 'v option \<Rightarrow> ('k \<times> 'v) list \<Rightarrow> ('k \<times> 'v) list" where
  "reattach k v m = (case v of None \<Rightarrow> m | Some x \<Rightarrow> AList.update k x m)"

lemma map_of_or_insert [simp]:
  "map_of (or_insert k v m) = (if map_of m k = None then (map_of m)(k \<mapsto> v) else map_of m)"
  by (simp add: or_insert_def split: option.splits)

lemma map_of_reattach [simp]:
  "map_of (reattach k v m) = (case v of None \<Rightarrow> map_of m | Some x \<Rightarrow> (map_of m)(k \<mapsto> x))"
  by (simp add: reattach_def split: option.splits)

lemma distinct_or_insert [simp]: "distinct (map fst m) \<Longrightarrow> distinct (map fst (or_insert k v m))"
  by (simp add: or_insert_def split: option.splits)

lemma distinct_reattach [simp]: "distinct (map fst m) \<Longrightarrow> distinct (map fst (reattach k v m))"
  by (simp add: reattach_def split: option.splits)

lemma delete_absent: "map_of m k = None \<Longrightarrow> AList.delete k m = m"
  by (simp add: delete_id map_of_eq_None_iff)

lemma or_insert_present: "map_of m k \<noteq> None \<Longrightarrow> or_insert k v m = m"
  by (auto simp: or_insert_def)

lemma al_sum_reattach:
  "distinct (map fst m) \<Longrightarrow> map_of m k = None \<Longrightarrow>
     al_sum f (reattach k v m) = al_sum f m + opt_sum f v"
  by (simp add: reattach_def al_sum_update_new split: option.splits)

lemma al_sum_or_insert_zero:
  "distinct (map fst m) \<Longrightarrow> f v = 0 \<Longrightarrow> al_sum f (or_insert k v m) = al_sum f m"
  by (simp add: or_insert_def al_sum_update_new split: option.splits)

end
