(* ===== verification/Items.thy ===== *)
theory Items
  imports Prelude
begin

text \<open>
  The item registry of \<open>world/items.rs\<close>.  The registry itself is data (\<open>data/items.toml\<close>), so it
  is an argument \<open>R\<close> of every definition: the list of its items in the iteration order of the
  \<open>HashMap\<close>, with unique paths.  \<open>f32\<close> fields are kept as their 32-bit patterns.
\<close>

type_synonym f32 = "32 word"

datatype item_type = Weapon | Offhand | Head | Chest | Legs | Feet | Hands | Ring | Neck
  | Consumable | Misc | Augment | Bag

record item =
  path :: string
  name :: string
  item_type :: item_type
  stack_size :: nat
  rarity :: nat
  damage_min :: int
  damage_max :: int
  weapon_delay :: f32
  skill :: string
  is_two_handed :: bool
  is_ranged :: bool
  armor :: int
  armor_type :: string
  str_bonus :: int
  dex_bonus :: int
  agi_bonus :: int
  int_bonus :: int
  wis_bonus :: int
  cha_bonus :: int
  con_bonus :: int
  max_hp_bonus :: f32
  max_mp_bonus :: f32
  max_stamina_bonus :: f32
  bag_num_slots_field :: nat
  heal_on_use :: f32
  mp_on_use :: f32
  is_food :: bool
  is_drink :: bool
  food_hp_regen :: f32
  food_mp_regen :: f32
  food_duration :: f32
  proc_chance :: f32
  proc_damage :: int
  proc_damage_type :: nat
  proc_name :: string
  gem_slots :: nat
  vendor_price :: nat
  weight :: f32
  no_rent :: bool
  no_drop :: bool

text \<open>The defaults of the deserialiser (\<open>default_weapon_delay\<close> is 2.0).\<close>

definition item_default :: "string \<Rightarrow> string \<Rightarrow> item_type \<Rightarrow> item" where
  "item_default p n ty =
     \<lparr>path = p, name = n, item_type = ty, stack_size = 1, rarity = 0, damage_min = 0, damage_max = 0,
      weapon_delay = 0x40000000, skill = [], is_two_handed = False, is_ranged = False, armor = 0, armor_type = [],
      str_bonus = 0, dex_bonus = 0, agi_bonus = 0, int_bonus = 0, wis_bonus = 0, cha_bonus = 0, con_bonus = 0,
      max_hp_bonus = 0, max_mp_bonus = 0, max_stamina_bonus = 0, bag_num_slots_field = 0,
      heal_on_use = 0, mp_on_use = 0, is_food = False, is_drink = False, food_hp_regen = 0, food_mp_regen = 0,
      food_duration = 0, proc_chance = 0, proc_damage = 0, proc_damage_type = 0, proc_name = [], gem_slots = 0,
      vendor_price = 0, weight = 0, no_rent = False, no_drop = False\<rparr>"

type_synonym registry = "item list"

text \<open>\<open>lookup\<close> goes by path, \<open>lookup_by_name\<close> scans the values; both refuse the empty string.\<close>

definition lookup :: "registry \<Rightarrow> string \<Rightarrow> item option" where
  "lookup R p = (if p = [] then None else find (\<lambda>i. path i = p) R)"

definition lookup_by_name :: "registry \<Rightarrow> string \<Rightarrow> item option" where
  "lookup_by_name R n = (if n = [] then None else find (\<lambda>i. name i = n) R)"

definition is_no_drop :: "registry \<Rightarrow> string \<Rightarrow> bool" where
  "is_no_drop R p = (case lookup R p of None \<Rightarrow> False | Some i \<Rightarrow> no_drop i)"

definition is_no_rent :: "registry \<Rightarrow> string \<Rightarrow> bool" where
  "is_no_rent R p = (case lookup R p of None \<Rightarrow> False | Some i \<Rightarrow> no_rent i)"

definition is_equippable_in_slot :: "registry \<Rightarrow> string \<Rightarrow> nat \<Rightarrow> bool" where
  "is_equippable_in_slot R p slot =
     (case lookup R p of
        None \<Rightarrow> False
      | Some i \<Rightarrow>
          (case item_type i of
             Weapon \<Rightarrow> slot = 0 \<or> slot = 1
           | Offhand \<Rightarrow> slot = 1
           | Head \<Rightarrow> slot = 2
           | Chest \<Rightarrow> slot = 3
           | Legs \<Rightarrow> slot = 4
           | Feet \<Rightarrow> slot = 5
           | Hands \<Rightarrow> slot = 6
           | Ring \<Rightarrow> slot = 7
           | Neck \<Rightarrow> slot = 8
           | _ \<Rightarrow> False))"

definition max_stack :: "registry \<Rightarrow> string \<Rightarrow> nat" where
  "max_stack R p = (case lookup R p of None \<Rightarrow> u32_max | Some i \<Rightarrow> stack_size i)"

definition bag_num_slots :: "registry \<Rightarrow> string \<Rightarrow> nat option" where
  "bag_num_slots R p =
     (case lookup R p of
        None \<Rightarrow> None
      | Some i \<Rightarrow> if item_type i = Bag \<and> bag_num_slots_field i > 0 then Some (bag_num_slots_field i) else None)"

text \<open>What the embedded table guarantees of every item: a stack holds between one and
  \<open>u32::MAX\<close> units.\<close>

definition reg_ok :: "registry \<Rightarrow> bool" where
  "reg_ok R \<longleftrightarrow> list_all (\<lambda>i. 1 \<le> stack_size i \<and> stack_size i \<le> u32_max) R"

text \<open>No bag is NO RENT and no bag can be eaten; the first is what the purge at login relies on.\<close>

definition bags_keep :: "registry \<Rightarrow> bool" where
  "bags_keep R \<longleftrightarrow> list_all (\<lambda>i. item_type i = Bag \<longrightarrow> \<not> no_rent i) R"

lemma lookup_path: "lookup R p = Some i \<Longrightarrow> path i = p \<and> i \<in> set R"
  by (auto simp: lookup_def find_Some_iff split: if_splits)

lemma lookup_by_name_name: "lookup_by_name R n = Some i \<Longrightarrow> name i = n \<and> i \<in> set R"
  by (auto simp: lookup_by_name_def find_Some_iff split: if_splits)

lemma lookup_empty [simp]: "lookup R [] = None"
  by (simp add: lookup_def)

lemma max_stack_le [simp]: "reg_ok R \<Longrightarrow> max_stack R p \<le> u32_max"
  by (auto simp: max_stack_def reg_ok_def list_all_iff dest!: lookup_path split: option.splits)

lemma max_stack_pos [simp]: "reg_ok R \<Longrightarrow> 0 < max_stack R p"
  by (fastforce simp: max_stack_def reg_ok_def list_all_iff dest!: lookup_path split: option.splits)

lemma equippable_not_bag [simp]: "is_equippable_in_slot R p slot \<Longrightarrow> bag_num_slots R p = None"
  by (auto simp: is_equippable_in_slot_def bag_num_slots_def split: option.splits item_type.splits)

lemma equippable_slot_less: "is_equippable_in_slot R p slot \<Longrightarrow> slot < 9"
  by (auto simp: is_equippable_in_slot_def split: option.splits item_type.splits)

lemma bag_slots_pos: "bag_num_slots R p = Some n \<Longrightarrow> 0 < n"
  by (auto simp: bag_num_slots_def split: option.splits if_splits)

lemma no_rent_not_bag: "bags_keep R \<Longrightarrow> is_no_rent R p \<Longrightarrow> bag_num_slots R p = None"
  by (auto simp: is_no_rent_def bag_num_slots_def bags_keep_def list_all_iff dest!: lookup_path
      split: option.splits)

end
