(* ===== verification/InvCore.thy ===== *)
theory InvCore
  imports Items
begin

text \<open>
  The inventory of \<open>world/inventory.rs\<close>: its entries, its error type, the \<open>(location, slot)\<close>
  addresses of the wire, the state \<open>PlayerInventory\<close>, and the helpers every operation shares
  (\<open>merge_capped\<close>, \<open>ensure_bag_init\<close>, \<open>push_inner_union\<close>, \<open>peek_at\<close>).  An operation returns
  \<open>Inl err\<close>, the inventory unchanged, or \<open>Inr (result, inventory')\<close>.  The lemmas give the two
  measures of the development: \<open>inv_total p\<close>, how many units of item \<open>p\<close> are held anywhere, and
  \<open>inv_wf\<close>, the shape the operations keep.
\<close>

section \<open>Entries, errors and addresses\<close>

record inventory_entry =
  item_path :: string
  ecount :: nat

type_synonym cell = "inventory_entry option"

abbreviation entry :: "string \<Rightarrow> nat \<Rightarrow> inventory_entry" where
  "entry p n \<equiv> \<lparr>item_path = p, ecount = n\<rparr>"

datatype move_error =
    BagInHand | BagInsideBag | BagIntoBagSlot | BagNotEmpty | BagNotEmptyToDestroy
  | BagSlotOutOfRange | BagsFull | BaseItemNotEquippableHere | BaseSlotOutOfRange
  | CursorOccupied | DestinationBagSlotOutOfRange | DifferentItem | EmptyItemPath
  | EquipSlotEmpty | EquipSlotOutOfRange | InventoryFull | NoBagAtSlot | NoDestinationBag
  | NoSourceBag | NotEquippableHere | SameSlot | SlotOutOfRange | SourceBagSlotOutOfRange
  | SourceEmpty | StackSizeExceeded | TooFewToSplit | UnsupportedLocation | ZeroCount

definition BASE_SLOT_COUNT :: nat where "BASE_SLOT_COUNT = 8"
definition EQUIP_SLOT_COUNT :: nat where "EQUIP_SLOT_COUNT = 9"
definition CURSOR_BAG_KEY :: nat where "CURSOR_BAG_KEY = 255"

lemma cursor_key_not_base [simp]: "\<not> CURSOR_BAG_KEY < BASE_SLOT_COUNT"
  by (simp add: CURSOR_BAG_KEY_def BASE_SLOT_COUNT_def)

text \<open>\<open>parse_bag_location\<close>: \<open>bag_<i>\<close> for a base slot, or \<open>bag_255\<close> for the held bag.\<close>

definition bag_loc :: "nat \<Rightarrow> string" where
  "bag_loc k = ''bag_'' @ show_nat k"

definition parse_bag_location :: "string \<Rightarrow> nat option" where
  "parse_bag_location loc =
     (case strip_prefix ''bag_'' loc of
        None \<Rightarrow> None
      | Some suffix \<Rightarrow>
          (case parse_u32 suffix of
             None \<Rightarrow> None
           | Some idx \<Rightarrow> if idx \<ge> BASE_SLOT_COUNT \<and> idx \<noteq> CURSOR_BAG_KEY then None else Some idx))"

definition is_bag_item :: "registry \<Rightarrow> string \<Rightarrow> bool" where
  "is_bag_item R p \<longleftrightarrow> bag_num_slots R p \<noteq> None"

datatype slot_ref = SlotBase nat | SlotBag nat nat | SlotCursor

definition parse_slot_ref :: "string \<Rightarrow> nat \<Rightarrow> move_error + slot_ref" where
  "parse_slot_ref loc slot =
     (if loc = ''base'' then (if slot \<ge> BASE_SLOT_COUNT then Inl BaseSlotOutOfRange else Inr (SlotBase slot))
      else if loc = ''cursor'' then Inr SlotCursor
      else case parse_bag_location loc of
             Some base_idx \<Rightarrow> Inr (SlotBag base_idx slot)
           | None \<Rightarrow> Inl UnsupportedLocation)"

text \<open>\<open>reject_held_bag_slot\<close>, as the test for the only refusal it has.\<close>

definition reject_held_bag_slot :: "slot_ref \<Rightarrow> move_error + unit" where
  "reject_held_bag_slot r =
     (case r of SlotBag b s \<Rightarrow> if b = CURSOR_BAG_KEY then Inl BagInHand else Inr () | _ \<Rightarrow> Inr ())"

section \<open>The inventory\<close>

record player_inventory =
  base :: "cell list"
  equipment :: "(nat \<times> inventory_entry) list"
  bags :: "(nat \<times> cell list) list"
  cursor :: cell

definition inventory_new :: player_inventory where
  "inventory_new = \<lparr>base = replicate BASE_SLOT_COUNT None, equipment = [], bags = [], cursor = None\<rparr>"

definition merge_capped :: "registry \<Rightarrow> inventory_entry \<Rightarrow> inventory_entry \<Rightarrow> inventory_entry \<times> cell" where
  "merge_capped R existing incoming =
     (let cap = max_stack R (item_path existing);
          space = cap - ecount existing;
          moved = min (ecount incoming) space;
          leftover = ecount incoming - moved
      in (entry (item_path existing) (add32_sat (ecount existing) moved),
          if leftover > 0 then Some (entry (item_path incoming) leftover) else None))"

text \<open>
  The \<open>match\<close> every move between two plain cells ends in: into an empty cell, onto the same item
  (capped, the rest goes back), or a swap.  The result is the new destination and source cell.
\<close>

definition settle :: "registry \<Rightarrow> inventory_entry \<Rightarrow> cell \<Rightarrow> cell \<times> cell" where
  "settle R src_entry dst_cell =
     (case dst_cell of
        None \<Rightarrow> (Some src_entry, None)
      | Some existing \<Rightarrow>
          if item_path existing = item_path src_entry
          then (case merge_capped R existing src_entry of (merged, leftover) \<Rightarrow> (Some merged, leftover))
          else (Some src_entry, Some existing))"

definition ensure_bag_init :: "registry \<Rightarrow> nat \<Rightarrow> player_inventory \<Rightarrow> player_inventory" where
  "ensure_bag_init R base_idx iv =
     (case vget (base iv) base_idx of
        None \<Rightarrow> iv\<lparr>bags := AList.delete base_idx (bags iv)\<rparr>
      | Some e \<Rightarrow>
          (case bag_num_slots R (item_path e) of
             Some n \<Rightarrow> iv\<lparr>bags := or_insert base_idx (replicate n None) (bags iv)\<rparr>
           | None \<Rightarrow> iv\<lparr>bags := AList.delete base_idx (bags iv)\<rparr>))"

definition bag_key_is_nonempty :: "nat \<Rightarrow> player_inventory \<Rightarrow> bool" where
  "bag_key_is_nonempty key iv =
     (case map_of (bags iv) key of Some arr \<Rightarrow> list_ex (\<lambda>s. s \<noteq> None) arr | None \<Rightarrow> False)"

definition occupied_inner_slots :: "nat \<Rightarrow> player_inventory \<Rightarrow> nat list" where
  "occupied_inner_slots key iv =
     (case map_of (bags iv) key of
        None \<Rightarrow> []
      | Some arr \<Rightarrow> filter (\<lambda>i. arr ! i \<noteq> None) [0..<length arr])"

definition push_inner_union :: "nat \<Rightarrow> nat list \<Rightarrow> player_inventory \<Rightarrow> (string \<times> nat) list
    \<Rightarrow> (string \<times> nat) list" where
  "push_inner_union key pre iv touched =
     (let slots = fold (\<lambda>i acc. if i \<in> set acc then acc else acc @ [i]) (occupied_inner_slots key iv) pre
      in touched @ map (\<lambda>i. (bag_loc key, i)) slots)"

definition cell_pair :: "cell \<Rightarrow> (string \<times> nat) option" where
  "cell_pair c = map_option (\<lambda>e. (item_path e, ecount e)) c"

definition cell_at :: "slot_ref \<Rightarrow> player_inventory \<Rightarrow> cell" where
  "cell_at r iv =
     (case r of
        SlotCursor \<Rightarrow> cursor iv
      | SlotBase s \<Rightarrow> vget (base iv) s
      | SlotBag b s \<Rightarrow> (case map_of (bags iv) b of None \<Rightarrow> None | Some arr \<Rightarrow> vget arr s))"

definition peek_at :: "string \<Rightarrow> nat \<Rightarrow> player_inventory \<Rightarrow> (string \<times> nat) option" where
  "peek_at loc slot iv =
     (case parse_slot_ref loc slot of Inl err \<Rightarrow> None | Inr r \<Rightarrow> cell_pair (cell_at r iv))"

text \<open>Assignment to the place an address names: \<open>base[s]\<close>, \<open>bags[b][s]\<close> or \<open>cursor\<close>.\<close>

definition set_cell :: "slot_ref \<Rightarrow> cell \<Rightarrow> player_inventory \<Rightarrow> player_inventory" where
  "set_cell r c iv =
     (case r of
        SlotCursor \<Rightarrow> iv\<lparr>cursor := c\<rparr>
      | SlotBase s \<Rightarrow> iv\<lparr>base := (base iv)[s := c]\<rparr>
      | SlotBag b s \<Rightarrow>
          (case map_of (bags iv) b of
             None \<Rightarrow> iv
           | Some arr \<Rightarrow> iv\<lparr>bags := AList.update b (arr[s := c]) (bags iv)\<rparr>))"

section \<open>Totals\<close>

definition cell_count :: "string \<Rightarrow> cell \<Rightarrow> nat" where
  "cell_count p c = (case c of None \<Rightarrow> 0 | Some e \<Rightarrow> if item_path e = p then ecount e else 0)"

definition cells_total :: "string \<Rightarrow> cell list \<Rightarrow> nat" where
  "cells_total p cs = sum_list (map (cell_count p) cs)"

definition equip_total :: "string \<Rightarrow> (nat \<times> inventory_entry) list \<Rightarrow> nat" where
  "equip_total p m = al_sum (\<lambda>e. cell_count p (Some e)) m"

definition bags_total :: "string \<Rightarrow> (nat \<times> cell list) list \<Rightarrow> nat" where
  "bags_total p m = al_sum (cells_total p) m"

definition inv_total :: "string \<Rightarrow> player_inventory \<Rightarrow> nat" where
  "inv_total p iv = cells_total p (base iv) + equip_total p (equipment iv)
     + bags_total p (bags iv) + cell_count p (cursor iv)"

lemma cell_count_None [simp]: "cell_count p None = 0"
  by (simp add: cell_count_def)

lemma cell_count_Some [simp]: "cell_count p (Some e) = (if item_path e = p then ecount e else 0)"
  by (simp add: cell_count_def)

lemma cells_total_Nil [simp]: "cells_total p [] = 0"
  by (simp add: cells_total_def)

lemma cells_total_Cons [simp]: "cells_total p (c # cs) = cell_count p c + cells_total p cs"
  by (simp add: cells_total_def)

lemma cells_total_replicate [simp]: "cells_total p (replicate n None) = 0"
  by (induction n) simp_all

lemma cells_total_update:
  "i < length cs \<Longrightarrow> cells_total p (cs[i := c]) + cell_count p (cs ! i) = cells_total p cs + cell_count p c"
  by (simp add: cells_total_def sum_list_update_nat)

lemma cells_total_all_None: "list_all (\<lambda>c. c = None) cs \<Longrightarrow> cells_total p cs = 0"
  by (induction cs) auto

lemma bags_total_delete:
  "distinct (map fst m) \<Longrightarrow>
     bags_total p (AList.delete k m) + opt_sum (cells_total p) (map_of m k) = bags_total p m"
  by (simp add: bags_total_def al_sum_delete)

lemma bags_total_update:
  "distinct (map fst m) \<Longrightarrow>
     bags_total p (AList.update k arr m) + opt_sum (cells_total p) (map_of m k)
       = bags_total p m + cells_total p arr"
  by (simp add: bags_total_def al_sum_update)

lemma bags_total_cell:
  assumes "distinct (map fst m)" "map_of m k = Some arr" "i < length arr"
  shows "bags_total p (AList.update k (arr[i := c]) m) + cell_count p (arr ! i)
       = bags_total p m + cell_count p c"
  using bags_total_update [OF assms(1), of p k "arr[i := c]"] cells_total_update [OF assms(3), of p c]
    assms(2) by simp

lemma bags_total_reattach:
  "distinct (map fst m) \<Longrightarrow> map_of m k = None \<Longrightarrow>
     bags_total p (reattach k v m) = bags_total p m + opt_sum (cells_total p) v"
  by (simp add: bags_total_def al_sum_reattach)

lemma bags_total_or_insert [simp]:
  "distinct (map fst m) \<Longrightarrow> bags_total p (or_insert k (replicate n None) m) = bags_total p m"
  by (simp add: bags_total_def al_sum_or_insert_zero)

lemma equip_total_delete:
  "distinct (map fst m) \<Longrightarrow>
     equip_total p (AList.delete k m) + cell_count p (map_of m k) = equip_total p m"
  using al_sum_delete [of m "\<lambda>e. cell_count p (Some e)" k]
  by (cases "map_of m k") (simp_all add: equip_total_def)

lemma equip_total_update:
  "distinct (map fst m) \<Longrightarrow>
     equip_total p (AList.update k e m) + cell_count p (map_of m k) = equip_total p m + cell_count p (Some e)"
  using al_sum_update [of m "\<lambda>e. cell_count p (Some e)" k e]
  by (cases "map_of m k") (simp_all add: equip_total_def)

section \<open>Well-formed inventories\<close>

definition entry_ok :: "inventory_entry \<Rightarrow> bool" where
  "entry_ok e \<longleftrightarrow> item_path e \<noteq> [] \<and> 1 \<le> ecount e \<and> ecount e \<le> u32_max"

definition cell_ok :: "cell \<Rightarrow> bool" where
  "cell_ok c = (case c of None \<Rightarrow> True | Some e \<Rightarrow> entry_ok e)"

text \<open>A cell that is no bag: what an inner slot may hold.\<close>

definition inner_ok :: "registry \<Rightarrow> cell \<Rightarrow> bool" where
  "inner_ok R c = (case c of None \<Rightarrow> True | Some e \<Rightarrow> entry_ok e \<and> bag_num_slots R (item_path e) = None)"

definition hosts_bag :: "registry \<Rightarrow> cell \<Rightarrow> bool" where
  "hosts_bag R c = (case c of None \<Rightarrow> False | Some e \<Rightarrow> bag_num_slots R (item_path e) \<noteq> None)"

text \<open>
  The shape every operation keeps.  A base slot has a contents vector exactly when it holds a bag;
  the contents of the hand (key 255) are empty unless a bag is held; worn items fit their slots;
  no inner slot holds a bag.  \<open>base_wf\<close> takes the slots at which the contents may still be out
  of step, to be put right by \<open>ensure_bag_init\<close>.
\<close>

definition vec_empty :: "cell list option \<Rightarrow> bool" where
  "vec_empty v = (case v of None \<Rightarrow> True | Some arr \<Rightarrow> list_all (\<lambda>x. x = None) arr)"

abbreviation contents_empty :: "nat \<Rightarrow> (nat \<times> cell list) list \<Rightarrow> bool" where
  "contents_empty k m \<equiv> vec_empty (map_of m k)"

lemma vec_empty_None [simp]: "vec_empty None"
  by (simp add: vec_empty_def)

lemma vec_empty_Some [simp]: "vec_empty (Some arr) = list_all (\<lambda>x. x = None) arr"
  by (simp add: vec_empty_def)

lemma vec_empty_total: "vec_empty v \<Longrightarrow> opt_sum (cells_total p) v = 0"
  by (simp add: vec_empty_def cells_total_all_None split: option.splits)

definition base_wf :: "nat set \<Rightarrow> registry \<Rightarrow> cell list \<Rightarrow> (nat \<times> cell list) list \<Rightarrow> bool" where
  "base_wf S R b m \<longleftrightarrow> length b = BASE_SLOT_COUNT \<and> list_all cell_ok b
     \<and> list_all (\<lambda>k. if k \<in> S then hosts_bag R (b ! k) \<or> contents_empty k m
                     else hosts_bag R (b ! k) = (map_of m k \<noteq> None)) [0..<BASE_SLOT_COUNT]"

definition bags_wf :: "registry \<Rightarrow> (nat \<times> cell list) list \<Rightarrow> bool" where
  "bags_wf R m \<longleftrightarrow> distinct (map fst m)
     \<and> list_all (\<lambda>(k, arr). (k < BASE_SLOT_COUNT \<or> k = CURSOR_BAG_KEY) \<and> list_all (inner_ok R) arr) m"

definition hand_wf :: "registry \<Rightarrow> cell \<Rightarrow> (nat \<times> cell list) list \<Rightarrow> bool" where
  "hand_wf R c m \<longleftrightarrow> cell_ok c \<and> (hosts_bag R c \<or> contents_empty CURSOR_BAG_KEY m)"

definition equip_wf :: "registry \<Rightarrow> (nat \<times> inventory_entry) list \<Rightarrow> bool" where
  "equip_wf R m \<longleftrightarrow> distinct (map fst m)
     \<and> list_all (\<lambda>(k, e). entry_ok e \<and> is_equippable_in_slot R (item_path e) k) m"

definition inv_wf_but :: "nat set \<Rightarrow> registry \<Rightarrow> player_inventory \<Rightarrow> bool" where
  "inv_wf_but S R iv \<longleftrightarrow> base_wf S R (base iv) (bags iv) \<and> bags_wf R (bags iv)
     \<and> hand_wf R (cursor iv) (bags iv) \<and> equip_wf R (equipment iv)"

abbreviation inv_wf :: "registry \<Rightarrow> player_inventory \<Rightarrow> bool" where
  "inv_wf \<equiv> inv_wf_but {}"

lemma base_wf_iff:
  "base_wf S R b m \<longleftrightarrow> length b = BASE_SLOT_COUNT \<and> (\<forall>k<BASE_SLOT_COUNT. cell_ok (b ! k))
     \<and> (\<forall>k<BASE_SLOT_COUNT. k \<notin> S \<longrightarrow> hosts_bag R (b ! k) = (map_of m k \<noteq> None))
     \<and> (\<forall>k<BASE_SLOT_COUNT. k \<in> S \<longrightarrow> hosts_bag R (b ! k) \<or> contents_empty k m)"
  by (auto simp: base_wf_def list_all_length list_all_iff simp del: upt.simps)

lemma bags_wf_iff:
  "bags_wf R m \<longleftrightarrow> distinct (map fst m)
     \<and> (\<forall>k arr. map_of m k = Some arr \<longrightarrow> (k < BASE_SLOT_COUNT \<or> k = CURSOR_BAG_KEY) \<and> list_all (inner_ok R) arr)"
  unfolding bags_wf_def by (rule conj_cong [OF refl]) (rule list_all_map_of)

lemma equip_wf_iff:
  "equip_wf R m \<longleftrightarrow> distinct (map fst m)
     \<and> (\<forall>k e. map_of m k = Some e \<longrightarrow> entry_ok e \<and> is_equippable_in_slot R (item_path e) k)"
  unfolding equip_wf_def by (rule conj_cong [OF refl]) (rule list_all_map_of)

lemmas inv_wf_iffs = inv_wf_but_def base_wf_iff bags_wf_iff equip_wf_iff hand_wf_def

lemma inv_wf_distinct: "inv_wf_but S R iv \<Longrightarrow> distinct (map fst (bags iv))"
  "inv_wf_but S R iv \<Longrightarrow> distinct (map fst (equipment iv))"
  by (simp_all add: inv_wf_iffs)

lemma inv_wf_length: "inv_wf_but S R iv \<Longrightarrow> length (base iv) = BASE_SLOT_COUNT"
  by (simp add: inv_wf_iffs)

lemma inv_wf_new: "inv_wf R inventory_new"
  by (auto simp: inv_wf_iffs inventory_new_def cell_ok_def hosts_bag_def)

lemma inv_wf_base_entry: "inv_wf_but S R iv \<Longrightarrow> k < BASE_SLOT_COUNT \<Longrightarrow> base iv ! k = Some e \<Longrightarrow> entry_ok e"
  by (force simp: inv_wf_iffs cell_ok_def)

lemma inv_wf_inner: "inv_wf_but S R iv \<Longrightarrow> map_of (bags iv) b = Some arr \<Longrightarrow> s < length arr \<Longrightarrow> inner_ok R (arr ! s)"
  by (auto simp: inv_wf_iffs list_all_length)

lemma inv_wf_cursor_entry: "inv_wf_but S R iv \<Longrightarrow> cursor iv = Some e \<Longrightarrow> entry_ok e"
  by (force simp: inv_wf_iffs cell_ok_def)

lemma inv_wf_mono: "inv_wf_but S R iv \<Longrightarrow> S \<subseteq> T \<Longrightarrow> inv_wf_but T R iv"
  by (fastforce simp: inv_wf_iffs)

text \<open>\<open>ensure_bag_init\<close> puts one slot right, moves no item, and does nothing where all is well.\<close>

lemma ensure_bag_init_base [simp]:
  "base (ensure_bag_init R k iv) = base iv"
  "cursor (ensure_bag_init R k iv) = cursor iv"
  "equipment (ensure_bag_init R k iv) = equipment iv"
  by (simp_all add: ensure_bag_init_def split: option.splits)

lemma ensure_bag_init_total:
  assumes "inv_wf_but S R iv" "k < BASE_SLOT_COUNT" "k \<in> S"
  shows "inv_total p (ensure_bag_init R k iv) = inv_total p iv"
proof (cases "hosts_bag R (base iv ! k)")
  case True
  with assms show ?thesis
    by (auto simp: ensure_bag_init_def inv_total_def hosts_bag_def inv_wf_distinct inv_wf_length
        split: option.splits)
next
  case False
  then have del: "ensure_bag_init R k iv = iv\<lparr>bags := AList.delete k (bags iv)\<rparr>"
    using assms by (auto simp: ensure_bag_init_def hosts_bag_def inv_wf_length split: option.splits)
  have "contents_empty k (bags iv)" using False assms by (auto simp: inv_wf_iffs)
  then have "opt_sum (cells_total p) (map_of (bags iv) k) = 0" by (rule vec_empty_total)
  with bags_total_delete [OF inv_wf_distinct(1) [OF assms(1)], of p k] show ?thesis
    by (simp add: del inv_total_def)
qed

lemma inner_ok_None [simp]: "inner_ok R None"
  by (simp add: inner_ok_def)

lemma cell_ok_None [simp]: "cell_ok None"
  by (simp add: cell_ok_def)

lemma hosts_bag_None [simp]: "\<not> hosts_bag R None"
  by (simp add: hosts_bag_def)

lemma inner_ok_iff: "inner_ok R c \<longleftrightarrow> cell_ok c \<and> \<not> hosts_bag R c"
  by (auto simp: inner_ok_def cell_ok_def hosts_bag_def split: option.splits)

lemma ensure_bag_init_wf:
  assumes wf: "inv_wf_but S R iv" and k: "k < BASE_SLOT_COUNT"
  shows "inv_wf_but (S - {k}) R (ensure_bag_init R k iv)"
proof (cases "hosts_bag R (base iv ! k)")
  case True
  then obtain n where "ensure_bag_init R k iv = iv\<lparr>bags := or_insert k (replicate n None) (bags iv)\<rparr>"
    using wf k by (auto simp: ensure_bag_init_def hosts_bag_def inv_wf_length split: option.splits)
  with wf k True show ?thesis
    by (auto simp: inv_wf_iffs list_all_length)
next
  case False
  then have "ensure_bag_init R k iv = iv\<lparr>bags := AList.delete k (bags iv)\<rparr>"
    using wf k by (auto simp: ensure_bag_init_def hosts_bag_def inv_wf_length split: option.splits)
  with wf k False show ?thesis
    by (auto simp: inv_wf_iffs split: if_splits)
qed

lemma ensure_bag_init_id [simp]:
  assumes "inv_wf R iv" "k < BASE_SLOT_COUNT"
  shows "ensure_bag_init R k iv = iv"
  using assms
  by (auto simp: ensure_bag_init_def inv_wf_iffs hosts_bag_def delete_absent or_insert_present
      split: option.splits)

section \<open>Reading and writing one cell\<close>

definition valid_ref :: "slot_ref \<Rightarrow> player_inventory \<Rightarrow> bool" where
  "valid_ref r iv =
     (case r of
        SlotCursor \<Rightarrow> True
      | SlotBase s \<Rightarrow> s < length (base iv)
      | SlotBag b s \<Rightarrow> (case map_of (bags iv) b of None \<Rightarrow> False | Some arr \<Rightarrow> s < length arr))"

lemma cell_at_Some_valid: "cell_at r iv = Some e \<Longrightarrow> valid_ref r iv"
  by (auto simp: cell_at_def valid_ref_def dest: vget_Some_less split: slot_ref.splits option.splits)

lemma cell_at_set_cell:
  "valid_ref r iv \<Longrightarrow> cell_at r' (set_cell r c iv) = (if r = r' then c else cell_at r' iv)"
  by (auto simp: cell_at_def set_cell_def valid_ref_def vget_def split: slot_ref.splits option.splits)

lemma valid_ref_set_cell [simp]: "valid_ref r' (set_cell r c iv) = valid_ref r' iv"
  by (auto simp: set_cell_def valid_ref_def split: slot_ref.splits option.splits)

lemma set_cell_total:
  assumes "distinct (map fst (bags iv))" "valid_ref r iv"
  shows "inv_total p (set_cell r c iv) + cell_count p (cell_at r iv) = inv_total p iv + cell_count p c"
proof (cases r)
  case (SlotBase s)
  then show ?thesis
    using assms cells_total_update [of s "base iv" p c]
    by (simp add: set_cell_def cell_at_def valid_ref_def inv_total_def)
next
  case (SlotBag b s)
  then obtain arr where arr: "map_of (bags iv) b = Some arr" "s < length arr"
    using assms(2) by (auto simp: valid_ref_def split: option.splits)
  with bags_total_cell [OF assms(1), of b arr s p c] SlotBag show ?thesis
    by (simp add: set_cell_def cell_at_def inv_total_def)
next
  case SlotCursor
  then show ?thesis by (simp add: set_cell_def cell_at_def inv_total_def)
qed

lemma set_cell_wf:
  assumes wf: "inv_wf R iv" and ref: "valid_ref r iv" and free: "reject_held_bag_slot r = Inr ()"
    and new: "inner_ok R c" and old: "\<not> hosts_bag R (cell_at r iv)"
  shows "inv_wf R (set_cell r c iv)"
proof (cases r)
  case (SlotBase s)
  with assms show ?thesis
    by (auto simp: set_cell_def cell_at_def valid_ref_def inv_wf_iffs inner_ok_iff nth_list_update)
next
  case (SlotBag b s)
  then obtain arr where arr: "map_of (bags iv) b = Some arr" "s < length arr"
    using ref by (auto simp: valid_ref_def split: option.splits)
  then have inner: "list_all (inner_ok R) (arr[s := c])"
    using wf new by (intro list_all_update) (auto simp: inv_wf_iffs)
  have shape: "set_cell r c iv = iv\<lparr>bags := AList.update b (arr[s := c]) (bags iv)\<rparr>"
    using SlotBag arr by (simp add: set_cell_def)
  have "b \<noteq> CURSOR_BAG_KEY" using free SlotBag by (simp add: reject_held_bag_slot_def split: if_splits)
  with wf arr inner show ?thesis
    unfolding shape by (auto simp: inv_wf_iffs)
next
  case SlotCursor
  with assms show ?thesis
    by (auto simp: set_cell_def cell_at_def inv_wf_iffs inner_ok_iff)
qed

section \<open>Merging\<close>

lemma merge_capped_total:
  assumes "reg_ok R" "ecount existing \<le> u32_max" "item_path existing = item_path incoming"
    and "merge_capped R existing incoming = (merged, back)"
  shows "cell_count p (Some merged) + cell_count p back = cell_count p (Some existing) + cell_count p (Some incoming)"
proof -
  define cap where "cap = max_stack R (item_path existing)"
  have "cap \<le> u32_max" using assms(1) by (simp add: cap_def)
  then have "ecount existing + min (ecount incoming) (cap - ecount existing) \<le> u32_max"
    using assms(2) by linarith
  then have sum: "add32_sat (ecount existing) (min (ecount incoming) (cap - ecount existing))
      = ecount existing + min (ecount incoming) (cap - ecount existing)" by simp
  have "merged = entry (item_path existing) (ecount existing + min (ecount incoming) (cap - ecount existing))"
    and "back = (if ecount incoming - min (ecount incoming) (cap - ecount existing) > 0
      then Some (entry (item_path incoming) (ecount incoming - min (ecount incoming) (cap - ecount existing))) else None)"
    using assms(4) sum by (simp_all add: merge_capped_def Let_def cap_def [symmetric])
  with assms(3) show ?thesis by (auto split: if_splits)
qed

lemma merge_capped_paths:
  assumes "merge_capped R existing incoming = (merged, back)"
  shows "item_path merged = item_path existing"
    "\<And>b. back = Some b \<Longrightarrow> item_path b = item_path incoming \<and> 1 \<le> ecount b \<and> ecount b \<le> ecount incoming"
  using assms by (auto simp: merge_capped_def Let_def split: if_splits)

lemma merge_capped_ok:
  assumes "merge_capped R existing incoming = (merged, back)" "entry_ok existing" "entry_ok incoming"
  shows "entry_ok merged \<and> cell_ok back"
  using assms add32_sat_le
  by (auto simp: merge_capped_def Let_def entry_ok_def cell_ok_def add32_sat_def split: if_splits)

text \<open>A merge never builds a stack above the item's cap, unless it was above it before.\<close>

lemma merge_capped_cap:
  assumes "merge_capped R existing incoming = (merged, back)"
  shows "ecount merged \<le> max (ecount existing) (max_stack R (item_path existing))"
  using assms by (auto simp: merge_capped_def Let_def add32_sat_def)

lemma settle_total:
  assumes "reg_ok R" "cell_ok d" "settle R e d = (d', s')"
  shows "cell_count p d' + cell_count p s' = cell_count p (Some e) + cell_count p d"
proof (cases d)
  case None
  with assms(3) show ?thesis by (simp add: settle_def)
next
  case (Some x)
  obtain m b where mb: "merge_capped R x e = (m, b)" by (cases "merge_capped R x e")
  show ?thesis
  proof (cases "item_path x = item_path e")
    case True
    have "ecount x \<le> u32_max" using assms(2) Some by (simp add: cell_ok_def entry_ok_def)
    note total = merge_capped_total [OF assms(1) this True mb, of p]
    have "d' = Some m" "s' = b" using assms(3) Some mb True by (auto simp: settle_def)
    with total Some show ?thesis by (simp only: add.commute)
  next
    case False
    with assms(3) Some show ?thesis by (simp add: settle_def)
  qed
qed

lemma settle_inner:
  assumes "settle R e d = (d', s')" "inner_ok R (Some e)" "inner_ok R d"
  shows "inner_ok R d' \<and> inner_ok R s'"
proof (cases d)
  case None
  with assms show ?thesis by (simp add: settle_def)
next
  case (Some x)
  obtain m b where mb: "merge_capped R x e = (m, b)" by (cases "merge_capped R x e")
  show ?thesis
  proof (cases "item_path x = item_path e")
    case True
    have res: "d' = Some m" "s' = b" using assms(1) Some mb True by (auto simp: settle_def)
    have "entry_ok x" "entry_ok e" "bag_num_slots R (item_path x) = None"
      using assms(2,3) Some by (simp_all add: inner_ok_def)
    then have ok: "entry_ok m" "cell_ok b" and path: "bag_num_slots R (item_path m) = None"
      using merge_capped_ok [OF mb] merge_capped_paths(1) [OF mb] by simp_all
    have "inner_ok R b"
    proof (cases b)
      case (Some y)
      then have "item_path y = item_path x" using merge_capped_paths(2) [OF mb Some] True by simp
      with ok(2) Some \<open>bag_num_slots R (item_path x) = None\<close> show ?thesis
        by (simp add: inner_ok_def cell_ok_def)
    qed simp
    with ok path show ?thesis by (simp add: res inner_ok_def)
  next
    case False
    with assms Some show ?thesis by (auto simp: settle_def)
  qed
qed

text \<open>
  A move between two different plain cells, as one fact: it keeps every total and the shape of the
  inventory.
\<close>

lemma settle_move:
  assumes reg: "reg_ok R" and wf: "inv_wf R iv" and neq: "src \<noteq> dst"
    and src: "cell_at src iv = Some e" "inner_ok R (Some e)" "reject_held_bag_slot src = Inr ()"
    and dst: "valid_ref dst iv" "inner_ok R (cell_at dst iv)" "reject_held_bag_slot dst = Inr ()"
    and st: "settle R e (cell_at dst iv) = (d', s')"
  shows "inv_wf R (set_cell src s' (set_cell dst d' iv))
    \<and> inv_total p (set_cell src s' (set_cell dst d' iv)) = inv_total p iv"
proof -
  note cells = settle_inner [OF st src(2) dst(2)]
  have valid: "valid_ref src iv" using src(1) by (rule cell_at_Some_valid)
  let ?m = "set_cell dst d' iv"
  have m: "inv_wf R ?m" using wf dst cells by (intro set_cell_wf [of R iv]) (simp_all add: inner_ok_iff)
  have at: "cell_at src ?m = Some e" using neq src(1) dst(1) by (simp add: cell_at_set_cell)
  have w: "inv_wf R (set_cell src s' ?m)"
    using m valid src cells at by (intro set_cell_wf [of R ?m]) (simp_all add: inner_ok_iff)
  have "cell_ok (cell_at dst iv)" using dst(2) by (simp add: inner_ok_iff)
  with set_cell_total [OF inv_wf_distinct(1) [OF wf] dst(1), of p d']
    set_cell_total [OF inv_wf_distinct(1) [OF m], of src p s'] at valid
    settle_total [OF reg _ st, of p] w
  show ?thesis by (auto simp del: cell_count_Some)
qed

text \<open>The refusal of the held bag's inner slots, as a test.\<close>

lemma reject_held_cases:
  "reject_held_bag_slot r = Inr () \<longleftrightarrow> (\<forall>s. r \<noteq> SlotBag CURSOR_BAG_KEY s)"
  by (auto simp: reject_held_bag_slot_def split: slot_ref.splits)

section \<open>Addresses\<close>

lemma parse_bag_loc [simp]:
  "k < BASE_SLOT_COUNT \<or> k = CURSOR_BAG_KEY \<Longrightarrow> parse_bag_location (bag_loc k) = Some k"
  by (auto simp: parse_bag_location_def bag_loc_def strip_prefix_def BASE_SLOT_COUNT_def CURSOR_BAG_KEY_def)

lemma bag_loc_not_plain [simp]: "bag_loc k \<noteq> ''base''" "bag_loc k \<noteq> ''cursor''" "bag_loc k \<noteq> ''equip''"
  by (simp_all add: bag_loc_def)

lemma parse_bag_location_range:
  "parse_bag_location loc = Some k \<Longrightarrow> k < BASE_SLOT_COUNT \<or> k = CURSOR_BAG_KEY"
  by (auto simp: parse_bag_location_def split: option.splits if_splits)

lemma parse_bag_location_plain [simp]:
  "parse_bag_location ''base'' = None" "parse_bag_location ''cursor'' = None"
  "parse_bag_location ''equip'' = None"
  by (simp_all add: parse_bag_location_def strip_prefix_def)

definition show_ref :: "slot_ref \<Rightarrow> string \<times> nat" where
  "show_ref r = (case r of SlotBase s \<Rightarrow> (''base'', s) | SlotBag b s \<Rightarrow> (bag_loc b, s) | SlotCursor \<Rightarrow> (''cursor'', 0))"

lemma parse_show_ref:
  "(case r of SlotBase s \<Rightarrow> s < BASE_SLOT_COUNT | SlotBag b s \<Rightarrow> b < BASE_SLOT_COUNT \<or> b = CURSOR_BAG_KEY
      | SlotCursor \<Rightarrow> True) \<Longrightarrow> parse_slot_ref (fst (show_ref r)) (snd (show_ref r)) = Inr r"
  by (auto simp: show_ref_def parse_slot_ref_def split: slot_ref.splits)

end
