(* ===== verification/InvMove.thy ===== *)
theory InvMove
  imports InvCore
begin

text \<open>
  Moving stacks between slots: the ten inner helpers of \<open>PlayerInventory\<close> and their dispatcher
  \<open>move_across\<close>.  A bag that moves between base slots and the hand takes its contents along.  The
  lemmas show that each helper keeps every item's total and the shape of the inventory.
\<close>

type_synonym touched = "(string \<times> nat) list"
type_synonym 'a inv_result = "move_error + ('a \<times> player_inventory)"

section \<open>Moves of base slots and of the hand\<close>

definition move_base :: "registry \<Rightarrow> nat \<Rightarrow> nat \<Rightarrow> player_inventory \<Rightarrow> touched inv_result" where
  "move_base R src dst iv =
     (if src \<ge> BASE_SLOT_COUNT \<or> dst \<ge> BASE_SLOT_COUNT then Inl SlotOutOfRange
      else if src = dst then Inr ([], iv)
      else case base iv ! src of
        None \<Rightarrow> Inl SourceEmpty
      | Some src_entry \<Rightarrow>
          let touched = [(''base'', src), (''base'', dst)];
              pre_src = occupied_inner_slots src iv;
              pre_dst = occupied_inner_slots dst iv;
              src_vec = map_of (bags iv) src;
              dst_vec = map_of (bags iv) dst;
              taken = iv\<lparr>base := (base iv)[src := None],
                         bags := AList.delete dst (AList.delete src (bags iv))\<rparr>;
              src_is_bag = is_bag_item R (item_path src_entry);
              iv1 =
                (case base taken ! dst of
                   None \<Rightarrow> taken\<lparr>base := (base taken)[dst := Some src_entry],
                                bags := reattach dst src_vec (bags taken)\<rparr>
                 | Some existing \<Rightarrow>
                     if item_path existing = item_path src_entry \<and> \<not> src_is_bag
                     then (case merge_capped R existing src_entry of (merged, leftover) \<Rightarrow>
                             taken\<lparr>base := (base taken)[dst := Some merged, src := leftover]\<rparr>)
                     else taken\<lparr>base := (base taken)[src := Some existing, dst := Some src_entry],
                                bags := reattach src dst_vec (reattach dst src_vec (bags taken))\<rparr>);
              iv2 = ensure_bag_init R dst (ensure_bag_init R src iv1)
          in Inr (push_inner_union dst pre_dst iv2 (push_inner_union src pre_src iv2 touched), iv2))"

definition move_base_to_cursor :: "registry \<Rightarrow> nat \<Rightarrow> player_inventory \<Rightarrow> touched inv_result" where
  "move_base_to_cursor R src iv =
     (if src \<ge> BASE_SLOT_COUNT then Inl BaseSlotOutOfRange
      else case base iv ! src of
        None \<Rightarrow> Inl SourceEmpty
      | Some src_entry \<Rightarrow>
          let touched = [(''base'', src), (''cursor'', 0)];
              pre_src = occupied_inner_slots src iv;
              pre_held = occupied_inner_slots CURSOR_BAG_KEY iv;
              src_vec = map_of (bags iv) src;
              held_vec = map_of (bags iv) CURSOR_BAG_KEY;
              taken = iv\<lparr>base := (base iv)[src := None], cursor := None,
                         bags := AList.delete CURSOR_BAG_KEY (AList.delete src (bags iv))\<rparr>;
              src_is_bag = is_bag_item R (item_path src_entry);
              iv1 =
                (case cursor iv of
                   None \<Rightarrow> taken\<lparr>cursor := Some src_entry,
                                bags := reattach CURSOR_BAG_KEY src_vec (bags taken)\<rparr>
                 | Some held \<Rightarrow>
                     if item_path held = item_path src_entry \<and> \<not> src_is_bag
                     then (case merge_capped R held src_entry of (merged, leftover) \<Rightarrow>
                             taken\<lparr>cursor := Some merged, base := (base taken)[src := leftover]\<rparr>)
                     else taken\<lparr>base := (base taken)[src := Some held], cursor := Some src_entry,
                                bags := reattach src held_vec (reattach CURSOR_BAG_KEY src_vec (bags taken))\<rparr>);
              iv2 = ensure_bag_init R src iv1
          in Inr (push_inner_union CURSOR_BAG_KEY pre_held iv2 (push_inner_union src pre_src iv2 touched), iv2))"

definition move_cursor_to_base :: "registry \<Rightarrow> nat \<Rightarrow> player_inventory \<Rightarrow> touched inv_result" where
  "move_cursor_to_base R dst iv =
     (if dst \<ge> BASE_SLOT_COUNT then Inl BaseSlotOutOfRange
      else case cursor iv of
        None \<Rightarrow> Inl SourceEmpty
      | Some held \<Rightarrow>
          let touched = [(''cursor'', 0), (''base'', dst)];
              pre_held = occupied_inner_slots CURSOR_BAG_KEY iv;
              pre_dst = occupied_inner_slots dst iv;
              held_vec = map_of (bags iv) CURSOR_BAG_KEY;
              dst_vec = map_of (bags iv) dst;
              taken = iv\<lparr>base := (base iv)[dst := None], cursor := None,
                         bags := AList.delete dst (AList.delete CURSOR_BAG_KEY (bags iv))\<rparr>;
              held_is_bag = is_bag_item R (item_path held);
              iv1 =
                (case base iv ! dst of
                   None \<Rightarrow> taken\<lparr>base := (base taken)[dst := Some held],
                                bags := reattach dst held_vec (bags taken)\<rparr>
                 | Some existing \<Rightarrow>
                     if item_path existing = item_path held \<and> \<not> held_is_bag
                     then (case merge_capped R existing held of (merged, leftover) \<Rightarrow>
                             taken\<lparr>base := (base taken)[dst := Some merged], cursor := leftover\<rparr>)
                     else taken\<lparr>base := (base taken)[dst := Some held], cursor := Some existing,
                                bags := reattach CURSOR_BAG_KEY dst_vec (reattach dst held_vec (bags taken))\<rparr>);
              iv2 = ensure_bag_init R dst iv1
          in Inr (push_inner_union CURSOR_BAG_KEY pre_held iv2 (push_inner_union dst pre_dst iv2 touched), iv2))"

section \<open>Moves of inner slots\<close>

definition move_bag :: "registry \<Rightarrow> nat \<Rightarrow> nat \<Rightarrow> nat \<Rightarrow> player_inventory \<Rightarrow> touched inv_result" where
  "move_bag R base_idx src dst iv =
     (case map_of (bags iv) base_idx of
        None \<Rightarrow> Inl NoBagAtSlot
      | Some arr \<Rightarrow>
          if src \<ge> length arr \<or> dst \<ge> length arr then Inl BagSlotOutOfRange
          else if src = dst then Inr ([], iv)
          else case arr ! src of
            None \<Rightarrow> Inl SourceEmpty
          | Some src_entry \<Rightarrow>
              (case settle R src_entry (arr ! dst) of (new_dst, new_src) \<Rightarrow>
                 Inr ([(bag_loc base_idx, src), (bag_loc base_idx, dst)],
                      set_cell (SlotBag base_idx src) new_src (set_cell (SlotBag base_idx dst) new_dst iv))))"

definition move_bag_to_cursor :: "registry \<Rightarrow> nat \<Rightarrow> nat \<Rightarrow> player_inventory \<Rightarrow> touched inv_result" where
  "move_bag_to_cursor R base_idx src iv =
     (let refused =
            (case cursor iv of
               None \<Rightarrow> None
             | Some held \<Rightarrow>
                 (case map_of (bags iv) base_idx of
                    None \<Rightarrow> Some NoSourceBag
                  | Some arr \<Rightarrow>
                      (case vget arr src of
                         None \<Rightarrow> Some SourceEmpty
                       | Some src_entry \<Rightarrow>
                           if item_path held \<noteq> item_path src_entry \<and> is_bag_item R (item_path held)
                           then Some BagInsideBag else None)))
      in case refused of
           Some err \<Rightarrow> Inl err
         | None \<Rightarrow>
             (case map_of (bags iv) base_idx of
                None \<Rightarrow> Inl NoSourceBag
              | Some arr \<Rightarrow>
                  if src \<ge> length arr then Inl BagSlotOutOfRange
                  else case arr ! src of
                    None \<Rightarrow> Inl SourceEmpty
                  | Some src_entry \<Rightarrow>
                      (case settle R src_entry (cursor iv) of (new_cursor, new_src) \<Rightarrow>
                         Inr ([(bag_loc base_idx, src), (''cursor'', 0)],
                              set_cell (SlotBag base_idx src) new_src (set_cell SlotCursor new_cursor iv)))))"

definition move_cursor_to_bag :: "registry \<Rightarrow> nat \<Rightarrow> nat \<Rightarrow> player_inventory \<Rightarrow> touched inv_result" where
  "move_cursor_to_bag R base_idx dst iv =
     (case cursor iv of
        None \<Rightarrow> Inl SourceEmpty
      | Some held \<Rightarrow>
          if is_bag_item R (item_path held) then Inl BagInsideBag
          else case map_of (bags iv) base_idx of
            None \<Rightarrow> Inl NoDestinationBag
          | Some arr \<Rightarrow>
              if dst \<ge> length arr then Inl BagSlotOutOfRange
              else (case settle R held (arr ! dst) of (new_dst, new_cursor) \<Rightarrow>
                      Inr ([(''cursor'', 0), (bag_loc base_idx, dst)],
                           set_cell SlotCursor new_cursor (set_cell (SlotBag base_idx dst) new_dst iv))))"

definition move_base_to_bag :: "registry \<Rightarrow> nat \<Rightarrow> nat \<Rightarrow> nat \<Rightarrow> player_inventory \<Rightarrow> touched inv_result" where
  "move_base_to_bag R src base_idx dst iv =
     (if src \<ge> BASE_SLOT_COUNT then Inl BaseSlotOutOfRange
      else case base iv ! src of
        None \<Rightarrow> Inl SourceEmpty
      | Some src_entry \<Rightarrow>
          if is_bag_item R (item_path src_entry) then Inl BagInsideBag
          else case map_of (bags iv) base_idx of
            None \<Rightarrow> Inl NoDestinationBag
          | Some arr \<Rightarrow>
              if dst \<ge> length arr then Inl BagSlotOutOfRange
              else (case settle R src_entry (arr ! dst) of (new_dst, new_src) \<Rightarrow>
                      Inr ([(''base'', src), (bag_loc base_idx, dst)],
                           ensure_bag_init R src
                             (set_cell (SlotBase src) new_src (set_cell (SlotBag base_idx dst) new_dst iv)))))"

definition move_bag_to_base :: "registry \<Rightarrow> nat \<Rightarrow> nat \<Rightarrow> nat \<Rightarrow> player_inventory \<Rightarrow> touched inv_result" where
  "move_bag_to_base R base_idx src dst iv =
     (if dst \<ge> BASE_SLOT_COUNT then Inl BaseSlotOutOfRange
      else case map_of (bags iv) base_idx of
        None \<Rightarrow> Inl NoSourceBag
      | Some arr \<Rightarrow>
          if src \<ge> length arr then Inl BagSlotOutOfRange
          else if (case base iv ! dst of Some existing \<Rightarrow> is_bag_item R (item_path existing) | None \<Rightarrow> False)
          then Inl BagIntoBagSlot
          else case arr ! src of
            None \<Rightarrow> Inl SourceEmpty
          | Some src_entry \<Rightarrow>
              (case settle R src_entry (base iv ! dst) of (new_dst, new_src) \<Rightarrow>
                 Inr ([(bag_loc base_idx, src), (''base'', dst)],
                      ensure_bag_init R dst
                        (set_cell (SlotBag base_idx src) new_src (set_cell (SlotBase dst) new_dst iv)))))"

definition move_bag_to_bag :: "registry \<Rightarrow> nat \<Rightarrow> nat \<Rightarrow> nat \<Rightarrow> nat \<Rightarrow> player_inventory
    \<Rightarrow> touched inv_result" where
  "move_bag_to_bag R src_base src_slot dst_base dst_slot iv =
     (if src_base = dst_base then move_bag R src_base src_slot dst_slot iv
      else case map_of (bags iv) src_base of
        None \<Rightarrow> Inl NoSourceBag
      | Some src_arr \<Rightarrow>
          if src_slot \<ge> length src_arr then Inl SourceBagSlotOutOfRange
          else case src_arr ! src_slot of
            None \<Rightarrow> Inl SourceEmpty
          | Some src_entry \<Rightarrow>
              (case map_of (bags iv) dst_base of
                 None \<Rightarrow> Inl NoDestinationBag
               | Some dst_arr \<Rightarrow>
                   if dst_slot \<ge> length dst_arr then Inl DestinationBagSlotOutOfRange
                   else (case settle R src_entry (dst_arr ! dst_slot) of (new_dst, new_src) \<Rightarrow>
                           Inr ([(bag_loc src_base, src_slot), (bag_loc dst_base, dst_slot)],
                                set_cell (SlotBag src_base src_slot) new_src
                                  (set_cell (SlotBag dst_base dst_slot) new_dst iv)))))"

section \<open>The dispatcher\<close>

definition move_refs :: "registry \<Rightarrow> slot_ref \<Rightarrow> slot_ref \<Rightarrow> player_inventory \<Rightarrow> touched inv_result" where
  "move_refs R src dst iv =
     (case (src, dst) of
        (SlotBase s, SlotBase d) \<Rightarrow> move_base R s d iv
      | (SlotBag b1 s, SlotBag b2 d) \<Rightarrow>
          if b1 = b2 then move_bag R b1 s d iv else move_bag_to_bag R b1 s b2 d iv
      | (SlotBase s, SlotBag b d) \<Rightarrow> move_base_to_bag R s b d iv
      | (SlotBag b s, SlotBase d) \<Rightarrow> move_bag_to_base R b s d iv
      | (SlotCursor, SlotCursor) \<Rightarrow> Inr ([], iv)
      | (SlotBase s, SlotCursor) \<Rightarrow> move_base_to_cursor R s iv
      | (SlotCursor, SlotBase d) \<Rightarrow> move_cursor_to_base R d iv
      | (SlotBag b s, SlotCursor) \<Rightarrow> move_bag_to_cursor R b s iv
      | (SlotCursor, SlotBag b d) \<Rightarrow> move_cursor_to_bag R b d iv)"

definition move_across :: "registry \<Rightarrow> string \<Rightarrow> nat \<Rightarrow> string \<Rightarrow> nat \<Rightarrow> player_inventory
    \<Rightarrow> touched inv_result" where
  "move_across R src_loc src_slot dst_loc dst_slot iv =
     (case parse_slot_ref src_loc src_slot of
        Inl err \<Rightarrow> Inl err
      | Inr src \<Rightarrow>
          (case parse_slot_ref dst_loc dst_slot of
             Inl err \<Rightarrow> Inl err
           | Inr dst \<Rightarrow>
               (case reject_held_bag_slot src of
                  Inl err \<Rightarrow> Inl err
                | Inr _ \<Rightarrow>
                    (case reject_held_bag_slot dst of
                       Inl err \<Rightarrow> Inl err
                     | Inr _ \<Rightarrow> move_refs R src dst iv))))"

section \<open>What a move keeps\<close>

definition conserves :: "registry \<Rightarrow> player_inventory \<Rightarrow> player_inventory \<Rightarrow> bool" where
  "conserves R iv iv' \<longleftrightarrow> inv_wf R iv' \<and> (\<forall>p. inv_total p iv' = inv_total p iv)"

lemma conservesI [intro]:
  "inv_wf R iv' \<Longrightarrow> (\<And>p. inv_total p iv' = inv_total p iv) \<Longrightarrow> conserves R iv iv'"
  by (simp add: conserves_def)

lemma conserves_refl: "inv_wf R iv \<Longrightarrow> conserves R iv iv"
  by auto

lemma conserves_trans: "conserves R a b \<Longrightarrow> conserves R b c \<Longrightarrow> conserves R a c"
  by (simp add: conserves_def)

lemma conservesD: "conserves R iv iv' \<Longrightarrow> inv_wf R iv'" "conserves R iv iv' \<Longrightarrow> inv_total p iv' = inv_total p iv"
  by (simp_all add: conserves_def)

lemma settle_conserves:
  assumes "reg_ok R" "inv_wf R iv" "src \<noteq> dst"
    "cell_at src iv = Some e" "inner_ok R (Some e)" "reject_held_bag_slot src = Inr ()"
    "valid_ref dst iv" "inner_ok R (cell_at dst iv)" "reject_held_bag_slot dst = Inr ()"
    "settle R e (cell_at dst iv) = (d', s')"
  shows "conserves R iv (set_cell src s' (set_cell dst d' iv))"
  using settle_move [OF assms] by blast

text \<open>The cells the inner moves touch hold no bag.\<close>

lemma inner_slot:
  assumes "inv_wf R iv" "map_of (bags iv) b = Some arr" "s < length arr"
  shows "cell_at (SlotBag b s) iv = arr ! s" "inner_ok R (arr ! s)" "valid_ref (SlotBag b s) iv"
  using assms by (auto simp: cell_at_def valid_ref_def dest: inv_wf_inner)

lemma base_slot:
  assumes "inv_wf R iv" "s < BASE_SLOT_COUNT"
  shows "cell_at (SlotBase s) iv = base iv ! s" "valid_ref (SlotBase s) iv" "cell_ok (base iv ! s)"
    "inner_ok R (base iv ! s) \<longleftrightarrow> \<not> hosts_bag R (base iv ! s)"
  using assms by (auto simp: cell_at_def valid_ref_def inv_wf_length inner_ok_iff inv_wf_iffs)

lemma cursor_slot:
  assumes "inv_wf R iv"
  shows "cell_at SlotCursor iv = cursor iv" "valid_ref SlotCursor iv" "cell_ok (cursor iv)"
    "inner_ok R (cursor iv) \<longleftrightarrow> \<not> hosts_bag R (cursor iv)"
  using assms by (auto simp: cell_at_def valid_ref_def inner_ok_iff inv_wf_iffs)

lemma reject_held_simps [simp]:
  "reject_held_bag_slot (SlotBase s) = Inr ()" "reject_held_bag_slot SlotCursor = Inr ()"
  "reject_held_bag_slot (SlotBag b s) = Inr () \<longleftrightarrow> b \<noteq> CURSOR_BAG_KEY"
  by (simp_all add: reject_held_bag_slot_def)

lemma hosts_bag_Some [simp]: "hosts_bag R (Some e) \<longleftrightarrow> is_bag_item R (item_path e)"
  by (simp add: hosts_bag_def is_bag_item_def)

lemma inner_Some:
  "inv_wf R iv \<Longrightarrow> map_of (bags iv) b = Some arr \<Longrightarrow> arr ! s = Some e \<Longrightarrow> s < length arr \<Longrightarrow>
     inner_ok R (Some e)"
  by (metis inv_wf_inner)

lemma base_Some:
  "inv_wf R iv \<Longrightarrow> base iv ! s = Some e \<Longrightarrow> s < BASE_SLOT_COUNT \<Longrightarrow> \<not> is_bag_item R (item_path e) \<Longrightarrow>
     inner_ok R (Some e)"
  by (metis base_slot(4) hosts_bag_Some)

lemma cursor_Some:
  "inv_wf R iv \<Longrightarrow> cursor iv = Some e \<Longrightarrow> \<not> is_bag_item R (item_path e) \<Longrightarrow> inner_ok R (Some e)"
  by (metis cursor_slot(4) hosts_bag_Some)


lemma move_bag_conserves:
  assumes "reg_ok R" "inv_wf R iv" "b \<noteq> CURSOR_BAG_KEY" "move_bag R b s d iv = Inr (t, iv')"
  shows "conserves R iv iv'"
proof -
  obtain arr where arr: "map_of (bags iv) b = Some arr" "s < length arr" "d < length arr"
    and same: "s = d \<Longrightarrow> iv' = iv"
    and differ: "s \<noteq> d \<Longrightarrow> \<exists>e d' s'. arr ! s = Some e \<and> settle R e (arr ! d) = (d', s')
      \<and> iv' = set_cell (SlotBag b s) s' (set_cell (SlotBag b d) d' iv)"
    using assms(4) by (auto simp: move_bag_def not_le split: option.splits if_splits prod.splits)
  show ?thesis
  proof (cases "s = d")
    case False
    with differ obtain e d' s' where "arr ! s = Some e" "settle R e (arr ! d) = (d', s')"
      "iv' = set_cell (SlotBag b s) s' (set_cell (SlotBag b d) d' iv)" by blast
    with False assms(1-3) inner_slot [OF assms(2) arr(1,2)] inner_slot [OF assms(2) arr(1,3)]
    show ?thesis by (auto intro!: settle_conserves)
  qed (simp add: same conserves_refl assms(2))
qed

lemma move_cursor_to_bag_conserves:
  assumes "reg_ok R" "inv_wf R iv" "b \<noteq> CURSOR_BAG_KEY" "move_cursor_to_bag R b d iv = Inr (t, iv')"
  shows "conserves R iv iv'"
proof -
  obtain e arr d' s' where "cursor iv = Some e" "\<not> is_bag_item R (item_path e)"
    "map_of (bags iv) b = Some arr" "d < length arr" "settle R e (arr ! d) = (d', s')"
    "iv' = set_cell SlotCursor s' (set_cell (SlotBag b d) d' iv)"
    using assms(4) by (auto simp: move_cursor_to_bag_def not_le split: option.splits if_splits prod.splits)
  then show ?thesis
    using assms(1-3) inner_slot [OF assms(2), of b arr d] cursor_slot [OF assms(2)]
    by (auto intro!: settle_conserves)
qed

lemma move_bag_to_cursor_conserves:
  assumes "reg_ok R" "inv_wf R iv" "b \<noteq> CURSOR_BAG_KEY" "move_bag_to_cursor R b s iv = Inr (t, iv')"
  shows "conserves R iv iv'"
proof -
  obtain e arr d' s' where e: "map_of (bags iv) b = Some arr" "s < length arr" "arr ! s = Some e"
    "settle R e (cursor iv) = (d', s')" "iv' = set_cell (SlotBag b s) s' (set_cell SlotCursor d' iv)"
    "\<And>h. cursor iv = Some h \<Longrightarrow> item_path h \<noteq> item_path e \<Longrightarrow> \<not> is_bag_item R (item_path h)"
    using assms(4)
    by (auto simp: move_bag_to_cursor_def not_le Let_def split: option.splits if_splits prod.splits)
  have inner: "inner_ok R (Some e)" using inner_slot [OF assms(2) e(1,2)] e(3) by simp
  then have "\<not> is_bag_item R (item_path e)" by (simp add: inner_ok_iff)
  with e(6) have "\<not> hosts_bag R (cursor iv)" by (cases "cursor iv") (auto, metis)
  then show ?thesis
    using e inner assms(1-3) inner_slot [OF assms(2) e(1,2)] cursor_slot [OF assms(2)]
    by (auto intro!: settle_conserves)
qed

lemma move_base_to_bag_conserves:
  assumes "reg_ok R" "inv_wf R iv" "b \<noteq> CURSOR_BAG_KEY" "move_base_to_bag R s b d iv = Inr (t, iv')"
  shows "conserves R iv iv'"
proof -
  obtain e arr d' s' where e: "s < BASE_SLOT_COUNT" "base iv ! s = Some e" "\<not> is_bag_item R (item_path e)"
    "map_of (bags iv) b = Some arr" "d < length arr" "settle R e (arr ! d) = (d', s')"
    "iv' = ensure_bag_init R s (set_cell (SlotBase s) s' (set_cell (SlotBag b d) d' iv))"
    using assms(4) by (auto simp: move_base_to_bag_def not_le split: option.splits if_splits prod.splits)
  have "conserves R iv (set_cell (SlotBase s) s' (set_cell (SlotBag b d) d' iv))"
    using e assms(1-3) inner_slot [OF assms(2) e(4,5)] base_slot [OF assms(2) e(1)]
    by (auto intro!: settle_conserves)
  with e(1,7) show ?thesis by (simp add: conserves_def)
qed

lemma move_bag_to_base_conserves:
  assumes "reg_ok R" "inv_wf R iv" "b \<noteq> CURSOR_BAG_KEY" "move_bag_to_base R b s d iv = Inr (t, iv')"
  shows "conserves R iv iv'"
proof -
  obtain e arr d' s' where e: "d < BASE_SLOT_COUNT" "map_of (bags iv) b = Some arr" "s < length arr"
    "arr ! s = Some e" "\<not> hosts_bag R (base iv ! d)" "settle R e (base iv ! d) = (d', s')"
    "iv' = ensure_bag_init R d (set_cell (SlotBag b s) s' (set_cell (SlotBase d) d' iv))"
    using assms(4) by (auto simp: move_bag_to_base_def not_le split: option.splits if_splits prod.splits)
  have "conserves R iv (set_cell (SlotBag b s) s' (set_cell (SlotBase d) d' iv))"
    using e assms(1-3) inner_slot [OF assms(2) e(2,3)] base_slot [OF assms(2) e(1)]
    by (auto intro!: settle_conserves)
  with e(1,7) show ?thesis by (simp add: conserves_def)
qed

lemma move_bag_to_bag_conserves:
  assumes "reg_ok R" "inv_wf R iv" "b1 \<noteq> CURSOR_BAG_KEY" "b2 \<noteq> CURSOR_BAG_KEY"
    "move_bag_to_bag R b1 s b2 d iv = Inr (t, iv')"
  shows "conserves R iv iv'"
proof (cases "b1 = b2")
  case True
  with assms show ?thesis by (simp add: move_bag_to_bag_def move_bag_conserves)
next
  case False
  obtain e arr1 arr2 d' s' where e: "map_of (bags iv) b1 = Some arr1" "s < length arr1" "arr1 ! s = Some e"
    "map_of (bags iv) b2 = Some arr2" "d < length arr2" "settle R e (arr2 ! d) = (d', s')"
    "iv' = set_cell (SlotBag b1 s) s' (set_cell (SlotBag b2 d) d' iv)"
    using assms(5) False by (auto simp: move_bag_to_bag_def not_le split: option.splits if_splits prod.splits)
  then show ?thesis
    using False assms(1-4) inner_slot [OF assms(2) e(1,2)] inner_slot [OF assms(2) e(4,5)]
    by (auto intro!: settle_conserves)
qed

text \<open>
  The host moves, between base slots and the hand, share one piece of bookkeeping: the two
  contents vectors leave the map, and come back under exchanged keys or not at all.
\<close>

definition host_key :: "slot_ref \<Rightarrow> nat" where
  "host_key r = (case r of SlotBase k \<Rightarrow> k | _ \<Rightarrow> CURSOR_BAG_KEY)"

definition is_host :: "slot_ref \<Rightarrow> bool" where
  "is_host r = (case r of SlotBase k \<Rightarrow> k < BASE_SLOT_COUNT | SlotBag b s \<Rightarrow> False | SlotCursor \<Rightarrow> True)"

lemma host_simps [simp]:
  "host_key (SlotBase k) = k" "host_key SlotCursor = CURSOR_BAG_KEY"
  "is_host (SlotBase k) = (k < BASE_SLOT_COUNT)" "is_host SlotCursor" "\<not> is_host (SlotBag b s)"
  by (simp_all add: host_key_def is_host_def)

definition exchange_hosts :: "slot_ref \<Rightarrow> cell \<Rightarrow> cell list option \<Rightarrow> slot_ref \<Rightarrow> cell \<Rightarrow> cell list option
    \<Rightarrow> player_inventory \<Rightarrow> player_inventory" where
  "exchange_hosts r1 c1 w1 r2 c2 w2 iv =
     (set_cell r2 c2 (set_cell r1 c1 iv))
       \<lparr>bags := reattach (host_key r1) w1 (reattach (host_key r2) w2
                  (AList.delete (host_key r2) (AList.delete (host_key r1) (bags iv))))\<rparr>"

lemma detach_total:
  assumes "distinct (map fst m)" "k1 \<noteq> k2"
  shows "bags_total p (AList.delete k2 (AList.delete k1 m))
      + opt_sum (cells_total p) (map_of m k1) + opt_sum (cells_total p) (map_of m k2) = bags_total p m"
  using bags_total_delete [OF assms(1), of p k1] bags_total_delete [of "AList.delete k1 m" p k2] assms
  by simp

lemma attach_total:
  assumes "distinct (map fst m)" "map_of m k1 = None" "map_of m k2 = None" "k1 \<noteq> k2"
  shows "bags_total p (reattach k1 v1 (reattach k2 v2 m))
      = bags_total p m + opt_sum (cells_total p) v1 + opt_sum (cells_total p) v2"
  using bags_total_reattach [OF assms(1,3), of p v2] bags_total_reattach [of "reattach k2 v2 m" k1 p v1] assms
  by (simp split: option.splits)

lemma wf_no_bag_contents:
  assumes "inv_wf R iv"
  shows "is_host r \<Longrightarrow> \<not> hosts_bag R (cell_at r iv) \<Longrightarrow> contents_empty (host_key r) (bags iv)"
  using assms by (cases r) (auto simp: inv_wf_iffs cell_at_def)

lemma host_slot:
  assumes "inv_wf R iv" "is_host r"
  shows "valid_ref r iv" "cell_ok (cell_at r iv)"
  using assms by (cases r; simp add: valid_ref_def cell_at_def set_cell_def inv_wf_iffs)+

lemma host_bags [simp]: "is_host r \<Longrightarrow> bags (set_cell r c iv) = bags iv"
  "is_host r \<Longrightarrow> equipment (set_cell r c iv) = equipment iv"
  by (cases r; simp add: set_cell_def)+

lemma host_key_iff:
  "is_host r \<Longrightarrow> k < BASE_SLOT_COUNT \<Longrightarrow> host_key r = k \<longleftrightarrow> r = SlotBase k"
  "is_host r \<Longrightarrow> host_key r = CURSOR_BAG_KEY \<longleftrightarrow> r = SlotCursor"
  by (cases r; auto)+

lemma exchange_hosts_total:
  assumes wf: "inv_wf R iv" and hosts: "is_host r1" "is_host r2" "r1 \<noteq> r2"
    and count: "cell_count p c1 + cell_count p c2 = cell_count p (cell_at r1 iv) + cell_count p (cell_at r2 iv)"
    and vecs: "opt_sum (cells_total p) w1 + opt_sum (cells_total p) w2
      = opt_sum (cells_total p) (map_of (bags iv) (host_key r1)) + opt_sum (cells_total p) (map_of (bags iv) (host_key r2))"
  shows "inv_total p (exchange_hosts r1 c1 w1 r2 c2 w2 iv) = inv_total p iv"
proof -
  have keys: "host_key r1 \<noteq> host_key r2"
    using hosts by (cases r1; cases r2) (auto simp: dest: sym)
  have dist: "distinct (map fst (bags iv))" using wf by (rule inv_wf_distinct)
  let ?d = "AList.delete (host_key r2) (AList.delete (host_key r1) (bags iv))"
  let ?M = "reattach (host_key r1) w1 (reattach (host_key r2) w2 ?d)"
  have M: "bags_total p ?M = bags_total p (bags iv)"
    using detach_total [OF dist keys, of p] attach_total [of ?d "host_key r1" "host_key r2" p w1 w2] dist keys vecs
    by simp
  have cells: "inv_total p (set_cell r2 c2 (set_cell r1 c1 iv)) = inv_total p iv"
  proof -
    have "distinct (map fst (bags (set_cell r1 c1 iv)))" using dist hosts(1) by simp
    from set_cell_total [OF dist host_slot(1) [OF wf hosts(1)], of p c1]
      set_cell_total [OF this, of r2 p c2] hosts(3) count host_slot(1) [OF wf]
    show ?thesis using hosts by (simp add: cell_at_set_cell)
  qed
  then show ?thesis
    using M hosts by (simp add: exchange_hosts_def inv_total_def)
qed

lemma exchange_hosts_wf:
  assumes wf: "inv_wf R iv" and hosts: "is_host r1" "is_host r2" "r1 \<noteq> r2"
    and cells: "cell_ok c1" "cell_ok c2" "hosts_bag R c1 \<or> vec_empty w1" "hosts_bag R c2 \<or> vec_empty w2"
    and from1: "w1 = None \<or> w1 = map_of (bags iv) (host_key r2)"
    and from2: "w2 = None \<or> w2 = map_of (bags iv) (host_key r1)"
  shows "inv_wf_but {host_key r1, host_key r2} R (exchange_hosts r1 c1 w1 r2 c2 w2 iv)"
proof -
  let ?k1 = "host_key r1" and ?k2 = "host_key r2"
  let ?x = "exchange_hosts r1 c1 w1 r2 c2 w2 iv"
  have keys: "?k1 \<noteq> ?k2" "?k1 < BASE_SLOT_COUNT \<or> ?k1 = CURSOR_BAG_KEY" "?k2 < BASE_SLOT_COUNT \<or> ?k2 = CURSOR_BAG_KEY"
    using hosts by (cases r1; cases r2; auto dest: sym)+
  have lookup: "map_of (bags ?x) k = (if k = ?k1 then w1 else if k = ?k2 then w2 else map_of (bags iv) k)" for k
    using keys(1) by (simp add: exchange_hosts_def split: option.splits)
  have w: "w1 = Some arr \<or> w2 = Some arr \<Longrightarrow> list_all (inner_ok R) arr" for arr
    using from1 from2 wf by (auto simp: inv_wf_iffs)
  have bags: "bags_wf R (bags ?x)"
  proof -
    have "distinct (map fst (bags ?x))"
      using wf by (simp add: exchange_hosts_def inv_wf_distinct)
    moreover have "list_all (inner_ok R) arr" and "k < BASE_SLOT_COUNT \<or> k = CURSOR_BAG_KEY"
      if "map_of (bags ?x) k = Some arr" for k arr
      using that keys w wf by (auto simp: lookup inv_wf_iffs split: if_splits)
    ultimately show ?thesis by (auto simp: bags_wf_iff)
  qed
  have equip: "equipment ?x = equipment iv"
    using hosts by (simp add: exchange_hosts_def)
  have len: "length (base iv) = BASE_SLOT_COUNT" using wf by (rule inv_wf_length)
  have "base (set_cell r c jv) ! k = (if r = SlotBase k then c else base jv ! k)
      \<and> length (base (set_cell r c jv)) = length (base jv)"
    if "k < BASE_SLOT_COUNT" "length (base jv) = BASE_SLOT_COUNT" "is_host r" for r c jv k
    using that by (cases r) (auto simp: set_cell_def nth_list_update)
  then have at: "base ?x ! k = (if r2 = SlotBase k then c2 else if r1 = SlotBase k then c1 else base iv ! k)"
    and blen: "length (base ?x) = BASE_SLOT_COUNT" if "k < BASE_SLOT_COUNT" for k
    using that len hosts by (simp_all add: exchange_hosts_def)
  have blen: "length (base ?x) = BASE_SLOT_COUNT"
    by (rule blen [of 0]) (simp add: BASE_SLOT_COUNT_def)
  have cur: "cursor ?x = (if r2 = SlotCursor then c2 else if r1 = SlotCursor then c1 else cursor iv)"
    using hosts by (cases r1; cases r2) (simp_all add: exchange_hosts_def set_cell_def)
  have key: "k = ?k1 \<longleftrightarrow> r1 = SlotBase k" "k = ?k2 \<longleftrightarrow> r2 = SlotBase k" if "k < BASE_SLOT_COUNT" for k
    using host_key_iff(1) [OF _ that] hosts by auto
  have ckey: "CURSOR_BAG_KEY = ?k1 \<longleftrightarrow> r1 = SlotCursor" "CURSOR_BAG_KEY = ?k2 \<longleftrightarrow> r2 = SlotCursor"
    using host_key_iff(2) [of r1] host_key_iff(2) [of r2] hosts by auto
  have old: "cell_ok (base iv ! k)" "hosts_bag R (base iv ! k) = (map_of (bags iv) k \<noteq> None)"
    if "k < BASE_SLOT_COUNT" for k
    using wf that by (simp_all add: inv_wf_iffs)
  have base: "base_wf {?k1, ?k2} R (base ?x) (bags ?x)"
    unfolding base_wf_iff using blen cells hosts(3) by (auto simp: at lookup key old)
  have "cell_ok (cursor iv)" "hosts_bag R (cursor iv) \<or> contents_empty CURSOR_BAG_KEY (bags iv)"
    using wf by (simp_all add: inv_wf_iffs)
  then have hand: "hand_wf R (cursor ?x) (bags ?x)"
    unfolding hand_wf_def using cells hosts(3) by (auto simp: cur lookup ckey)
  show ?thesis using base bags hand wf by (simp add: inv_wf_but_def equip)
qed

text \<open>The outcome of a host move: new destination and source cell, and the vectors each keeps.\<close>

definition host_settle :: "registry \<Rightarrow> inventory_entry \<Rightarrow> cell list option \<Rightarrow> cell \<Rightarrow> cell list option
    \<Rightarrow> (cell \<times> cell list option) \<times> (cell \<times> cell list option)" where
  "host_settle R e src_vec dst_cell dst_vec =
     (case dst_cell of
        None \<Rightarrow> ((Some e, src_vec), (None, None))
      | Some existing \<Rightarrow>
          if item_path existing = item_path e \<and> \<not> is_bag_item R (item_path e)
          then (case merge_capped R existing e of (merged, leftover) \<Rightarrow> ((Some merged, None), (leftover, None)))
          else ((Some e, src_vec), (Some existing, dst_vec)))"

lemma host_move:
  assumes reg: "reg_ok R" and wf: "inv_wf R iv" and hosts: "is_host src" "is_host dst" "src \<noteq> dst"
    and e: "cell_at src iv = Some e"
    and st: "host_settle R e (map_of (bags iv) (host_key src)) (cell_at dst iv) (map_of (bags iv) (host_key dst))
      = ((cd, wd), (cs, ws))"
  shows "inv_wf_but {host_key src, host_key dst} R (exchange_hosts src cs ws dst cd wd iv)
    \<and> inv_total p (exchange_hosts src cs ws dst cd wd iv) = inv_total p iv"
proof -
  let ?vs = "map_of (bags iv) (host_key src)" and ?vd = "map_of (bags iv) (host_key dst)"
  have empty: "\<not> hosts_bag R (cell_at src iv) \<Longrightarrow> vec_empty ?vs" "\<not> hosts_bag R (cell_at dst iv) \<Longrightarrow> vec_empty ?vd"
    using wf_no_bag_contents [OF wf hosts(1)] wf_no_bag_contents [OF wf hosts(2)] by simp_all
  have ok: "entry_ok e" "cell_ok (cell_at dst iv)"
    using host_slot(2) [OF wf hosts(1)] host_slot(2) [OF wf hosts(2)] e by (simp_all add: cell_ok_def)
  have shape: "cell_ok cs \<and> cell_ok cd \<and> (hosts_bag R cs \<or> vec_empty ws) \<and> (hosts_bag R cd \<or> vec_empty wd)
      \<and> (ws = None \<or> ws = ?vd) \<and> (wd = None \<or> wd = ?vs)
      \<and> cell_count p cs + cell_count p cd = cell_count p (Some e) + cell_count p (cell_at dst iv)
      \<and> opt_sum (cells_total p) ws + opt_sum (cells_total p) wd = opt_sum (cells_total p) ?vs + opt_sum (cells_total p) ?vd"
  proof (cases "cell_at dst iv")
    case None
    have res: "cd = Some e" "wd = ?vs" "cs = None" "ws = None" using st None by (simp_all add: host_settle_def)
    have "vec_empty ?vd" using empty(2) None by simp
    then show ?thesis
      using res None ok empty(1) e vec_empty_total [of ?vd p] by (auto simp: cell_ok_def)
  next
    case (Some x)
    obtain m b where mb: "merge_capped R x e = (m, b)" by (cases "merge_capped R x e")
    have x: "entry_ok x" using ok(2) Some by (simp add: cell_ok_def)
    show ?thesis
    proof (cases "item_path x = item_path e \<and> \<not> is_bag_item R (item_path e)")
      case True
      have res: "cd = Some m" "wd = None" "cs = b" "ws = None" using st Some True mb by (simp_all add: host_settle_def)
      have vecs: "vec_empty ?vs" "vec_empty ?vd" using empty e Some True by simp_all
      have "ecount x \<le> u32_max" using x by (simp add: entry_ok_def)
      note total = merge_capped_total [OF reg this conjunct1 [OF True] mb, of p]
      have "cell_ok cs" "cell_ok cd" using merge_capped_ok [OF mb x ok(1)] by (simp_all add: res cell_ok_def)
      then show ?thesis
        using total vec_empty_total [OF vecs(1), of p] vec_empty_total [OF vecs(2), of p] Some res
        by (simp del: cell_count_Some)
    next
      case False
      have res: "cd = Some e" "wd = ?vs" "cs = Some x" "ws = ?vd"
        using st Some False by (auto simp: host_settle_def)
      then show ?thesis using empty e Some x ok(1) by (auto simp: cell_ok_def simp del: cell_count_Some)
    qed
  qed
  then have "inv_wf_but {host_key src, host_key dst} R (exchange_hosts src cs ws dst cd wd iv)"
    by (intro exchange_hosts_wf [OF wf hosts]) simp_all
  moreover have "inv_total p (exchange_hosts src cs ws dst cd wd iv) = inv_total p iv"
    using shape e by (intro exchange_hosts_total [OF wf hosts]) (simp_all del: cell_count_Some)
  ultimately show ?thesis by blast
qed

lemma ensure_one:
  assumes "inv_wf_but S R iv1" "S \<subseteq> insert k T" "k < BASE_SLOT_COUNT" "\<And>p. inv_total p iv1 = inv_total p iv"
    "k \<in> S"
  shows "inv_wf_but (T - {k}) R (ensure_bag_init R k iv1) \<and> inv_total p (ensure_bag_init R k iv1) = inv_total p iv"
  using inv_wf_mono [OF ensure_bag_init_wf [OF assms(1,3)], of "T - {k}"] assms(2)
    ensure_bag_init_total [OF assms(1,3,5), of p] assms(4) by auto

lemma inv_wf_but_cursor: "inv_wf_but (insert CURSOR_BAG_KEY S) R iv = inv_wf_but S R iv"
  by (auto simp: inv_wf_iffs)

text \<open>Field updates in one order.\<close>

lemma inv_update_order:
  "iv\<lparr>bags := m, base := b\<rparr> = iv\<lparr>base := b, bags := m\<rparr>"
  "iv\<lparr>bags := m, cursor := c\<rparr> = iv\<lparr>cursor := c, bags := m\<rparr>"
  "iv\<lparr>cursor := c, base := b\<rparr> = iv\<lparr>base := b, cursor := c\<rparr>"
  by simp_all

lemmas host_move_defs = exchange_hosts_def set_cell_def host_settle_def reattach_def Let_def not_le inv_update_order

lemma move_base_conserves:
  assumes "reg_ok R" "inv_wf R iv" "move_base R s d iv = Inr (t, iv')"
  shows "conserves R iv iv'"
proof (cases "s = d")
  case True
  with assms show ?thesis by (auto simp: move_base_def conserves_refl split: if_splits)
next
  case False
  then obtain e where e: "s < BASE_SLOT_COUNT" "d < BASE_SLOT_COUNT" "base iv ! s = Some e"
    using assms(3) by (auto simp: move_base_def not_le split: if_splits option.splits)
  obtain cd wd cs ws where st: "host_settle R e (map_of (bags iv) s) (base iv ! d) (map_of (bags iv) d)
      = ((cd, wd), (cs, ws))"
    by (metis surj_pair)
  let ?x = "exchange_hosts (SlotBase s) cs ws (SlotBase d) cd wd iv"
  have len: "length (base iv) = BASE_SLOT_COUNT" using assms(2) by (rule inv_wf_length)
  have iv': "iv' = ensure_bag_init R d (ensure_bag_init R s ?x)"
  proof (cases "base iv ! d")
    case None
    then show ?thesis using assms(3) e False st len by (auto simp: move_base_def host_move_defs list_update_swap)
  next
    case (Some x)
    obtain m b where mb: "merge_capped R x e = (m, b)" by (cases "merge_capped R x e")
    show ?thesis
    proof (cases "item_path x = item_path e \<and> \<not> is_bag_item R (item_path e)")
      case True
      then show ?thesis using assms(3) e False st len Some mb
        by (auto simp: move_base_def host_move_defs list_update_swap)
    next
      case neq: False
      then show ?thesis using assms(3) e False st len Some
        by (auto simp: move_base_def host_move_defs list_update_swap)
    qed
  qed
  have "inv_wf_but {s, d} R ?x \<and> inv_total p ?x = inv_total p iv" for p
    using host_move [OF assms(1,2), of "SlotBase s" "SlotBase d" e cd wd cs ws p] e False st len
    by (simp add: cell_at_def)
  then have "inv_wf_but {d} R (ensure_bag_init R s ?x) \<and> inv_total p (ensure_bag_init R s ?x) = inv_total p iv" for p
    using ensure_one [of "{s, d}" R ?x s "{d}" iv p] e False by auto
  then have "inv_wf R iv' \<and> inv_total p iv' = inv_total p iv" for p
    using ensure_one [of "{d}" R "ensure_bag_init R s ?x" d "{}" iv p] e iv' by simp
  then show ?thesis by blast
qed

lemma move_base_to_cursor_conserves:
  assumes "reg_ok R" "inv_wf R iv" "move_base_to_cursor R s iv = Inr (t, iv')"
  shows "conserves R iv iv'"
proof -
  obtain e where e: "s < BASE_SLOT_COUNT" "base iv ! s = Some e"
    using assms(3) by (auto simp: move_base_to_cursor_def not_le split: if_splits option.splits)
  obtain cd wd cs ws where st: "host_settle R e (map_of (bags iv) s) (cursor iv) (map_of (bags iv) CURSOR_BAG_KEY)
      = ((cd, wd), (cs, ws))"
    by (metis surj_pair)
  let ?x = "exchange_hosts (SlotBase s) cs ws SlotCursor cd wd iv"
  have len: "length (base iv) = BASE_SLOT_COUNT" using assms(2) by (rule inv_wf_length)
  have iv': "iv' = ensure_bag_init R s ?x"
    using assms(3) e st len
    by (auto simp: move_base_to_cursor_def host_move_defs split: option.splits if_splits prod.splits)
  have "inv_wf_but {s} R ?x \<and> inv_total p ?x = inv_total p iv" for p
    using host_move [OF assms(1,2), of "SlotBase s" SlotCursor e cd wd cs ws p] e st len
    by (simp add: cell_at_def inv_wf_but_cursor insert_commute)
  then have "inv_wf R iv' \<and> inv_total p iv' = inv_total p iv" for p
    using ensure_one [of "{s}" R ?x s "{}" iv p] e iv' by simp
  then show ?thesis by blast
qed

lemma move_cursor_to_base_conserves:
  assumes "reg_ok R" "inv_wf R iv" "move_cursor_to_base R d iv = Inr (t, iv')"
  shows "conserves R iv iv'"
proof -
  obtain e where e: "d < BASE_SLOT_COUNT" "cursor iv = Some e"
    using assms(3) by (auto simp: move_cursor_to_base_def not_le split: if_splits option.splits)
  obtain cd wd cs ws where st: "host_settle R e (map_of (bags iv) CURSOR_BAG_KEY) (base iv ! d) (map_of (bags iv) d)
      = ((cd, wd), (cs, ws))"
    by (metis surj_pair)
  let ?x = "exchange_hosts SlotCursor cs ws (SlotBase d) cd wd iv"
  have len: "length (base iv) = BASE_SLOT_COUNT" using assms(2) by (rule inv_wf_length)
  have iv': "iv' = ensure_bag_init R d ?x"
    using assms(3) e st len
    by (auto simp: move_cursor_to_base_def host_move_defs split: option.splits if_splits prod.splits)
  have "inv_wf_but {d} R ?x \<and> inv_total p ?x = inv_total p iv" for p
    using host_move [OF assms(1,2), of SlotCursor "SlotBase d" e cd wd cs ws p] e st len
    by (simp add: cell_at_def inv_wf_but_cursor)
  then have "inv_wf R iv' \<and> inv_total p iv' = inv_total p iv" for p
    using ensure_one [of "{d}" R ?x d "{}" iv p] e iv' by simp
  then show ?thesis by blast
qed

lemma move_refs_conserves:
  assumes "reg_ok R" "inv_wf R iv" "reject_held_bag_slot src = Inr ()" "reject_held_bag_slot dst = Inr ()"
    "move_refs R src dst iv = Inr (t, iv')"
  shows "conserves R iv iv'"
  using assms
  by (cases src; cases dst)
     (auto simp: move_refs_def conserves_refl move_bag_conserves move_bag_to_bag_conserves
       move_base_to_bag_conserves move_bag_to_base_conserves move_base_conserves
       move_base_to_cursor_conserves move_cursor_to_base_conserves move_bag_to_cursor_conserves
       move_cursor_to_bag_conserves split: if_splits)

lemma move_across_conserves:
  assumes "reg_ok R" "inv_wf R iv" "move_across R sl ss dl ds iv = Inr (t, iv')"
  shows "conserves R iv iv'"
  using assms by (auto simp: move_across_def split: sum.splits intro: move_refs_conserves)

end
