(* ===== verification/Place.thy ===== *)
theory Place
  imports InvMove
begin

text \<open>
  Placing a stack: the two passes that \<open>add_item_locating\<close> and the vault's \<open>deposit\<close> both run,
  top up the stacks of the same item and then claim empty slots.  The passes are written over a
  store of cells; the locale \<open>cell_store\<close> states what such a store promises, and proves once that
  exactly \<open>count - leftover\<close> units land, and that the leftover is what the room fell short by.
\<close>

section \<open>The two passes\<close>

type_synonym ('r, 's) place_state = "'s \<times> 'r list \<times> nat"

definition topup_step :: "('r \<Rightarrow> 's \<Rightarrow> cell) \<Rightarrow> ('r \<Rightarrow> cell \<Rightarrow> 's \<Rightarrow> 's) \<Rightarrow> string \<Rightarrow> nat \<Rightarrow> 'r
    \<Rightarrow> ('r, 's) place_state \<Rightarrow> ('r, 's) place_state" where
  "topup_step get put p cap r st =
     (case st of (s, touched, remaining) \<Rightarrow>
        if remaining = 0 then st
        else case get r s of
            None \<Rightarrow> st
          | Some e \<Rightarrow>
              if item_path e = p \<and> ecount e < cap
              then let n = min remaining (cap - ecount e)
                   in (put r (Some (entry (item_path e) (add32_sat (ecount e) n))) s, touched @ [r], remaining - n)
              else st)"

definition claim_step :: "('r \<Rightarrow> 's \<Rightarrow> bool) \<Rightarrow> ('r \<Rightarrow> 's \<Rightarrow> cell) \<Rightarrow> ('r \<Rightarrow> cell \<Rightarrow> 's \<Rightarrow> 's)
    \<Rightarrow> string \<Rightarrow> nat \<Rightarrow> 'r \<Rightarrow> ('r, 's) place_state \<Rightarrow> ('r, 's) place_state" where
  "claim_step valid get claim p cap r st =
     (case st of (s, touched, remaining) \<Rightarrow>
        if remaining = 0 then st
        else if valid r s \<and> get r s = None
        then let n = min remaining cap
             in (claim r (Some (entry p n)) s, touched @ [r], remaining - n)
        else st)"

text \<open>The room a cell has for \<open>p\<close>, counted by each pass.\<close>

definition topup_room :: "string \<Rightarrow> nat \<Rightarrow> cell \<Rightarrow> nat" where
  "topup_room p cap c = (case c of None \<Rightarrow> 0 | Some e \<Rightarrow> if item_path e = p then cap - ecount e else 0)"

definition claim_room :: "nat \<Rightarrow> cell \<Rightarrow> nat" where
  "claim_room cap c = (if c = None then cap else 0)"

definition units :: "string \<Rightarrow> string \<Rightarrow> nat \<Rightarrow> nat" where
  "units q p n = (if q = p then n else 0)"

lemma units_add: "units q p (a + b) = units q p a + units q p b"
  by (simp add: units_def)

lemma units_0 [simp]: "units q p 0 = 0"
  by (simp add: units_def)

text \<open>A pass that reports no cell changed none.\<close>

lemma topup_untouched:
  "fold (topup_step get put p cap) rs (s, t, n) = (s', t', n') \<Longrightarrow>
     length t \<le> length t' \<and> (length t' = length t \<longrightarrow> s' = s \<and> n' = n)"
proof (induction rs arbitrary: s t n)
  case (Cons r rs)
  obtain s1 t1 n1 where one: "topup_step get put p cap r (s, t, n) = (s1, t1, n1)" by (metis surj_pair)
  then have "length t \<le> length t1 \<and> (length t1 = length t \<longrightarrow> s1 = s \<and> n1 = n)"
    by (auto simp: topup_step_def Let_def split: if_splits option.splits)
  with Cons one show ?case by fastforce
qed simp

lemma claim_untouched:
  "fold (claim_step valid get claim p cap) rs (s, t, n) = (s', t', n') \<Longrightarrow>
     length t \<le> length t' \<and> (length t' = length t \<longrightarrow> s' = s \<and> n' = n)"
proof (induction rs arbitrary: s t n)
  case (Cons r rs)
  obtain s1 t1 n1 where one: "claim_step valid get claim p cap r (s, t, n) = (s1, t1, n1)" by (metis surj_pair)
  then have "length t \<le> length t1 \<and> (length t1 = length t \<longrightarrow> s1 = s \<and> n1 = n)"
    by (auto simp: claim_step_def Let_def split: if_splits)
  with Cons one show ?case by fastforce
qed simp

text \<open>A pass that places nothing leaves the store as it was.\<close>

lemma topup_progress:
  "fold (topup_step get put p cap) rs (s, t, n) = (s', t', n') \<Longrightarrow> n' \<le> n \<and> (n' = n \<longrightarrow> s' = s \<and> t' = t)"
proof (induction rs arbitrary: s t n)
  case (Cons r rs)
  obtain s1 t1 n1 where one: "topup_step get put p cap r (s, t, n) = (s1, t1, n1)" by (metis surj_pair)
  then have "n1 \<le> n \<and> (n1 = n \<longrightarrow> s1 = s \<and> t1 = t)"
    by (auto simp: topup_step_def Let_def min_def split: if_splits option.splits)
  with Cons one show ?case by fastforce
qed simp

lemma claim_progress:
  "0 < cap \<Longrightarrow> fold (claim_step valid get claim p cap) rs (s, t, n) = (s', t', n') \<Longrightarrow> n' \<le> n \<and> (n' = n \<longrightarrow> s' = s \<and> t' = t)"
proof (induction rs arbitrary: s t n)
  case (Cons r rs)
  obtain s1 t1 n1 where one: "claim_step valid get claim p cap r (s, t, n) = (s1, t1, n1)" by (metis surj_pair)
  then have "n1 \<le> n \<and> (n1 = n \<longrightarrow> s1 = s \<and> t1 = t)"
    using Cons.prems(1) by (auto simp: claim_step_def Let_def min_def split: if_splits)
  with Cons one show ?case by fastforce
qed simp

section \<open>The contract of a store of cells\<close>

locale cell_store =
  fixes get :: "'r \<Rightarrow> 's \<Rightarrow> cell"
    and valid :: "'r \<Rightarrow> 's \<Rightarrow> bool"
    and put :: "'r \<Rightarrow> cell \<Rightarrow> 's \<Rightarrow> 's"
    and claim :: "'r \<Rightarrow> cell \<Rightarrow> 's \<Rightarrow> 's"
    and total :: "string \<Rightarrow> 's \<Rightarrow> nat"
    and ok :: "'s \<Rightarrow> bool"
    and reachable :: "'r \<Rightarrow> bool"
    and takes :: "'r \<Rightarrow> string \<Rightarrow> bool"
  assumes get_valid: "get r s \<noteq> None \<Longrightarrow> valid r s"
    and get_ok: "ok s \<Longrightarrow> get r s = Some e \<Longrightarrow> entry_ok e"
    and valid_put: "valid r s \<Longrightarrow> valid r (put r' c s)"
    and valid_claim: "ok s \<Longrightarrow> valid r' s \<Longrightarrow> get r' s = None \<Longrightarrow> entry_ok e \<Longrightarrow> takes r' (item_path e) \<Longrightarrow>
          valid r s \<Longrightarrow> valid r (claim r' (Some e) s)"
    and get_put: "valid r s \<Longrightarrow> get r' (put r c s) = (if r = r' then c else get r' s)"
    and get_claim: "ok s \<Longrightarrow> valid r s \<Longrightarrow> get r s = None \<Longrightarrow> entry_ok e \<Longrightarrow> takes r (item_path e) \<Longrightarrow> valid r' s \<Longrightarrow>
          get r' (claim r (Some e) s) = (if r = r' then Some e else get r' s)"
    and put_ok: "ok s \<Longrightarrow> get r s = Some e \<Longrightarrow> entry_ok (entry (item_path e) n) \<Longrightarrow> reachable r \<Longrightarrow>
          ok (put r (Some (entry (item_path e) n)) s)"
    and put_total: "ok s \<Longrightarrow> valid r s \<Longrightarrow>
          total q (put r c s) + cell_count q (get r s) = total q s + cell_count q c"
    and claim_ok: "ok s \<Longrightarrow> valid r s \<Longrightarrow> get r s = None \<Longrightarrow> entry_ok e \<Longrightarrow> takes r (item_path e) \<Longrightarrow>
          ok (claim r (Some e) s)"
    and claim_total: "ok s \<Longrightarrow> valid r s \<Longrightarrow> get r s = None \<Longrightarrow> entry_ok e \<Longrightarrow> takes r (item_path e) \<Longrightarrow>
          total q (claim r (Some e) s) = total q s + cell_count q (Some e)"
begin

lemma topup_one:
  assumes ok: "ok s" and cap: "cap \<le> u32_max" and p: "p \<noteq> []" and reach: "reachable r"
    and step: "topup_step get put p cap r (s, t, n) = (s', t', n')"
  shows "ok s' \<and> n' = n - topup_room p cap (get r s) \<and> total q s' = total q s + units q p (n - n')
    \<and> (\<forall>r'. valid r' s \<longrightarrow> valid r' s') \<and> (\<forall>r'. r' \<noteq> r \<longrightarrow> get r' s' = get r' s) \<and> (get r s' = None \<longleftrightarrow> get r s = None)"
proof (cases "n = 0 \<or> get r s = None \<or> (\<exists>e. get r s = Some e \<and> \<not> (item_path e = p \<and> ecount e < cap))")
  case True
  then have "s' = s" "n' = n - topup_room p cap (get r s)" "n' = n"
    using step by (auto simp: topup_step_def topup_room_def split: if_splits option.splits)
  then show ?thesis using ok by simp
next
  case False
  then obtain e where e: "get r s = Some e" "item_path e = p" "ecount e < cap" "n \<noteq> 0" by auto
  define k where "k = min n (cap - ecount e)"
  have v: "valid r s" using e(1) get_valid by simp
  have k: "k \<le> n" "ecount e + k \<le> cap" using e(3) by (simp_all add: k_def)
  have res: "s' = put r (Some (entry p (ecount e + k))) s" "n' = n - k"
    using step e k cap by (auto simp: topup_step_def Let_def k_def)
  have "entry_ok (entry p (ecount e + k))"
    using get_ok [OF ok e(1)] k cap p by (simp add: entry_ok_def)
  then have "ok s'" using put_ok [OF ok e(1), of "ecount e + k"] reach e(2) res(1) by simp
  moreover have "total q s' = total q s + units q p k"
    using put_total [OF ok v, of q "Some (entry p (ecount e + k))"] e res(1) by (auto simp: units_def)
  moreover have "n' = n - topup_room p cap (get r s)" "n - n' = k"
    using e res(2) k(1) by (simp_all add: topup_room_def k_def)
  ultimately show ?thesis using v e(1) by (simp add: res(1) valid_put get_put)
qed

lemma claim_one:
  assumes ok: "ok s" and cap: "0 < cap" "cap \<le> u32_max" and p: "p \<noteq> []" and takes: "takes r p"
    and v: "valid r s" and step: "claim_step valid get claim p cap r (s, t, n) = (s', t', n')"
  shows "ok s' \<and> n' = n - claim_room cap (get r s) \<and> total q s' = total q s + units q p (n - n')
    \<and> (\<forall>r'. valid r' s \<longrightarrow> valid r' s' \<and> (r' \<noteq> r \<longrightarrow> get r' s' = get r' s))"
proof (cases "n = 0 \<or> get r s \<noteq> None")
  case True
  then have "s' = s" "n' = n - claim_room cap (get r s)" "n' = n"
    using step by (auto simp: claim_step_def claim_room_def split: if_splits option.splits)
  then show ?thesis using ok by simp
next
  case False
  then have g: "get r s = None" "n \<noteq> 0" by auto
  let ?e = "entry p (min n cap)"
  have res: "s' = claim r (Some ?e) s" "n' = n - min n cap"
    using step g v by (auto simp: claim_step_def Let_def)
  have e: "entry_ok ?e" "takes r (item_path ?e)" using g cap p takes by (auto simp: entry_ok_def)
  have "n' = n - claim_room cap (get r s)" "n - n' = min n cap"
    using g res(2) by (auto simp: claim_room_def)
  then show ?thesis
    using claim_ok [OF ok v g(1) e] claim_total [OF ok v g(1) e, of q] get_claim [OF ok v g(1) e]
      valid_claim [OF ok v g(1) e] by (auto simp: res(1) units_def)
qed

lemma topup_fold:
  assumes "distinct rs" "ok s" "cap \<le> u32_max" "p \<noteq> []" "\<forall>r\<in>set rs. reachable r"
    and "fold (topup_step get put p cap) rs (s, t, n) = (s', t', n')"
  shows "ok s' \<and> n' = n - (\<Sum>r\<leftarrow>rs. topup_room p cap (get r s)) \<and> total q s' = total q s + units q p (n - n')
    \<and> (\<forall>r'. valid r' s \<longrightarrow> valid r' s') \<and> (\<forall>r'. r' \<notin> set rs \<longrightarrow> get r' s' = get r' s)
    \<and> (\<forall>r'. get r' s' = None \<longleftrightarrow> get r' s = None)"
  using assms
proof (induction rs arbitrary: s t n)
  case Nil
  then show ?case by simp
next
  case (Cons r rs)
  obtain s1 t1 n1 where step: "topup_step get put p cap r (s, t, n) = (s1, t1, n1)"
    by (metis surj_pair)
  have takes: "reachable r" "\<forall>r'\<in>set rs. reachable r'" and dist: "r \<notin> set rs" "distinct rs"
    using Cons.prems by simp_all
  note one = topup_one [OF Cons.prems(2,3,4) takes(1) step, of q]
  have "fold (topup_step get put p cap) rs (s1, t1, n1) = (s', t', n')"
    using Cons.prems(6) step by simp
  from Cons.IH [OF dist(2) _ Cons.prems(3,4) takes(2) this] one
  have rest: "ok s' \<and> n' = n1 - (\<Sum>r\<leftarrow>rs. topup_room p cap (get r s1)) \<and> total q s' = total q s1 + units q p (n1 - n')
    \<and> (\<forall>r'. valid r' s1 \<longrightarrow> valid r' s') \<and> (\<forall>r'. r' \<notin> set rs \<longrightarrow> get r' s' = get r' s1)
    \<and> (\<forall>r'. get r' s' = None \<longleftrightarrow> get r' s1 = None)" by blast
  have same: "(\<Sum>r\<leftarrow>rs. topup_room p cap (get r s1)) = (\<Sum>r\<leftarrow>rs. topup_room p cap (get r s))"
    using one dist(1) by (intro arg_cong [where f = sum_list] map_cong) auto
  have "n' \<le> n1" "n1 \<le> n" using rest one by simp_all
  then have "units q p (n - n') = units q p (n - n1) + units q p (n1 - n')"
    by (simp add: units_add [symmetric])
  moreover have left: "n' = n - (\<Sum>r\<leftarrow>r # rs. topup_room p cap (get r s))"
    using rest one same by simp
  ultimately have tot: "total q s' = total q s + units q p (n - n')"
    using rest one by linarith
  have "ok s'" "\<forall>r'. valid r' s \<longrightarrow> valid r' s'" using rest one by blast+
  moreover have "\<forall>r'. r' \<notin> set (r # rs) \<longrightarrow> get r' s' = get r' s" "\<forall>r'. get r' s' = None \<longleftrightarrow> get r' s = None"
    using rest one by (simp, metis)
  ultimately show ?case using tot left by (intro conjI)
qed

lemma claim_fold:
  assumes "distinct rs" "ok s" "0 < cap" "cap \<le> u32_max" "p \<noteq> []" "\<forall>r\<in>set rs. takes r p \<and> valid r s"
    and "fold (claim_step valid get claim p cap) rs (s, t, n) = (s', t', n')"
  shows "ok s' \<and> n' = n - (\<Sum>r\<leftarrow>rs. claim_room cap (get r s)) \<and> total q s' = total q s + units q p (n - n')
    \<and> (\<forall>r'. valid r' s \<longrightarrow> valid r' s' \<and> (r' \<notin> set rs \<longrightarrow> get r' s' = get r' s))"
  using assms
proof (induction rs arbitrary: s t n)
  case Nil
  then show ?case by simp
next
  case (Cons r rs)
  obtain s1 t1 n1 where step: "claim_step valid get claim p cap r (s, t, n) = (s1, t1, n1)"
    by (metis surj_pair)
  have r: "takes r p" "valid r s" "\<forall>r'\<in>set rs. takes r' p \<and> valid r' s" and dist: "r \<notin> set rs" "distinct rs"
    using Cons.prems by simp_all
  note one = claim_one [OF Cons.prems(2-5) r(1,2) step, of q]
  have later: "\<forall>r'\<in>set rs. takes r' p \<and> valid r' s1" using r(3) one by blast
  have "fold (claim_step valid get claim p cap) rs (s1, t1, n1) = (s', t', n')"
    using Cons.prems(7) step by simp
  from Cons.IH [OF dist(2) _ Cons.prems(3-5) later this] one
  have rest: "ok s' \<and> n' = n1 - (\<Sum>r\<leftarrow>rs. claim_room cap (get r s1)) \<and> total q s' = total q s1 + units q p (n1 - n')
    \<and> (\<forall>r'. valid r' s1 \<longrightarrow> valid r' s' \<and> (r' \<notin> set rs \<longrightarrow> get r' s' = get r' s1))" by blast
  have "get r' s1 = get r' s" if "r' \<in> set rs" for r'
    using one dist(1) r(3) that by metis
  then have same: "(\<Sum>r\<leftarrow>rs. claim_room cap (get r s1)) = (\<Sum>r\<leftarrow>rs. claim_room cap (get r s))"
    by (intro arg_cong [where f = sum_list] map_cong) simp_all
  have "n' \<le> n1" "n1 \<le> n" using rest one by simp_all
  then have "units q p (n - n') = units q p (n - n1) + units q p (n1 - n')"
    by (simp add: units_add [symmetric])
  moreover have left: "n' = n - (\<Sum>r\<leftarrow>r # rs. claim_room cap (get r s))"
    using rest one same by simp
  ultimately have tot: "total q s' = total q s + units q p (n - n')"
    using rest one by linarith
  have "ok s'" using rest by blast
  moreover have "\<forall>r'. valid r' s \<longrightarrow> valid r' s' \<and> (r' \<notin> set (r # rs) \<longrightarrow> get r' s' = get r' s)"
    using rest one by simp
  ultimately show ?case using tot left by (intro conjI)
qed

text \<open>Both passes: what lands, and why anything is left over.\<close>

lemma place_effect:
  assumes "distinct rs" "distinct cs" "ok s" "0 < cap" "cap \<le> u32_max" "p \<noteq> []"
    "\<forall>r\<in>set rs. reachable r" "\<forall>r\<in>set cs. takes r p \<and> valid r s"
    and topup: "fold (topup_step get put p cap) rs (s, t, n) = (s1, t1, n1)"
    and claim: "fold (claim_step valid get claim p cap) cs (s1, t1, n1) = (s2, t2, n2)"
  shows "ok s2 \<and> total q s2 = total q s + units q p (n - n2) \<and> n2 \<le> n
    \<and> n2 = n - (\<Sum>r\<leftarrow>rs. topup_room p cap (get r s)) - (\<Sum>r\<leftarrow>cs. claim_room cap (get r s))"
proof -
  have a: "ok s1 \<and> n1 = n - (\<Sum>r\<leftarrow>rs. topup_room p cap (get r s)) \<and> total q s1 = total q s + units q p (n - n1)
    \<and> (\<forall>r'. valid r' s \<longrightarrow> valid r' s1) \<and> (\<forall>r'. get r' s1 = None \<longleftrightarrow> get r' s = None)"
    using topup_fold [OF assms(1,3,5,6,7) topup, of q] by blast
  have cs: "\<forall>r\<in>set cs. takes r p \<and> valid r s1" using assms(8) a by blast
  have b: "ok s2 \<and> n2 = n1 - (\<Sum>r\<leftarrow>cs. claim_room cap (get r s1)) \<and> total q s2 = total q s1 + units q p (n1 - n2)"
    using claim_fold [OF assms(2) _ assms(4,5,6) cs claim, of q] a by blast
  have same: "(\<Sum>r\<leftarrow>cs. claim_room cap (get r s1)) = (\<Sum>r\<leftarrow>cs. claim_room cap (get r s))"
    using a by (intro arg_cong [where f = sum_list] map_cong) (simp_all add: claim_room_def)
  have "n2 \<le> n1" "n1 \<le> n" using a b by simp_all
  then have "units q p (n - n2) = units q p (n - n1) + units q p (n1 - n2)"
    by (simp add: units_add [symmetric])
  then show ?thesis using a b same \<open>n2 \<le> n1\<close> \<open>n1 \<le> n\<close> by auto
qed

end

end
