(* ===== verification/InvPlace.thy ===== *)
theory InvPlace
  imports Place
begin

text \<open>
  \<open>PlayerInventory::add_item_locating\<close>, its dry run \<open>can_accept\<close>, and \<open>add_item\<close>: the passes of
  \<open>Place\<close> over the base slots and then the carried bags in key order, never the held bag.  The
  inventory is interpreted as a \<open>cell_store\<close>, which gives the exact number of units that land.
\<close>

section \<open>Operations\<close>

text \<open>Claiming a base slot allocates the contents of a bag that lands there.\<close>

definition claim_cell :: "registry \<Rightarrow> slot_ref \<Rightarrow> cell \<Rightarrow> player_inventory \<Rightarrow> player_inventory" where
  "claim_cell R r c iv =
     (case r of SlotBase i \<Rightarrow> ensure_bag_init R i (set_cell r c iv) | _ \<Rightarrow> set_cell r c iv)"

definition carried_bag_keys :: "player_inventory \<Rightarrow> nat list" where
  "carried_bag_keys iv = sort (filter (\<lambda>k. k \<noteq> CURSOR_BAG_KEY) (map fst (bags iv)))"

definition base_refs :: "slot_ref list" where
  "base_refs = map SlotBase [0..<BASE_SLOT_COUNT]"

definition inner_refs :: "player_inventory \<Rightarrow> slot_ref list" where
  "inner_refs iv =
     concat (map (\<lambda>b. map (SlotBag b) [0..<(case map_of (bags iv) b of None \<Rightarrow> 0 | Some arr \<Rightarrow> length arr)])
       (carried_bag_keys iv))"

definition add_item_locating :: "registry \<Rightarrow> string \<Rightarrow> nat \<Rightarrow> player_inventory
    \<Rightarrow> (touched \<times> nat) inv_result" where
  "add_item_locating R p n iv =
     (if n = 0 then Inl ZeroCount
      else if p = [] then Inl EmptyItemPath
      else
        let cap = max_stack R p;
            inner = inner_refs iv;
            st1 = fold (topup_step cell_at set_cell p cap) (base_refs @ inner) (iv, [], n);
            st2 = fold (claim_step valid_ref cell_at (claim_cell R) p cap) base_refs st1;
            st3 = (if snd (snd st2) > 0 \<and> \<not> is_bag_item R p
                   then fold (claim_step valid_ref cell_at (claim_cell R) p cap) inner st2 else st2)
        in case st3 of (iv', touched, remaining) \<Rightarrow> Inr ((map show_ref touched, remaining), iv'))"

fun can_accept_from :: "registry \<Rightarrow> (string \<times> nat) list \<Rightarrow> player_inventory \<Rightarrow> bool" where
  "can_accept_from R [] probe = True"
| "can_accept_from R ((p, n) # grants) probe =
     (case add_item_locating R p n probe of
        Inl err \<Rightarrow> False
      | Inr ((t, l), probe') \<Rightarrow> if l = 0 then can_accept_from R grants probe' else False)"

definition can_accept :: "registry \<Rightarrow> (string \<times> nat) list \<Rightarrow> player_inventory \<Rightarrow> bool" where
  "can_accept R grants iv = can_accept_from R grants iv"

text \<open>\<open>add_item\<close> keeps what did land when it reports a full inventory.\<close>

definition add_item :: "registry \<Rightarrow> string \<Rightarrow> nat \<Rightarrow> player_inventory \<Rightarrow> (move_error option) \<times> player_inventory" where
  "add_item R p n iv =
     (if n = 0 then (None, iv)
      else case add_item_locating R p n iv of
             Inl err \<Rightarrow> (Some err, iv)
           | Inr ((t, leftover), iv') \<Rightarrow> (if leftover > 0 then Some InventoryFull else None, iv'))"

definition total_count_of :: "string \<Rightarrow> player_inventory \<Rightarrow> nat" where
  "total_count_of p iv = cells_total p (base iv)"

section \<open>The inventory as a store of cells\<close>

definition reachable_ref :: "slot_ref \<Rightarrow> bool" where
  "reachable_ref r \<longleftrightarrow> reject_held_bag_slot r = Inr ()"

definition takes_ref :: "registry \<Rightarrow> slot_ref \<Rightarrow> string \<Rightarrow> bool" where
  "takes_ref R r p =
     (case r of SlotBase i \<Rightarrow> True | SlotBag b s \<Rightarrow> b \<noteq> CURSOR_BAG_KEY \<and> \<not> is_bag_item R p | SlotCursor \<Rightarrow> False)"

text \<open>Writing a base slot whose old contents are empty, up to \<open>ensure_bag_init\<close>.\<close>

lemma set_base_wf_but:
  assumes "inv_wf R iv" "i < BASE_SLOT_COUNT" "cell_ok c" "hosts_bag R c \<or> contents_empty i (bags iv)"
  shows "inv_wf_but {i} R (set_cell (SlotBase i) c iv)"
  using assms by (auto simp: set_cell_def inv_wf_iffs nth_list_update)

text \<open>Changing only the count of a stack keeps the shape, wherever the stack is.\<close>

lemma set_count_wf:
  assumes wf: "inv_wf R iv" and at: "cell_at r iv = Some e" and ok: "entry_ok (entry (item_path e) n)"
    and free: "reject_held_bag_slot r = Inr ()"
  shows "inv_wf R (set_cell r (Some (entry (item_path e) n)) iv)"
proof (cases "is_bag_item R (item_path e)")
  case False
  with assms show ?thesis
    by (intro set_cell_wf) (auto simp: cell_at_Some_valid inner_ok_iff cell_ok_def)
next
  case True
  have valid: "valid_ref r iv" using at by (rule cell_at_Some_valid)
  show ?thesis
  proof (cases r)
    case (SlotBase s)
    with True wf at ok valid show ?thesis
      by (auto simp: set_cell_def cell_at_def valid_ref_def inv_wf_iffs nth_list_update cell_ok_def)
  next
    case (SlotBag b s)
    then obtain arr where arr: "map_of (bags iv) b = Some arr" "s < length arr"
      using valid by (auto simp: valid_ref_def split: option.splits)
    with inner_slot [OF wf arr] at SlotBag True show ?thesis by (simp add: inner_ok_iff)
  next
    case SlotCursor
    with True wf at ok show ?thesis
      by (auto simp: set_cell_def cell_at_def inv_wf_iffs cell_ok_def)
  qed
qed

lemma claim_base:
  assumes wf: "inv_wf R iv" and i: "i < BASE_SLOT_COUNT" and free: "base iv ! i = None" and e: "entry_ok e"
  shows "inv_wf R (claim_cell R (SlotBase i) (Some e) iv)"
    and "inv_total q (claim_cell R (SlotBase i) (Some e) iv) = inv_total q iv + cell_count q (Some e)"
proof -
  have empty: "map_of (bags iv) i = None" using wf i free by (auto simp: inv_wf_iffs)
  let ?s = "set_cell (SlotBase i) (Some e) iv"
  have but: "inv_wf_but {i} R ?s"
    using wf i e empty by (intro set_base_wf_but) (simp_all add: cell_ok_def)
  have tot: "inv_total q ?s = inv_total q iv + cell_count q (Some e)"
    using set_cell_total [of iv "SlotBase i" q "Some e"] base_slot [OF wf i] free inv_wf_distinct(1) [OF wf]
    by simp
  show "inv_wf R (claim_cell R (SlotBase i) (Some e) iv)"
    using ensure_bag_init_wf [OF but i] by (simp add: claim_cell_def)
  show "inv_total q (claim_cell R (SlotBase i) (Some e) iv) = inv_total q iv + cell_count q (Some e)"
    using ensure_bag_init_total [OF but i, of q] tot by (simp add: claim_cell_def)
qed

text \<open>Claiming leaves every other existing cell alone, and takes none away.\<close>

lemma ensure_bag_init_bags:
  "j \<noteq> i \<Longrightarrow> map_of (bags (ensure_bag_init R i iv)) j = map_of (bags iv) j"
  by (simp add: ensure_bag_init_def split: option.splits)

lemma claim_frame:
  assumes wf: "inv_wf R iv" and free: "cell_at r iv = None" and v: "valid_ref r iv" "valid_ref r' iv"
  shows "valid_ref r' (claim_cell R r (Some e) iv)"
    and "cell_at r' (claim_cell R r (Some e) iv) = (if r = r' then Some e else cell_at r' iv)"
proof -
  have "valid_ref r' (claim_cell R r (Some e) iv)
      \<and> cell_at r' (claim_cell R r (Some e) iv) = (if r = r' then Some e else cell_at r' iv)"
  proof (cases r)
    case (SlotBase i)
    have i: "i < BASE_SLOT_COUNT" using SlotBase v(1) wf by (simp add: valid_ref_def inv_wf_length)
    have empty: "map_of (bags iv) i = None"
      using wf i free base_slot [OF wf i] SlotBase by (auto simp: inv_wf_iffs)
    have other: "b \<noteq> i" if "r' = SlotBag b s" for b s
      using v(2) empty that by (auto simp: valid_ref_def split: option.splits)
    show ?thesis
      using v SlotBase other
      by (cases r') (auto simp: claim_cell_def valid_ref_def cell_at_def set_cell_def ensure_bag_init_bags vget_def)
  qed (use v in \<open>auto simp: claim_cell_def cell_at_set_cell\<close>)
  then show "valid_ref r' (claim_cell R r (Some e) iv)"
    "cell_at r' (claim_cell R r (Some e) iv) = (if r = r' then Some e else cell_at r' iv)" by simp_all
qed

lemma claim_inner:
  assumes wf: "inv_wf R iv" and v: "valid_ref r iv" and free: "cell_at r iv = None"
    and e: "entry_ok e" "takes_ref R r (item_path e)"
  shows "inv_wf R (claim_cell R r (Some e) iv)"
    and "inv_total q (claim_cell R r (Some e) iv) = inv_total q iv + cell_count q (Some e)"
proof -
  have "inv_wf R (claim_cell R r (Some e) iv) \<and>
      inv_total q (claim_cell R r (Some e) iv) = inv_total q iv + cell_count q (Some e)"
  proof (cases r)
    case (SlotBase i)
    then have "i < BASE_SLOT_COUNT" "base iv ! i = None"
      using v free wf base_slot [OF wf, of i] by (simp_all add: valid_ref_def inv_wf_length)
    with claim_base [OF wf _ _ e(1)] SlotBase show ?thesis by simp
  next
    case (SlotBag b s)
    then have eq: "claim_cell R r (Some e) iv = set_cell r (Some e) iv" by (simp add: claim_cell_def)
    have "inv_wf R (set_cell r (Some e) iv)"
      using wf v e free SlotBag
      by (intro set_cell_wf) (auto simp: takes_ref_def inner_ok_def is_bag_item_def)
    with set_cell_total [OF inv_wf_distinct(1) [OF wf] v, of q "Some e"] free show ?thesis by (simp add: eq)
  qed (use e in \<open>simp add: takes_ref_def\<close>)
  then show "inv_wf R (claim_cell R r (Some e) iv)"
    "inv_total q (claim_cell R r (Some e) iv) = inv_total q iv + cell_count q (Some e)" by simp_all
qed

lemma cell_at_entry_ok: "inv_wf R iv \<Longrightarrow> cell_at r iv = Some e \<Longrightarrow> entry_ok e"
  using cell_at_Some_valid [of r iv e]
  by (cases r)
     (auto simp: cell_at_def inv_wf_length cell_ok_def inner_ok_def dest!: vget_Some_less split: option.splits
       dest: inv_wf_base_entry inv_wf_cursor_entry inv_wf_inner)

interpretation inv_store: cell_store cell_at valid_ref set_cell "claim_cell R" inv_total "inv_wf R"
  reachable_ref "takes_ref R" for R
proof unfold_locales
  fix r iv
  show "cell_at r iv \<noteq> None \<Longrightarrow> valid_ref r iv" by (auto intro: cell_at_Some_valid)
qed (simp_all add: cell_at_entry_ok claim_frame cell_at_set_cell set_count_wf reachable_ref_def
  set_cell_total inv_wf_distinct claim_inner del: cell_count_Some)

section \<open>What lands\<close>

text \<open>The room the inventory has for item \<open>p\<close>: free space in its stacks, and empty slots.\<close>

definition inv_room :: "registry \<Rightarrow> string \<Rightarrow> player_inventory \<Rightarrow> nat" where
  "inv_room R p iv =
     (\<Sum>r\<leftarrow>base_refs @ inner_refs iv. topup_room p (max_stack R p) (cell_at r iv))
     + (\<Sum>r\<leftarrow>base_refs @ (if is_bag_item R p then [] else inner_refs iv). claim_room (max_stack R p) (cell_at r iv))"

lemma carried_keys:
  assumes "inv_wf R iv"
  shows "distinct (carried_bag_keys iv)" "CURSOR_BAG_KEY \<notin> set (carried_bag_keys iv)"
  using assms by (simp_all add: carried_bag_keys_def inv_wf_distinct distinct_filter)

lemma inner_refs_mem:
  "r \<in> set (inner_refs iv) \<longleftrightarrow>
     (\<exists>b s arr. r = SlotBag b s \<and> b \<noteq> CURSOR_BAG_KEY \<and> map_of (bags iv) b = Some arr \<and> s < length arr)"
proof -
  have keys: "b \<in> set (carried_bag_keys iv) \<longleftrightarrow> b \<noteq> CURSOR_BAG_KEY \<and> map_of (bags iv) b \<noteq> None" for b
    by (auto simp: carried_bag_keys_def map_of_eq_None_iff)
  have "r \<in> set (inner_refs iv) \<longleftrightarrow> (\<exists>b\<in>set (carried_bag_keys iv). \<exists>s < (case map_of (bags iv) b of
      None \<Rightarrow> 0 | Some arr \<Rightarrow> length arr). r = SlotBag b s)"
    by (auto simp: inner_refs_def image_iff)
  then show ?thesis by (auto simp: keys)
qed

lemma distinct_inner:
  "distinct ks \<Longrightarrow> distinct (concat (map (\<lambda>b. map (SlotBag b) [0..<f b]) ks))"
  by (induction ks) (auto simp: distinct_map inj_on_def)

lemma place_refs:
  assumes "inv_wf R iv"
  shows "distinct (base_refs @ inner_refs iv)"
    and "\<forall>r\<in>set (base_refs @ inner_refs iv). reachable_ref r \<and> valid_ref r iv"
    and "\<forall>r\<in>set base_refs. takes_ref R r p"
    and "\<not> is_bag_item R p \<Longrightarrow> \<forall>r\<in>set (inner_refs iv). takes_ref R r p"
proof -
  have "distinct (inner_refs iv)"
    using distinct_inner [OF carried_keys(1) [OF assms]] by (simp add: inner_refs_def)
  then show "distinct (base_refs @ inner_refs iv)"
    by (auto simp: base_refs_def distinct_map inj_on_def inner_refs_mem)
  show "\<forall>r\<in>set (base_refs @ inner_refs iv). reachable_ref r \<and> valid_ref r iv"
    using assms by (auto simp: base_refs_def inner_refs_mem reachable_ref_def valid_ref_def inv_wf_length)
qed (auto simp: base_refs_def takes_ref_def inner_refs_mem)

lemma claim_done: "fold (claim_step valid get claim p cap) rs (s, t, 0) = (s, t, 0)"
  by (induction rs) (simp_all add: claim_step_def)

lemma add_item_locating_effect:
  assumes reg: "reg_ok R" and wf: "inv_wf R iv" and n: "0 < n" and p: "p \<noteq> []"
  obtains t l iv' where "add_item_locating R p n iv = Inr ((t, l), iv')" "inv_wf R iv'"
    "\<And>q. inv_total q iv' = inv_total q iv + units q p (n - l)" "l = n - inv_room R p iv" "l \<le> n"
proof -
  define cap inner where "cap = max_stack R p" and "inner = inner_refs iv"
  define cs where "cs = base_refs @ (if is_bag_item R p then [] else inner)"
  obtain s1 t1 n1 where topup: "fold (topup_step cell_at set_cell p cap) (base_refs @ inner) (iv, [], n) = (s1, t1, n1)"
    by (metis surj_pair)
  obtain s2 t2 n2 where claim: "fold (claim_step valid_ref cell_at (claim_cell R) p cap) cs (s1, t1, n1) = (s2, t2, n2)"
    by (metis surj_pair)
  have res: "add_item_locating R p n iv = Inr ((map show_ref t2, n2), s2)"
  proof (cases "is_bag_item R p")
    case True
    with claim topup n p show ?thesis
      by (simp add: add_item_locating_def Let_def cap_def [symmetric] inner_def [symmetric] cs_def)
  next
    case False
    obtain s3 t3 n3 where base: "fold (claim_step valid_ref cell_at (claim_cell R) p cap) base_refs (s1, t1, n1) = (s3, t3, n3)"
      by (metis surj_pair)
    then have "fold (claim_step valid_ref cell_at (claim_cell R) p cap) inner (s3, t3, n3) = (s2, t2, n2)"
      using claim False by (simp add: cs_def)
    then show ?thesis
      using topup n p False base claim_done [of valid_ref cell_at "claim_cell R" p cap inner s3 t3]
      by (cases "n3 = 0") (simp_all add: add_item_locating_def Let_def cap_def [symmetric] inner_def [symmetric])
  qed
  note refs = place_refs [OF wf, folded inner_def]
  have cs: "distinct cs" "\<forall>r\<in>set cs. takes_ref R r p \<and> valid_ref r iv"
    using refs by (auto simp: cs_def)
  have "inv_wf R s2 \<and> inv_total q s2 = inv_total q iv + units q p (n - n2) \<and> n2 \<le> n
    \<and> n2 = n - (\<Sum>r\<leftarrow>base_refs @ inner. topup_room p cap (cell_at r iv)) - (\<Sum>r\<leftarrow>cs. claim_room cap (cell_at r iv))" for q
    using reg refs(2) by (intro inv_store.place_effect [OF refs(1) cs(1) wf _ _ p _ cs(2) topup claim]) (auto simp: cap_def)
  moreover from this have "n2 = n - inv_room R p iv"
    by (simp add: inv_room_def cap_def inner_def cs_def)
  ultimately show thesis by (intro that [OF res]) blast+
qed

lemma add_item_locating_Inr:
  assumes "reg_ok R" "inv_wf R iv" "add_item_locating R p n iv = Inr ((t, l), iv')"
  shows "inv_wf R iv' \<and> inv_total q iv' = inv_total q iv + units q p (n - l) \<and> l = n - inv_room R p iv
    \<and> l \<le> n \<and> 0 < n \<and> p \<noteq> []"
proof -
  have np: "0 < n" "p \<noteq> []" using assms(3) by (auto simp: add_item_locating_def split: if_splits)
  from add_item_locating_effect [OF assms(1,2) np] assms(3) np show ?thesis by (metis Inr_inject prod.inject)
qed

lemma add_item_locating_Inl: "add_item_locating R p n iv = Inl e \<longleftrightarrow> (n = 0 \<and> e = ZeroCount) \<or> (n \<noteq> 0 \<and> p = [] \<and> e = EmptyItemPath)"
  by (auto simp: add_item_locating_def Let_def split: prod.splits)

text \<open>Running the placements of a list of grants, as the apply phase does; the result lists what each
  grant left over.\<close>

text \<open>A grant that touches no slot changed nothing.\<close>

lemma add_item_locating_untouched:
  assumes "add_item_locating R p n iv = Inr (([], l), iv')"
  shows "iv' = iv \<and> l = n"
proof -
  let ?cap = "max_stack R p" and ?inner = "inner_refs iv"
  obtain s1 t1 n1 where one: "fold (topup_step cell_at set_cell p ?cap) (base_refs @ ?inner) (iv, [], n) = (s1, t1, n1)"
    by (metis surj_pair)
  obtain s2 t2 n2 where two: "fold (claim_step valid_ref cell_at (claim_cell R) p ?cap) base_refs (s1, t1, n1) = (s2, t2, n2)"
    by (metis surj_pair)
  obtain s3 t3 n3 where three: "fold (claim_step valid_ref cell_at (claim_cell R) p ?cap) ?inner (s2, t2, n2) = (s3, t3, n3)"
    by (metis surj_pair)
  note grow = topup_untouched [OF one] claim_untouched [OF two] claim_untouched [OF three]
  from assms one two three
  have "(t2 = [] \<and> iv' = s2 \<and> l = n2) \<or> (t3 = [] \<and> iv' = s3 \<and> l = n3)"
    by (auto simp: add_item_locating_def Let_def split: if_splits)
  with grow show ?thesis by auto
qed

lemma add_item_locating_none:
  assumes reg: "reg_ok R" and add: "add_item_locating R p n iv = Inr ((t, n), iv')"
  shows "iv' = iv \<and> t = []"
proof -
  let ?cap = "max_stack R p" and ?inner = "inner_refs iv"
  obtain s1 t1 n1 where one: "fold (topup_step cell_at set_cell p ?cap) (base_refs @ ?inner) (iv, [], n) = (s1, t1, n1)"
    by (metis surj_pair)
  obtain s2 t2 n2 where two: "fold (claim_step valid_ref cell_at (claim_cell R) p ?cap) base_refs (s1, t1, n1) = (s2, t2, n2)"
    by (metis surj_pair)
  obtain s3 t3 n3 where three: "fold (claim_step valid_ref cell_at (claim_cell R) p ?cap) ?inner (s2, t2, n2) = (s3, t3, n3)"
    by (metis surj_pair)
  have cap: "0 < ?cap" using reg by simp
  note steps = topup_progress [OF one] claim_progress [OF cap two] claim_progress [OF cap three]
  from add one two three
  have "(n2 = n \<and> iv' = s2 \<and> t = map show_ref t2) \<or> (n3 = n \<and> iv' = s3 \<and> t = map show_ref t3)"
    by (auto simp: add_item_locating_def Let_def split: if_splits)
  with steps show ?thesis by auto
qed

fun place_all :: "registry \<Rightarrow> (string \<times> nat) list \<Rightarrow> player_inventory \<Rightarrow> nat list \<times> player_inventory" where
  "place_all R [] iv = ([], iv)"
| "place_all R ((p, n) # grants) iv =
     (case add_item_locating R p n iv of
        Inl err \<Rightarrow> (case place_all R grants iv of (ls, iv') \<Rightarrow> (n # ls, iv'))
      | Inr ((t, l), iv1) \<Rightarrow> (case place_all R grants iv1 of (ls, iv') \<Rightarrow> (l # ls, iv')))"

definition grants_total :: "string \<Rightarrow> (string \<times> nat) list \<Rightarrow> nat" where
  "grants_total q gs = sum_list (map (\<lambda>(p, n). units q p n) gs)"

lemma grants_total_simps [simp]:
  "grants_total q [] = 0" "grants_total q ((p, n) # gs) = units q p n + grants_total q gs"
  "grants_total q (gs @ hs) = grants_total q gs + grants_total q hs"
  by (simp_all add: grants_total_def)

lemma can_accept_place_all:
  assumes "reg_ok R" "inv_wf R iv" "can_accept R grants iv" "place_all R grants iv = (ls, iv')"
  shows "inv_wf R iv' \<and> (\<forall>l\<in>set ls. l = 0) \<and> inv_total q iv' = inv_total q iv + grants_total q grants"
  using assms
proof (induction grants arbitrary: iv ls)
  case Nil
  then show ?case by simp
next
  case (Cons g grants)
  obtain p n where g: "g = (p, n)" by (cases g)
  from Cons.prems(3) g obtain t iv1 where add: "add_item_locating R p n iv = Inr ((t, 0), iv1)"
    and rest: "can_accept R grants iv1"
    by (auto simp: can_accept_def split: sum.splits prod.splits if_splits)
  obtain ls1 where pl: "place_all R grants iv1 = (ls1, iv')" and ls: "ls = 0 # ls1"
    using Cons.prems(4) add g by (auto split: prod.splits)
  note eff = add_item_locating_Inr [OF Cons.prems(1,2) add, of q]
  from Cons.IH [OF Cons.prems(1) _ rest pl] eff g ls show ?case by simp
qed

text \<open>Placing for real leaves nothing over just where the dry run says so, as long as no grant is empty.\<close>

lemma can_accept_iff:
  "can_accept R grants iv \<longleftrightarrow> (\<forall>(p, n)\<in>set grants. 0 < n) \<and> (\<forall>l\<in>set (fst (place_all R grants iv)). l = 0)"
proof (induction grants arbitrary: iv)
  case Nil
  then show ?case by (simp add: can_accept_def)
next
  case (Cons g grants)
  obtain p n where g: "g = (p, n)" by (cases g)
  show ?case
  proof (cases "add_item_locating R p n iv")
    case (Inl err)
    then show ?thesis by (auto simp: g can_accept_def split: prod.splits)
  next
    case (Inr r)
    obtain t l iv1 where r: "r = ((t, l), iv1)" by (metis surj_pair)
    have "0 < n" using Inr by (auto simp: add_item_locating_def split: if_splits)
    then show ?thesis using Cons.IH [of iv1] Inr r by (auto simp: g can_accept_def split: prod.splits)
  qed
qed

lemma can_accept_single:
  assumes "reg_ok R" "inv_wf R iv"
  shows "can_accept R [(p, n)] iv \<longleftrightarrow> 0 < n \<and> p \<noteq> [] \<and> n \<le> inv_room R p iv"
proof (cases "0 < n \<and> p \<noteq> []")
  case True
  with add_item_locating_effect [OF assms, of n p] obtain t iv' where
    "add_item_locating R p n iv = Inr ((t, n - inv_room R p iv), iv')" by metis
  with True show ?thesis by (simp add: can_accept_def)
next
  case False
  then show ?thesis by (auto simp: can_accept_def add_item_locating_def)
qed

end
