(* ===== verification/InvTake.thy ===== *)
theory InvTake
  imports InvPlace
begin

text \<open>
  The remaining operations of \<open>PlayerInventory\<close>: splitting a stack, worn gear, taking units away,
  parking the held stack, the purge of NO RENT items and what death strips.  The lemmas say exactly
  which units leave and that everything else stays.
\<close>

section \<open>Splitting and worn gear\<close>

definition split_base :: "registry \<Rightarrow> nat \<Rightarrow> nat \<Rightarrow> nat \<Rightarrow> player_inventory \<Rightarrow> nat list inv_result" where
  "split_base R src dst n iv =
     (if src \<ge> BASE_SLOT_COUNT \<or> dst \<ge> BASE_SLOT_COUNT then Inl SlotOutOfRange
      else if src = dst then Inl SameSlot
      else if n = 0 then Inl ZeroCount
      else case base iv ! src of
        None \<Rightarrow> Inl SourceEmpty
      | Some e \<Rightarrow>
          if ecount e < n then Inl TooFewToSplit
          else
            let refused =
                  (case base iv ! dst of
                     None \<Rightarrow> None
                   | Some existing \<Rightarrow>
                       if item_path existing = item_path e
                       then (if add32_sat (ecount existing) n > max_stack R (item_path e)
                             then Some StackSizeExceeded else None)
                       else Some DifferentItem)
            in case refused of
                 Some err \<Rightarrow> Inl err
               | None \<Rightarrow>
                   let new_src = (if ecount e - n = 0 then None else Some (entry (item_path e) (ecount e - n)));
                       new_dst = (case base iv ! dst of
                                    Some existing \<Rightarrow> entry (item_path existing) (add32_sat (ecount existing) n)
                                  | None \<Rightarrow> entry (item_path e) n);
                       iv1 = iv\<lparr>base := (base iv)[src := new_src, dst := Some new_dst]\<rparr>
                   in Inr ([src, dst], ensure_bag_init R dst (ensure_bag_init R src iv1)))"

definition unequip_to_base :: "registry \<Rightarrow> nat \<Rightarrow> nat \<Rightarrow> player_inventory \<Rightarrow> touched inv_result" where
  "unequip_to_base R equip_slot dst iv =
     (if equip_slot \<ge> EQUIP_SLOT_COUNT then Inl EquipSlotOutOfRange
      else if dst \<ge> BASE_SLOT_COUNT then Inl BaseSlotOutOfRange
      else if (case base iv ! dst of
                 Some existing \<Rightarrow> \<not> is_equippable_in_slot R (item_path existing) equip_slot
               | None \<Rightarrow> False)
      then Inl BaseItemNotEquippableHere
      else case map_of (equipment iv) equip_slot of
        None \<Rightarrow> Inl EquipSlotEmpty
      | Some worn \<Rightarrow>
          let prev_base = base iv ! dst;
              iv1 = iv\<lparr>base := (base iv)[dst := Some worn],
                       equipment := reattach equip_slot prev_base (AList.delete equip_slot (equipment iv))\<rparr>
          in Inr ([(''base'', dst), (''equip'', equip_slot)], ensure_bag_init R dst iv1))"

definition unequip_to_cursor :: "nat \<Rightarrow> player_inventory \<Rightarrow> touched inv_result" where
  "unequip_to_cursor equip_slot iv =
     (if equip_slot \<ge> EQUIP_SLOT_COUNT then Inl EquipSlotOutOfRange
      else if cursor iv \<noteq> None then Inl CursorOccupied
      else case map_of (equipment iv) equip_slot of
        None \<Rightarrow> Inl EquipSlotEmpty
      | Some worn \<Rightarrow>
          Inr ([(''cursor'', 0), (''equip'', equip_slot)],
               iv\<lparr>equipment := AList.delete equip_slot (equipment iv), cursor := Some worn\<rparr>))"

text \<open>Reading the source of an equip or a removal: the entry, or the refusal.\<close>

definition source_entry :: "slot_ref \<Rightarrow> player_inventory \<Rightarrow> move_error + inventory_entry" where
  "source_entry r iv =
     (case r of
        SlotBase s \<Rightarrow> (case vget (base iv) s of None \<Rightarrow> Inl SourceEmpty | Some e \<Rightarrow> Inr e)
      | SlotBag b s \<Rightarrow>
          (case map_of (bags iv) b of
             None \<Rightarrow> Inl NoSourceBag
           | Some arr \<Rightarrow>
               if s \<ge> length arr then Inl BagSlotOutOfRange
               else (case arr ! s of None \<Rightarrow> Inl SourceEmpty | Some e \<Rightarrow> Inr e))
      | SlotCursor \<Rightarrow> (case cursor iv of None \<Rightarrow> Inl SourceEmpty | Some e \<Rightarrow> Inr e))"

definition equip_from_location :: "registry \<Rightarrow> string \<Rightarrow> nat \<Rightarrow> nat \<Rightarrow> player_inventory \<Rightarrow> touched inv_result" where
  "equip_from_location R src_loc src_slot equip_slot iv =
     (if equip_slot \<ge> EQUIP_SLOT_COUNT then Inl EquipSlotOutOfRange
      else case parse_slot_ref src_loc src_slot of
        Inl err \<Rightarrow> Inl err
      | Inr src \<Rightarrow>
          (case reject_held_bag_slot src of
             Inl err \<Rightarrow> Inl err
           | Inr _ \<Rightarrow>
               (case source_entry src iv of
                  Inl err \<Rightarrow> Inl err
                | Inr e \<Rightarrow>
                    if \<not> is_equippable_in_slot R (item_path e) equip_slot then Inl NotEquippableHere
                    else
                      let prev = map_of (equipment iv) equip_slot;
                          iv1 = (set_cell src prev iv)\<lparr>equipment := AList.update equip_slot e (equipment iv)\<rparr>;
                          iv2 = (case src of SlotBase s \<Rightarrow> ensure_bag_init R s iv1 | _ \<Rightarrow> iv1)
                      in Inr ([show_ref src, (''equip'', equip_slot)], iv2))))"

definition restore_worn :: "registry \<Rightarrow> string \<Rightarrow> nat \<Rightarrow> nat \<Rightarrow> player_inventory \<Rightarrow> bool \<times> player_inventory" where
  "restore_worn R p n slot iv =
     (if slot \<ge> EQUIP_SLOT_COUNT \<or> n = 0 \<or> map_of (equipment iv) slot \<noteq> None
         \<or> \<not> is_equippable_in_slot R p slot
      then (False, iv)
      else (True, iv\<lparr>equipment := AList.update slot (entry p n) (equipment iv)\<rparr>))"

section \<open>Taking units away\<close>

text \<open>Write back what is left of a stack; a base slot re-syncs its bag.\<close>

definition take_units :: "registry \<Rightarrow> slot_ref \<Rightarrow> inventory_entry \<Rightarrow> nat \<Rightarrow> player_inventory \<Rightarrow> player_inventory" where
  "take_units R r e left iv =
     (let iv1 = set_cell r (if left = 0 then None else Some (entry (item_path e) left)) iv
      in case r of SlotBase s \<Rightarrow> ensure_bag_init R s iv1 | _ \<Rightarrow> iv1)"

definition destroy_at :: "registry \<Rightarrow> string \<Rightarrow> nat \<Rightarrow> nat \<Rightarrow> player_inventory \<Rightarrow> (string \<times> nat) inv_result" where
  "destroy_at R loc slot n iv =
     (case parse_slot_ref loc slot of
        Inl err \<Rightarrow> Inl err
      | Inr r \<Rightarrow>
          (case reject_held_bag_slot r of
             Inl err \<Rightarrow> Inl err
           | Inr _ \<Rightarrow>
               if (case r of SlotBase s \<Rightarrow> bag_key_is_nonempty s iv | _ \<Rightarrow> False) then Inl BagNotEmptyToDestroy
               else if r = SlotCursor \<and> bag_key_is_nonempty CURSOR_BAG_KEY iv then Inl BagNotEmpty
               else case source_entry r iv of
                 Inl err \<Rightarrow> Inl err
               | Inr e \<Rightarrow>
                   let to_remove = (if n = 0 \<or> n \<ge> ecount e then ecount e else n)
                   in Inr ((item_path e, to_remove), take_units R r e (ecount e - to_remove) iv)))"

definition decrement_at :: "registry \<Rightarrow> string \<Rightarrow> nat \<Rightarrow> player_inventory \<Rightarrow> string inv_result" where
  "decrement_at R loc slot iv =
     (case parse_slot_ref loc slot of
        Inl err \<Rightarrow> Inl err
      | Inr r \<Rightarrow>
          (case reject_held_bag_slot r of
             Inl err \<Rightarrow> Inl err
           | Inr _ \<Rightarrow>
               (case source_entry r iv of
                  Inl err \<Rightarrow> Inl err
                | Inr e \<Rightarrow> Inr (item_path e, take_units R r e (sub32 (ecount e) 1) iv))))"

text \<open>\<open>park_cursor_stack\<close>: the first empty slot, base before bags, never a merge.\<close>

fun first_empty_base :: "nat list \<Rightarrow> player_inventory \<Rightarrow> nat option" where
  "first_empty_base [] iv = None"
| "first_empty_base (i # is) iv = (if base iv ! i = None then Some i else first_empty_base is iv)"

definition park_cursor_stack :: "registry \<Rightarrow> player_inventory \<Rightarrow> ((string \<times> nat) \<times> touched) inv_result" where
  "park_cursor_stack R iv =
     (case cursor iv of
        None \<Rightarrow> Inl SourceEmpty
      | Some held \<Rightarrow>
          (case first_empty_base [0..<BASE_SLOT_COUNT] iv of
             Some i \<Rightarrow>
               (case move_cursor_to_base R i iv of
                  Inl err \<Rightarrow> Inl err
                | Inr (touched, iv') \<Rightarrow> Inr (((''base'', i), touched), iv'))
           | None \<Rightarrow>
               if is_bag_item R (item_path held) then Inl BagsFull
               else case find (\<lambda>r. cell_at r iv = None) (inner_refs iv) of
                 Some (SlotBag b s) \<Rightarrow>
                   (case move_cursor_to_bag R b s iv of
                      Inl err \<Rightarrow> Inl err
                    | Inr (touched, iv') \<Rightarrow> Inr (((bag_loc b, s), touched), iv'))
               | _ \<Rightarrow> Inl BagsFull))"

section \<open>Purge, death and what is carried\<close>

fun take_doomed :: "(string \<Rightarrow> bool) \<Rightarrow> cell list \<Rightarrow> cell list \<times> (string \<times> nat) list" where
  "take_doomed doomed [] = ([], [])"
| "take_doomed doomed (c # cs) =
     (case take_doomed doomed cs of (cs', gone) \<Rightarrow>
        (case c of
           Some e \<Rightarrow> if doomed (item_path e) then (None # cs', (item_path e, ecount e) # gone) else (c # cs', gone)
         | None \<Rightarrow> (c # cs', gone)))"

definition purge_no_rent :: "registry \<Rightarrow> player_inventory \<Rightarrow> (string \<times> nat) list \<times> player_inventory" where
  "purge_no_rent R iv =
     (let doomed = is_no_rent R;
          (base', gone1) = take_doomed doomed (base iv);
          worn = filter (\<lambda>(k, e). doomed (item_path e)) (equipment iv);
          equipment' = filter (\<lambda>(k, e). \<not> doomed (item_path e)) (equipment iv);
          bags' = map (\<lambda>(k, arr). (k, fst (take_doomed doomed arr))) (bags iv);
          gone3 = concat (map (\<lambda>(k, arr). snd (take_doomed doomed arr)) (bags iv));
          (cursor', gone4) = take_doomed doomed [cursor iv]
      in (gone1 @ map (\<lambda>(k, e). (item_path e, ecount e)) worn @ gone3 @ gone4,
          \<lparr>base = base', equipment = equipment', bags = bags', cursor = cursor' ! 0\<rparr>))"

definition cell_stacks :: "cell list \<Rightarrow> (string \<times> nat) list" where
  "cell_stacks cs = concat (map (\<lambda>c. case c of None \<Rightarrow> [] | Some e \<Rightarrow> [(item_path e, ecount e)]) cs)"

definition all_stacks :: "player_inventory \<Rightarrow> (string \<times> nat) list" where
  "all_stacks iv =
     cell_stacks (base iv) @ map (\<lambda>(k, e). (item_path e, ecount e)) (equipment iv)
     @ concat (map (\<lambda>(k, arr). cell_stacks arr) (bags iv)) @ cell_stacks [cursor iv]"

definition corpse_stacks :: "player_inventory \<Rightarrow> (string \<times> nat \<times> nat option) list" where
  "corpse_stacks iv =
     map (\<lambda>(slot, e). (item_path e, ecount e, Some slot)) (sort_key fst (equipment iv))
     @ map (\<lambda>(p, n). (p, n, None)) (cell_stacks (base iv))
     @ concat (map (\<lambda>key. map (\<lambda>(p, n). (p, n, None))
                      (cell_stacks (case map_of (bags iv) key of None \<Rightarrow> [] | Some arr \<Rightarrow> arr)))
                   (sort (map fst (bags iv))))
     @ map (\<lambda>(p, n). (p, n, None)) (cell_stacks [cursor iv])"

definition clear_all :: "player_inventory \<Rightarrow> player_inventory" where
  "clear_all iv = \<lparr>base = map (\<lambda>_. None) (base iv), equipment = [], bags = [], cursor = None\<rparr>"

section \<open>Exactly what leaves\<close>

lemma source_entry_cell: "source_entry r iv = Inr e \<longleftrightarrow> cell_at r iv = Some e"
  by (auto simp: source_entry_def cell_at_def vget_def split: slot_ref.splits option.splits if_splits)

lemma contents_empty_iff: "contents_empty k (bags iv) \<longleftrightarrow> \<not> bag_key_is_nonempty k iv"
  by (auto simp: bag_key_is_nonempty_def list_all_iff list_ex_iff split: option.splits)

lemma take_units_effect:
  assumes wf: "inv_wf R iv" and at: "cell_at r iv = Some e" and free: "reject_held_bag_slot r = Inr ()"
    and left: "left \<le> ecount e" and empty: "is_bag_item R (item_path e) \<Longrightarrow> left = 0 \<Longrightarrow> contents_empty (host_key r) (bags iv)"
  shows "inv_wf R (take_units R r e left iv)
    \<and> inv_total q (take_units R r e left iv) + units q (item_path e) (ecount e - left) = inv_total q iv"
proof -
  have v: "valid_ref r iv" using at by (rule cell_at_Some_valid)
  have e: "entry_ok e" using wf at by (rule cell_at_entry_ok)
  let ?c = "if left = 0 then None else Some (entry (item_path e) left)"
  let ?s = "set_cell r ?c iv"
  have tot: "inv_total q ?s + units q (item_path e) (ecount e - left) = inv_total q iv"
    using set_cell_total [OF inv_wf_distinct(1) [OF wf] v, of q ?c] at left by (auto simp: units_def split: if_splits)
  have base: "s < BASE_SLOT_COUNT" if "r = SlotBase s" for s
    using v wf that by (simp add: valid_ref_def inv_wf_length)
  show ?thesis
  proof (cases "left = 0 \<and> is_bag_item R (item_path e)")
    case False
    have "inv_wf R ?s"
    proof (cases "left = 0")
      case True
      with False wf v free at show ?thesis by (intro set_cell_wf) auto
    next
      case nz: False
      then have "entry_ok (entry (item_path e) left)" using e left by (simp add: entry_ok_def)
      from set_count_wf [OF wf at this free] nz show ?thesis by simp
    qed
    with tot base show ?thesis by (cases r) (auto simp: take_units_def Let_def)
  next
    case True
    have ce: "contents_empty (host_key r) (bags iv)" using empty True by simp
    show ?thesis
    proof (cases r)
      case (SlotBase s)
      have but: "inv_wf_but {s} R (set_cell (SlotBase s) None iv)"
        using base [OF SlotBase] ce SlotBase by (intro set_base_wf_but [OF wf]) simp_all
      with ensure_bag_init_wf [OF but base [OF SlotBase]] ensure_bag_init_total [OF but base [OF SlotBase], of q]
        tot True SlotBase
      show ?thesis by (simp add: take_units_def Let_def)
    next
      case (SlotBag b s)
      then obtain arr where arr: "map_of (bags iv) b = Some arr" "s < length arr"
        using v by (auto simp: valid_ref_def split: option.splits)
      with inner_slot [OF wf arr] at SlotBag True show ?thesis by (simp add: inner_ok_iff)
    next
      case SlotCursor
      then have "inv_wf R ?s" using wf ce True by (auto simp: set_cell_def inv_wf_iffs)
      with tot SlotCursor True show ?thesis by (simp add: take_units_def Let_def)
    qed
  qed
qed

lemma destroy_at_Inr:
  assumes wf: "inv_wf R iv" and res: "destroy_at R loc slot n iv = Inr ((p, k), iv')"
  obtains r e where "parse_slot_ref loc slot = Inr r" "reject_held_bag_slot r = Inr ()" "cell_at r iv = Some e" "entry_ok e" "p = item_path e"
    "k = (if n = 0 \<or> n \<ge> ecount e then ecount e else n)" "iv' = take_units R r e (ecount e - k) iv"
    "is_bag_item R (item_path e) \<Longrightarrow> contents_empty (host_key r) (bags iv)"
proof -
  from res obtain r where parse: "parse_slot_ref loc slot = Inr r" by (auto simp: destroy_at_def split: sum.splits)
  with res have rej: "reject_held_bag_slot r = Inr ()" by (auto simp: destroy_at_def split: sum.splits)
  note r = parse rej
  have safe: "r = SlotBase s \<Longrightarrow> \<not> bag_key_is_nonempty s iv" "r = SlotCursor \<Longrightarrow> \<not> bag_key_is_nonempty CURSOR_BAG_KEY iv" for s
    using res r by (auto simp: destroy_at_def)
  then have guards: "\<not> (case r of SlotBase s \<Rightarrow> bag_key_is_nonempty s iv | _ \<Rightarrow> False)"
    "\<not> (r = SlotCursor \<and> bag_key_is_nonempty CURSOR_BAG_KEY iv)"
    by (auto split: slot_ref.splits)
  with res r obtain e where entry: "source_entry r iv = Inr e" by (cases "source_entry r iv") (simp_all add: destroy_at_def)
  then have src: "cell_at r iv = Some e" by (simp add: source_entry_cell)
  have out: "p = item_path e" "k = (if n = 0 \<or> n \<ge> ecount e then ecount e else n)" "iv' = take_units R r e (ecount e - k) iv"
    using res r guards entry by (auto simp: destroy_at_def Let_def)
  have e: "entry_ok e" using wf src by (rule cell_at_entry_ok)
  have empty: "contents_empty (host_key r) (bags iv)" if "is_bag_item R (item_path e)"
  proof (cases r)
    case (SlotBag b s)
    then obtain arr where arr: "map_of (bags iv) b = Some arr" "s < length arr"
      using cell_at_Some_valid [OF src] by (auto simp: valid_ref_def split: option.splits)
    with inner_slot [OF wf arr] src SlotBag that show ?thesis by (simp add: inner_ok_iff)
  qed (use safe in \<open>simp_all add: contents_empty_iff\<close>)
  show thesis by (rule that [OF r src e out empty])
qed

lemma destroy_at_effect:
  assumes wf: "inv_wf R iv" and res: "destroy_at R loc slot n iv = Inr ((p, k), iv')"
  shows "inv_wf R iv' \<and> inv_total q iv' + units q p k = inv_total q iv
    \<and> (\<exists>m. peek_at loc slot iv = Some (p, m) \<and> k = (if n = 0 \<or> m \<le> n then m else n) \<and> 1 \<le> k)"
  using wf res
proof (rule destroy_at_Inr)
  fix r e
  assume at: "parse_slot_ref loc slot = Inr r" "reject_held_bag_slot r = Inr ()" "cell_at r iv = Some e" "entry_ok e"
    and out: "p = item_path e" "k = (if n = 0 \<or> n \<ge> ecount e then ecount e else n)" "iv' = take_units R r e (ecount e - k) iv"
    and empty: "is_bag_item R (item_path e) \<Longrightarrow> contents_empty (host_key r) (bags iv)"
  from take_units_effect [OF wf at(3,2) _ empty, of "ecount e - k" q] out at show ?thesis
    by (auto simp: peek_at_def cell_pair_def entry_ok_def split: if_splits)
qed

text \<open>Dropping an empty contents vector changes no cell.\<close>

lemma ensure_bag_init_cells:
  assumes "inv_wf_but {k} R iv" "k < BASE_SLOT_COUNT"
  shows "cell_at r (ensure_bag_init R k iv) = cell_at r iv"
proof (cases "hosts_bag R (base iv ! k)")
  case True
  then show ?thesis using assms
    by (cases r) (auto simp: ensure_bag_init_def hosts_bag_def inv_wf_length cell_at_def vget_def map_of_or_insert split: option.splits)
next
  case False
  then have del: "ensure_bag_init R k iv = iv\<lparr>bags := AList.delete k (bags iv)\<rparr>"
    using assms by (auto simp: ensure_bag_init_def hosts_bag_def inv_wf_length split: option.splits)
  have "contents_empty k (bags iv)" using False assms by (auto simp: inv_wf_iffs)
  then show ?thesis
    by (cases r) (auto simp: del cell_at_def delete_conv' vget_def list_all_length split: option.splits)
qed

lemma take_units_cells:
  assumes wf: "inv_wf R iv" and at: "cell_at r iv = Some e" and free: "reject_held_bag_slot r = Inr ()"
    and left: "left \<le> ecount e" and empty: "is_bag_item R (item_path e) \<Longrightarrow> left = 0 \<Longrightarrow> contents_empty (host_key r) (bags iv)"
  shows "cell_at r' (take_units R r e left iv)
    = (if r' = r then (if left = 0 then None else Some (entry (item_path e) left)) else cell_at r' iv)"
    "equipment (take_units R r e left iv) = equipment iv"
proof -
  have v: "valid_ref r iv" using at by (rule cell_at_Some_valid)
  let ?c = "if left = 0 then None else Some (entry (item_path e) left)"
  have set: "cell_at r' (set_cell r ?c iv) = (if r' = r then ?c else cell_at r' iv)" using cell_at_set_cell [OF v] by simp
  show "equipment (take_units R r e left iv) = equipment iv"
    by (cases r) (auto simp: take_units_def set_cell_def Let_def split: option.splits)
  show "cell_at r' (take_units R r e left iv) = (if r' = r then ?c else cell_at r' iv)"
  proof (cases r)
    case (SlotBase s)
    have s: "s < BASE_SLOT_COUNT" using v wf SlotBase by (simp add: valid_ref_def inv_wf_length)
    have b: "base iv ! s = Some e" using at SlotBase s wf by (simp add: cell_at_def vget_def inv_wf_length split: if_splits)
    have e: "entry_ok e" using wf at by (rule cell_at_entry_ok)
    have "hosts_bag R ?c \<or> contents_empty s (bags iv)"
      using empty SlotBase s b base_slot(1) [OF wf s] wf_no_bag_contents [OF wf, of "SlotBase s"] by (cases "is_bag_item R (item_path e)") auto
    moreover have "cell_ok ?c" using e left by (simp add: cell_ok_def entry_ok_def)
    ultimately have "inv_wf_but {s} R (set_cell (SlotBase s) ?c iv)" using set_base_wf_but [OF wf s] by blast
    from ensure_bag_init_cells [OF this s, of r'] show ?thesis using set SlotBase by (simp add: take_units_def Let_def)
  qed (use set in \<open>simp_all add: take_units_def Let_def\<close>)
qed

text \<open>Only the named cell changes.\<close>

lemma destroy_at_cells:
  assumes wf: "inv_wf R iv" and res: "destroy_at R loc slot n iv = Inr ((p, k), iv')"
  shows "\<exists>m. peek_at loc slot iv = Some (p, m) \<and> k = (if n = 0 \<or> m \<le> n then m else n)
      \<and> peek_at loc slot iv' = (if k = m then None else Some (p, m - k))"
    "parse_slot_ref loc' slot' \<noteq> parse_slot_ref loc slot \<Longrightarrow> peek_at loc' slot' iv' = peek_at loc' slot' iv"
    "equipment iv' = equipment iv"
proof -
  obtain r e where at: "parse_slot_ref loc slot = Inr r" "reject_held_bag_slot r = Inr ()" "cell_at r iv = Some e"
    and out: "p = item_path e" "k = (if n = 0 \<or> n \<ge> ecount e then ecount e else n)" "iv' = take_units R r e (ecount e - k) iv"
    and empty: "is_bag_item R (item_path e) \<Longrightarrow> contents_empty (host_key r) (bags iv)"
    using destroy_at_Inr [OF wf res] by metis
  note cells = take_units_cells [OF wf at(3,2) _ empty, of "ecount e - k"]
  show "\<exists>m. peek_at loc slot iv = Some (p, m) \<and> k = (if n = 0 \<or> m \<le> n then m else n)
      \<and> peek_at loc slot iv' = (if k = m then None else Some (p, m - k))"
    using cells(1) [of r] at out by (auto simp: peek_at_def cell_pair_def)
  show "parse_slot_ref loc' slot' \<noteq> parse_slot_ref loc slot \<Longrightarrow> peek_at loc' slot' iv' = peek_at loc' slot' iv"
    using cells(1) out(3) at(1) by (auto simp: peek_at_def split: sum.splits)
  show "equipment iv' = equipment iv" using cells(2) out(3) by simp
qed

lemma decrement_at_effect:
  assumes wf: "inv_wf R iv" and res: "decrement_at R loc slot iv = Inr (p, iv')"
    and no_bag: "\<not> is_bag_item R p"
  shows "inv_wf R iv' \<and> inv_total q iv' + units q p 1 = inv_total q iv \<and> (\<exists>m. peek_at loc slot iv = Some (p, m))"
proof -
  obtain r e where r: "parse_slot_ref loc slot = Inr r" "reject_held_bag_slot r = Inr ()"
    and src: "cell_at r iv = Some e" and out: "p = item_path e" "iv' = take_units R r e (sub32 (ecount e) 1) iv"
    using res by (auto simp: decrement_at_def source_entry_cell [symmetric] split: sum.splits)
  have "1 \<le> ecount e" using cell_at_entry_ok [OF wf src] by (simp add: entry_ok_def)
  with take_units_effect [OF wf src r(2), of "ecount e - 1" q] no_bag out r(1) src show ?thesis
    by (auto simp: peek_at_def cell_pair_def)
qed

section \<open>Splitting conserves, but for the contents of a bag\<close>

text \<open>The two cells of a split, and what they hold afterwards.\<close>

definition split_cells :: "inventory_entry \<Rightarrow> nat \<Rightarrow> cell \<Rightarrow> cell \<times> cell" where
  "split_cells e n d =
     (if ecount e - n = 0 then None else Some (entry (item_path e) (ecount e - n)),
      Some (case d of Some x \<Rightarrow> entry (item_path x) (add32_sat (ecount x) n) | None \<Rightarrow> entry (item_path e) n))"

lemma split_base_Inr:
  assumes "split_base R src dst n iv = Inr (t, iv')"
  obtains e where "src < BASE_SLOT_COUNT" "dst < BASE_SLOT_COUNT" "src \<noteq> dst" "0 < n"
    "base iv ! src = Some e" "n \<le> ecount e"
    "\<And>x. base iv ! dst = Some x \<Longrightarrow> item_path x = item_path e \<and> add32_sat (ecount x) n \<le> max_stack R (item_path e)"
    "iv' = ensure_bag_init R dst (ensure_bag_init R src (set_cell (SlotBase dst) (snd (split_cells e n (base iv ! dst)))
        (set_cell (SlotBase src) (fst (split_cells e n (base iv ! dst))) iv)))"
proof -
  have pre: "src < BASE_SLOT_COUNT" "dst < BASE_SLOT_COUNT" "src \<noteq> dst" "0 < n"
    using assms by (auto simp: split_base_def not_le split: if_splits)
  with assms obtain e where e: "base iv ! src = Some e" by (auto simp: split_base_def split: option.splits)
  with assms pre have n: "n \<le> ecount e" by (auto simp: split_base_def not_le not_less split: if_splits)
  have dst: "item_path x = item_path e \<and> add32_sat (ecount x) n \<le> max_stack R (item_path e)"
    if "base iv ! dst = Some x" for x
    using assms pre e n that by (auto simp: split_base_def Let_def split: if_splits)
  have "iv' = ensure_bag_init R dst (ensure_bag_init R src (set_cell (SlotBase dst) (snd (split_cells e n (base iv ! dst)))
        (set_cell (SlotBase src) (fst (split_cells e n (base iv ! dst))) iv)))"
  proof (cases "base iv ! dst")
    case None
    with assms pre e n show ?thesis by (simp add: split_base_def Let_def split_cells_def set_cell_def)
  next
    case (Some x)
    with assms pre e n dst [OF Some] show ?thesis
      by (simp add: split_base_def Let_def split_cells_def set_cell_def not_less)
  qed
  with pre e n dst show thesis by (rule that)
qed

lemma two_cells_le:
  assumes "i < length b" "j < length b" "i \<noteq> j"
  shows "cell_count p (b ! i) + cell_count p (b ! j) \<le> cells_total p b"
  using cells_total_update [OF assms(1), of p None] cells_total_update [of j "b[i := None]" p None] assms
  by simp

text \<open>Two stacks of base slots fit one counter together; and a split that takes the whole of a stack leaves behind whatever its bag
  holds.\<close>

definition stacks_fit :: "nat \<Rightarrow> nat \<Rightarrow> player_inventory \<Rightarrow> bool" where
  "stacks_fit i j iv =
     (case (vget (base iv) i, vget (base iv) j) of (Some e, Some x) \<Rightarrow> ecount e + ecount x \<le> u32_max | _ \<Rightarrow> True)"

definition whole_stack :: "nat \<Rightarrow> nat \<Rightarrow> player_inventory \<Rightarrow> bool" where
  "whole_stack src n iv = (case vget (base iv) src of Some e \<Rightarrow> ecount e = n | None \<Rightarrow> False)"

definition spills :: "nat \<Rightarrow> nat \<Rightarrow> player_inventory \<Rightarrow> bool" where
  "spills src n iv = (whole_stack src n iv \<and> bag_key_is_nonempty src iv)"

definition spilt :: "string \<Rightarrow> nat \<Rightarrow> nat \<Rightarrow> player_inventory \<Rightarrow> nat" where
  "spilt p src n iv = (if whole_stack src n iv then opt_sum (cells_total p) (map_of (bags iv) src) else 0)"

lemma split_base_conserves:
  assumes reg: "reg_ok R" and wf: "inv_wf R iv" and res: "split_base R src dst n iv = Inr (t, iv')"
    and kept: "\<not> spills src n iv" and small: "stacks_fit src dst iv"
  shows "conserves R iv iv'"
  using res
proof (rule split_base_Inr)
  fix e
  assume sd: "src < BASE_SLOT_COUNT" "dst < BASE_SLOT_COUNT" "src \<noteq> dst" "0 < n"
    and e: "base iv ! src = Some e" "n \<le> ecount e"
    and dst: "\<And>x. base iv ! dst = Some x \<Longrightarrow> item_path x = item_path e \<and> add32_sat (ecount x) n \<le> max_stack R (item_path e)"
    and out: "iv' = ensure_bag_init R dst (ensure_bag_init R src (set_cell (SlotBase dst) (snd (split_cells e n (base iv ! dst)))
        (set_cell (SlotBase src) (fst (split_cells e n (base iv ! dst))) iv)))"
  define c d where "c = fst (split_cells e n (base iv ! dst))" and "d = snd (split_cells e n (base iv ! dst))"
  let ?s1 = "set_cell (SlotBase src) c iv" and ?s2 = "set_cell (SlotBase dst) d (set_cell (SlotBase src) c iv)"
  have ok: "entry_ok e" using inv_wf_base_entry [OF wf sd(1) e(1)] .
  have cap: "max_stack R (item_path e) \<le> u32_max" using reg by simp
  have len: "length (base iv) = BASE_SLOT_COUNT" using wf by (rule inv_wf_length)
  have sum: "add32_sat (ecount x) n = ecount x + n" if "base iv ! dst = Some x" for x
  proof -
    have "ecount e + ecount x \<le> u32_max" using small e that sd len by (simp add: stacks_fit_def vget_nth)
    then have "ecount x + n \<le> u32_max" using e(2) by simp
    then show ?thesis by simp
  qed
  have shape: "cell_ok c \<and> cell_ok d \<and> (hosts_bag R d \<longleftrightarrow> is_bag_item R (item_path e))
      \<and> (base iv ! dst = None \<or> hosts_bag R (base iv ! dst) = is_bag_item R (item_path e))
      \<and> cell_count q c + cell_count q d = cell_count q (base iv ! src) + cell_count q (base iv ! dst)" for q
  proof (cases "base iv ! dst")
    case None
    with e sd(4) ok show ?thesis by (auto simp: c_def d_def split_cells_def cell_ok_def entry_ok_def)
  next
    case (Some x)
    have x: "entry_ok x" using inv_wf_base_entry [OF wf sd(2) Some] .
    have path: "item_path x = item_path e" and le: "ecount x + n \<le> u32_max"
      using dst [OF Some] sum [OF Some] cap by simp_all
    have "d = Some (entry (item_path e) (ecount x + n))"
      using Some sum [OF Some] path by (simp add: d_def split_cells_def)
    moreover have "c = (if ecount e = n then None else Some (entry (item_path e) (ecount e - n)))"
      using e(2) by (auto simp: c_def split_cells_def)
    ultimately show ?thesis using e(2) sd(4) ok x le path
      by (auto simp: Some e(1) cell_ok_def entry_ok_def)
  qed
  have empty: "hosts_bag R c \<or> contents_empty src (bags iv)"
  proof (cases "bag_key_is_nonempty src iv")
    case True
    then have "n < ecount e" using kept e sd(1) len by (auto simp: spills_def whole_stack_def vget_nth)
    moreover have "hosts_bag R (base iv ! src)"
      using wf_no_bag_contents [OF wf, of "SlotBase src"] sd(1) base_slot(1) [OF wf sd(1)] True by (auto simp: contents_empty_iff)
    ultimately show ?thesis using e(1) by (simp add: c_def split_cells_def)
  qed (simp add: contents_empty_iff)
  have dempty: "\<not> is_bag_item R (item_path e) \<Longrightarrow> contents_empty dst (bags iv)"
    using wf_no_bag_contents [OF wf, of "SlotBase dst"] sd(2) shape base_slot(1) [OF wf sd(2)]
    by (cases "base iv ! dst") (auto simp del: hosts_bag_Some)
  have "inv_wf_but {src} R ?s1"
    using set_base_wf_but [OF wf sd(1) _ empty] shape by blast
  then have but: "inv_wf_but {src, dst} R ?s2"
    using sd shape dempty by (auto simp: set_cell_def inv_wf_iffs nth_list_update)
  have tot: "inv_total q ?s2 = inv_total q iv" for q
  proof -
    have v: "valid_ref (SlotBase dst) ?s1" "distinct (map fst (bags ?s1))"
      using sd(2) len inv_wf_distinct(1) [OF wf] by (simp_all add: valid_ref_def set_cell_def)
    show ?thesis
      using set_cell_total [OF v(2,1), of q d] set_cell_total [OF inv_wf_distinct(1) [OF wf], of "SlotBase src" q c]
        shape [of q] base_slot [OF wf sd(1)] base_slot [OF wf sd(2)] sd(3) by (simp add: cell_at_set_cell)
  qed
  have "inv_wf R iv' \<and> inv_total q iv' = inv_total q iv" for q
    using ensure_one [OF but, of src "{dst}" iv q] ensure_one [of "{dst}" R "ensure_bag_init R src ?s2" dst "{}" iv q]
      ensure_one [OF but, of src "{dst}" iv] sd tot
    by (simp add: out c_def d_def insert_Diff_if)
  then show "conserves R iv iv'" by blast
qed

text \<open>Emptying the bag first changes nothing about a split that takes all of it.\<close>

definition emptied :: "nat \<Rightarrow> player_inventory \<Rightarrow> player_inventory" where
  "emptied k iv =
     (case map_of (bags iv) k of None \<Rightarrow> iv | Some arr \<Rightarrow> iv\<lparr>bags := AList.update k (replicate (length arr) None) (bags iv)\<rparr>)"

lemma emptied_simps [simp]:
  "base (emptied k iv) = base iv" "cursor (emptied k iv) = cursor iv" "equipment (emptied k iv) = equipment iv"
  "\<not> bag_key_is_nonempty k (emptied k iv)"
  by (auto simp: emptied_def bag_key_is_nonempty_def list_ex_iff update_conv' split: option.splits)

lemma emptied_total:
  assumes "inv_wf R iv"
  shows "inv_total q (emptied k iv) + opt_sum (cells_total q) (map_of (bags iv) k) = inv_total q iv"
proof (cases "map_of (bags iv) k")
  case (Some arr)
  have "cells_total q (replicate (length arr) None) = 0" by (rule cells_total_all_None) (simp add: list_all_iff)
  then show ?thesis using bags_total_update [OF inv_wf_distinct(1) [OF assms], of q k "replicate (length arr) None"] Some
    by (simp add: emptied_def inv_total_def)
qed (simp add: emptied_def)

lemma emptied_wf: "inv_wf R iv \<Longrightarrow> inv_wf R (emptied k iv)"
  by (auto simp: emptied_def inv_wf_iffs update_conv' distinct_update list_all_iff split: option.splits)

lemma delete_of_update: "AList.delete k (AList.update k v m) = AList.delete k m"
  by (induction m) (auto simp: AList.delete_eq)

lemma emptied_split:
  assumes "whole_stack src n iv"
  shows "split_base R src dst n (emptied src iv) = split_base R src dst n iv"
proof (cases "src < BASE_SLOT_COUNT \<and> dst < BASE_SLOT_COUNT \<and> src \<noteq> dst")
  case True
  have gone: "ensure_bag_init R src ((emptied src iv)\<lparr>base := (base iv)[src := None, dst := d]\<rparr>)
      = ensure_bag_init R src (iv\<lparr>base := (base iv)[src := None, dst := d]\<rparr>)" for d
    using True by (auto simp: ensure_bag_init_def vget_def emptied_def delete_of_update split: option.splits)
  obtain e where "vget (base iv) src = Some e" "ecount e = n" using assms by (auto simp: whole_stack_def split: option.splits)
  then have "base iv ! src = Some e" "ecount e - n = 0" using vget_Some_less by (auto simp: vget_def split: if_splits)
  then show ?thesis using gone by (simp add: split_base_def Let_def)
qed (auto simp: split_base_def)

lemma split_base_exact:
  assumes "reg_ok R" "inv_wf R iv" "split_base R src dst n iv = Inr (t, iv')" "stacks_fit src dst iv"
  shows "inv_wf R iv' \<and> inv_total q iv' + spilt q src n iv = inv_total q iv"
proof (cases "whole_stack src n iv")
  case True
  have res: "split_base R src dst n (emptied src iv) = Inr (t, iv')" using emptied_split [OF True] assms(3) by simp
  have "conserves R (emptied src iv) iv'"
    by (rule split_base_conserves [OF assms(1) emptied_wf [OF assms(2)] res])
      (use assms(4) in \<open>auto simp: spills_def stacks_fit_def\<close>)
  then show ?thesis using emptied_total [OF assms(2), of q src] True by (simp add: conserves_def spilt_def)
next
  case False
  then have "conserves R iv iv'" using split_base_conserves [OF assms(1-3) _ assms(4)] by (simp add: spills_def)
  then show ?thesis using False by (simp add: conserves_def spilt_def)
qed

section \<open>Worn gear\<close>

lemma inv_total_equipment: "inv_total q (iv\<lparr>equipment := m\<rparr>) + equip_total q (equipment iv) = inv_total q iv + equip_total q m"
  by (simp add: inv_total_def)

lemma equip_wf_entry:
  "equip_wf R m \<Longrightarrow> map_of m k = Some e \<Longrightarrow> entry_ok e \<and> is_equippable_in_slot R (item_path e) k
     \<and> \<not> is_bag_item R (item_path e)"
  by (auto simp: equip_wf_iff is_bag_item_def dest: equippable_not_bag)

lemma inv_wf_equipment:
  "inv_wf_but S R iv \<Longrightarrow> equip_wf R m \<Longrightarrow> inv_wf_but S R (iv\<lparr>equipment := m\<rparr>)"
  by (simp add: inv_wf_but_def)

lemma equip_wf_delete: "equip_wf R m \<Longrightarrow> equip_wf R (AList.delete k m)"
  by (auto simp: equip_wf_iff split: if_splits)

lemma equip_wf_update:
  "equip_wf R m \<Longrightarrow> entry_ok e \<Longrightarrow> is_equippable_in_slot R (item_path e) k \<Longrightarrow> equip_wf R (AList.update k e m)"
  by (auto simp: equip_wf_iff split: if_splits)

lemma unequip_to_cursor_conserves:
  assumes "inv_wf R iv" "unequip_to_cursor k iv = Inr (t, iv')"
  shows "conserves R iv iv'"
proof -
  obtain e where e: "cursor iv = None" "map_of (equipment iv) k = Some e"
    "iv' = iv\<lparr>equipment := AList.delete k (equipment iv), cursor := Some e\<rparr>"
    using assms(2) by (auto simp: unequip_to_cursor_def split: if_splits option.splits)
  have eq: "equip_wf R (equipment iv)" using assms(1) by (simp add: inv_wf_but_def)
  have "inv_total q iv' = inv_total q iv" for q
    using equip_total_delete [OF inv_wf_distinct(2) [OF assms(1)], of q k] e by (simp add: inv_total_def)
  moreover have "inv_wf R iv'"
    using assms(1) equip_wf_entry [OF eq e(2)] equip_wf_delete [OF eq, of k] e
    by (auto simp: inv_wf_but_def hand_wf_def cell_ok_def)
  ultimately show ?thesis by blast
qed

lemma unequip_to_base_conserves:
  assumes wf: "inv_wf R iv" and res: "unequip_to_base R k d iv = Inr (t, iv')"
  shows "conserves R iv iv'"
proof -
  have d: "d < BASE_SLOT_COUNT" using res by (auto simp: unequip_to_base_def split: if_splits)
  have fits: "is_equippable_in_slot R (item_path x) k" if "base iv ! d = Some x" for x
    using res that by (auto simp: unequip_to_base_def split: if_splits)
  obtain e where e: "map_of (equipment iv) k = Some e"
    using res by (auto simp: unequip_to_base_def split: if_splits option.splits)
  let ?m = "reattach k (base iv ! d) (AList.delete k (equipment iv))"
  let ?x = "(set_cell (SlotBase d) (Some e) iv)\<lparr>equipment := ?m\<rparr>"
  have out: "iv' = ensure_bag_init R d ?x"
    using res e by (auto simp: unequip_to_base_def Let_def set_cell_def split: if_splits)
  have eq: "equip_wf R (equipment iv)" using wf by (simp add: inv_wf_but_def)
  have plain: "\<not> hosts_bag R (base iv ! d)"
    using fits by (cases "base iv ! d") (auto simp: is_bag_item_def dest: equippable_not_bag)
  have "equip_wf R ?m"
    using equip_wf_delete [OF eq, of k] fits inv_wf_base_entry [OF wf d]
    by (auto simp: reattach_def split: option.splits intro: equip_wf_update)
  then have x: "inv_wf R ?x"
    using equip_wf_entry [OF eq e] plain base_slot [OF wf d]
    by (intro inv_wf_equipment set_cell_wf [OF wf]) (simp_all add: inner_ok_iff cell_ok_def)
  have del: "equip_total q ?m = equip_total q (AList.delete k (equipment iv)) + cell_count q (base iv ! d)" for q
    using equip_total_update [of "AList.delete k (equipment iv)" q k "the (base iv ! d)"] inv_wf_distinct(2) [OF wf]
    by (cases "base iv ! d") (simp_all add: reattach_def)
  have "inv_total q ?x = inv_total q iv" for q
    using inv_total_equipment [of q ?m "set_cell (SlotBase d) (Some e) iv"] del [of q]
      set_cell_total [OF inv_wf_distinct(1) [OF wf] base_slot(2) [OF wf d], of q "Some e"]
      equip_total_delete [OF inv_wf_distinct(2) [OF wf], of q k] e base_slot(1) [OF wf d]
    by (simp add: set_cell_def del: cell_count_Some)
  with x d out show ?thesis by (auto simp: conserves_def)
qed

lemma set_cell_equipment [simp]: "equipment (set_cell r c iv) = equipment iv"
  by (simp add: set_cell_def split: slot_ref.splits option.splits)

lemma equip_from_location_effect:
  assumes wf: "inv_wf R iv" and res: "equip_from_location R loc s k iv = Inr (t, iv')"
  shows "conserves R iv iv'"
    "\<exists>e. map_of (equipment iv') k = Some e \<and> is_equippable_in_slot R (item_path e) k \<and> peek_at loc s iv = Some (item_path e, ecount e)"
    "peek_at loc s iv' = cell_pair (map_of (equipment iv) k)"
    "j \<noteq> k \<Longrightarrow> map_of (equipment iv') j = map_of (equipment iv) j"
    "parse_slot_ref loc' s' \<noteq> parse_slot_ref loc s \<Longrightarrow> peek_at loc' s' iv' = peek_at loc' s' iv"
proof -
  from res obtain r where r: "parse_slot_ref loc s = Inr r"
    by (auto simp: equip_from_location_def split: if_splits sum.splits)
  with res have rej: "reject_held_bag_slot r = Inr ()"
    by (auto simp: equip_from_location_def split: if_splits sum.splits)
  from res r rej obtain e where src: "cell_at r iv = Some e" and fits: "is_equippable_in_slot R (item_path e) k"
    by (auto simp: equip_from_location_def source_entry_cell [symmetric] split: if_splits sum.splits)
  let ?prev = "map_of (equipment iv) k"
  let ?x = "(set_cell r ?prev iv)\<lparr>equipment := AList.update k e (equipment iv)\<rparr>"
  have out: "iv' = (case r of SlotBase s \<Rightarrow> ensure_bag_init R s ?x | _ \<Rightarrow> ?x)"
    using res r rej src fits
    by (auto simp: equip_from_location_def source_entry_cell [symmetric] Let_def split: if_splits)
  have eq: "equip_wf R (equipment iv)" using wf by (simp add: inv_wf_but_def)
  have v: "valid_ref r iv" using src by (rule cell_at_Some_valid)
  have e: "entry_ok e" using wf src by (rule cell_at_entry_ok)
  have nb: "\<not> hosts_bag R (cell_at r iv)" "inner_ok R ?prev"
    using src fits equip_wf_entry [OF eq, of k]
    by (auto simp: is_bag_item_def inner_ok_def dest: equippable_not_bag split: option.splits)
  have x: "inv_wf R ?x"
    using nb v rej equip_wf_update [OF eq e fits] by (intro inv_wf_equipment set_cell_wf [OF wf])
  have "inv_total q ?x = inv_total q iv" for q
    using inv_total_equipment [of q "AList.update k e (equipment iv)" "set_cell r ?prev iv"]
      set_cell_total [OF inv_wf_distinct(1) [OF wf] v, of q ?prev]
      equip_total_update [OF inv_wf_distinct(2) [OF wf], of q k e] src
    by (simp del: cell_count_Some)
  moreover have "s' < BASE_SLOT_COUNT" if "r = SlotBase s'" for s'
    using v wf that by (simp add: valid_ref_def inv_wf_length)
  ultimately have iv': "iv' = ?x" "conserves R iv ?x" using x out by (auto simp: conserves_def split: slot_ref.splits)
  have cells: "cell_at r' iv' = (if r = r' then ?prev else cell_at r' iv)" for r'
  proof -
    have "cell_at r' (iv1\<lparr>equipment := m\<rparr>) = cell_at r' iv1" for iv1 m by (simp add: cell_at_def split: slot_ref.splits)
    then show ?thesis using cell_at_set_cell [OF v, of r' ?prev] by (simp only: iv'(1))
  qed
  show "conserves R iv iv'" using iv' by simp
  show "\<exists>e. map_of (equipment iv') k = Some e \<and> is_equippable_in_slot R (item_path e) k \<and> peek_at loc s iv = Some (item_path e, ecount e)"
    using iv'(1) r src fits by (auto simp: peek_at_def cell_pair_def)
  show "peek_at loc s iv' = cell_pair (map_of (equipment iv) k)" using cells r by (simp add: peek_at_def)
  show "j \<noteq> k \<Longrightarrow> map_of (equipment iv') j = map_of (equipment iv) j" using iv'(1) by (simp add: update_conv')
  show "parse_slot_ref loc' s' \<noteq> parse_slot_ref loc s \<Longrightarrow> peek_at loc' s' iv' = peek_at loc' s' iv"
    using cells r by (auto simp: peek_at_def split: sum.splits)
qed

lemma restore_worn_effect:
  assumes wf: "inv_wf R iv" and res: "restore_worn R p n k iv = (b, iv')" and n: "n \<le> u32_max"
  shows "inv_wf R iv' \<and> inv_total q iv' = inv_total q iv + (if b then units q p n else 0)"
proof (cases b)
  case True
  then have k: "n \<noteq> 0" "map_of (equipment iv) k = None" "is_equippable_in_slot R p k"
    and out: "iv' = iv\<lparr>equipment := AList.update k (entry p n) (equipment iv)\<rparr>"
    using res by (auto simp: restore_worn_def split: if_splits)
  have eq: "equip_wf R (equipment iv)" using wf by (simp add: inv_wf_but_def)
  have "p \<noteq> []" using k(3) by (auto simp: is_equippable_in_slot_def)
  then have "equip_wf R (AList.update k (entry p n) (equipment iv))"
    using k n by (intro equip_wf_update [OF eq]) (simp_all add: entry_ok_def)
  then show ?thesis
    using inv_wf_equipment [OF wf] inv_total_equipment [of q "AList.update k (entry p n) (equipment iv)" iv]
      equip_total_update [OF inv_wf_distinct(2) [OF wf], of q k "entry p n"] k True
    by (auto simp: out units_def)
next
  case False
  with res wf show ?thesis by (auto simp: restore_worn_def split: if_splits)
qed

section \<open>Parking the held stack\<close>

lemma find_empty_inner:
  "find (\<lambda>r. cell_at r iv = None) (inner_refs iv) = Some r \<Longrightarrow>
     \<exists>b s. r = SlotBag b s \<and> b \<noteq> CURSOR_BAG_KEY \<and> cell_at r iv = None"
  by (auto simp: find_Some_iff inner_refs_mem) (metis inner_refs_mem nth_mem)

lemma park_cursor_stack_conserves:
  assumes "reg_ok R" "inv_wf R iv" "park_cursor_stack R iv = Inr ((at, t), iv')"
  shows "conserves R iv iv'"
  using assms(3) find_empty_inner [of iv]
  by (auto simp: park_cursor_stack_def split: option.splits sum.splits prod.splits if_splits slot_ref.splits
      intro: move_cursor_to_base_conserves [OF assms(1,2)] move_cursor_to_bag_conserves [OF assms(1,2)])

section \<open>What is carried, listed\<close>

lemma cell_stacks_simps [simp]:
  "cell_stacks [] = []"
  "cell_stacks (c # cs) = (case c of None \<Rightarrow> [] | Some e \<Rightarrow> [(item_path e, ecount e)]) @ cell_stacks cs"
  by (simp_all add: cell_stacks_def)

lemma cell_stacks_total: "grants_total q (cell_stacks cs) = cells_total q cs"
  by (induction cs) (auto simp: units_def split: option.splits)

lemma equip_stacks_total:
  "grants_total q (map (\<lambda>(k, e). (item_path e, ecount e)) m) = equip_total q m"
  by (induction m) (auto simp: units_def equip_total_def)

lemma bag_stacks_total:
  "grants_total q (concat (map (\<lambda>(k, arr). cell_stacks arr) m)) = bags_total q m"
  by (induction m) (auto simp: bags_total_def cell_stacks_total)

lemma all_stacks_total: "grants_total q (all_stacks iv) = inv_total q iv"
  by (simp add: all_stacks_def cell_stacks_total equip_stacks_total bag_stacks_total inv_total_def del: cell_stacks_simps)

text \<open>Death: the corpse receives the same stacks, and the player keeps none.\<close>

definition corpse_total :: "string \<Rightarrow> (string \<times> nat \<times> nat option) list \<Rightarrow> nat" where
  "corpse_total q cs = grants_total q (map (\<lambda>(p, n, w). (p, n)) cs)"

lemma grants_total_mset: "mset gs = mset hs \<Longrightarrow> grants_total q gs = grants_total q hs"
  unfolding grants_total_def by (metis mset_map sum_mset_sum_list)

lemma bags_by_key:
  assumes "distinct (map fst m)"
  shows "map (\<lambda>k. case map_of m k of None \<Rightarrow> [] | Some arr \<Rightarrow> arr) (map fst m) = map snd m"
  using assms by (auto simp: map_of_eq_Some_iff)

lemma sum_list_sort:
  fixes f :: "'a::linorder \<Rightarrow> nat"
  shows "(\<Sum>k\<leftarrow>sort xs. f k) = (\<Sum>k\<leftarrow>xs. f k)"
proof -
  have "sum_mset (mset (map f (sort xs))) = sum_mset (mset (map f xs))" by simp
  then show ?thesis by (simp only: sum_mset_sum_list)
qed

lemma corpse_stacks_total:
  assumes "inv_wf R iv"
  shows "corpse_total q (corpse_stacks iv) = inv_total q iv"
proof -
  let ?arr = "\<lambda>k. case map_of (bags iv) k of None \<Rightarrow> [] | Some arr \<Rightarrow> arr"
  have strip: "map (\<lambda>(p, n, w). (p, n)) (map (\<lambda>(p, n). (p, n, None)) xs) = xs" for xs :: "(string \<times> nat) list"
    by (induction xs) auto
  have untag: "map (\<lambda>(p, n, w). (p, n)) (map (\<lambda>(slot, e). (item_path e, ecount e, Some slot)) xs)
      = map (\<lambda>(k, e). (item_path e, ecount e)) xs" for xs :: "(nat \<times> inventory_entry) list"
    by (induction xs) auto
  have worn: "grants_total q (map (\<lambda>(p, n, w). (p, n)) (map (\<lambda>(slot, e). (item_path e, ecount e, Some slot)) (sort_key fst (equipment iv))))
      = equip_total q (equipment iv)"
    using grants_total_mset [of "map (\<lambda>(k, e). (item_path e, ecount e)) (sort_key fst (equipment iv))"
        "map (\<lambda>(k, e). (item_path e, ecount e)) (equipment iv)" q] equip_stacks_total [of q "equipment iv"]
    by (simp only: untag) simp
  have "(\<Sum>k\<leftarrow>sort (map fst (bags iv)). cells_total q (?arr k)) = (\<Sum>k\<leftarrow>map fst (bags iv). cells_total q (?arr k))"
    by (rule sum_list_sort)
  also have "\<dots> = bags_total q (bags iv)"
    using arg_cong [OF bags_by_key [OF inv_wf_distinct(1) [OF assms]], of "\<lambda>xs. sum_list (map (cells_total q) xs)"]
    by (simp add: bags_total_def al_sum_def comp_def)
  finally have bag: "(\<Sum>k\<leftarrow>sort (map fst (bags iv)). cells_total q (?arr k)) = bags_total q (bags iv)" .
  have cat: "grants_total q (map (\<lambda>(p, n, w). (p, n)) (concat (map (\<lambda>key. map (\<lambda>(p, n). (p, n, None)) (cell_stacks (?arr key))) ks)))
      = (\<Sum>k\<leftarrow>ks. cells_total q (?arr k))" for ks
    by (induction ks) (simp_all add: cell_stacks_total case_prod_beta comp_def del: cell_stacks_simps)
  show ?thesis
    using worn bag cat [of "sort (map fst (bags iv))"]
    by (simp add: corpse_total_def corpse_stacks_def strip cell_stacks_total inv_total_def del: cell_stacks_simps map_map)
qed

lemma clear_all_total [simp]: "inv_total q (clear_all iv) = 0"
proof -
  have "cells_total q (map (\<lambda>_. None) cs) = 0" for cs :: "cell list"
    by (induction cs) simp_all
  then show ?thesis by (simp add: clear_all_def inv_total_def equip_total_def bags_total_def)
qed

lemma clear_all_wf: "inv_wf R iv \<Longrightarrow> inv_wf R (clear_all iv)"
  by (auto simp: clear_all_def inv_wf_iffs)

section \<open>The purge at login\<close>

lemma take_doomed_total:
  "take_doomed D cs = (cs', gone) \<Longrightarrow>
     cells_total q cs' = (if D q then 0 else cells_total q cs) \<and> grants_total q gone = (if D q then cells_total q cs else 0)"
  by (induction cs arbitrary: cs' gone) (auto simp: units_def split: prod.splits option.splits if_splits)

lemma take_doomed_cell:
  "i < length cs \<Longrightarrow> fst (take_doomed D cs) ! i
     = (case cs ! i of None \<Rightarrow> None | Some e \<Rightarrow> if D (item_path e) then None else Some e)"
proof (induction cs arbitrary: i)
  case (Cons c cs)
  then show ?case by (cases i) (auto split: prod.splits option.splits)
qed simp

lemma take_doomed_length [simp]: "length (fst (take_doomed D cs)) = length cs"
  by (induction cs) (auto split: prod.splits option.splits)

lemma purge_bags_lookup:
  "map_of (map (\<lambda>(k, arr). (k, f arr)) m) k = map_option f (map_of m k)"
  by (induction m) auto

lemma purge_no_rent_effect:
  assumes wf: "inv_wf R iv" and keep: "bags_keep R" and res: "purge_no_rent R iv = (gone, iv')"
  shows "inv_wf R iv' \<and> inv_total q iv' = (if is_no_rent R q then 0 else inv_total q iv)
    \<and> grants_total q gone = (if is_no_rent R q then inv_total q iv else 0)"
proof -
  let ?D = "is_no_rent R"
  let ?b = "fst (take_doomed ?D (base iv))" and ?c = "fst (take_doomed ?D [cursor iv]) ! 0"
  let ?e = "filter (\<lambda>(k, e). \<not> ?D (item_path e)) (equipment iv)"
  let ?m = "map (\<lambda>(k, arr). (k, fst (take_doomed ?D arr))) (bags iv)"
  have iv': "iv' = \<lparr>base = ?b, equipment = ?e, bags = ?m, cursor = ?c\<rparr>"
    and gone: "gone = snd (take_doomed ?D (base iv)) @ map (\<lambda>(k, e). (item_path e, ecount e)) (filter (\<lambda>(k, e). ?D (item_path e)) (equipment iv))
      @ concat (map (\<lambda>(k, arr). snd (take_doomed ?D arr)) (bags iv)) @ snd (take_doomed ?D [cursor iv])"
    using res by (auto simp: purge_no_rent_def Let_def split: prod.splits simp del: take_doomed.simps)
  have cells: "cells_total q (fst (take_doomed ?D cs)) = (if ?D q then 0 else cells_total q cs)"
    "grants_total q (snd (take_doomed ?D cs)) = (if ?D q then cells_total q cs else 0)" for cs
    using take_doomed_total [of ?D cs "fst (take_doomed ?D cs)" "snd (take_doomed ?D cs)" q] by simp_all
  have worn: "equip_total q (filter (\<lambda>(k, e). P (item_path e)) m) = (if P q then equip_total q m else 0)" for P m
    by (induction m) (auto simp: equip_total_def)
  have bag: "bags_total q (map (\<lambda>(k, arr). (k, fst (take_doomed ?D arr))) m) = (if ?D q then 0 else bags_total q m)"
    "grants_total q (concat (map (\<lambda>(k, arr). snd (take_doomed ?D arr)) m)) = (if ?D q then bags_total q m else 0)" for m
    by (induction m) (auto simp: bags_total_def cells)
  have cur: "cell_count q ?c = (if ?D q then 0 else cell_count q (cursor iv))"
    using cells(1) [of "[cursor iv]"] by (cases "cursor iv") auto
  have total: "inv_total q iv' = (if ?D q then 0 else inv_total q iv)"
    using cells(1) [of "base iv"] worn [of "\<lambda>p. \<not> ?D p"] bag(1) cur by (simp add: iv' inv_total_def)
  have out: "grants_total q gone = (if ?D q then inv_total q iv else 0)"
    using cells(2) [of "base iv"] cells(2) [of "[cursor iv]"] worn [of ?D] bag(2)
    by (simp add: gone inv_total_def equip_stacks_total del: take_doomed.simps)
  have sub: "hosts_bag R (case c of None \<Rightarrow> None | Some e \<Rightarrow> if ?D (item_path e) then None else Some e) = hosts_bag R c"
    "cell_ok c \<Longrightarrow> cell_ok (case c of None \<Rightarrow> None | Some e \<Rightarrow> if ?D (item_path e) then None else Some e)" for c
    using no_rent_not_bag [OF keep] by (auto simp: cell_ok_def is_bag_item_def split: option.splits)
  have inner: "list_all (inner_ok R) (fst (take_doomed ?D arr))" if "list_all (inner_ok R) arr" for arr
    using that sub by (fastforce simp: list_all_length take_doomed_cell inner_ok_iff)
  have empty: "vec_empty (map_option (\<lambda>arr. fst (take_doomed ?D arr)) v)" if "vec_empty v" for v
    using that by (cases v) (auto simp: list_all_length take_doomed_cell)
  have c: "?c = (case cursor iv of None \<Rightarrow> None | Some e \<Rightarrow> if ?D (item_path e) then None else Some e)"
    using take_doomed_cell [of 0 "[cursor iv]" ?D] by simp
  have len: "length (base iv) = BASE_SLOT_COUNT" using wf by (rule inv_wf_length)
  have dist: "distinct (map fst ?m)"
    using inv_wf_distinct(1) [OF wf] by (simp add: comp_def case_prod_beta)
  have "base_wf {} R ?b ?m"
    using wf len sub by (auto simp: inv_wf_iffs take_doomed_cell purge_bags_lookup)
  moreover have "bags_wf R ?m"
    unfolding bags_wf_iff using dist wf inner by (auto simp: inv_wf_iffs purge_bags_lookup)
  moreover have "hand_wf R ?c ?m"
    using wf sub empty by (auto simp: inv_wf_iffs c purge_bags_lookup simp del: take_doomed.simps)
  moreover have "equip_wf R ?e"
    using wf by (auto simp: inv_wf_but_def equip_wf_def list_all_iff distinct_map_filter)
  ultimately show ?thesis using total out by (simp add: iv' inv_wf_but_def)
qed

end
