(* ===== verification/Vault.thy ===== *)
theory Vault
  imports InvPlace
begin

text \<open>
  \<open>ItemVault\<close> of \<open>world/inventory.rs\<close>: the flat store behind the character bank (10 slots) and the
  account-shared vault (2 slots).  It is the second interpretation of \<open>cell_store\<close>; with it
  \<open>deposit\<close> lands exactly what \<open>capacity_for\<close> promises.
\<close>

definition BANK_VAULT_SLOTS :: nat where "BANK_VAULT_SLOTS = 10"
definition ACCOUNT_VAULT_SLOTS :: nat where "ACCOUNT_VAULT_SLOTS = 2"

record item_vault =
  slots :: "cell list"

definition vault_new :: "nat \<Rightarrow> item_vault" where
  "vault_new n = \<lparr>slots = replicate n None\<rparr>"

definition vault_get :: "nat \<Rightarrow> item_vault \<Rightarrow> cell" where
  "vault_get i v = vget (slots v) i"

definition vault_put :: "nat \<Rightarrow> cell \<Rightarrow> item_vault \<Rightarrow> item_vault" where
  "vault_put i c v = v\<lparr>slots := (slots v)[i := c]\<rparr>"

definition vault_valid :: "nat \<Rightarrow> item_vault \<Rightarrow> bool" where
  "vault_valid i v \<longleftrightarrow> i < length (slots v)"

definition vault_deposit :: "registry \<Rightarrow> string \<Rightarrow> nat \<Rightarrow> item_vault \<Rightarrow> (nat list \<times> nat) \<times> item_vault" where
  "vault_deposit R p n v =
     (let cap = max_stack R p;
          st1 = fold (topup_step vault_get vault_put p cap) [0..<length (slots v)] (v, [], n);
          st2 = fold (claim_step vault_valid vault_get vault_put p cap) [0..<length (slots v)] st1
      in case st2 of (v', touched, remaining) \<Rightarrow> ((touched, remaining), v'))"

definition vault_peek :: "nat \<Rightarrow> item_vault \<Rightarrow> cell" where
  "vault_peek slot v = vget (slots v) slot"

definition vault_take_all :: "nat \<Rightarrow> item_vault \<Rightarrow> (string \<times> nat) option \<times> item_vault" where
  "vault_take_all slot v =
     (if slot \<ge> length (slots v) then (None, v)
      else (cell_pair (slots v ! slot), v\<lparr>slots := (slots v)[slot := None]\<rparr>))"

definition vault_restore :: "nat \<Rightarrow> string \<Rightarrow> nat \<Rightarrow> item_vault \<Rightarrow> item_vault" where
  "vault_restore slot p n v =
     (if slot < length (slots v) \<and> n > 0 then v\<lparr>slots := (slots v)[slot := Some (entry p n)]\<rparr> else v)"

definition capacity_for :: "registry \<Rightarrow> string \<Rightarrow> item_vault \<Rightarrow> nat" where
  "capacity_for R p v =
     (let cap = max_stack R p in
      fold (\<lambda>slot total.
              case slot of
                Some e \<Rightarrow> if item_path e = p then add32_sat total (cap - ecount e) else total
              | None \<Rightarrow> add32_sat total cap) (slots v) 0)"

section \<open>The vault as a store of cells\<close>

definition vault_total :: "string \<Rightarrow> item_vault \<Rightarrow> nat" where
  "vault_total q v = cells_total q (slots v)"

definition vault_wf :: "item_vault \<Rightarrow> bool" where
  "vault_wf v \<longleftrightarrow> list_all cell_ok (slots v)"

lemma vault_put_wf: "vault_wf v \<Longrightarrow> cell_ok c \<Longrightarrow> vault_wf (vault_put i c v)"
  by (simp add: vault_wf_def vault_put_def list_all_update)

lemma vault_put_total:
  "i < length (slots v) \<Longrightarrow>
     vault_total q (vault_put i c v) + cell_count q (vault_get i v) = vault_total q v + cell_count q c"
  using cells_total_update [of i "slots v" q c] by (simp add: vault_total_def vault_put_def vault_get_def)

interpretation vault_store: cell_store vault_get vault_valid vault_put vault_put vault_total vault_wf
  "\<lambda>_. True" "\<lambda>_ _. True"
proof unfold_locales
  fix i v e
  show "vault_get i v \<noteq> None \<Longrightarrow> vault_valid i v"
    by (auto simp: vault_get_def vault_valid_def dest: vget_Some_less)
  show "vault_wf v \<Longrightarrow> vault_get i v = Some e \<Longrightarrow> entry_ok e"
    by (auto simp: vault_get_def vault_wf_def cell_ok_def list_all_length dest!: vget_Some_less)
  show "vault_total q (vault_put i (Some e) v) = vault_total q v + cell_count q (Some e)"
    if "vault_valid i v" "vault_get i v = None" for q
    using that vault_put_total [of i v q "Some e"] by (simp add: vault_valid_def)
qed (auto simp: vault_get_def vault_put_def vault_valid_def vault_wf_def vget_def vault_total_def
    cells_total_update cell_ok_def list_all_update simp del: cell_count_Some)

lemma cells_nth: "(\<Sum>i\<leftarrow>[0..<length xs]. f (vget xs i)) = (\<Sum>c\<leftarrow>xs. f c)"
proof -
  have "map (\<lambda>i. f (vget xs i)) [0..<length xs] = map f xs"
    by (intro nth_equalityI) simp_all
  then show ?thesis by simp
qed

definition vault_room :: "registry \<Rightarrow> string \<Rightarrow> item_vault \<Rightarrow> nat" where
  "vault_room R p v =
     (\<Sum>c\<leftarrow>slots v. topup_room p (max_stack R p) c + claim_room (max_stack R p) c)"

text \<open>\<open>capacity_for\<close> is the room, saturated at \<open>u32::MAX\<close>.\<close>

lemma capacity_for_room: "capacity_for R p v = min (vault_room R p v) u32_max"
proof -
  let ?cap = "max_stack R p"
  let ?f = "\<lambda>c. topup_room p ?cap c + claim_room ?cap c"
  have step: "fold (\<lambda>slot total. case slot of Some e \<Rightarrow> if item_path e = p then add32_sat total (?cap - ecount e) else total
        | None \<Rightarrow> add32_sat total ?cap) cs (min t u32_max) = min (t + (\<Sum>c\<leftarrow>cs. ?f c)) u32_max" for cs t
  proof (induction cs arbitrary: t)
    case (Cons c cs)
    have "(case c of Some e \<Rightarrow> if item_path e = p then add32_sat (min t u32_max) (?cap - ecount e) else min t u32_max
        | None \<Rightarrow> add32_sat (min t u32_max) ?cap) = min (t + ?f c) u32_max"
      by (auto simp: topup_room_def claim_room_def add32_sat_def split: option.splits)
    with Cons.IH [of "t + ?f c"] show ?case by (simp add: add.assoc)
  qed simp
  from step [of "slots v" 0] show ?thesis by (simp add: capacity_for_def vault_room_def Let_def)
qed

lemma topup_step_length:
  "length (slots (fst (fold (topup_step vault_get vault_put p cap) is st))) = length (slots (fst st))"
proof (induction "is" arbitrary: st)
  case (Cons i "is")
  obtain v t n where st: "st = (v, t, n)" by (metis surj_pair)
  have "length (slots (fst (topup_step vault_get vault_put p cap i st))) = length (slots (fst st))"
    by (auto simp: st topup_step_def vault_put_def Let_def split: option.splits)
  with Cons show ?case by simp
qed simp

lemma claim_step_length:
  "length (slots (fst (fold (claim_step vault_valid vault_get vault_put p cap) is st))) = length (slots (fst st))"
proof (induction "is" arbitrary: st)
  case (Cons i "is")
  obtain v t n where st: "st = (v, t, n)" by (metis surj_pair)
  have "length (slots (fst (claim_step vault_valid vault_get vault_put p cap i st))) = length (slots (fst st))"
    by (auto simp: st claim_step_def vault_put_def Let_def)
  with Cons show ?case by simp
qed simp

lemma vault_deposit_effect:
  assumes reg: "reg_ok R" and wf: "vault_wf v" and p: "p \<noteq> []" and res: "vault_deposit R p n v = ((t, l), v')"
  shows "vault_wf v' \<and> vault_total q v' = vault_total q v + units q p (n - l) \<and> l = n - vault_room R p v \<and> l \<le> n
    \<and> length (slots v') = length (slots v)"
proof -
  let ?cap = "max_stack R p" and ?is = "[0..<length (slots v)]"
  obtain v1 t1 n1 where topup: "fold (topup_step vault_get vault_put p ?cap) ?is (v, [], n) = (v1, t1, n1)"
    by (metis surj_pair)
  obtain v2 t2 n2 where claim: "fold (claim_step vault_valid vault_get vault_put p ?cap) ?is (v1, t1, n1) = (v2, t2, n2)"
    by (metis surj_pair)
  have out: "v' = v2" "l = n2" using res topup claim by (simp_all add: vault_deposit_def Let_def)
  have "length (slots v2) = length (slots v)"
    using topup_step_length [of p ?cap ?is "(v, [], n)"] claim_step_length [of p ?cap ?is "(v1, t1, n1)"] topup claim
    by simp
  moreover have "vault_wf v2 \<and> vault_total q v2 = vault_total q v + units q p (n - n2) \<and> n2 \<le> n
      \<and> n2 = n - (\<Sum>i\<leftarrow>?is. topup_room p ?cap (vault_get i v)) - (\<Sum>i\<leftarrow>?is. claim_room ?cap (vault_get i v))"
    using reg by (intro vault_store.place_effect [OF _ _ wf _ _ p _ _ topup claim]) (simp_all add: vault_valid_def)
  moreover have "(\<Sum>i\<leftarrow>?is. topup_room p ?cap (vault_get i v)) + (\<Sum>i\<leftarrow>?is. claim_room ?cap (vault_get i v)) = vault_room R p v"
    using cells_nth [of "topup_room p ?cap" "slots v"] cells_nth [of "claim_room ?cap" "slots v"]
    by (simp add: vault_get_def vault_room_def sum_list_addf)
  ultimately show ?thesis by (simp add: out)
qed

text \<open>A deposit sized by \<open>capacity_for\<close> leaves nothing over.\<close>

lemma vault_deposit_capacity:
  assumes "reg_ok R" "vault_wf v" "p \<noteq> []" "n \<le> capacity_for R p v"
  shows "\<exists>t v'. vault_deposit R p n v = ((t, 0), v') \<and> vault_wf v' \<and> vault_total q v' = vault_total q v + units q p n"
proof -
  obtain t l v' where res: "vault_deposit R p n v = ((t, l), v')" by (metis surj_pair)
  have "n \<le> vault_room R p v" using assms(4) by (simp add: capacity_for_room)
  with vault_deposit_effect [OF assms(1-3) res, of q] res show ?thesis by auto
qed

lemma vault_take_all_effect:
  assumes "vault_wf v" "vault_take_all s v = (Some (p, n), v')"
  shows "vault_wf v' \<and> vault_total q v' + units q p n = vault_total q v \<and> vault_peek s v = Some (entry p n)
    \<and> 1 \<le> n \<and> n \<le> u32_max \<and> p \<noteq> [] \<and> v' = vault_put s None v"
proof -
  have s: "s < length (slots v)" "slots v ! s = Some (entry p n)"
    using assms(2) by (auto simp: vault_take_all_def cell_pair_def split: if_splits)
  moreover have "v' = vault_put s None v" using assms(2) s by (simp add: vault_take_all_def vault_put_def)
  moreover have "entry_ok (entry p n)" using assms(1) s vault_store.get_ok [of v s] by (simp add: vault_get_def)
  ultimately show ?thesis
    using vault_put_total [of s v q None] vault_put_wf [OF assms(1), of None s]
    by (auto simp: vault_get_def vault_peek_def units_def entry_ok_def)
qed

lemma vault_restore_effect:
  assumes "vault_wf v" "s < length (slots v)" "slots v ! s = None" "entry_ok (entry p n)"
  shows "vault_wf (vault_restore s p n v) \<and> vault_total q (vault_restore s p n v) = vault_total q v + units q p n"
proof -
  have "vault_restore s p n v = vault_put s (Some (entry p n)) v"
    using assms by (simp add: vault_restore_def vault_put_def entry_ok_def)
  with vault_put_total [OF assms(2), of q "Some (entry p n)"] vault_put_wf [OF assms(1)] assms(2-4)
  show ?thesis by (simp add: vault_get_def cell_ok_def units_def)
qed

end
