(* ===== verification/InvRows.thy ===== *)
theory InvRows
  imports InvTake Vault
begin

text \<open>
  The persisted form of inventories and vaults: \<open>to_rows\<close>, \<open>from_rows\<close> and the wire snapshot.
  Rows carry \<open>i32\<close> slots and counts.  The main lemma is the round trip: a saved inventory is read
  back cell by cell, as long as no count reaches \<open>2^31\<close> and no bag holds items beyond its own size.
\<close>

record inventory_row =
  row_location :: string
  row_slot :: int
  row_item_path :: string
  row_count :: int

record bank_item_row =
  bank_slot :: int
  bank_item_path :: string
  bank_count :: int

section \<open>Inventory rows\<close>

definition mk_row :: "string \<Rightarrow> nat \<Rightarrow> inventory_entry \<Rightarrow> inventory_row" where
  "mk_row loc s e = \<lparr>row_location = loc, row_slot = int s, row_item_path = item_path e, row_count = as_i32 (ecount e)\<rparr>"

definition cell_rows :: "string \<Rightarrow> cell list \<Rightarrow> inventory_row list" where
  "cell_rows loc cs =
     concat (map (\<lambda>i. case cs ! i of None \<Rightarrow> [] | Some e \<Rightarrow> [mk_row loc i e]) [0..<length cs])"

definition to_rows :: "player_inventory \<Rightarrow> inventory_row list" where
  "to_rows iv =
     cell_rows ''base'' (base iv)
     @ map (\<lambda>(k, e). mk_row ''equip'' k e) (equipment iv)
     @ concat (map (\<lambda>(k, arr). cell_rows (bag_loc k) arr) (bags iv))
     @ (case cursor iv of None \<Rightarrow> [] | Some e \<Rightarrow> [mk_row ''cursor'' 0 e])"

definition row_entry :: "inventory_row \<Rightarrow> inventory_entry" where
  "row_entry row = entry (row_item_path row) (nat (row_count row))"

definition row_skipped :: "inventory_row \<Rightarrow> bool" where
  "row_skipped row \<longleftrightarrow> row_count row \<le> 0 \<or> row_item_path row = []"

text \<open>A negative slot cast to \<open>usize\<close> is far out of range, so it is dropped as well.\<close>

definition from_rows_pass1 :: "registry \<Rightarrow> inventory_row \<Rightarrow> player_inventory \<Rightarrow> player_inventory" where
  "from_rows_pass1 R row iv =
     (if row_skipped row then iv
      else if row_location row = ''base'' then
        (if row_slot row < 0 \<or> nat (row_slot row) \<ge> BASE_SLOT_COUNT then iv
         else ensure_bag_init R (nat (row_slot row))
                (iv\<lparr>base := (base iv)[nat (row_slot row) := Some (row_entry row)]\<rparr>))
      else if row_location row = ''equip'' then
        (if row_slot row < 0 \<or> row_slot row \<ge> int EQUIP_SLOT_COUNT then iv
         else iv\<lparr>equipment := AList.update (nat (row_slot row)) (row_entry row) (equipment iv)\<rparr>)
      else if row_location row = ''cursor'' then
        iv\<lparr>bags := (case bag_num_slots R (row_item_path row) of
                      Some n \<Rightarrow> or_insert CURSOR_BAG_KEY (replicate n None) (bags iv) | None \<Rightarrow> bags iv),
           cursor := Some (row_entry row)\<rparr>
      else iv)"

definition from_rows_pass2 :: "inventory_row \<Rightarrow> player_inventory \<Rightarrow> player_inventory" where
  "from_rows_pass2 row iv =
     (if row_skipped row then iv
      else case parse_bag_location (row_location row) of
        None \<Rightarrow> iv
      | Some base_idx \<Rightarrow>
          (case map_of (bags iv) base_idx of
             None \<Rightarrow> iv
           | Some arr \<Rightarrow>
               if row_slot row < 0 \<or> nat (row_slot row) \<ge> length arr then iv
               else iv\<lparr>bags := AList.update base_idx (arr[nat (row_slot row) := Some (row_entry row)]) (bags iv)\<rparr>))"

definition from_rows :: "registry \<Rightarrow> inventory_row list \<Rightarrow> player_inventory" where
  "from_rows R rows = fold from_rows_pass2 rows (fold (from_rows_pass1 R) rows inventory_new)"

definition cell_snapshot :: "string \<Rightarrow> cell list \<Rightarrow> (string \<times> nat \<times> string \<times> nat) list" where
  "cell_snapshot loc cs =
     concat (map (\<lambda>i. case cs ! i of None \<Rightarrow> [] | Some e \<Rightarrow> [(loc, i, item_path e, ecount e)]) [0..<length cs])"

definition to_snapshot_entries :: "player_inventory \<Rightarrow> (string \<times> nat \<times> string \<times> nat) list" where
  "to_snapshot_entries iv =
     cell_snapshot ''base'' (base iv)
     @ map (\<lambda>(k, e). (''equip'', k, item_path e, ecount e)) (equipment iv)
     @ concat (map (\<lambda>(k, arr). cell_snapshot (bag_loc k) arr) (bags iv))
     @ (case cursor iv of None \<Rightarrow> [] | Some e \<Rightarrow> [(''cursor'', 0, item_path e, ecount e)])"

section \<open>Vault rows\<close>

definition vault_from_rows :: "nat \<Rightarrow> bank_item_row list \<Rightarrow> item_vault" where
  "vault_from_rows n rows =
     fold (\<lambda>row v.
             if bank_count row \<le> 0 \<or> bank_item_path row = [] then v
             else if 0 \<le> bank_slot row \<and> nat (bank_slot row) < n
             then v\<lparr>slots := (slots v)[nat (bank_slot row) := Some (entry (bank_item_path row) (nat (bank_count row)))]\<rparr>
             else v) rows (vault_new n)"

definition vault_row :: "nat \<Rightarrow> inventory_entry \<Rightarrow> bank_item_row" where
  "vault_row i e = \<lparr>bank_slot = int i, bank_item_path = item_path e, bank_count = as_i32 (ecount e)\<rparr>"

definition vault_to_rows :: "item_vault \<Rightarrow> bank_item_row list" where
  "vault_to_rows v =
     concat (map (\<lambda>i. case slots v ! i of None \<Rightarrow> [] | Some e \<Rightarrow> [vault_row i e]) [0..<length (slots v)])"

definition vault_to_snapshot :: "item_vault \<Rightarrow> (nat \<times> string \<times> nat) list" where
  "vault_to_snapshot v =
     concat (map (\<lambda>i. case slots v ! i of None \<Rightarrow> [] | Some e \<Rightarrow> [(i, item_path e, ecount e)]) [0..<length (slots v)])"

definition vault_purge_no_rent :: "registry \<Rightarrow> item_vault \<Rightarrow> (string \<times> nat) list \<times> item_vault" where
  "vault_purge_no_rent R v =
     (case take_doomed (is_no_rent R) (slots v) of (cs, gone) \<Rightarrow> (gone, v\<lparr>slots := cs\<rparr>))"

section \<open>The round trip\<close>

text \<open>Counts that fit the column, and a purse of bags that hold nothing beyond their size.\<close>

definition small_cell :: "cell \<Rightarrow> bool" where
  "small_cell c = (case c of None \<Rightarrow> True | Some e \<Rightarrow> ecount e < 2147483648)"

definition rows_small :: "player_inventory \<Rightarrow> bool" where
  "rows_small iv \<longleftrightarrow> list_all small_cell (base iv) \<and> list_all (\<lambda>(k, e). small_cell (Some e)) (equipment iv)
     \<and> list_all (\<lambda>(k, arr). list_all small_cell arr) (bags iv) \<and> small_cell (cursor iv)"

definition host_size :: "registry \<Rightarrow> nat \<Rightarrow> player_inventory \<Rightarrow> nat" where
  "host_size R k iv =
     (case (if k = CURSOR_BAG_KEY then cursor iv else vget (base iv) k) of
        None \<Rightarrow> 0
      | Some e \<Rightarrow> (case bag_num_slots R (item_path e) of None \<Rightarrow> 0 | Some n \<Rightarrow> n))"

definition bags_sized :: "registry \<Rightarrow> player_inventory \<Rightarrow> bool" where
  "bags_sized R iv \<longleftrightarrow>
     list_all (\<lambda>(k, arr). list_all (\<lambda>s. arr ! s = None \<or> s < host_size R k iv) [0..<length arr]) (bags iv)"

lemma row_kept:
  "entry_ok e \<Longrightarrow> small_cell (Some e) \<Longrightarrow> \<not> row_skipped (mk_row loc s e) \<and> row_entry (mk_row loc s e) = e"
  by (auto simp: row_skipped_def row_entry_def mk_row_def entry_ok_def small_cell_def)

lemma cell_rows_Suc:
  "fold f (concat (map (\<lambda>i. case cs ! i of None \<Rightarrow> [] | Some e \<Rightarrow> [mk_row loc i e]) [0..<Suc m])) x
   = (case cs ! m of None \<Rightarrow> id | Some e \<Rightarrow> f (mk_row loc m e))
       (fold f (concat (map (\<lambda>i. case cs ! i of None \<Rightarrow> [] | Some e \<Rightarrow> [mk_row loc i e]) [0..<m])) x)"
  by (simp split: option.splits)

lemma pass1_base:
  fixes R :: registry
  assumes "length b = BASE_SLOT_COUNT" "list_all cell_ok b" "list_all small_cell b" "m \<le> BASE_SLOT_COUNT"
  defines "iv \<equiv> \<lambda>j. fold (from_rows_pass1 R)
      (concat (map (\<lambda>i. case b ! i of None \<Rightarrow> [] | Some e \<Rightarrow> [mk_row ''base'' i e]) [0..<j])) inventory_new"
  shows "base (iv m) = take m b @ replicate (BASE_SLOT_COUNT - m) None \<and> equipment (iv m) = [] \<and> cursor (iv m) = None
    \<and> (\<forall>k. map_of (bags (iv m)) k = (if k < m then (case b ! k of None \<Rightarrow> None
          | Some e \<Rightarrow> map_option (\<lambda>n. replicate n None) (bag_num_slots R (item_path e))) else None))"
  using assms(4)
proof (induction m)
  case 0
  then show ?case by (simp add: iv_def inventory_new_def)
next
  case (Suc m)
  then have m: "m < length b" and ih: "base (iv m) = take m b @ replicate (BASE_SLOT_COUNT - m) None"
    "equipment (iv m) = []" "cursor (iv m) = None"
    "\<And>k. map_of (bags (iv m)) k = (if k < m then (case b ! k of None \<Rightarrow> None
          | Some e \<Rightarrow> map_option (\<lambda>n. replicate n None) (bag_num_slots R (item_path e))) else None)"
    using assms(1) by simp_all
  have rep: "replicate (BASE_SLOT_COUNT - m) None = None # replicate (BASE_SLOT_COUNT - Suc m) None"
    using Suc.prems by (metis Suc_diff_le diff_Suc_Suc replicate_Suc)
  show ?case
  proof (cases "b ! m")
    case None
    then have "iv (Suc m) = iv m" unfolding iv_def cell_rows_Suc by simp
    then show ?thesis using ih m None rep by (auto simp: take_Suc_conv_app_nth less_Suc_eq)
  next
    case (Some e)
    have e: "entry_ok e" "small_cell (Some e)"
      using assms(2,3) m Some by (auto simp: list_all_length cell_ok_def)
    let ?mid = "(iv m)\<lparr>base := (base (iv m))[m := Some e]\<rparr>"
    have "iv (Suc m) = from_rows_pass1 R (mk_row ''base'' m e) (iv m)"
      unfolding iv_def cell_rows_Suc using Some by simp
    also have "\<dots> = ensure_bag_init R m ?mid"
      using row_kept [OF e, of "''base''" m] Suc.prems
      by (simp add: from_rows_pass1_def mk_row_def)
    finally have iv: "iv (Suc m) = ensure_bag_init R m ?mid" .
    have base: "base ?mid = take (Suc m) b @ replicate (BASE_SLOT_COUNT - Suc m) None"
      by (simp add: ih(1) take_Suc_conv_app_nth [OF m] Some rep list_update_append min_absorb2 less_imp_le [OF m] del: replicate_Suc)
    have at: "vget (base ?mid) m = Some e" using ih(1) m assms(1) by (simp add: vget_def)
    have "map_of (bags (iv (Suc m))) k = (if k < Suc m then (case b ! k of None \<Rightarrow> None
          | Some e \<Rightarrow> map_option (\<lambda>n. replicate n None) (bag_num_slots R (item_path e))) else None)" for k
    proof (cases "k = m")
      case True
      then show ?thesis using Some at ih(4) [of m]
        by (auto simp: iv ensure_bag_init_def split: option.splits)
    next
      case False
      then show ?thesis using ih(4) [of k] by (simp add: iv ensure_bag_init_bags less_Suc_eq)
    qed
    then show ?thesis using base ih(2,3) by (simp add: iv)
  qed
qed

text \<open>The rows of worn gear, of the hand, and of the bags.\<close>

lemma pass1_equip:
  assumes "equip_wf R m" "list_all (\<lambda>(k, e). small_cell (Some e)) m"
  shows "fold (from_rows_pass1 R) (map (\<lambda>(k, e). mk_row ''equip'' k e) m) iv
    = iv\<lparr>equipment := fold (\<lambda>(k, e). AList.update k e) m (equipment iv)\<rparr>"
  using assms
proof (induction m arbitrary: iv)
  case (Cons ke m)
  obtain k e where ke: "ke = (k, e)" by (cases ke)
  have e: "entry_ok e" "small_cell (Some e)" "k < EQUIP_SLOT_COUNT" "equip_wf R m"
    using Cons.prems ke equippable_slot_less [of R "item_path e" k]
    by (auto simp: equip_wf_def EQUIP_SLOT_COUNT_def)
  have "from_rows_pass1 R (mk_row ''equip'' k e) iv = iv\<lparr>equipment := AList.update k e (equipment iv)\<rparr>"
    using row_kept [OF e(1,2), of "''equip''" k] e(3) by (simp add: from_rows_pass1_def mk_row_def)
  with Cons.IH [OF e(4)] Cons.prems(2) ke show ?case by simp
qed simp

lemma fold_update_lookup:
  "distinct (map fst m) \<Longrightarrow> map_of (fold (\<lambda>(k, e). AList.update k e) m acc) k
     = (case map_of m k of None \<Rightarrow> map_of acc k | Some e \<Rightarrow> Some e)"
proof (induction m arbitrary: acc)
  case (Cons ke m)
  obtain j e where ke: "ke = (j, e)" by (cases ke)
  with Cons.prems have "map_of m j = None" by (simp add: map_of_eq_None_iff)
  with Cons ke show ?case by (auto split: option.splits)
qed simp

lemma pass1_bag_rows: "fold (from_rows_pass1 R) (cell_rows (bag_loc k) cs) iv = iv"
proof -
  have skip: "from_rows_pass1 R row iv = iv" if "row_location row = bag_loc k" for row iv
    using that by (simp add: from_rows_pass1_def)
  have "\<forall>row\<in>set rows. row_location row = bag_loc k \<Longrightarrow> fold (from_rows_pass1 R) rows iv = iv" for rows
    by (induction rows) (simp_all add: skip)
  moreover have "\<forall>row\<in>set (cell_rows (bag_loc k) cs). row_location row = bag_loc k"
    by (auto simp: cell_rows_def mk_row_def split: option.splits)
  ultimately show ?thesis by blast
qed

lemma pass1_all_bag_rows:
  "fold (from_rows_pass1 R) (concat (map (\<lambda>(k, arr). cell_rows (bag_loc k) arr) m)) iv = iv"
  by (induction m) (auto simp: pass1_bag_rows)

lemma pass2_plain:
  assumes "\<forall>row\<in>set rows. row_location row \<in> {''base'', ''equip'', ''cursor''}"
  shows "fold from_rows_pass2 rows iv = iv"
  using assms by (induction rows) (auto simp: from_rows_pass2_def)

text \<open>Reading one vector back: the cells of \<open>arr\<close> replace those of the freshly allocated vector.\<close>

lemma pass2_bag:
  assumes k: "k < BASE_SLOT_COUNT \<or> k = CURSOR_BAG_KEY"
    and arr: "list_all (inner_ok R) arr" "list_all small_cell arr"
    and room: "\<forall>s<length arr. arr ! s \<noteq> None \<longrightarrow> s < n"
    and vec: "map_of (bags iv) k = (if 0 < n then Some vec else None)" "length vec = n"
    and m: "m \<le> length arr"
  defines "out \<equiv> \<lambda>j. fold from_rows_pass2
      (concat (map (\<lambda>i. case arr ! i of None \<Rightarrow> [] | Some e \<Rightarrow> [mk_row (bag_loc k) i e]) [0..<j])) iv"
  shows "base (out m) = base iv \<and> equipment (out m) = equipment iv \<and> cursor (out m) = cursor iv
    \<and> (\<forall>j. j \<noteq> k \<longrightarrow> map_of (bags (out m)) j = map_of (bags iv) j)
    \<and> (\<exists>w. map_of (bags (out m)) k = (if 0 < n then Some w else None) \<and> length w = n
         \<and> (\<forall>s<n. w ! s = (if s < m \<and> arr ! s \<noteq> None then arr ! s else vec ! s)))"
  using m
proof (induction m)
  case 0
  then show ?case using vec by (auto simp: out_def)
next
  case (Suc m)
  then obtain w where ih: "base (out m) = base iv" "equipment (out m) = equipment iv" "cursor (out m) = cursor iv"
    "\<forall>j. j \<noteq> k \<longrightarrow> map_of (bags (out m)) j = map_of (bags iv) j"
    and w: "map_of (bags (out m)) k = (if 0 < n then Some w else None)" "length w = n"
      "\<forall>s<n. w ! s = (if s < m \<and> arr ! s \<noteq> None then arr ! s else vec ! s)"
    by auto
  show ?case
  proof (cases "arr ! m")
    case None
    then have "out (Suc m) = out m" unfolding out_def cell_rows_Suc by simp
    then show ?thesis using ih w None by (auto simp: less_Suc_eq)
  next
    case (Some e)
    have m: "m < n" using room Suc.prems Some by auto
    have "inner_ok R (arr ! m)" "small_cell (arr ! m)" using arr Suc.prems by (simp_all add: list_all_length)
    then have e: "entry_ok e" "small_cell (Some e)" using Some by (simp_all add: inner_ok_def)
    have "out (Suc m) = from_rows_pass2 (mk_row (bag_loc k) m e) (out m)"
      unfolding out_def cell_rows_Suc using Some by simp
    also have "\<dots> = (out m)\<lparr>bags := AList.update k (w[m := Some e]) (bags (out m))\<rparr>"
      using row_kept [OF e, of "bag_loc k" m] parse_bag_loc [OF k] m w
      by (simp add: from_rows_pass2_def mk_row_def)
    finally have out: "out (Suc m) = (out m)\<lparr>bags := AList.update k (w[m := Some e]) (bags (out m))\<rparr>" .
    show ?thesis
      using ih m w(2,3) Some by (auto simp: out nth_list_update less_Suc_eq intro!: exI [of _ "w[m := Some e]"])
  qed
qed

definition bag_key :: "nat \<Rightarrow> bool" where
  "bag_key k \<longleftrightarrow> k < BASE_SLOT_COUNT \<or> k = CURSOR_BAG_KEY"

text \<open>\<open>V k\<close> is the vector under \<open>k\<close>, present when its size \<open>sz k\<close> is positive.\<close>

definition vectors :: "(nat \<Rightarrow> nat) \<Rightarrow> (nat \<Rightarrow> cell list) \<Rightarrow> (nat \<times> cell list) list \<Rightarrow> bool" where
  "vectors sz V m \<longleftrightarrow> (\<forall>k. bag_key k \<longrightarrow> map_of m k = (if 0 < sz k then Some (V k) else None) \<and> length (V k) = sz k)"

lemma pass2_bags:
  assumes "distinct (map fst m)"
    "\<forall>(k, arr)\<in>set m. bag_key k \<and> list_all (inner_ok R) arr \<and> list_all small_cell arr
       \<and> (\<forall>s<length arr. arr ! s \<noteq> None \<longrightarrow> s < sz k)"
    "vectors sz V (bags iv)"
  shows "\<exists>iv' W. fold from_rows_pass2 (concat (map (\<lambda>(k, arr). cell_rows (bag_loc k) arr) m)) iv = iv'
    \<and> base iv' = base iv \<and> equipment iv' = equipment iv \<and> cursor iv' = cursor iv \<and> vectors sz W (bags iv')
    \<and> (\<forall>k s. bag_key k \<longrightarrow> s < sz k \<longrightarrow> W k ! s = (case map_of m k of None \<Rightarrow> V k ! s
         | Some arr \<Rightarrow> if s < length arr \<and> arr ! s \<noteq> None then arr ! s else V k ! s))"
  using assms
proof (induction m arbitrary: iv V)
  case Nil
  then show ?case by auto
next
  case (Cons ka m)
  obtain k arr where ka: "ka = (k, arr)" by (cases ka)
  have k: "bag_key k" "list_all (inner_ok R) arr" "list_all small_cell arr" "\<forall>s<length arr. arr ! s \<noteq> None \<longrightarrow> s < sz k"
    using Cons.prems(2) ka by auto
  have fresh: "map_of m k = None" "distinct (map fst m)" using Cons.prems(1) ka by (simp_all add: map_of_eq_None_iff)
  have vec: "map_of (bags iv) k = (if 0 < sz k then Some (V k) else None)" "length (V k) = sz k"
    using Cons.prems(3) k(1) by (simp_all add: vectors_def)
  define mid where "mid = fold from_rows_pass2 (cell_rows (bag_loc k) arr) iv"
  from pass2_bag [OF k(1) [unfolded bag_key_def] k(2,3,4) vec order_refl]
  obtain w where mid: "base mid = base iv" "equipment mid = equipment iv" "cursor mid = cursor iv"
    "\<forall>j. j \<noteq> k \<longrightarrow> map_of (bags mid) j = map_of (bags iv) j"
    "map_of (bags mid) k = (if 0 < sz k then Some w else None)" "length w = sz k"
    "\<forall>s < sz k. w ! s = (if s < length arr \<and> arr ! s \<noteq> None then arr ! s else V k ! s)"
    unfolding mid_def cell_rows_def by blast
  have vmid: "vectors sz (V(k := w)) (bags mid)"
    using Cons.prems(3) mid(4-6) by (auto simp: vectors_def)
  obtain iv' W where rest: "fold from_rows_pass2 (concat (map (\<lambda>(k, arr). cell_rows (bag_loc k) arr) m)) mid = iv'"
    "base iv' = base mid" "equipment iv' = equipment mid" "cursor iv' = cursor mid" "vectors sz W (bags iv')"
    "\<forall>k' s. bag_key k' \<longrightarrow> s < sz k' \<longrightarrow> W k' ! s = (case map_of m k' of None \<Rightarrow> (V(k := w)) k' ! s
         | Some arr \<Rightarrow> if s < length arr \<and> arr ! s \<noteq> None then arr ! s else (V(k := w)) k' ! s)"
    using Cons.IH [OF fresh(2) _ vmid] Cons.prems(2) by auto
  have "\<forall>k' s. bag_key k' \<longrightarrow> s < sz k' \<longrightarrow> W k' ! s = (case map_of (ka # m) k' of None \<Rightarrow> V k' ! s
         | Some arr \<Rightarrow> if s < length arr \<and> arr ! s \<noteq> None then arr ! s else V k' ! s)"
  proof (intro allI impI)
    fix k' s
    assume *: "bag_key k'" "s < sz k'"
    show "W k' ! s = (case map_of (ka # m) k' of None \<Rightarrow> V k' ! s
         | Some arr \<Rightarrow> if s < length arr \<and> arr ! s \<noteq> None then arr ! s else V k' ! s)"
    proof (cases "k' = k")
      case True
      with rest(6) [rule_format, OF *] mid(7) [rule_format, of s] * fresh(1) ka show ?thesis by auto
    next
      case False
      with rest(6) [rule_format, OF *] ka show ?thesis by (auto split: option.splits)
    qed
  qed
  moreover have "fold from_rows_pass2 (concat (map (\<lambda>(k, arr). cell_rows (bag_loc k) arr) (ka # m))) iv = iv'"
    using rest(1) by (simp add: ka mid_def)
  ultimately show ?case using rest(2-5) mid(1-3) by (intro exI [of _ iv'] exI [of _ W]) simp
qed

lemma cell_rows_loc: "row \<in> set (cell_rows loc cs) \<Longrightarrow> row_location row = loc"
  by (auto simp: cell_rows_def mk_row_def split: option.splits)

lemma rows_roundtrip:
  assumes wf: "inv_wf R iv" and small: "rows_small iv" and sized: "bags_sized R iv"
  shows "peek_at loc slot (from_rows R (to_rows iv)) = peek_at loc slot iv
    \<and> map_of (equipment (from_rows R (to_rows iv))) k = map_of (equipment iv) k"
proof -
  let ?base = "cell_rows ''base'' (base iv)" and ?equip = "map (\<lambda>(k, e). mk_row ''equip'' k e) (equipment iv)"
  let ?bag = "concat (map (\<lambda>(k, arr). cell_rows (bag_loc k) arr) (bags iv))"
  let ?cur = "case cursor iv of None \<Rightarrow> [] | Some e \<Rightarrow> [mk_row ''cursor'' 0 e]"
  let ?p1 = "fold (from_rows_pass1 R)"
  have len: "length (base iv) = BASE_SLOT_COUNT" using wf by (rule inv_wf_length)
  define a where "a = ?p1 ?base inventory_new"
  have a: "base a = base iv" "equipment a = []" "cursor a = None"
    "map_of (bags a) k = (if k < BASE_SLOT_COUNT then (case base iv ! k of None \<Rightarrow> None
          | Some e \<Rightarrow> map_option (\<lambda>n. replicate n None) (bag_num_slots R (item_path e))) else None)" for k
    using pass1_base [OF len, of BASE_SLOT_COUNT R] wf small len
    unfolding a_def cell_rows_def len by (simp_all add: inv_wf_iffs rows_small_def list_all_length)
  define b where "b = ?p1 ?bag (?p1 ?equip a)"
  have b: "b = a\<lparr>equipment := fold (\<lambda>(k, e). AList.update k e) (equipment iv) []\<rparr>"
    using pass1_equip [of R "equipment iv" a] wf small
    by (simp add: b_def pass1_all_bag_rows a(2) inv_wf_but_def rows_small_def)
  define c where "c = ?p1 ?cur b"
  define sz where "sz = (\<lambda>k. host_size R k iv)"
  have c: "base c = base iv" "equipment c = equipment b" "cursor c = cursor iv"
    "vectors sz (\<lambda>k. replicate (sz k) None) (bags c)"
  proof -
    have "base c = base iv \<and> equipment c = equipment b \<and> cursor c = cursor iv
      \<and> (\<forall>k. bag_key k \<longrightarrow> map_of (bags c) k = (if 0 < sz k then Some (replicate (sz k) None) else None))"
    proof (cases "cursor iv")
      case None
      then have "c = b" by (simp add: c_def)
      with None show ?thesis using a b len bag_slots_pos
        by (auto simp: bag_key_def sz_def host_size_def split: option.splits)
    next
      case (Some e)
      have e: "entry_ok e" "small_cell (Some e)" using wf small Some by (auto simp: inv_wf_iffs cell_ok_def rows_small_def)
      have "c = b\<lparr>bags := (case bag_num_slots R (item_path e) of
          Some n \<Rightarrow> or_insert CURSOR_BAG_KEY (replicate n None) (bags b) | None \<Rightarrow> bags b), cursor := Some e\<rparr>"
        using row_kept [OF e, of "''cursor''" 0] Some by (simp add: c_def from_rows_pass1_def mk_row_def)
      with Some show ?thesis using a b len bag_slots_pos
        by (auto simp: bag_key_def sz_def host_size_def split: option.splits)
    qed
    then show "base c = base iv" "equipment c = equipment b" "cursor c = cursor iv"
      "vectors sz (\<lambda>k. replicate (sz k) None) (bags c)" by (simp_all add: vectors_def)
  qed
  have pass1: "?p1 (to_rows iv) inventory_new = c" by (simp add: to_rows_def c_def b_def a_def)
  have plain: "fold from_rows_pass2 ?base x = x" "fold from_rows_pass2 ?equip x = x" "fold from_rows_pass2 ?cur x = x" for x
    by (rule pass2_plain; auto simp: mk_row_def dest: cell_rows_loc split: option.splits)+
  have szs: "s < sz k" if "(k, arr) \<in> set (bags iv)" "s < length arr" "arr ! s \<noteq> None" for k arr s
  proof -
    have "list_all (\<lambda>s. arr ! s = None \<or> s < host_size R k iv) [0..<length arr]"
      using sized that(1) by (auto simp: bags_sized_def list_all_iff)
    then have "arr ! s = None \<or> s < host_size R k iv" using that(2) by (simp add: list_all_iff)
    with that(3) show ?thesis by (auto simp: sz_def)
  qed
  then have "\<forall>(k, arr)\<in>set (bags iv). bag_key k \<and> list_all (inner_ok R) arr \<and> list_all small_cell arr
       \<and> (\<forall>s<length arr. arr ! s \<noteq> None \<longrightarrow> s < sz k)"
    using wf small by (auto simp: inv_wf_but_def bags_wf_def bag_key_def rows_small_def list_all_iff)
  from pass2_bags [OF inv_wf_distinct(1) [OF wf] this c(4)] obtain iv' W where
    p2: "fold from_rows_pass2 ?bag c = iv'" "base iv' = base c" "equipment iv' = equipment c" "cursor iv' = cursor c"
      "vectors sz W (bags iv')"
      "\<forall>k s. bag_key k \<longrightarrow> s < sz k \<longrightarrow> W k ! s = (case map_of (bags iv) k of None \<Rightarrow> None
         | Some arr \<Rightarrow> if s < length arr \<and> arr ! s \<noteq> None then arr ! s else None)"
    by (fastforce split: option.splits)
  have out: "from_rows R (to_rows iv) = iv'"
    using p2(1) plain by (simp add: from_rows_def pass1) (simp add: to_rows_def)
  have inner: "cell_at (SlotBag k s) iv' = cell_at (SlotBag k s) iv" if k: "bag_key k" for k s
  proof -
    have W: "map_of (bags iv') k = (if 0 < sz k then Some (W k) else None)" "length (W k) = sz k"
      using p2(5) k by (simp_all add: vectors_def)
    have small: "vget arr s = None" if "map_of (bags iv) k = Some arr" "\<not> s < sz k" for arr
      using szs [OF map_of_SomeD [OF that(1)], of s] that(2) by (cases "arr ! s") (auto simp: vget_def)
    show ?thesis
    proof (cases "s < sz k")
      case True
      then show ?thesis using W p2(6) [rule_format, OF k True]
        by (auto simp: cell_at_def vget_def split: option.splits)
    next
      case False
      then show ?thesis using W small by (auto simp: cell_at_def split: option.splits)
    qed
  qed
  have "peek_at loc slot iv' = peek_at loc slot iv"
  proof (cases "parse_slot_ref loc slot")
    case (Inr r)
    have "cell_at r iv' = cell_at r iv"
    proof (cases r)
      case (SlotBag k s)
      then have "parse_bag_location loc = Some k" using Inr by (auto simp: parse_slot_ref_def split: if_splits option.splits)
      then show ?thesis using inner SlotBag parse_bag_location_range by (simp add: bag_key_def)
    qed (use p2 c in \<open>simp_all add: cell_at_def\<close>)
    with Inr show ?thesis by (simp add: peek_at_def)
  qed (simp add: peek_at_def)
  moreover have "map_of (equipment iv') k = map_of (equipment iv) k"
    using p2(3) c(2) b fold_update_lookup [OF inv_wf_distinct(2) [OF wf], of "[]" k] by (simp split: option.splits)
  ultimately show ?thesis by (simp add: out)
qed

text \<open>A vault is read back as it was.\<close>

lemma vault_roundtrip:
  assumes "vault_wf v" "list_all small_cell (slots v)"
  shows "vault_from_rows (length (slots v)) (vault_to_rows v) = v"
proof -
  let ?n = "length (slots v)"
  let ?f = "\<lambda>row v. if bank_count row \<le> 0 \<or> bank_item_path row = [] then v
             else if 0 \<le> bank_slot row \<and> nat (bank_slot row) < ?n
             then v\<lparr>slots := (slots v)[nat (bank_slot row) := Some (entry (bank_item_path row) (nat (bank_count row)))]\<rparr>
             else v"
  let ?rows = "\<lambda>m. concat (map (\<lambda>i. case slots v ! i of None \<Rightarrow> [] | Some e \<Rightarrow> [vault_row i e]) [0..<m])"
  have "slots (fold ?f (?rows m) (vault_new ?n)) = take m (slots v) @ replicate (?n - m) None" if "m \<le> ?n" for m
    using that
  proof (induction m)
    case (Suc m)
    then have m: "m < ?n" and ih: "slots (fold ?f (?rows m) (vault_new ?n)) = take m (slots v) @ replicate (?n - m) None"
      by simp_all
    have rep: "replicate (?n - m) None = None # replicate (?n - Suc m) (None :: cell)"
      using m by (metis Suc_diff_Suc replicate_Suc)
    show ?case
    proof (cases "slots v ! m")
      case None
      then show ?thesis using ih rep m by (simp add: take_Suc_conv_app_nth)
    next
      case (Some e)
      have "entry_ok e" "ecount e < 2147483648"
        using assms m Some by (auto simp: vault_wf_def list_all_length cell_ok_def small_cell_def dest!: spec [of _ m])
      then show ?thesis using ih rep m Some
        by (simp add: take_Suc_conv_app_nth vault_row_def entry_ok_def list_update_append min_absorb2 del: replicate_Suc)
    qed
  qed (simp add: vault_new_def)
  from this [of ?n] have "slots (vault_from_rows ?n (vault_to_rows v)) = slots v"
    by (simp add: vault_from_rows_def vault_to_rows_def)
  then show ?thesis by simp
qed

lemma vault_purge_effect:
  assumes "vault_purge_no_rent R v = (gone, v')"
  shows "vault_total q v' = (if is_no_rent R q then 0 else vault_total q v)
    \<and> grants_total q gone = (if is_no_rent R q then vault_total q v else 0) \<and> (vault_wf v \<longrightarrow> vault_wf v')"
proof -
  obtain cs where cs: "take_doomed (is_no_rent R) (slots v) = (cs, gone)" "v' = v\<lparr>slots := cs\<rparr>"
    using assms by (auto simp: vault_purge_no_rent_def split: prod.splits)
  have "vault_wf v'" if "vault_wf v"
    using that take_doomed_cell [of _ "slots v" "is_no_rent R"] take_doomed_length [of "is_no_rent R" "slots v"] cs
    by (auto simp: vault_wf_def list_all_length cell_ok_def split: option.splits if_splits)
  with take_doomed_total [OF cs(1), of q] cs(2) show ?thesis by (simp add: vault_total_def)
qed

end
