(* ===== verification/F32.thy ===== *)
theory F32
  imports Items
begin

text \<open>
  Rust's \<open>f32\<close> on its bit pattern: IEEE 754 binary32, round to nearest, ties to even.  A finite
  number is a signed count of units of 2 to the power -149, the least subnormal, so an exact sum or product is an
  integer and every operation is that integer followed by one rounding.  Every NaN a computation
  makes is the canonical quiet one (Rust leaves the payload open and the server never looks).
\<close>

section \<open>Patterns\<close>

definition F32_INF :: nat where "F32_INF = 2139095040"

definition f32_sign :: "f32 \<Rightarrow> bool" where
  "f32_sign w \<longleftrightarrow> 2 ^ 31 \<le> unat w"

definition f32_mag :: "f32 \<Rightarrow> nat" where
  "f32_mag w = unat w mod 2 ^ 31"

definition f32_pack :: "bool \<Rightarrow> nat \<Rightarrow> f32" where
  "f32_pack s m = of_nat (m + (if s then 2 ^ 31 else 0))"

definition f32_nan :: "f32 \<Rightarrow> bool" where
  "f32_nan w \<longleftrightarrow> f32_mag w > F32_INF"

definition f32_finite :: "f32 \<Rightarrow> bool" where
  "f32_finite w \<longleftrightarrow> f32_mag w < F32_INF"

definition F32_NAN :: f32 where "F32_NAN = 0x7fc00000"

text \<open>The order: comparisons with a NaN are false and the two zeros are equal.\<close>

definition f32_key :: "f32 \<Rightarrow> int" where
  "f32_key w = (if f32_sign w then - int (f32_mag w) else int (f32_mag w))"

definition f32_le :: "f32 \<Rightarrow> f32 \<Rightarrow> bool" where
  "f32_le a b \<longleftrightarrow> \<not> f32_nan a \<and> \<not> f32_nan b \<and> f32_key a \<le> f32_key b"

definition f32_lt :: "f32 \<Rightarrow> f32 \<Rightarrow> bool" where
  "f32_lt a b \<longleftrightarrow> \<not> f32_nan a \<and> \<not> f32_nan b \<and> f32_key a < f32_key b"

text \<open>The units a magnitude counts.\<close>

definition mag_units :: "nat \<Rightarrow> nat" where
  "mag_units m =
     (let e = m div 2 ^ 23; frac = m mod 2 ^ 23
      in if e = 0 then frac else (frac + 2 ^ 23) * 2 ^ (e - 1))"

definition f32_val :: "f32 \<Rightarrow> int" where
  "f32_val w = (if f32_sign w then - int (mag_units (f32_mag w)) else int (mag_units (f32_mag w)))"

section \<open>Rounding\<close>

fun bitlen :: "nat \<Rightarrow> nat" where
  "bitlen n = (if n = 0 then 0 else Suc (bitlen (n div 2)))"

declare bitlen.simps [simp del]

text \<open>The nearest magnitude to \<open>n\<close> units over \<open>2 ^ k\<close>; the carry of a round-up runs into the
  exponent field by itself, and past the largest finite number it is infinity.\<close>

definition round_scaled :: "nat \<Rightarrow> nat \<Rightarrow> nat" where
  "round_scaled n k =
     (let q = bitlen n - (k + 24); s = q + k;
          m = n div 2 ^ s; r = n mod 2 ^ s;
          up = 2 * r > 2 ^ s \<or> (2 * r = 2 ^ s \<and> odd m)
      in min F32_INF (q * 2 ^ 23 + m + (if up then 1 else 0)))"

definition f32_neg :: "f32 \<Rightarrow> f32" where
  "f32_neg a = f32_pack (\<not> f32_sign a) (f32_mag a)"

definition f32_abs :: "f32 \<Rightarrow> f32" where
  "f32_abs a = f32_pack False (f32_mag a)"

definition f32_add :: "f32 \<Rightarrow> f32 \<Rightarrow> f32" where
  "f32_add a b =
     (if f32_nan a \<or> f32_nan b then F32_NAN
      else if \<not> f32_finite a then (if \<not> f32_finite b \<and> f32_sign a \<noteq> f32_sign b then F32_NAN else a)
      else if \<not> f32_finite b then b
      else let v = f32_val a + f32_val b in
        if v = 0 then f32_pack (f32_sign a \<and> f32_sign b) 0
        else f32_pack (v < 0) (round_scaled (nat \<bar>v\<bar>) 0))"

definition f32_sub :: "f32 \<Rightarrow> f32 \<Rightarrow> f32" where
  "f32_sub a b = f32_add a (f32_neg b)"

definition f32_mul :: "f32 \<Rightarrow> f32 \<Rightarrow> f32" where
  "f32_mul a b =
     (let s = (f32_sign a \<noteq> f32_sign b) in
      if f32_nan a \<or> f32_nan b then F32_NAN
      else if \<not> f32_finite a \<or> \<not> f32_finite b
      then (if f32_mag a = 0 \<or> f32_mag b = 0 then F32_NAN else f32_pack s F32_INF)
      else f32_pack s (round_scaled (mag_units (f32_mag a) * mag_units (f32_mag b)) 149))"

fun isqrt :: "nat \<Rightarrow> nat" where
  "isqrt n = (if n = 0 then 0
              else let r = 2 * isqrt (n div 4) in if (r + 1) * (r + 1) \<le> n then r + 1 else r)"

declare isqrt.simps [simp del]

text \<open>The root in units is the root of \<open>n * 2 ^ 149\<close>; the doubled root carries a sticky bit.\<close>

definition f32_sqrt :: "f32 \<Rightarrow> f32" where
  "f32_sqrt a =
     (if f32_nan a then F32_NAN
      else if f32_mag a = 0 then a
      else if f32_sign a then F32_NAN
      else if \<not> f32_finite a then a
      else let n = mag_units (f32_mag a) * 2 ^ 149; r = isqrt n
           in f32_pack False (round_scaled (2 * r + (if r * r = n then 0 else 1)) 1))"

text \<open>\<open>as f32\<close> of an integer.\<close>

definition f32_of_int :: "int \<Rightarrow> f32" where
  "f32_of_int n = f32_pack (n < 0) (round_scaled (nat \<bar>n\<bar> * 2 ^ 149) 0)"

definition f32_max :: "f32 \<Rightarrow> f32 \<Rightarrow> f32" where
  "f32_max a b = (if f32_nan a then b else if f32_nan b then a else if f32_lt a b then b else a)"

definition f32_min :: "f32 \<Rightarrow> f32 \<Rightarrow> f32" where
  "f32_min a b = (if f32_nan a then b else if f32_nan b then a else if f32_lt b a then b else a)"

text \<open>\<open>f32::clamp\<close>: a NaN passes through.\<close>

definition f32_clamp :: "f32 \<Rightarrow> f32 \<Rightarrow> f32 \<Rightarrow> f32" where
  "f32_clamp a lo hi = (let b = (if f32_lt a lo then lo else a) in if f32_lt hi b then hi else b)"

text \<open>Unfolds a comparison or a sum of literals.\<close>

lemmas f32_eval = f32_add_def f32_sub_def f32_neg_def f32_mul_def f32_nan_def f32_finite_def f32_sign_def
  f32_mag_def f32_val_def mag_units_def round_scaled_def f32_pack_def F32_INF_def F32_NAN_def Let_def bitlen.simps
  f32_of_int_def f32_le_def f32_lt_def f32_key_def

section \<open>What the operations compute\<close>

lemma f32_parts: "unat w = f32_mag w + (if f32_sign w then 2 ^ 31 else 0)" for w :: f32
proof -
  have "unat w < 2 ^ LENGTH(32)" by (rule unsigned_less)
  then have lt: "unat w < 2 ^ 32" by simp
  have "2 ^ 31 \<le> unat w \<Longrightarrow> unat w mod 2 ^ 31 = unat w - 2 ^ 31"
    using lt by (simp add: le_mod_geq)
  then show ?thesis by (auto simp: f32_mag_def f32_sign_def)
qed

lemma f32_pack_parts [simp]:
  assumes "m < 2 ^ 31"
  shows "f32_mag (f32_pack s m) = m" "f32_sign (f32_pack s m) = s"
proof -
  have "m + (if s then 2 ^ 31 else 0) < 2 ^ 32" using assms by simp
  then have u: "unat (f32_pack s m) = m + (if s then 2 ^ 31 else 0)"
    unfolding f32_pack_def unat_of_nat by simp
  then show mag: "f32_mag (f32_pack s m) = m" using assms by (simp add: f32_mag_def)
  show "f32_sign (f32_pack s m) = s" using assms u by (simp add: f32_sign_def)
qed

lemma f32_pack_self [simp]: "f32_pack (f32_sign w) (f32_mag w) = w"
  by (simp add: f32_pack_def f32_parts [symmetric])

lemma f32_mag_less: "f32_mag w < 2 ^ 31"
  by (simp add: f32_mag_def)

lemma round_scaled_le: "round_scaled n k \<le> F32_INF"
  by (simp add: round_scaled_def Let_def)

lemma round_scaled_less: "round_scaled n k < 2 ^ 31"
  using round_scaled_le [of n k] by (simp add: F32_INF_def)

lemma bitlen_bounds: "n \<noteq> 0 \<Longrightarrow> 2 ^ (bitlen n - 1) \<le> n \<and> n < 2 ^ bitlen n"
proof (induction n rule: bitlen.induct)
  case (1 n)
  show ?case
  proof (cases "n div 2 = 0")
    case True
    with 1(2) have "n = 1" by linarith
    then show ?thesis by (simp add: bitlen.simps [of "Suc 0"] bitlen.simps [of 0])
  next
    case False
    with 1 have ih: "2 ^ (bitlen (n div 2) - 1) \<le> n div 2" "n div 2 < 2 ^ bitlen (n div 2)" by simp_all
    have "bitlen (n div 2) = Suc (bitlen (n div 2 div 2))" using False by (subst bitlen.simps) simp
    then obtain j where j: "bitlen (n div 2) = Suc j" by blast
    have "bitlen n = Suc (bitlen (n div 2))" using 1(2) by (subst bitlen.simps) simp
    moreover have "2 ^ bitlen (n div 2) \<le> n" using ih(1) by (simp add: j)
    moreover have "n < 2 * 2 ^ bitlen (n div 2)" using ih(2) by linarith
    ultimately show ?thesis by simp
  qed
qed

lemma bitlen_le: "n < 2 ^ k \<Longrightarrow> bitlen n \<le> k"
proof (cases "n = 0")
  case False
  assume "n < 2 ^ k"
  with bitlen_bounds [OF False] have "(2::nat) ^ (bitlen n - 1) < 2 ^ k" by linarith
  then have "bitlen n - 1 < k" by (rule power_less_imp_less_exp [rotated]) simp
  then show ?thesis by linarith
qed (simp add: bitlen.simps)

text \<open>A magnitude built from an exponent and a mantissa in range counts \<open>m * 2 ^ q\<close> units.\<close>

lemma mag_units_build:
  assumes "m < 2 ^ 24" "q = 0 \<or> 2 ^ 23 \<le> m"
  shows "mag_units (q * 2 ^ 23 + m) = m * 2 ^ q"
proof (cases "m < 2 ^ 23")
  case True
  then show ?thesis using assms(2) by (simp add: mag_units_def)
next
  case False
  define f where "f = m - 2 ^ 23"
  have f: "m = f + 2 ^ 23" "f < 2 ^ 23" using False assms(1) by (simp_all add: f_def)
  have e: "q * 2 ^ 23 + m = Suc q * 2 ^ 23 + f" by (simp add: f(1))
  have "(q * 2 ^ 23 + m) div 2 ^ 23 = Suc q" "(q * 2 ^ 23 + m) mod 2 ^ 23 = f"
    unfolding e using f(2) by (simp_all add: div_mult_self3 mod_mult_self3 del: mult_Suc)
  then show ?thesis by (simp add: mag_units_def f(1))
qed

text \<open>A number with at most 24 significant bits is rounded to itself.\<close>

lemma round_scaled_exact:
  assumes n: "n = m * 2 ^ q" "m < 2 ^ 24" and top: "q \<le> 253"
  shows "mag_units (round_scaled n 0) = n" "round_scaled n 0 < F32_INF"
proof -
  define p where "p = bitlen n - 24"
  have "n < 2 ^ (24 + q)" using n by (simp add: power_add)
  then have p: "p \<le> q" using bitlen_le [of n "24 + q"] by (simp add: p_def)
  define m' where "m' = m * 2 ^ (q - p)"
  have n': "n = m' * 2 ^ p" using p by (simp add: n(1) m'_def mult.assoc flip: power_add)
  have small: "m' < 2 ^ 24" and big: "p = 0 \<or> 2 ^ 23 \<le> m'"
  proof -
    have "n < 2 ^ (24 + p)"
    proof (cases "n = 0")
      case False
      then have "n < 2 ^ bitlen n" using bitlen_bounds by blast
      also have "(2::nat) ^ bitlen n \<le> 2 ^ (24 + p)" by (rule power_increasing) (simp_all add: p_def)
      finally show ?thesis .
    qed simp
    then show "m' < 2 ^ 24" by (simp add: n' power_add)
    have "2 ^ 23 \<le> m'" if "p \<noteq> 0"
    proof -
      have eq: "bitlen n - 1 = 23 + p" using that by (simp add: p_def)
      have "n \<noteq> 0" using that by (intro notI) (simp add: p_def bitlen.simps [of 0])
      then have "2 ^ (23 + p) \<le> n" using bitlen_bounds [of n] eq by simp
      then show ?thesis by (simp add: n' power_add)
    qed
    then show "p = 0 \<or> 2 ^ 23 \<le> m'" by blast
  qed
  have val: "p * 2 ^ 23 + m' < F32_INF"
  proof -
    have "p * 2 ^ 23 + m' < 253 * 2 ^ 23 + 2 ^ 24" using p top small by (intro add_le_less_mono mult_le_mono1) simp_all
    then show ?thesis by (simp add: F32_INF_def)
  qed
  have "n div 2 ^ p = m'" "n mod 2 ^ p = 0" by (simp_all add: n')
  then have r: "round_scaled n 0 = p * 2 ^ 23 + m'"
    using val by (simp add: round_scaled_def p_def [symmetric] Let_def)
  then show "mag_units (round_scaled n 0) = n" using mag_units_build [OF small big] n' by simp
  show "round_scaled n 0 < F32_INF" using r val by simp
qed

definition f32_int :: "f32 \<Rightarrow> int \<Rightarrow> bool" where
  "f32_int w n \<longleftrightarrow> f32_finite w \<and> f32_val w = n * 2 ^ 149"

lemma f32_pack_val: "m < 2 ^ 31 \<Longrightarrow> f32_val (f32_pack s m) = (if s then - int (mag_units m) else int (mag_units m))"
  by (simp add: f32_val_def)

lemma int_round:
  assumes "\<bar>n\<bar> \<le> 2 ^ 24"
  shows "mag_units (round_scaled (nat \<bar>n\<bar> * 2 ^ 149) 0) = nat \<bar>n\<bar> * 2 ^ 149"
    and "round_scaled (nat \<bar>n\<bar> * 2 ^ 149) 0 < F32_INF"
proof -
  have "\<exists>m q. nat \<bar>n\<bar> * 2 ^ 149 = m * 2 ^ q \<and> m < (2::nat) ^ 24 \<and> q \<le> 253"
  proof (cases "\<bar>n\<bar> = 2 ^ 24")
    case True
    then show ?thesis by (intro exI [of _ 1] exI [of _ 173]) simp
  next
    case False
    then show ?thesis using assms by (intro exI [of _ "nat \<bar>n\<bar>"] exI [of _ 149]) simp
  qed
  then show "mag_units (round_scaled (nat \<bar>n\<bar> * 2 ^ 149) 0) = nat \<bar>n\<bar> * 2 ^ 149"
    "round_scaled (nat \<bar>n\<bar> * 2 ^ 149) 0 < F32_INF"
    using round_scaled_exact by blast+
qed

text \<open>Integers up to \<open>2 ^ 24\<close> convert and add without rounding.\<close>

lemma f32_of_int_exact:
  assumes "\<bar>n\<bar> \<le> 2 ^ 24"
  shows "f32_int (f32_of_int n) n"
  using int_round [OF assms] round_scaled_less [of "nat \<bar>n\<bar> * 2 ^ 149" 0]
  by (auto simp: f32_int_def f32_of_int_def f32_pack_val f32_finite_def)

lemma f32_add_int:
  assumes "f32_int a m" "f32_int b n" "\<bar>m + n\<bar> \<le> 2 ^ 24"
  shows "f32_int (f32_add a b) (m + n)"
proof -
  have v: "f32_val a + f32_val b = (m + n) * 2 ^ 149" using assms by (simp add: f32_int_def distrib_right)
  have fin: "f32_finite a" "f32_finite b" "\<not> f32_nan a" "\<not> f32_nan b"
    using assms by (auto simp: f32_int_def f32_finite_def f32_nan_def)
  show ?thesis
  proof (cases "m + n = 0")
    case True
    then show ?thesis using v fin by (simp add: f32_add_def f32_int_def f32_pack_val f32_finite_def F32_INF_def mag_units_def)
  next
    case False
    have "nat \<bar>(m + n) * 2 ^ 149\<bar> = nat \<bar>m + n\<bar> * 2 ^ 149" by (simp add: abs_mult nat_mult_distrib nat_power_eq)
    moreover have "((m + n) * 2 ^ 149 < 0) = (m + n < 0)" "((m + n) * 2 ^ 149 = 0) = (m + n = 0)"
      by (simp_all only: mult_less_0_iff mult_eq_0_iff) simp_all
    ultimately have "f32_add a b = f32_pack (m + n < 0) (round_scaled (nat \<bar>m + n\<bar> * 2 ^ 149) 0)"
      using fin False unfolding f32_add_def Let_def v by (simp only: if_False simp_thms)
    then show ?thesis
      using int_round [OF assms(3)] round_scaled_less [of "nat \<bar>m + n\<bar> * 2 ^ 149" 0]
      by (auto simp: f32_int_def f32_pack_val f32_finite_def)
  qed
qed

text \<open>The order of two finite patterns is the order of the numbers they stand for.\<close>

lemma mag_units_split:
  assumes "f < 2 ^ 23"
  shows "mag_units (e * 2 ^ 23 + f) = (if e = 0 then f else (f + 2 ^ 23) * 2 ^ (e - 1))"
proof -
  have "(e * 2 ^ 23 + f) div 2 ^ 23 = e" "(e * 2 ^ 23 + f) mod 2 ^ 23 = f" using assms by simp_all
  then show ?thesis unfolding mag_units_def Let_def by simp
qed

lemma mag_units_Suc: "mag_units m < mag_units (Suc m)"
proof -
  define e f where "e = m div 2 ^ 23" and "f = m mod 2 ^ 23"
  have m: "m = e * 2 ^ 23 + f" unfolding e_def f_def by (rule div_mult_mod_eq [symmetric])
  have f: "f < 2 ^ 23" by (simp add: f_def)
  show ?thesis
  proof (cases "Suc f < 2 ^ 23")
    case True
    have "Suc m = e * 2 ^ 23 + Suc f" by (simp add: m)
    then show ?thesis using mag_units_split [OF f, of e] mag_units_split [OF True, of e] m by simp
  next
    case False
    then have top: "f = 2 ^ 23 - 1" using f by simp
    have S: "Suc m = Suc e * 2 ^ 23 + 0" by (simp add: m top)
    have "mag_units (Suc m) = 2 ^ 23 * 2 ^ e" unfolding S by (subst mag_units_split) simp_all
    moreover have "mag_units m = (if e = 0 then f else (f + 2 ^ 23) * 2 ^ (e - 1))"
      unfolding m by (rule mag_units_split [OF f])
    ultimately show ?thesis by (cases e) (simp_all add: top)
  qed
qed

lemma mag_units_mono: "mag_units m \<le> mag_units n \<longleftrightarrow> m \<le> n"
proof -
  have "strict_mono mag_units" by (simp add: strict_mono_Suc_iff mag_units_Suc)
  then show ?thesis by (rule strict_mono_less_eq)
qed

lemma mag_units_0 [simp]: "mag_units 0 = 0"
  by (simp add: mag_units_def)

lemma f32_le_val:
  assumes "f32_finite a" "f32_finite b"
  shows "f32_le a b \<longleftrightarrow> f32_val a \<le> f32_val b"
proof -
  have neg: "- int (mag_units m) \<le> int (mag_units n)" for m n by (rule order.trans [of _ 0]) simp_all
  have zero: "int (mag_units m) \<le> - int (mag_units n) \<longleftrightarrow> int m \<le> - int n" for m n
    using mag_units_mono [of m 0] mag_units_mono [of n 0] by auto
  show ?thesis
    using assms by (auto simp: f32_le_def f32_nan_def f32_finite_def f32_key_def f32_val_def mag_units_mono neg zero)
qed

lemma f32_le_int: "f32_int a m \<Longrightarrow> f32_int b n \<Longrightarrow> f32_le a b \<longleftrightarrow> m \<le> n"
  by (simp add: f32_int_def f32_le_val)

end
