(* ===== verification/Factions.thy ===== *)
theory Factions
  imports F32
begin

text \<open>
  \<open>world/factions.rs\<close> and \<open>world/npcs.rs\<close>: standings, the nine levels and the service gate's
  range questions.  The tables (\<open>factions.toml\<close>, \<open>npcs.toml\<close>) are data and come as arguments.
\<close>

section \<open>Levels\<close>

datatype level = Scowls | Threatening | Dubious | Apprehensive | Indifferent | Amiable | Kindly | Warmly | Ally

fun level_rank :: "level \<Rightarrow> nat" where
  "level_rank Scowls = 0"
| "level_rank Threatening = 1"
| "level_rank Dubious = 2"
| "level_rank Apprehensive = 3"
| "level_rank Indifferent = 4"
| "level_rank Amiable = 5"
| "level_rank Kindly = 6"
| "level_rank Warmly = 7"
| "level_rank Ally = 8"

lemma level_rank_inj: "level_rank a = level_rank b \<Longrightarrow> a = b"
  by (cases a; cases b) simp_all

text \<open>The derived order of the Rust enum.\<close>

instantiation level :: linorder
begin

definition less_eq_level :: "level \<Rightarrow> level \<Rightarrow> bool" where
  "less_eq_level a b \<longleftrightarrow> level_rank a \<le> level_rank b"

definition less_level :: "level \<Rightarrow> level \<Rightarrow> bool" where
  "less_level a b \<longleftrightarrow> level_rank a < level_rank b"

instance
  by standard (auto simp: less_eq_level_def less_level_def intro: level_rank_inj)

end

definition level_for :: "f32 \<Rightarrow> level" where
  "level_for v =
     (if f32_le 0x44898000 v then Ally
      else if f32_le 0x443b8000 v then Warmly
      else if f32_le 0x43fa0000 v then Kindly
      else if f32_le 0x42c80000 v then Amiable
      else if f32_le 0 v then Indifferent
      else if f32_le 0xc2c80000 v then Apprehensive
      else if f32_le 0xc3fa0000 v then Dubious
      else if f32_le 0xc43b8000 v then Threatening
      else Scowls)"

definition STANDING_CAP :: f32 where "STANDING_CAP = 0x44fa0000"
definition ENEMY_SHARE :: f32 where "ENEMY_SHARE = 0x3f000000"
definition HIT_BASE :: f32 where "HIT_BASE = 0x40800000"
definition NAMED_HIT_MULT :: f32 where "NAMED_HIT_MULT = 0x40400000"

record faction =
  fac_id :: string
  fac_name :: string
  allies :: "string list"
  enemies :: "string list"
  start_race :: "(string \<times> int) list"
  start_class :: "(string \<times> int) list"

definition faction_lookup :: "faction list \<Rightarrow> string \<Rightarrow> faction option" where
  "faction_lookup F i = find (\<lambda>f. fac_id f = i) F"

definition wrap32 :: "int \<Rightarrow> int" where
  "wrap32 x = (x + 2147483648) mod 4294967296 - 2147483648"

definition start_modifier :: "faction \<Rightarrow> string \<Rightarrow> string \<Rightarrow> int" where
  "start_modifier f race cls =
     wrap32 ((case map_of (start_race f) race of None \<Rightarrow> 0 | Some m \<Rightarrow> m)
             + (case map_of (start_class f) cls of None \<Rightarrow> 0 | Some m \<Rightarrow> m))"

definition shown_standing :: "f32 \<Rightarrow> faction \<Rightarrow> string \<Rightarrow> string \<Rightarrow> f32" where
  "shown_standing personal f race cls = f32_add personal (f32_of_int (start_modifier f race cls))"

text \<open>The new standing and the change that landed.\<close>

definition apply_hit :: "f32 \<Rightarrow> f32 \<Rightarrow> f32 \<times> f32" where
  "apply_hit standing delta =
     (let after = f32_clamp (f32_add standing delta) (f32_neg STANDING_CAP) STANDING_CAP
      in (after, f32_sub after standing))"

definition kill_hit :: "nat \<Rightarrow> bool \<Rightarrow> f32 option \<Rightarrow> f32" where
  "kill_hit lvl named override_hit =
     (let base = (case override_hit of Some h \<Rightarrow> h | None \<Rightarrow> f32_add HIT_BASE (f32_of_int (int lvl)))
      in if named then f32_mul base NAMED_HIT_MULT else base)"

definition kill_hits :: "faction list \<Rightarrow> string \<Rightarrow> f32 \<Rightarrow> (string \<times> f32) list" where
  "kill_hits F i hit =
     (case faction_lookup F i of
        None \<Rightarrow> []
      | Some victim \<Rightarrow>
          (fac_id victim, f32_neg hit)
          # map (\<lambda>f. (fac_id f, f32_mul hit ENEMY_SHARE))
              (filter (\<lambda>f. fac_id f \<noteq> fac_id victim \<and> fac_id victim \<in> set (enemies f)) F))"

text \<open>The level con.\<close>

datatype con = Green | Blue | White | Yellow | Red

text \<open>Rust's \<open>/\<close> truncates, but it is only reached on a non-negative dividend.\<close>

definition blue_floor :: "int \<Rightarrow> int" where
  "blue_floor player_level =
     (if player_level \<le> 12 then 3
      else if player_level \<le> 17 then 4
      else 5 + (min player_level 60 - 18) div 4)"

definition con_for :: "int \<Rightarrow> int \<Rightarrow> con" where
  "con_for player_level mob_level =
     (let diff = mob_level - player_level in
      if diff \<ge> 3 then Red
      else if diff \<ge> 1 then Yellow
      else if diff = 0 then White
      else if - diff \<le> blue_floor player_level then Blue
      else Green)"

section \<open>NPCs in reach\<close>

record vec3f =
  vx :: f32
  vy :: f32
  vz :: f32

definition vec_sub :: "vec3f \<Rightarrow> vec3f \<Rightarrow> vec3f" where
  "vec_sub a b = \<lparr>vx = f32_sub (vx a) (vx b), vy = f32_sub (vy a) (vy b), vz = f32_sub (vz a) (vz b)\<rparr>"

definition vec_length :: "vec3f \<Rightarrow> f32" where
  "vec_length a =
     f32_sqrt (f32_add (f32_add (f32_mul (vx a) (vx a)) (f32_mul (vy a) (vy a))) (f32_mul (vz a) (vz a)))"

definition distance_to :: "vec3f \<Rightarrow> vec3f \<Rightarrow> f32" where
  "distance_to a b = vec_length (vec_sub a b)"

definition NPC_SERVICE_RANGE :: f32 where "NPC_SERVICE_RANGE = 0x41700000"

record npc =
  npc_id :: string
  npc_name :: string
  kinds :: "string list"
  npc_pos :: vec3f
  npc_faction :: "string option"
  vendor_type :: "string option"
  stock :: "string list"

definition all_within_range :: "npc list \<Rightarrow> string \<Rightarrow> vec3f \<Rightarrow> npc list" where
  "all_within_range N kind pos =
     filter (\<lambda>n. f32_le (distance_to (npc_pos n) pos) NPC_SERVICE_RANGE) (filter (\<lambda>n. kind \<in> set (kinds n)) N)"

definition vendor_stocking_within_range :: "npc list \<Rightarrow> string \<Rightarrow> vec3f \<Rightarrow> (npc \<Rightarrow> bool) \<Rightarrow> npc option" where
  "vendor_stocking_within_range N item_name pos serves =
     find (\<lambda>n. item_name \<in> set (stock n)) (filter serves (all_within_range N ''vendor'' pos))"

definition id_within_range :: "npc list \<Rightarrow> string \<Rightarrow> vec3f \<Rightarrow> bool" where
  "id_within_range N i pos =
     (case find (\<lambda>n. npc_id n = i) N of
        None \<Rightarrow> False
      | Some n \<Rightarrow> f32_le (distance_to (npc_pos n) pos) NPC_SERVICE_RANGE)"

section \<open>Standing and level\<close>

text \<open>A better standing is never a worse level, and the service gate's levels are thresholds.\<close>

lemma f32_le_trans: "f32_le a b \<Longrightarrow> f32_le b c \<Longrightarrow> f32_le a c"
  by (auto simp: f32_le_def)

lemma level_for_mono:
  assumes "f32_le v w"
  shows "level_for v \<le> level_for w"
  using assms by (auto simp: level_for_def less_eq_level_def dest: f32_le_trans)

lemma level_for_gate:
  shows "Apprehensive \<le> level_for v \<longleftrightarrow> f32_le 0xc2c80000 v"
    and "Indifferent \<le> level_for v \<longleftrightarrow> f32_le 0 v"
proof -
  have order: "f32_le 0 0x42c80000" "f32_le 0x42c80000 0x43fa0000" "f32_le 0x43fa0000 0x443b8000" "f32_le 0x443b8000 0x44898000"
    "f32_le 0xc2c80000 0"
    by (simp_all add: f32_eval)
  then have up: "f32_le 0x42c80000 v \<Longrightarrow> f32_le 0 v" "f32_le 0x43fa0000 v \<Longrightarrow> f32_le 0 v"
    "f32_le 0x443b8000 v \<Longrightarrow> f32_le 0 v" "f32_le 0x44898000 v \<Longrightarrow> f32_le 0 v"
    by (blast intro: f32_le_trans)+
  have low: "f32_le 0 v \<Longrightarrow> f32_le 0xc2c80000 v" using order(5) by (rule f32_le_trans)
  show "Indifferent \<le> level_for v \<longleftrightarrow> f32_le 0 v"
    using up by (auto simp: level_for_def less_eq_level_def)
  show "Apprehensive \<le> level_for v \<longleftrightarrow> f32_le 0xc2c80000 v"
    using up low by (auto simp: level_for_def less_eq_level_def)
qed

text \<open>Standings that are whole numbers stay exact: the level is the one of the integer sum.\<close>

lemma f32_int_consts:
  "f32_int 0xc2c80000 (-100)" "f32_int 0 0"
  by (simp_all add: f32_int_def f32_eval)

lemma shown_standing_exact:
  assumes "f32_int personal n" "\<bar>start_modifier f race cls\<bar> \<le> 2 ^ 23" "\<bar>n\<bar> \<le> 2 ^ 23"
  shows "f32_int (shown_standing personal f race cls) (n + start_modifier f race cls)"
  unfolding shown_standing_def
  using assms by (intro f32_add_int f32_of_int_exact) auto

lemma serves_threshold:
  assumes "f32_int personal n" "\<bar>start_modifier f race cls\<bar> \<le> 2 ^ 23" "\<bar>n\<bar> \<le> 2 ^ 23"
  shows "Apprehensive \<le> level_for (shown_standing personal f race cls) \<longleftrightarrow> - 100 \<le> n + start_modifier f race cls"
  using f32_le_int [OF f32_int_consts(1) shown_standing_exact [OF assms]] by (simp add: level_for_gate)

end
