(* ===== verification/Demo.thy ===== *)
theory Demo
  imports InvRows Factions
begin

text \<open>
  A small world the witnesses run on: a registry with a weapon, a stackable ration, a bag and an item
  that is not worth keeping over a logout, an inventory with a bag of rations in it, and the evaluation rules
  (\<open>demo_eval\<close>) that let the simplifier run the storage operations on them.
\<close>

definition demo_sword :: item where
  "demo_sword = (item_default ''sword'' ''Iron Sword'' Weapon)\<lparr>vendor_price := 25\<rparr>"

definition demo_ration :: item where
  "demo_ration = (item_default ''ration'' ''Ration'' Consumable)\<lparr>stack_size := 20, vendor_price := 4, is_food := True\<rparr>"

definition demo_pouch :: item where
  "demo_pouch = (item_default ''pouch'' ''Pouch'' Bag)\<lparr>bag_num_slots_field := 2\<rparr>"

definition demo_ember :: item where
  "demo_ember = (item_default ''ember'' ''Ember'' Misc)\<lparr>stack_size := 5, no_rent := True, no_drop := True\<rparr>"

definition demo_registry :: registry where
  "demo_registry = [demo_sword, demo_ration, demo_pouch, demo_ember]"

text \<open>A pouch holding eighteen rations, five loose rations and a sword.\<close>

definition demo_inventory :: player_inventory where
  "demo_inventory =
     \<lparr>base = [Some (entry ''pouch'' 1), Some (entry ''ration'' 5), Some (entry ''sword'' 1), None, None, None, None, None],
      equipment = [], bags = [(0, [Some (entry ''ration'' 18), None])], cursor = None\<rparr>"

named_theorems demo_eval

lemma demo_lookup [simp]:
  "lookup demo_registry ''sword'' = Some demo_sword" "lookup demo_registry ''ration'' = Some demo_ration"
  "lookup demo_registry ''pouch'' = Some demo_pouch" "lookup demo_registry ''ember'' = Some demo_ember"
  by (simp_all add: lookup_def demo_registry_def demo_sword_def demo_ration_def demo_pouch_def demo_ember_def
      item_default_def)

lemma demo_by_name [simp]:
  "lookup_by_name demo_registry ''Iron Sword'' = Some demo_sword"
  "lookup_by_name demo_registry ''Ration'' = Some demo_ration"
  by (simp_all add: lookup_by_name_def demo_registry_def demo_sword_def demo_ration_def demo_pouch_def demo_ember_def
      item_default_def)

lemma demo_fields [simp]:
  "max_stack demo_registry ''sword'' = 1" "max_stack demo_registry ''ration'' = 20" "max_stack demo_registry ''pouch'' = 1"
  "max_stack demo_registry ''ember'' = 5"
  "bag_num_slots demo_registry ''sword'' = None" "bag_num_slots demo_registry ''ration'' = None"
  "bag_num_slots demo_registry ''pouch'' = Some 2" "bag_num_slots demo_registry ''ember'' = None"
  "is_no_rent demo_registry ''ember''" "\<not> is_no_rent demo_registry ''ration''" "\<not> is_no_rent demo_registry ''sword''"
  "\<not> is_no_rent demo_registry ''pouch''"
  "is_no_drop demo_registry ''ember''" "\<not> is_no_drop demo_registry ''ration''" "\<not> is_no_drop demo_registry ''sword''"
  by (simp_all add: max_stack_def bag_num_slots_def is_no_rent_def is_no_drop_def demo_sword_def demo_ration_def
      demo_pouch_def demo_ember_def item_default_def)

lemma demo_registry_ok [simp]: "reg_ok demo_registry" "bags_keep demo_registry"
  by (simp_all add: reg_ok_def bags_keep_def demo_registry_def demo_sword_def demo_ration_def demo_pouch_def
      demo_ember_def item_default_def)

lemma eight_slots [demo_eval]: "[0..<8] = [0, 1, 2, 3, 4, 5, 6, 7::nat]"
  by (simp add: upt_rec)

lemma show_digit: "n < 10 \<Longrightarrow> show_nat n = [digit_char n]"
  by (subst show_nat.simps) simp

lemma bag_locs [demo_eval]: "bag_loc 0 = ''bag_0''" "bag_loc 1 = ''bag_1''" "bag_loc (Suc 0) = ''bag_1''" "bag_loc 2 = ''bag_2''"
    "bag_loc (Suc (Suc 0)) = ''bag_2''"
  by (simp_all add: bag_loc_def show_digit digit_char_def, code_simp+)

lemmas storage_defs [demo_eval] = parse_slot_ref_def reject_held_bag_slot_def move_refs_def BASE_SLOT_COUNT_def
  CURSOR_BAG_KEY_def EQUIP_SLOT_COUNT_def occupied_inner_slots_def is_bag_item_def reattach_def ensure_bag_init_def
  vget_def or_insert_def push_inner_union_def cell_at_def set_cell_def show_ref_def valid_ref_def settle_def merge_capped_def
  add32_sat_def bag_key_is_nonempty_def cell_pair_def

lemma demo_inventory_wf [simp]: "inv_wf demo_registry demo_inventory"
  by (simp add: inv_wf_but_def base_wf_def bags_wf_def hand_wf_def equip_wf_def demo_inventory_def BASE_SLOT_COUNT_def
      CURSOR_BAG_KEY_def cell_ok_def entry_ok_def hosts_bag_def inner_ok_def eight_slots)

lemma demo_total [simp]:
  "inv_total ''ration'' demo_inventory = 23" "inv_total ''sword'' demo_inventory = 1" "inv_total ''pouch'' demo_inventory = 1"
  by (simp_all add: inv_total_def demo_inventory_def cells_total_def equip_total_def bags_total_def al_sum_def)

end
