(* ===== verification/Storage.thy ===== *)
theory Storage
  imports Demo InvTake
begin

text \<open>
  What the carried inventory promises as a whole: a step relation over the storage operations of
  \<open>world/inventory.rs\<close> with the net change each reports, its reachable states, and the properties of
  the single operations that the handlers rest on.
\<close>

section \<open>The inventory as a state machine\<close>

text \<open>One operation of a client or of the server, with the change of every item's total that it reports to
  the ledger: none for a move, what fitted for a grant, what was taken for a removal.\<close>

inductive storage_step :: "registry \<Rightarrow> player_inventory \<Rightarrow> (string \<Rightarrow> int) \<Rightarrow> player_inventory \<Rightarrow> bool" for R where
  moved: "move_across R sl ss dl ds iv = Inr (t, iv') \<Longrightarrow> storage_step R iv (\<lambda>q. 0) iv'"
| equipped: "equip_from_location R loc s k iv = Inr (t, iv') \<Longrightarrow> storage_step R iv (\<lambda>q. 0) iv'"
| unequipped: "unequip_to_base R k dst iv = Inr (t, iv') \<Longrightarrow> storage_step R iv (\<lambda>q. 0) iv'"
| taken_off: "unequip_to_cursor k iv = Inr (t, iv') \<Longrightarrow> storage_step R iv (\<lambda>q. 0) iv'"
| parked: "park_cursor_stack R iv = Inr (r, iv') \<Longrightarrow> storage_step R iv (\<lambda>q. 0) iv'"
| granted: "add_item_locating R p n iv = Inr ((t, l), iv') \<Longrightarrow> storage_step R iv (\<lambda>q. int (units q p (n - l))) iv'"
| destroyed: "destroy_at R loc s n iv = Inr ((p, k), iv') \<Longrightarrow> storage_step R iv (\<lambda>q. - int (units q p k)) iv'"
| used: "decrement_at R loc s iv = Inr (p, iv') \<Longrightarrow> \<not> is_bag_item R p \<Longrightarrow> storage_step R iv (\<lambda>q. - int (units q p 1)) iv'"

inductive storage_reachable :: "registry \<Rightarrow> (string \<Rightarrow> int) \<Rightarrow> player_inventory \<Rightarrow> bool" for R where
  fresh: "storage_reachable R (\<lambda>q. 0) inventory_new"
| step: "storage_reachable R d iv \<Longrightarrow> storage_step R iv e iv' \<Longrightarrow> storage_reachable R (\<lambda>q. d q + e q) iv'"

inductive_cases storage_stepE: "storage_step R iv e iv'"

lemma storage_step_keeps:
  assumes "storage_step R iv e iv'" "reg_ok R" "inv_wf R iv"
  shows "inv_wf R iv' \<and> int (inv_total q iv') = int (inv_total q iv) + e q"
  using assms(1)
proof cases
  case moved
  then show ?thesis using move_across_conserves [OF assms(2,3)] by (simp add: conserves_def)
next
  case equipped
  then show ?thesis using equip_from_location_effect(1) [OF assms(3)] by (simp add: conserves_def)
next
  case unequipped
  then show ?thesis using unequip_to_base_conserves [OF assms(3)] by (simp add: conserves_def)
next
  case taken_off
  then show ?thesis using unequip_to_cursor_conserves [OF assms(3)] by (simp add: conserves_def)
next
  case (parked r)
  then show ?thesis using park_cursor_stack_conserves [OF assms(2,3)] by (cases r) (auto simp: conserves_def)
next
  case granted
  then show ?thesis using add_item_locating_Inr [OF assms(2,3)] by simp
next
  case (destroyed loc s n p k)
  then show ?thesis using destroy_at_effect [OF assms(3), of loc s n p k iv' q] by auto
next
  case (used loc s p)
  then show ?thesis using decrement_at_effect [OF assms(3), of loc s p iv' q] by (auto simp: units_def)
qed



lemma demo_grant:
  "add_item_locating demo_registry ''sword'' 1 inventory_new = Inr (([(''base'', 0)], 0), inventory_new\<lparr>base := (base inventory_new)[0 := Some (entry ''sword'' 1)]\<rparr>)"
  by (simp add: add_item_locating_def inventory_new_def inner_refs_def carried_bag_keys_def base_refs_def topup_step_def
      claim_step_def claim_cell_def demo_eval numeral_eq_Suc)


section \<open>Single operations\<close>

text \<open>C29. A move between any two addresses (base slot, bag slot, hand) keeps the inventory well formed and every
  item's total, whether it fills an empty slot, merges up to the stack cap or swaps, bags with their contents included.\<close>

theorem move_keeps_everything:
  assumes "reg_ok R" "inv_wf R iv" "move_across R sl ss dl ds iv = Inr (t, iv')"
  shows "inv_wf R iv' \<and> (\<forall>q. inv_total q iv' = inv_total q iv)"
  using move_across_conserves [OF assms] by (simp add: conserves_def)

lemma demo_move:
  "move_across demo_registry ''base'' 0 ''base'' 2 demo_inventory =
     Inr ([(''base'', 0), (''base'', 2), (''bag_0'', 0), (''bag_2'', 0)],
       demo_inventory\<lparr>base := (base demo_inventory)[0 := Some (entry ''sword'' 1), 2 := Some (entry ''pouch'' 1)],
                      bags := [(2, [Some (entry ''ration'' 18), None])]\<rparr>)"
  by (simp add: move_across_def move_base_def demo_inventory_def demo_eval Let_def numeral_eq_Suc)

theorem move_keeps_everything_witness:
  "inv_total ''ration'' (demo_inventory\<lparr>base := (base demo_inventory)[0 := Some (entry ''sword'' 1), 2 := Some (entry ''pouch'' 1)],
     bags := [(2, [Some (entry ''ration'' 18), None])]\<rparr>) = inv_total ''ration'' demo_inventory"
  using move_keeps_everything [OF demo_registry_ok(1) demo_inventory_wf demo_move] by blast

text \<open>C30. A grant never fails half way: it places exactly as many units as there is room for (top-ups of partial
  stacks, empty base slots and, unless the item is a bag, empty slots of carried bags) and reports the rest; an
  empty grant and an empty path are the only errors.\<close>

theorem grant_places_what_fits:
  assumes "reg_ok R" "inv_wf R iv" "0 < n" "p \<noteq> []"
  shows "\<exists>t iv'. add_item_locating R p n iv = Inr ((t, n - inv_room R p iv), iv') \<and> inv_wf R iv'
    \<and> (\<forall>q. inv_total q iv' = inv_total q iv + (if q = p then min n (inv_room R p iv) else 0))"
proof -
  obtain t l iv' where add: "add_item_locating R p n iv = Inr ((t, l), iv')" "inv_wf R iv'"
      "\<And>q. inv_total q iv' = inv_total q iv + units q p (n - l)" "l = n - inv_room R p iv" "l \<le> n"
    using add_item_locating_effect [OF assms] by metis
  have "inv_total q iv' = inv_total q iv + (if q = p then min n (inv_room R p iv) else 0)" for q
    using add(3) [of q] add(4) by (simp add: units_def min_def)
  then show ?thesis using add by blast
qed

lemma demo_room: "inv_room demo_registry ''ration'' demo_inventory = 137"
  by (simp add: inv_room_def base_refs_def inner_refs_def carried_bag_keys_def demo_inventory_def topup_room_def claim_room_def
      demo_eval numeral_eq_Suc)

theorem grant_places_what_fits_witness:
  "\<exists>t iv'. add_item_locating demo_registry ''ration'' 200 demo_inventory = Inr ((t, 63), iv') \<and> inv_wf demo_registry iv'
    \<and> (\<forall>q. inv_total q iv' = inv_total q demo_inventory + (if q = ''ration'' then 137 else 0))"
  using grant_places_what_fits [OF demo_registry_ok(1) demo_inventory_wf, of 200 "''ration''", unfolded demo_room]
  by (simp add: min_def split: if_splits) metis

text \<open>C20. The dry run and the real placement agree.  \<open>can_accept\<close> admits a list of grants exactly when none of them is empty and
  placing them all for real, one after the other, leaves nothing over; then every item's total grows by what was granted.  A single
  grant is admitted exactly when it is not empty, names an item and fits the room there is for it.\<close>

theorem dry_run_is_honest:
  assumes "reg_ok R" "inv_wf R iv" "place_all R grants iv = (ls, iv')"
  shows "(can_accept R grants iv \<longleftrightarrow> (\<forall>(p, n)\<in>set grants. 0 < n) \<and> (\<forall>l\<in>set ls. l = 0))
    \<and> (can_accept R grants iv \<longrightarrow> inv_wf R iv' \<and> (\<forall>q. inv_total q iv' = inv_total q iv + grants_total q grants))
    \<and> (can_accept R [(p, n)] iv \<longleftrightarrow> 0 < n \<and> p \<noteq> [] \<and> n \<le> inv_room R p iv)"
  using can_accept_iff [of R grants iv] can_accept_place_all [OF assms(1,2) _ assms(3)] can_accept_single [OF assms(1,2)] assms(3) by auto

lemma demo_can_accept: "can_accept demo_registry [(''ration'', 100)] demo_inventory"
  by (simp add: can_accept_single demo_room)

theorem dry_run_is_honest_witness:
  "inv_total ''ration'' (snd (place_all demo_registry [(''ration'', 100)] demo_inventory)) = 123
    \<and> \<not> can_accept demo_registry [(''ration'', 138)] demo_inventory"
proof -
  obtain ls iv' where pl: "place_all demo_registry [(''ration'', 100)] demo_inventory = (ls, iv')" by (metis surj_pair)
  note honest = dry_run_is_honest [OF demo_registry_ok(1) demo_inventory_wf pl]
  have "inv_total ''ration'' iv' = 123" using honest demo_can_accept by (simp add: units_def)
  moreover have "\<not> can_accept demo_registry [(''ration'', 138)] demo_inventory" using honest [of "''ration''" 138] demo_room by simp
  ultimately show ?thesis using pl by simp
qed

text \<open>C33. Removing from a slot takes exactly the units it reports (the whole stack for a request of zero or too
  many) out of exactly the item that sat there, and keeps the rest.\<close>

theorem removal_is_exact:
  assumes "inv_wf R iv" "destroy_at R loc slot n iv = Inr ((p, k), iv')"
  shows "inv_wf R iv' \<and> (\<exists>m. peek_at loc slot iv = Some (p, m) \<and> k = (if n = 0 then m else min n m) \<and> 1 \<le> k)
    \<and> (\<forall>q. inv_total q iv' + (if q = p then k else 0) = inv_total q iv)"
proof -
  obtain m where m: "peek_at loc slot iv = Some (p, m)" "k = (if n = 0 \<or> m \<le> n then m else n)" "1 \<le> k"
    using destroy_at_effect [OF assms] by blast
  then have "k = (if n = 0 then m else min n m)" by (simp add: min_def)
  moreover have "inv_wf R iv'" "inv_total q iv' + units q p k = inv_total q iv" for q
    using destroy_at_effect [OF assms] by blast+
  ultimately show ?thesis using m unfolding units_def by blast
qed

theorem removal_is_exact_witness:
  "\<exists>iv'. destroy_at demo_registry ''base'' 1 2 demo_inventory = Inr ((''ration'', 2), iv') \<and> inv_total ''ration'' iv' + 2 = 23"
proof -
  let ?iv = "demo_inventory\<lparr>base := (base demo_inventory)[1 := Some (entry ''ration'' 3)]\<rparr>"
  have d: "destroy_at demo_registry ''base'' 1 2 demo_inventory = Inr ((''ration'', 2), ?iv)"
    by (simp add: destroy_at_def source_entry_def take_units_def demo_inventory_def demo_eval Let_def)
  have "inv_total ''ration'' ?iv + 2 = 23"
    using removal_is_exact [OF demo_inventory_wf d] by (auto dest!: spec [of _ "''ration''"])
  with d show ?thesis by blast
qed


text \<open>C37. An item is worn only in a slot it fits, and equipping is an exact exchange: the item that sat at the address is worn in the
  slot, which accepts it, what was worn there (or nothing) sits at the address, every other worn slot and every other address keeps what
  it had, and the inventory stays well formed.\<close>

theorem equip_respects_slots:
  assumes "inv_wf R iv" "equip_from_location R loc s k iv = Inr (t, iv')"
  shows "(\<exists>e. map_of (equipment iv') k = Some e \<and> is_equippable_in_slot R (item_path e) k \<and> peek_at loc s iv = Some (item_path e, ecount e))
    \<and> peek_at loc s iv' = cell_pair (map_of (equipment iv) k)
    \<and> (\<forall>j. j \<noteq> k \<longrightarrow> map_of (equipment iv') j = map_of (equipment iv) j)
    \<and> (\<forall>loc' s'. parse_slot_ref loc' s' \<noteq> parse_slot_ref loc s \<longrightarrow> peek_at loc' s' iv' = peek_at loc' s' iv)
    \<and> inv_wf R iv' \<and> (\<forall>q. inv_total q iv' = inv_total q iv)"
  using equip_from_location_effect [OF assms] by (auto simp: conserves_def)

lemma demo_equippable: "is_equippable_in_slot demo_registry ''sword'' (Suc 0)"
  by (simp add: is_equippable_in_slot_def demo_sword_def item_default_def)

theorem equip_respects_slots_witness:
  "\<exists>t iv'. equip_from_location demo_registry ''base'' 2 1 demo_inventory = Inr (t, iv') \<and> map_of (equipment iv') 1 = Some (entry ''sword'' 1)
     \<and> peek_at ''base'' 2 iv' = None \<and> inv_total ''sword'' iv' = 1"
proof -
  let ?iv = "demo_inventory\<lparr>base := (base demo_inventory)[2 := None], equipment := [(1, entry ''sword'' 1)]\<rparr>"
  have d: "equip_from_location demo_registry ''base'' 2 1 demo_inventory = Inr ([(''base'', 2), (''equip'', 1)], ?iv)"
    by (simp add: equip_from_location_def source_entry_def demo_equippable demo_inventory_def demo_eval Let_def)
  have bare: "equipment demo_inventory = []" by (simp add: demo_inventory_def)
  have "inv_total ''sword'' ?iv = 1" "peek_at ''base'' 2 ?iv = cell_pair (map_of (equipment demo_inventory) 1)"
    using equip_respects_slots [OF demo_inventory_wf d] by auto
  with d bare show ?thesis by (simp add: cell_pair_def)
qed

end
