(* ===== verification/Saving.thy ===== *)
theory Saving
  imports Demo InvTake Vault
begin

text \<open>
  Storing and leaving: the properties of the database rows of the inventory and of the bank vaults, of
  the vault capacity check, of the corpse a character leaves and of the purge of NO RENT items at login.
\<close>

definition demo_vault :: item_vault where
  "demo_vault = \<lparr>slots = [Some (entry ''ration'' 15), None]\<rparr>"

text \<open>C31. Saving an inventory as rows and loading it again gives back what every address and every equipment
  slot held, as long as every stack fits the signed count column and no bag vector outgrew its bag.\<close>

theorem inventory_survives_the_database:
  assumes "inv_wf R iv" "rows_small iv" "bags_sized R iv"
  shows "peek_at loc slot (from_rows R (to_rows iv)) = peek_at loc slot iv
    \<and> map_of (equipment (from_rows R (to_rows iv))) k = map_of (equipment iv) k"
  using assms by (rule rows_roundtrip)

lemma demo_rows_ok: "rows_small demo_inventory" "bags_sized demo_registry demo_inventory"
  by (simp_all add: rows_small_def small_cell_def bags_sized_def host_size_def demo_inventory_def demo_eval upt_rec)

theorem inventory_survives_the_database_witness:
  "peek_at ''bag_0'' 0 (from_rows demo_registry (to_rows demo_inventory)) = peek_at ''bag_0'' 0 demo_inventory"
  using inventory_survives_the_database [OF demo_inventory_wf demo_rows_ok] by blast

text \<open>The same of a bank vault: its rows load back to the very vault, slot for slot.\<close>

theorem vault_survives_the_database:
  assumes "vault_wf v" "list_all small_cell (slots v)"
  shows "vault_from_rows (length (slots v)) (vault_to_rows v) = v"
  using assms by (rule vault_roundtrip)

lemma demo_vault_wf [simp]: "vault_wf demo_vault" "list_all small_cell (slots demo_vault)"
  by (simp_all add: vault_wf_def demo_vault_def cell_ok_def entry_ok_def small_cell_def)

theorem vault_survives_the_database_witness:
  "vault_from_rows 2 (vault_to_rows demo_vault) = demo_vault"
  using vault_survives_the_database [OF demo_vault_wf] by (simp add: demo_vault_def numeral_2_eq_2)

text \<open>C32. The capacity a vault announces is exactly what a deposit gets: of any count the wire can carry, \<open>capacity_for\<close> units are
  stored and the rest is left over, the vault stays well formed, and only that item's total grows.\<close>

theorem vault_capacity_is_honest:
  assumes "reg_ok R" "vault_wf v" "p \<noteq> []" "n \<le> u32_max"
  shows "\<exists>t v'. vault_deposit R p n v = ((t, n - capacity_for R p v), v') \<and> vault_wf v'
    \<and> (\<forall>q. vault_total q v' = vault_total q v + (if q = p then min n (capacity_for R p v) else 0))"
proof -
  obtain t l v' where dep: "vault_deposit R p n v = ((t, l), v')" by (metis surj_pair)
  have "n - vault_room R p v = n - capacity_for R p v" "n - (n - vault_room R p v) = min n (capacity_for R p v)"
    using assms(4) by (auto simp: capacity_for_room min_def)
  then show ?thesis using vault_deposit_effect [OF assms(1-3) dep] dep by (auto simp: units_def)
qed

lemma demo_capacity: "capacity_for demo_registry ''ration'' demo_vault = 25"
  by (simp add: capacity_for_def demo_vault_def add32_sat_def)

theorem vault_capacity_is_honest_witness:
  "\<exists>t v'. vault_deposit demo_registry ''ration'' 30 demo_vault = ((t, 5), v') \<and> vault_total ''ration'' v' = vault_total ''ration'' demo_vault + 25"
  using vault_capacity_is_honest [OF demo_registry_ok(1) demo_vault_wf(1), of "''ration''" 30, unfolded demo_capacity] by auto

text \<open>Death loses nothing: the stacks laid into the corpse (worn items with their slots, base slots, bags, the hand) add up
  to what the character carried of every item, and the inventory left behind holds nothing.\<close>

theorem corpse_holds_everything:
  assumes "inv_wf R iv"
  shows "corpse_total q (corpse_stacks iv) = inv_total q iv \<and> inv_total q (clear_all iv) = 0 \<and> inv_wf R (clear_all iv)"
  using corpse_stacks_total [OF assms] clear_all_wf [OF assms] by simp

theorem corpse_holds_everything_witness: "corpse_total ''ration'' (corpse_stacks demo_inventory) = 23"
  using corpse_holds_everything [OF demo_inventory_wf, of "''ration''"] by simp

text \<open>C35. The purge at login removes every NO RENT unit, wherever it is carried, removes nothing else,
  and the list it returns for the ledger says exactly what went.\<close>

theorem purge_takes_no_rent_only:
  assumes "inv_wf R iv" "bags_keep R" "purge_no_rent R iv = (gone, iv')"
  shows "inv_wf R iv' \<and> (\<forall>q. inv_total q iv' = (if is_no_rent R q then 0 else inv_total q iv)
    \<and> grants_total q gone = (if is_no_rent R q then inv_total q iv else 0))"
  using purge_no_rent_effect [OF assms] by blast

definition demo_embers :: player_inventory where
  "demo_embers = demo_inventory\<lparr>cursor := Some (entry ''ember'' 4)\<rparr>"

lemma demo_embers_wf: "inv_wf demo_registry demo_embers"
  using demo_inventory_wf by (simp add: demo_embers_def inv_wf_but_def hand_wf_def cell_ok_def entry_ok_def demo_inventory_def CURSOR_BAG_KEY_def)

lemma demo_purge: "purge_no_rent demo_registry demo_embers = ([(''ember'', 4)], demo_inventory)"
  by (simp add: purge_no_rent_def demo_embers_def demo_inventory_def Let_def)

theorem purge_takes_no_rent_only_witness: "grants_total ''ember'' [(''ember'', 4)] = inv_total ''ember'' demo_embers \<and> inv_total ''ember'' demo_inventory = 0"
  using purge_takes_no_rent_only [OF demo_embers_wf demo_registry_ok(2) demo_purge] by simp

end
