(* ===== verification/Coins.thy ===== *)
theory Coins
  imports Prelude
begin

text \<open>
  The four-tier coin purse of \<open>crates/protocol/src/world.rs\<close>: \<open>Coins\<close>, its arithmetic, and
  \<open>CoinAmount\<close>, the amount a client may name.  Every tier is an \<open>i64\<close>; the saturating operations
  are written with \<open>sat64\<close>.  The lemmas show what each operation does to the purse's value in
  copper, and that a purse of non-negative tiers stays one.
\<close>

section \<open>The purse\<close>

record coins =
  platinum :: int
  gold :: int
  silver :: int
  copper :: int

definition tier_value :: "nat \<Rightarrow> int" where
  "tier_value i = [1, 100, 10000, 1000000] ! i"

definition coins_ZERO :: coins where
  "coins_ZERO = \<lparr>platinum = 0, gold = 0, silver = 0, copper = 0\<rparr>"

definition total_copper :: "coins \<Rightarrow> int" where
  "total_copper c =
     sat64 (sat64 (sat64 (copper c + sat64 (silver c * 100)) + sat64 (gold c * 10000))
            + sat64 (platinum c * 1000000))"

definition from_copper :: "int \<Rightarrow> coins" where
  "from_copper amount0 =
     (let amount = (if amount0 < 0 then 0 else amount0);
          p = amount div 1000000; a1 = amount mod 1000000;
          g = a1 div 10000; a2 = a1 mod 10000;
          s = a2 div 100; a3 = a2 mod 100
      in \<lparr>platinum = p, gold = g, silver = s, copper = a3\<rparr>)"

definition can_afford :: "coins \<Rightarrow> int \<Rightarrow> bool" where
  "can_afford c cost_copper \<longleftrightarrow> cost_copper \<le> total_copper c"

definition tier_count :: "coins \<Rightarrow> nat \<Rightarrow> int" where
  "tier_count c tier =
     (if tier = 0 then copper c else if tier = 1 then silver c
      else if tier = 2 then gold c else platinum c)"

definition has_negative :: "coins \<Rightarrow> bool" where
  "has_negative c \<longleftrightarrow> platinum c < 0 \<or> gold c < 0 \<or> silver c < 0 \<or> copper c < 0"

definition has_at_least :: "coins \<Rightarrow> coins \<Rightarrow> bool" where
  "has_at_least c other \<longleftrightarrow>
     platinum c \<ge> platinum other \<and> gold c \<ge> gold other
     \<and> silver c \<ge> silver other \<and> copper c \<ge> copper other"

definition add_each :: "coins \<Rightarrow> coins \<Rightarrow> coins" where
  "add_each c other =
     \<lparr>platinum = sat64 (platinum c + platinum other), gold = sat64 (gold c + gold other),
      silver = sat64 (silver c + silver other), copper = sat64 (copper c + copper other)\<rparr>"

definition sub_each :: "coins \<Rightarrow> coins \<Rightarrow> coins" where
  "sub_each c other =
     \<lparr>platinum = sat64 (platinum c - platinum other), gold = sat64 (gold c - gold other),
      silver = sat64 (silver c - silver other), copper = sat64 (copper c - copper other)\<rparr>"

definition adjust_tier :: "coins \<Rightarrow> nat \<Rightarrow> int \<Rightarrow> coins" where
  "adjust_tier c tier delta =
     (if tier = 0 then c\<lparr>copper := sat64 (copper c + delta)\<rparr>
      else if tier = 1 then c\<lparr>silver := sat64 (silver c + delta)\<rparr>
      else if tier = 2 then c\<lparr>gold := sat64 (gold c + delta)\<rparr>
      else c\<lparr>platinum := sat64 (platinum c + delta)\<rparr>)"

text \<open>The banker's tier exchange; the error is the line shown to the player.\<close>

definition exchange :: "coins \<Rightarrow> nat \<Rightarrow> nat \<Rightarrow> nat \<Rightarrow> string + coins" where
  "exchange c from_tier to_tier qty =
     (if from_tier = to_tier then Inl ''pick two different coin tiers''
      else if from_tier > 3 \<or> to_tier > 3 then Inl ''invalid coin tier''
      else if qty = 0 then Inl ''nothing to convert''
      else if tier_count c from_tier < int qty then Inl ''not enough of that coin to convert''
      else
        let from_v = tier_value from_tier; to_v = tier_value to_tier;
            value = sat64 (int qty * from_v); to_count = value div to_v
        in if to_count = 0 then Inl ''not enough of that coin to make even one of the target''
           else
             let remainder_in_from = (value mod to_v) div from_v;
                 consumed = int qty - remainder_in_from
             in Inr (adjust_tier (adjust_tier c from_tier (- consumed)) to_tier to_count))"

section \<open>Spending\<close>

text \<open>
  The working copy \<open>counts\<close> is indexed from copper to platinum.  \<open>scatter\<close> is the inner loop that
  puts the change of a broken coin into the tiers below it, highest first.
\<close>

fun scatter :: "nat \<Rightarrow> int \<Rightarrow> int list \<Rightarrow> int list" where
  "scatter 0 change counts = counts"
| "scatter (Suc j) change counts =
     scatter j (change mod tier_value j) (counts[j := counts ! j + change div tier_value j])"

definition spend_tier :: "nat \<Rightarrow> int list \<times> int \<Rightarrow> int list \<times> int" where
  "spend_tier i st =
     (case st of (counts, remaining) \<Rightarrow>
        if remaining = 0 then (counts, remaining)
        else
          let val = tier_value i;
              whole = min (remaining div val) (counts ! i);
              counts1 = counts[i := counts ! i - whole];
              remaining1 = remaining - whole * val
          in if remaining1 > 0 \<and> remaining1 < val \<and> counts1 ! i > 0
             then (scatter i (val - remaining1) (counts1[i := counts1 ! i - 1]), 0)
             else (counts1, remaining1))"

definition spend_greedy :: "coins \<Rightarrow> int \<Rightarrow> int list \<times> int" where
  "spend_greedy c cost =
     spend_tier 3 (spend_tier 2 (spend_tier 1 (spend_tier 0
       ([copper c, silver c, gold c, platinum c], cost))))"

definition spend :: "coins \<Rightarrow> int \<Rightarrow> bool \<times> coins" where
  "spend c cost =
     (let total = total_copper c in
      if cost < 0 \<or> total < cost then (False, c)
      else case spend_greedy c cost of (counts, remaining) \<Rightarrow>
        if remaining > 0 then (True, from_copper (total - cost))
        else (True, c\<lparr>copper := counts ! 0, silver := counts ! 1,
                      gold := counts ! 2, platinum := counts ! 3\<rparr>))"

definition pay_value_of :: "coins \<Rightarrow> coins \<Rightarrow> bool \<times> coins" where
  "pay_value_of c want =
     (if has_negative want then (False, c) else spend c (total_copper want))"

definition add_payout :: "coins \<Rightarrow> int \<Rightarrow> coins" where
  "add_payout c amount_copper = add_each c (from_copper (max amount_copper 0))"

text \<open>\<open>CoinAmount\<close>: \<open>TryFrom<Coins>\<close> refuses a negative tier.\<close>

typedef coin_amount = "{c :: coins. \<not> has_negative c}"
  morphisms coin_amount_get CoinAmount
  by (rule exI [of _ coins_ZERO]) (simp add: coins_ZERO_def has_negative_def)

setup_lifting type_definition_coin_amount

lift_definition coin_amount_ZERO :: coin_amount is coins_ZERO
  by (simp add: coins_ZERO_def has_negative_def)

definition coin_amount_try_from :: "coins \<Rightarrow> coin_amount option" where
  "coin_amount_try_from c = (if has_negative c then None else Some (CoinAmount c))"


section \<open>The value of a purse\<close>

text \<open>The value in unbounded integers; \<open>total_copper\<close> is its saturated form.\<close>

definition coin_value :: "coins \<Rightarrow> int" where
  "coin_value c = copper c + 100 * silver c + 10000 * gold c + 1000000 * platinum c"

definition fits64 :: "coins \<Rightarrow> bool" where
  "fits64 c \<longleftrightarrow> platinum c \<le> i64_max \<and> gold c \<le> i64_max \<and> silver c \<le> i64_max \<and> copper c \<le> i64_max"

definition purse_ok :: "coins \<Rightarrow> bool" where
  "purse_ok c \<longleftrightarrow> \<not> has_negative c \<and> fits64 c"

lemma purse_okD:
  assumes "purse_ok c"
  shows "0 \<le> platinum c" "0 \<le> gold c" "0 \<le> silver c" "0 \<le> copper c"
    "platinum c \<le> i64_max" "gold c \<le> i64_max" "silver c \<le> i64_max" "copper c \<le> i64_max"
  using assms by (simp_all add: purse_ok_def has_negative_def fits64_def)

lemma tier_value_simps [simp]:
  "tier_value 0 = 1" "tier_value (Suc 0) = 100" "tier_value 2 = 10000" "tier_value 3 = 1000000"
  by (simp_all add: tier_value_def numeral_2_eq_2 numeral_3_eq_3)

lemma purse_ok_ZERO [simp]: "purse_ok coins_ZERO" "coin_value coins_ZERO = 0" "total_copper coins_ZERO = 0"
  by (simp_all add: purse_ok_def has_negative_def fits64_def coins_ZERO_def coin_value_def total_copper_def)

lemma coin_value_nonneg: "\<not> has_negative c \<Longrightarrow> 0 \<le> coin_value c"
  by (simp add: coin_value_def has_negative_def)

lemma sat64_sat64_add: "0 \<le> x \<Longrightarrow> 0 \<le> y \<Longrightarrow> sat64 (sat64 x + sat64 y) = sat64 (x + y)"
  by (simp add: sat64_def)

lemma sat64_add_sat64: "0 \<le> x \<Longrightarrow> 0 \<le> y \<Longrightarrow> sat64 (x + sat64 y) = sat64 (x + y)"
  by (simp add: sat64_def)

lemma total_copper_sat:
  assumes "\<not> has_negative c"
  shows "total_copper c = sat64 (coin_value c)"
  using assms
  by (simp add: total_copper_def sat64_sat64_add sat64_add_sat64 has_negative_def coin_value_def algebra_simps)

lemma total_copper_le_value: "\<not> has_negative c \<Longrightarrow> total_copper c \<le> coin_value c"
  using coin_value_nonneg [of c] by (simp add: total_copper_sat sat64_def)

lemma total_copper_nonneg: "\<not> has_negative c \<Longrightarrow> 0 \<le> total_copper c"
  by (simp add: total_copper_sat sat64_nonneg coin_value_nonneg)

lemma from_copper_value [simp]: "coin_value (from_copper n) = max n 0"
proof -
  have "n mod 1000000 mod 10000 mod 100 + 100 * (n mod 1000000 mod 10000 div 100)
      + 10000 * (n mod 1000000 div 10000) + 1000000 * (n div 1000000) = n"
    by (simp add: algebra_simps)
  then show ?thesis by (simp add: from_copper_def coin_value_def Let_def max_def)
qed

lemma from_copper_not_negative [simp]: "\<not> has_negative (from_copper n)"
  by (simp add: from_copper_def has_negative_def Let_def pos_imp_zdiv_neg_iff not_less)

text \<open>The reduced form: every tier below platinum holds fewer than 100 coins.\<close>

definition reduced :: "coins \<Rightarrow> bool" where
  "reduced c \<longleftrightarrow> \<not> has_negative c \<and> gold c < 100 \<and> silver c < 100 \<and> copper c < 100"

lemma from_copper_reduced: "reduced (from_copper n)"
proof -
  have "x mod 1000000 div 10000 < 100" "x mod 10000 div 100 < 100" for x :: int
    using zdiv_mono1 [of "x mod 1000000" 999999 10000] zdiv_mono1 [of "x mod 10000" 9999 100]
    by (simp_all add: zle_diff1_eq [symmetric])
  then have "gold (from_copper n) < 100" "silver (from_copper n) < 100" "copper (from_copper n) < 100"
    by (simp_all add: from_copper_def Let_def)
  then show ?thesis by (simp add: reduced_def)
qed

lemma base100_unique:
  fixes a b x y :: int
  assumes "a + 100 * x = b + 100 * y" "0 \<le> a" "a < 100" "0 \<le> b" "b < 100"
  shows "a = b \<and> x = y"
proof (cases x y rule: linorder_cases)
  case less
  with assms show ?thesis by linarith
next
  case equal
  with assms show ?thesis by simp
next
  case greater
  with assms show ?thesis by linarith
qed

lemma reduced_unique:
  assumes "reduced c" "reduced d" "coin_value c = coin_value d"
  shows "c = d"
proof -
  have val: "coin_value x = copper x + 100 * (silver x + 100 * (gold x + 100 * platinum x))" for x :: coins
    by (simp add: coin_value_def)
  have rng: "0 \<le> copper c" "copper c < 100" "0 \<le> copper d" "copper d < 100"
    "0 \<le> silver c" "silver c < 100" "0 \<le> silver d" "silver d < 100"
    "0 \<le> gold c" "gold c < 100" "0 \<le> gold d" "gold d < 100"
    using assms(1,2) by (simp_all add: reduced_def has_negative_def)
  note b1 = base100_unique [OF assms(3) [unfolded val] rng(1-4)]
  note b2 = base100_unique [OF conjunct2 [OF b1] rng(5-8)]
  note b3 = base100_unique [OF conjunct2 [OF b2] rng(9-12)]
  from b1 b2 b3 show ?thesis by (intro coins.equality) simp_all
qed

lemma from_copper_of_reduced: "reduced c \<Longrightarrow> from_copper (coin_value c) = c"
  using from_copper_reduced [of "coin_value c"] coin_value_nonneg [of c]
  by (intro reduced_unique) (simp_all add: reduced_def)

section \<open>What the operations do to the value\<close>

lemma add_each_ok: "purse_ok c \<Longrightarrow> purse_ok d \<Longrightarrow> purse_ok (add_each c d)"
  by (simp add: purse_ok_def has_negative_def fits64_def add_each_def sat64_def)

lemma add_each_not_negative: "\<not> has_negative c \<Longrightarrow> \<not> has_negative d \<Longrightarrow> \<not> has_negative (add_each c d)"
  by (simp add: has_negative_def add_each_def sat64_def)

lemma add_each_le: "\<not> has_negative c \<Longrightarrow> \<not> has_negative d \<Longrightarrow>
    coin_value (add_each c d) \<le> coin_value c + coin_value d"
  by (simp add: add_each_def coin_value_def has_negative_def sat64_def)

lemma sub_each_exact:
  assumes "purse_ok c" "\<not> has_negative d" "has_at_least c d"
  shows "purse_ok (sub_each c d) \<and> coin_value (sub_each c d) = coin_value c - coin_value d"
  using assms by (simp add: sub_each_def coin_value_def purse_ok_def has_negative_def has_at_least_def fits64_def)

lemma tier_count_adjust:
  "a \<le> 3 \<Longrightarrow> b \<le> 3 \<Longrightarrow>
     tier_count (adjust_tier c a d) b = (if a = b then sat64 (tier_count c b + d) else tier_count c b)"
  by (auto simp: tier_count_def adjust_tier_def)

text \<open>Exchange: the value is kept, and only whole coins of the source tier are consumed.\<close>

lemma tier_cases: "i \<le> 3 \<Longrightarrow> i = 0 \<or> i = Suc 0 \<or> i = 2 \<or> i = (3::nat)"
  by linarith

lemma tier_value_pos [simp]: "i \<le> 3 \<Longrightarrow> 0 < tier_value i"
  by (drule tier_cases) auto

lemma tier_value_bounds: "i \<le> 3 \<Longrightarrow> 1 \<le> tier_value i \<and> tier_value i \<le> 1000000"
  by (drule tier_cases) auto

lemma exchange_amounts:
  assumes "a \<le> 3" "b \<le> 3" "0 \<le> (q::int)"
  defines "v \<equiv> q * tier_value a"
  shows "(q - (v mod tier_value b) div tier_value a) * tier_value a = v div tier_value b * tier_value b"
    and "0 \<le> (v mod tier_value b) div tier_value a" "(v mod tier_value b) div tier_value a \<le> q"
proof -
  let ?s = "tier_value a" and ?t = "tier_value b"
  have pos: "0 < ?s" "0 < ?t" using assms by simp_all
  have "?s dvd ?t \<or> ?t dvd ?s"
    using tier_cases [OF assms(1)] tier_cases [OF assms(2)] by auto
  then have "?s dvd v mod ?t"
    unfolding v_def by (metis dvd_mod dvd_triv_right dvd_trans mod_0_imp_dvd mod_mod_trivial dvd_imp_mod_0 dvd_0_right)
  then have r: "(v mod ?t) div ?s * ?s = v mod ?t" by simp
  show "(q - (v mod ?t) div ?s) * ?s = v div ?t * ?t"
    using r by (simp add: left_diff_distrib v_def [symmetric] minus_mod_eq_div_mult)
  show "0 \<le> (v mod ?t) div ?s"
    using pos by (simp add: pos_imp_zdiv_nonneg_iff)
  have "0 \<le> v" using pos assms(3) by (simp add: v_def)
  then have "v mod ?t \<le> v" using pos by (simp add: zmod_le_nonneg_dividend)
  then have "(v mod ?t) div ?s \<le> v div ?s" using pos by (simp add: zdiv_mono1)
  also have "\<dots> = q" using pos by (simp add: v_def)
  finally show "(v mod ?t) div ?s \<le> q" .
qed

lemma coin_value_adjust:
  "a \<le> 3 \<Longrightarrow> coin_value (adjust_tier c a d)
     = coin_value c + (sat64 (tier_count c a + d) - tier_count c a) * tier_value a"
  by (drule tier_cases) (auto simp: adjust_tier_def tier_count_def coin_value_def)

lemma purse_ok_tiers: "purse_ok c \<longleftrightarrow> (\<forall>i\<le>3. 0 \<le> tier_count c i \<and> tier_count c i \<le> i64_max)"
proof
  assume "purse_ok c"
  then show "\<forall>i\<le>3. 0 \<le> tier_count c i \<and> tier_count c i \<le> i64_max"
    by (auto simp: tier_count_def dest: purse_okD)
next
  assume all: "\<forall>i\<le>3. 0 \<le> tier_count c i \<and> tier_count c i \<le> i64_max"
  from all [rule_format, of 0] all [rule_format, of 1] all [rule_format, of 2] all [rule_format, of 3]
  show "purse_ok c" by (simp add: purse_ok_def has_negative_def fits64_def tier_count_def)
qed

lemma adjust_tier_ok: "purse_ok c \<Longrightarrow> a \<le> 3 \<Longrightarrow> 0 \<le> tier_count c a + d \<Longrightarrow> purse_ok (adjust_tier c a d)"
  by (auto simp: purse_ok_tiers tier_count_adjust sat64_def)

lemma exchange_Inr:
  assumes ok: "purse_ok c" and q: "q \<le> u32_max" and ex: "exchange c a b q = Inr c'"
  obtains k n where "c' = adjust_tier (adjust_tier c a (- k)) b n"
    "k * tier_value a = n * tier_value b" "0 < n" "n \<le> 4294967295000000" "0 < k" "k \<le> int q"
    "k \<le> tier_count c a" "a \<noteq> b" "a \<le> 3" "b \<le> 3"
proof -
  define v k where "v = int q * tier_value a"
    and "k = int q - (v mod tier_value b) div tier_value a"
  have tiers: "a \<noteq> b" "a \<le> 3" "b \<le> 3" and cnt: "int q \<le> tier_count c a"
    using ex by (auto simp: exchange_def split: if_splits)
  have "0 \<le> v" using tiers by (simp add: v_def less_imp_le)
  have "v \<le> 4294967295 * 1000000"
    unfolding v_def using q tier_value_bounds [OF tiers(2)] by (intro mult_mono) simp_all
  with \<open>0 \<le> v\<close> have sat: "sat64 v = v" and le: "v \<le> 4294967295000000" by simp_all
  have res: "c' = adjust_tier (adjust_tier c a (- k)) b (v div tier_value b)" and nz: "v div tier_value b \<noteq> 0"
    using ex sat by (simp_all add: exchange_def Let_def k_def v_def split: if_splits)
  have pos: "0 < v div tier_value b"
    using nz \<open>0 \<le> v\<close> pos_imp_zdiv_nonneg_iff [OF tier_value_pos [OF tiers(3)], of v] by linarith
  have "v div tier_value b \<le> v"
    using tier_value_bounds [OF tiers(3)] \<open>0 \<le> v\<close> zdiv_mono2 [of v 1 "tier_value b"] by simp
  note amounts = exchange_amounts [OF tiers(2,3), of "int q", folded v_def, folded k_def]
  have eq: "k * tier_value a = v div tier_value b * tier_value b" using amounts(1) by simp
  then have "0 < k * tier_value a" using pos tiers(3) by simp
  then have "0 < k" using zero_less_mult_pos2 [OF _ tier_value_pos [OF tiers(2)]] by blast
  have "k \<le> int q" using amounts(2) by (simp add: k_def)
  show thesis
    using that [OF res eq pos _ \<open>0 < k\<close> \<open>k \<le> int q\<close> _ tiers] le \<open>v div tier_value b \<le> v\<close>
      cnt \<open>k \<le> int q\<close> by linarith
qed

lemma exchange_value_le:
  assumes "purse_ok c" "q \<le> u32_max" "exchange c a b q = Inr c'"
  shows "purse_ok c' \<and> coin_value c' \<le> coin_value c
    \<and> (tier_count c b + 4294967295000000 \<le> i64_max \<longrightarrow> coin_value c' = coin_value c)"
  using assms
proof (rule exchange_Inr)
  fix k n
  assume c': "c' = adjust_tier (adjust_tier c a (- k)) b n" and eq: "k * tier_value a = n * tier_value b"
    and n: "0 < n" "n \<le> 4294967295000000" and k: "0 < k" "k \<le> tier_count c a"
    and ab: "a \<noteq> b" "a \<le> 3" "b \<le> 3"
  have rng: "0 \<le> tier_count c i" "tier_count c i \<le> i64_max" if "i \<le> 3" for i
    using assms(1) that by (simp_all add: purse_ok_tiers)
  let ?m = "adjust_tier c a (- k)"
  have m: "purse_ok ?m" "coin_value ?m = coin_value c - k * tier_value a" "tier_count ?m b = tier_count c b"
    using assms(1) ab k rng [OF ab(2)]
    by (simp_all add: adjust_tier_ok coin_value_adjust tier_count_adjust)
  have "purse_ok c'"
    using m ab n rng [OF ab(3)] unfolding c' by (intro adjust_tier_ok [of ?m]) simp_all
  moreover have v: "coin_value c' = coin_value c + (sat64 (tier_count c b + n) - tier_count c b - n) * tier_value b"
    unfolding c' using ab m eq by (simp add: coin_value_adjust algebra_simps)
  moreover have "sat64 (tier_count c b + n) - tier_count c b - n \<le> 0"
    using n rng [OF ab(3)] by (simp add: sat64_def)
  then have "(sat64 (tier_count c b + n) - tier_count c b - n) * tier_value b \<le> 0"
    using tier_value_pos [OF ab(3)] by (simp add: mult_nonpos_nonneg less_imp_le)
  moreover have "sat64 (tier_count c b + n) = tier_count c b + n"
    if "tier_count c b + 4294967295000000 \<le> i64_max"
    using that n rng [OF ab(3)] by simp
  ultimately show ?thesis by simp
qed

text \<open>Spending: the state after each tier, and the final one.\<close>

definition in64 :: "int \<Rightarrow> bool" where
  "in64 n \<longleftrightarrow> 0 \<le> n \<and> n \<le> i64_max"

definition counts_value :: "int list \<Rightarrow> int" where
  "counts_value cs = cs ! 0 + 100 * cs ! 1 + 10000 * cs ! 2 + 1000000 * cs ! 3"

text \<open>Before tier \<open>i\<close>: four non-negative stacks; as long as something remains to be paid, the
  tiers below \<open>i\<close> are empty; what was paid is exactly what the stacks lost.\<close>

definition spend_inv :: "int \<Rightarrow> int \<Rightarrow> nat \<Rightarrow> int list \<times> int \<Rightarrow> bool" where
  "spend_inv v cost i st \<longleftrightarrow>
     length (fst st) = 4 \<and> list_all in64 (fst st) \<and> 0 \<le> snd st
     \<and> counts_value (fst st) + cost = v + snd st
     \<and> (snd st \<noteq> 0 \<longrightarrow> (\<forall>j<i. fst st ! j = 0))"

lemma length_4_cases:
  assumes "length xs = 4"
  obtains a b c d where "xs = [a, b, c, d]"
  using assms by (auto simp: length_Suc_conv numeral_eq_Suc)

lemma scatter_1: "scatter (Suc 0) x [a, b, c, d] = [a + x, b, c, d]"
  by simp

lemma scatter_2: "scatter 2 x [a, b, c, d] = [a + x mod 100, b + x div 100, c, d]"
  by (simp add: numeral_2_eq_2)

lemma scatter_3:
  "scatter 3 x [a, b, c, d] = [a + x mod 10000 mod 100, b + x mod 10000 div 100, c + x div 10000, d]"
  using tier_value_simps(3) by (simp add: numeral_3_eq_3 numeral_2_eq_2)

lemmas scatter_list = scatter_1 scatter_2 scatter_3

text \<open>The change put back is the change that was due, and it lands on non-negative stacks.\<close>

lemma scatter_value:
  assumes "i \<le> 3" "length cs = 4" "list_all in64 cs" "0 \<le> x" "0 < i"
    and empty: "\<forall>j<i. cs ! j = 0" "x \<le> 1000000"
  shows "counts_value (scatter i x cs) = counts_value cs + x \<and> length (scatter i x cs) = 4
    \<and> list_all in64 (scatter i x cs)"
proof -
  obtain a b c d where cs: "cs = [a, b, c, d]" using assms(2) by (rule length_4_cases)
  have low: "0 < i \<Longrightarrow> a = 0" "1 < i \<Longrightarrow> b = 0" "2 < i \<Longrightarrow> c = 0"
    using empty(1) [rule_format, of 0] empty(1) [rule_format, of 1] empty(1) [rule_format, of 2]
    by (simp_all add: cs)
  have rng: "0 \<le> c" "0 \<le> d" "c \<le> i64_max" "d \<le> i64_max" "0 \<le> b" "b \<le> i64_max"
    using assms(3) by (simp_all add: cs in64_def)
  from assms(1,5) consider "i = Suc 0" | "i = 2" | "i = 3" by linarith
  then show ?thesis
  proof cases
    case 1
    with assms(4) empty(2) low rng show ?thesis by (simp add: cs counts_value_def in64_def)
  next
    case 2
    define p q where "p = x mod 100" and "q = x div 100"
    have "p + 100 * q = x" "0 \<le> p" "0 \<le> q"
      using assms(4) by (simp_all add: p_def q_def pos_imp_zdiv_nonneg_iff)
    with 2 empty(2) low rng show ?thesis
      unfolding 2 cs scatter_list p_def [symmetric] q_def [symmetric]
      by (simp add: counts_value_def in64_def)
  next
    case 3
    define p q s where "p = x mod 10000 mod 100" and "q = x mod 10000 div 100" and "s = x div 10000"
    have "p + 100 * q = x mod 10000" "0 \<le> p" "0 \<le> q" by (simp_all add: p_def q_def pos_imp_zdiv_nonneg_iff)
    moreover have "x mod 10000 + 10000 * s = x" "0 \<le> s"
      using assms(4) by (simp_all add: s_def pos_imp_zdiv_nonneg_iff)
    ultimately have "p + 100 * q + 10000 * s = x" "0 \<le> p" "0 \<le> q" "0 \<le> s" by linarith+
    with 3 empty(2) low rng show ?thesis
      unfolding 3 cs scatter_list p_def [symmetric] q_def [symmetric] s_def [symmetric]
      by (simp add: counts_value_def in64_def)
  qed
qed

lemma counts_value_update:
  "length cs = 4 \<Longrightarrow> i \<le> 3 \<Longrightarrow> counts_value (cs[i := n]) = counts_value cs + (n - cs ! i) * tier_value i"
  by (drule tier_cases) (auto simp: counts_value_def)

lemma spend_tier_inv:
  assumes inv: "spend_inv v cost i (cs, r)" and i: "i \<le> 3"
  shows "spend_inv v cost (Suc i) (spend_tier i (cs, r))"
proof (cases "r = 0")
  case True
  with inv show ?thesis by (simp add: spend_tier_def spend_inv_def)
next
  case False
  define val w where "val = tier_value i" and "w = min (r div val) (cs ! i)"
  define cs1 r1 where "cs1 = cs[i := cs ! i - w]" and "r1 = r - w * val"
  have val: "0 < val" using i by (simp add: val_def)
  have cs: "length cs = 4" "list_all in64 cs" "0 < r" "counts_value cs + cost = v + r"
    "\<forall>j<i. cs ! j = 0"
    using inv False by (auto simp: spend_inv_def)
  have ci: "in64 (cs ! i)" "0 \<le> cs ! i" using cs i by (simp_all add: list_all_length in64_def)
  have w: "0 \<le> w" "w \<le> cs ! i" "w \<le> r div val"
    using ci cs(3) val by (simp_all add: w_def pos_imp_zdiv_nonneg_iff)
  have "w * val \<le> r div val * val" using w val by (simp add: mult_right_mono)
  also have "\<dots> \<le> r" using val by (simp add: minus_mod_eq_div_mult [symmetric])
  finally have r1: "0 \<le> r1" by (simp add: r1_def)
  have cs1: "length cs1 = 4" "list_all in64 cs1" "cs1 ! i = cs ! i - w"
    "counts_value cs1 + cost = v + r1" "\<forall>j<i. cs1 ! j = 0"
    using cs i w ci by (simp_all add: cs1_def r1_def list_all_update in64_def counts_value_update val_def algebra_simps)
  have step: "spend_tier i (cs, r) = (if r1 > 0 \<and> r1 < val \<and> cs1 ! i > 0
      then (scatter i (val - r1) (cs1[i := cs1 ! i - 1]), 0) else (cs1, r1))"
    using False by (simp add: spend_tier_def Let_def cs1_def r1_def w_def val_def)
  show ?thesis
  proof (cases "r1 > 0 \<and> r1 < val \<and> cs1 ! i > 0")
    case True
    then have "0 < i" by (cases i) (auto simp: val_def)
    moreover have "list_all in64 (cs1[i := cs1 ! i - 1])"
      using True cs1 w ci by (simp add: list_all_update in64_def)
    ultimately show ?thesis
      using True i cs1 r1 tier_value_bounds [OF i] scatter_value [of i "cs1[i := cs1 ! i - 1]" "val - r1"]
      by (simp add: step spend_inv_def counts_value_update val_def [symmetric])
  next
    case False
    have "cs1 ! i = 0" if "r1 \<noteq> 0"
    proof (cases "w = cs ! i")
      case True
      then show ?thesis by (simp add: cs1)
    next
      case neq: False
      then have "w = r div val" by (simp add: w_def min_def split: if_splits)
      then have "r1 = r mod val" by (simp add: r1_def minus_div_mult_eq_mod)
      then have "r1 < val" using val by simp
      with False that r1 w show ?thesis by (simp add: cs1)
    qed
    with False cs1 r1 show ?thesis by (auto simp: step spend_inv_def less_Suc_eq simp del: if_not_P)
  qed
qed

lemma spend_greedy_settles:
  assumes "purse_ok c" "0 \<le> cost" "cost \<le> coin_value c"
  obtains cs where "spend_greedy c cost = (cs, 0)" "length cs = 4" "list_all in64 cs"
    "counts_value cs = coin_value c - cost"
proof -
  have step: "spend_inv v k (Suc i) (spend_tier i st)" if "spend_inv v k i st" "i \<le> 3" for v k i st
    using that by (cases st) (simp add: spend_tier_inv)
  have "spend_inv (coin_value c) cost 0 ([copper c, silver c, gold c, platinum c], cost)"
    using assms purse_okD [OF assms(1)] by (simp add: spend_inv_def in64_def counts_value_def coin_value_def)
  from step [OF step [OF step [OF step [OF this]]]]
  have inv: "spend_inv (coin_value c) cost (Suc (Suc (Suc (Suc 0)))) (spend_greedy c cost)"
    by (simp add: spend_greedy_def numeral_2_eq_2 numeral_3_eq_3)
  obtain cs r where res: "spend_greedy c cost = (cs, r)" by (cases "spend_greedy c cost")
  have cs: "length cs = 4" "list_all in64 cs" "counts_value cs + cost = coin_value c + r" "0 \<le> r"
    using inv by (simp_all add: res spend_inv_def)
  have "r = 0"
  proof (rule ccontr)
    assume "r \<noteq> 0"
    then have "\<forall>j<4. cs ! j = 0" using inv by (simp add: res spend_inv_def)
    then have "counts_value cs = 0" by (simp add: counts_value_def)
    with cs assms(3) \<open>r \<noteq> 0\<close> show False by simp
  qed
  with that [OF res [unfolded \<open>r = 0\<close>]] cs show thesis by simp
qed

text \<open>An affordable cost is paid exactly, and the code's fallback branch is never needed.\<close>

lemma spend_paid:
  assumes "purse_ok c" "0 \<le> cost" "cost \<le> total_copper c"
  shows "fst (spend c cost) \<and> purse_ok (snd (spend c cost))
    \<and> coin_value (snd (spend c cost)) = coin_value c - cost"
proof -
  have "cost \<le> coin_value c" using assms total_copper_le_value by (force simp: purse_ok_def)
  from spend_greedy_settles [OF assms(1,2) this] obtain cs where res: "spend_greedy c cost = (cs, 0)"
    "length cs = 4" "list_all in64 cs" "counts_value cs = coin_value c - cost" .
  obtain a b d e where cs: "cs = [a, b, d, e]" using res(2) by (rule length_4_cases)
  show ?thesis
    using res assms
    by (simp add: spend_def cs counts_value_def coin_value_def purse_ok_def has_negative_def fits64_def in64_def)
qed

lemma spend_refused: "\<not> fst (spend c cost) \<Longrightarrow> snd (spend c cost) = c"
  by (auto simp: spend_def Let_def split: prod.splits if_splits)

lemma spend_True_iff: "fst (spend c cost) \<longleftrightarrow> 0 \<le> cost \<and> cost \<le> total_copper c"
  by (auto simp: spend_def Let_def split: prod.splits)

lemma spend_effect:
  assumes "purse_ok c"
  shows "purse_ok (snd (spend c cost)) \<and>
    coin_value (snd (spend c cost)) = coin_value c - (if fst (spend c cost) then cost else 0)"
  using assms spend_paid [of c cost] spend_refused [of c cost] spend_True_iff [of c cost]
  by (cases "fst (spend c cost)") simp_all

lemma pay_value_of_effect:
  assumes "purse_ok c"
  shows "purse_ok (snd (pay_value_of c w)) \<and>
    coin_value (snd (pay_value_of c w)) = coin_value c - (if fst (pay_value_of c w) then total_copper w else 0)"
  using assms spend_effect [of c "total_copper w"] by (simp add: pay_value_of_def)

lemma from_copper_ok: "n \<le> i64_max \<Longrightarrow> purse_ok (from_copper n)"
proof -
  assume n: "n \<le> i64_max"
  have "platinum (from_copper n) \<le> coin_value (from_copper n)"
    using from_copper_not_negative [of n] by (simp add: coin_value_def has_negative_def del: from_copper_value)
  with n show ?thesis
    using from_copper_reduced [of n] by (simp add: purse_ok_def fits64_def reduced_def)
qed

lemma add_payout_effect:
  assumes "purse_ok c" "n \<le> i64_max"
  shows "purse_ok (add_payout c n) \<and> coin_value (add_payout c n) \<le> coin_value c + max n 0"
proof -
  have ok: "purse_ok (from_copper (max n 0))" using assms(2) by (simp add: from_copper_ok)
  with assms(1) have "purse_ok (add_payout c n)" by (simp add: add_payout_def add_each_ok)
  with ok assms(1) add_each_le [of c "from_copper (max n 0)"] show ?thesis
    by (simp add: add_payout_def purse_ok_def)
qed

text \<open>Room for a payout: nothing saturates below this bound.\<close>

definition purse_room :: "int \<Rightarrow> coins \<Rightarrow> bool" where
  "purse_room n c \<longleftrightarrow> platinum c + n \<le> i64_max \<and> gold c + n \<le> i64_max
     \<and> silver c + n \<le> i64_max \<and> copper c + n \<le> i64_max"

lemma tier_le_value: "\<not> has_negative c \<Longrightarrow> platinum c \<le> coin_value c \<and> gold c \<le> coin_value c
    \<and> silver c \<le> coin_value c \<and> copper c \<le> coin_value c"
  by (simp add: has_negative_def coin_value_def)

lemma add_each_room:
  assumes "purse_ok c" "purse_ok d" "purse_room (coin_value d) c"
  shows "coin_value (add_each c d) = coin_value c + coin_value d"
proof -
  have "platinum c + platinum d \<le> i64_max" "gold c + gold d \<le> i64_max"
    "silver c + silver d \<le> i64_max" "copper c + copper d \<le> i64_max"
    using assms tier_le_value [of d] by (simp_all add: purse_room_def purse_ok_def)
  then show ?thesis
    using purse_okD [OF assms(1)] purse_okD [OF assms(2)] by (simp add: add_each_def coin_value_def)
qed

lemma add_payout_exact:
  assumes "purse_ok c" "n \<le> i64_max" "purse_room (max n 0) c"
  shows "coin_value (add_payout c n) = coin_value c + max n 0"
  using assms add_each_room [of c "from_copper (max n 0)"] from_copper_ok [of "max n 0"]
  by (simp add: add_payout_def)

end
