(* ===== verification/Money.thy ===== *)
theory Money
  imports Coins
begin

text \<open>The properties of the four-tier purse: affordability, payment, change and conversion.\<close>

definition demo_purse :: coins where
  "demo_purse = \<lparr>platinum = 1, gold = 0, silver = 3, copper = 7\<rparr>"

lemma demo_purse_ok: "purse_ok demo_purse" "coin_value demo_purse = 1000307"
  by (simp_all add: demo_purse_def purse_ok_def has_negative_def fits64_def coin_value_def)

text \<open>C28. Paying is all or nothing and exact: a purse pays a cost exactly when the cost is not negative and
  the purse covers it; then it is worth exactly that much less, change made across the tiers without
  a coin lost; otherwise it is untouched.  No tier goes negative or past its 64 bits.\<close>

theorem payment_is_exact:
  assumes "purse_ok c"
  shows "(fst (spend c cost) \<longleftrightarrow> 0 \<le> cost \<and> can_afford c cost) \<and> purse_ok (snd (spend c cost))
    \<and> coin_value (snd (spend c cost)) = coin_value c - (if fst (spend c cost) then cost else 0)
    \<and> (\<not> fst (spend c cost) \<longrightarrow> snd (spend c cost) = c)"
proof -
  have "snd (spend c cost) = c" if "\<not> fst (spend c cost)"
    using that by (auto simp: spend_def Let_def split: prod.splits if_splits)
  then show ?thesis using spend_effect [OF assms] by (simp add: spend_True_iff can_afford_def)
qed

theorem payment_is_exact_witness:
  "fst (spend demo_purse 999) \<and> coin_value (snd (spend demo_purse 999)) = 999308"
  using payment_is_exact [OF demo_purse_ok(1), of 999]
  by (simp add: demo_purse_ok can_afford_def demo_purse_def total_copper_def sat64_def coin_value_def)

text \<open>Converting coins at the bank never creates value, keeps the purse in range, and is exactly
  value preserving unless the target tier is within a hair of its 64-bit ceiling.\<close>

theorem exchange_keeps_value:
  assumes "purse_ok c" "q \<le> u32_max" "exchange c a b q = Inr c'"
  shows "purse_ok c' \<and> coin_value c' \<le> coin_value c
    \<and> (tier_count c b + 4294967295000000 \<le> i64_max \<longrightarrow> coin_value c' = coin_value c)"
  using assms by (rule exchange_value_le)

lemma demo_exchange: "exchange demo_purse 3 1 1 = Inr \<lparr>platinum = 0, gold = 0, silver = 10003, copper = 7\<rparr>"
  by (simp add: exchange_def demo_purse_def tier_count_def tier_value_def sat64_def Let_def adjust_tier_def)

theorem exchange_keeps_value_witness: "coin_value \<lparr>platinum = 0, gold = 0, silver = 10003, copper = 7\<rparr> = coin_value demo_purse"
  using exchange_keeps_value [OF demo_purse_ok(1) _ demo_exchange] by (simp add: demo_purse_def tier_count_def)

text \<open>Copper amounts and canonical purses are the same thing: \<open>from_copper\<close> gives, of every amount that is not
  negative, the one purse with fewer than a hundred copper, silver and gold that is worth it, and
  \<open>total_copper\<close> reads the amount back, up to the 64-bit ceiling.\<close>

theorem copper_roundtrip:
  assumes "0 \<le> n" "n \<le> i64_max"
  shows "reduced (from_copper n) \<and> total_copper (from_copper n) = n
    \<and> (\<forall>c. reduced c \<longrightarrow> coin_value c = n \<longrightarrow> c = from_copper n)"
proof -
  have "c = from_copper n" if "reduced c" "coin_value c = n" for c
    using reduced_unique [OF that(1) from_copper_reduced] that(2) assms(1) by simp
  moreover have "total_copper (from_copper n) = n"
    using total_copper_sat [of "from_copper n"] from_copper_reduced [of n] assms by (simp add: reduced_def sat64_def)
  ultimately show ?thesis using from_copper_reduced by blast
qed

theorem copper_roundtrip_witness: "total_copper (from_copper 1234567) = 1234567"
  using copper_roundtrip [of 1234567] by simp

end
