(* ===== verification/Trade.thy ===== *)
theory Trade
  imports InvPlace Coins
begin

text \<open>
  \<open>world/trade.rs\<close>: the open trade sessions and the one-session-per-player index.  A session holds
  references into its owners' inventories, never items.  The lemmas: the index and the sessions
  agree (\<open>manager_wf\<close>), every edit of an offer clears both accepts, and an offered slot is locked.
\<close>

definition TRADE_SLOTS :: nat where "TRADE_SLOTS = 8"

record offer =
  location :: string
  oslot :: nat
  offer_path :: string
  offer_count :: nat

record trade_side =
  cid :: nat
  offers :: "offer option list"
  side_coins :: coins
  accepted :: bool

record trade_session =
  side_a :: trade_side
  side_b :: trade_side

datatype trade_error = AlreadyOffered | AlreadyTrading | NoSuchSlot | NotTrading | PartnerBusy
  | SelfTrade | SlotEmpty | SlotTaken

fun trade_error_text :: "trade_error \<Rightarrow> string" where
  "trade_error_text AlreadyOffered = ''that item is already offered''"
| "trade_error_text AlreadyTrading = ''you are already trading''"
| "trade_error_text NoSuchSlot = ''no such trade slot''"
| "trade_error_text NotTrading = ''you are not trading''"
| "trade_error_text PartnerBusy = ''they are busy''"
| "trade_error_text SelfTrade = ''you cannot trade with yourself''"
| "trade_error_text SlotEmpty = ''that trade slot is empty''"
| "trade_error_text SlotTaken = ''that trade slot is taken''"

record trade_manager =
  sessions :: "(nat \<times> trade_session) list"
  by_cid :: "(nat \<times> nat) list"
  next_id :: nat

definition trade_manager_new :: trade_manager where
  "trade_manager_new = \<lparr>sessions = [], by_cid = [], next_id = 0\<rparr>"

definition trade_side_new :: "nat \<Rightarrow> trade_side" where
  "trade_side_new c = \<lparr>cid = c, offers = replicate TRADE_SLOTS None, side_coins = coins_ZERO, accepted = False\<rparr>"

definition offered_slots :: "trade_side \<Rightarrow> offer list" where
  "offered_slots s = concat (map (\<lambda>x. case x of None \<Rightarrow> [] | Some off \<Rightarrow> [off]) (offers s))"

definition side_of :: "nat \<Rightarrow> trade_session \<Rightarrow> trade_side option" where
  "side_of c s = (if cid (side_a s) = c then Some (side_a s)
                  else if cid (side_b s) = c then Some (side_b s) else None)"

text \<open>\<open>side_of_mut\<close>: an assignment through the reference it returns.\<close>

definition set_side :: "nat \<Rightarrow> trade_side \<Rightarrow> trade_session \<Rightarrow> trade_session" where
  "set_side c x s = (if cid (side_a s) = c then s\<lparr>side_a := x\<rparr>
                     else if cid (side_b s) = c then s\<lparr>side_b := x\<rparr> else s)"

definition clear_accepts :: "trade_session \<Rightarrow> trade_session" where
  "clear_accepts s = s\<lparr>side_a := (side_a s)\<lparr>accepted := False\<rparr>, side_b := (side_b s)\<lparr>accepted := False\<rparr>\<rparr>"

text \<open>\<open>next_id\<close> is a \<open>u64\<close>; it counts sessions opened since the server started.\<close>

definition trade_open :: "nat \<Rightarrow> nat \<Rightarrow> trade_manager \<Rightarrow> trade_error + trade_manager" where
  "trade_open a b m =
     (if a = b then Inl SelfTrade
      else if map_of (by_cid m) a \<noteq> None then Inl AlreadyTrading
      else if map_of (by_cid m) b \<noteq> None then Inl PartnerBusy
      else
        let sid = next_id m in
        Inr (m\<lparr>next_id := sid + 1,
               sessions := AList.update sid \<lparr>side_a = trade_side_new a, side_b = trade_side_new b\<rparr> (sessions m),
               by_cid := AList.update b sid (AList.update a sid (by_cid m))\<rparr>))"

definition session_of :: "nat \<Rightarrow> trade_manager \<Rightarrow> trade_session option" where
  "session_of c m = (case map_of (by_cid m) c of None \<Rightarrow> None | Some sid \<Rightarrow> map_of (sessions m) sid)"

text \<open>\<open>session_of_mut\<close>: an assignment to the session it finds.\<close>

definition set_session :: "nat \<Rightarrow> trade_session \<Rightarrow> trade_manager \<Rightarrow> trade_manager" where
  "set_session c s m =
     (case map_of (by_cid m) c of None \<Rightarrow> m | Some sid \<Rightarrow> m\<lparr>sessions := AList.update sid s (sessions m)\<rparr>)"

definition offer_item :: "nat \<Rightarrow> nat \<Rightarrow> offer \<Rightarrow> trade_manager \<Rightarrow> trade_error + trade_manager" where
  "offer_item c window_slot off m =
     (case session_of c m of
        None \<Rightarrow> Inl NotTrading
      | Some session \<Rightarrow>
          if window_slot \<ge> TRADE_SLOTS then Inl NoSuchSlot
          else case side_of c session of
            None \<Rightarrow> Inl NotTrading
          | Some side \<Rightarrow>
              if list_ex (\<lambda>x. location x = location off \<and> oslot x = oslot off) (offered_slots side)
              then Inl AlreadyOffered
              else if offers side ! window_slot \<noteq> None then Inl SlotTaken
              else Inr (set_session c
                     (clear_accepts (set_side c (side\<lparr>offers := (offers side)[window_slot := Some off]\<rparr>) session)) m))"

definition retrieve_item :: "nat \<Rightarrow> nat \<Rightarrow> trade_manager \<Rightarrow> trade_error + trade_manager" where
  "retrieve_item c window_slot m =
     (case session_of c m of
        None \<Rightarrow> Inl NotTrading
      | Some session \<Rightarrow>
          if window_slot \<ge> TRADE_SLOTS then Inl NoSuchSlot
          else case side_of c session of
            None \<Rightarrow> Inl NotTrading
          | Some side \<Rightarrow>
              if offers side ! window_slot = None then Inl SlotEmpty
              else Inr (set_session c
                     (clear_accepts (set_side c (side\<lparr>offers := (offers side)[window_slot := None]\<rparr>) session)) m))"

definition offer_coins :: "nat \<Rightarrow> coin_amount \<Rightarrow> trade_manager \<Rightarrow> trade_error + trade_manager" where
  "offer_coins c amount m =
     (case session_of c m of
        None \<Rightarrow> Inl NotTrading
      | Some session \<Rightarrow>
          (case side_of c session of
             None \<Rightarrow> Inl NotTrading
           | Some side \<Rightarrow>
               Inr (set_session c
                      (clear_accepts (set_side c (side\<lparr>side_coins := coin_amount_get amount\<rparr>) session)) m)))"

definition trade_accept :: "nat \<Rightarrow> trade_manager \<Rightarrow> trade_error + (bool \<times> trade_manager)" where
  "trade_accept c m =
     (case session_of c m of
        None \<Rightarrow> Inl NotTrading
      | Some session \<Rightarrow>
          (case side_of c session of
             None \<Rightarrow> Inl NotTrading
           | Some side \<Rightarrow>
               let session' = set_side c (side\<lparr>accepted := True\<rparr>) session
               in Inr (accepted (side_a session') \<and> accepted (side_b session'), set_session c session' m)))"

definition clear_accepts_of :: "nat \<Rightarrow> trade_manager \<Rightarrow> trade_manager" where
  "clear_accepts_of c m =
     (case session_of c m of None \<Rightarrow> m | Some s \<Rightarrow> set_session c (clear_accepts s) m)"

definition trade_close :: "nat \<Rightarrow> trade_manager \<Rightarrow> trade_session option \<times> trade_manager" where
  "trade_close c m =
     (case map_of (by_cid m) c of
        None \<Rightarrow> (None, m)
      | Some sid \<Rightarrow>
          let m1 = m\<lparr>by_cid := AList.delete c (by_cid m)\<rparr> in
          case map_of (sessions m1) sid of
            None \<Rightarrow> (None, m1)
          | Some session \<Rightarrow>
              (Some session,
               m1\<lparr>sessions := AList.delete sid (sessions m1),
                  by_cid := AList.delete (cid (side_b session)) (AList.delete (cid (side_a session)) (by_cid m1))\<rparr>))"

text \<open>The bag key \<open>is_locked\<close> reads off a location is any \<open>u32\<close>, wider than \<open>parse_bag_location\<close>.\<close>

definition lock_bag_key :: "string \<Rightarrow> nat option" where
  "lock_bag_key loc = (case strip_prefix ''bag_'' loc of None \<Rightarrow> None | Some k \<Rightarrow> parse_u32 k)"

definition offer_locks :: "offer \<Rightarrow> string \<Rightarrow> nat \<Rightarrow> bool" where
  "offer_locks x loc slot \<longleftrightarrow>
     (location x = loc \<and> oslot x = slot)
     \<or> (loc = ''base'' \<and> lock_bag_key (location x) = Some slot)
     \<or> (location x = ''base'' \<and> lock_bag_key loc = Some (oslot x))"

definition is_locked :: "nat \<Rightarrow> string \<Rightarrow> nat \<Rightarrow> trade_manager \<Rightarrow> bool" where
  "is_locked c loc slot m =
     (case session_of c m of
        None \<Rightarrow> False
      | Some s \<Rightarrow> (case side_of c s of
                    None \<Rightarrow> False
                  | Some side \<Rightarrow> list_ex (\<lambda>x. offer_locks x loc slot) (offered_slots side)))"

definition open_session_cids :: "trade_manager \<Rightarrow> (nat \<times> nat) list" where
  "open_session_cids m = map (\<lambda>(sid, s). (cid (side_a s), cid (side_b s))) (sessions m)"

section \<open>The index and the sessions agree\<close>

text \<open>
  Every index entry names a live session that player is a side of; every session is between two
  different players, both indexed to it; ids are below \<open>next_id\<close>; a window has its eight slots and
  no reference twice.
\<close>

definition side_wf :: "trade_side \<Rightarrow> bool" where
  "side_wf s \<longleftrightarrow> length (offers s) = TRADE_SLOTS \<and> \<not> has_negative (side_coins s)
     \<and> distinct (map (\<lambda>x. (location x, oslot x)) (offered_slots s))"

definition session_wf :: "nat \<Rightarrow> trade_session \<Rightarrow> (nat \<times> nat) list \<Rightarrow> bool" where
  "session_wf sid s m \<longleftrightarrow> cid (side_a s) \<noteq> cid (side_b s)
     \<and> map_of m (cid (side_a s)) = Some sid \<and> map_of m (cid (side_b s)) = Some sid
     \<and> side_wf (side_a s) \<and> side_wf (side_b s)"

definition manager_wf :: "trade_manager \<Rightarrow> bool" where
  "manager_wf m \<longleftrightarrow> distinct (map fst (sessions m)) \<and> distinct (map fst (by_cid m))
     \<and> list_all (\<lambda>(sid, s). sid < next_id m \<and> session_wf sid s (by_cid m)) (sessions m)
     \<and> list_all (\<lambda>(c, sid). (case map_of (sessions m) sid of
            None \<Rightarrow> False | Some s \<Rightarrow> c = cid (side_a s) \<or> c = cid (side_b s))) (by_cid m)"

lemma manager_wf_iff:
  "manager_wf m \<longleftrightarrow> distinct (map fst (sessions m)) \<and> distinct (map fst (by_cid m))
     \<and> (\<forall>sid s. map_of (sessions m) sid = Some s \<longrightarrow> sid < next_id m \<and> session_wf sid s (by_cid m))
     \<and> (\<forall>c sid. map_of (by_cid m) c = Some sid \<longrightarrow>
          (\<exists>s. map_of (sessions m) sid = Some s \<and> (c = cid (side_a s) \<or> c = cid (side_b s))))"
proof -
  have "distinct (map fst (sessions m)) \<Longrightarrow>
      list_all (\<lambda>(sid, s). sid < next_id m \<and> session_wf sid s (by_cid m)) (sessions m)
      \<longleftrightarrow> (\<forall>sid s. map_of (sessions m) sid = Some s \<longrightarrow> sid < next_id m \<and> session_wf sid s (by_cid m))"
    by (rule list_all_map_of)
  moreover have "(case map_of (sessions m) sid of
            None \<Rightarrow> False | Some s \<Rightarrow> c = cid (side_a s) \<or> c = cid (side_b s))
      \<longleftrightarrow> (\<exists>s. map_of (sessions m) sid = Some s \<and> (c = cid (side_a s) \<or> c = cid (side_b s)))" for c sid
    by (cases "map_of (sessions m) sid") auto
  moreover have "distinct (map fst (by_cid m)) \<Longrightarrow> list_all (\<lambda>(c, sid). case map_of (sessions m) sid of
            None \<Rightarrow> False | Some s \<Rightarrow> c = cid (side_a s) \<or> c = cid (side_b s)) (by_cid m)
      \<longleftrightarrow> (\<forall>c sid. map_of (by_cid m) c = Some sid \<longrightarrow> (case map_of (sessions m) sid of
            None \<Rightarrow> False | Some s \<Rightarrow> c = cid (side_a s) \<or> c = cid (side_b s)))"
    by (rule list_all_map_of)
  ultimately show ?thesis unfolding manager_wf_def by auto
qed

lemma manager_wf_new: "manager_wf trade_manager_new"
  by (simp add: manager_wf_def trade_manager_new_def)

lemma side_new [simp]: "side_wf (trade_side_new c)" "cid (trade_side_new c) = c"
  by (simp_all add: side_wf_def trade_side_new_def offered_slots_def coins_ZERO_def has_negative_def)

lemma trade_open_wf:
  assumes "manager_wf m" "trade_open a b m = Inr m'"
  shows "manager_wf m'"
proof -
  have ab: "a \<noteq> b" "map_of (by_cid m) a = None" "map_of (by_cid m) b = None"
    using assms(2) by (auto simp: trade_open_def split: if_splits)
  let ?s = "\<lparr>side_a = trade_side_new a, side_b = trade_side_new b\<rparr>"
  have out: "m' = m\<lparr>next_id := next_id m + 1, sessions := AList.update (next_id m) ?s (sessions m),
      by_cid := AList.update b (next_id m) (AList.update a (next_id m) (by_cid m))\<rparr>"
    using assms(2) ab by (auto simp: trade_open_def Let_def)
  have fresh: "map_of (sessions m) (next_id m) = None"
    using assms(1) by (cases "map_of (sessions m) (next_id m)") (auto simp: manager_wf_iff)
  have old: "session_wf sid s (by_cid m')" "sid < next_id m"
    if "map_of (sessions m) sid = Some s" for sid s
  proof -
    have "session_wf sid s (by_cid m)" "sid < next_id m" using assms(1) that by (simp_all add: manager_wf_iff)
    then show "session_wf sid s (by_cid m')" "sid < next_id m" using ab by (auto simp: session_wf_def out)
  qed
  show ?thesis
    unfolding manager_wf_iff
  proof (intro conjI allI impI)
    fix sid s
    assume s: "map_of (sessions m') sid = Some s"
    show "sid < next_id m'" using s old(2) [of sid s] by (auto simp: out split: if_splits)
    show "session_wf sid s (by_cid m')"
      using s old(1) [of sid s] ab(1) by (auto simp: out session_wf_def split: if_splits)
  next
    fix c sid
    assume "map_of (by_cid m') c = Some sid"
    then show "\<exists>s. map_of (sessions m') sid = Some s \<and> (c = cid (side_a s) \<or> c = cid (side_b s))"
      using assms(1) fresh by (fastforce simp: out manager_wf_iff split: if_splits)
  qed (use assms(1) in \<open>simp_all add: out manager_wf_iff\<close>)
qed

text \<open>Editing one side of a live session.\<close>

lemma session_of_wf:
  assumes "manager_wf m" "session_of c m = Some s"
  obtains sid where "map_of (by_cid m) c = Some sid" "map_of (sessions m) sid = Some s"
    "session_wf sid s (by_cid m)" "c = cid (side_a s) \<or> c = cid (side_b s)"
  using assms by (fastforce simp: session_of_def manager_wf_iff split: option.splits)

lemma side_of_live:
  assumes "manager_wf m" "session_of c m = Some s"
  shows "\<exists>side. side_of c s = Some side \<and> cid side = c \<and> side_wf side"
  using session_of_wf [OF assms] by (auto simp: side_of_def session_wf_def)

lemma set_session_wf:
  assumes wf: "manager_wf m" and live: "session_of c m = Some s"
    and same: "cid (side_a s') = cid (side_a s)" "cid (side_b s') = cid (side_b s)"
    and sides: "side_wf (side_a s')" "side_wf (side_b s')"
  shows "manager_wf (set_session c s' m)"
proof -
  obtain sid where sid: "map_of (by_cid m) c = Some sid" "map_of (sessions m) sid = Some s" "session_wf sid s (by_cid m)"
    using wf live by (rule session_of_wf)
  have eq: "set_session c s' m = m\<lparr>sessions := AList.update sid s' (sessions m)\<rparr>" using sid by (simp add: set_session_def)
  have "session_wf sid s' (by_cid m)" using sid(3) same sides by (simp add: session_wf_def)
  moreover have "sid < next_id m" using wf sid(2) by (simp add: manager_wf_iff)
  ultimately show ?thesis
    using wf sid(2) same unfolding eq manager_wf_iff by (auto split: if_splits) (metis option.inject)
qed

lemma edit_wf:
  assumes wf: "manager_wf m" and live: "session_of c m = Some s" and side: "side_of c s = Some x"
    and new: "side_wf x'" "cid x' = cid x"
  shows "manager_wf (set_session c (clear_accepts (set_side c x' s)) m)"
    and "manager_wf (set_session c (set_side c x' s) m)"
proof -
  have sw: "side_wf (side_a s)" "side_wf (side_b s)" "cid (side_a s) \<noteq> cid (side_b s)"
    using session_of_wf [OF wf live] by (auto simp: session_wf_def)
  have acc: "side_wf (y\<lparr>accepted := False\<rparr>) = side_wf y" for y by (simp add: side_wf_def offered_slots_def)
  show "manager_wf (set_session c (clear_accepts (set_side c x' s)) m)"
    "manager_wf (set_session c (set_side c x' s) m)"
    using sw side new
    by (intro set_session_wf [OF wf live]; auto simp: clear_accepts_def set_side_def side_of_def acc split: if_splits)+
qed

text \<open>The offers of a window, as its filled cells.\<close>

definition filled :: "'a option list \<Rightarrow> 'a list" where
  "filled xs = concat (map (\<lambda>x. case x of None \<Rightarrow> [] | Some y \<Rightarrow> [y]) xs)"

lemma offered_slots_filled: "offered_slots s = filled (offers s)"
  by (simp add: offered_slots_def filled_def)

lemma filled_update:
  assumes "i < length xs"
  shows "\<exists>pre post. filled xs = pre @ filled [xs ! i] @ post \<and> filled (xs[i := c]) = pre @ filled [c] @ post"
proof -
  have app: "filled (as @ bs) = filled as @ filled bs" for as bs :: "'a option list"
    by (simp add: filled_def)
  have split: "xs[i := x] = take i xs @ [x] @ drop (Suc i) xs" for x
    using assms by (simp add: upd_conv_take_nth_drop)
  have "filled (xs[i := x]) = filled (take i xs) @ filled [x] @ filled (drop (Suc i) xs)" for x
    unfolding split app ..
  from this [of c] this [of "xs ! i"] show ?thesis by (metis list_update_id)
qed

lemma filled_simps [simp]: "filled [None] = []" "filled [Some x] = [x]"
  by (simp_all add: filled_def)

lemma offer_item_wf:
  assumes wf: "manager_wf m" and res: "offer_item c w off m = Inr m'"
  shows "manager_wf m'"
proof -
  obtain s x where s: "session_of c m = Some s" "side_of c s = Some x" "w < TRADE_SLOTS"
    and fresh: "\<not> list_ex (\<lambda>y. location y = location off \<and> oslot y = oslot off) (offered_slots x)" "offers x ! w = None"
    and out: "m' = set_session c (clear_accepts (set_side c (x\<lparr>offers := (offers x)[w := Some off]\<rparr>) s)) m"
    using res by (auto simp: offer_item_def split: option.splits if_splits)
  have x: "side_wf x" using side_of_live [OF wf s(1)] s(2) by simp
  obtain pre post where f: "filled (offers x) = pre @ post" "filled ((offers x)[w := Some off]) = pre @ off # post"
    using filled_update [of w "offers x" "Some off"] s(3) x fresh(2) by (auto simp: side_wf_def)
  have "side_wf (x\<lparr>offers := (offers x)[w := Some off]\<rparr>)"
    using x fresh(1) f by (auto simp: side_wf_def offered_slots_filled list_ex_iff)
  then show ?thesis unfolding out by (intro edit_wf(1) [OF wf s(1,2)]) simp_all
qed

lemma retrieve_item_wf:
  assumes wf: "manager_wf m" and res: "retrieve_item c w m = Inr m'"
  shows "manager_wf m'"
proof -
  obtain s x y where s: "session_of c m = Some s" "side_of c s = Some x" "w < TRADE_SLOTS" "offers x ! w = Some y"
    and out: "m' = set_session c (clear_accepts (set_side c (x\<lparr>offers := (offers x)[w := None]\<rparr>) s)) m"
    using res by (auto simp: retrieve_item_def split: option.splits if_splits)
  have x: "side_wf x" using side_of_live [OF wf s(1)] s(2) by simp
  obtain pre post where f: "filled (offers x) = pre @ y # post" "filled ((offers x)[w := None]) = pre @ post"
    using filled_update [of w "offers x" None] s(3,4) x by (auto simp: side_wf_def)
  have "side_wf (x\<lparr>offers := (offers x)[w := None]\<rparr>)"
    using x f by (auto simp: side_wf_def offered_slots_filled)
  then show ?thesis unfolding out by (intro edit_wf(1) [OF wf s(1,2)]) simp_all
qed

lemma offer_coins_wf:
  assumes wf: "manager_wf m" and res: "offer_coins c amount m = Inr m'"
  shows "manager_wf m'"
proof -
  obtain s x where s: "session_of c m = Some s" "side_of c s = Some x"
    and out: "m' = set_session c (clear_accepts (set_side c (x\<lparr>side_coins := coin_amount_get amount\<rparr>) s)) m"
    using res by (auto simp: offer_coins_def split: option.splits)
  have "side_wf (x\<lparr>side_coins := coin_amount_get amount\<rparr>)"
    using side_of_live [OF wf s(1)] s(2) coin_amount_get [of amount] by (simp add: side_wf_def offered_slots_filled)
  then show ?thesis unfolding out by (intro edit_wf(1) [OF wf s]) simp_all
qed

lemma trade_accept_wf:
  assumes wf: "manager_wf m" and res: "trade_accept c m = Inr (b, m')"
  shows "manager_wf m'"
proof -
  obtain s x where s: "session_of c m = Some s" "side_of c s = Some x"
    and out: "m' = set_session c (set_side c (x\<lparr>accepted := True\<rparr>) s) m"
    using res by (auto simp: trade_accept_def Let_def split: option.splits)
  have "side_wf (x\<lparr>accepted := True\<rparr>)"
    using side_of_live [OF wf s(1)] s(2) by (simp add: side_wf_def offered_slots_filled)
  then show ?thesis unfolding out by (intro edit_wf(2) [OF wf s]) simp_all
qed

lemma clear_accepts_of_wf:
  assumes "manager_wf m"
  shows "manager_wf (clear_accepts_of c m)"
proof (cases "session_of c m")
  case (Some s)
  have sides: "side_wf (side_a s)" "side_wf (side_b s)"
    using session_of_wf [OF assms Some] by (auto simp: session_wf_def)
  then have "side_wf (side_a (clear_accepts s))" "side_wf (side_b (clear_accepts s))"
    by (simp_all add: clear_accepts_def side_wf_def offered_slots_filled)
  then show ?thesis
    using set_session_wf [OF assms Some, of "clear_accepts s"] Some
    by (simp add: clear_accepts_of_def) (simp add: clear_accepts_def)
qed (simp add: clear_accepts_of_def assms)

text \<open>Closing frees both sides, and only them.\<close>

lemma trade_close_effect:
  assumes wf: "manager_wf m" and res: "trade_close c m = (Some s, m')"
  shows "manager_wf m' \<and> session_of c m = Some s \<and> session_of (cid (side_a s)) m' = None \<and> session_of (cid (side_b s)) m' = None
    \<and> (\<forall>d. d \<noteq> cid (side_a s) \<longrightarrow> d \<noteq> cid (side_b s) \<longrightarrow> session_of d m' = session_of d m)"
proof -
  obtain sid where sid: "map_of (by_cid m) c = Some sid" "map_of (sessions m) sid = Some s"
    using res by (auto simp: trade_close_def Let_def split: option.splits)
  have sw: "session_wf sid s (by_cid m)" "c = cid (side_a s) \<or> c = cid (side_b s)"
    using wf sid by (force simp: manager_wf_iff)+
  have idx: "map_of (by_cid m') d = (if d = cid (side_a s) \<or> d = cid (side_b s) then None else map_of (by_cid m) d)"
    and ses: "map_of (sessions m') i = (if i = sid then None else map_of (sessions m) i)"
    and dist: "distinct (map fst (sessions m'))" "distinct (map fst (by_cid m'))" "next_id m' = next_id m" for d i
    using res sid sw(2) wf by (auto simp: trade_close_def Let_def manager_wf_def)
  have other: "i \<noteq> sid" if "map_of (by_cid m) d = Some i" "d \<noteq> cid (side_a s)" "d \<noteq> cid (side_b s)" for d i
  proof -
    have "\<exists>r. map_of (sessions m) i = Some r \<and> (d = cid (side_a r) \<or> d = cid (side_b r))"
      using wf that(1) unfolding manager_wf_iff by blast
    with that(2,3) sid(2) show ?thesis by auto
  qed
  have keep: "cid (side_a r) \<noteq> cid (side_a s) \<and> cid (side_a r) \<noteq> cid (side_b s)
      \<and> cid (side_b r) \<noteq> cid (side_a s) \<and> cid (side_b r) \<noteq> cid (side_b s)"
    if "map_of (sessions m) i = Some r" "i \<noteq> sid" for i r
  proof -
    have "session_wf i r (by_cid m)" using wf that(1) unfolding manager_wf_iff by blast
    with sw(1) that(2) show ?thesis unfolding session_wf_def by force
  qed
  have "manager_wf m'"
    unfolding manager_wf_iff
  proof (intro conjI allI impI)
    fix i r
    assume r: "map_of (sessions m') i = Some r"
    then have old: "map_of (sessions m) i = Some r" "i \<noteq> sid" by (auto simp: ses split: if_splits)
    show "i < next_id m'" "session_wf i r (by_cid m')"
      using wf old keep [OF old] by (auto simp: manager_wf_iff session_wf_def idx dist(3))
  next
    fix d i
    assume "map_of (by_cid m') d = Some i"
    then show "\<exists>r. map_of (sessions m') i = Some r \<and> (d = cid (side_a r) \<or> d = cid (side_b r))"
      using wf other by (auto simp: idx ses manager_wf_iff split: if_splits)
  qed (simp_all add: dist)
  moreover have "session_of d m' = session_of d m" if "d \<noteq> cid (side_a s)" "d \<noteq> cid (side_b s)" for d
    using that other by (auto simp: session_of_def idx ses split: option.splits)
  ultimately show ?thesis using sid by (simp add: session_of_def idx)
qed

lemma trade_close_None:
  assumes "manager_wf m" "trade_close c m = (None, m')"
  shows "m' = m \<and> session_of c m = None"
  using assms by (fastforce simp: trade_close_def Let_def manager_wf_iff session_of_def split: option.splits)

section \<open>Accepts and locks\<close>

text \<open>After any edit neither side stands accepted.\<close>

lemma session_of_set_session:
  "manager_wf m \<Longrightarrow> session_of c m = Some s \<Longrightarrow> session_of c (set_session c s' m) = Some s'"
  by (auto simp: session_of_def set_session_def split: option.splits)

definition accepts_clear :: "nat \<Rightarrow> trade_manager \<Rightarrow> bool" where
  "accepts_clear c m = (case session_of c m of None \<Rightarrow> True | Some s \<Rightarrow> \<not> accepted (side_a s) \<and> \<not> accepted (side_b s))"

lemma edits_clear_accepts:
  assumes "manager_wf m"
  shows "offer_item c w off m = Inr m' \<Longrightarrow> accepts_clear c m'"
    and "retrieve_item c w m = Inr m' \<Longrightarrow> accepts_clear c m'"
    and "offer_coins c amount m = Inr m' \<Longrightarrow> accepts_clear c m'"
    and "accepts_clear c (clear_accepts_of c m)"
  using assms
  by (auto simp: offer_item_def retrieve_item_def offer_coins_def clear_accepts_of_def accepts_clear_def
      session_of_set_session clear_accepts_def split: option.splits if_splits)

text \<open>A slot offered is locked, and so is the base slot of the bag it sits in.\<close>

lemma lock_bag_key_bag_loc: "k \<le> u32_max \<Longrightarrow> lock_bag_key (bag_loc k) = Some k"
  by (simp only: lock_bag_key_def bag_loc_def strip_prefix_append option.case parse_show_nat)

lemma offered_locked:
  assumes "session_of c m = Some s" "side_of c s = Some x" "off \<in> set (offered_slots x)"
  shows "is_locked c (location off) (oslot off) m"
    and "location off = bag_loc k \<Longrightarrow> k \<le> u32_max \<Longrightarrow> is_locked c ''base'' k m"
    and "location off = ''base'' \<Longrightarrow> oslot off \<le> u32_max \<Longrightarrow> is_locked c (bag_loc (oslot off)) j m"
proof -
  have lock: "offer_locks off l i \<Longrightarrow> is_locked c l i m" for l i
    using assms by (auto simp: is_locked_def list_ex_iff)
  show "is_locked c (location off) (oslot off) m" by (rule lock) (simp add: offer_locks_def)
  show "is_locked c ''base'' k m" if "location off = bag_loc k" "k \<le> u32_max"
    by (rule lock) (simp add: offer_locks_def that lock_bag_key_bag_loc)
  show "is_locked c (bag_loc (oslot off)) j m" if "location off = ''base''" "oslot off \<le> u32_max"
    by (rule lock) (simp add: offer_locks_def that lock_bag_key_bag_loc)
qed

end
