(* ===== verification/GroupState.thy ===== *)
theory GroupState
  imports Prelude
begin

text \<open>
  \<open>world/groups.rs\<close>: the ephemeral groups, the member-to-group index, the pending invites and the
  round-robin loot pointer.  The lemmas: the index and the rosters agree in every reachable state
  (\<open>groups_wf\<close>, by rule induction over the operations), a group always has its leader among its
  members, and the loot rotation is fair.
\<close>

datatype loot_mode = FreeForAll | RoundRobin

definition loot_mode_to_u8 :: "loot_mode \<Rightarrow> nat" where
  "loot_mode_to_u8 m = (case m of RoundRobin \<Rightarrow> 0 | FreeForAll \<Rightarrow> 1)"

definition loot_mode_from_u8 :: "nat \<Rightarrow> loot_mode" where
  "loot_mode_from_u8 v = (if v = 1 then FreeForAll else RoundRobin)"

record group =
  gid :: nat
  leader :: nat
  members :: "nat list"
  mode :: loot_mode
  loot_turn :: nat

record group_manager =
  next_gid :: nat
  groups :: "(nat \<times> group) list"
  member_to_group :: "(nat \<times> nat) list"
  pending_invites :: "(nat \<times> (nat \<times> nat)) list"

definition group_manager_new :: group_manager where
  "group_manager_new = \<lparr>next_gid = 1, groups = [], member_to_group = [], pending_invites = []\<rparr>"

definition group_for_or_new :: "nat \<Rightarrow> group_manager \<Rightarrow> nat \<times> group_manager" where
  "group_for_or_new inviter gm =
     (case map_of (member_to_group gm) inviter of
        Some g \<Rightarrow> (g, gm)
      | None \<Rightarrow>
          let g = next_gid gm in
          (g, gm\<lparr>next_gid := g + 1,
                 groups := AList.update g
                   \<lparr>gid = g, leader = inviter, members = [inviter], mode = RoundRobin, loot_turn = 0\<rparr> (groups gm),
                 member_to_group := AList.update inviter g (member_to_group gm)\<rparr>))"

definition record_invite :: "nat \<Rightarrow> nat \<Rightarrow> group_manager \<Rightarrow> nat \<times> group_manager" where
  "record_invite inviter invitee gm =
     (let (g, gm1) = group_for_or_new inviter gm
      in (g, gm1\<lparr>pending_invites := AList.update invitee (inviter, g) (pending_invites gm1)\<rparr>))"

definition group_accept :: "nat \<Rightarrow> nat \<Rightarrow> group_manager \<Rightarrow> nat option \<times> group_manager" where
  "group_accept invitee inviter gm =
     (case map_of (pending_invites gm) invitee of
        None \<Rightarrow> (None, gm)
      | Some (recorded_inviter, g) \<Rightarrow>
          let gm1 = gm\<lparr>pending_invites := AList.delete invitee (pending_invites gm)\<rparr> in
          if recorded_inviter \<noteq> inviter then (None, gm1)
          else if map_of (member_to_group gm1) invitee \<noteq> None then (None, gm1)
          else case map_of (groups gm1) g of
            None \<Rightarrow> (None, gm1)
          | Some grp \<Rightarrow>
              (Some g, gm1\<lparr>groups := AList.update g (grp\<lparr>members := members grp @ [invitee]\<rparr>) (groups gm1),
                           member_to_group := AList.update invitee g (member_to_group gm1)\<rparr>))"

definition group_leave :: "nat \<Rightarrow> group_manager \<Rightarrow> (nat \<times> nat list \<times> bool) option \<times> group_manager" where
  "group_leave member gm =
     (case map_of (member_to_group gm) member of
        None \<Rightarrow> (None, gm)
      | Some g \<Rightarrow>
          let gm1 = gm\<lparr>member_to_group := AList.delete member (member_to_group gm),
                       pending_invites := AList.delete member (pending_invites gm)\<rparr> in
          case map_of (groups gm1) g of
            None \<Rightarrow> (None, gm1)
          | Some grp \<Rightarrow>
              let remaining = filter (\<lambda>m. m \<noteq> member) (members grp) in
              if remaining = [] \<or> length remaining = 1 then
                (Some (g, remaining, True),
                 gm1\<lparr>member_to_group := fold AList.delete remaining (member_to_group gm1),
                     groups := AList.delete g (groups gm1)\<rparr>)
              else
                (Some (g, remaining, False),
                 gm1\<lparr>groups := AList.update g
                       (grp\<lparr>members := remaining,
                            leader := (if leader grp = member then remaining ! 0 else leader grp)\<rparr>) (groups gm1)\<rparr>))"

definition group_of :: "nat \<Rightarrow> group_manager \<Rightarrow> group option" where
  "group_of member gm =
     (case map_of (member_to_group gm) member of None \<Rightarrow> None | Some g \<Rightarrow> map_of (groups gm) g)"

definition same_group :: "nat \<Rightarrow> nat \<Rightarrow> group_manager \<Rightarrow> bool" where
  "same_group a b gm =
     (case (map_of (member_to_group gm) a, map_of (member_to_group gm) b) of
        (Some ga, Some gb) \<Rightarrow> ga = gb
      | _ \<Rightarrow> False)"

text \<open>The scan of \<open>next_loot_turn\<close>: the first eligible index in rotation order.\<close>

definition rotation :: "nat \<Rightarrow> nat \<Rightarrow> nat list" where
  "rotation turn n = map (\<lambda>offset. (turn + offset) mod n) [0..<n]"

definition next_loot_turn :: "nat \<Rightarrow> (nat \<Rightarrow> bool) \<Rightarrow> group_manager \<Rightarrow> nat option \<times> group_manager" where
  "next_loot_turn killer eligible gm =
     (case map_of (member_to_group gm) killer of
        None \<Rightarrow> (None, gm)
      | Some g \<Rightarrow> (case map_of (groups gm) g of
          None \<Rightarrow> (None, gm)
        | Some grp \<Rightarrow>
            if mode grp \<noteq> RoundRobin then (None, gm)
            else let n = length (members grp) in
              if n = 0 then (None, gm)
              else case find (\<lambda>idx. eligible (members grp ! idx)) (rotation (loot_turn grp) n) of
                None \<Rightarrow> (None, gm)
              | Some idx \<Rightarrow>
                  (Some (members grp ! idx),
                   gm\<lparr>groups := AList.update g (grp\<lparr>loot_turn := (idx + 1) mod n\<rparr>) (groups gm)\<rparr>)))"

definition pass_leadership :: "nat \<Rightarrow> nat \<Rightarrow> group_manager \<Rightarrow> nat option \<times> group_manager" where
  "pass_leadership current new_leader gm =
     (case map_of (member_to_group gm) current of
        None \<Rightarrow> (None, gm)
      | Some g \<Rightarrow> (case map_of (groups gm) g of
          None \<Rightarrow> (None, gm)
        | Some grp \<Rightarrow>
            if leader grp \<noteq> current \<or> new_leader \<notin> set (members grp) then (None, gm)
            else (Some g, gm\<lparr>groups := AList.update g (grp\<lparr>leader := new_leader\<rparr>) (groups gm)\<rparr>)))"

text \<open>The leader's loot-mode change, the assignment of \<open>tick/grouping.rs\<close>.\<close>

definition set_loot_mode :: "nat \<Rightarrow> loot_mode \<Rightarrow> group_manager \<Rightarrow> group_manager" where
  "set_loot_mode g lm gm =
     (case map_of (groups gm) g of
        None \<Rightarrow> gm
      | Some grp \<Rightarrow> gm\<lparr>groups := AList.update g (grp\<lparr>mode := lm\<rparr>) (groups gm)\<rparr>)"

section \<open>The index and the rosters agree\<close>

definition group_ok :: "(nat \<Rightarrow> nat option) \<Rightarrow> nat \<Rightarrow> nat \<Rightarrow> group \<Rightarrow> bool" where
  "group_ok idx bound g grp \<longleftrightarrow> gid grp = g \<and> g < bound \<and> leader grp \<in> set (members grp) \<and> distinct (members grp)
     \<and> (\<forall>m\<in>set (members grp). idx m = Some g)"

definition groups_wf :: "group_manager \<Rightarrow> bool" where
  "groups_wf gm \<longleftrightarrow> distinct (map fst (groups gm)) \<and> distinct (map fst (member_to_group gm))
     \<and> (\<forall>(g, grp) \<in> set (groups gm). group_ok (map_of (member_to_group gm)) (next_gid gm) g grp)
     \<and> (\<forall>(m, g) \<in> set (member_to_group gm).
          case map_of (groups gm) g of None \<Rightarrow> False | Some grp \<Rightarrow> m \<in> set (members grp))"

lemma groups_wf_iff:
  "groups_wf gm \<longleftrightarrow> distinct (map fst (groups gm)) \<and> distinct (map fst (member_to_group gm))
     \<and> (\<forall>g grp. map_of (groups gm) g = Some grp \<longrightarrow> group_ok (map_of (member_to_group gm)) (next_gid gm) g grp)
     \<and> (\<forall>m g. map_of (member_to_group gm) m = Some g \<longrightarrow>
          (\<exists>grp. map_of (groups gm) g = Some grp \<and> m \<in> set (members grp)))"
proof -
  have "(case map_of (groups gm) g of None \<Rightarrow> False | Some grp \<Rightarrow> m \<in> set (members grp))
      \<longleftrightarrow> (\<exists>grp. map_of (groups gm) g = Some grp \<and> m \<in> set (members grp))" for m g
    by (cases "map_of (groups gm) g") auto
  then show ?thesis
    unfolding groups_wf_def by (auto simp: map_of_eq_Some_iff)
qed

lemma groups_wfD:
  assumes "groups_wf gm"
  shows "map_of (groups gm) g = Some grp \<Longrightarrow> group_ok (map_of (member_to_group gm)) (next_gid gm) g grp"
    and "map_of (member_to_group gm) m = Some g \<Longrightarrow> \<exists>grp. map_of (groups gm) g = Some grp \<and> m \<in> set (members grp)"
    and "distinct (map fst (groups gm))" "distinct (map fst (member_to_group gm))"
  using assms unfolding groups_wf_iff by blast+

lemma groups_wf_new: "groups_wf group_manager_new"
  by (simp add: groups_wf_def group_manager_new_def)

text \<open>Replacing the record of a live group by one with the same roster.\<close>

lemma set_group_wf:
  assumes wf: "groups_wf gm" and g: "map_of (groups gm) g = Some grp"
    and same: "members grp' = members grp" "gid grp' = gid grp" "leader grp' \<in> set (members grp)"
  shows "groups_wf (gm\<lparr>groups := AList.update g grp' (groups gm)\<rparr>)"
proof -
  have "group_ok (map_of (member_to_group gm)) (next_gid gm) g grp'"
    using groups_wfD(1) [OF wf g] same by (simp add: group_ok_def)
  then show ?thesis
    using wf g same unfolding groups_wf_iff by (auto split: if_splits) (metis option.inject)+
qed

lemma set_loot_mode_wf: "groups_wf gm \<Longrightarrow> groups_wf (set_loot_mode g lm gm)"
  by (auto simp: set_loot_mode_def split: option.splits intro!: set_group_wf dest: groups_wfD(1) simp: group_ok_def)

lemma pass_leadership_wf:
  assumes "groups_wf gm" "pass_leadership a b gm = (r, gm')"
  shows "groups_wf gm'"
  using assms by (auto simp: pass_leadership_def split: option.splits if_splits intro!: set_group_wf)

lemma next_loot_turn_wf:
  assumes "groups_wf gm" "next_loot_turn k e gm = (r, gm')"
  shows "groups_wf gm'"
  using assms by (auto simp: next_loot_turn_def Let_def split: option.splits if_splits
      intro!: set_group_wf dest: groups_wfD(1) simp: group_ok_def)

lemma group_for_or_new_wf:
  assumes wf: "groups_wf gm" and r: "group_for_or_new a gm = (g, gm')"
  shows "groups_wf gm' \<and> map_of (member_to_group gm') a = Some g"
proof (cases "map_of (member_to_group gm) a")
  case None
  let ?grp = "\<lparr>gid = next_gid gm, leader = a, members = [a], mode = RoundRobin, loot_turn = 0\<rparr>"
  have out: "g = next_gid gm" "gm' = gm\<lparr>next_gid := next_gid gm + 1,
      groups := AList.update (next_gid gm) ?grp (groups gm),
      member_to_group := AList.update a (next_gid gm) (member_to_group gm)\<rparr>"
    using r None by (auto simp: group_for_or_new_def Let_def)
  have fresh: "map_of (groups gm) (next_gid gm) = None"
    using groups_wfD(1) [OF wf, of "next_gid gm"] by (cases "map_of (groups gm) (next_gid gm)") (auto simp: group_ok_def)
  then have unused: "map_of (member_to_group gm) m \<noteq> Some (next_gid gm)" for m
    using groups_wfD(2) [OF wf, of m "next_gid gm"] by auto
  have old: "group_ok ((map_of (member_to_group gm))(a \<mapsto> next_gid gm)) (next_gid gm + 1) h grp"
    if "map_of (groups gm) h = Some grp" for h grp
    using groups_wfD(1) [OF wf that] None by (auto simp: group_ok_def)
  show ?thesis
    using wf fresh unused old unfolding groups_wf_iff out
    by (auto split: if_splits simp: group_ok_def [of _ _ "next_gid gm"])
qed (use assms in \<open>auto simp: group_for_or_new_def\<close>)

lemma groups_wf_pending [simp]: "groups_wf (gm\<lparr>pending_invites := p\<rparr>) = groups_wf gm"
  by (simp add: groups_wf_def)

lemma record_invite_wf:
  assumes "groups_wf gm" "record_invite a b gm = (g, gm')"
  shows "groups_wf gm'"
  using assms group_for_or_new_wf [OF assms(1)] by (auto simp: record_invite_def split: prod.splits)

text \<open>An accept adds the invitee at the end of the inviter's roster, and only then.\<close>

lemma group_accept_effect:
  assumes wf: "groups_wf gm" and r: "group_accept b a gm = (Some g, gm')"
  shows "groups_wf gm' \<and> map_of (pending_invites gm) b = Some (a, g) \<and> map_of (pending_invites gm') b = None
    \<and> map_of (member_to_group gm) b = None
    \<and> (\<exists>grp. map_of (groups gm) g = Some grp
         \<and> group_of b gm' = Some (grp\<lparr>members := members grp @ [b]\<rparr>))"
proof -
  obtain grp where inv: "map_of (pending_invites gm) b = Some (a, g)" "map_of (member_to_group gm) b = None"
    "map_of (groups gm) g = Some grp"
    and out: "gm' = gm\<lparr>pending_invites := AList.delete b (pending_invites gm),
        groups := AList.update g (grp\<lparr>members := members grp @ [b]\<rparr>) (groups gm),
        member_to_group := AList.update b g (member_to_group gm)\<rparr>"
    using r by (auto simp: group_accept_def Let_def split: option.splits if_splits prod.splits)
  have fresh: "b \<notin> set (members h)" if "map_of (groups gm) i = Some h" for i h
    using groups_wfD(1) [OF wf that] inv(2) by (auto simp: group_ok_def)
  have old: "group_ok ((map_of (member_to_group gm))(b \<mapsto> g)) (next_gid gm) i h"
    if "map_of (groups gm) i = Some h" for i h
    using groups_wfD(1) [OF wf that] fresh [OF that] by (auto simp: group_ok_def)
  have new: "group_ok ((map_of (member_to_group gm))(b \<mapsto> g)) (next_gid gm) g (grp\<lparr>members := members grp @ [b]\<rparr>)"
    using old [OF inv(3)] fresh [OF inv(3)] by (auto simp: group_ok_def)
  have idx: "\<exists>h'. ((map_of (groups gm))(g \<mapsto> grp\<lparr>members := members grp @ [b]\<rparr>)) i = Some h' \<and> m \<in> set (members h')"
    if "map_of (member_to_group gm) m = Some i" for m i
    using groups_wfD(2) [OF wf that] inv(3) by auto
  have "groups_wf gm'"
    unfolding groups_wf_iff out
    using old new idx groups_wfD(3,4) [OF wf] by (auto split: if_splits)
  then show ?thesis using inv by (simp add: out group_of_def)
qed

lemma group_accept_None_wf:
  assumes "groups_wf gm" "group_accept b a gm = (None, gm')"
  shows "groups_wf gm'" "groups gm' = groups gm" "member_to_group gm' = member_to_group gm"
  using assms by (auto simp: group_accept_def Let_def split: option.splits if_splits prod.splits)

text \<open>Leaving: the roster shrinks by the leaver, or the group dissolves.\<close>

lemma map_of_fold_delete [simp]: "map_of (fold AList.delete ks m) k = (if k \<in> set ks then None else map_of m k)"
  by (induction ks arbitrary: m) auto

lemma distinct_fold_delete [simp]: "distinct (map fst m) \<Longrightarrow> distinct (map fst (fold AList.delete ks m))"
  by (induction ks arbitrary: m) auto

lemma group_leave_effect:
  assumes wf: "groups_wf gm" and r: "group_leave c gm = (Some (g, rest, dissolved), gm')"
  shows "groups_wf gm' \<and> group_of c gm' = None
    \<and> (\<exists>grp. group_of c gm = Some grp \<and> gid grp = g \<and> rest = filter (\<lambda>m. m \<noteq> c) (members grp)
       \<and> (dissolved \<longleftrightarrow> length rest \<le> 1) \<and> (dissolved \<longrightarrow> (\<forall>m\<in>set rest. group_of m gm' = None))
       \<and> (\<not> dissolved \<longrightarrow> (\<forall>m\<in>set rest. \<exists>grp'. group_of m gm' = Some grp' \<and> members grp' = rest \<and> gid grp' = g
             \<and> leader grp' = (if leader grp = c then hd rest else leader grp))))
    \<and> (\<forall>m. m \<noteq> c \<longrightarrow> m \<notin> set rest \<longrightarrow> group_of m gm' = group_of m gm)"
proof -
  obtain grp where ix: "map_of (member_to_group gm) c = Some g" and grp: "map_of (groups gm) g = Some grp"
    and rest: "rest = filter (\<lambda>m. m \<noteq> c) (members grp)"
    using r by (auto simp: group_leave_def Let_def split: option.splits if_splits)
  have ok: "group_ok (map_of (member_to_group gm)) (next_gid gm) g grp" by (rule groups_wfD(1) [OF wf grp])
  let ?ix = "AList.delete c (member_to_group gm)"
  have mine: "map_of (member_to_group gm) m = Some g \<longleftrightarrow> m \<in> set (members grp)" for m
    using ok groups_wfD(2) [OF wf, of m g] grp by (auto simp: group_ok_def)
  have theirs: "map_of (member_to_group gm) m = Some h \<and> h \<noteq> g" if "map_of (groups gm) h = Some grp'" "h \<noteq> g" "m \<in> set (members grp')" for m h grp'
    using groups_wfD(1) [OF wf that(1)] that by (auto simp: group_ok_def)
  have cin: "c \<in> set (members grp)" using mine ix by blast
  have here: "group_of c gm = Some grp" using ix grp by (simp add: group_of_def)
  show ?thesis
  proof (cases "length rest \<le> 1")
    case True
    have out: "dissolved" "member_to_group gm' = fold AList.delete rest ?ix" "groups gm' = AList.delete g (groups gm)"
      "next_gid gm' = next_gid gm"
      using r ix grp rest True by (auto simp: group_leave_def Let_def le_Suc_eq split: if_splits)
    have ix': "map_of (member_to_group gm') m = (if map_of (member_to_group gm) m = Some g then None else map_of (member_to_group gm) m)" for m
      using mine [of m] cin by (auto simp: out rest)
    have "groups_wf gm'"
      unfolding groups_wf_iff
    proof (intro conjI allI impI)
      fix h grp'
      assume h: "map_of (groups gm') h = Some grp'"
      then have old: "map_of (groups gm) h = Some grp'" "h \<noteq> g" by (auto simp: out split: if_splits)
      show "group_ok (map_of (member_to_group gm')) (next_gid gm') h grp'"
        using groups_wfD(1) [OF wf old(1)] old(2) by (auto simp: group_ok_def ix' out(4))
    next
      fix m h
      assume "map_of (member_to_group gm') m = Some h"
      then have "map_of (member_to_group gm) m = Some h" "h \<noteq> g" by (auto simp: ix' split: if_splits)
      then show "\<exists>grp. map_of (groups gm') h = Some grp \<and> m \<in> set (members grp)"
        using groups_wfD(2) [OF wf] by (auto simp: out)
    qed (simp_all add: out groups_wfD(3,4) [OF wf])
    moreover have "group_of m gm' = (if map_of (member_to_group gm) m = Some g then None else group_of m gm)" for m
      by (auto simp: group_of_def ix' out(3) split: option.splits)
    ultimately show ?thesis
      using True ok mine out(1) here cin by (auto simp: rest group_ok_def)
  next
    case False
    let ?grp = "grp\<lparr>members := rest, leader := (if leader grp = c then rest ! 0 else leader grp)\<rparr>"
    have ne: "rest \<noteq> []" using False by auto
    have out: "\<not> dissolved" "member_to_group gm' = ?ix" "groups gm' = AList.update g ?grp (groups gm)" "next_gid gm' = next_gid gm"
      using r ix grp rest False by (auto simp: group_leave_def Let_def split: if_splits)
    have "rest ! 0 \<in> set rest" using ne by (intro nth_mem) simp
    then have lead: "leader ?grp \<in> set rest" using ok by (simp add: group_ok_def) (simp add: rest)
    have "groups_wf gm'"
      unfolding groups_wf_iff
    proof (intro conjI allI impI)
      fix h grp'
      assume h: "map_of (groups gm') h = Some grp'"
      show "group_ok (map_of (member_to_group gm')) (next_gid gm') h grp'"
      proof (cases "h = g")
        case True
        then have "grp' = ?grp" using h by (simp add: out)
        then show ?thesis using ok lead True by (auto simp: group_ok_def out rest)
      next
        case other: False
        then have old: "map_of (groups gm) h = Some grp'" using h by (simp add: out)
        show ?thesis using groups_wfD(1) [OF wf old] other ix by (auto simp: group_ok_def out)
      qed
    next
      fix m h
      assume m: "map_of (member_to_group gm') m = Some h"
      then have "map_of (member_to_group gm) m = Some h" "m \<noteq> c" by (auto simp: out split: if_splits)
      then show "\<exists>grp. map_of (groups gm') h = Some grp \<and> m \<in> set (members grp)"
        using groups_wfD(2) [OF wf] grp by (fastforce simp: out rest)
    qed (simp_all add: out groups_wfD(3,4) [OF wf])
    moreover have "group_of m gm' = (if m = c then None else if m \<in> set rest then Some ?grp else group_of m gm)" for m
    proof (cases "m \<in> set rest")
      case True
      then have "map_of (member_to_group gm) m = Some g" "m \<noteq> c" using mine by (auto simp: rest)
      then show ?thesis using True by (simp add: group_of_def out)
    next
      case m: False
      then have "m \<noteq> c \<Longrightarrow> map_of (member_to_group gm) m \<noteq> Some g" using mine by (auto simp: rest)
      then show ?thesis using m by (auto simp: group_of_def out split: option.splits)
    qed
    ultimately show ?thesis
      using False ok out(1) here ne by (auto simp: rest group_ok_def hd_conv_nth)
  qed
qed

lemma group_leave_None:
  assumes "groups_wf gm" "group_leave c gm = (None, gm')"
  shows "gm' = gm \<and> group_of c gm = None"
  using assms groups_wfD(2) [OF assms(1), of c]
  by (auto simp: group_leave_def Let_def group_of_def split: option.splits if_splits)

text \<open>Every state the operations reach is well formed.\<close>

inductive group_step :: "group_manager \<Rightarrow> group_manager \<Rightarrow> bool" where
  Invite: "record_invite a b gm = (g, gm') \<Longrightarrow> group_step gm gm'"
| Accept: "group_accept b a gm = (r, gm') \<Longrightarrow> group_step gm gm'"
| Leave: "group_leave c gm = (q, gm') \<Longrightarrow> group_step gm gm'"
| Pass: "pass_leadership a b gm = (r, gm') \<Longrightarrow> group_step gm gm'"
| Mode: "group_step gm (set_loot_mode g lm gm)"
| Turn: "next_loot_turn k eligible gm = (r, gm') \<Longrightarrow> group_step gm gm'"

inductive group_reachable :: "group_manager \<Rightarrow> bool" where
  New: "group_reachable group_manager_new"
| Step: "group_reachable gm \<Longrightarrow> group_step gm gm' \<Longrightarrow> group_reachable gm'"

lemma group_step_wf: "group_step gm gm' \<Longrightarrow> groups_wf gm \<Longrightarrow> groups_wf gm'"
proof (induction rule: group_step.induct)
  case (Accept b a gm r gm')
  then show ?case by (cases r) (auto dest: group_accept_effect group_accept_None_wf(1))
next
  case (Leave c gm q gm')
  show ?case
  proof (cases q)
    case (Some x)
    obtain g rest dissolved where "x = (g, rest, dissolved)" by (rule prod_cases3)
    then show ?thesis using group_leave_effect [OF Leave.prems] Leave.hyps Some by blast
  qed (use Leave group_leave_None in blast)
qed (auto intro: record_invite_wf pass_leadership_wf set_loot_mode_wf next_loot_turn_wf)

lemma group_reachable_wf: "group_reachable gm \<Longrightarrow> groups_wf gm"
  by (induction rule: group_reachable.induct) (auto simp: groups_wf_new dest: group_step_wf)

section \<open>The loot rotation\<close>

lemma rotation_less: "i \<in> set (rotation t n) \<Longrightarrow> i < n"
  by (auto simp: rotation_def)

lemma rotation_covers: "i < n \<Longrightarrow> i \<in> set (rotation t n)"
proof -
  assume i: "i < n"
  let ?o = "(i + (n - t mod n)) mod n"
  have "t mod n < n" using i by simp
  then have "t mod n + (i + (n - t mod n)) = i + n" by linarith
  moreover have "(t + ?o) mod n = (t mod n + (i + (n - t mod n))) mod n" by (simp only: mod_simps)
  ultimately have "(t + ?o) mod n = (i + n) mod n" by (simp only:)
  also have "\<dots> = i" using i by simp
  finally have "(t + ?o) mod n = i" .
  moreover have "?o < n" using i by simp
  ultimately show ?thesis unfolding rotation_def by force
qed

text \<open>The turn goes to an eligible member when there is one, and then past them.\<close>

lemma next_loot_turn_effect:
  assumes g: "group_of k gm = Some grp" "mode grp = RoundRobin"
    and r: "next_loot_turn k eligible gm = (res, gm')"
  shows "case res of
      None \<Rightarrow> (\<forall>m\<in>set (members grp). \<not> eligible m) \<and> gm' = gm
    | Some m \<Rightarrow> m \<in> set (members grp) \<and> eligible m
        \<and> (\<exists>i < length (members grp). members grp ! i = m
             \<and> group_of k gm' = Some (grp\<lparr>loot_turn := (i + 1) mod length (members grp)\<rparr>))"
proof -
  let ?n = "length (members grp)"
  obtain h where h: "map_of (member_to_group gm) k = Some h" "map_of (groups gm) h = Some grp"
    using g(1) by (auto simp: group_of_def split: option.splits)
  show ?thesis
  proof (cases "find (\<lambda>idx. eligible (members grp ! idx)) (rotation (loot_turn grp) ?n)")
    case None
    then have "\<not> eligible (members grp ! i)" if "i < ?n" for i
      using rotation_covers [OF that, of "loot_turn grp"] by (auto simp: find_None_iff)
    moreover have "res = None" "gm' = gm" using r h g(2) None by (auto simp: next_loot_turn_def Let_def split: if_splits)
    ultimately show ?thesis by (auto simp: in_set_conv_nth)
  next
    case (Some i)
    then obtain j where j: "j < length (rotation (loot_turn grp) ?n)" "rotation (loot_turn grp) ?n ! j = i" "eligible (members grp ! i)"
      unfolding find_Some_iff by blast
    have "i \<in> set (rotation (loot_turn grp) ?n)" using nth_mem [OF j(1)] j(2) by simp
    then have i: "i < ?n" "eligible (members grp ! i)" using rotation_less j(3) by blast+
    then have "members grp \<noteq> []" by auto
    then have "res = Some (members grp ! i)" "gm' = gm\<lparr>groups := AList.update h (grp\<lparr>loot_turn := (i + 1) mod ?n\<rparr>) (groups gm)\<rparr>"
      using r h g(2) Some by (auto simp: next_loot_turn_def Let_def)
    moreover from this(2) have "group_of k gm' = Some (grp\<lparr>loot_turn := (i + 1) mod ?n\<rparr>)"
      using h by (simp add: group_of_def)
    ultimately show ?thesis using i by auto
  qed
qed

text \<open>With everyone eligible, as many corpses as there are members go one to each.\<close>

fun loot_turns :: "nat \<Rightarrow> nat \<Rightarrow> group_manager \<Rightarrow> nat list" where
  "loot_turns k 0 gm = []"
| "loot_turns k (Suc i) gm =
     (case next_loot_turn k (\<lambda>_. True) gm of (Some m, gm') \<Rightarrow> m # loot_turns k i gm' | (None, gm') \<Rightarrow> [])"

lemma next_loot_turn_open:
  assumes "group_of k gm = Some grp" "mode grp = RoundRobin" "members grp \<noteq> []"
  shows "\<exists>gm'. next_loot_turn k (\<lambda>_. True) gm = (Some (members grp ! (loot_turn grp mod length (members grp))), gm')
     \<and> group_of k gm' = Some (grp\<lparr>loot_turn := (loot_turn grp + 1) mod length (members grp)\<rparr>)"
proof -
  let ?n = "length (members grp)"
  obtain h where h: "map_of (member_to_group gm) k = Some h" "map_of (groups gm) h = Some grp"
    using assms(1) by (auto simp: group_of_def split: option.splits)
  have "rotation (loot_turn grp) ?n \<noteq> []" "hd (rotation (loot_turn grp) ?n) = loot_turn grp mod ?n"
    using assms(3) by (simp_all add: rotation_def upt_conv_Cons)
  then have "find (\<lambda>idx. True) (rotation (loot_turn grp) ?n) = Some (loot_turn grp mod ?n)"
    by (cases "rotation (loot_turn grp) ?n") auto
  then show ?thesis
    using assms(2,3) h by (simp add: next_loot_turn_def Let_def group_of_def mod_simps)
qed

lemma loot_turns_rotation:
  assumes "group_of k gm = Some grp" "mode grp = RoundRobin" "members grp \<noteq> []"
  shows "loot_turns k i gm = map (\<lambda>j. members grp ! ((loot_turn grp + j) mod length (members grp))) [0..<i]"
  using assms
proof (induction i arbitrary: gm grp)
  case (Suc i)
  obtain gm' where gm': "next_loot_turn k (\<lambda>_. True) gm = (Some (members grp ! (loot_turn grp mod length (members grp))), gm')"
    "group_of k gm' = Some (grp\<lparr>loot_turn := (loot_turn grp + 1) mod length (members grp)\<rparr>)"
    using next_loot_turn_open [OF Suc.prems] by blast
  have "loot_turns k i gm' = map (\<lambda>j. members grp ! ((loot_turn grp + 1 + j) mod length (members grp))) [0..<i]"
    using Suc.IH [OF gm'(2)] Suc.prems(2,3) by (simp add: mod_simps)
  then show ?case
    using gm'(1) by (simp add: map_upt_Suc del: upt_Suc)
qed simp

lemma loot_turns_fair:
  assumes "group_of k gm = Some grp" "mode grp = RoundRobin" "members grp \<noteq> []"
  shows "mset (loot_turns k (length (members grp)) gm) = mset (members grp)"
proof -
  let ?n = "length (members grp)"
  have "distinct (rotation (loot_turn grp) ?n)"
  proof (rule card_distinct)
    have "set (rotation (loot_turn grp) ?n) = {..<?n}" using rotation_less rotation_covers by fast
    then show "card (set (rotation (loot_turn grp) ?n)) = length (rotation (loot_turn grp) ?n)"
      by (simp add: rotation_def)
  qed
  moreover have "set (rotation (loot_turn grp) ?n) = set [0..<?n]"
    using rotation_less [of _ "loot_turn grp" ?n] rotation_covers [of _ ?n "loot_turn grp"] by auto
  ultimately have "mset (rotation (loot_turn grp) ?n) = mset [0..<?n]"
    by (intro set_eq_iff_mset_eq_distinct [THEN iffD1]) simp_all
  then have "mset (map ((!) (members grp)) (rotation (loot_turn grp) ?n)) = mset (map ((!) (members grp)) [0..<?n])"
    by (simp add: mset_map)
  moreover have "loot_turns k ?n gm = map ((!) (members grp)) (rotation (loot_turn grp) ?n)"
    by (simp add: loot_turns_rotation [OF assms] rotation_def)
  ultimately show ?thesis by (simp add: map_nth)
qed

end
