(* ===== verification/Sessions.thy ===== *)
theory Sessions
  imports Trade GroupState
begin

text \<open>
  The trade manager as a state machine over the operations of \<open>world/trade.rs\<close>, the properties of
  its reachable states, and the properties of the group manager of \<open>world/groups.rs\<close>.
\<close>

section \<open>Trade sessions\<close>

inductive trade_step :: "trade_manager \<Rightarrow> trade_manager \<Rightarrow> bool" where
  opens: "trade_open a b m = Inr m' \<Longrightarrow> trade_step m m'"
| offers_item: "offer_item c w off m = Inr m' \<Longrightarrow> trade_step m m'"
| takes_back: "retrieve_item c w m = Inr m' \<Longrightarrow> trade_step m m'"
| offers_coins: "offer_coins c amount m = Inr m' \<Longrightarrow> trade_step m m'"
| accepts: "trade_accept c m = Inr (both, m') \<Longrightarrow> trade_step m m'"
| clears: "trade_step m (clear_accepts_of c m)"
| closes: "trade_step m (snd (trade_close c m))"

inductive trade_reachable :: "trade_manager \<Rightarrow> bool" where
  none_open: "trade_reachable trade_manager_new"
| step: "trade_reachable m \<Longrightarrow> trade_step m m' \<Longrightarrow> trade_reachable m'"

lemma trade_step_wf:
  assumes "trade_step m m'" "manager_wf m"
  shows "manager_wf m'"
  using assms
proof (induction rule: trade_step.induct)
  case (closes m c)
  then show ?case
    by (metis manager_wf_iff trade_close_None trade_close_effect not_None_eq prod.collapse snd_conv)
qed (auto intro: trade_open_wf offer_item_wf retrieve_item_wf offer_coins_wf trade_accept_wf clear_accepts_of_wf)

lemma trade_sessions_wf: "trade_reachable m \<Longrightarrow> manager_wf m"
  by (induction rule: trade_reachable.induct) (auto simp: manager_wf_new intro: trade_step_wf)

text \<open>C11. In every state the trade manager can reach, sessions and the index from players to sessions agree: a player with a session
  is one of its two distinct sides, the partner is in the very same session, nobody is in two, and each side has
  eight window slots, no negative coins and no slot offered twice.\<close>

theorem trade_sessions_consistent:
  assumes "trade_reachable m"
  shows "manager_wf m \<and> (\<forall>c s. session_of c m = Some s \<longrightarrow>
    (c = cid (side_a s) \<or> c = cid (side_b s)) \<and> cid (side_a s) \<noteq> cid (side_b s)
    \<and> session_of (cid (side_a s)) m = Some s \<and> session_of (cid (side_b s)) m = Some s)"
proof -
  have wf: "manager_wf m" using trade_sessions_wf [OF assms] .
  show ?thesis using session_of_wf [OF wf]
    by (intro conjI allI impI wf; metis (no_types, lifting) session_of_def session_wf_def option.simps(5))
qed

definition demo_trade :: trade_manager where
  "demo_trade =
     \<lparr>sessions = [(0, \<lparr>side_a = trade_side_new 7, side_b = trade_side_new 9\<rparr>)], by_cid = [(7, 0), (9, 0)], next_id = 1\<rparr>"

lemma demo_open: "trade_open 7 9 trade_manager_new = Inr demo_trade"
  by (simp add: trade_open_def trade_manager_new_def demo_trade_def)

lemma demo_trade_reachable: "trade_reachable demo_trade"
  using trade_reachable.step [OF trade_reachable.none_open trade_step.opens [OF demo_open]] .

theorem trade_sessions_consistent_witness:
  "session_of 7 demo_trade = session_of 9 demo_trade \<and> session_of 7 demo_trade \<noteq> None"
proof -
  have "session_of 7 demo_trade = Some \<lparr>side_a = trade_side_new 7, side_b = trade_side_new 9\<rparr>"
    by (simp add: session_of_def demo_trade_def)
  with trade_sessions_consistent [OF demo_trade_reachable] show ?thesis by (fastforce simp: trade_side_new_def)
qed

text \<open>C12. No acceptance survives a change of the deal: after an item is offered or taken back, coins are changed or the
  session is reset, neither side has accepted; and an acceptance completes the trade only if the partner's was standing.\<close>

theorem acceptance_needs_the_final_deal:
  assumes "trade_reachable m"
  shows "(offer_item c w off m = Inr m' \<or> retrieve_item c w m = Inr m' \<or> offer_coins c amount m = Inr m'
        \<or> m' = clear_accepts_of c m \<longrightarrow> accepts_clear c m')
    \<and> (trade_accept c m = Inr (True, m'') \<longrightarrow> (\<exists>s. session_of c m = Some s
        \<and> (if cid (side_a s) = c then accepted (side_b s) else accepted (side_a s))))"
proof -
  have "manager_wf m" using trade_sessions_wf [OF assms] .
  then have "offer_item c w off m = Inr m' \<or> retrieve_item c w m = Inr m' \<or> offer_coins c amount m = Inr m'
        \<or> m' = clear_accepts_of c m \<longrightarrow> accepts_clear c m'"
    using edits_clear_accepts by blast
  moreover have "trade_accept c m = Inr (True, m'') \<longrightarrow> (\<exists>s. session_of c m = Some s
        \<and> (if cid (side_a s) = c then accepted (side_b s) else accepted (side_a s)))"
    by (auto simp: trade_accept_def side_of_def set_side_def Let_def split: option.splits if_splits)
  ultimately show ?thesis by blast
qed

definition demo_offer :: offer where
  "demo_offer = \<lparr>location = ''base'', oslot = 1, offer_path = ''ration'', offer_count = 5\<rparr>"

definition demo_offered :: trade_manager where
  "demo_offered = (case offer_item 7 0 demo_offer demo_trade of Inl _ \<Rightarrow> demo_trade | Inr m \<Rightarrow> m)"

lemma demo_offer_item: "offer_item 7 0 demo_offer demo_trade = Inr demo_offered"
  by (simp add: demo_offered_def offer_item_def session_of_def demo_trade_def TRADE_SLOTS_def side_of_def trade_side_new_def
      offered_slots_def)

theorem acceptance_needs_the_final_deal_witness: "accepts_clear 7 demo_offered"
  using acceptance_needs_the_final_deal [OF demo_trade_reachable] demo_offer_item by blast

text \<open>While a stack is offered its slot is locked for every other operation; an offered bag (parked in a base slot)
  locks its contents too, and an offered inner slot locks the base slot of its bag.\<close>

theorem offered_slot_is_locked:
  assumes "session_of c m = Some s" "side_of c s = Some x" "off \<in> set (offered_slots x)"
  shows "is_locked c (location off) (oslot off) m
    \<and> (\<forall>k\<le>u32_max. location off = bag_loc k \<longrightarrow> is_locked c ''base'' k m)
    \<and> (location off = ''base'' \<longrightarrow> oslot off \<le> u32_max \<longrightarrow> (\<forall>j. is_locked c (bag_loc (oslot off)) j m))"
  using offered_locked [OF assms] by blast

definition demo_side :: trade_side where
  "demo_side = (trade_side_new 7)\<lparr>offers := (replicate TRADE_SLOTS None)[0 := Some demo_offer]\<rparr>"

lemma demo_offered_side:
  "session_of 7 demo_offered = Some \<lparr>side_a = demo_side, side_b = trade_side_new 9\<rparr>" "side_of 7 \<lparr>side_a = demo_side, side_b = trade_side_new 9\<rparr> = Some demo_side"
  "demo_offer \<in> set (offered_slots demo_side)"
  by (simp_all add: demo_offered_def offer_item_def session_of_def demo_trade_def TRADE_SLOTS_def side_of_def trade_side_new_def
      offered_slots_def set_session_def clear_accepts_def set_side_def demo_side_def numeral_eq_Suc)

theorem offered_slot_is_locked_witness: "is_locked 7 ''base'' 1 demo_offered \<and> is_locked 7 (bag_loc 1) 0 demo_offered"
  using offered_slot_is_locked [OF demo_offered_side] by (simp add: demo_offer_def)

definition demo_bag_offer :: offer where
  "demo_bag_offer = \<lparr>location = ''bag_0'', oslot = 1, offer_path = ''ration'', offer_count = 5\<rparr>"

definition demo_bag_trade :: trade_manager where
  "demo_bag_trade =
     \<lparr>sessions = [(0, \<lparr>side_a = (trade_side_new 7)\<lparr>offers := [Some demo_bag_offer, None, None, None, None, None, None, None]\<rparr>,
                      side_b = trade_side_new 9\<rparr>)],
      by_cid = [(7, 0), (9, 0)], next_id = 1\<rparr>"

lemma demo_bag_offered: "offer_item 7 0 demo_bag_offer demo_trade = Inr demo_bag_trade"
  by (simp add: offer_item_def session_of_def demo_trade_def TRADE_SLOTS_def side_of_def trade_side_new_def offered_slots_def
      set_session_def clear_accepts_def set_side_def demo_bag_trade_def numeral_eq_Suc)

lemma demo_bag_session:
  "session_of 7 demo_bag_trade =
     Some \<lparr>side_a = (trade_side_new 7)\<lparr>offers := [Some demo_bag_offer, None, None, None, None, None, None, None]\<rparr>, side_b = trade_side_new 9\<rparr>"
  by (simp add: session_of_def demo_bag_trade_def)

lemma demo_bag_locked: "is_locked 7 ''bag_0'' 1 demo_bag_trade" "\<not> is_locked 7 ''bag_00'' 1 demo_bag_trade"
  by (simp_all add: is_locked_def demo_bag_session side_of_def trade_side_new_def offered_slots_def offer_locks_def demo_bag_offer_def)

text \<open>C40. The lock and the double-offer check compare addresses as text, so a second spelling of one bag slot slips past
  both: with \<open>bag_0\<close> slot 1 offered, the same cell is unlocked under \<open>bag_00\<close> and can be offered again.\<close>

theorem alias_slips_past_lock:
  "\<exists>m m'. trade_reachable m \<and> offer_item 7 0 demo_bag_offer demo_trade = Inr m
     \<and> parse_bag_location ''bag_00'' = parse_bag_location ''bag_0'' \<and> is_locked 7 ''bag_0'' 1 m
     \<and> \<not> is_locked 7 ''bag_00'' 1 m \<and> offer_item 7 1 (demo_bag_offer\<lparr>location := ''bag_00''\<rparr>) m = Inr m'"
proof -
  have "\<exists>m'. offer_item 7 1 (demo_bag_offer\<lparr>location := ''bag_00''\<rparr>) demo_bag_trade = Inr m'"
    by (simp add: offer_item_def demo_bag_session side_of_def trade_side_new_def offered_slots_def demo_bag_offer_def TRADE_SLOTS_def)
  moreover have "parse_bag_location ''bag_00'' = parse_bag_location ''bag_0''"
    by (simp add: parse_bag_location_def strip_prefix_def parse_u32_def digit_val_def Let_def)
  ultimately show ?thesis
    using demo_bag_offered demo_bag_locked trade_reachable.step [OF demo_trade_reachable trade_step.offers_item [OF demo_bag_offered]]
    by blast
qed

section \<open>Groups\<close>

text \<open>C18. In every state the group manager can reach, rosters and the index from players to groups agree: a grouped player is
  on the roster of the group it points to, rosters have no duplicates, every rostered player points
  back, and the leader is a member.\<close>

theorem groups_consistent:
  assumes "group_reachable gm"
  shows "groups_wf gm \<and> (\<forall>m grp. group_of m gm = Some grp \<longrightarrow> m \<in> set (members grp) \<and> leader grp \<in> set (members grp)
    \<and> distinct (members grp) \<and> (\<forall>k\<in>set (members grp). group_of k gm = Some grp))"
proof -
  have wf: "groups_wf gm" using assms by (rule group_reachable_wf)
  show ?thesis
  proof (intro conjI allI impI wf)
    fix m grp assume "group_of m gm = Some grp"
    then obtain g where g: "map_of (member_to_group gm) m = Some g" "map_of (groups gm) g = Some grp"
      by (auto simp: group_of_def split: option.splits)
    then have ok: "group_ok (map_of (member_to_group gm)) (next_gid gm) g grp" and m: "m \<in> set (members grp)"
      using wf by (fastforce simp: groups_wf_def dest: map_of_SomeD)+
    then show "m \<in> set (members grp)" "leader grp \<in> set (members grp)" "distinct (members grp)"
      "\<forall>k\<in>set (members grp). group_of k gm = Some grp"
      using g by (simp_all add: group_ok_def group_of_def)
  qed
qed

definition demo_group :: group_manager where
  "demo_group =
     \<lparr>next_gid = 2, groups = [(1, \<lparr>gid = 1, leader = 4, members = [4, 5, 6], mode = RoundRobin, loot_turn = 0\<rparr>)],
      member_to_group = [(4, 1), (5, 1), (6, 1)], pending_invites = []\<rparr>"

lemma demo_group_invites:
  "record_invite 4 5 group_manager_new =
     (1, \<lparr>next_gid = 2, groups = [(1, \<lparr>gid = 1, leader = 4, members = [4], mode = RoundRobin, loot_turn = 0\<rparr>)],
         member_to_group = [(4, 1)], pending_invites = [(5, (4, 1))]\<rparr>)"
  "group_accept 5 4 \<lparr>next_gid = 2, groups = [(1, \<lparr>gid = 1, leader = 4, members = [4], mode = RoundRobin, loot_turn = 0\<rparr>)],
         member_to_group = [(4, 1)], pending_invites = [(5, (4, 1))]\<rparr> =
     (Some 1, \<lparr>next_gid = 2, groups = [(1, \<lparr>gid = 1, leader = 4, members = [4, 5], mode = RoundRobin, loot_turn = 0\<rparr>)],
         member_to_group = [(4, 1), (5, 1)], pending_invites = []\<rparr>)"
  "record_invite 4 6 \<lparr>next_gid = 2, groups = [(1, \<lparr>gid = 1, leader = 4, members = [4, 5], mode = RoundRobin, loot_turn = 0\<rparr>)],
         member_to_group = [(4, 1), (5, 1)], pending_invites = []\<rparr> =
     (1, \<lparr>next_gid = 2, groups = [(1, \<lparr>gid = 1, leader = 4, members = [4, 5], mode = RoundRobin, loot_turn = 0\<rparr>)],
         member_to_group = [(4, 1), (5, 1)], pending_invites = [(6, (4, 1))]\<rparr>)"
  "group_accept 6 4 \<lparr>next_gid = 2, groups = [(1, \<lparr>gid = 1, leader = 4, members = [4, 5], mode = RoundRobin, loot_turn = 0\<rparr>)],
         member_to_group = [(4, 1), (5, 1)], pending_invites = [(6, (4, 1))]\<rparr> = (Some 1, demo_group)"
  by (simp_all add: record_invite_def group_for_or_new_def group_manager_new_def group_accept_def demo_group_def Let_def)

lemma demo_group_reachable: "group_reachable demo_group"
  using group_reachable.New group_reachable.Step group_step.Invite group_step.Accept demo_group_invites by metis

theorem groups_consistent_witness: "group_of 4 demo_group = group_of 6 demo_group \<and> group_of 6 demo_group \<noteq> None"
proof -
  have "\<exists>grp. group_of 6 demo_group = Some grp \<and> 4 \<in> set (members grp)" by (simp add: group_of_def demo_group_def)
  then obtain grp where grp: "group_of 6 demo_group = Some grp" "4 \<in> set (members grp)" by blast
  then have "group_of 4 demo_group = Some grp" using groups_consistent [OF demo_group_reachable] by blast
  with grp show ?thesis by simp
qed

text \<open>Leaving takes the player out and nobody else: the rest stay together in order under the old leader, or
  the longest standing of them when the leader left; a group of one is dissolved and its last member freed; other groups do not change.\<close>

theorem leaving_keeps_the_rest:
  assumes "groups_wf gm" "group_leave c gm = (Some (g, rest, dissolved), gm')"
  shows "groups_wf gm' \<and> group_of c gm' = None
    \<and> (\<exists>grp. group_of c gm = Some grp \<and> gid grp = g \<and> rest = filter (\<lambda>m. m \<noteq> c) (members grp)
       \<and> (dissolved \<longleftrightarrow> length rest \<le> 1) \<and> (dissolved \<longrightarrow> (\<forall>m\<in>set rest. group_of m gm' = None))
       \<and> (\<not> dissolved \<longrightarrow> (\<forall>m\<in>set rest. \<exists>grp'. group_of m gm' = Some grp' \<and> members grp' = rest \<and> gid grp' = g
             \<and> leader grp' = (if leader grp = c then hd rest else leader grp))))
    \<and> (\<forall>m. m \<noteq> c \<longrightarrow> m \<notin> set rest \<longrightarrow> group_of m gm' = group_of m gm)"
  using assms by (rule group_leave_effect)

lemma demo_leave:
  "group_leave 4 demo_group =
     (Some (1, [5, 6], False),
      demo_group\<lparr>member_to_group := [(5, 1), (6, 1)],
        groups := [(1, \<lparr>gid = 1, leader = 5, members = [5, 6], mode = RoundRobin, loot_turn = 0\<rparr>)]\<rparr>)"
  by (simp add: group_leave_def demo_group_def Let_def)

theorem leaving_keeps_the_rest_witness:
  "\<exists>grp'. group_of 6 (demo_group\<lparr>member_to_group := [(5, 1), (6, 1)],
        groups := [(1, \<lparr>gid = 1, leader = 5, members = [5, 6], mode = RoundRobin, loot_turn = 0\<rparr>)]\<rparr>) = Some grp' \<and> members grp' = [5, 6]"
  using leaving_keeps_the_rest [OF group_reachable_wf [OF demo_group_reachable] demo_leave] by auto

text \<open>C36. Round-robin loot is fair: over as many eligible kills as the group has members, each member gets exactly one turn,
  starting from wherever the rotation stood.\<close>

theorem loot_rotation_is_fair:
  assumes "group_of k gm = Some grp" "mode grp = RoundRobin" "members grp \<noteq> []"
  shows "mset (loot_turns k (length (members grp)) gm) = mset (members grp)
    \<and> (\<forall>i. loot_turns k i gm = map (\<lambda>j. members grp ! ((loot_turn grp + j) mod length (members grp))) [0..<i])"
  using loot_turns_fair [OF assms] loot_turns_rotation [OF assms] by blast

lemma demo_group_of: "group_of 5 demo_group = Some \<lparr>gid = 1, leader = 4, members = [4, 5, 6], mode = RoundRobin, loot_turn = 0\<rparr>"
  by (simp add: group_of_def demo_group_def)

theorem loot_rotation_is_fair_witness: "mset (loot_turns 5 (length [4, 5, 6::nat]) demo_group) = mset [4, 5, 6]"
  using loot_rotation_is_fair [OF demo_group_of] unfolding group.simps by blast

text \<open>A turn goes to an eligible member of the killer's group and the rotation moves just past that member; a group
  nobody of which is eligible keeps its turn.\<close>

theorem loot_turn_is_eligible:
  assumes "group_of k gm = Some grp" "mode grp = RoundRobin" "next_loot_turn k eligible gm = (res, gm')"
  shows "case res of
      None \<Rightarrow> (\<forall>m\<in>set (members grp). \<not> eligible m) \<and> gm' = gm
    | Some m \<Rightarrow> m \<in> set (members grp) \<and> eligible m
        \<and> (\<exists>i < length (members grp). members grp ! i = m
             \<and> group_of k gm' = Some (grp\<lparr>loot_turn := (i + 1) mod length (members grp)\<rparr>))"
  using assms by (rule next_loot_turn_effect)

theorem loot_turn_is_eligible_witness:
  "\<exists>gm'. next_loot_turn 5 (\<lambda>m. m \<noteq> 4) demo_group = (Some 5, gm') \<and> group_of 5 gm' \<noteq> None"
proof -
  obtain gm' where t: "next_loot_turn 5 (\<lambda>m. m \<noteq> 4) demo_group = (Some 5, gm')"
    by (simp add: next_loot_turn_def demo_group_def rotation_def upt_rec)
  with loot_turn_is_eligible [OF demo_group_of _ t] show ?thesis by auto
qed

end
