(* ===== verification/Conn.thy ===== *)
theory Conn
  imports InvRows Trade GroupState Factions
begin

text \<open>
  One connection's holdings and the item ledger: \<open>world/ledger.rs\<close>, the store half of
  \<open>PerConnection\<close> in \<open>world/connection.rs\<close>, and the messages its handlers send.  A connection's
  books are its holdings less what its queued ledger rows account for (\<open>item_drift\<close>, \<open>coin_drift\<close>);
  the contract of a handler is that it keeps them, keeps the stores well formed and raises the
  dirty flag of every store it changed (locale \<open>ledgered\<close>).
\<close>

section \<open>Ledger rows\<close>

datatype item_action = Loot | Pickup | LootCoins | CorpseLoot | CorpseCoins | Drop | Destroy | Eat | Use
  | TradeOut | TradeIn | TradeCoins | Buy | Sell | BankIn | BankOut | BankCoinIn | BankCoinOut | BankExchange
  | QuestReward | Summon | GmGive | GmCoins | Death | DeathCoins | NoRent | Starter

fun action_name :: "item_action \<Rightarrow> string" where
  "action_name Loot = ''loot''"
| "action_name Pickup = ''pickup''"
| "action_name LootCoins = ''loot_coins''"
| "action_name CorpseLoot = ''corpse_loot''"
| "action_name CorpseCoins = ''corpse_coins''"
| "action_name Drop = ''drop''"
| "action_name Destroy = ''destroy''"
| "action_name Eat = ''eat''"
| "action_name Use = ''use''"
| "action_name TradeOut = ''trade_out''"
| "action_name TradeIn = ''trade_in''"
| "action_name TradeCoins = ''trade_coins''"
| "action_name Buy = ''buy''"
| "action_name Sell = ''sell''"
| "action_name BankIn = ''bank_in''"
| "action_name BankOut = ''bank_out''"
| "action_name BankCoinIn = ''bank_coin_in''"
| "action_name BankCoinOut = ''bank_coin_out''"
| "action_name BankExchange = ''bank_exchange''"
| "action_name QuestReward = ''quest_reward''"
| "action_name Summon = ''summon''"
| "action_name GmGive = ''gm_give''"
| "action_name GmCoins = ''gm_coins''"
| "action_name Death = ''death''"
| "action_name DeathCoins = ''death_coins''"
| "action_name NoRent = ''no_rent''"
| "action_name Starter = ''starter''"

record item_event_row =
  ev_at :: int
  ev_char :: int
  ev_action :: string
  ev_item :: "string option"
  ev_count :: int
  ev_delta :: int
  ev_copper :: int
  ev_detail :: "string option"

definition item_event :: "item_action \<Rightarrow> string \<Rightarrow> nat \<Rightarrow> int \<Rightarrow> string option \<Rightarrow> item_event_row" where
  "item_event action p n delta detail =
     \<lparr>ev_at = 0, ev_char = 0, ev_action = action_name action, ev_item = Some p, ev_count = int n,
      ev_delta = delta, ev_copper = 0, ev_detail = detail\<rparr>"

definition coin_event :: "item_action \<Rightarrow> int \<Rightarrow> string option \<Rightarrow> item_event_row" where
  "coin_event action amount detail =
     \<lparr>ev_at = 0, ev_char = 0, ev_action = action_name action, ev_item = None, ev_count = 0,
      ev_delta = 0, ev_copper = amount, ev_detail = detail\<rparr>"

section \<open>The connection\<close>

record connection =
  char_id :: int
  account_id :: int
  cname :: string
  race :: string
  cls :: string
  pos :: vec3f
  in_world :: bool
  death_processed :: bool
  hp :: f32
  coins :: coins
  bank_coins :: coins
  inventory :: player_inventory
  inventory_dirty :: bool
  coins_dirty :: bool
  bank_dirty :: bool
  bank_items :: item_vault
  bank_items_dirty :: bool
  account_bank_items :: item_vault
  account_bank_items_dirty :: bool
  item_events :: "item_event_row list"
  autosplit :: bool
  factions :: "(string \<times> f32) list"

definition ledger :: "int \<Rightarrow> item_event_row \<Rightarrow> connection \<Rightarrow> connection" where
  "ledger now row c = c\<lparr>item_events := item_events c @ [row\<lparr>ev_at := now, ev_char := char_id c\<rparr>]\<rparr>"

definition ledger_mark :: "connection \<Rightarrow> nat" where
  "ledger_mark c = length (item_events c)"

definition ledger_rollback :: "nat \<Rightarrow> connection \<Rightarrow> connection" where
  "ledger_rollback mark c = c\<lparr>item_events := take mark (item_events c)\<rparr>"

definition any_store_dirty :: "connection \<Rightarrow> bool" where
  "any_store_dirty c \<longleftrightarrow> inventory_dirty c \<or> coins_dirty c \<or> bank_dirty c \<or> bank_items_dirty c
     \<or> account_bank_items_dirty c"

text \<open>The tables the handlers read and the clock, which are not the server's state.\<close>

record env =
  reg :: registry
  npcs :: "npc list"
  faction_table :: "faction list"
  now :: int

definition faction_standing :: "connection \<Rightarrow> faction \<Rightarrow> f32" where
  "faction_standing c f = (case map_of (factions c) (fac_id f) of None \<Rightarrow> 0 | Some s \<Rightarrow> s)"

definition faction_level :: "connection \<Rightarrow> faction \<Rightarrow> level" where
  "faction_level c f = level_for (shown_standing (faction_standing c f) f (race c) (cls c))"

definition npc_faction_level :: "env \<Rightarrow> connection \<Rightarrow> npc \<Rightarrow> level" where
  "npc_faction_level E c n =
     (case npc_faction n of
        None \<Rightarrow> Indifferent
      | Some i \<Rightarrow> (case faction_lookup (faction_table E) i of None \<Rightarrow> Indifferent | Some f \<Rightarrow> faction_level c f))"

definition npc_serves :: "env \<Rightarrow> connection \<Rightarrow> npc \<Rightarrow> level \<Rightarrow> bool" where
  "npc_serves E c n lv \<longleftrightarrow> npc_faction_level E c n \<ge> lv"

text \<open>\<open>Err(None)\<close> is \<open>Inl None\<close>: nobody in range; \<open>Err(Some(npc))\<close>: in range but refusing.\<close>

definition npc_service :: "env \<Rightarrow> connection \<Rightarrow> string \<Rightarrow> npc option + npc" where
  "npc_service E c kind =
     (let in_range = all_within_range (npcs E) kind (pos c) in
      case find (\<lambda>n. npc_serves E c n Apprehensive) in_range of
        Some n \<Rightarrow> Inr n
      | None \<Rightarrow> Inl (case in_range of [] \<Rightarrow> None | n # _ \<Rightarrow> Some n))"

section \<open>Messages\<close>

text \<open>What the modelled handlers send; the wire form is the protocol crate's.\<close>

datatype server_msg =
    InventoryDelta string nat "string option" nat
  | CoinsUpdate coins
  | BankSnapshot coins
  | BankItemSnapshot bool "(nat \<times> string \<times> nat) list"
  | BankRejected string
  | SystemLine string
  | GroupRoster nat nat "(nat \<times> string) list" nat
  | GroupInvited nat string
  | GroupNotice string
  | ResourcesOf nat
  | TradeOpened nat string
  | TradeOfferUpdate bool "(string \<times> nat) list" coins
  | TradeAcceptState bool bool
  | TradeClosed bool string
  | LootGranted string nat
  | LootRejected string
  | LootBagSpawn nat "(string \<times> nat) list" coins
  | EntityDespawn nat
  | HealthUpdate nat f32 f32
  | ManaUpdate nat f32 f32
  | HungerUpdate f32 f32 f32 f32
  | SkillProgress string int
  | ChatFrom string string
  | EntityDied nat
  | InventorySnapshot "(string \<times> nat \<times> string \<times> nat) list"
  | CorpseSpawn nat string vec3f
  | CorpseContents nat "(string \<times> nat) list" coins

definition slot_delta :: "string \<Rightarrow> nat \<Rightarrow> (string \<times> nat) option \<Rightarrow> server_msg" where
  "slot_delta loc slot contents =
     (case contents of
        Some (p, n) \<Rightarrow> InventoryDelta loc slot (Some p) n
      | None \<Rightarrow> InventoryDelta loc slot None 0)"

definition touched_deltas :: "touched \<Rightarrow> player_inventory \<Rightarrow> server_msg list" where
  "touched_deltas t iv = map (\<lambda>(loc, slot). slot_delta loc slot (peek_at loc slot iv)) t"

section \<open>The books\<close>

definition conn_items :: "string \<Rightarrow> connection \<Rightarrow> nat" where
  "conn_items p c = inv_total p (inventory c) + vault_total p (bank_items c) + vault_total p (account_bank_items c)"

definition conn_coin :: "connection \<Rightarrow> int" where
  "conn_coin c = coin_value (coins c) + coin_value (bank_coins c)"

definition queued_delta :: "string \<Rightarrow> item_event_row list \<Rightarrow> int" where
  "queued_delta p evs = (\<Sum>e\<leftarrow>evs. if ev_item e = Some p then ev_delta e else 0)"

definition queued_copper :: "item_event_row list \<Rightarrow> int" where
  "queued_copper evs = (\<Sum>e\<leftarrow>evs. ev_copper e)"

definition item_drift :: "string \<Rightarrow> connection \<Rightarrow> int" where
  "item_drift p c = int (conn_items p c) - queued_delta p (item_events c)"

definition coin_drift :: "connection \<Rightarrow> int" where
  "coin_drift c = conn_coin c - queued_copper (item_events c)"

text \<open>The stores a connection may hold.\<close>

definition conn_ok :: "registry \<Rightarrow> connection \<Rightarrow> bool" where
  "conn_ok R c \<longleftrightarrow> inv_wf R (inventory c) \<and> vault_wf (bank_items c) \<and> vault_wf (account_bank_items c)
     \<and> purse_ok (coins c) \<and> purse_ok (bank_coins c)
     \<and> length (slots (bank_items c)) = BANK_VAULT_SLOTS \<and> length (slots (account_bank_items c)) = ACCOUNT_VAULT_SLOTS"

text \<open>A purse far enough from the \<open>i64\<close> ends: \<open>total_copper\<close> and the tier sums are exact.\<close>

definition coin_cap :: int where "coin_cap = 4611686018427387903"

definition coins_bounded :: "connection \<Rightarrow> bool" where
  "coins_bounded c \<longleftrightarrow> conn_coin c \<le> coin_cap"

text \<open>Who the connection is does not change, its queue stays its own, and no flag is lowered.\<close>

definition raised :: "bool \<Rightarrow> 'a \<Rightarrow> bool \<Rightarrow> 'a \<Rightarrow> bool" where
  "raised d x d' x' \<longleftrightarrow> (d \<or> x' \<noteq> x \<longrightarrow> d')"

definition own_queue :: "connection \<Rightarrow> bool" where
  "own_queue c \<longleftrightarrow> list_all (\<lambda>e. ev_char e = char_id c) (item_events c)"

definition flags_follow :: "connection \<Rightarrow> connection \<Rightarrow> bool" where
  "flags_follow c c' \<longleftrightarrow> char_id c' = char_id c \<and> account_id c' = account_id c \<and> (own_queue c \<longrightarrow> own_queue c')
     \<and> raised (inventory_dirty c) (inventory c) (inventory_dirty c') (inventory c')
     \<and> raised (coins_dirty c) (coins c) (coins_dirty c') (coins c')
     \<and> raised (bank_dirty c) (bank_coins c) (bank_dirty c') (bank_coins c')
     \<and> raised (bank_items_dirty c) (bank_items c) (bank_items_dirty c') (bank_items c')
     \<and> raised (account_bank_items_dirty c) (account_bank_items c) (account_bank_items_dirty c') (account_bank_items c')"

lemma raised_refl [simp]: "raised d x d x" "raised d x True x'"
  by (simp_all add: raised_def)

lemma raised_trans: "raised d x d' x' \<Longrightarrow> raised d' x' d'' x'' \<Longrightarrow> raised d x d'' x''"
  by (auto simp: raised_def)

text \<open>What a handler owes the books.\<close>

definition balanced :: "registry \<Rightarrow> connection \<Rightarrow> connection \<Rightarrow> bool" where
  "balanced R c c' \<longleftrightarrow> conn_ok R c' \<and> (\<forall>p. item_drift p c' = item_drift p c) \<and> coin_drift c' = coin_drift c
     \<and> flags_follow c c'"

lemma balancedI:
  assumes "conn_ok R c'" "\<And>p. item_drift p c' = item_drift p c" "coin_drift c' = coin_drift c" "flags_follow c c'"
  shows "balanced R c c'"
  using assms by (simp add: balanced_def)

lemma flags_follow_refl [simp]: "flags_follow c c"
  by (simp add: flags_follow_def)

lemma flags_follow_trans: "flags_follow a b \<Longrightarrow> flags_follow b c \<Longrightarrow> flags_follow a c"
  unfolding flags_follow_def
  by (elim conjE, intro conjI) (simp_all, (erule (1) raised_trans)+)

lemma balanced_refl: "conn_ok R c \<Longrightarrow> balanced R c c"
  by (simp add: balanced_def)

lemma balanced_trans: "balanced R a b \<Longrightarrow> balanced R b c \<Longrightarrow> balanced R a c"
  by (auto simp: balanced_def intro: flags_follow_trans)

lemma queued_append [simp]:
  "queued_delta p (a @ b) = queued_delta p a + queued_delta p b"
  "queued_copper (a @ b) = queued_copper a + queued_copper b"
  by (simp_all add: queued_delta_def queued_copper_def)

lemma queued_Nil [simp]: "queued_delta p [] = 0" "queued_copper [] = 0"
  by (simp_all add: queued_delta_def queued_copper_def)

lemma queued_single:
  "queued_delta p [e] = (if ev_item e = Some p then ev_delta e else 0)" "queued_copper [e] = ev_copper e"
  by (simp_all add: queued_delta_def queued_copper_def)

lemma ledger_simps [simp]:
  "inventory (ledger t e c) = inventory c" "bank_items (ledger t e c) = bank_items c"
  "account_bank_items (ledger t e c) = account_bank_items c" "coins (ledger t e c) = coins c"
  "bank_coins (ledger t e c) = bank_coins c" "char_id (ledger t e c) = char_id c" "account_id (ledger t e c) = account_id c"
  "inventory_dirty (ledger t e c) = inventory_dirty c" "coins_dirty (ledger t e c) = coins_dirty c"
  "bank_dirty (ledger t e c) = bank_dirty c" "bank_items_dirty (ledger t e c) = bank_items_dirty c"
  "account_bank_items_dirty (ledger t e c) = account_bank_items_dirty c"
  "conn_items p (ledger t e c) = conn_items p c" "conn_coin (ledger t e c) = conn_coin c"
  "conn_ok R (ledger t e c) = conn_ok R c" "own_queue (ledger t e c) = own_queue c"
  by (simp_all add: ledger_def conn_items_def conn_coin_def conn_ok_def own_queue_def)

lemma ledger_drift [simp]:
  "item_drift p (ledger t e c) = item_drift p c - (if ev_item e = Some p then ev_delta e else 0)"
  "coin_drift (ledger t e c) = coin_drift c - ev_copper e"
  by (simp_all add: item_drift_def coin_drift_def) (simp_all add: ledger_def queued_single)

lemma event_simps [simp]:
  "ev_item (item_event a p n d x) = Some p" "ev_delta (item_event a p n d x) = d" "ev_copper (item_event a p n d x) = 0"
  "ev_item (coin_event a k x) = None" "ev_delta (coin_event a k x) = 0" "ev_copper (coin_event a k x) = k"
  by (simp_all add: item_event_def coin_event_def)

text \<open>How an assignment to one field moves the books; the flags do not.\<close>

lemma drift_assign [simp]:
  "item_drift p (c\<lparr>inventory := iv\<rparr>) = item_drift p c + int (inv_total p iv) - int (inv_total p (inventory c))"
  "item_drift p (c\<lparr>bank_items := v\<rparr>) = item_drift p c + int (vault_total p v) - int (vault_total p (bank_items c))"
  "item_drift p (c\<lparr>account_bank_items := v\<rparr>)
     = item_drift p c + int (vault_total p v) - int (vault_total p (account_bank_items c))"
  "item_drift p (c\<lparr>coins := w\<rparr>) = item_drift p c" "item_drift p (c\<lparr>bank_coins := w\<rparr>) = item_drift p c"
  "coin_drift (c\<lparr>coins := w\<rparr>) = coin_drift c + coin_value w - coin_value (coins c)"
  "coin_drift (c\<lparr>bank_coins := w\<rparr>) = coin_drift c + coin_value w - coin_value (bank_coins c)"
  "coin_drift (c\<lparr>inventory := iv\<rparr>) = coin_drift c" "coin_drift (c\<lparr>bank_items := v\<rparr>) = coin_drift c"
  "coin_drift (c\<lparr>account_bank_items := v\<rparr>) = coin_drift c"
  by (simp_all add: item_drift_def coin_drift_def conn_items_def conn_coin_def)

lemma drift_flags [simp]:
  "item_drift p (c\<lparr>inventory_dirty := d\<rparr>) = item_drift p c" "item_drift p (c\<lparr>coins_dirty := d\<rparr>) = item_drift p c"
  "item_drift p (c\<lparr>bank_dirty := d\<rparr>) = item_drift p c" "item_drift p (c\<lparr>bank_items_dirty := d\<rparr>) = item_drift p c"
  "item_drift p (c\<lparr>account_bank_items_dirty := d\<rparr>) = item_drift p c"
  "coin_drift (c\<lparr>inventory_dirty := d\<rparr>) = coin_drift c" "coin_drift (c\<lparr>coins_dirty := d\<rparr>) = coin_drift c"
  "coin_drift (c\<lparr>bank_dirty := d\<rparr>) = coin_drift c" "coin_drift (c\<lparr>bank_items_dirty := d\<rparr>) = coin_drift c"
  "coin_drift (c\<lparr>account_bank_items_dirty := d\<rparr>) = coin_drift c"
  by (simp_all add: item_drift_def coin_drift_def conn_items_def conn_coin_def)

lemma own_queue_assign [simp]:
  "own_queue (c\<lparr>inventory := x0\<rparr>) = own_queue c" "own_queue (c\<lparr>bank_items := x1\<rparr>) = own_queue c"
  "own_queue (c\<lparr>account_bank_items := x2\<rparr>) = own_queue c" "own_queue (c\<lparr>coins := x3\<rparr>) = own_queue c"
  "own_queue (c\<lparr>bank_coins := x4\<rparr>) = own_queue c" "own_queue (c\<lparr>inventory_dirty := x5\<rparr>) = own_queue c"
  "own_queue (c\<lparr>coins_dirty := x6\<rparr>) = own_queue c" "own_queue (c\<lparr>bank_dirty := x7\<rparr>) = own_queue c"
  "own_queue (c\<lparr>bank_items_dirty := x8\<rparr>) = own_queue c" "own_queue (c\<lparr>account_bank_items_dirty := x9\<rparr>) = own_queue c"
  by (simp_all add: own_queue_def)

text \<open>What a handler's proof unfolds.\<close>

lemmas books = balanced_def conn_ok_def flags_follow_def

text \<open>A rollback to a mark undoes exactly the rows queued since.\<close>

lemma ledger_rollback_mark:
  "ledger_rollback (ledger_mark c) (c\<lparr>item_events := item_events c @ rows\<rparr>) = c"
  by (simp add: ledger_rollback_def ledger_mark_def)

lemma conn_okD:
  assumes "conn_ok R c"
  shows "inv_wf R (inventory c)" "vault_wf (bank_items c)" "vault_wf (account_bank_items c)"
    "purse_ok (coins c)" "purse_ok (bank_coins c)"
  using assms by (simp_all add: conn_ok_def)

lemma coin_value_purse: "purse_ok c \<Longrightarrow> 0 \<le> coin_value c"
  by (simp add: purse_ok_def coin_value_nonneg)

text \<open>
  The interface of a handler step: it keeps the books of every intent that is \<open>safe\<close> in the state it
  meets.  A client that runs a queue of intents through such a step keeps them too.
\<close>

locale ledgered =
  fixes step :: "'i \<Rightarrow> connection \<Rightarrow> connection" and R :: registry and safe :: "'i \<Rightarrow> connection \<Rightarrow> bool"
  assumes keeps: "conn_ok R c \<Longrightarrow> safe i c \<Longrightarrow> balanced R c (step i c)"
begin

fun safe_run :: "'i list \<Rightarrow> connection \<Rightarrow> bool" where
  "safe_run [] c = True"
| "safe_run (i # is) c = (safe i c \<and> safe_run is (step i c))"

lemma run_keeps: "conn_ok R c \<Longrightarrow> safe_run is c \<Longrightarrow> balanced R c (fold step is c)"
proof (induction "is" arbitrary: c)
  case (Cons i "is")
  then have step: "balanced R c (step i c)" by (simp add: keeps)
  then have "conn_ok R (step i c)" by (simp add: balanced_def)
  then have "balanced R (step i c) (fold step is (step i c))" using Cons by simp
  with step show ?case by (simp add: balanced_trans [of R c "step i c"])
qed (simp add: balanced_refl)

end

end
