(* ===== verification/Town.thy ===== *)
theory Town
  imports Demo Conn
begin

text \<open>
  The rest of the small world of the witnesses: a spot with a banker and a merchant on it, and a
  character standing there with the demo inventory, a purse, a bank account and empty vaults.
\<close>

definition demo_spot :: vec3f where "demo_spot = \<lparr>vx = 0, vy = 0, vz = 0\<rparr>"

definition demo_npc :: "string \<Rightarrow> npc" where
  "demo_npc kind = \<lparr>npc_id = kind, npc_name = ''Mara'', kinds = [kind], npc_pos = demo_spot, npc_faction = None,
     vendor_type = None, stock = [''Iron Sword'', ''Ration'']\<rparr>"

definition demo_env :: env where
  "demo_env = \<lparr>reg = demo_registry, npcs = [demo_npc ''banker'', demo_npc ''vendor''], faction_table = [], now = 60\<rparr>"

definition demo_conn :: connection where
  "demo_conn =
     \<lparr>char_id = 1, account_id = 9, cname = ''Ayla'', race = ''elf'', cls = ''ranger'', pos = demo_spot,
      in_world = True, death_processed = False, hp = 0x42c80000,
      coins = \<lparr>platinum = 0, gold = 0, silver = 5, copper = 0\<rparr>,
      bank_coins = \<lparr>platinum = 0, gold = 1, silver = 0, copper = 0\<rparr>, inventory = demo_inventory,
      inventory_dirty = False, coins_dirty = False, bank_dirty = False, bank_items = vault_new BANK_VAULT_SLOTS,
      bank_items_dirty = False, account_bank_items = vault_new ACCOUNT_VAULT_SLOTS, account_bank_items_dirty = False,
      item_events = [], autosplit = False, factions = []\<rparr>"

text \<open>A second character, with empty hands and bags and two silver.\<close>

definition demo_partner :: connection where
  "demo_partner = demo_conn\<lparr>char_id := 2, account_id := 10, cname := ''Bryn'', inventory := inventory_new,
     coins := \<lparr>platinum = 0, gold = 0, silver = 2, copper = 0\<rparr>, bank_coins := coins_ZERO\<rparr>"

lemma zero_f32: "f32_sub 0 0 = 0" "f32_mul 0 0 = 0" "f32_add 0 0 = 0" "f32_sqrt 0 = 0"
  by (simp_all add: f32_eval f32_sqrt_def)

lemma demo_distance [simp]: "distance_to demo_spot demo_spot = 0"
  by (simp add: distance_to_def vec_length_def vec_sub_def demo_spot_def zero_f32)

lemma in_reach [simp]: "f32_le 0 NPC_SERVICE_RANGE"
  by (simp add: NPC_SERVICE_RANGE_def f32_eval)

lemma demo_serves: "npc_serves demo_env c (demo_npc kind) Apprehensive"
  by (simp add: npc_serves_def npc_faction_level_def demo_npc_def less_eq_level_def)

lemma demo_range:
  "all_within_range (npcs demo_env) ''banker'' demo_spot = [demo_npc ''banker'']"
  "all_within_range (npcs demo_env) ''vendor'' demo_spot = [demo_npc ''vendor'']"
  by (simp_all add: all_within_range_def demo_env_def demo_npc_def)

lemma demo_service [simp]:
  "npc_service demo_env demo_conn ''banker'' = Inr (demo_npc ''banker'')"
  "npc_service demo_env demo_conn ''vendor'' = Inr (demo_npc ''vendor'')"
proof -
  have "pos demo_conn = demo_spot" by (simp add: demo_conn_def)
  then show "npc_service demo_env demo_conn ''banker'' = Inr (demo_npc ''banker'')"
    "npc_service demo_env demo_conn ''vendor'' = Inr (demo_npc ''vendor'')"
    by (simp_all add: npc_service_def demo_range demo_serves Let_def)
qed

lemma vault_new_facts [simp]: "vault_wf (vault_new n)" "vault_total q (vault_new n) = 0" "length (slots (vault_new n)) = n"
  by (simp_all add: vault_wf_def vault_total_def vault_new_def list_all_iff)

lemma demo_conn_ok: "conn_ok demo_registry demo_conn" "coins_bounded demo_conn"
  by (simp_all add: conn_ok_def demo_conn_def purse_ok_def has_negative_def fits64_def coins_bounded_def conn_coin_def coin_value_def
      coin_cap_def)

lemma demo_partner_ok: "conn_ok demo_registry demo_partner" "coins_bounded demo_partner"
  by (simp_all add: conn_ok_def demo_partner_def demo_conn_def purse_ok_def has_negative_def fits64_def coins_bounded_def conn_coin_def
      coin_value_def coin_cap_def coins_ZERO_def inv_wf_new)

lemma demo_env_reg [simp]: "reg demo_env = demo_registry"
  by (simp add: demo_env_def)

end
