(* ===== verification/Standing.thy ===== *)
theory Standing
  imports Town
begin

text \<open>What a character's faction standing means at the counter: the service threshold of
  \<open>world/connection.rs\<close> and \<open>world/factions.rs\<close>, float arithmetic included.\<close>

text \<open>C39. A banker or merchant with a faction serves a character exactly when the character's whole-number
  standing with it, plus the modifiers of race and class, is at least -100; the float additions and comparisons on
  the way are exact in the range the standings live in.\<close>

theorem service_threshold:
  assumes "npc_faction n = Some i" "faction_lookup (faction_table E) i = Some f" "f32_int (faction_standing c f) k"
    and "\<bar>start_modifier f (race c) (cls c)\<bar> \<le> 2 ^ 23" "\<bar>k\<bar> \<le> 2 ^ 23"
  shows "npc_serves E c n Apprehensive \<longleftrightarrow> - 100 \<le> k + start_modifier f (race c) (cls c)"
  using serves_threshold [OF assms(3-5)] assms(1,2)
  by (simp add: npc_serves_def npc_faction_level_def faction_level_def)

definition demo_guild :: faction where
  "demo_guild = \<lparr>fac_id = ''guild'', fac_name = ''Guild'', allies = [], enemies = [], start_race = [(''elf'', -150)],
     start_class = [(''ranger'', 60)]\<rparr>"

theorem service_threshold_witness:
  "npc_serves (demo_env\<lparr>faction_table := [demo_guild]\<rparr>) demo_conn ((demo_npc ''banker'')\<lparr>npc_faction := Some ''guild''\<rparr>) Apprehensive"
proof -
  have "faction_standing demo_conn demo_guild = 0" by (simp add: faction_standing_def demo_conn_def)
  moreover have "start_modifier demo_guild (race demo_conn) (cls demo_conn) = - 90"
    by (simp add: start_modifier_def demo_guild_def demo_conn_def wrap32_def)
  moreover have "f32_int 0 0" by (simp add: f32_int_def f32_eval)
  ultimately show ?thesis
    using service_threshold [of "(demo_npc ''banker'')\<lparr>npc_faction := Some ''guild''\<rparr>" "''guild''" "demo_env\<lparr>faction_table := [demo_guild]\<rparr>"
        demo_guild demo_conn 0]
    by (simp add: faction_lookup_def) (simp add: demo_guild_def)
qed

text \<open>A better standing never lowers the level: the thresholds are in order, for every pair of floats that compare.\<close>

theorem better_standing_better_level:
  assumes "f32_le v w"
  shows "level_for v \<le> level_for w"
  using assms by (rule level_for_mono)

theorem better_standing_better_level_witness: "level_for 0xc2c80000 \<le> level_for 0x42c80000"
  using better_standing_better_level [of "0xc2c80000" "0x42c80000"] by (simp add: f32_eval)

end
