(* ===== verification/Persist.thy ===== *)
theory Persist
  imports Conn
begin

text \<open>
  The store flush (\<open>world/persistence.rs\<close> and the queries of \<open>db/mod.rs\<close> it runs): the rows a
  connection's stores become, one transaction for all of them and the queued ledger rows, the
  conservation query and the prune.  SQLite itself is not modelled: a table is the list of its
  rows and a transaction either commits as a whole or leaves them alone.
\<close>

record store_db =
  characters :: "(int \<times> int) list"
  character_items :: "(int \<times> inventory_row) list"
  wallets :: "(int \<times> coins) list"
  bank_wallets :: "(int \<times> coins) list"
  bank_rows :: "(int \<times> bank_item_row) list"
  account_rows :: "(int \<times> bank_item_row) list"
  event_rows :: "item_event_row list"

text \<open>\<open>DELETE \<dots> WHERE key = k\<close> then the inserts; \<open>UPDATE \<dots> WHERE id = k\<close>.\<close>

definition replace_rows :: "int \<Rightarrow> 'r list option \<Rightarrow> (int \<times> 'r) list \<Rightarrow> (int \<times> 'r) list" where
  "replace_rows k new t =
     (case new of None \<Rightarrow> t | Some rows \<Rightarrow> filter (\<lambda>(i, _). i \<noteq> k) t @ map (Pair k) rows)"

definition update_row :: "int \<Rightarrow> 'v option \<Rightarrow> (int \<times> 'v) list \<Rightarrow> (int \<times> 'v) list" where
  "update_row k new t = (case new of None \<Rightarrow> t | Some v \<Rightarrow> map (\<lambda>(i, w). (i, if i = k then v else w)) t)"

text \<open>\<open>commits\<close> is the database's answer; on an error the transaction is dropped with no effect.\<close>

definition save_stores_atomic :: "bool \<Rightarrow> int \<Rightarrow> int \<Rightarrow> inventory_row list option \<Rightarrow> coins option \<Rightarrow> coins option
    \<Rightarrow> bank_item_row list option \<Rightarrow> bank_item_row list option \<Rightarrow> item_event_row list \<Rightarrow> store_db \<Rightarrow> store_db option" where
  "save_stores_atomic commits ch ac inv_new wallet bank bank_its acct_its evs db =
     (if \<not> commits then None
      else Some (db\<lparr>character_items := replace_rows ch inv_new (character_items db),
                    wallets := update_row ch wallet (wallets db),
                    bank_wallets := update_row ch bank (bank_wallets db),
                    bank_rows := replace_rows ch bank_its (bank_rows db),
                    account_rows := replace_rows ac acct_its (account_rows db),
                    event_rows := event_rows db @ evs\<rparr>))"

definition when_dirty :: "bool \<Rightarrow> 'a \<Rightarrow> 'a option" where
  "when_dirty d x = (if d then Some x else None)"

definition persist_dirty_stores :: "bool \<Rightarrow> connection \<Rightarrow> store_db \<Rightarrow> bool \<times> connection \<times> store_db" where
  "persist_dirty_stores commits c db =
     (if \<not> any_store_dirty c \<and> item_events c = [] then (True, c, db)
      else case save_stores_atomic commits (char_id c) (account_id c)
             (when_dirty (inventory_dirty c) (to_rows (inventory c)))
             (when_dirty (coins_dirty c) (coins c))
             (when_dirty (bank_dirty c) (bank_coins c))
             (when_dirty (bank_items_dirty c) (vault_to_rows (bank_items c)))
             (when_dirty (account_bank_items_dirty c) (vault_to_rows (account_bank_items c)))
             (item_events c) db of
        None \<Rightarrow> (False, c, db)
      | Some db' \<Rightarrow>
          (True, c\<lparr>inventory_dirty := False, coins_dirty := False, bank_dirty := False, bank_items_dirty := False,
                   account_bank_items_dirty := False, item_events := []\<rparr>, db'))"

section \<open>The conservation query and the prune\<close>

text \<open>The account of a row's character, as the join finds it.\<close>

definition account_of :: "store_db \<Rightarrow> int \<Rightarrow> int option" where
  "account_of db i = map_of (characters db) i"

definition db_ledger :: "store_db \<Rightarrow> int \<Rightarrow> string \<Rightarrow> int" where
  "db_ledger db a p =
     (\<Sum>e\<leftarrow>event_rows db. if account_of db (ev_char e) = Some a \<and> ev_item e = Some p then ev_delta e else 0)"

definition db_held :: "store_db \<Rightarrow> int \<Rightarrow> string \<Rightarrow> int" where
  "db_held db a p =
     (\<Sum>(i, r)\<leftarrow>character_items db. if account_of db i = Some a \<and> row_item_path r = p then row_count r else 0)
     + (\<Sum>(i, r)\<leftarrow>bank_rows db. if account_of db i = Some a \<and> bank_item_path r = p then bank_count r else 0)
     + (\<Sum>(i, r)\<leftarrow>account_rows db. if i = a \<and> bank_item_path r = p then bank_count r else 0)"

definition db_ledger_coin :: "store_db \<Rightarrow> int \<Rightarrow> int" where
  "db_ledger_coin db a = (\<Sum>e\<leftarrow>event_rows db. if account_of db (ev_char e) = Some a then ev_copper e else 0)"

definition db_held_coin :: "store_db \<Rightarrow> int \<Rightarrow> int" where
  "db_held_coin db a =
     (\<Sum>(i, w)\<leftarrow>wallets db. if account_of db i = Some a then coin_value w else 0)
     + (\<Sum>(i, w)\<leftarrow>bank_wallets db. if account_of db i = Some a then coin_value w else 0)"

text \<open>The keys the query joins on, and its answer: (account, item or coin, ledger, held).\<close>

definition mismatch_keys :: "store_db \<Rightarrow> (int \<times> string) list" where
  "mismatch_keys db = remdups
     (concat (map (\<lambda>e. case (account_of db (ev_char e), ev_item e) of (Some a, Some p) \<Rightarrow> [(a, p)] | _ \<Rightarrow> []) (event_rows db))
      @ concat (map (\<lambda>(i, r). case account_of db i of Some a \<Rightarrow> [(a, row_item_path r)] | None \<Rightarrow> []) (character_items db))
      @ concat (map (\<lambda>(i, r). case account_of db i of Some a \<Rightarrow> [(a, bank_item_path r)] | None \<Rightarrow> []) (bank_rows db))
      @ map (\<lambda>(a, r). (a, bank_item_path r)) (account_rows db))"

definition ledger_mismatches :: "store_db \<Rightarrow> (int \<times> string option \<times> int \<times> int) list" where
  "ledger_mismatches db =
     map (\<lambda>(a, p). (a, Some p, db_ledger db a p, db_held db a p))
       (filter (\<lambda>(a, p). db_ledger db a p \<noteq> db_held db a p) (mismatch_keys db))
     @ map (\<lambda>a. (a, None, db_ledger_coin db a, db_held_coin db a))
         (filter (\<lambda>a. db_ledger_coin db a \<noteq> db_held_coin db a) (remdups (map snd (characters db))))"

definition carry_row :: "int \<Rightarrow> item_event_row list \<Rightarrow> int \<times> string option \<Rightarrow> item_event_row" where
  "carry_row cutoff old k =
     \<lparr>ev_at = cutoff, ev_char = fst k, ev_action = ''carry'', ev_item = snd k, ev_count = 0,
      ev_delta = (\<Sum>e\<leftarrow>filter (\<lambda>e. (ev_char e, ev_item e) = k) old. ev_delta e),
      ev_copper = (\<Sum>e\<leftarrow>filter (\<lambda>e. (ev_char e, ev_item e) = k) old. ev_copper e),
      ev_detail = Some ''folded''\<rparr>"

definition fold_item_events_before :: "int \<Rightarrow> store_db \<Rightarrow> store_db" where
  "fold_item_events_before cutoff db =
     (let old = filter (\<lambda>e. ev_at e < cutoff) (event_rows db);
          carries = filter (\<lambda>r. ev_delta r \<noteq> 0 \<or> ev_copper r \<noteq> 0)
                      (map (carry_row cutoff old) (remdups (map (\<lambda>e. (ev_char e, ev_item e)) old)))
      in db\<lparr>event_rows := filter (\<lambda>e. \<not> ev_at e < cutoff) (event_rows db @ carries)\<rparr>)"

section \<open>Rows hold what the store holds\<close>

definition rows_total :: "string \<Rightarrow> inventory_row list \<Rightarrow> int" where
  "rows_total p rows = (\<Sum>r\<leftarrow>rows. if row_item_path r = p then row_count r else 0)"

definition vrows_total :: "string \<Rightarrow> bank_item_row list \<Rightarrow> int" where
  "vrows_total p rows = (\<Sum>r\<leftarrow>rows. if bank_item_path r = p then bank_count r else 0)"

lemma rows_total_append [simp]: "rows_total p (a @ b) = rows_total p a + rows_total p b"
  by (simp add: rows_total_def)

lemma rows_total_Nil [simp]: "rows_total p [] = 0"
  by (simp add: rows_total_def)

lemma concat_rows_total: "rows_total p (concat xss) = (\<Sum>xs\<leftarrow>xss. rows_total p xs)"
  by (induction xss) simp_all

lemma mk_row_total: "small_cell (Some e) \<Longrightarrow> rows_total p [mk_row loc s e] = int (cell_count p (Some e))"
  by (simp add: rows_total_def mk_row_def small_cell_def)

lemma cell_rows_total:
  assumes "list_all small_cell cs"
  shows "rows_total p (cell_rows loc cs) = int (cells_total p cs)"
proof -
  have "rows_total p (case cs ! i of None \<Rightarrow> [] | Some e \<Rightarrow> [mk_row loc i e]) = int (cell_count p (cs ! i))"
    if "i < length cs" for i
    using assms that mk_row_total [of _ p loc i] by (auto simp: list_all_length split: option.splits)
  then have "rows_total p (cell_rows loc cs) = (\<Sum>i\<leftarrow>[0..<length cs]. int (cell_count p (cs ! i)))"
    unfolding cell_rows_def concat_rows_total map_map by (intro arg_cong [of _ _ sum_list] map_cong) simp_all
  also have "map (\<lambda>i. int (cell_count p (cs ! i))) [0..<length cs] = map (\<lambda>c. int (cell_count p c)) cs"
    by (intro nth_equalityI) simp_all
  finally show ?thesis by (simp add: cells_total_def sum_list_of_nat [symmetric] o_def)
qed

lemma equip_rows_total:
  "list_all (\<lambda>(k, e). small_cell (Some e)) m \<Longrightarrow>
     rows_total p (map (\<lambda>(k, e). mk_row loc k e) m) = int (equip_total p m)"
proof (induction m)
  case (Cons x m)
  obtain k e where x: "x = (k, e)" by (metis surj_pair)
  with Cons have ih: "rows_total p (map (\<lambda>(k, e). mk_row loc k e) m) = int (equip_total p m)" and s: "small_cell (Some e)"
    by simp_all
  from mk_row_total [OF s, of p loc k] ih show ?case by (simp add: x equip_total_def rows_total_def)
qed (simp add: equip_total_def)

lemma bag_rows_total:
  "list_all (\<lambda>(k, arr). list_all small_cell arr) m \<Longrightarrow>
     rows_total p (concat (map (\<lambda>(k, arr). cell_rows (bag_loc k) arr) m)) = int (bags_total p m)"
  by (induction m) (auto simp: bags_total_def cell_rows_total)

lemma to_rows_total:
  assumes "rows_small iv"
  shows "rows_total p (to_rows iv) = int (inv_total p iv)"
proof -
  have "rows_total p (case cursor iv of None \<Rightarrow> [] | Some e \<Rightarrow> [mk_row ''cursor'' 0 e]) = int (cell_count p (cursor iv))"
    using assms mk_row_total [of _ p "''cursor''" 0] by (auto simp: rows_small_def split: option.splits)
  then show ?thesis
    using assms by (simp add: to_rows_def inv_total_def rows_small_def cell_rows_total equip_rows_total bag_rows_total)
qed

lemma vault_rows_total:
  assumes "list_all small_cell (slots v)"
  shows "vrows_total p (vault_to_rows v) = int (vault_total p v)"
proof -
  let ?cs = "slots v"
  have app: "vrows_total p (concat xss) = (\<Sum>xs\<leftarrow>xss. vrows_total p xs)" for xss
    by (induction xss) (simp_all add: vrows_total_def)
  have "vrows_total p (case ?cs ! i of None \<Rightarrow> [] | Some e \<Rightarrow> [vault_row i e]) = int (cell_count p (?cs ! i))"
    if "i < length ?cs" for i
    using assms that by (auto simp: list_all_length small_cell_def vrows_total_def vault_row_def dest!: spec [of _ i] split: option.splits)
  then have "vrows_total p (vault_to_rows v) = (\<Sum>i\<leftarrow>[0..<length ?cs]. int (cell_count p (?cs ! i)))"
    unfolding vault_to_rows_def app map_map by (intro arg_cong [of _ _ sum_list] map_cong) simp_all
  also have "map (\<lambda>i. int (cell_count p (?cs ! i))) [0..<length ?cs] = map (\<lambda>c. int (cell_count p c)) ?cs"
    by (intro nth_equalityI) simp_all
  finally show ?thesis by (simp add: vault_total_def cells_total_def sum_list_of_nat [symmetric] o_def)
qed

section \<open>A commit keeps the books\<close>

text \<open>What the database holds of this character and of its account's shared vault.\<close>

definition saved_items :: "string \<Rightarrow> connection \<Rightarrow> store_db \<Rightarrow> int" where
  "saved_items p c db =
     rows_total p (map snd (filter (\<lambda>(i, _). i = char_id c) (character_items db)))
     + vrows_total p (map snd (filter (\<lambda>(i, _). i = char_id c) (bank_rows db)))
     + vrows_total p (map snd (filter (\<lambda>(i, _). i = account_id c) (account_rows db)))"

definition saved_coin :: "connection \<Rightarrow> store_db \<Rightarrow> int" where
  "saved_coin c db =
     (\<Sum>(i, w)\<leftarrow>wallets db. if i = char_id c then coin_value w else 0)
     + (\<Sum>(i, w)\<leftarrow>bank_wallets db. if i = char_id c then coin_value w else 0)"

text \<open>
  The state between two commits: a store that is not dirty is saved as it is, a queued row is this
  character's, and what the memory holds beyond the saved stores is what the queue says.
\<close>

definition clean_saved :: "connection \<Rightarrow> store_db \<Rightarrow> bool" where
  "clean_saved c db \<longleftrightarrow>
     (inventory_dirty c \<or> map snd (filter (\<lambda>(i, _). i = char_id c) (character_items db)) = to_rows (inventory c))
     \<and> (bank_items_dirty c \<or> map snd (filter (\<lambda>(i, _). i = char_id c) (bank_rows db)) = vault_to_rows (bank_items c))
     \<and> (account_bank_items_dirty c \<or>
          map snd (filter (\<lambda>(i, _). i = account_id c) (account_rows db)) = vault_to_rows (account_bank_items c))
     \<and> (coins_dirty c \<or> map_of (wallets db) (char_id c) = Some (coins c))
     \<and> (bank_dirty c \<or> map_of (bank_wallets db) (char_id c) = Some (bank_coins c))"

definition db_ok :: "connection \<Rightarrow> store_db \<Rightarrow> bool" where
  "db_ok c db \<longleftrightarrow> account_of db (char_id c) = Some (account_id c)
     \<and> distinct (map fst (wallets db)) \<and> distinct (map fst (bank_wallets db))
     \<and> char_id c \<in> set (map fst (wallets db)) \<and> char_id c \<in> set (map fst (bank_wallets db))"

definition accounted :: "connection \<Rightarrow> store_db \<Rightarrow> bool" where
  "accounted c db \<longleftrightarrow> db_ok c db \<and> clean_saved c db \<and> own_queue c
     \<and> (\<forall>p. item_drift p c = saved_items p c db) \<and> coin_drift c = saved_coin c db"

definition conn_small :: "connection \<Rightarrow> bool" where
  "conn_small c \<longleftrightarrow> rows_small (inventory c) \<and> list_all small_cell (slots (bank_items c))
     \<and> list_all small_cell (slots (account_bank_items c))"

lemma replace_rows_mine:
  fixes t :: "(int \<times> 'r) list"
  shows "map snd (filter (\<lambda>(i, _). i = k) (replace_rows k new t)) =
     (case new of None \<Rightarrow> map snd (filter (\<lambda>(i, _). i = k) t) | Some rows \<Rightarrow> rows)"
proof -
  have "filter (\<lambda>(i, _). i = k) (filter (\<lambda>(i, _). i \<noteq> k) t) = []" by (induction t) auto
  moreover have "map snd (filter (\<lambda>(i, _). i = k) (map (Pair k) rows)) = rows" for rows :: "'r list" by (induction rows) auto
  ultimately show ?thesis by (simp add: replace_rows_def split: option.split)
qed

text \<open>A sum over the table changes by what the sum over the replaced key's rows changes by.\<close>

lemma replace_rows_sum:
  fixes f :: "int \<Rightarrow> 'r \<Rightarrow> int"
  shows "(\<Sum>(i, r)\<leftarrow>replace_rows k new t. f i r) = (\<Sum>(i, r)\<leftarrow>t. f i r)
     + (case new of None \<Rightarrow> 0 | Some rows \<Rightarrow> (\<Sum>r\<leftarrow>rows. f k r) - (\<Sum>r\<leftarrow>map snd (filter (\<lambda>(i, _). i = k) t). f k r))"
proof -
  have "(\<Sum>(i, r)\<leftarrow>t. f i r) = (\<Sum>(i, r)\<leftarrow>filter (\<lambda>(i, _). i \<noteq> k) t. f i r) + (\<Sum>r\<leftarrow>map snd (filter (\<lambda>(i, _). i = k) t). f k r)"
    by (induction t) auto
  then show ?thesis by (simp add: replace_rows_def o_def split: option.split)
qed

lemma update_row_sum:
  fixes f :: "int \<Rightarrow> 'v \<Rightarrow> int"
  assumes "distinct (map fst t)" "map_of t k = Some old"
  shows "(\<Sum>(i, v)\<leftarrow>update_row k new t. f i v) = (\<Sum>(i, v)\<leftarrow>t. f i v)
     + (case new of None \<Rightarrow> 0 | Some v \<Rightarrow> f k v - f k old)"
proof (cases new)
  case (Some v)
  have "(\<Sum>(i, w)\<leftarrow>map (\<lambda>(i, w). (i, if i = k then v else w)) t. f i w) = (\<Sum>(i, w)\<leftarrow>t. f i w)
      + (if k \<in> set (map fst t) then f k v - f k (the (map_of t k)) else 0)"
    using assms(1) by (induction t) (auto simp: rev_image_eqI)
  moreover have "k \<in> set (map fst t)" using assms(2) by (metis map_of_eq_None_iff option.distinct(1) list.set_map)
  ultimately show ?thesis using Some assms(2) by (simp add: update_row_def)
qed (simp add: update_row_def)

lemma update_row_lookup:
  assumes "k \<in> set (map fst t)"
  shows "map_of (update_row k new t) k = (case new of None \<Rightarrow> map_of t k | Some v \<Rightarrow> Some v)"
    and "map fst (update_row k new t) = map fst t"
proof -
  have "map_of (map (\<lambda>(i, w). (i, if i = k then v else w)) t) k = Some v" for v
    using assms by (induction t) auto
  then show "map_of (update_row k new t) k = (case new of None \<Rightarrow> map_of t k | Some v \<Rightarrow> Some v)"
    by (simp add: update_row_def split: option.split)
  show "map fst (update_row k new t) = map fst t"
    by (auto simp: update_row_def split: option.split)
qed

lemma wallet_row:
  "db_ok c db \<Longrightarrow> \<exists>w. map_of (wallets db) (char_id c) = Some w"
  "db_ok c db \<Longrightarrow> \<exists>w. map_of (bank_wallets db) (char_id c) = Some w"
  unfolding db_ok_def by (metis map_of_eq_None_iff list.set_map not_None_eq)+

lemma keyed_value: "distinct (map fst t) \<Longrightarrow> map_of t k = Some w \<Longrightarrow>
    (\<Sum>(i, v)\<leftarrow>t. if i = k then f v else (0::int)) = f w"
proof (induction t)
  case (Cons x t)
  obtain i v where x: "x = (i, v)" by (metis surj_pair)
  show ?case
  proof (cases "i = k")
    case True
    have "(\<Sum>(i, v)\<leftarrow>t. if i = k then f v else 0) = 0"
      using Cons.prems(1) x True by (induction t) auto
    then show ?thesis using Cons.prems(2) x True by simp
  next
    case False
    then show ?thesis using Cons x by simp
  qed
qed simp

text \<open>What a successful flush wrote.\<close>

lemma persist_commit:
  assumes "persist_dirty_stores commits c db = (True, c', db')" "any_store_dirty c \<or> item_events c \<noteq> []"
  shows "c' = c\<lparr>inventory_dirty := False, coins_dirty := False, bank_dirty := False, bank_items_dirty := False,
                account_bank_items_dirty := False, item_events := []\<rparr>"
    and "db' = db\<lparr>character_items := replace_rows (char_id c) (when_dirty (inventory_dirty c) (to_rows (inventory c))) (character_items db),
               wallets := update_row (char_id c) (when_dirty (coins_dirty c) (coins c)) (wallets db),
               bank_wallets := update_row (char_id c) (when_dirty (bank_dirty c) (bank_coins c)) (bank_wallets db),
               bank_rows := replace_rows (char_id c) (when_dirty (bank_items_dirty c) (vault_to_rows (bank_items c))) (bank_rows db),
               account_rows := replace_rows (account_id c) (when_dirty (account_bank_items_dirty c) (vault_to_rows (account_bank_items c))) (account_rows db),
               event_rows := event_rows db @ item_events c\<rparr>"
  using assms by (auto simp: persist_dirty_stores_def save_stores_atomic_def split: if_splits option.splits)

lemma commit_saves:
  assumes acc: "accounted c db" and small: "conn_small c"
    and c': "c' = c\<lparr>inventory_dirty := False, coins_dirty := False, bank_dirty := False, bank_items_dirty := False,
                account_bank_items_dirty := False, item_events := []\<rparr>"
    and db': "db' = db\<lparr>character_items := replace_rows (char_id c) (when_dirty (inventory_dirty c) (to_rows (inventory c))) (character_items db),
               wallets := update_row (char_id c) (when_dirty (coins_dirty c) (coins c)) (wallets db),
               bank_wallets := update_row (char_id c) (when_dirty (bank_dirty c) (bank_coins c)) (bank_wallets db),
               bank_rows := replace_rows (char_id c) (when_dirty (bank_items_dirty c) (vault_to_rows (bank_items c))) (bank_rows db),
               account_rows := replace_rows (account_id c) (when_dirty (account_bank_items_dirty c) (vault_to_rows (account_bank_items c))) (account_rows db),
               event_rows := event_rows db @ item_events c\<rparr>"
  shows "accounted c' db'" "saved_items p c db' = int (conn_items p c)" "saved_coin c db' = conn_coin c"
proof -
  have dbok: "db_ok c db" and clean: "clean_saved c db" using acc by (simp_all add: accounted_def)
  note keys = dbok [unfolded db_ok_def]
  have mine: "map snd (filter (\<lambda>(i, _). i = char_id c) (character_items db')) = to_rows (inventory c)"
    "map snd (filter (\<lambda>(i, _). i = char_id c) (bank_rows db')) = vault_to_rows (bank_items c)"
    "map snd (filter (\<lambda>(i, _). i = account_id c) (account_rows db')) = vault_to_rows (account_bank_items c)"
    using clean by (auto simp: db' replace_rows_mine clean_saved_def when_dirty_def)
  have w: "map_of (wallets db') (char_id c) = Some (coins c)" "map_of (bank_wallets db') (char_id c) = Some (bank_coins c)"
    using clean keys by (auto simp: db' update_row_lookup clean_saved_def when_dirty_def)
  have fst': "map fst (wallets db') = map fst (wallets db)" "map fst (bank_wallets db') = map fst (bank_wallets db)"
    using keys by (simp_all add: db' update_row_lookup(2))
  show items: "saved_items p c db' = int (conn_items p c)" for p
    using small by (simp add: saved_items_def mine conn_items_def to_rows_total vault_rows_total conn_small_def)
  show coin: "saved_coin c db' = conn_coin c"
    using keyed_value [OF _ w(1), of coin_value] keyed_value [OF _ w(2), of coin_value] keys fst'
    by (simp add: saved_coin_def conn_coin_def)
  have "clean_saved c' db'" using mine w by (simp add: clean_saved_def c')
  moreover have "db_ok c' db'" using keys fst' by (simp add: db_ok_def c' account_of_def db')
  moreover have "saved_items p c' db' = saved_items p c db'" "saved_coin c' db' = saved_coin c db'" for p
    by (simp_all add: saved_items_def saved_coin_def c')
  moreover have "item_drift p c' = int (conn_items p c)" "coin_drift c' = conn_coin c" for p
    by (simp_all add: item_drift_def coin_drift_def conn_items_def conn_coin_def c')
  ultimately show "accounted c' db'" using items coin by (simp add: accounted_def own_queue_def) (simp add: c')
qed

lemma replace_rows_diff:
  fixes f :: "int \<Rightarrow> 'r \<Rightarrow> int"
  shows "(\<Sum>(i, r)\<leftarrow>replace_rows k new t. f i r) = (\<Sum>(i, r)\<leftarrow>t. f i r)
     + (\<Sum>r\<leftarrow>map snd (filter (\<lambda>(i, _). i = k) (replace_rows k new t)). f k r)
     - (\<Sum>r\<leftarrow>map snd (filter (\<lambda>(i, _). i = k) t). f k r)"
  unfolding replace_rows_sum replace_rows_mine by (simp split: option.split)

lemma guarded_rows:
  "(\<Sum>r\<leftarrow>rows. if B \<and> row_item_path r = p then row_count r else 0) = (if B then rows_total p rows else 0)"
  "(\<Sum>r\<leftarrow>vrows. if B \<and> bank_item_path r = p then bank_count r else 0) = (if B then vrows_total p vrows else 0)"
  by (simp_all add: rows_total_def vrows_total_def)

text \<open>Every account's books differ from its rows after the commit by what they did before it.\<close>

lemma commit_books:
  assumes acc: "accounted c db" and small: "conn_small c"
    and res: "persist_dirty_stores commits c db = (True, c', db')"
  shows "db_held db' a p - db_ledger db' a p = db_held db a p - db_ledger db a p"
    and "db_held_coin db' a - db_ledger_coin db' a = db_held_coin db a - db_ledger_coin db a"
proof -
  have "db_held db' a p - db_ledger db' a p = db_held db a p - db_ledger db a p
      \<and> db_held_coin db' a - db_ledger_coin db' a = db_held_coin db a - db_ledger_coin db a"
  proof (cases "any_store_dirty c \<or> item_events c \<noteq> []")
    case False
    then show ?thesis using res by (simp add: persist_dirty_stores_def)
  next
    case True
    note out = persist_commit [OF res True]
    note db' = out(2)
    have dbok: "db_ok c db" using acc by (simp add: accounted_def)
    note keys = dbok [unfolded db_ok_def]
    have same: "account_of db' = account_of db" by (simp add: account_of_def db' fun_eq_iff)
    let ?in = "a = account_id c"
    have evs: "(\<Sum>e\<leftarrow>item_events c. if account_of db (ev_char e) = Some a \<and> ev_item e = Some p then ev_delta e else 0)
        = (if ?in then queued_delta p (item_events c) else 0)"
      "(\<Sum>e\<leftarrow>item_events c. if account_of db (ev_char e) = Some a then ev_copper e else 0)
        = (if ?in then queued_copper (item_events c) else 0)"
    proof -
      have mine: "ev_char e = char_id c" if "e \<in> set (item_events c)" for e
        using acc that by (simp add: accounted_def own_queue_def list_all_iff)
      have "map (\<lambda>e. if account_of db (ev_char e) = Some a \<and> ev_item e = Some p then ev_delta e else 0) (item_events c)
          = map (\<lambda>e. if ?in \<and> ev_item e = Some p then ev_delta e else 0) (item_events c)"
        "map (\<lambda>e. if account_of db (ev_char e) = Some a then ev_copper e else 0) (item_events c)
          = map (\<lambda>e. if ?in then ev_copper e else 0) (item_events c)"
        using keys by (auto intro!: map_cong simp: mine)
      then show "(\<Sum>e\<leftarrow>item_events c. if account_of db (ev_char e) = Some a \<and> ev_item e = Some p then ev_delta e else 0)
        = (if ?in then queued_delta p (item_events c) else 0)"
      "(\<Sum>e\<leftarrow>item_events c. if account_of db (ev_char e) = Some a then ev_copper e else 0)
        = (if ?in then queued_copper (item_events c) else 0)"
        by (simp_all add: queued_delta_def queued_copper_def del: map_eq_conv)
    qed
    have led: "db_ledger db' a p = db_ledger db a p + (if ?in then queued_delta p (item_events c) else 0)"
      "db_ledger_coin db' a = db_ledger_coin db a + (if ?in then queued_copper (item_events c) else 0)"
    proof -
      have "event_rows db' = event_rows db @ item_events c" by (simp add: db')
      then show "db_ledger db' a p = db_ledger db a p + (if ?in then queued_delta p (item_events c) else 0)"
        "db_ledger_coin db' a = db_ledger_coin db a + (if ?in then queued_copper (item_events c) else 0)"
        by (simp_all only: db_ledger_def db_ledger_coin_def same evs map_append sum_list_append)
    qed
    have saved: "saved_items p c db' = int (conn_items p c)" "saved_coin c db' = conn_coin c"
      using commit_saves [OF acc small out] by blast+
    have before: "saved_items p c db = int (conn_items p c) - queued_delta p (item_events c)"
      "saved_coin c db = conn_coin c - queued_copper (item_events c)"
      using acc by (simp_all add: accounted_def item_drift_def coin_drift_def)
    have own: "(account_of db (char_id c) = Some a) = ?in" "(account_id c = a) = ?in" using keys by auto
    have tables: "character_items db' = replace_rows (char_id c) (when_dirty (inventory_dirty c) (to_rows (inventory c))) (character_items db)"
      "bank_rows db' = replace_rows (char_id c) (when_dirty (bank_items_dirty c) (vault_to_rows (bank_items c))) (bank_rows db)"
      "account_rows db' = replace_rows (account_id c) (when_dirty (account_bank_items_dirty c) (vault_to_rows (account_bank_items c))) (account_rows db)"
      "wallets db' = update_row (char_id c) (when_dirty (coins_dirty c) (coins c)) (wallets db)"
      "bank_wallets db' = update_row (char_id c) (when_dirty (bank_dirty c) (bank_coins c)) (bank_wallets db)"
      by (simp_all add: db')
    have held: "db_held db' a p = db_held db a p + (if ?in then saved_items p c db' - saved_items p c db else 0)"
      unfolding db_held_def same
      unfolding tables replace_rows_diff own guarded_rows
      unfolding tables [symmetric] by (simp add: saved_items_def)
    obtain w1 w2 where w: "map_of (wallets db) (char_id c) = Some w1" "map_of (bank_wallets db) (char_id c) = Some w2"
      using wallet_row [OF dbok] by blast
    have coin: "db_held_coin db' a = db_held_coin db a + (if ?in then saved_coin c db' - saved_coin c db else 0)"
      unfolding db_held_coin_def saved_coin_def same
      unfolding tables update_row_sum [OF conjunct1 [OF conjunct2 [OF keys]] w(1)]
        update_row_sum [OF conjunct1 [OF conjunct2 [OF conjunct2 [OF keys]]] w(2)] own
      by (simp split: option.split)
    show ?thesis using led held coin saved before by simp
  qed
  then show "db_held db' a p - db_ledger db' a p = db_held db a p - db_ledger db a p"
    "db_held_coin db' a - db_ledger_coin db' a = db_held_coin db a - db_ledger_coin db a" by blast+
qed

text \<open>A failed flush changes nothing, and any handler that keeps the books keeps the account.\<close>

lemma persist_failed: "persist_dirty_stores commits c db = (False, c', db') \<Longrightarrow> c' = c \<and> db' = db \<and> \<not> commits"
  by (auto simp: persist_dirty_stores_def save_stores_atomic_def split: if_splits)

lemma persist_accounted:
  assumes "accounted c db" "conn_small c" "persist_dirty_stores commits c db = (r, c', db')"
  shows "accounted c' db'"
proof (cases r)
  case True
  show ?thesis
  proof (cases "any_store_dirty c \<or> item_events c \<noteq> []")
    case False
    then show ?thesis using assms by (simp add: persist_dirty_stores_def)
  next
    case dirty: True
    show ?thesis by (rule commit_saves(1) [OF assms(1,2) persist_commit [OF _ dirty]]) (use assms(3) True in simp_all)
  qed
next
  case False
  then show ?thesis using assms persist_failed [of commits c db c' db'] by simp
qed

lemma balanced_accounted:
  assumes "accounted c db" "balanced R c c'"
  shows "accounted c' db"
proof -
  have same: "char_id c' = char_id c" "account_id c' = account_id c" and queue: "own_queue c'"
    using assms by (simp_all add: balanced_def flags_follow_def accounted_def)
  have "clean_saved c' db"
    using assms unfolding balanced_def flags_follow_def accounted_def clean_saved_def same raised_def by metis
  moreover have "saved_items p c' db = saved_items p c db" "saved_coin c' db = saved_coin c db" "db_ok c' db = db_ok c db" for p
    by (simp_all add: saved_items_def saved_coin_def db_ok_def same)
  ultimately show ?thesis using assms queue by (simp add: accounted_def balanced_def)
qed

section \<open>What the query reports\<close>

definition books_balance :: "store_db \<Rightarrow> bool" where
  "books_balance db \<longleftrightarrow> (\<forall>a p. db_ledger db a p = db_held db a p)
     \<and> (\<forall>a \<in> set (map snd (characters db)). db_ledger_coin db a = db_held_coin db a)"

lemma sum_list_zero: "(\<And>x. x \<in> set xs \<Longrightarrow> f x = 0) \<Longrightarrow> (\<Sum>x\<leftarrow>xs. f x) = (0::int)"
  by (induction xs) simp_all

lemma unkeyed:
  assumes "(a, p) \<notin> set (mismatch_keys db)"
  shows "db_ledger db a p = 0" "db_held db a p = 0"
proof -
  have ev: "\<not> (account_of db (ev_char e) = Some a \<and> ev_item e = Some p)" if "e \<in> set (event_rows db)" for e
    using assms that by (force simp: mismatch_keys_def split: option.splits)
  have it: "\<not> (account_of db i = Some a \<and> row_item_path r = p)" if "(i, r) \<in> set (character_items db)" for i r
    using assms that by (force simp: mismatch_keys_def split: option.splits)
  have bk: "\<not> (account_of db i = Some a \<and> bank_item_path r = p)" if "(i, r) \<in> set (bank_rows db)" for i r
    using assms that by (force simp: mismatch_keys_def split: option.splits)
  have ac: "\<not> (i = a \<and> bank_item_path r = p)" if "(i, r) \<in> set (account_rows db)" for i r
    using assms that by (force simp: mismatch_keys_def)
  show "db_ledger db a p = 0" using ev unfolding db_ledger_def by (intro sum_list_zero) auto
  have "(\<Sum>(i, r)\<leftarrow>character_items db. if account_of db i = Some a \<and> row_item_path r = p then row_count r else 0) = 0"
    "(\<Sum>(i, r)\<leftarrow>bank_rows db. if account_of db i = Some a \<and> bank_item_path r = p then bank_count r else 0) = 0"
    "(\<Sum>(i, r)\<leftarrow>account_rows db. if i = a \<and> bank_item_path r = p then bank_count r else 0) = 0"
    by (intro sum_list_zero; use it bk ac in \<open>fastforce split: prod.splits\<close>)+
  then show "db_held db a p = 0" by (simp add: db_held_def)
qed

lemma ledger_mismatches_Nil: "ledger_mismatches db = [] \<longleftrightarrow> books_balance db"
proof -
  have "(\<forall>(a, p) \<in> set (mismatch_keys db). db_ledger db a p = db_held db a p) \<longleftrightarrow> (\<forall>a p. db_ledger db a p = db_held db a p)"
    using unkeyed by fastforce
  then show ?thesis by (auto simp: ledger_mismatches_def books_balance_def filter_empty_conv)
qed

text \<open>The prune folds without changing a sum.\<close>

lemma grouped_sum:
  fixes h :: "'e \<Rightarrow> int"
  assumes "finite S" "key ` set xs \<subseteq> S"
  shows "(\<Sum>k\<in>S. \<Sum>e\<leftarrow>filter (\<lambda>e. key e = k) xs. h e) = (\<Sum>e\<leftarrow>xs. h e)"
  using assms(2)
proof (induction xs)
  case (Cons x xs)
  have "(\<Sum>k\<in>S. \<Sum>e\<leftarrow>filter (\<lambda>e. key e = k) (x # xs). h e)
      = (\<Sum>k\<in>S. (if key x = k then h x else 0) + (\<Sum>e\<leftarrow>filter (\<lambda>e. key e = k) xs. h e))"
    by (intro sum.cong) simp_all
  then show ?case using Cons assms(1) by (simp add: sum.distrib)
qed simp

lemma carried_sum:
  fixes d :: "item_event_row \<Rightarrow> int"
  assumes d: "\<And>k. d (carry_row cutoff old k) = (\<Sum>e\<leftarrow>filter (\<lambda>e. (ev_char e, ev_item e) = k) old. d e)"
    and zero: "\<And>r. ev_delta r = 0 \<Longrightarrow> ev_copper r = 0 \<Longrightarrow> d r = 0"
  shows "(\<Sum>r\<leftarrow>filter (\<lambda>r. ev_delta r \<noteq> 0 \<or> ev_copper r \<noteq> 0) (map (carry_row cutoff old) (remdups (map (\<lambda>e. (ev_char e, ev_item e)) old))).
             if G (ev_char r) (ev_item r) then d r else 0)
       = (\<Sum>e\<leftarrow>old. if G (ev_char e) (ev_item e) then d e else 0)" (is "?l = ?r")
proof -
  let ?key = "\<lambda>e. (ev_char e, ev_item e)"
  let ?ks = "remdups (map ?key old)"
  have drop: "(\<Sum>r\<leftarrow>filter (\<lambda>r. ev_delta r \<noteq> 0 \<or> ev_copper r \<noteq> 0) rs. if G (ev_char r) (ev_item r) then d r else 0)
      = (\<Sum>r\<leftarrow>rs. if G (ev_char r) (ev_item r) then d r else 0)" for rs
    by (induction rs) (auto simp: zero)
  have "?l = (\<Sum>k\<leftarrow>?ks. if G (fst k) (snd k) then d (carry_row cutoff old k) else 0)"
    unfolding drop by (simp add: o_def carry_row_def cong: if_cong)
  also have "\<dots> = (\<Sum>k\<in>set ?ks. if G (fst k) (snd k) then d (carry_row cutoff old k) else 0)"
    by (simp only: sum_list_distinct_conv_sum_set distinct_remdups)
  also have "\<dots> = (\<Sum>k\<in>set ?ks. \<Sum>e\<leftarrow>filter (\<lambda>e. ?key e = k) old. if G (ev_char e) (ev_item e) then d e else 0)"
  proof (rule sum.cong [OF refl])
    fix k assume "k \<in> set ?ks"
    show "(if G (fst k) (snd k) then d (carry_row cutoff old k) else 0)
        = (\<Sum>e\<leftarrow>filter (\<lambda>e. ?key e = k) old. if G (ev_char e) (ev_item e) then d e else 0)"
    proof -
      have "map (\<lambda>e. if G (ev_char e) (ev_item e) then d e else 0) (filter (\<lambda>e. ?key e = k) old)
          = map (\<lambda>e. if G (fst k) (snd k) then d e else 0) (filter (\<lambda>e. ?key e = k) old)"
        by (intro map_cong) auto
      then show ?thesis by (simp add: d del: map_eq_conv)
    qed
  qed
  also have "\<dots> = ?r" by (rule grouped_sum) simp_all
  finally show ?thesis .
qed

lemma fold_keeps_books:
  "db_ledger (fold_item_events_before cutoff db) a p = db_ledger db a p"
  "db_ledger_coin (fold_item_events_before cutoff db) a = db_ledger_coin db a"
  "db_held (fold_item_events_before cutoff db) a p = db_held db a p"
  "db_held_coin (fold_item_events_before cutoff db) a = db_held_coin db a"
proof -
  define old where "old = filter (\<lambda>e. ev_at e < cutoff) (event_rows db)"
  define carries where "carries = filter (\<lambda>r. ev_delta r \<noteq> 0 \<or> ev_copper r \<noteq> 0)
      (map (carry_row cutoff old) (remdups (map (\<lambda>e. (ev_char e, ev_item e)) old)))"
  have out: "fold_item_events_before cutoff db = db\<lparr>event_rows := filter (\<lambda>e. \<not> ev_at e < cutoff) (event_rows db @ carries)\<rparr>"
    by (simp add: fold_item_events_before_def old_def carries_def Let_def)
  have keep: "filter (\<lambda>e. \<not> ev_at e < cutoff) carries = carries"
    by (rule filter_True) (auto simp: carries_def carry_row_def)
  have split: "(\<Sum>e\<leftarrow>event_rows db. f e) = (\<Sum>e\<leftarrow>filter (\<lambda>e. \<not> ev_at e < cutoff) (event_rows db). f e) + (\<Sum>e\<leftarrow>old. f e)"
    for f :: "item_event_row \<Rightarrow> int"
  proof -
    have "(\<Sum>e\<leftarrow>es. f e) = (\<Sum>e\<leftarrow>filter (\<lambda>e. \<not> ev_at e < cutoff) es. f e) + (\<Sum>e\<leftarrow>filter (\<lambda>e. ev_at e < cutoff) es. f e)" for es
      by (induction es) auto
    then show ?thesis unfolding old_def .
  qed
  have acct: "account_of (fold_item_events_before cutoff db) = account_of db" by (simp add: account_of_def out fun_eq_iff)
  have evs: "event_rows (fold_item_events_before cutoff db) = filter (\<lambda>e. \<not> ev_at e < cutoff) (event_rows db) @ carries"
    by (simp add: out keep)
  have deltas: "(\<Sum>r\<leftarrow>carries. if G (ev_char r) (ev_item r) then ev_delta r else 0)
       = (\<Sum>e\<leftarrow>old. if G (ev_char e) (ev_item e) then ev_delta e else 0)"
    "(\<Sum>r\<leftarrow>carries. if G (ev_char r) (ev_item r) then ev_copper r else 0)
       = (\<Sum>e\<leftarrow>old. if G (ev_char e) (ev_item e) then ev_copper e else 0)" for G
    unfolding carries_def by (rule carried_sum; simp add: carry_row_def)+
  show "db_ledger (fold_item_events_before cutoff db) a p = db_ledger db a p"
    unfolding db_ledger_def acct evs split using deltas(1) [of "\<lambda>i x. account_of db i = Some a \<and> x = Some p"] by simp
  show "db_ledger_coin (fold_item_events_before cutoff db) a = db_ledger_coin db a"
    unfolding db_ledger_coin_def acct evs split using deltas(2) [of "\<lambda>i x. account_of db i = Some a"] by simp
  show "db_held (fold_item_events_before cutoff db) a p = db_held db a p"
    "db_held_coin (fold_item_events_before cutoff db) a = db_held_coin db a"
    by (simp_all add: db_held_def db_held_coin_def acct) (simp_all add: out)
qed

end
