(* ===== verification/Banking.thy ===== *)
theory Banking
  imports Conn
begin

text \<open>
  \<open>tick/banking.rs\<close>: coin deposits, withdrawals and exchanges, and whole stacks into and out of the
  vaults.  A step takes the intent and the actor's connection and returns the connection and the
  messages to that client; an intent whose owner is not connected is skipped by the loop and never
  reaches a step.  Every step is an instance of \<open>ledgered\<close>: what leaves one store arrives in the other.
\<close>

section \<open>Helpers\<close>

definition show_int :: "int \<Rightarrow> string" where
  "show_int n = (if n < 0 then ''-'' @ show_nat (nat (- n)) else show_nat (nat n))"

text \<open>The service gate: the refusal to send, or nothing when an NPC will deal with the character.\<close>

definition will_not_deal :: "npc \<Rightarrow> string" where
  "will_not_deal n = npc_name n @ '' will not deal with you.''"

definition banker_gate :: "env \<Rightarrow> connection \<Rightarrow> server_msg option" where
  "banker_gate E c =
     (case npc_service E c ''banker'' of
        Inl None \<Rightarrow> Some (BankRejected ''There is no banker near you.'')
      | Inl (Some n) \<Rightarrow> Some (BankRejected (will_not_deal n))
      | Inr _ \<Rightarrow> None)"

text \<open>\<open>trade_locked\<close>: the escrow's refusal of a slot that is offered.\<close>

definition trade_locked :: "nat \<Rightarrow> string \<Rightarrow> nat \<Rightarrow> trade_manager \<Rightarrow> server_msg option" where
  "trade_locked who loc slot tm =
     (if is_locked who loc slot tm then Some (SystemLine ''That item is offered in a trade.'') else None)"

section \<open>Coin\<close>

definition bank_deposit :: "env \<Rightarrow> coin_amount \<Rightarrow> connection \<Rightarrow> connection \<times> server_msg list" where
  "bank_deposit E amount c =
     (case banker_gate E c of
        Some m \<Rightarrow> (c, [m])
      | None \<Rightarrow>
          if coin_amount_get amount = coins_ZERO then (c, [BankRejected ''Nothing to deposit.''])
          else case pay_value_of (coins c) (coin_amount_get amount) of
            (False, _) \<Rightarrow> (c, [BankRejected ''You don't have that much coin to deposit.''])
          | (True, wallet) \<Rightarrow>
              let c1 = c\<lparr>coins := wallet, bank_coins := add_each (bank_coins c) (coin_amount_get amount),
                         coins_dirty := True, bank_dirty := True\<rparr>;
                  c2 = ledger (now E) (coin_event BankCoinIn 0
                         (Some (show_int (total_copper (coin_amount_get amount)) @ '' copper''))) c1
              in (c2, [CoinsUpdate (coins c2), BankSnapshot (bank_coins c2)]))"

definition bank_withdraw :: "env \<Rightarrow> coin_amount \<Rightarrow> connection \<Rightarrow> connection \<times> server_msg list" where
  "bank_withdraw E amount c =
     (case banker_gate E c of
        Some m \<Rightarrow> (c, [m])
      | None \<Rightarrow>
          if coin_amount_get amount = coins_ZERO then (c, [BankRejected ''Nothing to withdraw.''])
          else case pay_value_of (bank_coins c) (coin_amount_get amount) of
            (False, _) \<Rightarrow> (c, [BankRejected ''Your bank doesn't hold that much coin.''])
          | (True, bank) \<Rightarrow>
              let c1 = c\<lparr>bank_coins := bank, coins := add_each (coins c) (coin_amount_get amount),
                         coins_dirty := True, bank_dirty := True\<rparr>;
                  c2 = ledger (now E) (coin_event BankCoinOut 0
                         (Some (show_int (total_copper (coin_amount_get amount)) @ '' copper''))) c1
              in (c2, [CoinsUpdate (coins c2), BankSnapshot (bank_coins c2)]))"

definition bank_exchange :: "env \<Rightarrow> nat \<times> nat \<times> nat \<Rightarrow> connection \<Rightarrow> connection \<times> server_msg list" where
  "bank_exchange E req c =
     (case req of (from_tier, to_tier, qty) \<Rightarrow>
        case banker_gate E c of
          Some m \<Rightarrow> (c, [m])
        | None \<Rightarrow>
            case exchange (coins c) from_tier to_tier qty of
              Inl reason \<Rightarrow> (c, [BankRejected reason])
            | Inr wallet \<Rightarrow>
                let c1 = c\<lparr>coins := wallet, coins_dirty := True\<rparr>;
                    c2 = ledger (now E) (coin_event BankExchange 0
                           (Some (show_nat qty @ '' of tier '' @ show_nat from_tier @ '' to tier '' @ show_nat to_tier))) c1
                in (c2, [CoinsUpdate (coins c2)]))"

section \<open>Item vaults\<close>

record store_request =
  src_location :: string
  src_slot :: nat
  to_shared :: bool

definition vault_of :: "bool \<Rightarrow> connection \<Rightarrow> item_vault" where
  "vault_of shared c = (if shared then account_bank_items c else bank_items c)"

definition set_vault :: "bool \<Rightarrow> item_vault \<Rightarrow> connection \<Rightarrow> connection" where
  "set_vault shared v c =
     (if shared then c\<lparr>account_bank_items := v, account_bank_items_dirty := True\<rparr>
      else c\<lparr>bank_items := v, bank_items_dirty := True\<rparr>)"

definition vault_name :: "bool \<Rightarrow> string" where
  "vault_name shared = (if shared then ''account vault'' else ''vault'')"

definition NO_DROP_REFUSAL :: string where
  "NO_DROP_REFUSAL = ''That item is NO DROP: it cannot leave you.''"

definition bank_store_item :: "env \<Rightarrow> trade_manager \<Rightarrow> nat \<Rightarrow> store_request \<Rightarrow> connection \<Rightarrow> connection \<times> server_msg list" where
  "bank_store_item E tm who req c =
     (case trade_locked who (src_location req) (src_slot req) tm of
        Some m \<Rightarrow> (c, [m])
      | None \<Rightarrow>
      case banker_gate E c of
        Some m \<Rightarrow> (c, [m])
      | None \<Rightarrow>
      case peek_at (src_location req) (src_slot req) (inventory c) of
        None \<Rightarrow> (c, [BankRejected ''Nothing to deposit there.''])
      | Some (p, avail) \<Rightarrow>
          if bag_num_slots (reg E) p \<noteq> None then (c, [BankRejected ''Bags can't go in the bank vault.''])
          else if to_shared req \<and> is_no_drop (reg E) p then (c, [BankRejected NO_DROP_REFUSAL])
          else
            let room = capacity_for (reg E) p (vault_of (to_shared req) c);
                take = min avail room
            in if take = 0 then (c, [BankRejected ''Your bank vault is full.''])
               else case destroy_at (reg E) (src_location req) (src_slot req) take (inventory c) of
                 Inl _ \<Rightarrow> (c, [BankRejected ''Couldn't move that item.''])
               | Inr ((_, removed), iv) \<Rightarrow>
                   if removed = 0 then (c\<lparr>inventory := iv\<rparr>, [])
                   else
                     let c1 = c\<lparr>inventory := iv, inventory_dirty := True\<rparr>;
                         c2 = set_vault (to_shared req)
                                (snd (vault_deposit (reg E) p removed (vault_of (to_shared req) c1))) c1;
                         c3 = ledger (now E) (item_event BankIn p removed 0 (Some (vault_name (to_shared req)))) c2
                     in (c3, [slot_delta (src_location req) (src_slot req)
                                (peek_at (src_location req) (src_slot req) (inventory c3)),
                              BankItemSnapshot (to_shared req) (vault_to_snapshot (vault_of (to_shared req) c3))]))"

definition bank_withdraw_item :: "env \<Rightarrow> bool \<times> nat \<Rightarrow> connection \<Rightarrow> connection \<times> server_msg list" where
  "bank_withdraw_item E req c =
     (case req of (shared, slot) \<Rightarrow>
      case banker_gate E c of
        Some m \<Rightarrow> (c, [m])
      | None \<Rightarrow>
      case vault_peek slot (vault_of shared c) of
        None \<Rightarrow> (c, [BankRejected ''Nothing to withdraw there.''])
      | Some e \<Rightarrow>
          let p = item_path e; n = ecount e;
              c1 = set_vault shared (snd (vault_take_all slot (vault_of shared c))) c;
              ((touched, leftover), iv) = (case add_item_locating (reg E) p n (inventory c1) of
                  Inr r \<Rightarrow> r | Inl _ \<Rightarrow> (([], n), inventory c1));
              c2 = c1\<lparr>inventory := iv\<rparr>;
              c3 = (if leftover > 0 then set_vault shared (vault_restore slot p leftover (vault_of shared c2)) c2 else c2);
              short = (if leftover > 0
                       then [BankRejected (if leftover = n then ''No room in your inventory.''
                                           else ''Only part of that fit in your inventory.'')] else []);
              c4 = (if touched \<noteq> [] then c3\<lparr>inventory_dirty := True\<rparr> else c3);
              c5 = (if n > leftover
                    then ledger (now E) (item_event BankOut p (n - leftover) 0 (Some (vault_name shared))) c4 else c4)
          in (c5, short @ touched_deltas touched (inventory c5)
                  @ [BankItemSnapshot shared (vault_to_snapshot (vault_of shared c5))]))"

section \<open>The books\<close>

lemma coin_bounds:
  assumes "conn_ok R c" "coins_bounded c"
  shows "0 \<le> coin_value (coins c)" "0 \<le> coin_value (bank_coins c)"
    "coin_value (coins c) \<le> coin_cap" "coin_value (bank_coins c) \<le> coin_cap"
  using assms coin_value_purse [of "coins c"] coin_value_purse [of "bank_coins c"]
  by (simp_all add: coins_bounded_def conn_coin_def conn_ok_def)

lemma purse_tiers:
  assumes "purse_ok c"
  shows "platinum c \<le> coin_value c" "gold c \<le> coin_value c" "silver c \<le> coin_value c" "copper c \<le> coin_value c"
  using assms tier_le_value [of c] by (simp_all add: purse_ok_def)

text \<open>An amount a purse can pay for is worth what its tiers say, and fits beside any bounded purse.\<close>

lemma payable_exact:
  assumes paid: "pay_value_of w a = (True, w')" and w: "purse_ok w" "coin_value w \<le> coin_cap"
  shows "purse_ok w'" "coin_value w' = coin_value w - coin_value a" "purse_ok a" "0 \<le> coin_value a" "coin_value a \<le> coin_value w"
proof -
  have a: "\<not> has_negative a" and s: "spend w (total_copper a) = (True, w')"
    using paid by (auto simp: pay_value_of_def split: if_splits)
  have le: "total_copper a \<le> total_copper w"
    using s spend_True_iff [of w "total_copper a"] by simp
  have "total_copper w \<le> coin_value w" using w(1) by (simp add: total_copper_le_value purse_ok_def)
  with le w(2) have lt: "total_copper a < i64_max" by (simp add: coin_cap_def)
  then have val: "total_copper a = coin_value a"
    using a coin_value_nonneg [OF a] by (simp add: total_copper_sat sat64_def split: if_splits)
  show "purse_ok w'" "coin_value w' = coin_value w - coin_value a"
    using pay_value_of_effect [OF w(1), of a] paid val by simp_all
  show "0 \<le> coin_value a" using a by (rule coin_value_nonneg)
  show "coin_value a \<le> coin_value w" using le \<open>total_copper w \<le> coin_value w\<close> val by simp
  have "platinum a \<le> coin_value a" "gold a \<le> coin_value a" "silver a \<le> coin_value a" "copper a \<le> coin_value a"
    using a by (simp_all add: coin_value_def has_negative_def)
  then show "purse_ok a" using a lt val by (simp add: purse_ok_def fits64_def)
qed

lemma purse_room_bounded:
  assumes "purse_ok c" "coin_value c \<le> coin_cap" "n \<le> coin_cap"
  shows "purse_room n c"
  using purse_tiers [OF assms(1)] assms(2,3) by (simp add: purse_room_def coin_cap_def)

lemma add_each_bounded:
  assumes "purse_ok c" "purse_ok d" "coin_value c \<le> coin_cap" "coin_value d \<le> coin_cap"
  shows "purse_ok (add_each c d)" "coin_value (add_each c d) = coin_value c + coin_value d"
  using assms add_each_ok add_each_room purse_room_bounded by blast+

lemma bank_deposit_balanced:
  assumes ok: "conn_ok R c" and bd: "coins_bounded c"
  shows "balanced R c (fst (bank_deposit E amount c)) \<and> conn_coin (fst (bank_deposit E amount c)) = conn_coin c"
proof (cases "fst (bank_deposit E amount c) = c")
  case True
  then show ?thesis using ok by (simp add: balanced_refl)
next
  case False
  let ?a = "coin_amount_get amount"
  obtain w where paid: "pay_value_of (coins c) ?a = (True, w)"
    and out: "fst (bank_deposit E amount c) = ledger (now E) (coin_event BankCoinIn 0 (Some (show_int (total_copper ?a) @ '' copper'')))
        (c\<lparr>coins := w, bank_coins := add_each (bank_coins c) ?a, coins_dirty := True, bank_dirty := True\<rparr>)"
    using False by (simp add: bank_deposit_def Let_def split: option.splits if_splits prod.splits bool.splits)
  note b = coin_bounds [OF ok bd]
  note pay = payable_exact [OF paid conn_okD(4) [OF ok] b(3)]
  have small: "coin_value ?a \<le> coin_cap" using pay(5) b(3) by linarith
  note bank = add_each_bounded [OF conn_okD(5) [OF ok] pay(3) b(4) small]
  show ?thesis
    using ok pay(1,2) bank by (simp add: out books conn_coin_def)
qed

lemma bank_withdraw_balanced:
  assumes ok: "conn_ok R c" and bd: "coins_bounded c"
  shows "balanced R c (fst (bank_withdraw E amount c)) \<and> conn_coin (fst (bank_withdraw E amount c)) = conn_coin c"
proof (cases "fst (bank_withdraw E amount c) = c")
  case True
  then show ?thesis using ok by (simp add: balanced_refl)
next
  case False
  let ?a = "coin_amount_get amount"
  obtain b where paid: "pay_value_of (bank_coins c) ?a = (True, b)"
    and out: "fst (bank_withdraw E amount c) = ledger (now E) (coin_event BankCoinOut 0 (Some (show_int (total_copper ?a) @ '' copper'')))
        (c\<lparr>bank_coins := b, coins := add_each (coins c) ?a, coins_dirty := True, bank_dirty := True\<rparr>)"
    using False by (simp add: bank_withdraw_def Let_def split: option.splits if_splits prod.splits bool.splits)
  note bs = coin_bounds [OF ok bd]
  note pay = payable_exact [OF paid conn_okD(5) [OF ok] bs(4)]
  have small: "coin_value ?a \<le> coin_cap" using pay(5) bs(4) by linarith
  note wallet = add_each_bounded [OF conn_okD(4) [OF ok] pay(3) bs(3) small]
  show ?thesis
    using ok pay(1,2) wallet by (simp add: out books conn_coin_def)
qed

text \<open>An exchange asks for at most \<open>u32::MAX\<close> coins, so a bounded purse takes the product.\<close>

lemma bank_exchange_balanced:
  assumes ok: "conn_ok R c" and bd: "coins_bounded c" and q: "snd (snd req) \<le> u32_max"
  shows "balanced R c (fst (bank_exchange E req c)) \<and> conn_coin (fst (bank_exchange E req c)) = conn_coin c"
proof (cases "fst (bank_exchange E req c) = c")
  case True
  then show ?thesis using ok by (simp add: balanced_refl)
next
  case False
  obtain f t n where req: "req = (f, t, n)" by (rule prod_cases3)
  obtain w d where ex: "exchange (coins c) f t n = Inr w"
    and out: "fst (bank_exchange E req c) = ledger (now E) (coin_event BankExchange 0 d)
        (c\<lparr>coins := w, coins_dirty := True\<rparr>)"
    using False by (auto simp: req bank_exchange_def Let_def split: option.splits sum.splits)
  have w: "purse_ok w" "coin_value w \<le> coin_value (coins c)"
    "tier_count (coins c) t + 4294967295000000 \<le> i64_max \<longrightarrow> coin_value w = coin_value (coins c)"
    using exchange_value_le [OF conn_okD(4) [OF ok] _ ex] q req by simp_all
  have "tier_count (coins c) t \<le> coin_value (coins c)"
    using purse_tiers [OF conn_okD(4) [OF ok]] by (simp add: tier_count_def)
  then have "coin_value w = coin_value (coins c)"
    using w(3) coin_bounds(3) [OF ok bd] by (simp add: coin_cap_def)
  then show ?thesis
    using ok w(1) by (simp add: out books conn_coin_def)
qed

text \<open>Storing: what leaves the inventory is what the vault gains, since the vault's room was asked first.\<close>

lemma vault_of_simps [simp]:
  "vault_of True c = account_bank_items c" "vault_of False c = bank_items c"
  by (simp_all add: vault_of_def)

lemma set_vault_simps [simp]:
  "set_vault True v c = c\<lparr>account_bank_items := v, account_bank_items_dirty := True\<rparr>"
  "set_vault False v c = c\<lparr>bank_items := v, bank_items_dirty := True\<rparr>"
  by (simp_all add: set_vault_def)

text \<open>Replacing the inventory and one vault, with a row that moves nothing.\<close>

lemma balanced_transfer:
  assumes ok: "conn_ok R c" and iv: "inv_wf R iv" and v: "vault_wf v" "length (slots v) = length (slots (vault_of s c))"
    and total: "\<And>q. inv_total q iv + vault_total q v = inv_total q (inventory c) + vault_total q (vault_of s c)"
    and flag: "d \<or> iv = inventory c"
  shows "balanced R c (set_vault s v (c\<lparr>inventory := iv, inventory_dirty := inventory_dirty c \<or> d\<rparr>))"
proof -
  have drift: "int (inv_total q iv) - int (inv_total q (inventory c)) = int (vault_total q (vault_of s c)) - int (vault_total q v)" for q
    using total [of q] by linarith
  show ?thesis
  proof (cases s)
    case True
    with drift have "item_drift q (set_vault s v (c\<lparr>inventory := iv, inventory_dirty := inventory_dirty c \<or> d\<rparr>)) = item_drift q c" for q
      by (simp add: algebra_simps)
    then show ?thesis using ok iv v flag True by (auto simp: books raised_def)
  next
    case False
    with drift have "item_drift q (set_vault s v (c\<lparr>inventory := iv, inventory_dirty := inventory_dirty c \<or> d\<rparr>)) = item_drift q c" for q
      by (simp add: algebra_simps)
    then show ?thesis using ok iv v flag False by (auto simp: books raised_def)
  qed
qed

lemma bank_store_item_balanced:
  assumes ok: "conn_ok (reg E) c" and reg: "reg_ok (reg E)"
  shows "balanced (reg E) c (fst (bank_store_item E tm who req c))
    \<and> conn_coin (fst (bank_store_item E tm who req c)) = conn_coin c
    \<and> (\<forall>q. conn_items q (fst (bank_store_item E tm who req c)) = conn_items q c)"
proof (cases "fst (bank_store_item E tm who req c) = c")
  case True
  then show ?thesis using ok by (simp add: balanced_refl)
next
  case False
  let ?R = "reg E" and ?s = "to_shared req" and ?iv = "inventory c"
  let ?v = "vault_of ?s c"
  obtain p avail where peek: "peek_at (src_location req) (src_slot req) ?iv = Some (p, avail)"
    and room: "0 < min avail (capacity_for ?R p ?v)"
    and moved: "case destroy_at ?R (src_location req) (src_slot req) (min avail (capacity_for ?R p ?v)) ?iv of
        Inl _ \<Rightarrow> False | Inr ((_, removed), iv) \<Rightarrow>
          fst (bank_store_item E tm who req c) = (if removed = 0 then c\<lparr>inventory := iv\<rparr> else
            ledger (now E) (item_event BankIn p removed 0 (Some (vault_name ?s)))
              (set_vault ?s (snd (vault_deposit ?R p removed ?v)) (c\<lparr>inventory := iv, inventory_dirty := True\<rparr>)))"
    using False by (cases ?s) (auto simp: bank_store_item_def Let_def split: option.splits if_splits sum.splits prod.splits)
  let ?take = "min avail (capacity_for ?R p ?v)"
  obtain p' k iv where dest: "destroy_at ?R (src_location req) (src_slot req) ?take ?iv = Inr ((p', k), iv)"
    using moved by (auto split: sum.splits)
  note eff = destroy_at_effect [OF conn_okD(1) [OF ok] dest]
  have k: "p' = p" "k = ?take" using eff [of p] peek room by auto
  have pne: "p \<noteq> []"
  proof -
    have "grants_total p [] = 0" by simp
    show ?thesis using cell_at_entry_ok [OF conn_okD(1) [OF ok]] peek
      by (auto simp: peek_at_def cell_pair_def entry_ok_def split: sum.splits option.splits)
  qed
  have vwf: "vault_wf ?v" using conn_okD(2,3) [OF ok] by (cases ?s) simp_all
  obtain t v' where dep: "vault_deposit ?R p k ?v = ((t, 0), v')"
    using vault_deposit_capacity [OF reg vwf pne] k(2) by (metis min.cobounded2)
  note veff = vault_deposit_effect [OF reg vwf pne dep]
  have out: "fst (bank_store_item E tm who req c) =
      ledger (now E) (item_event BankIn p k 0 (Some (vault_name ?s))) (set_vault ?s v' (c\<lparr>inventory := iv, inventory_dirty := inventory_dirty c \<or> True\<rparr>))"
    using moved dest dep room k by simp
  have total: "inv_total q iv + vault_total q v' = inv_total q ?iv + vault_total q ?v" for q
    using eff [of q] veff [of q] k by simp
  have bal: "balanced ?R c (set_vault ?s v' (c\<lparr>inventory := iv, inventory_dirty := inventory_dirty c \<or> True\<rparr>))"
    using eff veff total by (intro balanced_transfer [OF ok]) blast+
  have "conn_items q (set_vault ?s v' (c\<lparr>inventory := iv, inventory_dirty := inventory_dirty c \<or> True\<rparr>)) = conn_items q c" for q
    using total [of q] by (cases ?s) (simp_all add: conn_items_def)
  moreover have "balanced ?R c (fst (bank_store_item E tm who req c))"
    using bal by (simp add: out balanced_def flags_follow_def)
  moreover have "conn_coin (fst (bank_store_item E tm who req c)) = conn_coin c"
    by (cases ?s) (simp_all add: out conn_coin_def)
  ultimately show ?thesis by (simp add: out)
qed

text \<open>Withdrawing: the stack goes to the inventory and what does not fit goes back to its slot.\<close>

lemma bank_withdraw_item_balanced:
  assumes ok: "conn_ok (reg E) c" and reg: "reg_ok (reg E)"
  shows "balanced (reg E) c (fst (bank_withdraw_item E req c))
    \<and> conn_coin (fst (bank_withdraw_item E req c)) = conn_coin c
    \<and> (\<forall>q. conn_items q (fst (bank_withdraw_item E req c)) = conn_items q c)"
proof -
  obtain s slot where req: "req = (s, slot)" by (metis surj_pair)
  let ?R = "reg E" and ?v = "vault_of s c" and ?iv = "inventory c"
  have vwf: "vault_wf ?v" using conn_okD(2,3) [OF ok] by (cases s) simp_all
  show ?thesis
  proof (cases "fst (bank_withdraw_item E req c) = c")
    case True
    then show ?thesis using ok by (simp add: balanced_refl)
  next
    case False
    obtain p n where at: "vault_peek slot ?v = Some (entry p n)" and open_gate: "banker_gate E c = None"
      using False by (cases "vault_peek slot ?v") (auto simp: bank_withdraw_item_def req split: option.splits, metis inventory_entry.cases)
    then have slot: "slot < length (slots ?v)" "slots ?v ! slot = Some (entry p n)"
      by (auto simp: vault_peek_def dest: vget_Some_less)
    obtain v1 where take: "vault_take_all slot ?v = (Some (p, n), v1)"
      using slot by (simp add: vault_take_all_def cell_pair_def)
    note teff = vault_take_all_effect [OF vwf take]
    have v1: "slots v1 = (slots ?v)[slot := None]" using teff by (simp add: vault_put_def)
    obtain t l iv where add: "add_item_locating ?R p n ?iv = Inr ((t, l), iv)"
      using add_item_locating_effect [OF reg conn_okD(1) [OF ok], of n p] teff by (metis One_nat_def Suc_le_eq)
    note aeff = add_item_locating_Inr [OF reg conn_okD(1) [OF ok] add]
    define v2 where "v2 = (if l > 0 then vault_restore slot p l v1 else v1)"
    have v2: "vault_wf v2 \<and> vault_total q v2 = vault_total q v1 + units q p l \<and> length (slots v2) = length (slots ?v)" for q
    proof (cases "l > 0")
      case True
      have "l \<le> n" "n \<le> u32_max" "p \<noteq> []" using aeff teff by blast+
      then have "entry_ok (entry p l)" using True by (simp add: entry_ok_def)
      moreover have "vault_wf v1" "slot < length (slots v1)" "slots v1 ! slot = None" using teff slot(1) v1 by auto
      ultimately have "vault_wf (vault_restore slot p l v1) \<and> vault_total q (vault_restore slot p l v1) = vault_total q v1 + units q p l"
        by (intro vault_restore_effect)
      moreover have "length (slots (vault_restore slot p l v1)) = length (slots ?v)" by (simp add: vault_restore_def v1)
      ultimately show ?thesis using True by (simp add: v2_def)
    next
      case False
      moreover have "vault_wf v1" "length (slots v1) = length (slots ?v)" using teff v1 by auto
      ultimately show ?thesis by (simp add: v2_def)
    qed
    have total: "inv_total q iv + vault_total q v2 = inv_total q ?iv + vault_total q ?v" for q
    proof -
      have "inv_total q iv = inv_total q ?iv + units q p (n - l)" "l \<le> n" using aeff by blast+
      moreover have "vault_total q v1 + units q p n = vault_total q ?v" using teff by blast
      moreover note v2 [of q]
      ultimately show ?thesis by (cases "q = p") (simp_all add: units_def)
    qed
    let ?c = "set_vault s v2 (c\<lparr>inventory := iv, inventory_dirty := inventory_dirty c \<or> t \<noteq> []\<rparr>)"
    let ?c2 = "(set_vault s v1 c)\<lparr>inventory := iv\<rparr>"
    let ?c3 = "if l > 0 then set_vault s (vault_restore slot p l v1) ?c2 else ?c2"
    let ?c4 = "if t \<noteq> [] then ?c3\<lparr>inventory_dirty := True\<rparr> else ?c3"
    have c4: "?c4 = ?c" by (cases s; rule connection.equality; simp add: set_vault_def v2_def)
    have "fst (bank_withdraw_item E req c) = (if n > l then ledger (now E) (item_event BankOut p (n - l) 0 (Some (vault_name s))) ?c4 else ?c4)"
      using at open_gate take add by (cases s) (simp_all add: bank_withdraw_item_def req Let_def)
    then have out: "fst (bank_withdraw_item E req c) = (if n > l then ledger (now E) (item_event BankOut p (n - l) 0 (Some (vault_name s))) ?c else ?c)"
      unfolding c4 .
    have "t \<noteq> [] \<or> iv = ?iv" using add_item_locating_untouched [of ?R p n ?iv l iv] add by auto
    then have "balanced ?R c ?c"
      using aeff v2 total by (intro balanced_transfer [OF ok]) blast+
    moreover have "conn_items q ?c = conn_items q c" "conn_coin ?c = conn_coin c" for q
      using total [of q] by (cases s; simp add: conn_items_def conn_coin_def)+
    ultimately show ?thesis unfolding out by (auto simp: balanced_def flags_follow_def)
  qed
qed

text \<open>The coin handlers leave the items alone.\<close>

lemma conn_items_frame [simp]:
  "conn_items q (c\<lparr>coins := a\<rparr>) = conn_items q c" "conn_items q (c\<lparr>bank_coins := a\<rparr>) = conn_items q c"
  "conn_items q (c\<lparr>coins_dirty := d\<rparr>) = conn_items q c" "conn_items q (c\<lparr>bank_dirty := d\<rparr>) = conn_items q c"
  "conn_items q (ledger t row c) = conn_items q c"
  by (simp_all add: conn_items_def ledger_def)

lemma bank_coin_items:
  "conn_items q (fst (bank_deposit E a c)) = conn_items q c" "conn_items q (fst (bank_withdraw E a c)) = conn_items q c"
  "conn_items q (fst (bank_exchange E x c)) = conn_items q c"
  by (simp_all add: bank_deposit_def bank_withdraw_def bank_exchange_def Let_def split: prod.splits bool.splits option.splits sum.splits)

section \<open>The handlers as ledgered steps\<close>

interpretation deposit: ledgered "\<lambda>i c. fst (bank_deposit E i c)" R "\<lambda>i. coins_bounded" for E R
  by unfold_locales (simp add: bank_deposit_balanced)

interpretation withdraw: ledgered "\<lambda>i c. fst (bank_withdraw E i c)" R "\<lambda>i. coins_bounded" for E R
  by unfold_locales (simp add: bank_withdraw_balanced)

interpretation exchange_step: ledgered "\<lambda>i c. fst (bank_exchange E i c)" R
  "\<lambda>i c. coins_bounded c \<and> snd (snd i) \<le> u32_max" for E R
  by unfold_locales (simp add: bank_exchange_balanced)

interpretation store_item: ledgered "\<lambda>i c. fst (bank_store_item E tm who i c)" "reg E" "\<lambda>i c. reg_ok (reg E)" for E tm who
  by unfold_locales (simp add: bank_store_item_balanced)

interpretation withdraw_item: ledgered "\<lambda>i c. fst (bank_withdraw_item E i c)" "reg E" "\<lambda>i c. reg_ok (reg E)" for E
  by unfold_locales (simp add: bank_withdraw_item_balanced)

end
