(* ===== verification/Books.thy ===== *)
theory Books
  imports Town Persist Banking
begin

text \<open>
  The books: what the handlers, the flush and the prune together keep.  The ledger table and the
  stores of an account may differ by a fixed amount per item (the wealth from before the ledger), and no intent,
  commit, failed commit or prune changes that difference.
\<close>

datatype bank_intent = Deposit coin_amount | Withdraw coin_amount | Exchange "nat \<times> nat \<times> nat"
  | StoreItem store_request | TakeItem "bool \<times> nat"

fun bank_step :: "env \<Rightarrow> trade_manager \<Rightarrow> nat \<Rightarrow> bank_intent \<Rightarrow> connection \<Rightarrow> connection" where
  "bank_step E tm who (Deposit a) c = fst (bank_deposit E a c)"
| "bank_step E tm who (Withdraw a) c = fst (bank_withdraw E a c)"
| "bank_step E tm who (Exchange x) c = fst (bank_exchange E x c)"
| "bank_step E tm who (StoreItem r) c = fst (bank_store_item E tm who r c)"
| "bank_step E tm who (TakeItem r) c = fst (bank_withdraw_item E r c)"

fun bank_intent_ok :: "bank_intent \<Rightarrow> bool" where
  "bank_intent_ok (Exchange x) = (snd (snd x) \<le> u32_max)"
| "bank_intent_ok _ = True"

lemma bank_step_keeps:
  assumes "conn_ok (reg E) c" "reg_ok (reg E)" "coins_bounded c" "bank_intent_ok i"
  shows "balanced (reg E) c (bank_step E tm who i c) \<and> conn_coin (bank_step E tm who i c) = conn_coin c
    \<and> (\<forall>q. conn_items q (bank_step E tm who i c) = conn_items q c)"
proof (cases i)
  case (Deposit a)
  then show ?thesis using bank_deposit_balanced [OF assms(1,3)] bank_coin_items by auto
next
  case (Withdraw a)
  then show ?thesis using bank_withdraw_balanced [OF assms(1,3)] bank_coin_items by auto
next
  case (Exchange x)
  then show ?thesis using bank_exchange_balanced [OF assms(1,3), of x] bank_coin_items assms(4) by auto
next
  case (StoreItem r)
  then show ?thesis using bank_store_item_balanced [OF assms(1,2)] by auto
next
  case (TakeItem r)
  then show ?thesis using bank_withdraw_item_balanced [OF assms(1,2)] by auto
qed

interpretation bank: ledgered "bank_step E tm who" "reg E"
  "\<lambda>i c. reg_ok (reg E) \<and> coins_bounded c \<and> bank_intent_ok i" for E tm who
  by unfold_locales (simp add: bank_step_keeps)

lemma bank_run_keeps:
  assumes "conn_ok (reg E) c" "reg_ok (reg E)" "coins_bounded c" "list_all bank_intent_ok is"
  shows "balanced (reg E) c (fold (bank_step E tm who) is c) \<and> conn_coin (fold (bank_step E tm who) is c) = conn_coin c
    \<and> (\<forall>q. conn_items q (fold (bank_step E tm who) is c) = conn_items q c)"
  using assms
proof (induction "is" arbitrary: c)
  case (Cons i "is")
  let ?c = "bank_step E tm who i c"
  have step: "balanced (reg E) c ?c" "conn_coin ?c = conn_coin c" "\<forall>q. conn_items q ?c = conn_items q c"
    using bank_step_keeps [of E c i tm who] Cons.prems by simp_all
  then have "conn_ok (reg E) ?c" "coins_bounded ?c" using Cons.prems(3) by (simp_all add: balanced_def coins_bounded_def)
  then have "balanced (reg E) ?c (fold (bank_step E tm who) is ?c)"
      "conn_coin (fold (bank_step E tm who) is ?c) = conn_coin ?c" "\<forall>q. conn_items q (fold (bank_step E tm who) is ?c) = conn_items q ?c"
    using Cons.IH [of ?c] Cons.prems by auto
  then show ?case using step balanced_trans [of "reg E" c ?c] by simp
qed (simp add: balanced_refl)


definition demo_bank_run :: "bank_intent list" where
  "demo_bank_run = [Deposit (CoinAmount \<lparr>platinum = 0, gold = 0, silver = 2, copper = 0\<rparr>),
     StoreItem \<lparr>src_location = ''base'', src_slot = 1, to_shared = False\<rparr>, TakeItem (False, 0), Exchange (1, 0, 1)]"


section \<open>Character and database as one system\<close>

text \<open>A step of the pair: the character's next intent, a flush that the database commits or refuses, or
  the prune of old ledger rows.\<close>

inductive books_step :: "env \<Rightarrow> connection \<times> store_db \<Rightarrow> connection \<times> store_db \<Rightarrow> bool" for E where
  acts: "bank_intent_ok i \<Longrightarrow> coins_bounded c \<Longrightarrow> books_step E (c, db) (bank_step E tm who i c, db)"
| flushes: "conn_small c \<Longrightarrow> persist_dirty_stores commits c db = (r, c', db') \<Longrightarrow> books_step E (c, db) (c', db')"
| prunes: "books_step E (c, db) (c, fold_item_events_before cutoff db)"

inductive_cases books_stepE: "books_step E s s'"

definition in_step :: "env \<Rightarrow> connection \<times> store_db \<Rightarrow> bool" where
  "in_step E s = (case s of (c, db) \<Rightarrow> conn_ok (reg E) c \<and> accounted c db)"

definition same_gap :: "store_db \<Rightarrow> store_db \<Rightarrow> bool" where
  "same_gap db db' \<longleftrightarrow> characters db' = characters db
     \<and> (\<forall>a p. db_held db' a p - db_ledger db' a p = db_held db a p - db_ledger db a p)
     \<and> (\<forall>a. db_held_coin db' a - db_ledger_coin db' a = db_held_coin db a - db_ledger_coin db a)"

lemma flush_keeps:
  assumes "accounted c db" "conn_small c" "persist_dirty_stores commits c db = (r, c', db')"
  shows "same_gap db db' \<and> accounted c' db' \<and> (conn_ok R c \<longrightarrow> conn_ok R c')"
proof (cases r)
  case True
  then show ?thesis
    using commit_books [OF assms(1,2)] persist_accounted [OF assms] assms(3)
    by (auto simp: same_gap_def persist_dirty_stores_def save_stores_atomic_def conn_ok_def split: if_splits option.splits)
next
  case False
  then show ?thesis using persist_failed assms by (fastforce simp: same_gap_def)
qed

lemma prune_accounted: "accounted c (fold_item_events_before cutoff db) = accounted c db"
  by (simp add: accounted_def db_ok_def clean_saved_def saved_items_def saved_coin_def account_of_def fold_item_events_before_def Let_def)

lemma prune_same_gap: "same_gap db (fold_item_events_before cutoff db)"
proof -
  have "characters (fold_item_events_before cutoff db) = characters db" by (simp add: fold_item_events_before_def Let_def)
  then show ?thesis using fold_keeps_books by (simp add: same_gap_def)
qed

lemma books_step_keeps:
  assumes "books_step E s s'" "in_step E s" "reg_ok (reg E)"
  shows "in_step E s' \<and> same_gap (snd s) (snd s')"
  using assms(1)
proof cases
  case (acts i c db tm who)
  then have "balanced (reg E) c (bank_step E tm who i c)"
    using bank_step_keeps [of E c i tm who] assms(2,3) by (simp add: in_step_def)
  then show ?thesis using acts assms(2) balanced_accounted [of c db]
    by (auto simp: in_step_def same_gap_def balanced_def)
next
  case flushes
  then show ?thesis using flush_keeps assms(2) by (auto simp: in_step_def)
next
  case prunes
  then show ?thesis using assms(2) prune_same_gap by (simp add: in_step_def prune_accounted)
qed

lemma run_keeps_books:
  assumes "(books_step E)\<^sup>*\<^sup>* s s'" "in_step E s" "reg_ok (reg E)"
  shows "in_step E s' \<and> same_gap (snd s) (snd s')"
  using assms(1,2)
proof (induction rule: rtranclp_induct)
  case base
  then show ?case by (simp add: same_gap_def)
next
  case (step y z)
  then show ?case using books_step_keeps [OF step.hyps(2)] assms(3) by (auto simp: same_gap_def)
qed

lemma run_same_gap:
  assumes "(books_step E)\<^sup>*\<^sup>* (c, db) (c', db')" "conn_ok (reg E) c" "accounted c db" "reg_ok (reg E)"
  shows "same_gap db db'"
  using run_keeps_books [OF assms(1) _ assms(4)] assms(2,3) by (simp add: in_step_def)

text \<open>Over any run of intents, flushes (committed or refused) and prunes, what the database holds of any item or coin
  for any account differs from its ledger by the same amount at the end as at the start, and what is not yet
  flushed is exactly what the queue of ledger rows says.\<close>

theorem books_never_drift:
  assumes "(books_step E)\<^sup>*\<^sup>* (c, db) (c', db')" "conn_ok (reg E) c" "accounted c db" "reg_ok (reg E)"
  shows "same_gap db db' \<and> accounted c' db' \<and> conn_ok (reg E) c'"
  using run_keeps_books [OF assms(1) _ assms(4)] assms(2,3) by (simp add: in_step_def)

text \<open>A database with the two demo characters' saved stores and the starter rows that account for them.\<close>

definition demo_db :: store_db where
  "demo_db =
     \<lparr>characters = [(1, 9), (2, 10)], character_items = map (Pair 1) (to_rows demo_inventory),
      wallets = [(1, coins demo_conn), (2, coins demo_partner)],
      bank_wallets = [(1, bank_coins demo_conn), (2, bank_coins demo_partner)], bank_rows = [], account_rows = [],
      event_rows = map (\<lambda>(p, n). (item_event Starter p (nat n) n None)\<lparr>ev_at := 1, ev_char := 1\<rparr>)
          [(''pouch'', 1), (''ration'', 23), (''sword'', 1)]
        @ [(coin_event Starter 10500 None)\<lparr>ev_at := 1, ev_char := 1\<rparr>, (coin_event Starter 200 None)\<lparr>ev_at := 1, ev_char := 2\<rparr>]\<rparr>"

lemma vault_rows_new [simp]: "vault_to_rows (vault_new n) = []"
  by (auto simp: vault_to_rows_def vault_new_def)

lemma demo_small_conn: "conn_small demo_conn"
  by (simp add: conn_small_def demo_conn_def rows_small_def small_cell_def demo_inventory_def vault_new_def list_all_iff)

lemma demo_accounted: "accounted demo_conn demo_db"
proof -
  have rows: "map snd (filter (\<lambda>(i, _). i = 1) (character_items demo_db)) = to_rows demo_inventory"
    by (simp add: demo_db_def comp_def)
  have small: "rows_small demo_inventory" using demo_small_conn by (simp add: conn_small_def demo_conn_def)
  have "item_drift p demo_conn = saved_items p demo_conn demo_db" for p
    using to_rows_total [OF small, of p] rows
    by (simp add: item_drift_def conn_items_def queued_delta_def saved_items_def demo_conn_def)
      (simp add: demo_db_def rows_total_def vrows_total_def)
  moreover have "coin_drift demo_conn = saved_coin demo_conn demo_db"
    by (simp add: coin_drift_def conn_coin_def queued_copper_def saved_coin_def demo_db_def demo_conn_def)
  moreover have "clean_saved demo_conn demo_db" using rows by (simp add: clean_saved_def demo_conn_def) (simp add: demo_db_def demo_conn_def)
  moreover have "db_ok demo_conn demo_db" by (simp add: db_ok_def demo_db_def demo_conn_def account_of_def)
  moreover have "own_queue demo_conn" by (simp add: own_queue_def demo_conn_def)
  ultimately show ?thesis by (simp add: accounted_def)
qed

lemma demo_run: "(books_step demo_env)\<^sup>*\<^sup>* (demo_conn, demo_db)
    (bank_step demo_env trade_manager_new 7 (Exchange (1, 0, 1)) demo_conn, fold_item_events_before 50 demo_db)"
proof -
  have "books_step demo_env (demo_conn, demo_db) (bank_step demo_env trade_manager_new 7 (Exchange (1, 0, 1)) demo_conn, demo_db)"
    using demo_conn_ok by (intro books_step.acts) simp_all
  then show ?thesis using books_step.prunes [of demo_env _ demo_db 50] by (meson converse_rtranclp_into_rtranclp r_into_rtranclp)
qed

theorem books_never_drift_witness: "same_gap demo_db (fold_item_events_before 50 demo_db)"
  using books_never_drift [OF demo_run] demo_conn_ok demo_accounted by simp

lemma same_gap_audit:
  assumes "same_gap db db'" "ledger_mismatches db = []"
  shows "ledger_mismatches db' = []"
proof -
  have gap: "db_held db' a p - db_ledger db' a p = db_held db a p - db_ledger db a p"
      "db_held_coin db' a - db_ledger_coin db' a = db_held_coin db a - db_ledger_coin db a"
      "characters db' = characters db" for a p
    using assms(1) unfolding same_gap_def by blast+
  show ?thesis
    using gap assms(2) by (simp add: ledger_mismatches_Nil books_balance_def) (metis cancel_comm_monoid_add_class.diff_cancel right_minus_eq)
qed

text \<open>The conservation query is exact and stays clean: it reports nothing precisely when every account holds what its
  ledger says of every item and of coin, and once that is so no run of intents, flushes and prunes makes it report anything.\<close>

theorem audit_stays_clean:
  assumes "(books_step E)\<^sup>*\<^sup>* (c, db) (c', db')" "conn_ok (reg E) c" "accounted c db" "reg_ok (reg E)"
  shows "(ledger_mismatches db = [] \<longleftrightarrow> (\<forall>a p. db_ledger db a p = db_held db a p)
          \<and> (\<forall>a\<in>set (map snd (characters db)). db_ledger_coin db a = db_held_coin db a))
    \<and> (ledger_mismatches db = [] \<longrightarrow> ledger_mismatches db' = [])"
proof -
  show ?thesis using same_gap_audit [OF run_same_gap [OF assms]] by (simp add: ledger_mismatches_Nil books_balance_def)
qed

lemma demo_audit: "ledger_mismatches demo_db = []"
  by (simp add: ledger_mismatches_def mismatch_keys_def demo_db_def db_ledger_def db_held_def db_ledger_coin_def db_held_coin_def account_of_def
      item_event_def coin_event_def to_rows_def cell_rows_def mk_row_def as_i32_def demo_inventory_def demo_conn_def demo_partner_def coins_ZERO_def
      coin_value_def Let_def upt_rec)

theorem audit_stays_clean_witness: "ledger_mismatches (fold_item_events_before 50 demo_db) = []"
  using audit_stays_clean [OF demo_run] demo_conn_ok demo_accounted demo_audit by simp

end
