(* ===== verification/F32Ops.thy ===== *)
theory F32Ops
  imports F32
begin

text \<open>
  More of Rust's \<open>f32\<close>: division, the saturating cast to \<open>i32\<close>, and that rounding, adding and multiplying
  are monotone, which is what the bounds of the game's formulas rest on.
\<close>

section \<open>Division and the cast\<close>

text \<open>The quotient in units of the least subnormal, doubled, with a sticky bit below.\<close>

definition div_units :: "nat \<Rightarrow> nat \<Rightarrow> nat" where
  "div_units a b = (let n = a * 2 ^ 150 in 2 * (n div b) + (if n mod b = 0 then 0 else 1))"

definition f32_div :: "f32 \<Rightarrow> f32 \<Rightarrow> f32" where
  "f32_div a b =
     (let s = (f32_sign a \<noteq> f32_sign b) in
      if f32_nan a \<or> f32_nan b then F32_NAN
      else if \<not> f32_finite a then (if f32_finite b then f32_pack s F32_INF else F32_NAN)
      else if \<not> f32_finite b then f32_pack s 0
      else if f32_mag b = 0 then (if f32_mag a = 0 then F32_NAN else f32_pack s F32_INF)
      else f32_pack s (round_scaled (div_units (mag_units (f32_mag a)) (mag_units (f32_mag b))) 2))"

definition F32_ONE :: f32 where "F32_ONE = 0x3f800000"

definition I32_MAX :: int where "I32_MAX = 2147483647"

definition I32_MIN :: int where "I32_MIN = -2147483648"

text \<open>\<open>as i32\<close>: towards zero, saturating, NaN to zero.\<close>

definition f32_to_i32 :: "f32 \<Rightarrow> int" where
  "f32_to_i32 a =
     (if f32_nan a then 0
      else if \<not> f32_finite a then (if f32_sign a then I32_MIN else I32_MAX)
      else let n = int (mag_units (f32_mag a) div 2 ^ 149)
           in max I32_MIN (min I32_MAX (if f32_sign a then - n else n)))"

definition f32_round :: "f32 \<Rightarrow> f32" where
  "f32_round a =
     (if \<not> f32_finite a then a
      else f32_pack (f32_sign a) (round_scaled (((mag_units (f32_mag a) * 2 + 2 ^ 149) div 2 ^ 150) * 2 ^ 149) 0))"

text \<open>\<open>floor\<close>, towards minus infinity.\<close>

definition f32_floor :: "f32 \<Rightarrow> f32" where
  "f32_floor a =
     (if \<not> f32_finite a then a
      else f32_pack (f32_sign a) (round_scaled (nat \<bar>f32_val a div 2 ^ 149\<bar> * 2 ^ 149) 0))"

section \<open>Rounding is monotone\<close>

lemma bitlen_mono: "m \<le> n \<Longrightarrow> bitlen m \<le> bitlen n"
proof (cases "n = 0")
  case False
  assume "m \<le> n"
  with bitlen_bounds [OF False] have "m < 2 ^ bitlen n" by linarith
  then show ?thesis by (rule bitlen_le)
qed simp

text \<open>Mantissa and exponent of a rounding: below the next power of two, and above half of it when there is an exponent.\<close>

lemma mantissa_bounds:
  assumes "q = bitlen n - (k + 24)"
  shows "n div 2 ^ (q + k) < 2 ^ 24" "0 < q \<Longrightarrow> 2 ^ 23 \<le> n div 2 ^ (q + k)"
proof -
  have "n < 2 ^ (24 + (q + k))"
  proof (cases "n = 0")
    case False
    then have "n < 2 ^ bitlen n" using bitlen_bounds by blast
    also have "(2::nat) ^ bitlen n \<le> 2 ^ (24 + (q + k))" using assms by (intro power_increasing) simp_all
    finally show ?thesis .
  qed simp
  then show "n div 2 ^ (q + k) < 2 ^ 24" by (simp add: less_mult_imp_div_less power_add)
  show "2 ^ 23 \<le> n div 2 ^ (q + k)" if "0 < q"
  proof -
    have ne: "n \<noteq> 0" using that assms by (intro notI) (simp add: bitlen.simps [of 0])
    have "bitlen n - 1 = 23 + (q + k)" using that assms by simp
    then have "2 ^ (23 + (q + k)) \<le> n" using bitlen_bounds [OF ne] by simp
    then have "(2 ^ 23 * 2 ^ (q + k)) div 2 ^ (q + k) \<le> n div 2 ^ (q + k)" by (intro div_le_mono) (simp add: power_add)
    then show ?thesis by simp
  qed
qed

definition rounds_up :: "nat \<Rightarrow> nat \<Rightarrow> bool" where
  "rounds_up n s \<longleftrightarrow> 2 * (n mod 2 ^ s) > 2 ^ s \<or> (2 * (n mod 2 ^ s) = 2 ^ s \<and> odd (n div 2 ^ s))"

lemma round_scaled_parts:
  "round_scaled n k =
     (let q = bitlen n - (k + 24) in min F32_INF (q * 2 ^ 23 + (n div 2 ^ (q + k) + (if rounds_up n (q + k) then 1 else 0))))"
  by (simp add: round_scaled_def rounds_up_def Let_def)

lemma rounded_mantissa_mono:
  assumes "m \<le> n"
  shows "m div 2 ^ s + (if rounds_up m s then 1 else 0) \<le> n div 2 ^ s + (if rounds_up n s then 1 else 0)"
proof (cases "m div 2 ^ s = n div 2 ^ s")
  case True
  then have "m mod 2 ^ s \<le> n mod 2 ^ s"
    using assms by (metis add_le_cancel_left mult_div_mod_eq)
  then have "rounds_up m s \<Longrightarrow> rounds_up n s" using True by (auto simp: rounds_up_def)
  then show ?thesis using True by simp
next
  case False
  have "m div 2 ^ s \<le> n div 2 ^ s" using assms by (rule div_le_mono)
  then show ?thesis using False by simp
qed

lemma round_scaled_mono:
  assumes "m \<le> n"
  shows "round_scaled m k \<le> round_scaled n k"
proof -
  define p q where "p = bitlen m - (k + 24)" and "q = bitlen n - (k + 24)"
  let ?f = "\<lambda>n s. n div 2 ^ s + (if rounds_up n s then 1 else 0)"
  have pq: "p \<le> q" using bitlen_mono [OF assms] by (simp add: p_def q_def)
  have "p * 2 ^ 23 + ?f m (p + k) \<le> q * 2 ^ 23 + ?f n (q + k)"
  proof (cases "p = q")
    case True
    then show ?thesis using rounded_mantissa_mono [OF assms, of "q + k"] by simp
  next
    case False
    then have "p < q" using pq by simp
    have "m div 2 ^ (p + k) < 2 ^ 24" by (rule mantissa_bounds(1) [OF p_def])
    then have "?f m (p + k) \<le> 2 ^ 24" by simp
    moreover have "2 ^ 23 \<le> ?f n (q + k)" using mantissa_bounds(2) [OF q_def] \<open>p < q\<close> by simp
    moreover have "Suc p * 2 ^ 23 \<le> q * 2 ^ 23" using \<open>p < q\<close> by (intro mult_le_mono1) simp
    ultimately show ?thesis by simp
  qed
  then show ?thesis
    unfolding round_scaled_parts Let_def p_def [symmetric] q_def [symmetric] by (intro min.mono) simp_all
qed

lemma round_scaled_0 [simp]: "round_scaled 0 k = 0"
  by (simp add: round_scaled_def bitlen.simps [of 0])

lemma f32_finite_mag: "f32_finite a \<longleftrightarrow> f32_mag a < F32_INF"
  by (simp add: f32_finite_def)

lemma finite_not_nan [simp]: "f32_finite a \<Longrightarrow> \<not> f32_nan a"
  by (simp add: f32_finite_def f32_nan_def)

text \<open>Rounding the units of a finite magnitude gives it back.\<close>

lemma mag_parts:
  assumes "m < 2 ^ 31"
  obtains q f where "mag_units m = f * 2 ^ q" "f < 2 ^ 24" "q \<le> 254" "m < F32_INF \<Longrightarrow> q \<le> 253"
proof -
  let ?e = "m div 2 ^ 23" and ?f = "m mod 2 ^ 23"
  have f: "?f < 2 ^ 23" by simp
  have e: "?e < 256" using assms by (simp add: less_mult_imp_div_less)
  have e2: "m < F32_INF \<Longrightarrow> ?e < 255" by (simp add: F32_INF_def less_mult_imp_div_less)
  show thesis
  proof (cases "?e = 0")
    case True
    then show thesis using that [of ?f 0] f by (simp add: mag_units_def)
  next
    case False
    have "?f + 2 ^ 23 < 2 ^ 24" using f by simp
    moreover have "?e - 1 \<le> 254" "m < F32_INF \<Longrightarrow> ?e - 1 \<le> 253" using e e2 by linarith+
    ultimately show thesis using that [of "?f + 2 ^ 23" "?e - 1"] False by (simp add: mag_units_def Let_def)
  qed
qed

lemma round_self:
  assumes "m < F32_INF"
  shows "round_scaled (mag_units m) 0 = m"
proof -
  have "m < 2 ^ 31" using assms by (simp add: F32_INF_def)
  then obtain q f where f: "mag_units m = f * 2 ^ q" "f < 2 ^ 24" "q \<le> 253" using mag_parts assms by metis
  from round_scaled_exact [OF f] have "mag_units (round_scaled (mag_units m) 0) = mag_units m" by simp
  then show ?thesis using mag_units_mono by (metis nle_le)
qed


lemma bitlen_shift: "n \<noteq> 0 \<Longrightarrow> bitlen (n * 2 ^ j) = bitlen n + j"
proof (induction j)
  case (Suc j)
  then show ?case by (subst bitlen.simps) simp
qed simp

lemma round_scaled_shift: "round_scaled (n * 2 ^ j) (k + j) = round_scaled n k"
proof (cases "n = 0")
  case False
  define q where "q = bitlen n - (k + 24)"
  have q: "bitlen (n * 2 ^ j) - (k + j + 24) = q" using bitlen_shift [OF False, of j] by (simp add: q_def)
  have p: "(2::nat) ^ (q + (k + j)) = 2 ^ (q + k) * 2 ^ j" by (simp add: power_add)
  have "(n * 2 ^ j) div 2 ^ (q + (k + j)) = n div 2 ^ (q + k)" "(n * 2 ^ j) mod 2 ^ (q + (k + j)) = (n mod 2 ^ (q + k)) * 2 ^ j"
    unfolding p by (rule div_mult_mult2, simp) (rule mod_mult_mult2)
  then have "rounds_up (n * 2 ^ j) (q + (k + j)) = rounds_up n (q + k)"
    unfolding rounds_up_def p by (simp add: mult.assoc [symmetric])
  then show ?thesis
    using \<open>(n * 2 ^ j) div 2 ^ (q + (k + j)) = n div 2 ^ (q + k)\<close>
    by (simp add: round_scaled_parts q q_def [symmetric] Let_def)
qed simp

section \<open>Monotone sums and products\<close>

text \<open>The signed pattern of a rounded integer of units.\<close>

definition rkey :: "int \<Rightarrow> nat \<Rightarrow> int" where
  "rkey v k = (if v < 0 then - int (round_scaled (nat (- v)) k) else int (round_scaled (nat v) k))"

lemma rkey_mono: "v \<le> w \<Longrightarrow> rkey v k \<le> rkey w k"
  by (auto simp: rkey_def intro!: round_scaled_mono)

lemma key_pack [simp]: "m < 2 ^ 31 \<Longrightarrow> f32_key (f32_pack s m) = (if s then - int m else int m)"
  by (simp add: f32_key_def)

lemma f32_key_val:
  assumes "f32_finite a"
  shows "f32_key a = rkey (f32_val a) 0"
proof -
  have m: "f32_mag a < F32_INF" using assms by (simp add: f32_finite_def)
  have "f32_mag a = 0" if "mag_units (f32_mag a) = 0" using round_self [OF m] that by simp
  then show ?thesis using round_self [OF m] by (auto simp: f32_key_def f32_val_def rkey_def)
qed

lemma pack_not_nan [simp]: "\<not> f32_nan (f32_pack s (round_scaled n k))"
  using round_scaled_le [of n k] round_scaled_less [of n k] by (simp add: f32_nan_def)

lemma f32_add_key:
  assumes "f32_finite a" "f32_finite b"
  shows "f32_key (f32_add a b) = rkey (f32_val a + f32_val b) 0" "\<not> f32_nan (f32_add a b)"
proof -
  let ?v = "f32_val a + f32_val b"
  have abs: "nat \<bar>?v\<bar> = (if ?v < 0 then nat (- ?v) else nat ?v)" by simp
  show "f32_key (f32_add a b) = rkey ?v 0"
    using assms round_scaled_less by (auto simp: f32_add_def rkey_def Let_def abs)
  show "\<not> f32_nan (f32_add a b)"
    using assms by (auto simp: f32_add_def Let_def) (simp add: f32_nan_def F32_INF_def)
qed

lemma f32_mul_key:
  assumes "f32_finite a" "f32_finite b" "0 \<le> f32_val b"
  shows "f32_key (f32_mul a b) = rkey (f32_val a * f32_val b) 149" "\<not> f32_nan (f32_mul a b)"
proof -
  show "\<not> f32_nan (f32_mul a b)" using assms by (simp add: f32_mul_def Let_def)
  have b: "f32_val b = int (mag_units (f32_mag b))" using assms(3) by (auto simp: f32_val_def split: if_splits)
  have "f32_sign b \<Longrightarrow> mag_units (f32_mag b) = 0" using assms(3) by (simp add: f32_val_def)
  moreover have "0 < int m * int n \<or> round_scaled (m * n) 149 = 0" for m n by (cases "m * n = 0") (auto simp flip: of_nat_mult)
  ultimately have "f32_sign b \<Longrightarrow> mag_units (f32_mag b) = 0"
    and "\<not> 0 < int (mag_units (f32_mag a)) * int (mag_units (f32_mag b)) \<Longrightarrow> round_scaled (mag_units (f32_mag a) * mag_units (f32_mag b)) 149 = 0"
    by blast+
  then show "f32_key (f32_mul a b) = rkey (f32_val a * f32_val b) 149"
    using assms(1,2) round_scaled_less
    by (cases "f32_sign a"; cases "f32_sign b")
      (auto simp: f32_mul_def Let_def b f32_val_def rkey_def mult_less_0_iff nat_mult_distrib)
qed

lemma f32_le_key: "\<not> f32_nan a \<Longrightarrow> \<not> f32_nan b \<Longrightarrow> f32_le a b \<longleftrightarrow> f32_key a \<le> f32_key b"
  by (simp add: f32_le_def)

lemma f32_add_mono:
  assumes "f32_finite a" "f32_finite a'" "f32_finite b" "f32_le a a'"
  shows "f32_le (f32_add a b) (f32_add a' b)"
  using assms f32_le_val [of a a'] by (simp add: f32_le_key f32_add_key rkey_mono)

lemma f32_add_down:
  assumes "f32_finite a" "f32_finite b" "f32_val b \<le> 0"
  shows "f32_le (f32_add a b) a"
  using assms by (simp add: f32_le_key f32_add_key f32_key_val rkey_mono)

lemma f32_add_up:
  assumes "f32_finite a" "f32_finite b" "0 \<le> f32_val b"
  shows "f32_le a (f32_add a b)"
  using assms by (simp add: f32_le_key f32_add_key f32_key_val rkey_mono)

lemma f32_mul_mono:
  assumes "f32_finite a" "f32_finite a'" "f32_finite b" "0 \<le> f32_val b" "f32_le a a'"
  shows "f32_le (f32_mul a b) (f32_mul a' b)"
  using assms f32_le_val [of a a'] by (simp add: f32_le_key f32_mul_key rkey_mono mult_right_mono)

text \<open>A factor of at most one brings a number no further from zero.\<close>

lemma rkey_shift: "rkey (v * 2 ^ 149) 149 = rkey v 0"
proof -
  have "nat (v * 2 ^ 149) = nat v * 2 ^ 149" "nat (- (v * 2 ^ 149)) = nat (- v) * 2 ^ 149"
    by (simp_all add: nat_mult_distrib nat_power_eq flip: mult_minus_left)
  moreover have "(v * 2 ^ 149 < 0) = (v < 0)" by (simp add: mult_less_0_iff)
  ultimately show ?thesis unfolding rkey_def using round_scaled_shift [of _ 149 0] by simp
qed

lemma f32_mul_shrink:
  assumes "f32_finite a" "f32_finite b" "0 \<le> f32_val a" "0 \<le> f32_val b" "f32_val b \<le> 2 ^ 149"
  shows "f32_le (f32_mul a b) a"
proof -
  have "f32_val a * f32_val b \<le> f32_val a * 2 ^ 149" using assms by (intro mult_left_mono) simp_all
  then have "rkey (f32_val a * f32_val b) 149 \<le> f32_key a"
    using rkey_mono rkey_shift [of "f32_val a"] f32_key_val [OF assms(1)] by metis
  then show ?thesis using assms by (simp add: f32_le_key f32_mul_key)
qed

lemma f32_neg_val [simp]: "f32_val (f32_neg a) = - f32_val a" "f32_finite (f32_neg a) = f32_finite a" "f32_nan (f32_neg a) = f32_nan a"
  using f32_mag_less [of a] by (simp_all add: f32_neg_def f32_val_def f32_finite_def f32_nan_def)

lemma f32_sub_down:
  assumes "f32_finite a" "f32_finite b" "0 \<le> f32_val b"
  shows "f32_le (f32_sub a b) a"
  using assms by (simp add: f32_sub_def f32_add_down)

end
