(* ===== verification/F64.thy ===== *)
theory F64
  imports F32Ops
begin

text \<open>
  Rust's \<open>f64\<close>, where the experience curve, kill rewards and quest fractions use it: binary64 on bit
  patterns, the same construction as \<open>F32\<close> with a 53 bit mantissa and units of the least subnormal, \<open>2 ^ -1074\<close>.
\<close>

text \<open>A double is its sign bit and the value of the other 63 bits.\<close>

datatype f64 = F64 (f64_sign: bool) (f64_mag: nat)

definition F64_INF :: nat where "F64_INF = 0x7ff0000000000000"

definition F64_NAN :: f64 where "F64_NAN = F64 False 0x7ff8000000000000"

definition f64_nan :: "f64 \<Rightarrow> bool" where
  "f64_nan w \<longleftrightarrow> F64_INF < f64_mag w"

definition f64_finite :: "f64 \<Rightarrow> bool" where
  "f64_finite w \<longleftrightarrow> f64_mag w < F64_INF"

text \<open>A magnitude is \<open>f64_frac * 2 ^ f64_exp\<close> units; the pair is kept apart so that nothing is shifted by a thousand bits.\<close>

definition f64_frac :: "f64 \<Rightarrow> nat" where
  "f64_frac w = (if f64_mag w < 2 ^ 52 then f64_mag w else 2 ^ 52 + f64_mag w mod 2 ^ 52)"

definition f64_exp :: "f64 \<Rightarrow> nat" where
  "f64_exp w = f64_mag w div 2 ^ 52 - 1"

definition f64_key :: "f64 \<Rightarrow> int" where
  "f64_key w = (if f64_sign w then - int (f64_mag w) else int (f64_mag w))"

definition f64_lt :: "f64 \<Rightarrow> f64 \<Rightarrow> bool" where
  "f64_lt a b \<longleftrightarrow> \<not> f64_nan a \<and> \<not> f64_nan b \<and> f64_key a < f64_key b"

text \<open>The nearest magnitude to \<open>n * 2 ^ e\<close> units over \<open>2 ^ k\<close>.\<close>

definition round64_half :: "nat \<Rightarrow> nat \<Rightarrow> nat" where
  "round64_half n d = n div d + (if 2 * (n mod d) > d \<or> (2 * (n mod d) = d \<and> odd (n div d)) then 1 else 0)"

definition round64_at :: "nat \<Rightarrow> nat \<Rightarrow> nat \<Rightarrow> nat \<Rightarrow> nat" where
  "round64_at n e k q =
     min F64_INF (q * 2 ^ 52 + (if q + k \<le> e then n * 2 ^ (e - (q + k)) else round64_half n (2 ^ (q + k - e))))"

definition round64 :: "nat \<Rightarrow> nat \<Rightarrow> nat \<Rightarrow> nat" where
  "round64 n e k = (if n = 0 then 0 else round64_at n e k (bitlen n + e - (k + 53)))"

definition f64_neg :: "f64 \<Rightarrow> f64" where
  "f64_neg a = F64 (\<not> f64_sign a) (f64_mag a)"

definition f64_signed :: "nat \<Rightarrow> f64 \<Rightarrow> int" where
  "f64_signed e w = (if f64_sign w then - int (f64_frac w * 2 ^ (f64_exp w - e)) else int (f64_frac w * 2 ^ (f64_exp w - e)))"

definition f64_pack_sum :: "bool \<Rightarrow> int \<Rightarrow> nat \<Rightarrow> f64" where
  "f64_pack_sum s v e = (if v = 0 then F64 s 0 else F64 (v < 0) (round64 (nat \<bar>v\<bar>) e 0))"

definition f64_min_exp :: "f64 \<Rightarrow> f64 \<Rightarrow> nat" where
  "f64_min_exp a b = min (f64_exp a) (f64_exp b)"

definition f64_add :: "f64 \<Rightarrow> f64 \<Rightarrow> f64" where
  "f64_add a b =
     (if f64_nan a \<or> f64_nan b then F64_NAN
      else if \<not> f64_finite a then (if \<not> f64_finite b \<and> f64_sign a \<noteq> f64_sign b then F64_NAN else a)
      else if \<not> f64_finite b then b
      else f64_pack_sum (f64_sign a \<and> f64_sign b)
             (f64_signed (f64_min_exp a b) a + f64_signed (f64_min_exp a b) b) (f64_min_exp a b))"

definition f64_sub :: "f64 \<Rightarrow> f64 \<Rightarrow> f64" where
  "f64_sub a b = f64_add a (f64_neg b)"

definition f64_mul :: "f64 \<Rightarrow> f64 \<Rightarrow> f64" where
  "f64_mul a b =
     (let s = (f64_sign a \<noteq> f64_sign b) in
      if f64_nan a \<or> f64_nan b then F64_NAN
      else if \<not> f64_finite a \<or> \<not> f64_finite b
      then (if f64_mag a = 0 \<or> f64_mag b = 0 then F64_NAN else F64 s F64_INF)
      else F64 s (round64 (f64_frac a * f64_frac b) (f64_exp a + f64_exp b) 1074))"

text \<open>The quotient to more than 53 bits, doubled, with a sticky bit below.\<close>

definition f64_div :: "f64 \<Rightarrow> f64 \<Rightarrow> f64" where
  "f64_div a b =
     (let s = (f64_sign a \<noteq> f64_sign b) in
      if f64_nan a \<or> f64_nan b then F64_NAN
      else if \<not> f64_finite a then (if f64_finite b then F64 s F64_INF else F64_NAN)
      else if \<not> f64_finite b then F64 s 0
      else if f64_mag b = 0 then (if f64_mag a = 0 then F64_NAN else F64 s F64_INF)
      else let n = f64_frac a * 2 ^ 110; d = f64_frac b
           in F64 s (round64 (2 * (n div d) + (if n mod d = 0 then 0 else 1)) (f64_exp a + 1074) (f64_exp b + 111)))"

text \<open>\<open>as f64\<close> of an integer and of an \<open>f32\<close>; the latter is exact.\<close>

definition f64_of_int :: "int \<Rightarrow> f64" where
  "f64_of_int n = F64 (n < 0) (round64 (nat \<bar>n\<bar>) 1074 0)"

definition f64_of_f32 :: "f32 \<Rightarrow> f64" where
  "f64_of_f32 a =
     (if f32_nan a then F64_NAN
      else if \<not> f32_finite a then F64 (f32_sign a) F64_INF
      else F64 (f32_sign a) (round64 (mag_units (f32_mag a)) 925 0))"

definition f64_max :: "f64 \<Rightarrow> f64 \<Rightarrow> f64" where
  "f64_max a b = (if f64_nan a then b else if f64_nan b then a else if f64_lt a b then b else a)"

text \<open>\<open>round\<close>, halves away from zero, and \<open>as i32\<close>, towards zero and saturating.\<close>

definition f64_round :: "f64 \<Rightarrow> f64" where
  "f64_round a =
     (if \<not> f64_finite a then a
      else if 1074 \<le> f64_exp a then a
      else let d = 1074 - f64_exp a
           in F64 (f64_sign a) (round64 ((f64_frac a * 2 + 2 ^ d) div 2 ^ (d + 1)) 1074 0))"

definition f64_to_i32 :: "f64 \<Rightarrow> int" where
  "f64_to_i32 a =
     (if f64_nan a then 0
      else if \<not> f64_finite a then (if f64_sign a then I32_MIN else I32_MAX)
      else let n = int (if 1074 \<le> f64_exp a then f64_frac a * 2 ^ (f64_exp a - 1074) else f64_frac a div 2 ^ (1074 - f64_exp a))
           in max I32_MIN (min I32_MAX (if f64_sign a then - n else n)))"

lemma f64_to_i32_range: "I32_MIN \<le> f64_to_i32 a \<and> f64_to_i32 a \<le> I32_MAX"
proof -
  have "I32_MIN \<le> I32_MAX" by (simp add: I32_MIN_def I32_MAX_def)
  then show ?thesis by (simp add: f64_to_i32_def Let_def) (simp add: I32_MIN_def I32_MAX_def)
qed

section \<open>Evaluation\<close>

text \<open>Counting sixteen bits at a time keeps evaluation short.\<close>

lemma bitlen_chunk: "65536 \<le> n \<Longrightarrow> bitlen n = 16 + bitlen (n div 65536)"
proof -
  assume n: "65536 \<le> n"
  have step: "0 < m \<Longrightarrow> bitlen m = Suc (bitlen (m div 2))" for m by (subst bitlen.simps) simp
  have "2 ^ k \<le> m \<Longrightarrow> bitlen m = k + bitlen (m div 2 ^ k)" for m k
  proof (induction k arbitrary: m)
    case (Suc k)
    then have "2 ^ k \<le> m div 2" "0 < m" by auto (metis gr0I le_zero_eq mult_eq_0_iff power_not_zero zero_neq_numeral)
    then show ?case using Suc.IH [of "m div 2"] step [of m] by (simp add: div_mult2_eq)
  qed simp
  from this [of 16 n] n show ?thesis by simp
qed

lemma bitlen_small: "n < 65536 \<Longrightarrow> bitlen n = (if n = 0 then 0 else Suc (bitlen (n div 2)))"
  by (rule bitlen.simps)

lemmas f64_eval = f64_add_def f64_signed_def f64_pack_sum_def f64_min_exp_def f64_sub_def f64_neg_def f64_mul_def f64_nan_def
  f64_finite_def f64_frac_def f64_exp_def round64_def round64_at_def round64_half_def F64_INF_def
  F64_NAN_def Let_def bitlen_chunk bitlen_small f64_of_int_def f64_round_def f64_to_i32_def I32_MIN_def I32_MAX_def f64_key_def
  f64_lt_def f64_max_def f64_div_def

section \<open>Whole numbers are exact\<close>

lemma half_scaled: "round64_half (n * 2 ^ j) (d * 2 ^ j) = round64_half n d"
proof -
  have "n * 2 ^ j mod (d * 2 ^ j) = (n mod d) * 2 ^ j" by (simp add: mod_mult_mult2)
  moreover have "n * 2 ^ j div (d * 2 ^ j) = n div d" by simp
  ultimately show ?thesis by (simp add: round64_half_def mult.assoc [symmetric])
qed

lemma half_exact: "0 < d \<Longrightarrow> round64_half (n * d) d = n"
  by (simp add: round64_half_def)

lemma round64_shift: "round64 (n * 2 ^ j) e k = round64 n (e + j) k"
proof (cases "n = 0")
  case False
  define q where "q = bitlen n + (e + j) - (k + 53)"
  have "round64_at (n * 2 ^ j) e k q = round64_at n (e + j) k q"
  proof -
    consider "q + k \<le> e" | "e < q + k" "q + k \<le> e + j" | "e + j < q + k" by linarith
    then show ?thesis
    proof cases
      case 1
      then have "e + j - (q + k) = j + (e - (q + k))" by simp
      then have "n * 2 ^ (e + j - (q + k)) = n * 2 ^ j * 2 ^ (e - (q + k))" by (simp only: power_add mult.assoc)
      moreover have "q + k \<le> e + j" using 1 by simp
      ultimately show ?thesis unfolding round64_at_def using 1 by (simp only: if_True)
    next
      case 2
      then have "j = (e + j - (q + k)) + (q + k - e)" by simp
      then have j: "n * 2 ^ j = n * 2 ^ (e + j - (q + k)) * 2 ^ (q + k - e)" by (metis mult.assoc power_add)
      have "round64_half (n * 2 ^ j) (2 ^ (q + k - e)) = n * 2 ^ (e + j - (q + k))" unfolding j by (rule half_exact) simp
      then show ?thesis using 2 by (simp add: round64_at_def)
    next
      case 3
      then have "q + k - e = (q + k - (e + j)) + j" by simp
      then have j: "(2::nat) ^ (q + k - e) = 2 ^ (q + k - (e + j)) * 2 ^ j" by (metis power_add)
      have "round64_half (n * 2 ^ j) (2 ^ (q + k - e)) = round64_half n (2 ^ (q + k - (e + j)))" unfolding j by (rule half_scaled)
      then show ?thesis using 3 by (simp add: round64_at_def)
    qed
  qed
  then show ?thesis using False by (simp add: round64_def bitlen_shift q_def add.assoc add.commute [of j])
qed (simp add: round64_def)

lemma round64_cancel: "round64 n (e + j) (k + j) = round64 n e k"
  by (simp add: round64_def round64_at_def)

text \<open>A double that is the whole number \<open>n\<close>.\<close>

definition f64_whole :: "f64 \<Rightarrow> nat \<Rightarrow> bool" where
  "f64_whole a n \<longleftrightarrow> \<not> f64_sign a \<and> f64_finite a \<and> f64_frac a * 2 ^ f64_exp a = n * 2 ^ 1074"

lemma f64_whole_parts:
  assumes "0 < n" "n < 2 ^ 53"
  shows "f64_whole (f64_of_int (int n)) n"
proof -
  define b where "b = bitlen n"
  define m where "m = n * 2 ^ (53 - b)"
  define q where "q = b + 1021"
  have b: "0 < b" "b \<le> 53" using assms bitlen_bounds [of n] bitlen_le [of n 53] by (auto simp: b_def intro: gr0I)
  have "2 ^ (b - 1) \<le> n" "n < 2 ^ b" using bitlen_bounds [of n] assms(1) by (simp_all add: b_def)
  then have "2 ^ (b - 1) * 2 ^ (53 - b) \<le> m" "m < 2 ^ b * 2 ^ (53 - b)" by (simp_all add: m_def)
  moreover have "2 ^ (b - 1) * 2 ^ (53 - b) = (2::nat) ^ 52" "2 ^ b * 2 ^ (53 - b) = (2::nat) ^ 53"
    using b by (simp_all add: power_add [symmetric])
  ultimately have m: "2 ^ 52 \<le> m" "m < 2 ^ 53" by simp_all
  have "1074 - q = 53 - b" "q \<le> 1074" "b + 1074 - 53 = q" using b by (simp_all add: q_def)
  then have mag: "f64_of_int (int n) = F64 False (min F64_INF (q * 2 ^ 52 + m))"
    using assms(1) by (simp add: f64_of_int_def round64_def round64_at_def b_def [symmetric] m_def)
  have "q * 2 ^ 52 + m < 1076 * 2 ^ 52" using m \<open>q \<le> 1074\<close> by simp
  then have lt: "q * 2 ^ 52 + m < F64_INF" by (simp add: F64_INF_def)
  have split: "q * 2 ^ 52 + m = (q + 1) * 2 ^ 52 + (m - 2 ^ 52)" "m - 2 ^ 52 < 2 ^ 52" using m by simp_all
  have "(p * d + r) mod d = r \<and> (p * d + r) div d = p" if "r < d" for p d r :: nat using that by simp
  from this [OF split(2), of "q + 1"]
  have "(q * 2 ^ 52 + m) mod 2 ^ 52 = m - 2 ^ 52" "(q * 2 ^ 52 + m) div 2 ^ 52 = q + 1"
    unfolding split(1) by blast+
  then have "f64_frac (f64_of_int (int n)) = m" "f64_exp (f64_of_int (int n)) = q"
    using lt m split by (simp_all add: mag f64_frac_def f64_exp_def)
  moreover have "m * 2 ^ q = n * 2 ^ 1074"
    using b by (simp add: m_def q_def mult.assoc power_add [symmetric])
  ultimately show ?thesis using lt by (simp add: f64_whole_def mag f64_finite_def)
qed

lemma whole_eq:
  assumes "f64_whole a m" "f64_whole b n"
  shows "round64 (f64_frac a * f64_frac b) (f64_exp a + f64_exp b) 1074 = round64 (m * n) 1074 0"
proof -
  let ?E = "f64_exp a + f64_exp b"
  have "f64_frac a * f64_frac b * 2 ^ ?E = (m * n) * 2 ^ (1074 + 1074)"
    using assms unfolding f64_whole_def power_add by (metis mult.assoc mult.left_commute)
  then have "round64 (f64_frac a * f64_frac b) (0 + ?E) 1074 = round64 (m * n) (0 + (1074 + 1074)) 1074"
    unfolding round64_shift [symmetric] by simp
  then show ?thesis using round64_cancel [of "m * n" 1074 1074 0] by simp
qed

lemma f64_mul_whole:
  assumes "f64_whole a m" "f64_whole b n"
  shows "f64_mul a b = f64_of_int (int m * int n)"
proof -
  have "f64_mul a b = F64 False (round64 (f64_frac a * f64_frac b) (f64_exp a + f64_exp b) 1074)"
    using assms by (simp add: f64_mul_def f64_whole_def f64_finite_def f64_nan_def)
  then show ?thesis unfolding whole_eq [OF assms] by (simp add: f64_of_int_def nat_mult_distrib flip: of_nat_mult)
qed

lemma f64_sub_whole:
  assumes "f64_whole a m" "f64_whole b n" "n < m"
  shows "f64_sub a b = f64_of_int (int m - int n)"
proof -
  define e where "e = f64_min_exp a b"
  define x where "x = f64_frac a * 2 ^ (f64_exp a - e)"
  define y where "y = f64_frac b * 2 ^ (f64_exp b - e)"
  have up: "f64_frac w * 2 ^ (f64_exp w - e) * 2 ^ e = f64_frac w * 2 ^ f64_exp w" if "e \<le> f64_exp w" for w
    using that by (simp add: mult.assoc power_add [symmetric])
  have xy: "x * 2 ^ e = m * 2 ^ 1074" "y * 2 ^ e = n * 2 ^ 1074"
    using assms up [of a] up [of b] by (simp_all add: x_def y_def f64_whole_def e_def f64_min_exp_def)
  then have "y * 2 ^ e < x * 2 ^ e" using assms(3) by (metis mult_less_mono1 zero_less_numeral zero_less_power)
  then have lt: "y < x" by simp
  have "(x - y) * 2 ^ e = (m - n) * 2 ^ 1074" unfolding diff_mult_distrib xy ..
  then have "round64 (x - y) (0 + e) 0 = round64 (m - n) (0 + 1074) 0" unfolding round64_shift [symmetric] by simp
  moreover have "f64_sub a b = F64 False (round64 (x - y) e 0)"
  proof -
    have neg: "f64_frac (f64_neg b) = f64_frac b" "f64_exp (f64_neg b) = f64_exp b" "f64_sign (f64_neg b) = (\<not> f64_sign b)"
      "f64_mag (f64_neg b) = f64_mag b" by (simp_all add: f64_neg_def f64_frac_def f64_exp_def)
    have e: "f64_min_exp a (f64_neg b) = e" by (simp add: e_def f64_min_exp_def neg)
    have "f64_sub a b = f64_pack_sum False (int x - int y) e"
      using assms(1,2) unfolding f64_sub_def f64_add_def e
      by (simp add: f64_signed_def neg f64_nan_def f64_finite_def f64_whole_def x_def y_def)
    moreover have "nat \<bar>int x - int y\<bar> = x - y" using lt by simp
    ultimately show ?thesis using lt by (simp add: f64_pack_sum_def)
  qed
  moreover have "nat \<bar>int m - int n\<bar> = m - n" using assms(3) by simp
  ultimately show ?thesis using assms(3) by (simp add: f64_of_int_def)
qed

lemma f64_whole_cases:
  assumes "f64_whole a n"
  shows "(1074 \<le> f64_exp a \<and> f64_frac a * 2 ^ (f64_exp a - 1074) = n)
    \<or> (f64_exp a < 1074 \<and> f64_frac a = n * 2 ^ (1074 - f64_exp a))"
proof (cases "1074 \<le> f64_exp a")
  case True
  then have "2 ^ f64_exp a = (2::nat) ^ (f64_exp a - 1074) * 2 ^ 1074" by (simp only: power_add [symmetric]) simp
  then have "f64_frac a * 2 ^ (f64_exp a - 1074) * 2 ^ 1074 = n * 2 ^ 1074"
    using assms unfolding f64_whole_def by (metis mult.assoc)
  then have "f64_frac a * 2 ^ (f64_exp a - 1074) = n" by (simp only: mult_cancel2) simp
  then show ?thesis using True by simp
next
  case False
  then have "2 ^ 1074 = (2::nat) ^ (1074 - f64_exp a) * 2 ^ f64_exp a" by (simp only: power_add [symmetric]) simp
  then have "f64_frac a * 2 ^ f64_exp a = n * 2 ^ (1074 - f64_exp a) * 2 ^ f64_exp a"
    using assms unfolding f64_whole_def by (metis mult.assoc)
  then show ?thesis using False by simp
qed

lemma f64_whole_round:
  assumes "f64_whole a n"
  shows "f64_round a = a \<or> f64_round a = f64_of_int (int n)"
proof (cases "1074 \<le> f64_exp a")
  case False
  have "(n * D * 2 + D) div (2 * D) = n" if "0 < D" for D :: nat
    using that by (intro div_nat_eqI) (simp_all add: algebra_simps)
  from this [of "2 ^ (1074 - f64_exp a)"]
  have "(f64_frac a * 2 + 2 ^ (1074 - f64_exp a)) div 2 ^ (1074 - f64_exp a + 1) = n"
    using f64_whole_cases [OF assms] False by simp
  then show ?thesis using False assms by (simp add: f64_round_def f64_whole_def Let_def f64_of_int_def)
qed (simp add: f64_round_def)

lemma f64_whole_to_i32: "f64_whole a n \<Longrightarrow> int n \<le> I32_MAX \<Longrightarrow> f64_to_i32 a = int n"
  using f64_whole_cases [of a n]
  by (auto simp: f64_to_i32_def f64_whole_def f64_nan_def f64_finite_def I32_MIN_def)

lemma f64_whole_rounded:
  assumes "f64_whole a n" "0 < n" "int n \<le> I32_MAX"
  shows "f64_to_i32 (f64_round a) = int n"
proof -
  have "n < 2 ^ 53" using assms(3) by (simp add: I32_MAX_def)
  then show ?thesis
    using f64_whole_round [OF assms(1)] f64_whole_to_i32 [OF assms(1,3)] f64_whole_parts [OF assms(2)] f64_whole_to_i32 assms(3)
    by metis
qed

end
