(* ===== verification/CharData.thy ===== *)
theory CharData
  imports F64 "HOL-Library.Signed_Division"
begin

text \<open>
  \<open>char_data.rs\<close>: the race and class tables, hit points and mana by EverQuest's formulas, the intrinsic character of
  a race, class and level, and the experience a level takes.  The formulas are in \<open>i32\<close>; at the levels and
  statistics \<open>compute\<close> feeds them (levels up to 99) nothing comes near the bounds, so they are written over the integers,
  with Rust's division towards zero.
\<close>

definition MAX_LEVEL :: int where "MAX_LEVEL = 60"

section \<open>The tables\<close>

record stat_block =
  sb_str :: int
  sb_dex :: int
  sb_agi :: int
  sb_int :: int
  sb_wis :: int
  sb_cha :: int
  sb_con :: int

definition stats :: "int \<Rightarrow> int \<Rightarrow> int \<Rightarrow> int \<Rightarrow> int \<Rightarrow> int \<Rightarrow> int \<Rightarrow> stat_block" where
  "stats s d a i w ch co = \<lparr>sb_str = s, sb_dex = d, sb_agi = a, sb_int = i, sb_wis = w, sb_cha = ch, sb_con = co\<rparr>"

definition stat_flat :: "int \<Rightarrow> stat_block" where
  "stat_flat v = stats v v v v v v v"

definition stat_add :: "stat_block \<Rightarrow> stat_block \<Rightarrow> stat_block" where
  "stat_add a b = stats (sb_str a + sb_str b) (sb_dex a + sb_dex b) (sb_agi a + sb_agi b) (sb_int a + sb_int b)
     (sb_wis a + sb_wis b) (sb_cha a + sb_cha b) (sb_con a + sb_con b)"

definition BASE :: int where "BASE = 10"

text \<open>100.0, 20.0 and 5.0.\<close>

definition BASE_ST :: f32 where "BASE_ST = 0x42c80000"

definition MIN_MANA :: f32 where "MIN_MANA = 0x41a00000"

definition default_level_gain :: "stat_block \<times> f32" where
  "default_level_gain = (stat_flat 0, 0x40a00000)"

text \<open>Strength, dexterity, agility, intelligence, wisdom, charisma, constitution.\<close>

definition RACES :: "(string \<times> stat_block) list" where
  "RACES =
     [(''Human'', stats 2 2 2 2 2 2 2),
      (''Elf'', stats (-5) 10 10 10 5 0 (-5)),
      (''Dark Elf'', stats 0 10 5 15 (-5) (-10) 0),
      (''Gnome'', stats (-5) 0 0 15 5 0 (-5)),
      (''Halfling'', stats (-5) 10 10 0 0 5 (-5)),
      (''Dwarf'', stats 5 0 (-5) 0 5 (-5) 15),
      (''Wood Elf'', stats 0 10 10 (-5) 5 (-5) 0),
      (''Half-Elf'', stats 0 5 5 5 5 0 0),
      (''Ogre'', stats 20 0 0 (-5) (-5) (-15) 10),
      (''Troll'', stats 10 0 0 (-5) (-10) (-15) 20),
      (''Kel`varath'', stats 8 0 0 0 (-5) (-15) 15),
      (''Minotaur'', stats 20 0 (-5) (-8) 0 (-10) 10),
      (''Revenant'', stats 5 0 0 10 (-5) (-15) 10),
      (''Fae'', stats (-15) 0 15 20 10 5 (-10)),
      (''Felhari'', stats 0 12 12 (-5) (-5) (-5) 5),
      (''Kobold'', stats (-8) 10 5 8 0 (-10) (-5)),
      (''Half-Ogre'', stats 15 0 0 (-3) (-3) (-8) 8)]"

text \<open>Each class's starting bonuses with its stamina, and what a level adds.\<close>

definition CLASSES :: "(string \<times> stat_block \<times> f32) list" where
  "CLASSES =
     [(''Warrior'', stats 10 0 0 0 0 0 8, 0x41a00000),
      (''Magician'', stats 0 0 0 15 10 0 0, 0x00000000),
      (''Wizard'', stats 0 0 0 18 5 0 0, 0x00000000),
      (''Sorcerer'', stats 0 0 0 10 5 15 0, 0x00000000),
      (''Rogue'', stats 0 15 10 0 0 0 0, 0x41a00000),
      (''Cleric'', stats 0 0 0 0 12 0 8, 0x00000000),
      (''Druid'', stats 0 0 0 8 10 0 0, 0x00000000),
      (''Shaman'', stats 5 0 0 0 10 0 8, 0x41700000),
      (''Beast Master'', stats 8 0 5 0 5 0 8, 0x41a00000),
      (''Blood Mage'', stats 0 0 0 15 0 0 5, 0x00000000),
      (''Paladin'', stats 10 0 0 0 8 0 5, 0x41700000),
      (''Shadow Knight'', stats 10 0 0 8 0 0 5, 0x41200000),
      (''Necromancer'', stats 0 0 0 15 5 0 0, 0x00000000),
      (''Enchanter'', stats 0 0 0 12 5 12 0, 0x00000000),
      (''Bard'', stats 0 8 5 0 0 12 0, 0x41a00000),
      (''Ranger'', stats 0 12 8 0 5 0 0, 0x41a00000),
      (''Monk'', stats 8 8 8 0 0 0 0, 0x41f00000),
      (''Witch Hunter'', stats 0 0 0 8 8 0 8, 0x41200000)]"

definition LEVEL_GAINS :: "(string \<times> stat_block \<times> f32) list" where
  "LEVEL_GAINS =
     [(''Warrior'', stats 2 0 0 0 0 0 2, 0x41000000),
      (''Magician'', stats 0 0 0 3 2 0 0, 0x40000000),
      (''Wizard'', stats 0 0 0 4 1 0 0, 0x3f800000),
      (''Sorcerer'', stats 0 0 0 2 0 2 0, 0x40000000),
      (''Rogue'', stats 0 2 2 0 0 0 0, 0x41200000),
      (''Cleric'', stats 0 0 0 0 3 0 1, 0x40000000),
      (''Druid'', stats 0 0 0 2 2 0 0, 0x40000000),
      (''Shaman'', stats 1 0 0 0 2 0 1, 0x40a00000),
      (''Beast Master'', stats 2 0 1 0 1 0 1, 0x40c00000),
      (''Blood Mage'', stats 0 0 0 3 0 0 1, 0x40000000),
      (''Paladin'', stats 2 0 0 0 2 0 1, 0x40a00000),
      (''Shadow Knight'', stats 2 0 0 2 0 0 1, 0x40800000),
      (''Necromancer'', stats 0 0 0 3 2 0 0, 0x3f800000),
      (''Enchanter'', stats 0 0 0 3 0 2 0, 0x3f800000),
      (''Bard'', stats 0 2 1 0 0 2 0, 0x41000000),
      (''Ranger'', stats 0 2 2 0 1 0 0, 0x41000000),
      (''Monk'', stats 2 2 1 0 0 0 0, 0x41200000),
      (''Witch Hunter'', stats 0 0 0 2 2 0 1, 0x40800000)]"

section \<open>Hit points and mana\<close>

definition hp_level_factor :: "string \<Rightarrow> int \<Rightarrow> int" where
  "hp_level_factor cl l =
     (if cl = ''Warrior'' then
        (if l < 20 then 220 else if l < 30 then 230 else if l < 40 then 250 else if l < 53 then 270 else if l < 57 then 280
         else if l < 60 then 290 else if l < 70 then 300 else 311)
      else if cl \<in> {''Cleric'', ''Druid'', ''Shaman''} then (if l < 70 then 150 else 157)
      else if cl \<in> {''Paladin'', ''Shadow Knight''} then
        (if l < 35 then 210 else if l < 45 then 220 else if l < 51 then 230 else if l < 56 then 240 else if l < 60 then 250
         else if l < 68 then 260 else 270)
      else if cl \<in> {''Monk'', ''Bard'', ''Rogue'', ''Beast Master''} then
        (if l < 51 then 180 else if l < 58 then 190 else if l < 70 then 200 else 210)
      else if cl \<in> {''Ranger'', ''Witch Hunter''} then (if l < 58 then 200 else if l < 70 then 210 else 220)
      else if cl \<in> {''Magician'', ''Wizard'', ''Necromancer'', ''Enchanter'', ''Sorcerer'', ''Blood Mage''} then
        (if l < 70 then 120 else 127)
      else
        (if l < 35 then 210 else if l < 45 then 220 else if l < 51 then 230 else if l < 56 then 240 else if l < 60 then 250
         else 260))"

datatype mana_kind = ManaInt | ManaWis

definition mana_stat :: "string \<Rightarrow> mana_kind option" where
  "mana_stat cl =
     (if cl \<in> {''Wizard'', ''Magician'', ''Necromancer'', ''Enchanter'', ''Shadow Knight'', ''Bard'', ''Sorcerer'', ''Blood Mage'',
        ''Witch Hunter''} then Some ManaInt
      else if cl \<in> {''Cleric'', ''Druid'', ''Shaman'', ''Paladin'', ''Ranger'', ''Beast Master''} then Some ManaWis
      else None)"

definition base_hp :: "string \<Rightarrow> int \<Rightarrow> int \<Rightarrow> int" where
  "base_hp cl level constitution =
     (let lm = hp_level_factor cl level; con = max constitution 0
      in max (5 + (level * lm) sdiv 10 + (con * level * lm) sdiv 3000) 1)"

definition base_mana :: "string \<Rightarrow> int \<Rightarrow> int \<Rightarrow> int \<Rightarrow> int" where
  "base_mana cl level intelligence wisdom =
     (case mana_stat cl of
        None \<Rightarrow> 0
      | Some k \<Rightarrow>
          let stat = max (case k of ManaInt \<Rightarrow> intelligence | ManaWis \<Rightarrow> wisdom) 0;
              lesser = max ((stat - 199) sdiv 2) 0;
              mind = stat - lesser
          in if 100 < stat then (((5 * (mind + 20)) sdiv 2) * 3 * level) sdiv 40
             else (((5 * (mind + 200)) sdiv 2) * 3 * level) sdiv 100)"

section \<open>Experience\<close>

definition hell_mod :: "int \<Rightarrow> f64" where
  "hell_mod level =
     (if 1 \<le> level \<and> level \<le> 29 then F64 False 0x3ff0000000000000
      else if 30 \<le> level \<and> level \<le> 34 then F64 False 0x3ff199999999999a
      else if 35 \<le> level \<and> level \<le> 39 then F64 False 0x3ff3333333333333
      else if 40 \<le> level \<and> level \<le> 44 then F64 False 0x3ff4cccccccccccd
      else if 45 \<le> level \<and> level \<le> 50 then F64 False 0x3ff6666666666666
      else if level = 51 then F64 False 0x3ff8000000000000
      else if level = 52 then F64 False 0x3ff999999999999a
      else if level = 53 then F64 False 0x3ffb333333333333
      else if level = 54 then F64 False 0x3ffe666666666666
      else if level = 55 then F64 False 0x4000cccccccccccd
      else if level = 56 then F64 False 0x4002666666666666
      else if level = 57 then F64 False 0x4004000000000000
      else if level = 58 then F64 False 0x400599999999999a
      else if level = 59 then F64 False 0x4008000000000000
      else F64 False 0x4008cccccccccccd)"

definition total_xp :: "int \<Rightarrow> f64" where
  "total_xp level =
     (if level < 1 then F64 False 0
      else let l = f64_of_int level
           in f64_mul (f64_mul (f64_mul (f64_mul l l) l) (f64_of_int 1000)) (hell_mod level))"

definition xp_to_next_for :: "int \<Rightarrow> int" where
  "xp_to_next_for level =
     (let lvl = max 1 (min MAX_LEVEL level)
      in f64_to_i32 (f64_round (f64_sub (total_xp lvl) (total_xp (lvl - 1)))))"

section \<open>The intrinsic character\<close>

definition CREATION_RACES :: "string list" where
  "CREATION_RACES = [''Human'', ''Elf'', ''Dark Elf'', ''Wood Elf'', ''Gnome'', ''Halfling'', ''Dwarf'', ''Half-Elf'', ''Ogre'', ''Troll'', ''Kel`varath'', ''Minotaur'', ''Fae'', ''Felhari'', ''Kobold'', ''Half-Ogre'']"

definition PLAYABLE_CLASSES :: "string list" where
  "PLAYABLE_CLASSES = [''Warrior'', ''Paladin'', ''Shadow Knight'', ''Cleric'', ''Druid'', ''Shaman'', ''Beast Master'', ''Rogue'', ''Monk'', ''Ranger'', ''Witch Hunter'', ''Bard'', ''Magician'', ''Wizard'', ''Sorcerer'', ''Enchanter'', ''Necromancer'', ''Blood Mage'']"


definition is_creation_race :: "string \<Rightarrow> bool" where
  "is_creation_race race = (race \<in> set CREATION_RACES)"

definition is_playable_class :: "string \<Rightarrow> bool" where
  "is_playable_class cl = (cl \<in> set PLAYABLE_CLASSES)"

record computed_character =
  cc_stats :: stat_block
  cc_max_hp :: f32
  cc_max_mp :: f32
  cc_max_stamina :: f32
  cc_xp_to_next :: int

definition starting_stats :: "string \<Rightarrow> string \<Rightarrow> stat_block \<times> f32" where
  "starting_stats race cl =
     (let s = (case map_of RACES race of Some r \<Rightarrow> stat_add (stat_flat BASE) r | None \<Rightarrow> stat_flat BASE);
          (bonuses, stamina) = (case map_of CLASSES cl of Some c \<Rightarrow> c | None \<Rightarrow> (stat_flat 0, 0))
      in (stat_add s bonuses, f32_max (f32_add BASE_ST stamina) 0x41a00000))"

definition level_gain :: "string \<Rightarrow> stat_block \<times> f32" where
  "level_gain cl = (case map_of LEVEL_GAINS cl of Some g \<Rightarrow> g | None \<Rightarrow> default_level_gain)"

definition gain_level :: "stat_block \<times> f32 \<Rightarrow> stat_block \<times> f32 \<Rightarrow> stat_block \<times> f32" where
  "gain_level g s = (stat_add (fst s) (fst g), f32_add (snd s) (snd g))"

definition compute_char :: "string \<Rightarrow> string \<Rightarrow> int \<Rightarrow> computed_character" where
  "compute_char race cl level =
     (let lvl = max 1 (min 99 level);
          (s, stamina) = ((gain_level (level_gain cl)) ^^ nat (lvl - 1)) (starting_stats race cl);
          mana = base_mana cl lvl (sb_int s) (sb_wis s)
      in \<lparr>cc_stats = s, cc_max_hp = f32_of_int (base_hp cl lvl (sb_con s)),
          cc_max_mp = (if mana = 0 then MIN_MANA else f32_of_int mana),
          cc_max_stamina = stamina, cc_xp_to_next = xp_to_next_for level\<rparr>)"

end
