(* ===== verification/Buffs.thy ===== *)
theory Buffs
  imports CharData
begin

text \<open>
  \<open>world/buffs.rs\<close>: a buff's effect, the list of active buffs a connection carries, what the rest of the server asks of
  the list, the absorb pool, and resurrection sickness.  Attributes are \<open>i32\<close>, kept as machine words so that adding and taking
  off wraps as it does in the code.  An \<open>Instant\<close> is a number of milliseconds.
\<close>

type_synonym i32 = "32 word"
type_synonym instant = nat

datatype damage_type = Physical | Fire | Ice | Lightning | Arcane | Holy | Nature | Spirit | Shadow | Poison

text \<open>Heals and mana per second; a poison's damage per second, caster, type and duration; a stat buff's strength, agility,
  intelligence, wisdom, constitution, hit points and mana; the others' one number.\<close>

datatype buff_effect =
    is_Hot: Hot f32
  | is_Dot: Dot f32 nat damage_type f32
  | is_MpRegen: MpRegen f32
  | is_LichForm: LichForm f32
  | is_StatBuff: StatBuff i32 i32 i32 i32 i32 f32 f32
  | is_Speed: Speed f32
  | is_Haste: Haste f32
  | is_DamageShield: DamageShield f32
  | is_Absorb: Absorb f32
  | is_AccuracyCrit: AccuracyCrit f32 f32
  | is_Mez: Mez
  | is_Root: Root
  | is_Snare: Snare f32
  | is_AttackSlow: AttackSlow f32
  | is_Silence: Silence
  | is_EvadeAll: EvadeAll
  | is_Stealth: Stealth
  | is_Stun: Stun
  | is_Feigned: Feigned

record active_buff =
  bname :: string
  effect :: buff_effect
  remaining :: f32
  tick_acc :: f32
  applied_at :: instant

definition F32_INFINITY :: f32 where "F32_INFINITY = 0x7f800000"

definition fresh_buff :: "string \<Rightarrow> buff_effect \<Rightarrow> f32 \<Rightarrow> instant \<Rightarrow> active_buff" where
  "fresh_buff n e d t = \<lparr>bname = n, effect = e, remaining = d, tick_acc = 0, applied_at = t\<rparr>"

definition new_hot :: "string \<Rightarrow> f32 \<Rightarrow> f32 \<Rightarrow> instant \<Rightarrow> active_buff" where
  "new_hot n hps duration t = fresh_buff n (Hot hps) duration t"

definition new_mp_regen :: "string \<Rightarrow> f32 \<Rightarrow> f32 \<Rightarrow> instant \<Rightarrow> active_buff" where
  "new_mp_regen n mps duration t = fresh_buff n (MpRegen mps) duration t"

definition new_speed :: "string \<Rightarrow> f32 \<Rightarrow> f32 \<Rightarrow> instant \<Rightarrow> active_buff" where
  "new_speed n m duration t = fresh_buff n (Speed m) duration t"

definition new_haste :: "string \<Rightarrow> f32 \<Rightarrow> f32 \<Rightarrow> instant \<Rightarrow> active_buff" where
  "new_haste n amount duration t = fresh_buff n (Haste amount) duration t"

definition new_damage_shield :: "string \<Rightarrow> f32 \<Rightarrow> f32 \<Rightarrow> instant \<Rightarrow> active_buff" where
  "new_damage_shield n amount duration t = fresh_buff n (DamageShield amount) duration t"

definition new_snare :: "string \<Rightarrow> f32 \<Rightarrow> f32 \<Rightarrow> instant \<Rightarrow> active_buff" where
  "new_snare n amount duration t = fresh_buff n (Snare amount) duration t"

definition new_attack_slow :: "string \<Rightarrow> f32 \<Rightarrow> f32 \<Rightarrow> instant \<Rightarrow> active_buff" where
  "new_attack_slow n amount duration t = fresh_buff n (AttackSlow amount) duration t"

definition new_mez :: "string \<Rightarrow> f32 \<Rightarrow> instant \<Rightarrow> active_buff" where
  "new_mez n duration t = fresh_buff n Mez duration t"

definition new_root :: "string \<Rightarrow> f32 \<Rightarrow> instant \<Rightarrow> active_buff" where
  "new_root n duration t = fresh_buff n Root duration t"

definition new_silence :: "string \<Rightarrow> f32 \<Rightarrow> instant \<Rightarrow> active_buff" where
  "new_silence n duration t = fresh_buff n Silence duration t"

definition new_evade_all :: "string \<Rightarrow> f32 \<Rightarrow> instant \<Rightarrow> active_buff" where
  "new_evade_all n duration t = fresh_buff n EvadeAll duration t"

definition new_stealth :: "string \<Rightarrow> f32 \<Rightarrow> instant \<Rightarrow> active_buff" where
  "new_stealth n duration t = fresh_buff n Stealth duration t"

definition new_stun :: "string \<Rightarrow> f32 \<Rightarrow> instant \<Rightarrow> active_buff" where
  "new_stun n duration t = fresh_buff n Stun duration t"

definition new_feigned :: "string \<Rightarrow> f32 \<Rightarrow> instant \<Rightarrow> active_buff" where
  "new_feigned n duration t = fresh_buff n Feigned duration t"

definition new_dot :: "string \<Rightarrow> f32 \<Rightarrow> nat \<Rightarrow> damage_type \<Rightarrow> f32 \<Rightarrow> instant \<Rightarrow> active_buff" where
  "new_dot n dps caster ty duration t = fresh_buff n (Dot dps caster ty duration) duration t"

text \<open>Lich Form and an absorb have no end of their own.\<close>

definition new_lich_form :: "string \<Rightarrow> f32 \<Rightarrow> instant \<Rightarrow> active_buff" where
  "new_lich_form n regen t = fresh_buff n (LichForm regen) F32_INFINITY t"

definition new_absorb :: "string \<Rightarrow> f32 \<Rightarrow> instant \<Rightarrow> active_buff" where
  "new_absorb n pool t = fresh_buff n (Absorb pool) F32_INFINITY t"

definition new_accuracy_crit :: "string \<Rightarrow> f32 \<Rightarrow> f32 \<Rightarrow> f32 \<Rightarrow> instant \<Rightarrow> active_buff" where
  "new_accuracy_crit n accuracy crit duration t = fresh_buff n (AccuracyCrit accuracy crit) duration t"

definition new_stat_buff ::
    "string \<Rightarrow> i32 \<Rightarrow> i32 \<Rightarrow> i32 \<Rightarrow> i32 \<Rightarrow> i32 \<Rightarrow> f32 \<Rightarrow> f32 \<Rightarrow> f32 \<Rightarrow> instant \<Rightarrow> active_buff" where
  "new_stat_buff n s a i w c hp mp duration t = fresh_buff n (StatBuff s a i w c hp mp) duration t"

section \<open>What the server asks of the list\<close>

definition is_lich_form_active :: "active_buff list \<Rightarrow> bool" where
  "is_lich_form_active bs = list_ex (\<lambda>b. is_LichForm (effect b)) bs"

text \<open>The strongest speed buff, at least 1.0; the strongest snare, at least 0.0.\<close>

definition speed_mult :: "active_buff list \<Rightarrow> f32" where
  "speed_mult bs = fold (\<lambda>b m. case effect b of Speed s \<Rightarrow> (if f32_lt m s then s else m) | _ \<Rightarrow> m) bs 0x3f800000"

definition snare_amount :: "active_buff list \<Rightarrow> f32" where
  "snare_amount bs = fold (\<lambda>b m. case effect b of Snare a \<Rightarrow> (if f32_lt m a then a else m) | _ \<Rightarrow> m) bs 0"

text \<open>Rust's \<open>sum\<close> of floats starts at negative zero.\<close>

definition damage_shield_total :: "active_buff list \<Rightarrow> f32" where
  "damage_shield_total bs =
     fold (\<lambda>a s. f32_add s a) (List.map_filter (\<lambda>b. case effect b of DamageShield a \<Rightarrow> Some a | _ \<Rightarrow> None) bs) 0x80000000"

definition first_damage_shield_name :: "active_buff list \<Rightarrow> string option" where
  "first_damage_shield_name bs = map_option bname (find (\<lambda>b. is_DamageShield (effect b)) bs)"

definition accuracy_crit_bonus :: "active_buff list \<Rightarrow> f32 \<times> f32" where
  "accuracy_crit_bonus bs =
     fold (\<lambda>b (acc, crit). case effect b of AccuracyCrit a c \<Rightarrow> (f32_add acc a, f32_add crit c) | _ \<Rightarrow> (acc, crit)) bs (0, 0)"

text \<open>\<open>PerConnection::haste_total\<close>, which folds from 0.0.\<close>

definition haste_total :: "active_buff list \<Rightarrow> f32" where
  "haste_total bs = fold (\<lambda>b s. case effect b of Haste a \<Rightarrow> f32_add s a | _ \<Rightarrow> s) bs 0"

definition is_mezzed :: "active_buff list \<Rightarrow> bool" where
  "is_mezzed bs = list_ex (\<lambda>b. effect b = Mez) bs"

definition is_rooted :: "active_buff list \<Rightarrow> bool" where
  "is_rooted bs = list_ex (\<lambda>b. effect b = Root) bs"

definition is_silenced :: "active_buff list \<Rightarrow> bool" where
  "is_silenced bs = list_ex (\<lambda>b. effect b = Silence) bs"

definition is_evading :: "active_buff list \<Rightarrow> bool" where
  "is_evading bs = list_ex (\<lambda>b. effect b = EvadeAll) bs"

definition is_hidden :: "active_buff list \<Rightarrow> bool" where
  "is_hidden bs = list_ex (\<lambda>b. effect b = Stealth \<or> effect b = Feigned) bs"

definition is_stunned :: "active_buff list \<Rightarrow> bool" where
  "is_stunned bs = list_ex (\<lambda>b. effect b = Stun) bs"

definition break_stealth :: "active_buff list \<Rightarrow> bool \<times> active_buff list" where
  "break_stealth bs =
     (let kept = filter (\<lambda>b. \<not> (effect b = Stealth \<or> effect b = Feigned)) bs in (length kept \<noteq> length bs, kept))"

definition end_on_move :: "active_buff list \<Rightarrow> bool \<times> active_buff list" where
  "end_on_move bs =
     (let kept = filter (\<lambda>b. \<not> (effect b = Feigned \<or> effect b = Stealth)) bs in (length kept \<noteq> length bs, kept))"

fun position :: "('a \<Rightarrow> bool) \<Rightarrow> 'a list \<Rightarrow> nat option" where
  "position P [] = None"
| "position P (x # xs) = (if P x then Some 0 else map_option Suc (position P xs))"

definition dispellable :: "buff_effect \<Rightarrow> bool" where
  "dispellable e = (\<not> (is_Mez e \<or> is_Root e \<or> is_Snare e \<or> is_AttackSlow e \<or> is_Silence e \<or> is_Stun e \<or> is_Feigned e))"

definition first_dispellable_index :: "active_buff list \<Rightarrow> nat option" where
  "first_dispellable_index bs = position (\<lambda>b. dispellable (effect b)) bs"

text \<open>999999.0 stands for no end.\<close>

definition snapshot_pairs :: "active_buff list \<Rightarrow> (string \<times> f32) list" where
  "snapshot_pairs bs =
     map (\<lambda>b. (bname b, if \<not> f32_finite (remaining b) \<and> \<not> f32_nan (remaining b) then 0x497423f0 else remaining b)) bs"

section \<open>The absorb pool\<close>

text \<open>Drains the first pool that is not empty; the damage left over and whether that pool is now spent.\<close>

fun consume_absorb :: "active_buff list \<Rightarrow> int \<Rightarrow> (int \<times> bool) \<times> active_buff list" where
  "consume_absorb [] incoming = ((incoming, False), [])"
| "consume_absorb (b # bs) incoming =
     (if incoming \<le> 0 then ((incoming, False), b # bs)
      else case effect b of
          Absorb pool \<Rightarrow>
            if f32_le pool 0 then (case consume_absorb bs incoming of (r, bs') \<Rightarrow> (r, b # bs'))
            else let absorbed = f32_min (f32_of_int incoming) pool;
                     pool' = f32_sub pool absorbed;
                     left = f32_to_i32 (f32_max (f32_sub (f32_of_int incoming) absorbed) 0)
                 in ((left, f32_le pool' 0), b\<lparr>effect := Absorb pool'\<rparr> # bs)
        | _ \<Rightarrow> (case consume_absorb bs incoming of (r, bs') \<Rightarrow> (r, b # bs')))"

section \<open>Resurrection sickness\<close>

definition RES_SICKNESS_NAME :: string where "RES_SICKNESS_NAME = ''Resurrection Sickness''"

text \<open>300.0 seconds; 0.10 and 0.50.\<close>

definition RES_SICKNESS_SECS :: f32 where "RES_SICKNESS_SECS = 0x43960000"

definition RES_SICKNESS_CUT_AT_1 :: f64 where "RES_SICKNESS_CUT_AT_1 = F64 False 0x3fb999999999999a"

definition RES_SICKNESS_CUT_AT_60 :: f64 where "RES_SICKNESS_CUT_AT_60 = F64 False 0x3fe0000000000000"

definition res_sickness_cut_fraction :: "int \<Rightarrow> f64" where
  "res_sickness_cut_fraction level =
     f64_add RES_SICKNESS_CUT_AT_1
       (f64_mul (f64_sub RES_SICKNESS_CUT_AT_60 RES_SICKNESS_CUT_AT_1)
         (f64_div (f64_of_int (max 1 (min 60 level) - 1)) (f64_of_int 59)))"

definition res_sickness_cut :: "int \<Rightarrow> int \<Rightarrow> int" where
  "res_sickness_cut intrinsic level =
     (if intrinsic \<le> 0 then 0
      else f64_to_i32 (f64_round (f64_mul (f64_of_int intrinsic) (res_sickness_cut_fraction level))))"

definition res_sickness_buff :: "int \<Rightarrow> stat_block \<Rightarrow> instant \<Rightarrow> active_buff" where
  "res_sickness_buff level intrinsic t =
     (let cut = (\<lambda>v. - word_of_int (res_sickness_cut v level)) in
      \<lparr>bname = RES_SICKNESS_NAME,
       effect = StatBuff (cut (sb_str intrinsic)) (cut (sb_agi intrinsic)) (cut (sb_int intrinsic)) (cut (sb_wis intrinsic))
                  (cut (sb_con intrinsic)) 0 0,
       remaining = RES_SICKNESS_SECS, tick_acc = 0, applied_at = t\<rparr>)"

end
