(* ===== verification/Body.thy ===== *)
theory Body
  imports Conn Buffs
begin

text \<open>
  The fields of \<open>PerConnection\<close> (\<open>world/connection.rs\<close>) that describe the character rather than what it owns:
  level and experience, attributes, resources, trained skills, food and water, the worn gear's bonuses.  A handler
  that touches both takes and returns both records.  Hit points and position stay with \<open>connection\<close>.
\<close>

record equip_bonuses =
  eb_str :: i32
  eb_dex :: i32
  eb_agi :: i32
  eb_int :: i32
  eb_wis :: i32
  eb_cha :: i32
  eb_con :: i32
  eb_max_hp :: f32
  eb_max_mp :: f32
  eb_max_stamina :: f32
  eb_armor :: i32

definition no_bonuses :: equip_bonuses where
  "no_bonuses = \<lparr>eb_str = 0, eb_dex = 0, eb_agi = 0, eb_int = 0, eb_wis = 0, eb_cha = 0, eb_con = 0, eb_max_hp = 0, eb_max_mp = 0,
     eb_max_stamina = 0, eb_armor = 0\<rparr>"

record body =
  clevel :: int
  hunger_secs :: f32
  thirst_secs :: f32
  hunger_dirty :: bool
  hunger_sent_at :: "instant option"
  hunger_rate_sent :: f32
  appetite_announced :: bool
  camp_since :: "instant option"
  last_damaged_at :: "instant option"
  last_attack_at :: "instant option"
  last_swing_at :: "instant option \<times> instant option"
  haste_lapsed :: "(f32 \<times> instant) option"
  last_meditate_at :: "instant option"
  corpse_pending :: bool
  death_lost_xp :: int
  max_hp :: f32
  mp :: f32
  max_mp :: f32
  stamina :: f32
  max_stamina :: f32
  xp :: int
  xp_to_next :: int
  strength :: i32
  dexterity :: i32
  agility :: i32
  intelligence :: i32
  wisdom :: i32
  charisma :: i32
  constitution :: i32
  is_sitting :: bool
  sat_at :: "instant option"
  equipped_armor :: i32
  pvp_override_on :: bool
  regen_hp_acc :: f32
  regen_mp_acc :: f32
  regen_stamina_acc :: f32
  last_bcast_hp :: f32
  last_bcast_mp :: f32
  last_bcast_stamina :: f32
  last_bcast_at :: "instant option"
  cast_spell_name :: string
  cast_total_duration :: f32
  cast_set_at :: "instant option"
  cast_interrupted_at :: "instant option"
  spell_cooldowns :: "(string \<times> instant) list"
  skill_cooldowns :: "(string \<times> instant) list"
  active_song :: "string option"
  song_next_pulse_at :: "instant option"
  gcd_until :: "instant option"
  active_buffs :: "active_buff list"
  equip_stat_bonuses :: equip_bonuses
  weapon_skills :: "(string \<times> int) list"
  armor_skills :: "(string \<times> int) list"
  casting_skills :: "(string \<times> int) list"
  skills_dirty :: bool

text \<open>A level one character with a hundred hit points, mana and stamina, fed to the cap.\<close>

definition demo_body :: body where
  "demo_body = \<lparr>clevel = 1, hunger_secs = 0x46610000, thirst_secs = 0x46610000, hunger_dirty = False, hunger_sent_at = None,
     hunger_rate_sent = 0, appetite_announced = False, camp_since = None, last_damaged_at = None, last_attack_at = None, last_swing_at = (None, None),
     haste_lapsed = None, last_meditate_at = None, corpse_pending = False, death_lost_xp = 0, max_hp = 0x42c80000, mp = 0x42c80000,
     max_mp = 0x42c80000, stamina = 0x42c80000, max_stamina = 0x42c80000, xp = 0, xp_to_next = 1000, strength = 10, dexterity = 10,
     agility = 10, intelligence = 10, wisdom = 10, charisma = 10, constitution = 10, is_sitting = False, sat_at = None,
     equipped_armor = 0, pvp_override_on = False, regen_hp_acc = 0, regen_mp_acc = 0, regen_stamina_acc = 0, last_bcast_hp = 0x42c80000, last_bcast_mp = 0x42c80000,
     last_bcast_stamina = 0x42c80000, last_bcast_at = None,
     cast_spell_name = [], cast_total_duration = 0, cast_set_at = None, cast_interrupted_at = None, spell_cooldowns = [],
     skill_cooldowns = [], active_song = None, song_next_pulse_at = None, gcd_until = None, active_buffs = [], equip_stat_bonuses = no_bonuses, weapon_skills = [],
     armor_skills = [], casting_skills = [], skills_dirty = False\<rparr>"

text \<open>How Rust prints a signed integer, and its division, which rounds towards zero.\<close>

definition show_int :: "int \<Rightarrow> string" where
  "show_int n = (if n < 0 then ''-'' @ show_nat (nat (- n)) else show_nat (nat n))"

lemma sdiv_nonneg: "0 \<le> a \<Longrightarrow> 0 < b \<Longrightarrow> a sdiv b = a div (b :: int)"
  by (cases "a = 0") (simp_all add: signed_divide_int_def sgn_mult)

end
