(* ===== verification/Spells.thy ===== *)
theory Spells
  imports Body
begin

text \<open>
  \<open>world/spells.rs\<close>: a spell's fields and what is derived from them.  The table is content, so it is an argument
  (\<open>spell_book\<close>).  Attribute deltas are \<open>i32\<close> words, like the attributes they are added to.
\<close>

record spell =
  spell_name :: string
  target_type :: string
  spell_damage_type :: string
  base_damage :: f32
  heal_amount :: f32
  mana_cost :: f32
  hp_cost :: f32
  cast_time :: f32
  cooldown :: f32
  aoe_radius :: f32
  min_level :: int
  classes :: "string list"
  res_xp_percent :: f32
  summon_item :: string
  summon_max :: nat
  class_min_levels :: "(string \<times> int) list"
  song_scale_at_learn :: f32
  hot_hps :: f32
  hot_duration :: f32
  mp_regen_hps :: f32
  mp_regen_duration :: f32
  spell_is_lich_form :: bool
  lich_mp_regen :: f32
  str_buff :: i32
  agi_buff :: i32
  int_buff :: i32
  wis_buff :: i32
  con_buff :: i32
  max_hp_buff :: f32
  max_mp_buff :: f32
  primary_stat_buff_duration :: f32
  move_speed_mult :: f32
  move_speed_duration :: f32
  haste_amount :: f32
  haste_duration :: f32
  damage_shield_amount :: f32
  damage_shield_duration :: f32
  absorb_amount :: f32
  accuracy_buff :: f32
  crit_buff :: f32
  stat_buff_duration :: f32
  pet_type :: string
  port :: string
  port_group :: bool
  is_song :: bool
  dot_dps :: f32
  dot_duration :: f32
  spell_duration :: f32
  cc_duration :: f32
  root_duration :: f32
  slow_amount :: f32
  slow_duration :: f32
  attack_slow_amount :: f32
  attack_slow_duration :: f32
  silence_duration :: f32
  is_dispel :: bool
  spell_range :: f32

type_synonym spell_book = "(string \<times> spell) list"

definition spell_lookup :: "spell_book \<Rightarrow> string \<Rightarrow> spell option" where
  "spell_lookup = map_of"

definition proc_damage_type_to_wire :: "nat \<Rightarrow> damage_type" where
  "proc_damage_type_to_wire t =
     (if t = 0 then Fire else if t = 1 then Ice else if t = 2 then Lightning else if t = 3 then Arcane else if t = 5 then Holy
      else if t = 6 then Nature else if t = 7 then Spirit else if t = 8 then Shadow else Physical)"

definition parse_damage_type :: "string \<Rightarrow> damage_type" where
  "parse_damage_type s =
     (if s = ''FIRE'' then Fire else if s = ''ICE'' then Ice else if s = ''LIGHTNING'' then Lightning
      else if s = ''ARCANE'' then Arcane else if s = ''HOLY'' then Holy else if s = ''NATURE'' then Nature
      else if s = ''SPIRIT'' then Spirit else if s = ''SHADOW'' then Shadow else if s = ''POISON'' then Poison else Physical)"

text \<open>30.0 metres.\<close>

definition DEFAULT_SPELL_RANGE :: f32 where "DEFAULT_SPELL_RANGE = 0x41f00000"

definition reach :: "spell \<Rightarrow> f32" where
  "reach s = (if f32_lt 0 (spell_range s) then spell_range s else DEFAULT_SPELL_RANGE)"

definition required_level :: "spell \<Rightarrow> string \<Rightarrow> int" where
  "required_level s cl = (case map_of (class_min_levels s) cl of Some l \<Rightarrow> l | None \<Rightarrow> min_level s)"

definition SUMMON_LEVELS_PER_EXTRA :: int where "SUMMON_LEVELS_PER_EXTRA = 1"

definition summon_count :: "spell \<Rightarrow> string \<Rightarrow> int \<Rightarrow> nat" where
  "summon_count s cl caster_level =
     (let extra = max (caster_level - required_level s cl) 0 sdiv SUMMON_LEVELS_PER_EXTRA
      in min (nat (1 + extra)) (max (summon_max s) 1))"

end
