(* ===== verification/BuffOps.thy ===== *)
theory BuffOps
  imports Spells
begin

text \<open>
  Putting buffs on a player (\<open>world/tick/spell_buffs.rs\<close>), the attribute deltas of a stat buff (\<open>world/buffs.rs\<close>), one pass of
  the buff tick over a connection (\<open>world/tick/buff_tick.rs\<close>), the dispel of \<open>world/tick/casting.rs\<close> and the bonuses of worn gear
  (\<open>world/inventory.rs\<close>).
\<close>

section \<open>Attribute deltas\<close>

definition apply_stat_deltas :: "i32 \<Rightarrow> i32 \<Rightarrow> i32 \<Rightarrow> i32 \<Rightarrow> i32 \<Rightarrow> f32 \<Rightarrow> f32 \<Rightarrow> body \<Rightarrow> body" where
  "apply_stat_deltas s a i w co dhp dmp b =
     b\<lparr>strength := strength b + s, agility := agility b + a, intelligence := intelligence b + i, wisdom := wisdom b + w,
       constitution := constitution b + co, max_hp := f32_max (f32_add (max_hp b) dhp) F32_ONE,
       max_mp := f32_max (f32_add (max_mp b) dmp) 0\<rparr>"

definition clamp_down :: "f32 \<Rightarrow> f32 \<Rightarrow> f32" where
  "clamp_down cur cap = (if f32_lt cap cur then cap else cur)"

definition undo_stat_deltas ::
    "i32 \<Rightarrow> i32 \<Rightarrow> i32 \<Rightarrow> i32 \<Rightarrow> i32 \<Rightarrow> f32 \<Rightarrow> f32 \<Rightarrow> connection \<times> body \<Rightarrow> connection \<times> body" where
  "undo_stat_deltas s a i w co dhp dmp cb =
     (case cb of (c, b) \<Rightarrow>
        let hpcap = f32_max (f32_sub (max_hp b) dhp) F32_ONE; mpcap = f32_max (f32_sub (max_mp b) dmp) 0 in
        (c\<lparr>hp := clamp_down (hp c) hpcap\<rparr>,
         b\<lparr>strength := strength b - s, agility := agility b - a, intelligence := intelligence b - i, wisdom := wisdom b - w,
           constitution := constitution b - co, max_hp := hpcap, max_mp := mpcap, mp := clamp_down (mp b) mpcap\<rparr>))"

text \<open>Undoes the deltas if the effect is a stat buff.\<close>

definition undo_effect :: "buff_effect \<Rightarrow> connection \<times> body \<Rightarrow> connection \<times> body" where
  "undo_effect e cb = (case e of StatBuff s a i w co dhp dmp \<Rightarrow> undo_stat_deltas s a i w co dhp dmp cb | _ \<Rightarrow> cb)"

definition mark_dirty :: "body \<Rightarrow> body" where
  "mark_dirty b = b\<lparr>last_bcast_at := None\<rparr>"

definition remove_at :: "nat \<Rightarrow> 'a list \<Rightarrow> 'a list" where
  "remove_at n xs = take n xs @ drop (Suc n) xs"

section \<open>Applying\<close>

definition refresh_buff :: "active_buff \<Rightarrow> active_buff \<Rightarrow> active_buff" where
  "refresh_buff new old = old\<lparr>effect := effect new, remaining := remaining new, tick_acc := 0, applied_at := applied_at new\<rparr>"

definition apply_buff :: "active_buff \<Rightarrow> body \<Rightarrow> body" where
  "apply_buff x b =
     (case position (\<lambda>y. bname y = bname x) (active_buffs b) of
        Some n \<Rightarrow> b\<lparr>active_buffs := (active_buffs b)[n := refresh_buff x (active_buffs b ! n)]\<rparr>
      | None \<Rightarrow> b\<lparr>active_buffs := active_buffs b @ [x]\<rparr>)"

definition apply_stat_buff :: "active_buff \<Rightarrow> connection \<times> body \<Rightarrow> connection \<times> body" where
  "apply_stat_buff x cb =
     (case effect x of
        StatBuff s a i w co dhp dmp \<Rightarrow>
          let (c, b) = (case position (\<lambda>y. bname y = bname x) (active_buffs (snd cb)) of
                          Some n \<Rightarrow>
                            (case undo_effect (effect (active_buffs (snd cb) ! n)) cb of
                               (c, b) \<Rightarrow> (c, b\<lparr>active_buffs := remove_at n (active_buffs b)\<rparr>))
                        | None \<Rightarrow> cb);
              b1 = apply_stat_deltas s a i w co dhp dmp b
          in (c, b1\<lparr>active_buffs := active_buffs b1 @ [x]\<rparr>)
      | _ \<Rightarrow> cb)"

definition apply_mp_regen_exclusive :: "active_buff \<Rightarrow> body \<Rightarrow> body" where
  "apply_mp_regen_exclusive x b = b\<lparr>active_buffs := filter (\<lambda>y. \<not> is_MpRegen (effect y)) (active_buffs b) @ [x]\<rparr>"

definition apply_damage_shield_exclusive :: "active_buff \<Rightarrow> body \<Rightarrow> body" where
  "apply_damage_shield_exclusive x b = b\<lparr>active_buffs := filter (\<lambda>y. \<not> is_DamageShield (effect y)) (active_buffs b) @ [x]\<rparr>"

definition apply_absorb_exclusive :: "active_buff \<Rightarrow> body \<Rightarrow> body" where
  "apply_absorb_exclusive x b = b\<lparr>active_buffs := filter (\<lambda>y. \<not> is_Absorb (effect y)) (active_buffs b) @ [x]\<rparr>"

text \<open>Every buff a spell grants, in the code's order, with whether the set changed.\<close>

definition grant_if :: "bool \<Rightarrow> (connection \<times> body \<Rightarrow> connection \<times> body) \<Rightarrow> bool \<times> connection \<times> body \<Rightarrow> bool \<times> connection \<times> body"
  where "grant_if cond f r = (case r of (ch, cb) \<Rightarrow> if cond then (True, f cb) else (ch, cb))"

definition on_body :: "(body \<Rightarrow> body) \<Rightarrow> connection \<times> body \<Rightarrow> connection \<times> body" where
  "on_body f cb = (fst cb, f (snd cb))"

definition pos32 :: "f32 \<Rightarrow> bool" where
  "pos32 x = f32_lt 0 x"

definition nonzero32 :: "f32 \<Rightarrow> bool" where
  "nonzero32 x = (f32_mag x \<noteq> 0)"

definition apply_player_spell_buffs :: "spell \<Rightarrow> instant \<Rightarrow> connection \<times> body \<Rightarrow> bool \<times> connection \<times> body" where
  "apply_player_spell_buffs s t cb =
     grant_if (pos32 (primary_stat_buff_duration s)
               \<and> (str_buff s \<noteq> 0 \<or> agi_buff s \<noteq> 0 \<or> int_buff s \<noteq> 0 \<or> wis_buff s \<noteq> 0 \<or> con_buff s \<noteq> 0
                  \<or> nonzero32 (max_hp_buff s) \<or> nonzero32 (max_mp_buff s)))
       (\<lambda>cb. on_body mark_dirty
          (apply_stat_buff (new_stat_buff (spell_name s) (str_buff s) (agi_buff s) (int_buff s) (wis_buff s) (con_buff s) (max_hp_buff s)
             (max_mp_buff s) (primary_stat_buff_duration s) t) cb))
    (grant_if ((pos32 (accuracy_buff s) \<or> pos32 (crit_buff s)) \<and> pos32 (stat_buff_duration s))
       (on_body (apply_buff (new_accuracy_crit (spell_name s) (accuracy_buff s) (crit_buff s) (stat_buff_duration s) t)))
    (grant_if (pos32 (absorb_amount s))
       (on_body (apply_absorb_exclusive (new_absorb (spell_name s) (absorb_amount s) t)))
    (grant_if (pos32 (damage_shield_amount s) \<and> pos32 (damage_shield_duration s))
       (on_body (apply_damage_shield_exclusive
          (new_damage_shield (spell_name s) (damage_shield_amount s) (damage_shield_duration s) t)))
    (grant_if (pos32 (haste_amount s) \<and> pos32 (haste_duration s))
       (on_body (apply_buff (new_haste (spell_name s) (haste_amount s) (haste_duration s) t)))
    (grant_if (pos32 (move_speed_mult s) \<and> pos32 (move_speed_duration s))
       (on_body (apply_buff (new_speed (spell_name s) (move_speed_mult s) (move_speed_duration s) t)))
    (grant_if (pos32 (mp_regen_hps s) \<and> pos32 (mp_regen_duration s))
       (on_body (apply_mp_regen_exclusive (new_mp_regen (spell_name s) (mp_regen_hps s) (mp_regen_duration s) t)))
    (grant_if (pos32 (hot_hps s) \<and> pos32 (hot_duration s))
       (on_body (apply_buff (new_hot (spell_name s) (hot_hps s) (hot_duration s) t)))
       (False, cb))))))))"

text \<open>The dispel: strips the first buff that is not crowd control.\<close>

definition strip_one_buff :: "connection \<times> body \<Rightarrow> bool \<times> connection \<times> body" where
  "strip_one_buff cb =
     (case first_dispellable_index (active_buffs (snd cb)) of
        None \<Rightarrow> (False, cb)
      | Some n \<Rightarrow>
          let e = effect (active_buffs (snd cb) ! n);
              (c, b) = (if is_StatBuff e then on_body mark_dirty (undo_effect e cb) else cb)
          in (True, c, b\<lparr>active_buffs := remove_at n (active_buffs b)\<rparr>))"

section \<open>The buff tick\<close>

text \<open>3.0 seconds.\<close>

definition DOT_TICK_SECS :: f32 where "DOT_TICK_SECS = 0x40400000"

text \<open>Whole points flow once the accumulator holds one; \<open>None\<close> leaves the resource alone.\<close>

definition accrue :: "f32 \<Rightarrow> f32 \<Rightarrow> f32 \<Rightarrow> f32 \<Rightarrow> f32 \<Rightarrow> f32 \<times> f32 option" where
  "accrue rate dt acc cur cap =
     (let acc1 = f32_add acc (f32_mul rate dt) in
      if f32_le F32_ONE acc1
      then (f32_sub acc1 (f32_floor acc1), Some (f32_min (f32_add cur (f32_floor acc1)) cap))
      else (acc1, None))"

text \<open>A damage tick for the clients: bearer, caster, spell, amount, type, hit points after, maximum.\<close>

type_synonym dot_note = "int \<times> nat \<times> string \<times> int \<times> damage_type \<times> f32 \<times> f32"

definition note_damage_taken :: "instant \<Rightarrow> body \<Rightarrow> body" where
  "note_damage_taken t b = b\<lparr>last_damaged_at := Some t, is_sitting := False\<rparr>"

definition gain_hp :: "bool \<Rightarrow> f32 \<Rightarrow> f32 \<Rightarrow> active_buff \<Rightarrow> connection \<times> body \<Rightarrow> active_buff \<times> connection \<times> body" where
  "gain_hp expired rate dt x cb =
     (case cb of (c, b) \<Rightarrow>
        if \<not> expired \<and> pos32 rate \<and> f32_lt (hp c) (max_hp b) then
          (case accrue rate dt (tick_acc x) (hp c) (max_hp b) of
             (acc, None) \<Rightarrow> (x\<lparr>tick_acc := acc\<rparr>, c, b)
           | (acc, Some h) \<Rightarrow> (x\<lparr>tick_acc := acc\<rparr>, c\<lparr>hp := h\<rparr>, mark_dirty b))
        else (x, c, b))"

definition gain_mp :: "bool \<Rightarrow> f32 \<Rightarrow> f32 \<Rightarrow> active_buff \<Rightarrow> connection \<times> body \<Rightarrow> active_buff \<times> connection \<times> body" where
  "gain_mp expired rate dt x cb =
     (case cb of (c, b) \<Rightarrow>
        if \<not> expired \<and> pos32 rate \<and> f32_lt (mp b) (max_mp b) then
          (case accrue rate dt (tick_acc x) (mp b) (max_mp b) of
             (acc, None) \<Rightarrow> (x\<lparr>tick_acc := acc\<rparr>, c, b)
           | (acc, Some m) \<Rightarrow> (x\<lparr>tick_acc := acc\<rparr>, c, mark_dirty (b\<lparr>mp := m\<rparr>)))
        else (x, c, b))"

text \<open>Poison ticks are counted off the elapsed time; \<open>tick_acc\<close> holds the count.\<close>

definition dot_due :: "f32 \<Rightarrow> f32 \<Rightarrow> f32" where
  "dot_due duration left =
     (let total = f32_floor (f32_div duration DOT_TICK_SECS);
          elapsed = f32_max (f32_sub duration (f32_max left 0)) 0
      in f32_min (f32_floor (f32_div elapsed DOT_TICK_SECS)) total)"

definition dot_amount :: "f32 \<Rightarrow> int" where
  "dot_amount dps = f32_to_i32 (f32_max (f32_round (f32_mul dps DOT_TICK_SECS)) 0)"

definition dot_tick ::
    "f32 \<Rightarrow> nat \<Rightarrow> damage_type \<Rightarrow> f32 \<Rightarrow> instant \<Rightarrow> active_buff \<Rightarrow> connection \<times> body \<Rightarrow> active_buff \<times> (connection \<times> body) \<times> dot_note option"
  where
  "dot_tick dps caster ty duration t x cb =
     (case cb of (c, b) \<Rightarrow>
        if pos32 dps \<and> pos32 (hp c) \<and> \<not> death_processed c \<and> f32_lt (tick_acc x) (dot_due duration (remaining x)) then
          let x' = x\<lparr>tick_acc := f32_add (tick_acc x) F32_ONE\<rparr>; amount = dot_amount dps in
          if 0 < amount then
            let h = f32_max (f32_sub (hp c) (f32_of_int amount)) 0 in
            (x', (c\<lparr>hp := h\<rparr>, mark_dirty (note_damage_taken t b)),
             Some (char_id c, caster, bname x, amount, ty, h, max_hp b))
          else (x', (c, b), None)
        else (x, (c, b), None))"

definition buff_expired :: "active_buff \<Rightarrow> bool" where
  "buff_expired x = (f32_le (remaining x) 0 \<and> f32_finite (remaining x))"

definition count_down :: "f32 \<Rightarrow> active_buff \<Rightarrow> active_buff" where
  "count_down dt x = (if f32_finite (remaining x) then x\<lparr>remaining := f32_sub (remaining x) dt\<rparr> else x)"

text \<open>What the buff does this tick; whether it has expired was settled before.\<close>

definition tick_effect ::
    "f32 \<Rightarrow> instant \<Rightarrow> bool \<Rightarrow> active_buff \<Rightarrow> connection \<times> body \<Rightarrow> active_buff \<times> (connection \<times> body) \<times> dot_note option" where
  "tick_effect dt t expired x cb =
     (case effect x of
        Hot hps \<Rightarrow> (case gain_hp expired hps dt x cb of (x', cb') \<Rightarrow> (x', cb', None))
      | Dot dps caster ty duration \<Rightarrow> dot_tick dps caster ty duration t x cb
      | MpRegen mps \<Rightarrow> (case gain_mp expired mps dt x cb of (x', cb') \<Rightarrow> (x', cb', None))
      | LichForm regen \<Rightarrow> (case gain_mp expired regen dt x cb of (x', cb') \<Rightarrow> (x', cb', None))
      | Absorb pool \<Rightarrow> (if f32_le pool 0 then x\<lparr>remaining := 0\<rparr> else x, cb, None)
      | _ \<Rightarrow> (x, cb, None))"

text \<open>An expired buff leaves: its deltas are undone, and an expired haste is remembered for the swing limit.  \<open>whole\<close> is the
  list while the buff is still in it.\<close>

definition expire_buff :: "instant \<Rightarrow> active_buff \<Rightarrow> active_buff list \<Rightarrow> connection \<times> body \<Rightarrow> connection \<times> body" where
  "expire_buff t x whole cb =
     (let cb1 = (if is_StatBuff (effect x) then on_body mark_dirty (undo_effect (effect x) cb) else cb)
      in if is_Haste (effect x) then on_body (\<lambda>b. b\<lparr>haste_lapsed := Some (haste_total whole, t)\<rparr>) cb1 else cb1)"

record tick_out =
  out_dots :: "dot_note list"
  out_sickness_ended :: bool
  out_changed :: bool

fun tick_buffs ::
    "f32 \<Rightarrow> instant \<Rightarrow> active_buff list \<Rightarrow> active_buff list \<Rightarrow> (connection \<times> body) \<times> tick_out
       \<Rightarrow> active_buff list \<times> (connection \<times> body) \<times> tick_out" where
  "tick_buffs dt t done_list [] r = (done_list, r)"
| "tick_buffs dt t done_list (x # todo) (cb, out) =
     (let x1 = count_down dt x; expired = buff_expired x1;
          (x2, cb1, note) = tick_effect dt t expired x1 cb;
          out1 = out\<lparr>out_dots := out_dots out @ (case note of None \<Rightarrow> [] | Some n \<Rightarrow> [n])\<rparr>
      in if expired then
           tick_buffs dt t done_list todo
             (expire_buff t x2 (done_list @ x2 # todo) cb1,
              out1\<lparr>out_sickness_ended := out_sickness_ended out1 \<or> bname x2 = RES_SICKNESS_NAME, out_changed := True\<rparr>)
         else tick_buffs dt t (done_list @ [x2]) todo (cb1, out1))"

definition buff_tick :: "f32 \<Rightarrow> instant \<Rightarrow> connection \<times> body \<Rightarrow> (connection \<times> body) \<times> tick_out" where
  "buff_tick dt t cb =
     (case tick_buffs dt t [] (active_buffs (snd cb)) (cb, \<lparr>out_dots = [], out_sickness_ended = False, out_changed = False\<rparr>) of
        (bs, (c, b), out) \<Rightarrow> ((c, b\<lparr>active_buffs := bs\<rparr>), out))"

section \<open>Worn gear\<close>

text \<open>The code sums over a hash map, in no particular order; the integer sums do not depend on it.\<close>

definition add_item_bonuses :: "item \<Rightarrow> equip_bonuses \<Rightarrow> equip_bonuses" where
  "add_item_bonuses i e =
     \<lparr>eb_str = eb_str e + of_int (str_bonus i), eb_dex = eb_dex e + of_int (dex_bonus i), eb_agi = eb_agi e + of_int (agi_bonus i),
      eb_int = eb_int e + of_int (int_bonus i), eb_wis = eb_wis e + of_int (wis_bonus i), eb_cha = eb_cha e + of_int (cha_bonus i),
      eb_con = eb_con e + of_int (con_bonus i), eb_max_hp = f32_add (eb_max_hp e) (max_hp_bonus i),
      eb_max_mp = f32_add (eb_max_mp e) (max_mp_bonus i), eb_max_stamina = f32_add (eb_max_stamina e) (max_stamina_bonus i),
      eb_armor = eb_armor e + of_int (armor i)\<rparr>"

definition gear_bonuses :: "registry \<Rightarrow> player_inventory \<Rightarrow> equip_bonuses" where
  "gear_bonuses R store =
     fold (\<lambda>(_, e) acc. case lookup R (item_path e) of None \<Rightarrow> acc | Some i \<Rightarrow> add_item_bonuses i acc) (equipment store) no_bonuses"

record recompute_result =
  max_hp_changed :: bool
  max_mp_changed :: bool
  max_stamina_changed :: bool

definition shift_max :: "f32 \<Rightarrow> f32 \<Rightarrow> f32 \<Rightarrow> f32 \<Rightarrow> f32" where
  "shift_max cur nxt prev floor = f32_max (f32_add cur (f32_sub nxt prev)) floor"

definition f32_neq :: "f32 \<Rightarrow> f32 \<Rightarrow> bool" where
  "f32_neq a b = (f32_nan a \<or> f32_nan b \<or> f32_key a \<noteq> f32_key b)"

definition recompute_equipped_stats :: "registry \<Rightarrow> connection \<times> body \<Rightarrow> recompute_result \<times> connection \<times> body" where
  "recompute_equipped_stats R cb =
     (case cb of (c, b) \<Rightarrow>
        let prev = equip_stat_bonuses b; nxt = gear_bonuses R (inventory c);
            mh = shift_max (max_hp b) (eb_max_hp nxt) (eb_max_hp prev) F32_ONE;
            mm = shift_max (max_mp b) (eb_max_mp nxt) (eb_max_mp prev) 0;
            ms = shift_max (max_stamina b) (eb_max_stamina nxt) (eb_max_stamina prev) F32_ONE
        in (\<lparr>max_hp_changed = f32_neq mh (max_hp b), max_mp_changed = f32_neq mm (max_mp b),
             max_stamina_changed = f32_neq ms (max_stamina b)\<rparr>,
            c\<lparr>hp := clamp_down (hp c) mh\<rparr>,
            b\<lparr>strength := strength b + (eb_str nxt - eb_str prev), dexterity := dexterity b + (eb_dex nxt - eb_dex prev),
              agility := agility b + (eb_agi nxt - eb_agi prev), intelligence := intelligence b + (eb_int nxt - eb_int prev),
              wisdom := wisdom b + (eb_wis nxt - eb_wis prev), charisma := charisma b + (eb_cha nxt - eb_cha prev),
              constitution := constitution b + (eb_con nxt - eb_con prev),
              max_hp := mh, max_mp := mm, max_stamina := ms, mp := clamp_down (mp b) mm, stamina := clamp_down (stamina b) ms,
              equipped_armor := (if sint (eb_armor nxt) < 0 then 0 else eb_armor nxt), equip_stat_bonuses := nxt\<rparr>))"

end
