(* ===== verification/Skills.thy ===== *)
theory Skills
  imports Body
begin

text \<open>
  \<open>world/skills.rs\<close>: the cap tables, training, who may dual wield, and why a class may not equip an item.
  A random roll is an argument.
\<close>

section \<open>The tables\<close>

datatype skill_kind = WeaponSkill | ArmorSkill | CastingSkill

type_synonym cap_table = "(string \<times> (string \<times> int) list) list"

definition WEAPON_CAPS :: cap_table where
  "WEAPON_CAPS =
     [(''Warrior'', [(''1h_slashing'', 250), (''2h_slashing'', 250), (''1h_blunt'', 250), (''2h_blunt'', 250), (''piercing'', 250), (''hand_to_hand'', 100), (''archery'', 75), (''defense'', 250), (''dodge'', 200), (''dual_wield'', 200)]),
      (''Rogue'', [(''1h_slashing'', 225), (''2h_slashing'', 0), (''1h_blunt'', 75), (''2h_blunt'', 0), (''piercing'', 250), (''hand_to_hand'', 200), (''archery'', 100), (''defense'', 200), (''dodge'', 250), (''dual_wield'', 250)]),
      (''Magician'', [(''1h_slashing'', 0), (''2h_slashing'', 0), (''1h_blunt'', 75), (''2h_blunt'', 75), (''piercing'', 0), (''hand_to_hand'', 25), (''archery'', 0), (''defense'', 100), (''dodge'', 75), (''dual_wield'', 0)]),
      (''Wizard'', [(''1h_slashing'', 0), (''2h_slashing'', 0), (''1h_blunt'', 75), (''2h_blunt'', 75), (''piercing'', 0), (''hand_to_hand'', 25), (''archery'', 0), (''defense'', 100), (''dodge'', 75), (''dual_wield'', 0)]),
      (''Sorcerer'', [(''1h_slashing'', 0), (''2h_slashing'', 0), (''1h_blunt'', 75), (''2h_blunt'', 75), (''piercing'', 0), (''hand_to_hand'', 25), (''archery'', 0), (''defense'', 100), (''dodge'', 75), (''dual_wield'', 0)]),
      (''Necromancer'', [(''1h_slashing'', 0), (''2h_slashing'', 0), (''1h_blunt'', 75), (''2h_blunt'', 75), (''piercing'', 0), (''hand_to_hand'', 25), (''archery'', 0), (''defense'', 100), (''dodge'', 75), (''dual_wield'', 0)]),
      (''Enchanter'', [(''1h_slashing'', 0), (''2h_slashing'', 0), (''1h_blunt'', 75), (''2h_blunt'', 75), (''piercing'', 0), (''hand_to_hand'', 25), (''archery'', 0), (''defense'', 100), (''dodge'', 75), (''dual_wield'', 0)]),
      (''Blood Mage'', [(''1h_slashing'', 0), (''2h_slashing'', 0), (''1h_blunt'', 100), (''2h_blunt'', 0), (''piercing'', 50), (''hand_to_hand'', 50), (''archery'', 0), (''defense'', 100), (''dodge'', 75), (''dual_wield'', 0)]),
      (''Cleric'', [(''1h_slashing'', 0), (''2h_slashing'', 0), (''1h_blunt'', 200), (''2h_blunt'', 200), (''piercing'', 0), (''hand_to_hand'', 50), (''archery'', 0), (''defense'', 200), (''dodge'', 150), (''dual_wield'', 0)]),
      (''Druid'', [(''1h_slashing'', 0), (''2h_slashing'', 0), (''1h_blunt'', 175), (''2h_blunt'', 175), (''piercing'', 0), (''hand_to_hand'', 50), (''archery'', 75), (''defense'', 175), (''dodge'', 150), (''dual_wield'', 0)]),
      (''Shaman'', [(''1h_slashing'', 150), (''2h_slashing'', 0), (''1h_blunt'', 200), (''2h_blunt'', 200), (''piercing'', 100), (''hand_to_hand'', 100), (''archery'', 0), (''defense'', 200), (''dodge'', 150), (''dual_wield'', 0)]),
      (''Paladin'', [(''1h_slashing'', 225), (''2h_slashing'', 225), (''1h_blunt'', 225), (''2h_blunt'', 225), (''piercing'', 150), (''hand_to_hand'', 75), (''archery'', 75), (''defense'', 225), (''dodge'', 175), (''dual_wield'', 0)]),
      (''Shadow Knight'', [(''1h_slashing'', 225), (''2h_slashing'', 225), (''1h_blunt'', 225), (''2h_blunt'', 225), (''piercing'', 150), (''hand_to_hand'', 75), (''archery'', 50), (''defense'', 225), (''dodge'', 175), (''dual_wield'', 150)]),
      (''Bard'', [(''1h_slashing'', 200), (''2h_slashing'', 150), (''1h_blunt'', 175), (''2h_blunt'', 150), (''piercing'', 200), (''hand_to_hand'', 100), (''archery'', 75), (''defense'', 175), (''dodge'', 200), (''dual_wield'', 175)]),
      (''Ranger'', [(''1h_slashing'', 225), (''2h_slashing'', 225), (''1h_blunt'', 175), (''2h_blunt'', 175), (''piercing'', 225), (''hand_to_hand'', 100), (''archery'', 250), (''defense'', 200), (''dodge'', 225), (''dual_wield'', 225)]),
      (''Monk'', [(''1h_slashing'', 50), (''2h_slashing'', 0), (''1h_blunt'', 200), (''2h_blunt'', 100), (''piercing'', 0), (''hand_to_hand'', 250), (''archery'', 0), (''defense'', 250), (''dodge'', 250), (''dual_wield'', 250)]),
      (''Witch Hunter'', [(''1h_slashing'', 200), (''2h_slashing'', 150), (''1h_blunt'', 100), (''2h_blunt'', 0), (''piercing'', 225), (''hand_to_hand'', 125), (''archery'', 150), (''defense'', 200), (''dodge'', 200), (''dual_wield'', 200)]),
      (''Beast Master'', [(''1h_slashing'', 150), (''2h_slashing'', 100), (''1h_blunt'', 150), (''2h_blunt'', 100), (''piercing'', 125), (''hand_to_hand'', 200), (''archery'', 100), (''defense'', 200), (''dodge'', 175), (''dual_wield'', 150)])]"

definition ARMOR_CAPS :: cap_table where
  "ARMOR_CAPS =
     [(''Warrior'', [(''cloth'', 75), (''leather'', 150), (''chain'', 225), (''plate'', 250), (''shield'', 250)]),
      (''Paladin'', [(''cloth'', 75), (''leather'', 150), (''chain'', 200), (''plate'', 225), (''shield'', 250)]),
      (''Shadow Knight'', [(''cloth'', 75), (''leather'', 150), (''chain'', 200), (''plate'', 225), (''shield'', 225)]),
      (''Cleric'', [(''cloth'', 100), (''leather'', 100), (''chain'', 200), (''plate'', 225), (''shield'', 225)]),
      (''Druid'', [(''cloth'', 100), (''leather'', 200), (''chain'', 175), (''plate'', 0), (''shield'', 125)]),
      (''Shaman'', [(''cloth'', 100), (''leather'', 175), (''chain'', 225), (''plate'', 0), (''shield'', 175)]),
      (''Rogue'', [(''cloth'', 100), (''leather'', 250), (''chain'', 100), (''plate'', 0), (''shield'', 100)]),
      (''Monk'', [(''cloth'', 150), (''leather'', 0), (''chain'', 0), (''plate'', 0), (''shield'', 0)]),
      (''Ranger'', [(''cloth'', 75), (''leather'', 225), (''chain'', 225), (''plate'', 0), (''shield'', 175)]),
      (''Beast Master'', [(''cloth'', 75), (''leather'', 200), (''chain'', 200), (''plate'', 0), (''shield'', 150)]),
      (''Bard'', [(''cloth'', 75), (''leather'', 200), (''chain'', 225), (''plate'', 0), (''shield'', 150)]),
      (''Witch Hunter'', [(''cloth'', 75), (''leather'', 200), (''chain'', 225), (''plate'', 0), (''shield'', 150)]),
      (''Magician'', [(''cloth'', 250), (''leather'', 50), (''chain'', 0), (''plate'', 0), (''shield'', 0)]),
      (''Wizard'', [(''cloth'', 250), (''leather'', 50), (''chain'', 0), (''plate'', 0), (''shield'', 0)]),
      (''Sorcerer'', [(''cloth'', 250), (''leather'', 50), (''chain'', 0), (''plate'', 0), (''shield'', 0)]),
      (''Necromancer'', [(''cloth'', 250), (''leather'', 50), (''chain'', 0), (''plate'', 0), (''shield'', 0)]),
      (''Enchanter'', [(''cloth'', 250), (''leather'', 50), (''chain'', 0), (''plate'', 0), (''shield'', 0)]),
      (''Blood Mage'', [(''cloth'', 200), (''leather'', 100), (''chain'', 50), (''plate'', 0), (''shield'', 0)])]"

definition CASTING_CAPS :: cap_table where
  "CASTING_CAPS =
     [(''Warrior'', [(''evocation'', 0), (''alteration'', 0), (''abjuration'', 0), (''conjuration'', 0), (''divination'', 0), (''channeling'', 0), (''meditate'', 0)]),
      (''Paladin'', [(''evocation'', 125), (''alteration'', 150), (''abjuration'', 225), (''conjuration'', 0), (''divination'', 50), (''channeling'', 225), (''meditate'', 250)]),
      (''Shadow Knight'', [(''evocation'', 125), (''alteration'', 125), (''abjuration'', 100), (''conjuration'', 0), (''divination'', 50), (''channeling'', 225), (''meditate'', 250)]),
      (''Cleric'', [(''evocation'', 150), (''alteration'', 200), (''abjuration'', 250), (''conjuration'', 75), (''divination'', 200), (''channeling'', 175), (''meditate'', 250)]),
      (''Druid'', [(''evocation'', 175), (''alteration'', 225), (''abjuration'', 175), (''conjuration'', 75), (''divination'', 175), (''channeling'', 175), (''meditate'', 250)]),
      (''Shaman'', [(''evocation'', 175), (''alteration'', 250), (''abjuration'', 125), (''conjuration'', 75), (''divination'', 150), (''channeling'', 200), (''meditate'', 250)]),
      (''Rogue'', [(''evocation'', 0), (''alteration'', 0), (''abjuration'', 0), (''conjuration'', 0), (''divination'', 0), (''channeling'', 0), (''meditate'', 0)]),
      (''Monk'', [(''evocation'', 0), (''alteration'', 0), (''abjuration'', 0), (''conjuration'', 0), (''divination'', 0), (''channeling'', 0), (''meditate'', 0)]),
      (''Ranger'', [(''evocation'', 125), (''alteration'', 150), (''abjuration'', 75), (''conjuration'', 0), (''divination'', 150), (''channeling'', 200), (''meditate'', 250)]),
      (''Beast Master'', [(''evocation'', 125), (''alteration'', 150), (''abjuration'', 100), (''conjuration'', 75), (''divination'', 75), (''channeling'', 175), (''meditate'', 250)]),
      (''Bard'', [(''evocation'', 125), (''alteration'', 200), (''abjuration'', 100), (''conjuration'', 150), (''divination'', 75), (''channeling'', 200), (''meditate'', 250)]),
      (''Witch Hunter'', [(''evocation'', 225), (''alteration'', 125), (''abjuration'', 100), (''conjuration'', 0), (''divination'', 75), (''channeling'', 200), (''meditate'', 250)]),
      (''Magician'', [(''evocation'', 225), (''alteration'', 100), (''abjuration'', 75), (''conjuration'', 250), (''divination'', 75), (''channeling'', 150), (''meditate'', 250)]),
      (''Wizard'', [(''evocation'', 250), (''alteration'', 100), (''abjuration'', 150), (''conjuration'', 100), (''divination'', 225), (''channeling'', 150), (''meditate'', 250)]),
      (''Sorcerer'', [(''evocation'', 250), (''alteration'', 100), (''abjuration'', 75), (''conjuration'', 75), (''divination'', 50), (''channeling'', 150), (''meditate'', 250)]),
      (''Necromancer'', [(''evocation'', 200), (''alteration'', 175), (''abjuration'', 50), (''conjuration'', 225), (''divination'', 100), (''channeling'', 150), (''meditate'', 250)]),
      (''Enchanter'', [(''evocation'', 150), (''alteration'', 250), (''abjuration'', 200), (''conjuration'', 175), (''divination'', 125), (''channeling'', 150), (''meditate'', 250)]),
      (''Blood Mage'', [(''evocation'', 200), (''alteration'', 175), (''abjuration'', 75), (''conjuration'', 0), (''divination'', 50), (''channeling'', 175), (''meditate'', 250)])]"

definition WEAPON_KEYS :: "string list" where
  "WEAPON_KEYS = [''1h_slashing'', ''2h_slashing'', ''1h_blunt'', ''2h_blunt'', ''piercing'', ''hand_to_hand'', ''archery'', ''defense'', ''dodge'', ''dual_wield'']"

definition ARMOR_KEYS :: "string list" where
  "ARMOR_KEYS = [''cloth'', ''leather'', ''chain'', ''plate'', ''shield'']"

definition CASTING_KEYS :: "string list" where
  "CASTING_KEYS = [''evocation'', ''alteration'', ''abjuration'', ''conjuration'', ''divination'', ''channeling'', ''meditate'']"

definition lookup_table :: "skill_kind \<Rightarrow> cap_table" where
  "lookup_table s = (case s of WeaponSkill \<Rightarrow> WEAPON_CAPS | ArmorSkill \<Rightarrow> ARMOR_CAPS | CastingSkill \<Rightarrow> CASTING_CAPS)"

definition skill_keys :: "skill_kind \<Rightarrow> string list" where
  "skill_keys s = (case s of WeaponSkill \<Rightarrow> WEAPON_KEYS | ArmorSkill \<Rightarrow> ARMOR_KEYS | CastingSkill \<Rightarrow> CASTING_KEYS)"

text \<open>An unknown class reads the Magician's row, an unknown key is untrained.\<close>

definition class_row :: "cap_table \<Rightarrow> string \<Rightarrow> (string \<times> int) list" where
  "class_row T cl =
     (case map_of T cl of Some r \<Rightarrow> r | None \<Rightarrow> (case map_of T ''Magician'' of Some r \<Rightarrow> r | None \<Rightarrow> []))"

definition max_cap :: "skill_kind \<Rightarrow> string \<Rightarrow> string \<Rightarrow> int" where
  "max_cap s cl key = (case map_of (class_row (lookup_table s) cl) key of Some v \<Rightarrow> v | None \<Rightarrow> 0)"

definition class_trains :: "skill_kind \<Rightarrow> string \<Rightarrow> string \<Rightarrow> bool" where
  "class_trains s cl key \<longleftrightarrow> 0 < max_cap s cl key"

definition cap_for :: "skill_kind \<Rightarrow> string \<Rightarrow> int \<Rightarrow> string \<Rightarrow> int" where
  "cap_for s cl lvl key = (let mc = max_cap s cl key in if mc = 0 then 0 else max ((mc * lvl) sdiv MAX_LEVEL) 1)"

definition starting_value :: "skill_kind \<Rightarrow> string \<Rightarrow> string \<Rightarrow> int" where
  "starting_value s cl key = (let cap = cap_for s cl 1 key in if cap = 0 then 0 else max (cap sdiv 4) 1)"

definition dual_wield_level :: "string \<Rightarrow> int option" where
  "dual_wield_level cl =
     (if cl = ''Monk'' then Some 1
      else if cl = ''Ranger'' \<or> cl = ''Rogue'' then Some 13
      else if cl = ''Warrior'' \<or> cl = ''Witch Hunter'' \<or> cl = ''Bard'' then Some 15
      else if cl = ''Shadow Knight'' \<or> cl = ''Beast Master'' then Some 20
      else None)"

definition can_dual_wield :: "string \<Rightarrow> int \<Rightarrow> bool" where
  "can_dual_wield cl lvl = (case dual_wield_level cl of None \<Rightarrow> False | Some l \<Rightarrow> l \<le> lvl)"

section \<open>What a class may equip\<close>

text \<open>\<open>combat::weapon_skill_key\<close>.\<close>

definition weapon_skill_key :: "registry \<Rightarrow> string \<Rightarrow> string" where
  "weapon_skill_key R p =
     (case lookup R p of None \<Rightarrow> ''hand_to_hand'' | Some w \<Rightarrow> if skill w = [] then ''hand_to_hand'' else skill w)"

definition path_two_handed :: "registry \<Rightarrow> string \<Rightarrow> bool" where
  "path_two_handed R p = (case lookup R p of None \<Rightarrow> False | Some w \<Rightarrow> is_two_handed w)"

definition equip_refusal :: "registry \<Rightarrow> string \<Rightarrow> int \<Rightarrow> string \<Rightarrow> nat \<Rightarrow> string \<Rightarrow> string option" where
  "equip_refusal R cl lvl p slot other_hand =
     (case lookup R p of
        None \<Rightarrow> None
      | Some i \<Rightarrow>
          if item_type i = Weapon then
            if \<not> class_trains WeaponSkill cl (weapon_skill_key R p) then Some ''Your class cannot wield that.''
            else if slot = 1 then
              if is_two_handed i then Some ''A two-handed weapon goes in the main hand.''
              else if \<not> can_dual_wield cl lvl then
                Some (case dual_wield_level cl of
                        Some n \<Rightarrow> ''You will be able to dual wield at level '' @ show_int n @ ''.''
                      | None \<Rightarrow> ''Your class cannot dual wield.'')
              else if path_two_handed R other_hand then Some ''You cannot hold that with a two-handed weapon.''
              else None
            else if slot = 0 \<and> is_two_handed i \<and> other_hand \<noteq> [] then Some ''Empty your off hand first.''
            else None
          else if armor_type i \<noteq> [] \<and> \<not> class_trains ArmorSkill cl (armor_type i) then Some ''Your class cannot wear that.''
          else None)"

definition offhand_swing_refusal :: "registry \<Rightarrow> string \<Rightarrow> int \<Rightarrow> string \<Rightarrow> string \<Rightarrow> string option" where
  "offhand_swing_refusal R cl lvl main_path off_path =
     (if \<not> can_dual_wield cl lvl then Some ''before the class can dual wield''
      else if off_path = [] \<and> \<not> (cl = ''Monk'' \<and> main_path = []) then Some ''with no off-hand weapon equipped''
      else if path_two_handed R main_path then Some ''beside a two-handed weapon''
      else None)"

section \<open>Training\<close>

definition skill_map :: "skill_kind \<Rightarrow> body \<Rightarrow> (string \<times> int) list" where
  "skill_map s b = (case s of WeaponSkill \<Rightarrow> weapon_skills b | ArmorSkill \<Rightarrow> armor_skills b | CastingSkill \<Rightarrow> casting_skills b)"

definition current_score :: "body \<Rightarrow> skill_kind \<Rightarrow> string \<Rightarrow> int" where
  "current_score b s key = (case map_of (skill_map s b) key of None \<Rightarrow> 0 | Some v \<Rightarrow> v)"

definition set_score :: "skill_kind \<Rightarrow> string \<Rightarrow> int \<Rightarrow> body \<Rightarrow> body" where
  "set_score s key v b =
     (case s of
        WeaponSkill \<Rightarrow> b\<lparr>weapon_skills := AList.update key v (weapon_skills b)\<rparr>
      | ArmorSkill \<Rightarrow> b\<lparr>armor_skills := AList.update key v (armor_skills b)\<rparr>
      | CastingSkill \<Rightarrow> b\<lparr>casting_skills := AList.update key v (casting_skills b)\<rparr>)"

text \<open>0.2.\<close>

definition ADVANCE_CHANCE_BASE :: f32 where "ADVANCE_CHANCE_BASE = 0x3e4ccccd"

definition advance_chance :: "int \<Rightarrow> int \<Rightarrow> f32" where
  "advance_chance current cap =
     f32_mul ADVANCE_CHANCE_BASE (f32_sub F32_ONE (f32_div (f32_of_int current) (f32_of_int cap)))"

definition try_advance :: "string \<Rightarrow> f32 \<Rightarrow> skill_kind \<Rightarrow> string \<Rightarrow> body \<Rightarrow> int option \<times> body" where
  "try_advance cl roll s key b =
     (let cap = cap_for s cl (clevel b) key; current = current_score b s key in
      if cap = 0 \<or> cap \<le> current then (None, b)
      else if f32_lt roll (advance_chance current cap)
      then (Some (current + 1), (set_score s key (current + 1) b)\<lparr>skills_dirty := True\<rparr>)
      else (None, b))"

definition seed_starting_scores :: "string \<Rightarrow> body \<Rightarrow> body" where
  "seed_starting_scores cl b =
     fold (\<lambda>k. set_score CastingSkill k (starting_value CastingSkill cl k)) CASTING_KEYS
      (fold (\<lambda>k. set_score ArmorSkill k (starting_value ArmorSkill cl k)) ARMOR_KEYS
        (fold (\<lambda>k. set_score WeaponSkill k (starting_value WeaponSkill cl k)) WEAPON_KEYS b))"

text \<open>0.70, 0.60 and 0.10.\<close>

definition channeling_interrupt_chance :: "int \<Rightarrow> int \<Rightarrow> f32" where
  "channeling_interrupt_chance score cap =
     (if cap = 0 then F32_ONE
      else f32_max (f32_sub 0x3f333333 (f32_mul (f32_div (f32_of_int score) (f32_of_int cap)) 0x3f19999a)) 0x3dcccccd)"

section \<open>Disciplines\<close>

definition DISCIPLINE_MAP :: "(string \<times> string) list" where
  "DISCIPLINE_MAP =
     [(''Fireball'', ''evocation''), (''Frost Bolt'', ''evocation''), (''Lightning Strike'', ''evocation''),
      (''Heal'', ''alteration''), (''Arcane Missile'', ''evocation''), (''Inferno'', ''evocation''),
      (''Healing Light'', ''alteration''), (''Greater Heal'', ''alteration''), (''Smite'', ''evocation''),
      (''Divine Wrath'', ''evocation''), (''Thorns'', ''abjuration''), (''Regrowth'', ''alteration''),
      (''Wrath'', ''evocation''), (''Call Lightning'', ''evocation''), (''Entangle'', ''alteration''),
      (''Snare'', ''alteration''), (''Nature's Wrath'', ''evocation''), (''Healing Wave'', ''alteration''),
      (''Mending'', ''alteration''), (''Spirit Bolt'', ''evocation''), (''Ancestral Strike'', ''evocation''),
      (''Slow'', ''alteration''), (''Blood Bolt'', ''evocation''), (''Crimson Bolt'', ''evocation''),
      (''Life Drain'', ''alteration''), (''Hemorrhage'', ''evocation''), (''Lay on Hands'', ''alteration''),
      (''Crusader's Mend'', ''alteration''), (''Righteous Fire'', ''evocation''), (''Judgment'', ''evocation''),
      (''Lifetap'', ''alteration''), (''Siphon'', ''evocation''), (''Dark Shroud'', ''evocation''),
      (''Summon Skeleton'', ''conjuration''), (''Bone Shards'', ''evocation''), (''Soul Drain'', ''alteration''),
      (''Dark Decay'', ''alteration''), (''Enervation'', ''evocation''), (''Spellshield'', ''abjuration''),
      (''Charm'', ''conjuration''), (''Color Spray'', ''evocation''), (''Mesmerize'', ''alteration''),
      (''Rune'', ''abjuration''), (''Cascade of Stars'', ''evocation''), (''Siren's Song'', ''conjuration''),
      (''Dissonance'', ''evocation''), (''Battle Hymn'', ''alteration''), (''Chorus of Misery'', ''evocation''),
      (''Hunter's Mark'', ''evocation''), (''Nature's Cure'', ''alteration''), (''Witchfire'', ''evocation''),
      (''Expose'', ''alteration''), (''Rite of Warding'', ''alteration''), (''Banishment'', ''evocation''),
      (''Death's Embrace'', ''evocation''), (''Blood Price'', ''alteration''), (''Shadow Flame'', ''evocation''),
      (''Condemnation'', ''evocation''), (''Sacrificial Mend'', ''alteration''), (''Radiant Bolt'', ''evocation''),
      (''Holy Mantle'', ''evocation''), (''Ice Spear'', ''evocation''), (''Flame Wave'', ''evocation''),
      (''Thunder Clap'', ''evocation''), (''Blizzard'', ''evocation''), (''Meteor'', ''evocation''),
      (''Ice Storm'', ''evocation''), (''Arcane Burst'', ''evocation''), (''Void Lance'', ''evocation''),
      (''Bloodfire'', ''evocation''), (''Tempest Bolt'', ''evocation''), (''Soul Surge'', ''evocation''),
      (''Arcane Nova'', ''evocation''), (''Bind Affinity'', ''alteration''), (''Gate'', ''alteration''),
      (''Succor'', ''alteration''), (''Evacuate'', ''alteration''), (''Circle of Ardenmoor'', ''alteration''),
      (''Circle of the Savannahs'', ''alteration''), (''Circle of Fae Mere'', ''alteration''),
      (''Teleport: Aelindra'', ''alteration''), (''Teleport: Greyveil'', ''alteration''),
      (''Teleport: Harrowmere'', ''alteration''), (''Teleport: Varek's Spire'', ''alteration''),
      (''Spirit Mend'', ''alteration''), (''Feral Shriek'', ''evocation''), (''Warder's Mend'', ''alteration''),
      (''Primal Bond'', ''abjuration''), (''Spirit Strike'', ''evocation''), (''Bless'', ''alteration''),
      (''Valor'', ''alteration''), (''Complete Heal'', ''alteration''), (''Resurrection'', ''alteration''),
      (''Spirit of the Bear'', ''alteration''), (''Gift of Insight'', ''alteration''), (''Torpor'', ''alteration''),
      (''Strength'', ''alteration''), (''Brilliance'', ''alteration''), (''Immobilize'', ''alteration''),
      (''Clarity'', ''alteration''), (''Breeze'', ''alteration''), (''Haste'', ''alteration''),
      (''Spirit of Wolf'', ''alteration''), (''Selos' Melody'', ''alteration''), (''Anthem of the Hunt'', ''alteration''),
      (''Poet's Mending'', ''alteration''), (''Wanderer's Chord'', ''alteration''), (''Mana Weave'', ''conjuration''),
      (''Aria of Dismay'', ''evocation''), (''Lich Form'', ''alteration''), (''Exsanguinate'', ''alteration''),
      (''Ensnare'', ''alteration''), (''Ensnaring Roots'', ''alteration''), (''Camouflage'', ''alteration''),
      (''Hunter's Eye'', ''alteration''), (''Spellbreak'', ''alteration''), (''Antimagic Ward'', ''abjuration''),
      (''Resurrection (Minor)'', ''alteration''), (''Resurrection'', ''alteration''), (''Resurrection II'', ''alteration''),
      (''Reclaim Soul'', ''alteration''), (''Summon Food'', ''conjuration''), (''Summon Drink'', ''conjuration'')]"

definition strip_suffix :: "string \<Rightarrow> string \<Rightarrow> string option" where
  "strip_suffix suf x = (if length suf \<le> length x \<and> drop (length x - length suf) x = suf then Some (take (length x - length suf) x) else None)"

definition discipline_for_spell :: "string \<Rightarrow> string" where
  "discipline_for_spell spell =
     (let base = (case strip_suffix '' Rk. III'' spell of
                    Some x \<Rightarrow> x
                  | None \<Rightarrow> (case strip_suffix '' Rk. II'' spell of Some x \<Rightarrow> x | None \<Rightarrow> spell))
      in case map_of (rev DISCIPLINE_MAP) base of Some d \<Rightarrow> d | None \<Rightarrow> ''evocation'')"

section \<open>The tables are sound\<close>

definition table_ok :: "cap_table \<Rightarrow> bool" where
  "table_ok T \<longleftrightarrow> list_all (\<lambda>(_, r). list_all (\<lambda>(_, v). 0 \<le> v \<and> v \<le> 250) r) T"

lemma tables_ok: "table_ok (lookup_table s)"
  by (cases s) (simp_all add: table_ok_def lookup_table_def WEAPON_CAPS_def ARMOR_CAPS_def CASTING_CAPS_def)

lemma class_row_cases: "class_row T cl = [] \<or> (\<exists>c. (c, class_row T cl) \<in> set T)"
  by (auto simp: class_row_def dest!: map_of_SomeD split: option.splits)

lemma max_cap_range: "0 \<le> max_cap s cl key \<and> max_cap s cl key \<le> 250"
proof (cases "map_of (class_row (lookup_table s) cl) key")
  case (Some v)
  then have "(key, v) \<in> set (class_row (lookup_table s) cl)" by (rule map_of_SomeD)
  then show ?thesis
    using Some tables_ok [of s] class_row_cases [of "lookup_table s" cl] by (auto simp: max_cap_def table_ok_def list_all_iff)
qed (simp add: max_cap_def)

end
