(* ===== verification/Vendors.thy ===== *)
theory Vendors
  imports Banking
begin

text \<open>
  \<open>tick/vendors.rs\<close>: buying from a merchant's stock and selling to it.  Both charge or pay for exactly
  the units that moved and write one ledger row with the units and the copper; both are instances of \<open>ledgered\<close>.
\<close>

definition vendor_gate :: "env \<Rightarrow> connection \<Rightarrow> server_msg + npc" where
  "vendor_gate E c =
     (case npc_service E c ''vendor'' of
        Inl None \<Rightarrow> Inl (SystemLine ''There is no merchant near you.'')
      | Inl (Some n) \<Rightarrow> Inl (SystemLine (will_not_deal n))
      | Inr n \<Rightarrow> Inr n)"

definition npc_detail :: "npc \<Rightarrow> string" where
  "npc_detail n = ''npc:'' @ npc_id n"

section \<open>Buying\<close>

record buy_intent =
  buy_name :: string
  buy_qty :: nat

definition buy_item :: "env \<Rightarrow> buy_intent \<Rightarrow> connection \<Rightarrow> connection \<times> server_msg list" where
  "buy_item E b c =
     (case vendor_gate E c of
        Inl m \<Rightarrow> (c, [m])
      | Inr _ \<Rightarrow>
      case vendor_stocking_within_range (npcs E) (buy_name b) (pos c) (\<lambda>n. npc_serves E c n Apprehensive) of
        None \<Rightarrow> (c, [SystemLine ''The merchant doesn't stock that.''])
      | Some seller \<Rightarrow>
      case lookup_by_name (reg E) (buy_name b) of
        None \<Rightarrow> (c, [SystemLine ''The merchant doesn't stock that.''])
      | Some i \<Rightarrow>
          let unit_price = int (vendor_price i) in
          if unit_price \<le> 0 then (c, [SystemLine ''That isn't for sale.''])
          else
            let total_cost = sat64 (unit_price * int (buy_qty b)) in
            if \<not> can_afford (coins c) total_cost then (c, [SystemLine ''You can't afford that.''])
            else case add_item_locating (reg E) (path i) (buy_qty b) (inventory c) of
              Inl _ \<Rightarrow> (c, [SystemLine ''You can't carry that.''])
            | Inr ((touched, leftover), iv) \<Rightarrow>
                let placed = buy_qty b - leftover; c0 = c\<lparr>inventory := iv\<rparr> in
                if placed = 0 then (c0, [SystemLine ''Your bags are full.''])
                else
                  let actual_cost = sat64 (unit_price * int placed);
                      c1 = c0\<lparr>coins := snd (spend (coins c0) actual_cost), coins_dirty := True, inventory_dirty := True\<rparr>;
                      row = (item_event Buy (path i) placed (int placed) (Some (npc_detail seller)))\<lparr>ev_copper := - actual_cost\<rparr>;
                      c2 = ledger (now E) row c1
                  in (c2, touched_deltas touched (inventory c2) @ [CoinsUpdate (coins c2)]
                          @ (if leftover > 0 then [SystemLine (''Only '' @ show_nat placed @ '' fit in your bags.'')] else [])))"

section \<open>Selling\<close>

text \<open>The wire's slot reference; the equipment slot is refused, so its number is not looked at.\<close>

datatype wire_slot = BaseSlot nat | BagSlot nat nat | CursorSlot | EquipSlot nat

record sell_intent =
  sell_slot :: wire_slot
  sell_qty :: nat

definition sell_lock :: "wire_slot \<Rightarrow> string \<times> nat" where
  "sell_lock s = (case s of BaseSlot i \<Rightarrow> (''base'', i) | BagSlot b j \<Rightarrow> (bag_loc b, j) | CursorSlot \<Rightarrow> (''cursor'', 0)
     | EquipSlot _ \<Rightarrow> ([], 0))"

text \<open>The place and its stack, or the refusal; a forged address is dropped without a word.\<close>

definition sell_source :: "wire_slot \<Rightarrow> player_inventory \<Rightarrow> server_msg option + (string \<times> nat \<times> string \<times> nat)" where
  "sell_source s iv =
     (case s of
        BaseSlot i \<Rightarrow>
          if i \<ge> BASE_SLOT_COUNT then Inl None
          else (case vget (base iv) i of
                  None \<Rightarrow> Inl (Some (SystemLine ''There's nothing in that slot to sell.''))
                | Some e \<Rightarrow> Inr (''base'', i, item_path e, ecount e))
      | BagSlot b j \<Rightarrow>
          if b = CURSOR_BAG_KEY then Inl None
          else (case map_of (bags iv) b of
                  None \<Rightarrow> Inl (Some (SystemLine ''There's nothing in that slot to sell.''))
                | Some arr \<Rightarrow>
                    (case vget arr j of
                       None \<Rightarrow> Inl (Some (SystemLine ''There's nothing in that slot to sell.''))
                     | Some e \<Rightarrow> Inr (bag_loc b, j, item_path e, ecount e)))
      | CursorSlot \<Rightarrow>
          (case cursor iv of
             None \<Rightarrow> Inl (Some (SystemLine ''There's nothing in your hand to sell.''))
           | Some e \<Rightarrow> Inr (''cursor'', 0, item_path e, ecount e))
      | EquipSlot _ \<Rightarrow> Inl (Some (SystemLine ''Take it off before selling it.'')))"

definition sell_bag_key :: "wire_slot \<Rightarrow> nat option" where
  "sell_bag_key s = (case s of BaseSlot i \<Rightarrow> Some i | CursorSlot \<Rightarrow> Some CURSOR_BAG_KEY | _ \<Rightarrow> None)"

definition opt_msg :: "server_msg option \<Rightarrow> server_msg list" where
  "opt_msg m = (case m of None \<Rightarrow> [] | Some x \<Rightarrow> [x])"

text \<open>The refusals in their order, or the stack to take from, the units asked for, the price and the merchant.\<close>

definition sell_quote :: "env \<Rightarrow> trade_manager \<Rightarrow> nat \<Rightarrow> sell_intent \<Rightarrow> connection
    \<Rightarrow> server_msg option + (string \<times> nat \<times> string \<times> nat \<times> int \<times> npc)" where
  "sell_quote E tm who s c =
     (case (if fst (sell_lock (sell_slot s)) = [] then None
            else trade_locked who (fst (sell_lock (sell_slot s))) (snd (sell_lock (sell_slot s))) tm) of
        Some m \<Rightarrow> Inl (Some m)
      | None \<Rightarrow>
      case vendor_gate E c of
        Inl m \<Rightarrow> Inl (Some m)
      | Inr merchant \<Rightarrow>
      case sell_source (sell_slot s) (inventory c) of
        Inl m \<Rightarrow> Inl m
      | Inr (loc, slot, p, avail) \<Rightarrow>
      case lookup (reg E) p of
        None \<Rightarrow> Inl (Some (SystemLine ''The merchant won't take that.''))
      | Some i \<Rightarrow>
          if no_drop i then Inl (Some (SystemLine NO_DROP_REFUSAL))
          else if int (vendor_price i) div 2 \<le> 0 then Inl (Some (SystemLine ''The merchant won't take that.''))
          else if (case sell_bag_key (sell_slot s) of None \<Rightarrow> False | Some k \<Rightarrow> bag_key_is_nonempty k (inventory c))
          then Inl (Some (SystemLine ''Empty the bag before selling it.''))
          else Inr (loc, slot, p, min (sell_qty s) avail, int (vendor_price i) div 2, merchant))"

definition sell_item :: "env \<Rightarrow> trade_manager \<Rightarrow> nat \<Rightarrow> sell_intent \<Rightarrow> connection \<Rightarrow> connection \<times> server_msg list" where
  "sell_item E tm who s c =
     (case sell_quote E tm who s c of
        Inl m \<Rightarrow> (c, opt_msg m)
      | Inr (loc, slot, p, qty, unit_price, merchant) \<Rightarrow>
      case destroy_at (reg E) loc slot qty (inventory c) of
        Inl _ \<Rightarrow> (c, [SystemLine ''The merchant won't take that.''])
      | Inr ((_, removed), iv) \<Rightarrow>
          let total_credit = sat64 (unit_price * int removed);
              new_count = (case peek_at loc slot iv of None \<Rightarrow> 0 | Some (_, k) \<Rightarrow> k);
              c1 = c\<lparr>inventory := iv, coins := add_payout (coins c) total_credit, coins_dirty := True,
                     inventory_dirty := True\<rparr>;
              row = (item_event Sell p removed (- int removed) (Some (npc_detail merchant)))\<lparr>ev_copper := total_credit\<rparr>;
              c2 = ledger (now E) row c1
          in (c2, [InventoryDelta loc slot (if new_count > 0 then Some p else None) new_count,
                   CoinsUpdate (coins c2)]))"

section \<open>The books\<close>

lemma payout_bounded:
  assumes "purse_ok w" "coin_value w \<le> coin_cap" "0 \<le> n" "n \<le> i64_max"
  shows "purse_ok (add_payout w n)" "coin_value (add_payout w n) = coin_value w + n"
proof -
  let ?d = "from_copper n"
  have d: "coin_value ?d = n" "\<not> has_negative ?d" "gold ?d < 100" "silver ?d < 100" "copper ?d < 100" "purse_ok ?d"
    using assms(3,4) from_copper_reduced [of n] from_copper_ok [of n] by (simp_all add: reduced_def)
  have plat: "1000000 * platinum ?d \<le> n" using d(1,2) by (simp add: coin_value_def has_negative_def)
  have w: "platinum w \<le> coin_cap" "gold w \<le> coin_cap" "silver w \<le> coin_cap" "copper w \<le> coin_cap"
    using purse_tiers [OF assms(1)] assms(2) by linarith+
  have room: "platinum w + platinum ?d \<le> i64_max" "gold w + gold ?d \<le> i64_max" "silver w + silver ?d \<le> i64_max"
      "copper w + copper ?d \<le> i64_max"
    using w d(3-5) plat assms(4) unfolding coin_cap_def by linarith+
  have "add_payout w n = add_each w ?d" using assms(3) by (simp add: add_payout_def)
  then show "purse_ok (add_payout w n)" "coin_value (add_payout w n) = coin_value w + n"
    using add_each_ok [OF assms(1) d(6)] room d(1) purse_okD [OF assms(1)] purse_okD [OF d(6)]
    by (simp_all add: add_each_def coin_value_def)
qed

lemma sat64_max_min: "sat64 x = max i64_min (min i64_max x)"
  by (simp add: sat64_def max_def min_def)

lemma sat64_mono: "x \<le> y \<Longrightarrow> sat64 x \<le> sat64 y"
  unfolding sat64_max_min by (intro max.mono min.mono) simp_all

lemma sat64_pos_range: "0 \<le> x \<Longrightarrow> 0 \<le> sat64 x \<and> sat64 x \<le> i64_max"
  by (simp add: sat64_max_min)

text \<open>A purchase that changes anything is for a stocked item at a positive price, places between one unit and the
  number asked for, and can be paid.\<close>

lemma find_in: "find P xs = Some x \<Longrightarrow> x \<in> set xs \<and> P x"
  by (induction xs) (auto split: if_splits)

text \<open>Nothing is bought that no merchant in reach stocks for the buyer.\<close>

lemma buy_item_stocked:
  assumes "fst (buy_item E b c) \<noteq> c"
  obtains m where "m \<in> set (npcs E)" "''vendor'' \<in> set (kinds m)" "f32_le (distance_to (npc_pos m) (pos c)) NPC_SERVICE_RANGE"
    "npc_serves E c m Apprehensive" "buy_name b \<in> set (stock m)"
proof -
  obtain m where "vendor_stocking_within_range (npcs E) (buy_name b) (pos c) (\<lambda>n. npc_serves E c n Apprehensive) = Some m"
    using assms by (auto simp: buy_item_def split: sum.splits option.splits)
  then have "m \<in> set (filter (\<lambda>n. npc_serves E c n Apprehensive) (all_within_range (npcs E) ''vendor'' (pos c))) \<and> buy_name b \<in> set (stock m)"
    unfolding vendor_stocking_within_range_def by (rule find_in)
  then show thesis unfolding all_within_range_def by (intro that [of m]) auto
qed

lemma buy_item_cases:
  assumes ok: "conn_ok (reg E) c" and reg: "reg_ok (reg E)"
  obtains (refused) "fst (buy_item E b c) = c"
  | (bought) i d t k l iv where "lookup_by_name (reg E) (buy_name b) = Some i" "0 < vendor_price i" "0 < k" "k = buy_qty b - l"
      "add_item_locating (reg E) (path i) (buy_qty b) (inventory c) = Inr ((t, l), iv)"
      "fst (spend (coins c) (sat64 (int (vendor_price i) * int k)))" "sat64 (int (vendor_price i) * int k) \<le> total_copper (coins c)"
      "fst (buy_item E b c) = ledger (now E)
        ((item_event Buy (path i) k (int k) (Some d))\<lparr>ev_copper := - sat64 (int (vendor_price i) * int k)\<rparr>)
        (c\<lparr>inventory := iv, coins := snd (spend (coins c) (sat64 (int (vendor_price i) * int k))), coins_dirty := True,
           inventory_dirty := True\<rparr>)"
proof (cases "fst (buy_item E b c) = c")
  case False
  obtain i t l iv where i: "lookup_by_name (reg E) (buy_name b) = Some i" "0 < vendor_price i"
    and afford: "can_afford (coins c) (sat64 (int (vendor_price i) * int (buy_qty b)))"
    and add: "add_item_locating (reg E) (path i) (buy_qty b) (inventory c) = Inr ((t, l), iv)"
    using False by (auto simp: buy_item_def Let_def split: sum.splits option.splits if_splits prod.splits)
  note eff = add_item_locating_Inr [OF reg conn_okD(1) [OF ok] add]
  let ?n = "buy_qty b - l"
  let ?cost = "sat64 (int (vendor_price i) * int ?n)"
  have n: "0 < ?n"
  proof (rule ccontr)
    assume "\<not> 0 < ?n"
    then have "l = buy_qty b" using eff by auto
    then have "iv = inventory c" using add_item_locating_none [OF reg] add by blast
    then have "fst (buy_item E b c) = c"
      using False \<open>\<not> 0 < ?n\<close> i afford add by (auto simp: buy_item_def Let_def split: sum.splits option.splits if_splits)
    with False show False by simp
  qed
  obtain d where out: "fst (buy_item E b c) = ledger (now E)
      ((item_event Buy (path i) ?n (int ?n) (Some d))\<lparr>ev_copper := - ?cost\<rparr>)
      (c\<lparr>inventory := iv, coins := snd (spend (coins c) ?cost), coins_dirty := True, inventory_dirty := True\<rparr>)"
    using False i afford add n by (auto simp: buy_item_def Let_def split: sum.splits option.splits if_splits)
  have "int (vendor_price i) * int ?n \<le> int (vendor_price i) * int (buy_qty b)" by (intro mult_left_mono) simp_all
  then have cheap: "?cost \<le> total_copper (coins c)"
    using afford sat64_mono order_trans by (fastforce simp: can_afford_def)
  have "0 \<le> int (vendor_price i) * int ?n" by simp
  then have "0 \<le> ?cost" using sat64_pos_range by blast
  then have "fst (spend (coins c) ?cost)" using cheap by (simp add: spend_True_iff)
  then show thesis using bought [OF i n _ add _ cheap out] by simp
qed (use that in blast)

lemma buy_item_balanced:
  assumes ok: "conn_ok (reg E) c" and reg: "reg_ok (reg E)"
  shows "balanced (reg E) c (fst (buy_item E b c))"
  using ok reg
proof (cases rule: buy_item_cases [of E c b])
  case refused
  then show ?thesis using ok by (simp add: balanced_refl)
next
  case (bought i d t k l iv)
  note eff = add_item_locating_Inr [OF reg conn_okD(1) [OF ok] bought(5)]
  note pay = spend_effect [OF conn_okD(4) [OF ok], of "sat64 (int (vendor_price i) * int k)"]
  have wf: "inv_wf (reg E) iv" using eff by blast
  have items: "inv_total q iv = inv_total q (inventory c) + units q (path i) k" for q using eff bought(4) by blast
  show ?thesis using ok pay bought(6) wf items by (simp add: bought(8) books units_def)
qed

lemma sell_source_peek:
  assumes src: "sell_source s iv = Inr (loc, slot, p, n)" and wf: "inv_wf R iv"
  shows "peek_at loc slot iv = Some (p, n)"
proof (cases s)
  case (BagSlot b j)
  then obtain arr where arr: "map_of (bags iv) b = Some arr"
    using src by (cases "map_of (bags iv) b") (simp_all add: sell_source_def split: if_splits)
  obtain e where e: "vget arr j = Some e"
    using src BagSlot arr by (cases "vget arr j") (simp_all add: sell_source_def split: if_splits)
  have out: "loc = bag_loc b" "slot = j" "p = item_path e" "n = ecount e"
    using src BagSlot arr e by (simp_all add: sell_source_def split: if_splits)
  have "b < BASE_SLOT_COUNT \<or> b = CURSOR_BAG_KEY"
    using wf map_of_SomeD [OF arr] by (auto simp: inv_wf_but_def bags_wf_def list_all_iff)
  then show ?thesis using arr e by (simp add: out peek_at_def parse_slot_ref_def cell_at_def cell_pair_def)
qed (use src in \<open>auto simp: sell_source_def peek_at_def parse_slot_ref_def cell_at_def cell_pair_def split: if_splits option.splits\<close>)

lemma sell_quote_source:
  assumes "sell_quote E tm who s c = Inr (loc, slot, p, qty, u, m)" "inv_wf R (inventory c)"
  shows "\<exists>n. peek_at loc slot (inventory c) = Some (p, n)" "0 < u"
  using assms sell_source_peek [OF _ assms(2), of "sell_slot s" loc slot p]
  by (auto simp: sell_quote_def split: sum.splits option.splits if_splits prod.splits)

text \<open>The quote's stack is unlocked, not NO DROP, and priced at half its list price.\<close>

lemma sell_source_addr: "sell_source s iv = Inr (loc, slot, p, n) \<Longrightarrow> sell_lock s = (loc, slot) \<and> loc \<noteq> []"
  by (cases s) (auto simp: sell_source_def sell_lock_def bag_loc_def split: if_splits option.splits)

lemma trade_locked_None: "trade_locked who loc slot tm = None \<longleftrightarrow> \<not> is_locked who loc slot tm"
  by (simp add: trade_locked_def)

lemma sell_quote_addr:
  assumes q: "sell_quote E tm who s c = Inr (loc, slot, p, qty, u, m)" and wf: "inv_wf R (inventory c)"
  shows "\<exists>i n. lookup (reg E) p = Some i \<and> \<not> no_drop i \<and> u = int (vendor_price i) div 2 \<and> sell_lock (sell_slot s) = (loc, slot)
    \<and> \<not> is_locked who loc slot tm \<and> peek_at loc slot (inventory c) = Some (p, n) \<and> qty = min (sell_qty s) n"
proof -
  obtain n where src: "sell_source (sell_slot s) (inventory c) = Inr (loc, slot, p, n)" "qty = min (sell_qty s) n"
    using q by (auto simp: sell_quote_def split: sum.splits option.splits if_splits prod.splits)
  note at = sell_source_addr [OF src(1)]
  have "trade_locked who loc slot tm = None"
    using q at by (auto simp: sell_quote_def split: option.splits)
  moreover obtain i where "lookup (reg E) p = Some i" "\<not> no_drop i" "u = int (vendor_price i) div 2"
    using q src(1) by (auto simp: sell_quote_def split: sum.splits option.splits if_splits)
  ultimately show ?thesis
    using at src sell_source_peek [OF src(1) wf] by (auto simp: trade_locked_None)
qed

text \<open>A sale that changes anything takes units of the stack the quote named and credits their price.\<close>

lemma sell_item_cases:
  assumes ok: "conn_ok (reg E) c"
  obtains (refused) "fst (sell_item E tm who s c) = c"
  | (sold) loc slot p qty u m k iv where "sell_quote E tm who s c = Inr (loc, slot, p, qty, u, m)" "0 < u"
      "destroy_at (reg E) loc slot qty (inventory c) = Inr ((p, k), iv)"
      "fst (sell_item E tm who s c) =
        ledger (now E) ((item_event Sell p k (- int k) (Some (npc_detail m)))\<lparr>ev_copper := sat64 (u * int k)\<rparr>)
          (c\<lparr>inventory := iv, coins := add_payout (coins c) (sat64 (u * int k)), coins_dirty := True, inventory_dirty := True\<rparr>)"
proof (cases "fst (sell_item E tm who s c) = c")
  case False
  obtain loc slot p qty u m where quote: "sell_quote E tm who s c = Inr (loc, slot, p, qty, u, m)"
    using False by (cases "sell_quote E tm who s c") (auto simp: sell_item_def)
  then obtain q k iv where take: "destroy_at (reg E) loc slot qty (inventory c) = Inr ((q, k), iv)"
    using False by (cases "destroy_at (reg E) loc slot qty (inventory c)") (auto simp: sell_item_def)
  have wf: "inv_wf (reg E) (inventory c)" using conn_okD(1) [OF ok] .
  have "q = p" using destroy_at_effect [OF wf take] sell_quote_source(1) [OF quote wf] by auto
  then show thesis using sold [OF quote sell_quote_source(2) [OF quote wf]] quote take by (simp add: sell_item_def Let_def)
qed (use that in blast)

lemma sold_pay:
  assumes "conn_ok R c" "coins_bounded c" "0 < u"
  shows "purse_ok (add_payout (coins c) (sat64 (u * int k)))"
    "coin_value (add_payout (coins c) (sat64 (u * int k))) = coin_value (coins c) + sat64 (u * int k)"
proof -
  have "0 \<le> sat64 (u * int k)" "sat64 (u * int k) \<le> i64_max" using sat64_pos_range [of "u * int k"] assms(3) by simp_all
  from payout_bounded [OF conn_okD(4) [OF assms(1)] coin_bounds(3) [OF assms(1,2)] this]
  show "purse_ok (add_payout (coins c) (sat64 (u * int k)))"
    "coin_value (add_payout (coins c) (sat64 (u * int k))) = coin_value (coins c) + sat64 (u * int k)" by simp_all
qed

lemma sell_item_balanced:
  assumes ok: "conn_ok (reg E) c" and bd: "coins_bounded c"
  shows "balanced (reg E) c (fst (sell_item E tm who s c))"
  using ok
proof (cases rule: sell_item_cases [of E c tm who s])
  case refused
  then show ?thesis using ok by (simp add: balanced_refl)
next
  case (sold loc slot p qty u m k iv)
  have wf: "inv_wf (reg E) (inventory c)" using conn_okD(1) [OF ok] .
  have total: "inv_total r iv + units r p k = inv_total r (inventory c)" for r
    using destroy_at_effect [OF wf sold(3), of r] by blast
  have eff: "inv_wf (reg E) iv" using destroy_at_effect [OF wf sold(3)] by blast
  have items: "int (inv_total r iv) = int (inv_total r (inventory c)) - (if r = p then int k else 0)" for r
    using total [of r] by (cases "r = p") (simp_all add: units_def)
  show ?thesis using ok sold_pay [OF ok bd sold(2)] eff items by (simp add: sold(4) books)
qed

section \<open>The handlers as ledgered steps\<close>

interpretation buy: ledgered "\<lambda>b c. fst (buy_item E b c)" "reg E" "\<lambda>b c. reg_ok (reg E)" for E
  by unfold_locales (simp add: buy_item_balanced)

interpretation sell: ledgered "\<lambda>s c. fst (sell_item E tm who s c)" "reg E" "\<lambda>s. coins_bounded" for E tm who
  by unfold_locales (simp add: sell_item_balanced)

end
