(* ===== verification/Hunger.thy ===== *)
theory Hunger
  imports BuffOps Skills Vendors
begin

text \<open>
  \<open>world/hunger.rs\<close>, \<open>world/encumbrance.rs\<close>, \<open>world/regen.rs\<close> and the per-connection loop of
  \<open>world/tick/regen_tick.rs\<close>: food and water run down, the first matching stack is eaten, and hit points, mana and stamina
  come back at a rate that depends on level, posture, food and load.
\<close>

section \<open>Food and water\<close>

datatype need = Food | Drink

datatype stage = Fed | Hungry | Out

text \<open>144, 14400, 1728 seconds and one half.\<close>

definition FULLNESS_UNIT_SECS :: f32 where "FULLNESS_UNIT_SECS = 0x43100000"

definition FULLNESS_CAP_SECS :: f32 where "FULLNESS_CAP_SECS = 0x46610000"

definition HUNGRY_AT_SECS :: f32 where "HUNGRY_AT_SECS = 0x44d80000"

definition HAND_EAT_FRACTION :: f32 where "HAND_EAT_FRACTION = 0x3f000000"

definition UPDATE_INTERVAL :: nat where "UPDATE_INTERVAL = 60000"

lemma fullness_consts: "FULLNESS_CAP_SECS = f32_mul 0x42c80000 FULLNESS_UNIT_SECS" "HUNGRY_AT_SECS = f32_mul 0x41400000 FULLNESS_UNIT_SECS"
  by (simp_all add: FULLNESS_CAP_SECS_def HUNGRY_AT_SECS_def FULLNESS_UNIT_SECS_def f32_eval)

definition stage_of :: "f32 \<Rightarrow> stage" where
  "stage_of secs = (if f32_le secs 0 then Out else if f32_lt secs HUNGRY_AT_SECS then Hungry else Fed)"

text \<open>2.0, 1.5, 0.75 and 1.0.\<close>

definition race_drain_multiplier :: "string \<Rightarrow> f32" where
  "race_drain_multiplier r =
     (if r = ''Halfling'' then 0x40000000
      else if r = ''Ogre'' \<or> r = ''Troll'' \<or> r = ''Half-Ogre'' then 0x3fc00000
      else if r = ''Fae'' then 0x3f400000
      else 0x3f800000)"

definition fullness_of :: "item \<Rightarrow> f32" where
  "fullness_of i = f32_max (food_duration i) 0"

definition counter :: "need \<Rightarrow> body \<Rightarrow> f32" where
  "counter n b = (case n of Food \<Rightarrow> hunger_secs b | Drink \<Rightarrow> thirst_secs b)"

definition set_counter :: "need \<Rightarrow> f32 \<Rightarrow> body \<Rightarrow> body" where
  "set_counter n v b = (case n of Food \<Rightarrow> b\<lparr>hunger_secs := v\<rparr> | Drink \<Rightarrow> b\<lparr>thirst_secs := v\<rparr>)"

definition is_famished :: "need \<Rightarrow> body \<Rightarrow> bool" where
  "is_famished n b = f32_le (counter n b) 0"

definition is_full :: "need \<Rightarrow> body \<Rightarrow> bool" where
  "is_full n b = f32_le (f32_sub FULLNESS_CAP_SECS 0x3f000000) (counter n b)"

definition feed :: "need \<Rightarrow> f32 \<Rightarrow> body \<Rightarrow> body" where
  "feed n amount b =
     (set_counter n (f32_min (f32_add (counter n b) (f32_max amount 0)) FULLNESS_CAP_SECS) b)\<lparr>hunger_dirty := True\<rparr>"

fun stage_line :: "need \<Rightarrow> stage \<Rightarrow> string option" where
  "stage_line Food Hungry = Some ''You are hungry.''"
| "stage_line Food Out = Some ''You are out of food.''"
| "stage_line Drink Hungry = Some ''You are thirsty.''"
| "stage_line Drink Out = Some ''You are out of water.''"
| "stage_line _ Fed = None"

text \<open>One need's turn of the drain.\<close>

definition drain_need :: "f32 \<Rightarrow> need \<Rightarrow> (need \<times> stage \<times> string) list \<times> body \<Rightarrow> (need \<times> stage \<times> string) list \<times> body" where
  "drain_need amount n r =
     (case r of (entered, b) \<Rightarrow>
        let before = counter n b; after = f32_max (f32_sub before amount) 0; b1 = set_counter n after b in
        if stage_of after \<noteq> stage_of before then
          (entered @ (case stage_line n (stage_of after) of None \<Rightarrow> [] | Some l \<Rightarrow> [(n, stage_of after, l)]), b1\<lparr>hunger_dirty := True\<rparr>)
        else (entered, b1))"

definition drain :: "string \<Rightarrow> f32 \<Rightarrow> body \<Rightarrow> (need \<times> stage \<times> string) list \<times> body" where
  "drain r dt b =
     (let mult = race_drain_multiplier r in
      if f32_le mult 0 \<or> f32_le dt 0 then ([], b)
      else fold (drain_need (f32_mul dt mult)) [Food, Drink] ([], b))"

definition current_stage_lines :: "body \<Rightarrow> string list" where
  "current_stage_lines b = List.map_filter (\<lambda>n. stage_line n (stage_of (counter n b))) [Food, Drink]"

definition drain_rate_now :: "connection \<times> body \<Rightarrow> f32" where
  "drain_rate_now cb =
     (if in_world (fst cb) \<and> pos32 (hp (fst cb)) \<and> \<not> death_processed (fst cb) then race_drain_multiplier (race (fst cb)) else 0)"

definition F32_EPSILON :: f32 where "F32_EPSILON = 0x34000000"

definition update_due :: "instant \<Rightarrow> connection \<times> body \<Rightarrow> bool" where
  "update_due t cb =
     (hunger_dirty (snd cb) \<or> f32_lt F32_EPSILON (f32_abs (f32_sub (hunger_rate_sent (snd cb)) (drain_rate_now cb)))
      \<or> (case hunger_sent_at (snd cb) of None \<Rightarrow> True | Some s \<Rightarrow> UPDATE_INTERVAL \<le> t - s))"

definition mark_sent :: "instant \<Rightarrow> connection \<times> body \<Rightarrow> connection \<times> body" where
  "mark_sent t cb = on_body (\<lambda>b. b\<lparr>hunger_dirty := False, hunger_sent_at := Some t, hunger_rate_sent := drain_rate_now cb\<rparr>) cb"

definition eat_emote :: "string \<Rightarrow> string \<Rightarrow> need \<Rightarrow> string" where
  "eat_emote eater what n =
     (case n of
        Food \<Rightarrow> ''Chomp, chomp, chomp... '' @ eater @ '' takes a bite from a '' @ what @ ''.''
      | Drink \<Rightarrow> ''Glug, glug, glug... '' @ eater @ '' takes a drink from a '' @ what @ ''.'')"

definition item_matches :: "need \<Rightarrow> item \<Rightarrow> bool" where
  "item_matches n i = (case n of Food \<Rightarrow> is_food i | Drink \<Rightarrow> is_drink i)"

text \<open>The first stack of the cells, numbered from \<open>i\<close>, that matches and is not skipped.\<close>

fun first_match :: "registry \<Rightarrow> need \<Rightarrow> (string \<Rightarrow> nat \<Rightarrow> bool) \<Rightarrow> string \<Rightarrow> nat \<Rightarrow> inventory_entry option list \<Rightarrow> (string \<times> nat \<times> item) option"
  where
  "first_match R n skip loc i [] = None"
| "first_match R n skip loc i (cell # cells) =
     (case (case cell of None \<Rightarrow> None | Some e \<Rightarrow> lookup R (item_path e)) of
        None \<Rightarrow> first_match R n skip loc (Suc i) cells
      | Some it \<Rightarrow> if item_matches n it \<and> \<not> skip loc i then Some (loc, i, it) else first_match R n skip loc (Suc i) cells)"

fun first_in_bags :: "registry \<Rightarrow> need \<Rightarrow> (string \<Rightarrow> nat \<Rightarrow> bool) \<Rightarrow> player_inventory \<Rightarrow> nat list \<Rightarrow> (string \<times> nat \<times> item) option" where
  "first_in_bags R n skip iv [] = None"
| "first_in_bags R n skip iv (k # ks) =
     (case map_of (bags iv) k of
        None \<Rightarrow> first_in_bags R n skip iv ks
      | Some cells \<Rightarrow>
          (case first_match R n skip (bag_loc k) 0 cells of
             Some hit \<Rightarrow> Some hit
           | None \<Rightarrow> first_in_bags R n skip iv ks))"

definition first_in_slot_order :: "registry \<Rightarrow> player_inventory \<Rightarrow> need \<Rightarrow> (string \<Rightarrow> nat \<Rightarrow> bool) \<Rightarrow> (string \<times> nat \<times> item) option" where
  "first_in_slot_order R iv n skip =
     (case first_match R n skip ''base'' 0 (base iv) of
        Some hit \<Rightarrow> Some hit
      | None \<Rightarrow> first_in_bags R n skip iv (sort (filter (\<lambda>k. k \<noteq> CURSOR_BAG_KEY) (map fst (bags iv)))))"

section \<open>Load\<close>

text \<open>0.02, 10.0, 1.0, 0.6, 0.25, 0.5 and 2.0.\<close>

definition COIN_WEIGHT :: f32 where "COIN_WEIGHT = 0x3ca3d70a"

definition BASE_CAPACITY :: f32 where "BASE_CAPACITY = 0x41200000"

definition CAPACITY_PER_STR :: f32 where "CAPACITY_PER_STR = 0x3f800000"

definition SPEED_PENALTY_RATE :: f32 where "SPEED_PENALTY_RATE = 0x3f19999a"

definition MIN_SPEED_MULT :: f32 where "MIN_SPEED_MULT = 0x3e800000"

definition ENCUMBERED_ST_REGEN_MULT :: f32 where "ENCUMBERED_ST_REGEN_MULT = 0x3f000000"

definition OVERLOADED_RATIO :: f32 where "OVERLOADED_RATIO = 0x40000000"

definition carried_weight :: "registry \<Rightarrow> connection \<Rightarrow> f32" where
  "carried_weight R c =
     (let w = coins c; coin_count = max 0 (wrap64 (platinum w + gold w + silver w + copper w)) in
      fold (\<lambda>(p, n) acc. case lookup R p of None \<Rightarrow> acc | Some i \<Rightarrow> f32_add acc (f32_mul (weight i) (f32_of_int (int n))))
        (all_stacks (inventory c)) (f32_mul (f32_of_int coin_count) COIN_WEIGHT))"

definition capacity :: "i32 \<Rightarrow> f32" where
  "capacity s = f32_add BASE_CAPACITY (f32_mul (f32_of_int (sint s)) CAPACITY_PER_STR)"

definition load_speed_mult :: "f32 \<Rightarrow> f32 \<Rightarrow> f32" where
  "load_speed_mult w cap =
     (if f32_le cap 0 \<or> f32_le w cap then F32_ONE
      else f32_clamp (f32_sub F32_ONE (f32_mul SPEED_PENALTY_RATE (f32_sub (f32_div w cap) F32_ONE))) MIN_SPEED_MULT F32_ONE)"

definition stamina_regen_mult :: "f32 \<Rightarrow> f32 \<Rightarrow> f32" where
  "stamina_regen_mult w cap =
     (if f32_le cap 0 \<or> f32_le w cap then F32_ONE
      else if f32_le (f32_mul cap OVERLOADED_RATIO) w then 0
      else ENCUMBERED_ST_REGEN_MULT)"

definition load_for_conn :: "registry \<Rightarrow> connection \<times> body \<Rightarrow> f32 \<times> f32" where
  "load_for_conn R cb =
     (let w = carried_weight R (fst cb); cap = capacity (strength (snd cb)) in (load_speed_mult w cap, stamina_regen_mult w cap))"

section \<open>Regeneration\<close>

text \<open>10.0 a tick of 6.0 seconds; the lockout in milliseconds; 0.05; half a second.\<close>

definition STAMINA_REGEN_PER_TICK :: f32 where "STAMINA_REGEN_PER_TICK = 0x41200000"

definition COMBAT_REGEN_LOCKOUT :: nat where "COMBAT_REGEN_LOCKOUT = 6000"

definition CLIENT_TICK_INTERVAL_SECS :: f32 where "CLIENT_TICK_INTERVAL_SECS = 0x40c00000"

definition DELTA_PCT_OF_MAX :: f32 where "DELTA_PCT_OF_MAX = 0x3d4ccccd"

definition MAX_BROADCAST_GAP :: nat where "MAX_BROADCAST_GAP = 500"

definition hp_regen_pair :: "int \<Rightarrow> bool \<Rightarrow> int \<times> int" where
  "hp_regen_pair l troll =
     (if \<not> troll then
        (if l \<le> 19 then (1, 2) else if l \<le> 49 then (1, 3) else if l \<le> 50 then (1, 4) else if l \<le> 55 then (2, 5)
         else if l \<le> 59 then (3, 6) else (4, 7))
      else
        (if l \<le> 19 then (2, 4) else if l \<le> 49 then (2, 6) else if l \<le> 50 then (2, 8) else if l \<le> 55 then (6, 12)
         else if l \<le> 59 then (10, 16) else (12, 18)))"

definition hp_regen_per_tick :: "int \<Rightarrow> bool \<Rightarrow> bool \<Rightarrow> f32" where
  "hp_regen_per_tick l sitting troll =
     f32_of_int (if sitting then snd (hp_regen_pair l troll) else fst (hp_regen_pair l troll))"

definition mp_regen_per_tick :: "bool \<Rightarrow> int \<Rightarrow> f32" where
  "mp_regen_per_tick sitting meditate = (if sitting then f32_of_int (2 + max 0 meditate div 12) else F32_ONE)"

definition natural_regen_allowed :: "f32 \<Rightarrow> f32 \<Rightarrow> bool \<times> bool \<times> bool" where
  "natural_regen_allowed h t = (pos32 h, pos32 t, pos32 h \<and> pos32 t)"

definition in_lockout :: "instant \<Rightarrow> instant option \<Rightarrow> bool" where
  "in_lockout t s = (case s of None \<Rightarrow> False | Some u \<Rightarrow> t - u < COMBAT_REGEN_LOCKOUT)"

definition sitting_bonus_from :: "bool \<Rightarrow> instant option \<Rightarrow> instant option \<Rightarrow> instant \<Rightarrow> bool" where
  "sitting_bonus_from sitting damaged attacked t = (sitting \<and> \<not> in_lockout t damaged \<and> \<not> in_lockout t attacked)"

definition sitting_bonus_applies :: "instant \<Rightarrow> body \<Rightarrow> bool" where
  "sitting_bonus_applies t b = sitting_bonus_from (is_sitting b) (last_damaged_at b) (last_attack_at b) t"

text \<open>One resource: whole points flow into it once the accumulator holds one, and it empties when nothing may flow.\<close>

definition regain :: "bool \<Rightarrow> f32 \<Rightarrow> f32 \<Rightarrow> f32 \<Rightarrow> f32 \<Rightarrow> f32 \<times> f32" where
  "regain flows amount acc cur cap =
     (if flows then
        let acc1 = f32_add acc amount in
        if f32_le F32_ONE acc1 then (f32_sub acc1 (f32_floor acc1), f32_min (f32_add cur (f32_floor acc1)) cap) else (acc1, cur)
      else (0, cur))"

definition regen_resources :: "registry \<Rightarrow> f32 \<Rightarrow> instant \<Rightarrow> connection \<times> body \<Rightarrow> connection \<times> body" where
  "regen_resources R dt t cb =
     (case cb of (c, b) \<Rightarrow>
        let scale = f32_div dt CLIENT_TICK_INTERVAL_SECS; sitting = sitting_bonus_applies t b;
            meditate = (case map_of (casting_skills b) ''meditate'' of None \<Rightarrow> 0 | Some s \<Rightarrow> s);
            (fed_hp, fed_mp, fed_st) = natural_regen_allowed (hunger_secs b) (thirst_secs b);
            (ha, h) = regain (pos32 (hp c) \<and> f32_lt (hp c) (max_hp b) \<and> \<not> is_lich_form_active (active_buffs b) \<and> fed_hp)
                        (f32_mul (hp_regen_per_tick (clevel b) sitting (race c = ''Troll'')) scale) (regen_hp_acc b) (hp c) (max_hp b);
            (ma, m) = regain (f32_lt (mp b) (max_mp b) \<and> fed_mp)
                        (f32_mul (mp_regen_per_tick sitting meditate) scale) (regen_mp_acc b) (mp b) (max_mp b);
            load = (if f32_lt (stamina b) (max_stamina b) \<and> fed_st then snd (load_for_conn R (c, b)) else 0);
            (sa, s) = regain (pos32 load)
                        (f32_mul (f32_mul STAMINA_REGEN_PER_TICK load) scale) (regen_stamina_acc b) (stamina b) (max_stamina b)
        in (c\<lparr>hp := h\<rparr>, b\<lparr>regen_hp_acc := ha, mp := m, regen_mp_acc := ma, stamina := s, regen_stamina_acc := sa\<rparr>))"

definition big_step :: "f32 \<Rightarrow> f32 \<Rightarrow> f32 \<Rightarrow> bool" where
  "big_step cur sent cap = f32_lt (f32_mul (f32_max cap F32_ONE) DELTA_PCT_OF_MAX) (f32_abs (f32_sub cur sent))"

text \<open>The throttle: whether the three resources are fanned out, and what was last fanned.\<close>

definition regen_fanout :: "instant \<Rightarrow> connection \<times> body \<Rightarrow> bool \<times> connection \<times> body" where
  "regen_fanout t cb =
     (case cb of (c, b) \<Rightarrow>
        let big = (big_step (hp c) (last_bcast_hp b) (max_hp b) \<or> big_step (mp b) (last_bcast_mp b) (max_mp b)
                   \<or> big_step (stamina b) (last_bcast_stamina b) (max_stamina b));
            changed = (f32_neq (hp c) (last_bcast_hp b) \<or> f32_neq (mp b) (last_bcast_mp b) \<or> f32_neq (stamina b) (last_bcast_stamina b));
            gap = (case last_bcast_at b of None \<Rightarrow> True | Some s \<Rightarrow> MAX_BROADCAST_GAP \<le> t - s)
        in if changed \<and> (big \<or> gap)
           then (True, c, b\<lparr>last_bcast_hp := hp c, last_bcast_mp := mp b, last_bcast_stamina := stamina b, last_bcast_at := Some t\<rparr>)
           else (False, c, b))"

definition regen_tick_one :: "registry \<Rightarrow> f32 \<Rightarrow> instant \<Rightarrow> connection \<times> body \<Rightarrow> bool \<times> connection \<times> body" where
  "regen_tick_one R dt t cb = regen_fanout t (regen_resources R dt t cb)"

section \<open>The tick of one connection\<close>

text \<open>Eating on its own: the stack to take from, the ledger row, the meal.  The first component says whether it ate.\<close>

definition auto_eat :: "env \<Rightarrow> trade_manager \<Rightarrow> nat \<Rightarrow> need \<Rightarrow> connection \<times> body \<Rightarrow> bool \<times> server_msg list \<times> string list \<times> connection \<times> body" where
  "auto_eat E tm who n cb =
     (case cb of (c, b) \<Rightarrow>
        if \<not> is_famished n b then (False, [], [], c, b)
        else case first_in_slot_order (reg E) (inventory c) n (\<lambda>l s. is_locked who l s tm) of
          None \<Rightarrow> (False, [], [], c, b)
        | Some (loc, slot, i) \<Rightarrow>
            (case decrement_at (reg E) loc slot (inventory c) of
               Inl _ \<Rightarrow> (False, [], [], c, b)
             | Inr (_, iv) \<Rightarrow>
                 let c1 = ledger (now E) (item_event Eat (path i) 1 (-1) (Some ''hunger'')) (c\<lparr>inventory := iv, inventory_dirty := True\<rparr>)
                 in (True,
                     [slot_delta loc slot (peek_at loc slot iv),
                      SystemLine (''You '' @ (case n of Food \<Rightarrow> ''eat'' | Drink \<Rightarrow> ''drink'') @ '' a '' @ name i @ ''.'')],
                     [eat_emote (cname c) (name i) n], c1, feed n (fullness_of i) b)))"

text \<open>Food and water for a living character in the world; the second component is what bystanders hear.\<close>

definition appetite :: "env \<Rightarrow> trade_manager \<Rightarrow> nat \<Rightarrow> f32 \<Rightarrow> connection \<times> body \<Rightarrow> server_msg list \<times> string list \<times> connection \<times> body" where
  "appetite E tm who dt cb =
     (case cb of (c, b) \<Rightarrow>
        if in_world c \<and> pos32 (hp c) \<and> \<not> death_processed c then
          let (hello, b1) = (if appetite_announced b then ([], b)
                             else (map SystemLine (current_stage_lines b), b\<lparr>appetite_announced := True\<rparr>));
              (entered, b2) = drain (race c) dt b1;
              (ate_food, m1, e1, cb3) = auto_eat E tm who Food (c, b2);
              (ate_drink, m2, e2, cb4) = auto_eat E tm who Drink cb3;
              told = map (\<lambda>(_, _, l). SystemLine l)
                       (filter (\<lambda>(n, s, _). \<not> (s = Out \<and> (case n of Food \<Rightarrow> ate_food | Drink \<Rightarrow> ate_drink))) entered)
          in (hello @ m1 @ m2 @ told, e1 @ e2, cb4)
        else ([], [], c, b))"

definition meditate_step :: "instant \<Rightarrow> f32 \<Rightarrow> connection \<times> body \<Rightarrow> server_msg list \<times> connection \<times> body" where
  "meditate_step t roll cb =
     (case cb of (c, b) \<Rightarrow>
        if f32_lt (mp b) (max_mp b) \<and> sitting_bonus_applies t b \<and> fst (snd (natural_regen_allowed (hunger_secs b) (thirst_secs b)))
           \<and> (case last_meditate_at b of None \<Rightarrow> True | Some s \<Rightarrow> 6000 \<le> t - s) then
          (case try_advance (cls c) roll CastingSkill ''meditate'' (b\<lparr>last_meditate_at := Some t\<rparr>) of
             (None, b1) \<Rightarrow> ([], c, b1)
           | (Some score, b1) \<Rightarrow> ([SkillProgress ''meditate'' score], c, b1))
        else ([], c, b))"

text \<open>One connection's turn in \<open>run_regen\<close>: its own messages, the emotes, whether its resources are fanned out.\<close>

definition regen_turn ::
    "env \<Rightarrow> trade_manager \<Rightarrow> nat \<Rightarrow> f32 \<Rightarrow> instant \<Rightarrow> f32 \<Rightarrow> connection \<times> body \<Rightarrow> (server_msg list \<times> string list \<times> bool) \<times> connection \<times> body" where
  "regen_turn E tm who dt t roll cb =
     (let (m1, emotes, cb1) = appetite E tm who dt cb;
          (m2, cb2) = (if in_world (fst cb1) \<and> update_due t cb1
                       then ([HungerUpdate (hunger_secs (snd cb1)) (thirst_secs (snd cb1)) FULLNESS_CAP_SECS (drain_rate_now cb1)], mark_sent t cb1)
                       else ([], cb1));
          (fan, cb3) = regen_tick_one (reg E) dt t cb2;
          (m3, cb4) = meditate_step t roll cb3
      in ((m1 @ m2 @ m3, emotes, fan), cb4))"

end
