(* ===== verification/Handling.thy ===== *)
theory Handling
  imports Hunger
begin

text \<open>
  \<open>world/tick/inventory_ops.rs\<close>: a player's own inventory.  Moves, splits, equips and unequips, destroys, eating and drinking
  by hand and the give command, each from the escrow check to the messages.  Every one of them is an instance of
  \<open>ledgered\<close>.  Drops to the ground are in \<open>Ground\<close>.
\<close>

text \<open>What a handler sends: to the player, to everyone in the world, and what the people nearby hear.\<close>

record handled =
  own :: "server_msg list"
  fanned :: "server_msg list"
  heard :: "string list"

definition only :: "server_msg list \<Rightarrow> handled" where
  "only ms = \<lparr>own = ms, fanned = [], heard = []\<rparr>"

text \<open>The refusal of the first locked slot, if any.\<close>

fun first_locked :: "trade_manager \<Rightarrow> nat \<Rightarrow> (string \<times> nat) list \<Rightarrow> server_msg option" where
  "first_locked tm who [] = None"
| "first_locked tm who ((loc, slot) # ss) =
     (case trade_locked who loc slot tm of Some m \<Rightarrow> Some m | None \<Rightarrow> first_locked tm who ss)"

section \<open>Moving and splitting\<close>

record move_intent =
  m_src_loc :: string
  m_src_slot :: nat
  m_dst_loc :: string
  m_dst_slot :: nat

definition inner_deltas :: "nat \<Rightarrow> cell list \<Rightarrow> server_msg list" where
  "inner_deltas slot cells =
     concat (map (\<lambda>(i, cell). case cell of None \<Rightarrow> [] | Some e \<Rightarrow> [InventoryDelta (bag_loc slot) i (Some (item_path e)) (ecount e)])
       (enumerate 0 cells))"

definition correct_client_slots :: "player_inventory \<Rightarrow> move_intent \<Rightarrow> server_msg list" where
  "correct_client_slots iv m =
     concat (map (\<lambda>(loc, slot).
         slot_delta loc slot (peek_at loc slot iv)
         # (if loc = ''base'' then (case map_of (bags iv) (slot mod 256) of None \<Rightarrow> [] | Some cells \<Rightarrow> inner_deltas slot cells) else []))
       ((m_src_loc m, m_src_slot m)
        # (if m_src_loc m = m_dst_loc m \<and> m_src_slot m = m_dst_slot m then [] else [(m_dst_loc m, m_dst_slot m)])))"

definition move_item :: "env \<Rightarrow> trade_manager \<Rightarrow> nat \<Rightarrow> move_intent \<Rightarrow> connection \<Rightarrow> connection \<times> server_msg list" where
  "move_item E tm who m c =
     (case first_locked tm who [(m_src_loc m, m_src_slot m), (m_dst_loc m, m_dst_slot m)] of
        Some r \<Rightarrow> (c, [r])
      | None \<Rightarrow>
      case move_across (reg E) (m_src_loc m) (m_src_slot m) (m_dst_loc m) (m_dst_slot m) (inventory c) of
        Inl _ \<Rightarrow> (c, correct_client_slots (inventory c) m)
      | Inr (touched, iv) \<Rightarrow>
          if touched = [] then (c\<lparr>inventory := iv\<rparr>, correct_client_slots iv m)
          else (c\<lparr>inventory := iv, inventory_dirty := True\<rparr>, touched_deltas touched iv))"

record split_intent =
  sp_src_loc :: string
  sp_dst_loc :: string
  sp_src :: nat
  sp_dst :: nat
  sp_count :: nat

definition base_delta :: "player_inventory \<Rightarrow> nat \<Rightarrow> server_msg" where
  "base_delta iv i = slot_delta ''base'' i (cell_pair (vget (base iv) i))"

definition split_item :: "env \<Rightarrow> trade_manager \<Rightarrow> nat \<Rightarrow> split_intent \<Rightarrow> connection \<Rightarrow> connection \<times> server_msg list" where
  "split_item E tm who s c =
     (if sp_src_loc s \<noteq> ''base'' \<or> sp_dst_loc s \<noteq> ''base'' then (c, [SystemLine ''You can't split a stack there yet.''])
      else case first_locked tm who [(''base'', sp_src s), (''base'', sp_dst s)] of
        Some r \<Rightarrow> (c, [r])
      | None \<Rightarrow>
      case split_base (reg E) (sp_src s) (sp_dst s) (sp_count s) (inventory c) of
        Inl _ \<Rightarrow> (c, [SystemLine ''That stack won't split like that.''])
      | Inr (touched, iv) \<Rightarrow> (c\<lparr>inventory := iv, inventory_dirty := True\<rparr>, map (base_delta iv) touched))"

section \<open>Wearing and taking off\<close>

definition equipped_weapon_path :: "bool \<Rightarrow> connection \<Rightarrow> string" where
  "equipped_weapon_path is_offhand c =
     (case map_of (equipment (inventory c)) (if is_offhand then 1 else 0) of None \<Rightarrow> [] | Some e \<Rightarrow> item_path e)"

record equip_intent =
  eq_loc :: string
  eq_from :: nat
  eq_slot :: nat

text \<open>The contents of a touched slot; the worn map is read apart.\<close>

definition worn_delta :: "player_inventory \<Rightarrow> string \<times> nat \<Rightarrow> server_msg" where
  "worn_delta iv at =
     slot_delta (fst at) (snd at)
       (if fst at = ''equip'' then cell_pair (map_of (equipment iv) (snd at mod 256)) else peek_at (fst at) (snd at) iv)"

definition any_resource_max_changed :: "recompute_result \<Rightarrow> bool" where
  "any_resource_max_changed r = (max_hp_changed r \<or> max_mp_changed r \<or> max_stamina_changed r)"

text \<open>The gear changed: the bonuses follow, and a changed maximum is fanned to everyone.\<close>

definition regear :: "env \<Rightarrow> (string \<times> nat) list \<Rightarrow> connection \<times> body \<Rightarrow> handled \<times> connection \<times> body" where
  "regear E touched cb =
     (case recompute_equipped_stats (reg E) cb of
        (r, cb') \<Rightarrow>
          (\<lparr>own = map (worn_delta (inventory (fst cb'))) touched,
            fanned = (if any_resource_max_changed r then [ResourcesOf (nat (char_id (fst cb')))] else []), heard = []\<rparr>, cb'))"

definition equip_item :: "env \<Rightarrow> trade_manager \<Rightarrow> nat \<Rightarrow> equip_intent \<Rightarrow> connection \<times> body \<Rightarrow> handled \<times> connection \<times> body" where
  "equip_item E tm who q cb =
     (case cb of (c, b) \<Rightarrow>
      case trade_locked who (eq_loc q) (eq_from q) tm of
        Some r \<Rightarrow> (only [r], cb)
      | None \<Rightarrow>
      case (case peek_at (eq_loc q) (eq_from q) (inventory c) of
              None \<Rightarrow> None
            | Some (p, _) \<Rightarrow>
                equip_refusal (reg E) (cls c) (clevel b) p (eq_slot q)
                  (if eq_slot q = 0 then equipped_weapon_path True c else if eq_slot q = 1 then equipped_weapon_path False c else [])) of
        Some line \<Rightarrow> (only [SystemLine line], cb)
      | None \<Rightarrow>
      case equip_from_location (reg E) (eq_loc q) (eq_from q) (eq_slot q) (inventory c) of
        Inl _ \<Rightarrow> (only [SystemLine ''You can't equip that there.''], cb)
      | Inr (touched, iv) \<Rightarrow> regear E touched (c\<lparr>inventory := iv, inventory_dirty := True\<rparr>, b))"

record unequip_intent =
  uq_slot :: nat
  uq_loc :: string
  uq_to :: nat

definition unequip_item :: "env \<Rightarrow> trade_manager \<Rightarrow> nat \<Rightarrow> unequip_intent \<Rightarrow> connection \<times> body \<Rightarrow> handled \<times> connection \<times> body" where
  "unequip_item E tm who q cb =
     (case cb of (c, b) \<Rightarrow>
        if uq_loc q \<noteq> ''base'' \<and> uq_loc q \<noteq> ''cursor'' then (only [SystemLine ''There's nowhere to put that.''], cb)
        else case (if uq_loc q = ''base'' then trade_locked who ''base'' (uq_to q) tm else None) of
          Some r \<Rightarrow> (only [r], cb)
        | None \<Rightarrow>
        case (if uq_loc q = ''cursor'' then unequip_to_cursor (uq_slot q) (inventory c)
              else unequip_to_base (reg E) (uq_slot q) (uq_to q) (inventory c)) of
          Inl e \<Rightarrow> (only [SystemLine (if e = CursorOccupied then ''You're already holding something.'' else ''You can't take that off right now.'')], cb)
        | Inr (touched, iv) \<Rightarrow> regear E touched (c\<lparr>inventory := iv, inventory_dirty := True\<rparr>, b))"

section \<open>Destroying, eating and drinking, the give command\<close>

definition destroy_item :: "env \<Rightarrow> trade_manager \<Rightarrow> nat \<Rightarrow> string \<times> nat \<times> nat \<Rightarrow> connection \<Rightarrow> connection \<times> server_msg list" where
  "destroy_item E tm who q c =
     (case q of (loc, slot, n) \<Rightarrow>
      case trade_locked who loc slot tm of
        Some r \<Rightarrow> (c, [r])
      | None \<Rightarrow>
      case destroy_at (reg E) loc slot n (inventory c) of
        Inl _ \<Rightarrow> (c, [SystemLine ''You can't destroy that.''])
      | Inr ((p, k), iv) \<Rightarrow>
          (ledger (now E) (item_event Destroy p k (- int k) None) (c\<lparr>inventory := iv, inventory_dirty := True\<rparr>),
           [slot_delta loc slot (peek_at loc slot iv)]))"

definition EXPLODE_FOOD :: string where
  "EXPLODE_FOOD = ''You could not possibly eat any more, you would explode!''"

definition EXPLODE_DRINK :: string where
  "EXPLODE_DRINK = ''You could not possibly drink any more, you would explode!''"

definition eat_by_hand :: "need \<Rightarrow> item \<Rightarrow> handled \<times> connection \<times> body \<Rightarrow> handled \<times> connection \<times> body" where
  "eat_by_hand n i r =
     (case r of (h, c, b) \<Rightarrow>
        if item_matches n i \<and> pos32 (food_duration i) then
          (h\<lparr>own := own h @ [SystemLine (''You '' @ (case n of Food \<Rightarrow> ''eat'' | Drink \<Rightarrow> ''drink'') @ '' a '' @ name i @ ''.'')],
             heard := heard h @ [eat_emote (cname c) (name i) n]\<rparr>,
           c, feed n (f32_mul (food_duration i) HAND_EAT_FRACTION) b)
        else r)"

text \<open>A potion's points, then the meals; a change of either resource is fanned.\<close>

definition consume_effect :: "item \<Rightarrow> handled \<times> connection \<times> body \<Rightarrow> handled \<times> connection \<times> body" where
  "consume_effect i r =
     (case r of (h, c, b) \<Rightarrow>
        let hp' = (if pos32 (heal_on_use i) then f32_min (f32_add (hp c) (heal_on_use i)) (max_hp b) else hp c);
            mp' = (if pos32 (mp_on_use i) then f32_min (f32_add (mp b) (mp_on_use i)) (max_mp b) else mp b);
            me = nat (char_id c);
            h1 = h\<lparr>fanned := fanned h @ (if f32_neq hp' (hp c) then [HealthUpdate me hp' (max_hp b)] else [])
                              @ (if f32_neq mp' (mp b) then [ManaUpdate me mp' (max_mp b)] else [])\<rparr>
        in eat_by_hand Drink i (eat_by_hand Food i (h1, c\<lparr>hp := hp'\<rparr>, b\<lparr>mp := mp'\<rparr>)))"

text \<open>Why an item cannot be used, if so; it is asked before anything is taken.\<close>

definition use_refusal :: "item \<Rightarrow> body \<Rightarrow> string option" where
  "use_refusal i b =
     (if \<not> is_food i \<and> \<not> is_drink i \<and> \<not> (pos32 (heal_on_use i) \<or> pos32 (mp_on_use i)) then Some ''You can't use that.''
      else if is_food i \<and> is_full Food b then Some EXPLODE_FOOD
      else if is_drink i \<and> is_full Drink b then Some EXPLODE_DRINK
      else None)"

definition use_consumable :: "env \<Rightarrow> trade_manager \<Rightarrow> nat \<Rightarrow> string \<times> nat \<Rightarrow> connection \<times> body \<Rightarrow> handled \<times> connection \<times> body" where
  "use_consumable E tm who q cb =
     (case cb of (c, b) \<Rightarrow>
      case q of (loc, slot) \<Rightarrow>
      case trade_locked who loc slot tm of
        Some r \<Rightarrow> (only [r], cb)
      | None \<Rightarrow>
      case peek_at loc slot (inventory c) of
        None \<Rightarrow> (only [SystemLine ''There's nothing there to use.''], cb)
      | Some (p, _) \<Rightarrow>
      case lookup (reg E) p of
        None \<Rightarrow> (only [SystemLine ''You can't use that.''], cb)
      | Some i \<Rightarrow>
      case use_refusal i b of
        Some line \<Rightarrow> (only [SystemLine line], cb)
      | None \<Rightarrow>
      case decrement_at (reg E) loc slot (inventory c) of
        Inl _ \<Rightarrow> (only [SystemLine ''You can't use that right now.''], cb)
      | Inr (_, iv) \<Rightarrow>
          let row = item_event (if is_food i \<or> is_drink i then Eat else Use) (path i) 1 (-1) (Some ''by hand'');
              c1 = ledger (now E) row (c\<lparr>inventory := iv, inventory_dirty := True\<rparr>)
          in consume_effect i (only [slot_delta loc slot (peek_at loc slot iv)], c1, b))"

definition gm_give :: "env \<Rightarrow> string \<times> nat \<Rightarrow> connection \<Rightarrow> connection \<times> server_msg list" where
  "gm_give E q c =
     (case q of (what, qty) \<Rightarrow>
      case lookup_by_name (reg E) what of
        None \<Rightarrow> (c, [])
      | Some i \<Rightarrow>
      case add_item_locating (reg E) (path i) qty (inventory c) of
        Inl _ \<Rightarrow> (c, [])
      | Inr ((touched, leftover), iv) \<Rightarrow>
          let placed = qty - leftover; c0 = c\<lparr>inventory := iv\<rparr> in
          if placed = 0 then (c0, [])
          else (ledger (now E) (item_event GmGive (path i) placed (int placed) (Some ''gm'')) (c0\<lparr>inventory_dirty := True\<rparr>),
                touched_deltas touched iv))"

section \<open>The books\<close>

text \<open>Nothing that can be eaten, drunk or used is a bag.\<close>

definition edible :: "item \<Rightarrow> bool" where
  "edible i \<longleftrightarrow> is_food i \<or> is_drink i \<or> pos32 (heal_on_use i) \<or> pos32 (mp_on_use i)"

definition edible_no_bag :: "registry \<Rightarrow> bool" where
  "edible_no_bag R \<longleftrightarrow> list_all (\<lambda>i. edible i \<longrightarrow> item_type i \<noteq> Bag) R"

lemma edible_not_bag:
  assumes "edible_no_bag R" "lookup R p = Some i" "edible i"
  shows "\<not> is_bag_item R p"
  using assms lookup_path [OF assms(2)]
  by (auto simp: edible_no_bag_def list_all_iff is_bag_item_def bag_num_slots_def)

text \<open>An inventory that was only rearranged keeps the books.\<close>

lemma rearranged_balanced:
  assumes "conn_ok R c" "conserves R (inventory c) iv"
  shows "balanced R c (c\<lparr>inventory := iv, inventory_dirty := True\<rparr>)"
  using assms by (simp add: books raised_def conserves_def)

text \<open>So does a change of hit points, or none at all.\<close>

lemma hp_assign [simp]:
  "item_drift p (c\<lparr>hp := h\<rparr>) = item_drift p c" "coin_drift (c\<lparr>hp := h\<rparr>) = coin_drift c" "own_queue (c\<lparr>hp := h\<rparr>) = own_queue c"
  by (simp_all add: item_drift_def coin_drift_def conn_items_def conn_coin_def own_queue_def)

lemma hp_balanced: "balanced R c c1 \<Longrightarrow> balanced R c (c1\<lparr>hp := h\<rparr>)"
  by (simp add: books)

lemma same_inventory_balanced: "conn_ok R c \<Longrightarrow> balanced R c (c\<lparr>inventory := inventory c\<rparr>)"
  by (simp add: balanced_refl)

lemma taken_balanced:
  assumes ok: "conn_ok R c" and wf: "inv_wf R iv" and n: "\<And>q. inv_total q iv + units q p k = inv_total q (inventory c)"
  shows "balanced R c (ledger t (item_event a p k (- int k) d) (c\<lparr>inventory := iv, inventory_dirty := True\<rparr>))"
proof -
  have "int (inv_total q iv) = int (inv_total q (inventory c)) - (if q = p then int k else 0)" for q
    using n [of q] by (cases "q = p") (simp_all add: units_def)
  then show ?thesis using ok wf by (simp add: books)
qed

text \<open>A move that touches nothing changes nothing.\<close>

lemma push_keeps [simp]: "t \<noteq> [] \<Longrightarrow> push_inner_union k pre iv t \<noteq> []"
  by (simp add: push_inner_union_def Let_def)

lemma move_base_quiet: "move_base R a b iv = Inr ([], iv') \<Longrightarrow> iv' = iv"
  by (cases "BASE_SLOT_COUNT \<le> a \<or> BASE_SLOT_COUNT \<le> b"; cases "a = b"; cases "base iv ! a") (simp_all add: move_base_def Let_def)

lemma moves_touch:
  "move_base_to_cursor R a iv \<noteq> Inr ([], iv')" "move_cursor_to_base R b iv \<noteq> Inr ([], iv')"
proof -
  show "move_base_to_cursor R a iv \<noteq> Inr ([], iv')"
    by (cases "BASE_SLOT_COUNT \<le> a"; cases "base iv ! a") (simp_all add: move_base_to_cursor_def Let_def)
  show "move_cursor_to_base R b iv \<noteq> Inr ([], iv')"
    by (cases "BASE_SLOT_COUNT \<le> b"; cases "cursor iv") (simp_all add: move_cursor_to_base_def Let_def)
qed

lemma inner_moves_touch:
  "move_bag_to_cursor R k a iv \<noteq> Inr ([], iv')" "move_cursor_to_bag R k b iv \<noteq> Inr ([], iv')"
  "move_base_to_bag R a k b iv \<noteq> Inr ([], iv')" "move_bag_to_base R k a b iv \<noteq> Inr ([], iv')"
  "k \<noteq> l \<Longrightarrow> move_bag_to_bag R k a l b iv \<noteq> Inr ([], iv')"
  by (auto simp: move_bag_to_cursor_def move_cursor_to_bag_def move_base_to_bag_def move_bag_to_base_def move_bag_to_bag_def Let_def
      split: if_splits option.splits prod.splits)

lemma move_bag_quiet: "move_bag R k a b iv = Inr ([], iv') \<Longrightarrow> iv' = iv"
  by (auto simp: move_bag_def split: if_splits option.splits prod.splits)

lemma move_across_quiet:
  assumes "move_across R sl ss dl ds iv = Inr ([], iv')"
  shows "iv' = iv"
proof -
  obtain src dst where "move_refs R src dst iv = Inr ([], iv')"
    using assms by (auto simp: move_across_def split: sum.splits)
  then show ?thesis
    by (cases src; cases dst)
       (auto simp: move_refs_def moves_touch inner_moves_touch dest: move_base_quiet move_bag_quiet split: if_splits)
qed

lemma move_item_balanced:
  assumes ok: "conn_ok (reg E) c" and reg: "reg_ok (reg E)"
  shows "balanced (reg E) c (fst (move_item E tm who m c))"
proof (cases "move_across (reg E) (m_src_loc m) (m_src_slot m) (m_dst_loc m) (m_dst_slot m) (inventory c)")
  case (Inr r)
  obtain touched iv where r: "r = (touched, iv)" by (cases r)
  have cons: "conserves (reg E) (inventory c) iv" using move_across_conserves [OF reg conn_okD(1) [OF ok]] Inr r by blast
  have "iv = inventory c" if "touched = []" using move_across_quiet Inr r that by blast
  then show ?thesis
    using rearranged_balanced [OF ok cons] ok Inr r by (auto simp: move_item_def balanced_refl split: option.splits)
qed (use ok in \<open>simp add: move_item_def balanced_refl split: option.splits\<close>)

lemma split_item_balanced:
  assumes ok: "conn_ok (reg E) c" and reg: "reg_ok (reg E)" and loose: "\<not> spills (sp_src s) (sp_count s) (inventory c)"
    and small: "stacks_fit (sp_src s) (sp_dst s) (inventory c)"
  shows "balanced (reg E) c (fst (split_item E tm who s c))"
  using ok rearranged_balanced [OF ok split_base_conserves [OF reg conn_okD(1) [OF ok] _ loose small]]
  by (auto simp: split_item_def balanced_refl split: option.splits sum.splits)

lemma recompute_conn: "\<exists>h. fst (snd (recompute_equipped_stats R (c, b))) = c\<lparr>hp := h\<rparr>"
  by (auto simp: recompute_equipped_stats_def Let_def)

lemma regear_balanced:
  assumes "balanced R c c1"
  shows "balanced R c (fst (snd (regear E touched (c1, b))))"
proof -
  obtain h where h: "fst (snd (recompute_equipped_stats (reg E) (c1, b))) = c1\<lparr>hp := h\<rparr>" using recompute_conn by blast
  show ?thesis using hp_balanced [OF assms, of h] h by (auto simp: regear_def split: prod.splits)
qed

lemma equip_item_balanced:
  assumes ok: "conn_ok (reg E) c"
  shows "balanced (reg E) c (fst (snd (equip_item E tm who q (c, b))))"
proof -
  have "balanced (reg E) c (fst (snd (regear E touched (c\<lparr>inventory := iv, inventory_dirty := True\<rparr>, b))))"
    if "equip_from_location (reg E) (eq_loc q) (eq_from q) (eq_slot q) (inventory c) = Inr (touched, iv)" for touched iv
    using equip_from_location_effect(1) [OF conn_okD(1) [OF ok] that] rearranged_balanced [OF ok] regear_balanced by blast
  then show ?thesis using ok by (simp add: equip_item_def balanced_refl split: option.splits sum.splits)
qed

lemma unequip_item_balanced:
  assumes ok: "conn_ok (reg E) c"
  shows "balanced (reg E) c (fst (snd (unequip_item E tm who q (c, b))))"
proof -
  have "balanced (reg E) c (fst (snd (regear E touched (c\<lparr>inventory := iv, inventory_dirty := True\<rparr>, b))))"
    if "(if uq_loc q = ''cursor'' then unequip_to_cursor (uq_slot q) (inventory c)
         else unequip_to_base (reg E) (uq_slot q) (uq_to q) (inventory c)) = Inr (touched, iv)" for touched iv
  proof -
    have "conserves (reg E) (inventory c) iv"
      using that unequip_to_cursor_conserves unequip_to_base_conserves conn_okD(1) [OF ok] by (auto split: if_splits)
    then show ?thesis using rearranged_balanced [OF ok] regear_balanced by blast
  qed
  then show ?thesis using ok by (simp add: unequip_item_def balanced_refl split: option.splits sum.splits)
qed

lemma destroy_item_balanced:
  assumes ok: "conn_ok (reg E) c"
  shows "balanced (reg E) c (fst (destroy_item E tm who q c))"
proof -
  obtain loc slot n where q: "q = (loc, slot, n)" by (cases q)
  show ?thesis
  proof (cases "destroy_at (reg E) loc slot n (inventory c)")
    case (Inr r)
    obtain p k iv where r: "r = ((p, k), iv)" by (metis prod.collapse)
    note eff = destroy_at_effect [OF conn_okD(1) [OF ok] Inr [unfolded r]]
    have "balanced (reg E) c (ledger (now E) (item_event Destroy p k (- int k) None) (c\<lparr>inventory := iv, inventory_dirty := True\<rparr>))"
      by (rule taken_balanced [OF ok]) (use eff in blast)+
    then show ?thesis using ok by (simp add: destroy_item_def q Inr r balanced_refl split: option.splits)
  qed (use ok in \<open>simp add: destroy_item_def q balanced_refl split: option.splits\<close>)
qed

text \<open>A unit eaten, drunk or used is a unit on the books.\<close>

lemma unit_taken_balanced:
  assumes ok: "conn_ok R c" and fed: "edible_no_bag R" and i: "lookup R p = Some i" "edible i"
    and at: "peek_at loc slot (inventory c) = Some (p, n)" and dec: "decrement_at R loc slot (inventory c) = Inr (r, iv)"
  shows "balanced R c (ledger t (item_event a (path i) 1 (-1) d) (c\<lparr>inventory := iv, inventory_dirty := True\<rparr>))"
proof -
  have wf: "inv_wf R (inventory c)" using ok by (rule conn_okD)
  have "r = p"
  proof (rule ccontr)
    assume "r \<noteq> p"
    then show False using dec at
      by (auto simp: decrement_at_def peek_at_def source_entry_cell [symmetric] cell_pair_def split: sum.splits option.splits)
  qed
  moreover note eff = decrement_at_effect [OF wf dec]
  ultimately have "inv_wf R iv \<and> inv_total q iv + units q p 1 = inv_total q (inventory c)" for q
    using edible_not_bag [OF fed i] by blast
  then have "balanced R c (ledger t (item_event a p 1 (- int 1) d) (c\<lparr>inventory := iv, inventory_dirty := True\<rparr>))"
    using taken_balanced [OF ok] by blast
  then show ?thesis using lookup_path [OF i(1)] by simp
qed

lemma eat_by_hand_conn [simp]: "fst (snd (eat_by_hand n i r)) = fst (snd r)"
  by (simp add: eat_by_hand_def split: prod.splits)

lemma consume_effect_conn: "\<exists>h. fst (snd (consume_effect i (x, c, b))) = c\<lparr>hp := h\<rparr>"
  by (simp add: consume_effect_def Let_def split del: if_split) blast

lemma use_refusal_None: "use_refusal i b = None \<Longrightarrow> edible i"
  by (auto simp: use_refusal_def edible_def split: if_splits)

lemma use_consumable_balanced:
  assumes ok: "conn_ok (reg E) c" and fed: "edible_no_bag (reg E)"
  shows "balanced (reg E) c (fst (snd (use_consumable E tm who q (c, b))))"
proof (cases "fst (snd (use_consumable E tm who q (c, b))) = c")
  case False
  obtain loc slot where q: "q = (loc, slot)" by (cases q)
  obtain p n i r iv where at: "peek_at loc slot (inventory c) = Some (p, n)" "lookup (reg E) p = Some i" "use_refusal i b = None"
      "decrement_at (reg E) loc slot (inventory c) = Inr (r, iv)"
    using False by (auto simp: use_consumable_def q split: option.splits sum.splits prod.splits)
  define c1 where "c1 = ledger (now E) (item_event (if is_food i \<or> is_drink i then Eat else Use) (path i) 1 (-1) (Some ''by hand''))
      (c\<lparr>inventory := iv, inventory_dirty := True\<rparr>)"
  have "balanced (reg E) c c1"
    unfolding c1_def by (rule unit_taken_balanced [OF ok fed at(2) use_refusal_None [OF at(3)] at(1,4)])
  moreover obtain h where "fst (snd (use_consumable E tm who q (c, b))) = c1\<lparr>hp := h\<rparr>"
    using False at consume_effect_conn [of i _ c1 b] by (auto simp: use_consumable_def q c1_def Let_def split: option.splits)
  ultimately show ?thesis using hp_balanced by simp
qed (use ok in \<open>simp add: balanced_refl\<close>)

lemma gm_give_balanced:
  assumes ok: "conn_ok (reg E) c" and reg: "reg_ok (reg E)"
  shows "balanced (reg E) c (fst (gm_give E q c))"
proof (cases "fst (gm_give E q c) = c")
  case False
  obtain what qty where q: "q = (what, qty)" by (cases q)
  obtain i t l iv where add: "add_item_locating (reg E) (path i) qty (inventory c) = Inr ((t, l), iv)"
      "lookup_by_name (reg E) what = Some i"
    using False by (auto simp: gm_give_def q split: option.splits sum.splits prod.splits)
  note eff = add_item_locating_Inr [OF reg conn_okD(1) [OF ok] add(1)]
  show ?thesis
  proof (cases "qty - l = 0")
    case True
    then have "iv = inventory c" using add_item_locating_none [OF reg] add(1) eff by (metis diff_is_0_eq le_antisym)
    then show ?thesis using ok add True by (simp add: gm_give_def q balanced_refl)
  next
    case False
    have items: "inv_total r iv = inv_total r (inventory c) + (if r = path i then qty - l else 0)" for r
      using eff by (simp add: units_def)
    have "inv_wf (reg E) iv" using eff by blast
    then show ?thesis using ok False add items by (simp add: gm_give_def q Let_def books)
  qed
qed (use ok in \<open>simp add: balanced_refl\<close>)

text \<open>Eating on its own, and the whole turn of one connection in the regeneration pass.\<close>

lemma first_match_at:
  "first_match R n skip loc k cells = Some (l, slot, i) \<Longrightarrow>
     l = loc \<and> k \<le> slot \<and> slot - k < length cells \<and> item_matches n i \<and> \<not> skip loc slot
     \<and> (\<exists>e. cells ! (slot - k) = Some e \<and> lookup R (item_path e) = Some i)"
proof (induction cells arbitrary: k)
  case (Cons cell cells)
  show ?case
  proof (cases "slot = k")
    case True
    then show ?thesis using Cons by (auto split: option.splits if_splits) (use Cons.IH [of "Suc k"] in fastforce)+
  next
    case False
    then have "first_match R n skip loc (Suc k) cells = Some (l, slot, i)" using Cons.prems by (auto split: option.splits if_splits)
    from Cons.IH [OF this] show ?thesis by (auto simp: Suc_diff_le nth_Cons')
  qed
qed simp

lemma first_in_bags_at:
  "first_in_bags R n skip iv ks = Some (l, slot, i) \<Longrightarrow>
     \<exists>k cells e. k \<in> set ks \<and> map_of (bags iv) k = Some cells \<and> l = bag_loc k \<and> slot < length cells
       \<and> cells ! slot = Some e \<and> lookup R (item_path e) = Some i \<and> item_matches n i \<and> \<not> skip l slot"
  by (induction ks) (auto split: option.splits dest!: first_match_at)

text \<open>What is eaten is where the search says, is food (or drink) and is not offered in a trade.\<close>

lemma first_in_slot_order_at:
  assumes wf: "inv_wf R iv" and hit: "first_in_slot_order R iv n skip = Some (loc, slot, i)"
  shows "\<exists>m. peek_at loc slot iv = Some (path i, m)" "lookup R (path i) = Some i" "item_matches n i" "\<not> skip loc slot"
proof -
  have "(\<exists>e::inventory_entry. peek_at loc slot iv = Some (item_path e, ecount e) \<and> lookup R (item_path e) = Some i) \<and> item_matches n i \<and> \<not> skip loc slot"
  proof (cases "first_match R n skip ''base'' 0 (base iv)")
    case None
    then have "first_in_bags R n skip iv (sort (filter (\<lambda>k. k \<noteq> CURSOR_BAG_KEY) (map fst (bags iv)))) = Some (loc, slot, i)"
      using hit by (simp add: first_in_slot_order_def)
    from first_in_bags_at [OF this] obtain k cells e where k: "map_of (bags iv) k = Some cells" "loc = bag_loc k"
        "slot < length cells" "cells ! slot = Some e" "lookup R (item_path e) = Some i" "item_matches n i" "\<not> skip loc slot"
      by blast
    have "k < BASE_SLOT_COUNT \<or> k = CURSOR_BAG_KEY"
      using wf map_of_SomeD [OF k(1)] by (auto simp: inv_wf_but_def bags_wf_def list_all_iff)
    then show ?thesis using k by (intro conjI exI [of _ e]) (simp_all add: peek_at_def parse_slot_ref_def cell_at_def cell_pair_def)
  next
    case (Some r)
    then have "first_match R n skip ''base'' 0 (base iv) = Some (loc, slot, i)" using hit by (simp add: first_in_slot_order_def)
    from first_match_at [OF this] inv_wf_length [OF wf] show ?thesis
      by (auto simp: peek_at_def parse_slot_ref_def cell_at_def cell_pair_def)
  qed
  then show "\<exists>m. peek_at loc slot iv = Some (path i, m)" "lookup R (path i) = Some i" "item_matches n i" "\<not> skip loc slot"
    using lookup_path by auto
qed

lemma auto_eat_balanced:
  assumes ok: "conn_ok (reg E) c" and fed: "edible_no_bag (reg E)"
  shows "balanced (reg E) c (fst (snd (snd (snd (auto_eat E tm who n (c, b))))))"
proof (cases "fst (snd (snd (snd (auto_eat E tm who n (c, b))))) = c")
  case False
  then obtain loc slot i r iv where at: "first_in_slot_order (reg E) (inventory c) n (\<lambda>l s. is_locked who l s tm) = Some (loc, slot, i)"
      "decrement_at (reg E) loc slot (inventory c) = Inr (r, iv)"
      "fst (snd (snd (snd (auto_eat E tm who n (c, b)))))
        = ledger (now E) (item_event Eat (path i) 1 (-1) (Some ''hunger'')) (c\<lparr>inventory := iv, inventory_dirty := True\<rparr>)"
    by (auto simp: auto_eat_def Let_def split: option.splits sum.splits prod.splits if_splits)
  note hit = first_in_slot_order_at [OF conn_okD(1) [OF ok] at(1)]
  obtain m where peek: "peek_at loc slot (inventory c) = Some (path i, m)" using hit(1) by blast
  have "edible i" using hit(3) by (cases n) (simp_all add: edible_def item_matches_def)
  from unit_taken_balanced [OF ok fed hit(2) this peek at(2)] show ?thesis by (simp add: at(3))
qed (use ok in \<open>simp add: balanced_refl\<close>)

lemma appetite_balanced:
  assumes ok: "conn_ok (reg E) c" and fed: "edible_no_bag (reg E)"
  shows "balanced (reg E) c (fst (snd (snd (appetite E tm who dt (c, b)))))"
proof -
  have food: "balanced (reg E) c c1" if "auto_eat E tm who Food (c, b1) = (a, m, e, c1, b2)" for b1 a m e c1 b2
    using auto_eat_balanced [OF ok fed, of tm who Food b1] that by simp
  have "balanced (reg E) c c2" if "auto_eat E tm who Food (c, b1) = (a, m, e, c1, b2)" "auto_eat E tm who Drink (c1, b3) = (a', m', e', c2, b4)"
    for b1 a m e c1 b2 b3 a' m' e' c2 b4
  proof -
    note one = food [OF that(1)]
    then have "balanced (reg E) c1 c2" using auto_eat_balanced [of E c1 tm who Drink b3] fed that(2) by (simp add: balanced_def)
    then show ?thesis by (rule balanced_trans [OF one])
  qed
  then show ?thesis using ok by (auto simp: appetite_def Let_def balanced_refl split: prod.splits if_splits)
qed

lemma regen_conn: "\<exists>h. fst (snd (regen_tick_one R dt t (c, b))) = c\<lparr>hp := h\<rparr>"
  by (auto simp: regen_tick_one_def regen_resources_def regen_fanout_def Let_def split: prod.splits)

lemma meditate_conn [simp]: "fst (snd (meditate_step t roll cb)) = fst cb"
  by (auto simp: meditate_step_def split: prod.splits option.splits)

lemma regen_turn_balanced:
  assumes ok: "conn_ok (reg E) c" and fed: "edible_no_bag (reg E)"
  shows "balanced (reg E) c (fst (snd (regen_turn E tm who dt t roll (c, b))))"
proof -
  obtain m e c1 b1 where ap: "appetite E tm who dt (c, b) = (m, e, c1, b1)" by (metis prod.collapse)
  have one: "balanced (reg E) c c1" using appetite_balanced [OF ok fed, of tm who dt b] ap by simp
  have sent: "fst (mark_sent t (c1, b1)) = c1" by (simp add: mark_sent_def on_body_def)
  have "\<exists>h. fst (snd (regen_turn E tm who dt t roll (c, b))) = c1\<lparr>hp := h\<rparr>"
    using sent regen_conn [of "reg E" dt t c1] by (simp add: regen_turn_def ap Let_def split: prod.splits) (metis fst_conv meditate_conn prod.collapse snd_conv)
  then show ?thesis using hp_balanced [OF one] by auto
qed

section \<open>The handlers as ledgered steps\<close>

datatype inv_intent =
    Moves move_intent
  | Splits split_intent
  | Equips equip_intent
  | Unequips unequip_intent
  | Destroys "string \<times> nat \<times> nat"
  | Consumes "string \<times> nat"
  | Given "string \<times> nat"
  | Regens f32 instant f32

fun inv_step :: "env \<Rightarrow> trade_manager \<Rightarrow> nat \<Rightarrow> inv_intent \<times> body \<Rightarrow> connection \<Rightarrow> connection" where
  "inv_step E tm who (Moves m, b) c = fst (move_item E tm who m c)"
| "inv_step E tm who (Splits s, b) c = fst (split_item E tm who s c)"
| "inv_step E tm who (Equips q, b) c = fst (snd (equip_item E tm who q (c, b)))"
| "inv_step E tm who (Unequips q, b) c = fst (snd (unequip_item E tm who q (c, b)))"
| "inv_step E tm who (Destroys q, b) c = fst (destroy_item E tm who q c)"
| "inv_step E tm who (Consumes q, b) c = fst (snd (use_consumable E tm who q (c, b)))"
| "inv_step E tm who (Given q, b) c = fst (gm_give E q c)"
| "inv_step E tm who (Regens dt t roll, b) c = fst (snd (regen_turn E tm who dt t roll (c, b)))"

text \<open>The contract holds of every handler but one: a split that takes a whole filled bag (what it
  drops is \<open>spilt\<close>).\<close>

fun inv_safe :: "env \<Rightarrow> inv_intent \<times> body \<Rightarrow> connection \<Rightarrow> bool" where
  "inv_safe E (Splits s, b) c = (reg_ok (reg E) \<and> \<not> spills (sp_src s) (sp_count s) (inventory c)
     \<and> stacks_fit (sp_src s) (sp_dst s) (inventory c))"
| "inv_safe E i c = (reg_ok (reg E) \<and> edible_no_bag (reg E))"

lemma inv_step_balanced:
  assumes "conn_ok (reg E) c" "inv_safe E i c"
  shows "balanced (reg E) c (inv_step E tm who i c)"
proof (cases i)
  case (Pair j b)
  then show ?thesis
    using assms move_item_balanced split_item_balanced equip_item_balanced unequip_item_balanced destroy_item_balanced
      use_consumable_balanced gm_give_balanced regen_turn_balanced by (cases j) auto
qed

interpretation bags: ledgered "inv_step E tm who" "reg E" "inv_safe E" for E tm who
  by unfold_locales (simp add: inv_step_balanced)

end
