(* ===== verification/World.thy ===== *)
theory World
  imports Banking Persist
begin

text \<open>
  The part of \<open>WorldState\<close> the handlers that touch two players share: the connections by client id (which is
  the character id), the trade and group managers and the database.  A handler returns the world and
  the messages it sends, each with its recipient, in order.
\<close>

section \<open>Entity ids\<close>

definition ENEMY_ID_BASE :: nat where "ENEMY_ID_BASE = 1000000000"

definition LOOT_BAG_ID_BASE :: nat where "LOOT_BAG_ID_BASE = 2000000000"

definition PET_ID_BASE :: nat where "PET_ID_BASE = 3000000000"

datatype id_kind = PlayerId | EnemyId | BagId | PetId

definition id_kind_of :: "nat \<Rightarrow> id_kind" where
  "id_kind_of i =
     (if i < ENEMY_ID_BASE then PlayerId else if i < LOOT_BAG_ID_BASE then EnemyId
      else if i < PET_ID_BASE then BagId else PetId)"

section \<open>The world\<close>

type_synonym outbox = "(nat \<times> server_msg) list"

record world =
  conns :: "(nat \<times> connection) list"
  trades :: trade_manager
  parties :: group_manager
  store :: store_db

definition conn_of :: "nat \<Rightarrow> world \<Rightarrow> connection option" where
  "conn_of k w = map_of (conns w) k"

definition put_conn :: "nat \<Rightarrow> connection \<Rightarrow> world \<Rightarrow> world" where
  "put_conn k c w = w\<lparr>conns := AList.update k c (conns w)\<rparr>"

text \<open>The messages of one connection, addressed.\<close>

definition to :: "nat \<Rightarrow> server_msg list \<Rightarrow> outbox" where
  "to k ms = map (Pair k) ms"

definition refuse :: "nat \<Rightarrow> string \<Rightarrow> outbox" where
  "refuse k line = [(k, SystemLine line)]"

text \<open>In the world and not dead; NaN hit points are not above zero.\<close>

definition alive :: "connection \<Rightarrow> bool" where
  "alive c \<longleftrightarrow> in_world c \<and> \<not> death_processed c \<and> f32_lt 0 (hp c)"

text \<open>The text of an inventory error, as \<open>thiserror\<close> prints it.\<close>

fun move_error_text :: "move_error \<Rightarrow> string" where
  "move_error_text BagInHand = ''that bag is in your hand''"
| "move_error_text BagInsideBag = ''cannot place a bag inside a bag''"
| "move_error_text BagIntoBagSlot = ''cannot swap a bag into another bag's inner slot''"
| "move_error_text BagNotEmpty = ''bag must be emptied first''"
| "move_error_text BagNotEmptyToDestroy = ''bag must be emptied before destroying''"
| "move_error_text BagSlotOutOfRange = ''bag slot out of range''"
| "move_error_text BagsFull = ''your bags are full''"
| "move_error_text BaseItemNotEquippableHere = ''base item not equippable in this slot''"
| "move_error_text BaseSlotOutOfRange = ''base slot out of range''"
| "move_error_text CursorOccupied = ''cursor occupied''"
| "move_error_text DestinationBagSlotOutOfRange = ''destination bag slot out of range''"
| "move_error_text DifferentItem = ''dst holds a different item''"
| "move_error_text EmptyItemPath = ''empty item_path''"
| "move_error_text EquipSlotEmpty = ''equip slot empty''"
| "move_error_text EquipSlotOutOfRange = ''equip slot out of range''"
| "move_error_text InventoryFull = ''inventory full''"
| "move_error_text NoBagAtSlot = ''bag does not exist at base index''"
| "move_error_text NoDestinationBag = ''destination bag does not exist''"
| "move_error_text NoSourceBag = ''source bag does not exist''"
| "move_error_text NotEquippableHere = ''item not equippable in this slot''"
| "move_error_text SameSlot = ''src == dst''"
| "move_error_text SlotOutOfRange = ''slot out of range''"
| "move_error_text SourceBagSlotOutOfRange = ''source bag slot out of range''"
| "move_error_text SourceEmpty = ''source slot empty''"
| "move_error_text StackSizeExceeded = ''destination stack would exceed the item's stack size''"
| "move_error_text TooFewToSplit = ''source has fewer items than split count''"
| "move_error_text UnsupportedLocation = ''unsupported location''"
| "move_error_text ZeroCount = ''zero count''"

end
