(* ===== verification/Trading.thy ===== *)
theory Trading
  imports World GroupState
begin

text \<open>
  \<open>tick/trading.rs\<close>: the trade window, from the request to the commit that moves both sides' stacks and
  coins in one database transaction, and the sweep that closes sessions.  The database's answers (the flush of either
  side, the commit) are arguments.
\<close>

definition TRADE_RANGE :: f32 where "TRADE_RANGE = 0x41200000"

section \<open>The window\<close>

definition trade_side_payload :: "trade_side \<Rightarrow> (string \<times> nat) list \<times> coins" where
  "trade_side_payload s =
     (map (\<lambda>x. case x of None \<Rightarrow> ([], 0) | Some off \<Rightarrow> (offer_path off, offer_count off)) (offers s), side_coins s)"

definition fan_trade_state :: "trade_session \<Rightarrow> outbox" where
  "fan_trade_state s =
     concat (map (\<lambda>(me, them).
       [(cid me, TradeOfferUpdate True (fst (trade_side_payload me)) (snd (trade_side_payload me))),
        (cid me, TradeOfferUpdate False (fst (trade_side_payload them)) (snd (trade_side_payload them))),
        (cid me, TradeAcceptState (accepted me) (accepted them))])
       [(side_a s, side_b s), (side_b s, side_a s)])"

definition fan_session_of :: "nat \<Rightarrow> trade_manager \<Rightarrow> outbox" where
  "fan_session_of c tm = (case session_of c tm of None \<Rightarrow> [] | Some s \<Rightarrow> fan_trade_state s)"

definition close_trade :: "nat \<Rightarrow> string \<Rightarrow> world \<Rightarrow> world \<times> outbox" where
  "close_trade c reason w =
     (case trade_close c (trades w) of
        (None, tm) \<Rightarrow> (w\<lparr>trades := tm\<rparr>, [])
      | (Some s, tm) \<Rightarrow> (w\<lparr>trades := tm\<rparr>, [(cid (side_a s), TradeClosed False reason), (cid (side_b s), TradeClosed False reason)]))"

definition in_trade_range :: "connection \<Rightarrow> connection \<Rightarrow> bool" where
  "in_trade_range a b \<longleftrightarrow> f32_le (distance_to (pos a) (pos b)) TRADE_RANGE"

section \<open>Requests and offers\<close>

definition trade_request :: "nat \<Rightarrow> nat \<Rightarrow> world \<Rightarrow> world \<times> outbox" where
  "trade_request requester target w =
     (if id_kind_of target \<noteq> PlayerId then (w, refuse requester ''You can only trade with players.'')
      else
        let in_reach = (case conn_of target w of
                          None \<Rightarrow> None
                        | Some t \<Rightarrow> if alive t
                                    then (case conn_of requester w of
                                            None \<Rightarrow> None
                                          | Some r \<Rightarrow> if in_trade_range r t then Some (cname t) else None)
                                    else None)
        in case in_reach of
             None \<Rightarrow> (w, refuse requester ''There is no one here to trade with.'')
           | Some tname \<Rightarrow>
               let rname = (case conn_of requester w of None \<Rightarrow> [] | Some r \<Rightarrow> cname r)
               in case trade_open requester target (trades w) of
                    Inr tm \<Rightarrow> (w\<lparr>trades := tm\<rparr>, [(requester, TradeOpened target tname), (target, TradeOpened requester rname)])
                  | Inl e \<Rightarrow> (w, refuse requester (trade_error_text e)))"

text \<open>Where an offered stack is afterwards: a held stack is parked first, and that is the address offered.  The
  error branch is the refusal to send, if any.\<close>

definition offer_source :: "registry \<Rightarrow> nat \<Rightarrow> string \<Rightarrow> nat \<Rightarrow> world \<Rightarrow> outbox + ((string \<times> nat) \<times> world \<times> outbox)" where
  "offer_source R who loc slot w =
     (if loc = ''cursor'' then
        (case conn_of who w of
           None \<Rightarrow> Inl []
         | Some c \<Rightarrow>
             (case park_cursor_stack R (inventory c) of
                Inl e \<Rightarrow> Inl (refuse who (move_error_text e))
              | Inr ((at, touched), iv) \<Rightarrow>
                  Inr (at, put_conn who (c\<lparr>inventory := iv, inventory_dirty := True\<rparr>) w, to who (touched_deltas touched iv))))
      else Inr ((loc, slot), w, []))"

definition trade_offer_item :: "registry \<Rightarrow> nat \<Rightarrow> nat \<Rightarrow> string \<Rightarrow> nat \<Rightarrow> world \<Rightarrow> world \<times> outbox" where
  "trade_offer_item R who window_slot from_loc from_slot w =
     (if session_of who (trades w) = None then (w, refuse who ''You are not trading.'')
      else if from_loc = bag_loc CURSOR_BAG_KEY then (w, [])
      else if (case conn_of who w of
                 None \<Rightarrow> False
               | Some c \<Rightarrow> (case peek_at from_loc from_slot (inventory c) of None \<Rightarrow> False | Some (p, _) \<Rightarrow> is_no_drop R p))
      then (w, refuse who NO_DROP_REFUSAL)
      else case offer_source R who from_loc from_slot w of
        Inl out \<Rightarrow> (w, out)
      | Inr ((loc, slot), w1, parked) \<Rightarrow>
          (case (case conn_of who w1 of None \<Rightarrow> None | Some c \<Rightarrow> peek_at loc slot (inventory c)) of
             None \<Rightarrow> (w1, parked @ refuse who ''There's nothing in that slot to offer.'')
           | Some (p, n) \<Rightarrow>
               if bag_num_slots R p \<noteq> None \<and> loc = ''base''
                  \<and> (case conn_of who w1 of None \<Rightarrow> False | Some c \<Rightarrow> bag_key_is_nonempty (slot mod 256) (inventory c))
               then (w1, parked @ refuse who ''Empty the bag before trading it.'')
               else case offer_item who window_slot
                      \<lparr>location = loc, oslot = slot, offer_path = p, offer_count = n\<rparr> (trades w1) of
                 Inr tm \<Rightarrow> (w1\<lparr>trades := tm\<rparr>, parked @ fan_session_of who tm)
               | Inl e \<Rightarrow> (w1, parked @ refuse who (trade_error_text e))))"

definition trade_retrieve_item :: "nat \<Rightarrow> nat \<Rightarrow> world \<Rightarrow> world \<times> outbox" where
  "trade_retrieve_item who window_slot w =
     (case retrieve_item who window_slot (trades w) of
        Inr tm \<Rightarrow> (w\<lparr>trades := tm\<rparr>, fan_session_of who tm)
      | Inl e \<Rightarrow> (w, refuse who (trade_error_text e)))"

text \<open>Whether a wallet covers an offer in every tier; \<open>has_at_least\<close> is the same comparison.\<close>

definition coins_covered :: "nat \<Rightarrow> coins \<Rightarrow> world \<Rightarrow> bool" where
  "coins_covered who offered w =
     (case conn_of who w of
        None \<Rightarrow> False
      | Some c \<Rightarrow> platinum offered \<le> platinum (coins c) \<and> gold offered \<le> gold (coins c)
          \<and> silver offered \<le> silver (coins c) \<and> copper offered \<le> copper (coins c))"

definition trade_offer_coins :: "nat \<Rightarrow> coin_amount \<Rightarrow> world \<Rightarrow> world \<times> outbox" where
  "trade_offer_coins who amount w =
     (if \<not> coins_covered who (coin_amount_get amount) w
      then (w, refuse who ''You don't have that much coin.'' @ fan_session_of who (trades w))
      else case offer_coins who amount (trades w) of
        Inr tm \<Rightarrow> (w\<lparr>trades := tm\<rparr>, fan_session_of who tm)
      | Inl e \<Rightarrow> (w, refuse who (trade_error_text e)))"

definition trade_cancel :: "nat \<Rightarrow> world \<Rightarrow> world \<times> outbox" where
  "trade_cancel who w = close_trade who ''Trade cancelled.'' w"

section \<open>The commit: what is checked again\<close>

text \<open>One give: the address, and the item and count that were resolved from it.\<close>

type_synonym give = "string \<times> nat \<times> string \<times> nat"

definition still_together :: "nat \<Rightarrow> nat \<Rightarrow> world \<Rightarrow> bool" where
  "still_together a b w =
     (case (conn_of a w, conn_of b w) of
        (Some ca, Some cb) \<Rightarrow> alive ca \<and> alive cb \<and> in_trade_range ca cb
      | _ \<Rightarrow> False)"

definition offer_unchanged :: "offer \<Rightarrow> player_inventory \<Rightarrow> bool" where
  "offer_unchanged x iv \<longleftrightarrow> peek_at (location x) (oslot x) iv = Some (offer_path x, offer_count x)
     \<and> (location x \<noteq> ''base'' \<or> \<not> bag_key_is_nonempty (oslot x mod 256) iv)"

definition changed_slots :: "nat \<Rightarrow> trade_side \<Rightarrow> world \<Rightarrow> nat list" where
  "changed_slots who side w =
     (case conn_of who w of
        None \<Rightarrow> [0..<TRADE_SLOTS]
      | Some c \<Rightarrow> filter (\<lambda>i. case offers side ! i of None \<Rightarrow> False | Some x \<Rightarrow> \<not> offer_unchanged x (inventory c))
                   [0..<length (offers side)])"

definition drop_offers :: "nat \<Rightarrow> nat list \<Rightarrow> trade_manager \<Rightarrow> trade_manager" where
  "drop_offers who idxs tm = fold (\<lambda>i tm. case retrieve_item who i tm of Inr tm' \<Rightarrow> tm' | Inl _ \<Rightarrow> tm) idxs tm"

fun resolve_offers :: "offer list \<Rightarrow> player_inventory \<Rightarrow> give list option" where
  "resolve_offers [] iv = Some []"
| "resolve_offers (x # xs) iv =
     (case peek_at (location x) (oslot x) iv of
        None \<Rightarrow> None
      | Some (p, n) \<Rightarrow> (case resolve_offers xs iv of None \<Rightarrow> None | Some gs \<Rightarrow> Some ((location x, oslot x, p, n) # gs)))"

definition resolve_side :: "nat \<Rightarrow> trade_side \<Rightarrow> world \<Rightarrow> give list option" where
  "resolve_side who side w =
     (case conn_of who w of None \<Rightarrow> None | Some c \<Rightarrow> resolve_offers (offered_slots side) (inventory c))"

text \<open>Taking every give out and placing every receive, with what was touched; a failure stops half way.\<close>

fun take_gives :: "registry \<Rightarrow> give list \<Rightarrow> player_inventory \<Rightarrow> bool \<times> touched \<times> player_inventory" where
  "take_gives R [] iv = (True, [], iv)"
| "take_gives R ((l, s, p, n) # gs) iv =
     (case destroy_at R l s 0 iv of
        Inl _ \<Rightarrow> (False, [], iv)
      | Inr (_, iv1) \<Rightarrow> (case take_gives R gs iv1 of (ok, t, iv2) \<Rightarrow> (ok, (l, s) # t, iv2)))"

fun place_receives :: "registry \<Rightarrow> give list \<Rightarrow> player_inventory \<Rightarrow> bool \<times> touched \<times> player_inventory" where
  "place_receives R [] iv = (True, [], iv)"
| "place_receives R ((l, s, p, n) # rs) iv =
     (case add_item_locating R p n iv of
        Inl _ \<Rightarrow> (False, [], iv)
      | Inr ((placed, left), iv1) \<Rightarrow>
          if left = 0 then (case place_receives R rs iv1 of (ok, t, iv2) \<Rightarrow> (ok, placed @ t, iv2))
          else (False, [], iv1))"

definition simulate_side :: "registry \<Rightarrow> nat \<Rightarrow> give list \<Rightarrow> give list \<Rightarrow> world \<Rightarrow> bool" where
  "simulate_side R who gives receives w =
     (case conn_of who w of
        None \<Rightarrow> False
      | Some c \<Rightarrow>
          (case take_gives R gives (inventory c) of
             (ok, _, sim) \<Rightarrow> ok \<and> fst (place_receives R receives sim)))"

definition refuse_both :: "nat \<Rightarrow> string \<Rightarrow> nat \<Rightarrow> string \<Rightarrow> outbox" where
  "refuse_both a line_a b line_b = refuse a line_a @ refuse b line_b"

text \<open>The checks of an accepted trade in their order: the session and both sides' gives, or the world and
  the messages of the first check that fails.\<close>

definition trade_checks :: "registry \<Rightarrow> nat \<Rightarrow> world \<Rightarrow> (world \<times> outbox) + (trade_session \<times> give list \<times> give list)" where
  "trade_checks R who w =
     (case session_of who (trades w) of
        None \<Rightarrow> Inl (w, [])
      | Some s \<Rightarrow>
          let a = cid (side_a s); b = cid (side_b s);
              reset = (\<lambda>w out. let tm = clear_accepts_of a (trades w) in (w\<lparr>trades := tm\<rparr>, out @ fan_session_of a tm))
          in if \<not> still_together a b w then Inl (close_trade a ''Trade failed -- you are no longer together.'' w)
             else if \<not> coins_covered a (side_coins (side_a s)) w \<or> \<not> coins_covered b (side_coins (side_b s)) w
             then Inl (reset w (refuse_both a ''The coin offer is no longer covered.'' b ''The coin offer is no longer covered.''))
             else
               let ca = changed_slots a (side_a s) w; cb = changed_slots b (side_b s) w;
                   mine = ''An item you offered changed, so it was taken out of the trade.'';
                   theirs = ''Their offer changed. Check the window before accepting again.''
               in if ca \<noteq> [] \<or> cb \<noteq> []
                  then Inl (reset (w\<lparr>trades := drop_offers b cb (drop_offers a ca (trades w))\<rparr>)
                              (refuse_both a (if ca \<noteq> [] then mine else theirs) b (if cb \<noteq> [] then mine else theirs)))
                  else case (resolve_side a (side_a s) w, resolve_side b (side_b s) w) of
                    (Some ga, Some gb) \<Rightarrow>
                      let fa = simulate_side R a ga gb w; fb = simulate_side R b gb ga w;
                          mine = ''Your bags cannot hold their offer.''; theirs = ''Their bags cannot hold your offer.''
                      in if \<not> fa \<or> \<not> fb
                         then Inl (reset w (refuse_both a (if \<not> fa then mine else theirs) b (if fa then mine else theirs)))
                         else Inr (s, ga, gb)
                  | _ \<Rightarrow> Inl (close_trade a ''Trade failed.'' w))"

section \<open>The commit: both sides at once\<close>

definition swap_coins :: "coins \<Rightarrow> coins \<Rightarrow> coins \<Rightarrow> coins" where
  "swap_coins c pay gain =
     \<lparr>platinum = wrap64 (wrap64 (platinum c - platinum pay) + platinum gain), gold = wrap64 (wrap64 (gold c - gold pay) + gold gain),
      silver = wrap64 (wrap64 (silver c - silver pay) + silver gain), copper = wrap64 (wrap64 (copper c - copper pay) + copper gain)\<rparr>"

definition ledger_all :: "int \<Rightarrow> item_event_row list \<Rightarrow> connection \<Rightarrow> connection" where
  "ledger_all t rows c = fold (ledger t) rows c"

definition trade_rows :: "nat \<Rightarrow> give list \<Rightarrow> give list \<Rightarrow> coins \<Rightarrow> coins \<Rightarrow> item_event_row list" where
  "trade_rows partner gives receives pay gain =
     (let detail = Some (''char:'' @ show_nat partner); net = total_copper gain - total_copper pay
      in map (\<lambda>(_, _, p, n). item_event TradeOut p n (- int n) detail) gives
         @ map (\<lambda>(_, _, p, n). item_event TradeIn p n (int n) detail) receives
         @ (if net \<noteq> 0 then [coin_event TradeCoins net detail] else []))"

definition apply_side :: "registry \<Rightarrow> int \<Rightarrow> nat \<Rightarrow> give list \<Rightarrow> give list \<Rightarrow> coins \<Rightarrow> coins \<Rightarrow> connection
    \<Rightarrow> bool \<times> touched \<times> connection" where
  "apply_side R t partner gives receives pay gain c =
     (case take_gives R gives (inventory c) of
        (False, t1, iv1) \<Rightarrow> (False, t1, c\<lparr>inventory := iv1\<rparr>)
      | (True, t1, iv1) \<Rightarrow>
          (case place_receives R receives iv1 of
             (False, t2, iv2) \<Rightarrow> (False, t1 @ t2, c\<lparr>inventory := iv2\<rparr>)
           | (True, t2, iv2) \<Rightarrow>
               (True, t1 @ t2, ledger_all t (trade_rows partner gives receives pay gain)
                  (c\<lparr>inventory := iv2, coins := swap_coins (coins c) pay gain, inventory_dirty := True\<rparr>))))"

text \<open>\<open>db::commit_trade\<close>: both inventories, both wallets and both queues, or nothing.\<close>

definition commit_side :: "int \<Rightarrow> connection \<Rightarrow> store_db \<Rightarrow> store_db" where
  "commit_side ch c db =
     db\<lparr>character_items := replace_rows ch (Some (to_rows (inventory c))) (character_items db),
        wallets := update_row ch (Some (coins c)) (wallets db), event_rows := event_rows db @ item_events c\<rparr>"

definition commit_trade :: "bool \<Rightarrow> nat \<Rightarrow> connection \<Rightarrow> nat \<Rightarrow> connection \<Rightarrow> store_db \<Rightarrow> store_db option" where
  "commit_trade commits a ca b cb db =
     (if commits then Some (commit_side (int b) cb (commit_side (int a) ca db)) else None)"

text \<open>The store flush of one trader.\<close>

definition flush_one :: "bool \<Rightarrow> nat \<Rightarrow> world \<Rightarrow> bool \<times> world" where
  "flush_one commits k w =
     (case conn_of k w of
        None \<Rightarrow> (True, w)
      | Some c \<Rightarrow> (case persist_dirty_stores commits c (store w) of (ok, c', db) \<Rightarrow> (ok, put_conn k c' (w\<lparr>store := db\<rparr>))))"

text \<open>What a failed commit puts back: the inventory, the coins and the ledger queue.\<close>

definition revert_side :: "connection \<Rightarrow> connection \<Rightarrow> connection" where
  "revert_side before c = ledger_rollback (ledger_mark before) (c\<lparr>inventory := inventory before, coins := coins before\<rparr>)"

record answers =
  flush_a :: bool
  flush_b :: bool
  commit_ok :: bool

definition trade_exchange :: "registry \<Rightarrow> int \<Rightarrow> answers \<Rightarrow> trade_session \<Rightarrow> give list \<Rightarrow> give list \<Rightarrow> world \<Rightarrow> world \<times> outbox" where
  "trade_exchange R t ans s ga gb w =
     (let a = cid (side_a s); b = cid (side_b s) in
      case flush_one (flush_a ans) a w of
        (False, w1) \<Rightarrow> close_trade a ''Trade failed.'' w1
      | (True, w1) \<Rightarrow>
      case flush_one (flush_b ans) b w1 of
        (False, w2) \<Rightarrow> close_trade a ''Trade failed.'' w2
      | (True, w2) \<Rightarrow>
      case (conn_of a w2, conn_of b w2) of
        (Some ca, Some cb) \<Rightarrow>
          (case apply_side R t b ga gb (side_coins (side_a s)) (side_coins (side_b s)) ca of
             (oka, ta, ca') \<Rightarrow>
           case (if oka then apply_side R t a gb ga (side_coins (side_b s)) (side_coins (side_a s)) cb else (False, [], cb)) of
             (okb, tb, cb') \<Rightarrow>
           case (if okb then commit_trade (commit_ok ans) a ca' b cb' (store w2) else None) of
             None \<Rightarrow>
               close_trade a ''Trade failed.'' (put_conn b (revert_side cb cb') (put_conn a (revert_side ca ca') w2))
           | Some db \<Rightarrow>
               let ca2 = ca'\<lparr>item_events := []\<rparr>; cb2 = cb'\<lparr>item_events := []\<rparr>
               in (put_conn b cb2 (put_conn a ca2 (w2\<lparr>trades := snd (trade_close a (trades w2)), store := db\<rparr>)),
                   to a (touched_deltas ta (inventory ca2) @ [CoinsUpdate (coins ca2), TradeClosed True ''Trade complete.''])
                   @ to b (touched_deltas tb (inventory cb2) @ [CoinsUpdate (coins cb2), TradeClosed True ''Trade complete.''])))
      | _ \<Rightarrow> close_trade a ''Trade failed.'' w2)"

definition trade_accept_intent :: "registry \<Rightarrow> int \<Rightarrow> answers \<Rightarrow> nat \<Rightarrow> world \<Rightarrow> world \<times> outbox" where
  "trade_accept_intent R t ans who w =
     (case trade_accept who (trades w) of
        Inl e \<Rightarrow> (w, refuse who (trade_error_text e))
      | Inr (both, tm) \<Rightarrow>
          let w1 = w\<lparr>trades := tm\<rparr>
          in if \<not> both then (w1, fan_session_of who tm)
             else case trade_checks R who w1 of
               Inl out \<Rightarrow> out
             | Inr (s, ga, gb) \<Rightarrow> trade_exchange R t ans s ga gb w1)"

section \<open>The sweep\<close>

definition sweep_one :: "nat \<times> nat \<Rightarrow> world \<times> outbox \<Rightarrow> world \<times> outbox" where
  "sweep_one ab wo =
     (case (ab, wo) of ((a, b), (w, out)) \<Rightarrow>
        if still_together a b w then (w, out)
        else (case close_trade a ''Trade cancelled -- you are no longer together.'' w of (w', out') \<Rightarrow> (w', out @ out')))"

definition sweep_trades :: "world \<Rightarrow> world \<times> outbox" where
  "sweep_trades w = fold sweep_one (open_session_cids (trades w)) (w, [])"

section \<open>Taking and placing\<close>

lemma destroy_all_cells:
  assumes wf: "inv_wf R iv" and parse: "parse_slot_ref loc slot = Inr r" and res: "destroy_at R loc slot 0 iv = Inr (x, iv')"
  shows "cell_at r' iv' = (if r' = r then None else cell_at r' iv)"
proof -
  have rej: "reject_held_bag_slot r = Inr ()" using res parse by (auto simp: destroy_at_def split: sum.splits)
  have empty: "\<not> bag_key_is_nonempty s iv" if "r = SlotBase s" for s
    using res parse rej that by (auto simp: destroy_at_def)
  obtain e where e: "cell_at r iv = Some e" and iv': "iv' = take_units R r e 0 iv"
    using res parse rej by (auto simp: destroy_at_def Let_def source_entry_cell [symmetric] split: sum.splits if_splits)
  have v: "valid_ref r iv" using e by (rule cell_at_Some_valid)
  show ?thesis
  proof (cases r)
    case (SlotBase s)
    have "map_of (AList.delete s (bags iv)) b = (if b = s then None else map_of (bags iv) b)" for b
      by (simp add: AList.delete_conv')
    moreover have "arr ! j = None" if "map_of (bags iv) s = Some arr" "j < length arr" for arr j
      using empty [OF SlotBase] that by (simp add: bag_key_is_nonempty_def list_ex_length)
    ultimately show ?thesis
      using SlotBase v unfolding iv'
      by (cases r') (auto simp: take_units_def ensure_bag_init_def set_cell_def cell_at_def valid_ref_def vget_def split: option.splits)
  qed (use v cell_at_set_cell [OF v, of r' None] in \<open>auto simp: iv' take_units_def\<close>)
qed

definition gives_total :: "string \<Rightarrow> give list \<Rightarrow> nat" where
  "gives_total q gs = (\<Sum>(l, s, p, n)\<leftarrow>gs. units q p n)"

lemma gives_total_simps [simp]:
  "gives_total q [] = 0" "gives_total q ((l, s, p, n) # gs) = units q p n + gives_total q gs"
  by (simp_all add: gives_total_def)

text \<open>Each give was resolved while its stack was there; since then the slot can only have been emptied.\<close>

definition gives_match :: "give list \<Rightarrow> player_inventory \<Rightarrow> bool" where
  "gives_match gs iv \<longleftrightarrow> list_all (\<lambda>(l, s, p, n). peek_at l s iv = Some (p, n) \<or> peek_at l s iv = None) gs"

lemma gives_match_mono:
  assumes "\<And>l s. peek_at l s iv1 = peek_at l s iv \<or> peek_at l s iv1 = None"
  shows "gives_match gs iv \<Longrightarrow> gives_match gs iv1"
proof (induction gs)
  case (Cons g gs)
  obtain l s p n where "g = (l, s, p, n)" by (cases g)
  with Cons assms [of l s] show ?case by (auto simp: gives_match_def)
qed (simp add: gives_match_def)

lemma take_gives_effect:
  assumes "inv_wf R iv" "gives_match gs iv" "take_gives R gs iv = (True, t, iv')"
  shows "inv_wf R iv' \<and> (\<forall>q. inv_total q iv' + gives_total q gs = inv_total q iv)"
  using assms
proof (induction gs arbitrary: iv t)
  case (Cons g gs)
  obtain l s p n where g: "g = (l, s, p, n)" by (cases g)
  obtain q k iv1 where d: "destroy_at R l s 0 iv = Inr ((q, k), iv1)"
    using Cons.prems(3) by (cases "destroy_at R l s 0 iv") (auto simp: g)
  then obtain t1 where rest: "take_gives R gs iv1 = (True, t1, iv')"
    using Cons.prems(3) by (auto simp: g split: prod.splits)
  obtain m where m: "peek_at l s iv = Some (q, m)" "k = m" using destroy_at_effect [OF Cons.prems(1) d] by auto
  then have same: "q = p" "k = n" using Cons.prems(2) by (auto simp: gives_match_def g)
  obtain r where r: "parse_slot_ref l s = Inr r" using m(1) by (auto simp: peek_at_def split: sum.splits)
  have "peek_at l' s' iv1 = peek_at l' s' iv \<or> peek_at l' s' iv1 = None" for l' s'
    using destroy_all_cells [OF Cons.prems(1) r d] by (auto simp: peek_at_def cell_pair_def split: sum.splits)
  then have "gives_match gs iv1"
    using gives_match_mono [of iv1 iv gs] Cons.prems(2) by (simp add: gives_match_def)
  then have "inv_wf R iv' \<and> (\<forall>q. inv_total q iv' + gives_total q gs = inv_total q iv1)"
    using Cons.IH rest destroy_at_effect [OF Cons.prems(1) d] by blast
  moreover have "inv_total q' iv1 + units q' p n = inv_total q' iv" for q'
    using destroy_at_effect [OF Cons.prems(1) d, of q'] same by blast
  ultimately show ?case by (simp add: g add.assoc add.commute [of "units _ _ _"]) (metis add.assoc add.commute)
qed simp

lemma place_receives_effect:
  assumes "reg_ok R" "inv_wf R iv" "place_receives R rs iv = (True, t, iv')"
  shows "inv_wf R iv' \<and> (\<forall>q. inv_total q iv' = inv_total q iv + gives_total q rs)"
  using assms(2,3)
proof (induction rs arbitrary: iv t)
  case (Cons g rs)
  obtain l s p n where g: "g = (l, s, p, n)" by (cases g)
  obtain at iv1 where add: "add_item_locating R p n iv = Inr ((at, 0), iv1)"
    using Cons.prems(2) by (auto simp: g split: sum.splits prod.splits if_splits)
  then obtain t1 where rest: "place_receives R rs iv1 = (True, t1, iv')"
    using Cons.prems(2) by (auto simp: g split: prod.splits)
  from add_item_locating_Inr [OF assms(1) Cons.prems(1) add]
  have "inv_wf R iv1" "inv_total q iv1 = inv_total q iv + units q p n" for q by auto
  with Cons.IH [OF _ rest] show ?case by (simp add: g)
qed simp

lemma resolve_offers_match: "resolve_offers xs iv = Some gs \<Longrightarrow> gives_match gs iv"
  by (induction xs arbitrary: gs) (auto simp: gives_match_def split: option.splits prod.splits)


section \<open>One side of the exchange\<close>

lemma ledger_all_simps:
  "ledger_all t [] c = c" "ledger_all t (r # rows) c = ledger_all t rows (ledger t r c)"
  by (simp_all add: ledger_all_def)

lemma ledger_all_frame [simp]:
  "inventory (ledger_all t rows c) = inventory c" "coins (ledger_all t rows c) = coins c"
  "bank_coins (ledger_all t rows c) = bank_coins c" "bank_items (ledger_all t rows c) = bank_items c"
  "account_bank_items (ledger_all t rows c) = account_bank_items c" "char_id (ledger_all t rows c) = char_id c"
  "account_id (ledger_all t rows c) = account_id c" "inventory_dirty (ledger_all t rows c) = inventory_dirty c"
  "coins_dirty (ledger_all t rows c) = coins_dirty c" "bank_dirty (ledger_all t rows c) = bank_dirty c"
  "bank_items_dirty (ledger_all t rows c) = bank_items_dirty c"
  "account_bank_items_dirty (ledger_all t rows c) = account_bank_items_dirty c"
  by (induction rows arbitrary: c) (simp_all add: ledger_all_simps)

lemma queued_Cons [simp]:
  "queued_delta p (e # es) = (if ev_item e = Some p then ev_delta e else 0) + queued_delta p es"
  "queued_copper (e # es) = ev_copper e + queued_copper es"
  by (simp_all add: queued_delta_def queued_copper_def)

lemma ledger_all_drift [simp]:
  "item_drift p (ledger_all t rows c) = item_drift p c - queued_delta p rows"
  "coin_drift (ledger_all t rows c) = coin_drift c - queued_copper rows"
  "own_queue (ledger_all t rows c) = own_queue c"
  by (induction rows arbitrary: c) (simp_all add: ledger_all_simps queued_delta_def queued_copper_def)

lemma trade_rows_sums:
  "queued_delta q (trade_rows partner gives receives pay gain) = int (gives_total q receives) - int (gives_total q gives)"
  "queued_copper (trade_rows partner gives receives pay gain) = total_copper gain - total_copper pay"
proof -
  have out: "queued_delta q (map (\<lambda>(_, _, p, n). item_event TradeOut p n (- int n) d) gs) = - int (gives_total q gs)"
    "queued_copper (map (\<lambda>(_, _, p, n). item_event TradeOut p n (- int n) d) gs) = 0"
    "queued_delta q (map (\<lambda>(_, _, p, n). item_event TradeIn p n (int n) d) gs) = int (gives_total q gs)"
    "queued_copper (map (\<lambda>(_, _, p, n). item_event TradeIn p n (int n) d) gs) = 0" for gs d
    by (induction gs) (auto simp: units_def)
  show "queued_delta q (trade_rows partner gives receives pay gain) = int (gives_total q receives) - int (gives_total q gives)"
    "queued_copper (trade_rows partner gives receives pay gain) = total_copper gain - total_copper pay"
    by (simp_all add: trade_rows_def out Let_def)
qed

lemma wrap64_id: "i64_min \<le> x \<Longrightarrow> x \<le> i64_max \<Longrightarrow> wrap64 x = x"
  by (simp add: wrap64_def)

text \<open>Coins an honest offer can hold: no tier negative, and a value a purse can take beside its own.\<close>

definition payable :: "coins \<Rightarrow> bool" where
  "payable c \<longleftrightarrow> \<not> has_negative c \<and> coin_value c \<le> coin_cap"

lemma swap_coins_effect:
  assumes c: "purse_ok c" "coin_value c \<le> coin_cap" and cover: "has_at_least c pay"
    and pay: "\<not> has_negative pay" and gain: "payable gain"
  shows "purse_ok (swap_coins c pay gain)" "coin_value (swap_coins c pay gain) = coin_value c - coin_value pay + coin_value gain"
proof -
  note ct = purse_okD [OF c(1)] purse_tiers [OF c(1)]
  have g: "\<not> has_negative gain" "coin_value gain \<le> coin_cap" using gain by (simp_all add: payable_def)
  note gt = tier_le_value [OF g(1)]
  have swap: "wrap64 (wrap64 (x - y) + z) = x - y + z" if "0 \<le> x" "x \<le> coin_cap" "0 \<le> y" "y \<le> x" "0 \<le> z" "z \<le> coin_cap" for x y z
  proof -
    have "wrap64 (x - y) = x - y" using that unfolding coin_cap_def by (intro wrap64_id) linarith+
    moreover have "wrap64 (x - y + z) = x - y + z" using that unfolding coin_cap_def by (intro wrap64_id) linarith+
    ultimately show ?thesis by simp
  qed
  have eq: "swap_coins c pay gain =
      \<lparr>platinum = platinum c - platinum pay + platinum gain, gold = gold c - gold pay + gold gain,
       silver = silver c - silver pay + silver gain, copper = copper c - copper pay + copper gain\<rparr>"
    using ct gt g c(2) cover pay unfolding swap_coins_def has_at_least_def has_negative_def
    by (intro coins.equality, simp_all only: coins.simps) (intro swap; linarith)+
  show "coin_value (swap_coins c pay gain) = coin_value c - coin_value pay + coin_value gain"
    by (simp add: eq coin_value_def)
  show "purse_ok (swap_coins c pay gain)"
    using ct gt g c(2) cover pay unfolding eq purse_ok_def has_at_least_def has_negative_def fits64_def coin_cap_def by simp
qed


lemma total_copper_bounded: "\<not> has_negative c \<Longrightarrow> coin_value c \<le> coin_cap \<Longrightarrow> total_copper c = coin_value c"
  using coin_value_nonneg [of c] by (simp add: total_copper_sat sat64_def coin_cap_def)

lemma covered_value:
  assumes "has_at_least c d"
  shows "coin_value d \<le> coin_value c"
  using assms by (simp add: has_at_least_def coin_value_def)

text \<open>A side that was applied is in balance with its rows once its wallet counts as changed; the commit
  writes the wallet whatever its flag.\<close>

lemma apply_side_effect:
  assumes ok: "conn_ok R c" and reg: "reg_ok R" and bd: "coins_bounded c" and m: "gives_match gives (inventory c)"
    and pay: "\<not> has_negative pay" "has_at_least (coins c) pay" and gain: "payable gain"
    and res: "apply_side R t partner gives receives pay gain c = (True, tt, c')"
  shows "balanced R c (c'\<lparr>coins_dirty := True\<rparr>)"
    and "inv_total q (inventory c') + gives_total q gives = inv_total q (inventory c) + gives_total q receives"
    and "coin_value (coins c') = coin_value (coins c) - coin_value pay + coin_value gain"
    and "inventory_dirty c' \<and> bank_dirty c' = bank_dirty c \<and> bank_items_dirty c' = bank_items_dirty c
          \<and> account_bank_items_dirty c' = account_bank_items_dirty c"
proof -
  obtain t1 iv1 t2 iv2 where take: "take_gives R gives (inventory c) = (True, t1, iv1)"
    and place: "place_receives R receives iv1 = (True, t2, iv2)"
    and c': "c' = ledger_all t (trade_rows partner gives receives pay gain)
          (c\<lparr>inventory := iv2, coins := swap_coins (coins c) pay gain, inventory_dirty := True\<rparr>)"
    using res by (auto simp: apply_side_def split: prod.splits bool.splits)
  have one: "inv_wf R iv1 \<and> (\<forall>q. inv_total q iv1 + gives_total q gives = inv_total q (inventory c))"
    using take_gives_effect [OF conn_okD(1) [OF ok] m take] .
  then have two: "inv_wf R iv2 \<and> (\<forall>q. inv_total q iv2 = inv_total q iv1 + gives_total q receives)"
    using place_receives_effect [OF reg _ place] by blast
  have items: "inv_total q iv2 + gives_total q gives = inv_total q (inventory c) + gives_total q receives" for q
    using one two by (metis add.assoc add.commute)
  have cap: "coin_value (coins c) \<le> coin_cap" using coin_bounds(3) [OF ok bd] .
  note swap = swap_coins_effect [OF conn_okD(4) [OF ok] cap pay(2,1) gain]
  have pay_cap: "coin_value pay \<le> coin_cap" using covered_value [OF pay(2)] cap by linarith
  have net: "total_copper gain - total_copper pay = coin_value gain - coin_value pay"
    using gain pay(1) pay_cap by (simp add: total_copper_bounded payable_def)
  have drift: "int (inv_total q iv2) - int (inv_total q (inventory c)) - int (gives_total q receives) + int (gives_total q gives) = 0" for q
    using items [of q] by linarith
  show "balanced R c (c'\<lparr>coins_dirty := True\<rparr>)"
    using ok two swap drift by (simp add: books raised_def c' trade_rows_sums net algebra_simps)
  show "inv_total q (inventory c') + gives_total q gives = inv_total q (inventory c) + gives_total q receives"
    using items [of q] by (simp add: c')
  show "coin_value (coins c') = coin_value (coins c) - coin_value pay + coin_value gain"
    using swap(2) by (simp add: c')
  show "inventory_dirty c' \<and> bank_dirty c' = bank_dirty c \<and> bank_items_dirty c' = bank_items_dirty c
      \<and> account_bank_items_dirty c' = account_bank_items_dirty c"
    by (simp add: c')
qed

section \<open>What the checks guarantee\<close>

lemma trade_checks_Inr:
  assumes "trade_checks R who w = Inr (s, ga, gb)"
  shows "session_of who (trades w) = Some s"
    and "\<exists>ca cb. conn_of (cid (side_a s)) w = Some ca \<and> conn_of (cid (side_b s)) w = Some cb
      \<and> has_at_least (coins ca) (side_coins (side_a s)) \<and> has_at_least (coins cb) (side_coins (side_b s))
      \<and> gives_match ga (inventory ca) \<and> gives_match gb (inventory cb)"
proof -
  let ?a = "cid (side_a s)" and ?b = "cid (side_b s)"
  from assms have s: "session_of who (trades w) = Some s"
    by (auto simp: trade_checks_def Let_def split: option.splits if_splits)
  have cover: "coins_covered ?a (side_coins (side_a s)) w" "coins_covered ?b (side_coins (side_b s)) w"
    using assms by (auto simp: trade_checks_def Let_def s split: option.splits if_splits)
  have gives: "resolve_side ?a (side_a s) w = Some ga" "resolve_side ?b (side_b s) w = Some gb"
    using assms by (auto simp: trade_checks_def Let_def s split: option.splits if_splits)
  obtain ca where ca: "conn_of ?a w = Some ca" "has_at_least (coins ca) (side_coins (side_a s))"
    using cover(1) by (auto simp: coins_covered_def has_at_least_def split: option.splits)
  obtain cb where cb: "conn_of ?b w = Some cb" "has_at_least (coins cb) (side_coins (side_b s))"
    using cover(2) by (auto simp: coins_covered_def has_at_least_def split: option.splits)
  have "gives_match ga (inventory ca)" "gives_match gb (inventory cb)"
    using gives ca(1) cb(1) resolve_offers_match by (auto simp: resolve_side_def)
  with ca cb show "\<exists>ca cb. conn_of ?a w = Some ca \<and> conn_of ?b w = Some cb
      \<and> has_at_least (coins ca) (side_coins (side_a s)) \<and> has_at_least (coins cb) (side_coins (side_b s))
      \<and> gives_match ga (inventory ca) \<and> gives_match gb (inventory cb)" by blast
  show "session_of who (trades w) = Some s" by (rule s)
qed

end
