(* ===== verification/Realm.thy ===== *)
theory Realm
  imports Books Handling Trading
begin

text \<open>
  The whole world of connections and the one database: every character's intents, the trades between two of
  them, every flush and the prune, as one step relation, and what no step changes.
\<close>

section \<open>One character's commit leaves the others' rows alone\<close>

definition other :: "int \<Rightarrow> int \<Rightarrow> connection \<Rightarrow> bool" where
  "other ch ac d \<longleftrightarrow> char_id d \<noteq> ch \<and> account_id d \<noteq> ac"

lemma replace_rows_other:
  fixes t :: "(int \<times> 'r) list"
  shows "i \<noteq> k \<Longrightarrow> filter (\<lambda>(j, _). j = i) (replace_rows k new t) = filter (\<lambda>(j, _). j = i) t"
proof -
  assume "i \<noteq> k"
  then have "filter (\<lambda>(j, _). j = i) (map (Pair k) rows) = []" for rows :: "'r list" by (induction rows) auto
  moreover have "filter (\<lambda>(j, _). j = i) (filter (\<lambda>(j, _). j \<noteq> k) t) = filter (\<lambda>(j, _). j = i) t"
    using \<open>i \<noteq> k\<close> by (induction t) auto
  ultimately show ?thesis by (simp add: replace_rows_def split: option.splits)
qed

lemma update_row_keys: "map fst (update_row k new t) = map fst t"
  by (auto simp: update_row_def split: option.splits)

lemma update_row_other:
  fixes t :: "(int \<times> 'v) list"
  assumes "i \<noteq> k"
  shows "map_of (update_row k new t) i = map_of t i"
    and "(\<Sum>(j, x)\<leftarrow>update_row k new t. if j = i then f x else 0) = (\<Sum>(j, x)\<leftarrow>t. if j = i then f x else (0::int))"
proof -
  show "map_of (update_row k new t) i = map_of t i"
    using assms by (induction t) (auto simp: update_row_def split: option.splits)
  show "(\<Sum>(j, x)\<leftarrow>update_row k new t. if j = i then f x else 0) = (\<Sum>(j, x)\<leftarrow>t. if j = i then f x else (0::int))"
    using assms by (induction t) (auto simp: update_row_def split: option.splits)
qed

lemma save_frame:
  assumes "save_stores_atomic commits ch ac r1 r2 r3 r4 r5 evs db = Some db'" "other ch ac d"
  shows "accounted d db' = accounted d db"
proof -
  have db': "db' = db\<lparr>character_items := replace_rows ch r1 (character_items db), wallets := update_row ch r2 (wallets db),
      bank_wallets := update_row ch r3 (bank_wallets db), bank_rows := replace_rows ch r4 (bank_rows db),
      account_rows := replace_rows ac r5 (account_rows db), event_rows := event_rows db @ evs\<rparr>"
    using assms(1) by (simp add: save_stores_atomic_def split: if_splits)
  have ne: "char_id d \<noteq> ch" "account_id d \<noteq> ac" using assms(2) by (simp_all add: other_def)
  have "db_ok d db' = db_ok d db"
    by (simp add: db_ok_def db' account_of_def update_row_keys)
  moreover have "clean_saved d db' = clean_saved d db"
    by (simp add: clean_saved_def db' replace_rows_other [OF ne(1)] replace_rows_other [OF ne(2)] update_row_other(1) [OF ne(1)])
  moreover have "saved_items p d db' = saved_items p d db" for p
    by (simp add: saved_items_def db' replace_rows_other [OF ne(1)] replace_rows_other [OF ne(2)])
  moreover have "saved_coin d db' = saved_coin d db"
    by (simp add: saved_coin_def db' update_row_other(2) [OF ne(1)])
  ultimately show ?thesis by (simp add: accounted_def)
qed


lemma flush_clean:
  assumes "persist_dirty_stores commits c db = (True, c', db')"
  shows "\<not> any_store_dirty c' \<and> item_events c' = [] \<and> inventory c' = inventory c \<and> coins c' = coins c
    \<and> bank_coins c' = bank_coins c \<and> bank_items c' = bank_items c \<and> account_bank_items c' = account_bank_items c"
  using assms by (auto simp: persist_dirty_stores_def any_store_dirty_def split: if_splits option.splits)

lemma flush_ids:
  assumes "persist_dirty_stores commits c db = (r, c', db')"
  shows "char_id c' = char_id c \<and> account_id c' = account_id c"
  using assms by (auto simp: persist_dirty_stores_def split: if_splits option.splits)

lemma flush_frame:
  assumes "persist_dirty_stores commits c db = (r, c', db')" "other (char_id c) (account_id c) d"
  shows "accounted d db' = accounted d db"
  using assms save_frame [of commits "char_id c" "account_id c"]
  by (auto simp: persist_dirty_stores_def split: if_splits option.splits)

section \<open>The trade commit as a flush\<close>

lemma update_row_None [simp]: "update_row k None t = t"
  by (simp add: update_row_def)

lemma replace_rows_None [simp]: "replace_rows k None t = t"
  by (simp add: replace_rows_def)

lemma commit_side_save:
  "Some (commit_side ch c db)
     = save_stores_atomic True ch ac (Some (to_rows (inventory c))) (Some (coins c)) None None None (item_events c) db"
  by (simp add: commit_side_def save_stores_atomic_def)

lemma accounted_flags:
  assumes "accounted (c\<lparr>inventory_dirty := False, coins_dirty := False, bank_dirty := False, bank_items_dirty := False,
      account_bank_items_dirty := False\<rparr>) db"
  shows "accounted c db"
  using assms unfolding accounted_def db_ok_def clean_saved_def own_queue_def item_drift_def coin_drift_def saved_items_def saved_coin_def
    conn_items_def conn_coin_def
  by simp

lemma commit_side_keeps:
  assumes acc: "accounted c db" and clean: "\<not> any_store_dirty c" and bal: "balanced R c (c'\<lparr>coins_dirty := True\<rparr>)"
    and same: "\<not> bank_dirty c'" "\<not> bank_items_dirty c'" "\<not> account_bank_items_dirty c'" "inventory_dirty c'" and small: "conn_small c'"
  shows "same_gap db (commit_side (char_id c) c' db)"
    and "accounted (c'\<lparr>item_events := []\<rparr>) (commit_side (char_id c) c' db)"
    and "other (char_id c) (account_id c) d \<Longrightarrow> accounted d (commit_side (char_id c) c' db) = accounted d db"
proof -
  let ?c = "c'\<lparr>coins_dirty := True\<rparr>"
  let ?d = "?c\<lparr>inventory_dirty := False, coins_dirty := False, bank_dirty := False, bank_items_dirty := False,
      account_bank_items_dirty := False, item_events := []\<rparr>"
  have ids: "char_id ?c = char_id c" "account_id ?c = account_id c" using bal by (simp_all add: balanced_def flags_follow_def)
  have "persist_dirty_stores True ?c db = (True, ?d, commit_side (char_id c) c' db)"
    using same ids by (simp add: persist_dirty_stores_def any_store_dirty_def save_stores_atomic_def when_dirty_def commit_side_def)
  moreover have "accounted ?c db" using balanced_accounted [OF acc bal] .
  moreover have "conn_small ?c" using small by (simp add: conn_small_def)
  ultimately have keep: "same_gap db (commit_side (char_id c) c' db)" "accounted ?d (commit_side (char_id c) c' db)"
    using flush_keeps by blast+
  show "same_gap db (commit_side (char_id c) c' db)" by (rule keep)
  show "accounted (c'\<lparr>item_events := []\<rparr>) (commit_side (char_id c) c' db)"
  proof (rule accounted_flags)
    have "c'\<lparr>item_events := [], inventory_dirty := False, coins_dirty := False, bank_dirty := False, bank_items_dirty := False,
        account_bank_items_dirty := False\<rparr> = ?d" by (rule connection.equality) simp_all
    then show "accounted (c'\<lparr>item_events := [], inventory_dirty := False, coins_dirty := False, bank_dirty := False,
        bank_items_dirty := False, account_bank_items_dirty := False\<rparr>) (commit_side (char_id c) c' db)"
      using keep(2) by (simp only:)
  qed
  show "accounted d (commit_side (char_id c) c' db) = accounted d db" if "other (char_id c) (account_id c) d"
    using save_frame [OF commit_side_save [symmetric] that] .
qed

section \<open>The invariant of the world\<close>

definition conn_fits :: "registry \<Rightarrow> store_db \<Rightarrow> nat \<times> connection \<Rightarrow> bool" where
  "conn_fits R db kc = (case kc of (k, c) \<Rightarrow> char_id c = int k \<and> conn_ok R c \<and> accounted c db)"

definition realm_ok :: "registry \<Rightarrow> world \<Rightarrow> bool" where
  "realm_ok R w \<longleftrightarrow> distinct (map fst (conns w)) \<and> distinct (map (\<lambda>(k, c). account_id c) (conns w))
     \<and> list_all (conn_fits R (store w)) (conns w) \<and> manager_wf (trades w) \<and> groups_wf (parties w)"

lemma realm_okD:
  assumes "realm_ok R w" "conn_of k w = Some c"
  shows "char_id c = int k" "conn_ok R c" "accounted c (store w)"
proof -
  have "(k, c) \<in> set (conns w)" using assms(2) unfolding conn_of_def by (rule map_of_SomeD)
  moreover have "list_all (conn_fits R (store w)) (conns w)" using assms(1) by (simp only: realm_ok_def)
  ultimately have "conn_fits R (store w) (k, c)" unfolding list_all_iff by blast
  then show "char_id c = int k" "conn_ok R c" "accounted c (store w)" by (simp_all add: conn_fits_def)
qed

lemma update_map:
  "distinct (map fst xs) \<Longrightarrow> map_of xs k = Some c \<Longrightarrow> f (k, c') = f (k, c) \<Longrightarrow> map f (AList.update k c' xs) = map f xs"
  by (induction xs) (auto split: if_splits)

lemma update_set:
  "distinct (map fst xs) \<Longrightarrow> x \<in> set (AList.update k c xs) \<Longrightarrow> x = (k, c) \<or> (x \<in> set xs \<and> fst x \<noteq> k)"
  by (induction xs) (force split: if_splits)+

text \<open>A step that changes one connection, and the database only where that character's rows are.\<close>

lemma realm_ok_update:
  assumes ok: "realm_ok R w" and c: "conn_of k w = Some c" and ids: "char_id c' = char_id c" "account_id c' = account_id c"
    and c': "conn_ok R c'" "accounted c' db"
    and frame: "\<And>d. other (char_id c) (account_id c) d \<Longrightarrow> accounted d (store w) \<Longrightarrow> accounted d db"
  shows "realm_ok R (put_conn k c' (w\<lparr>store := db\<rparr>))"
proof -
  have dist: "distinct (map fst (conns w))" "distinct (map (\<lambda>(k, c). account_id c) (conns w))"
    using ok by (simp_all add: realm_ok_def)
  have at: "map_of (conns w) k = Some c" using c by (simp add: conn_of_def)
  have "conn_fits R db x" if "x \<in> set (AList.update k c' (conns w))" for x
  proof (cases "x = (k, c')")
    case True
    then show ?thesis using c' ids realm_okD(1) [OF ok c] by (simp add: conn_fits_def)
  next
    case False
    then have x: "x \<in> set (conns w)" "fst x \<noteq> k" using update_set [OF dist(1) that] by simp_all
    obtain j d where jd: "x = (j, d)" by (cases x)
    have fits: "conn_fits R (store w) (j, d)" using ok x(1) by (auto simp: realm_ok_def list_all_iff jd)
    have "account_id d \<noteq> account_id c"
      using dist(2) x map_of_SomeD [OF at] by (auto simp: jd distinct_map inj_on_def)
    moreover have "char_id d \<noteq> char_id c" using fits realm_okD(1) [OF ok c] x(2) by (simp add: conn_fits_def jd)
    ultimately show ?thesis using fits frame by (simp add: conn_fits_def jd other_def)
  qed
  then show ?thesis
    using ok update_map [OF dist(1) at, of fst c'] update_map [OF dist(1) at, of "\<lambda>(k, c). account_id c" c'] ids
    by (simp add: realm_ok_def put_conn_def list_all_iff)
qed


lemma put_conn_simps [simp]:
  "store (put_conn k c w) = store w" "trades (put_conn k c w) = trades w" "parties (put_conn k c w) = parties w"
  "conn_of j (put_conn k c w) = (if j = k then Some c else conn_of j w)"
  "conn_of j (w\<lparr>store := db\<rparr>) = conn_of j w" "conn_of j (w\<lparr>trades := tm\<rparr>) = conn_of j w" "conn_of j (w\<lparr>parties := gm\<rparr>) = conn_of j w"
  by (simp_all add: put_conn_def conn_of_def update_conv')

lemma realm_ok_trades: "realm_ok R w \<Longrightarrow> manager_wf tm \<Longrightarrow> realm_ok R (w\<lparr>trades := tm\<rparr>)"
  by (simp add: realm_ok_def)

lemma realm_distinct_accounts:
  assumes "realm_ok R w" "conn_of j w = Some d" "conn_of k w = Some c" "j \<noteq> k"
  shows "other (char_id c) (account_id c) d"
proof -
  have "(j, d) \<in> set (conns w)" "(k, c) \<in> set (conns w)" using assms(2,3) by (auto simp: conn_of_def dest: map_of_SomeD)
  then have "account_id d \<noteq> account_id c"
    using assms(1,4) by (fastforce simp: realm_ok_def distinct_map inj_on_def)
  moreover have "char_id d \<noteq> char_id c" using realm_okD(1) [OF assms(1,2)] realm_okD(1) [OF assms(1,3)] assms(4) by simp
  ultimately show ?thesis by (simp add: other_def)
qed

definition realm_bounded :: "world \<Rightarrow> bool" where
  "realm_bounded w \<longleftrightarrow> (\<forall>k c. conn_of k w = Some c \<longrightarrow> coins_bounded c \<and> conn_small c)"

lemma same_gap_refl [simp]: "same_gap db db"
  by (simp add: same_gap_def)

lemma same_gap_trans: "same_gap a b \<Longrightarrow> same_gap b c \<Longrightarrow> same_gap a c"
  by (simp add: same_gap_def)

lemma flush_one_keeps:
  assumes ok: "realm_ok R w" and bd: "realm_bounded w" and res: "flush_one commits k w = (r, w')"
  shows "realm_ok R w' \<and> same_gap (store w) (store w') \<and> realm_bounded w' \<and> trades w' = trades w \<and> parties w' = parties w
    \<and> (\<forall>j. j \<noteq> k \<longrightarrow> conn_of j w' = conn_of j w)
    \<and> (\<forall>c. conn_of k w = Some c \<longrightarrow> (\<exists>c'. conn_of k w' = Some c' \<and> inventory c' = inventory c \<and> coins c' = coins c
         \<and> conn_items q c' = conn_items q c \<and> conn_coin c' = conn_coin c
         \<and> (r \<longrightarrow> \<not> any_store_dirty c' \<and> item_events c' = [])))"
proof (cases "conn_of k w")
  case None
  then show ?thesis using res ok bd by (simp add: flush_one_def)
next
  case (Some c)
  obtain c' db where p: "persist_dirty_stores commits c (store w) = (r, c', db)" and w': "w' = put_conn k c' (w\<lparr>store := db\<rparr>)"
    using res Some by (auto simp: flush_one_def split: prod.splits)
  note c = realm_okD [OF ok Some]
  have small: "conn_small c" "coins_bounded c" using bd Some by (simp_all add: realm_bounded_def)
  have keep: "same_gap (store w) db" "accounted c' db" "conn_ok R c'"
    using flush_keeps [OF c(3) small(1) p] c(2) by simp_all
  have same: "inventory c' = inventory c \<and> coins c' = coins c \<and> bank_coins c' = bank_coins c \<and> bank_items c' = bank_items c
      \<and> account_bank_items c' = account_bank_items c"
  proof (cases r)
    case True
    then show ?thesis using flush_clean [of commits c "store w" c' db] p by simp
  next
    case False
    then show ?thesis using persist_failed p by fastforce
  qed
  have "realm_ok R w'" unfolding w'
    using realm_ok_update [OF ok Some _ _ keep(3,2)] flush_ids [OF p] flush_frame [OF p] by blast
  moreover have "realm_bounded w'"
    using bd small same by (auto simp: w' realm_bounded_def coins_bounded_def conn_coin_def conn_small_def)
  moreover have "r \<longrightarrow> \<not> any_store_dirty c' \<and> item_events c' = []"
    using flush_clean [of commits c "store w" c' db] p by simp
  ultimately show ?thesis using keep(1) same Some by (simp add: w' conn_items_def conn_coin_def)
qed

lemma ledger_all_events: "item_events (ledger_all t rows c) = item_events c @ map (\<lambda>r. r\<lparr>ev_at := t, ev_char := char_id c\<rparr>) rows"
  by (induction rows arbitrary: c) (simp_all add: ledger_all_simps, simp add: ledger_def)

lemma ledger_all_as_update: "ledger_all t rows c = c\<lparr>item_events := item_events c @ map (\<lambda>r. r\<lparr>ev_at := t, ev_char := char_id c\<rparr>) rows\<rparr>"
  by (induction rows arbitrary: c) (simp_all add: ledger_all_simps ledger_def)

lemma apply_side_revert:
  assumes "apply_side R t partner gives receives pay gain c = (ok, tt, c')"
  shows "revert_side c c' = c\<lparr>inventory_dirty := ok \<or> inventory_dirty c\<rparr>"
proof (cases ok)
  case True
  then obtain iv where "c' = ledger_all t (trade_rows partner gives receives pay gain)
      (c\<lparr>inventory := iv, coins := swap_coins (coins c) pay gain, inventory_dirty := True\<rparr>)"
    using assms by (auto simp: apply_side_def split: prod.splits bool.splits)
  then show ?thesis using True by (simp add: revert_side_def ledger_rollback_def ledger_mark_def ledger_all_as_update)
next
  case False
  then obtain iv where "c' = c\<lparr>inventory := iv\<rparr>" using assms by (auto simp: apply_side_def split: prod.splits bool.splits)
  then show ?thesis using False by (simp add: revert_side_def ledger_rollback_def ledger_mark_def)
qed

lemma accounted_dirty: "accounted c db \<Longrightarrow> accounted (c\<lparr>inventory_dirty := d \<or> inventory_dirty c\<rparr>) db"
  by (auto simp: accounted_def db_ok_def clean_saved_def own_queue_def item_drift_def coin_drift_def saved_items_def saved_coin_def
      conn_items_def conn_coin_def)


lemma trade_close_wf: "manager_wf tm \<Longrightarrow> manager_wf (snd (trade_close c tm))"
  by (metis trade_close_None trade_close_effect not_None_eq prod.collapse)

lemma close_trade_keeps:
  assumes "realm_ok R w"
  shows "realm_ok R (fst (close_trade c reason w)) \<and> store (fst (close_trade c reason w)) = store w
    \<and> conns (fst (close_trade c reason w)) = conns w"
proof -
  have "manager_wf (trades w)" using assms by (simp add: realm_ok_def)
  then have "manager_wf (snd (trade_close c (trades w)))"
    by (metis trade_close_None trade_close_effect not_None_eq prod.collapse)
  then show ?thesis
    using assms realm_ok_trades [OF assms] by (auto simp: close_trade_def split: prod.splits option.splits)
qed

lemma realm_ok_dirty:
  assumes ok: "realm_ok R w" and c: "conn_of k w = Some c"
  shows "realm_ok R (put_conn k (c\<lparr>inventory_dirty := d \<or> inventory_dirty c\<rparr>) w)"
proof -
  have "conn_ok R (c\<lparr>inventory_dirty := d \<or> inventory_dirty c\<rparr>)" using realm_okD(2) [OF ok c] by (simp add: conn_ok_def)
  from realm_ok_update [OF ok c _ _ this accounted_dirty [OF realm_okD(3) [OF ok c]]]
  show ?thesis by simp
qed

text \<open>The two sides of a committed exchange.\<close>

lemma commit_trade_keeps:
  assumes ok: "realm_ok R w" and a: "conn_of a w = Some ca" and b: "conn_of b w = Some cb" and ab: "a \<noteq> b"
    and clean: "\<not> any_store_dirty ca" "\<not> any_store_dirty cb"
    and bal: "balanced R ca (ca'\<lparr>coins_dirty := True\<rparr>)" "balanced R cb (cb'\<lparr>coins_dirty := True\<rparr>)"
    and sa: "\<not> bank_dirty ca'" "\<not> bank_items_dirty ca'" "\<not> account_bank_items_dirty ca'" "inventory_dirty ca'" "conn_small ca'"
    and sb: "\<not> bank_dirty cb'" "\<not> bank_items_dirty cb'" "\<not> account_bank_items_dirty cb'" "inventory_dirty cb'" "conn_small cb'"
    and tm: "manager_wf tm"
    and db: "commit_trade commits a ca' b cb' (store w) = Some db"
  shows "realm_ok R (put_conn b (cb'\<lparr>item_events := []\<rparr>) (put_conn a (ca'\<lparr>item_events := []\<rparr>) (w\<lparr>trades := tm, store := db\<rparr>)))
    \<and> same_gap (store w) db"
proof -
  let ?db1 = "commit_side (int a) ca' (store w)"
  have db': "db = commit_side (int b) cb' ?db1" using db by (simp add: commit_trade_def split: if_splits)
  have ids: "char_id ca = int a" "char_id cb = int b" using realm_okD(1) ok a b by blast+
  have ids': "char_id ca' = char_id ca" "account_id ca' = account_id ca" "char_id cb' = char_id cb" "account_id cb' = account_id cb"
    using bal by (simp_all add: balanced_def flags_follow_def)
  note ka = commit_side_keeps [OF realm_okD(3) [OF ok a] clean(1) bal(1) sa, unfolded ids(1)]
  have ok_a: "conn_ok R (ca'\<lparr>item_events := []\<rparr>)" "conn_ok R (cb'\<lparr>item_events := []\<rparr>)"
    using bal by (simp_all add: balanced_def conn_ok_def)
  have one: "realm_ok R (put_conn a (ca'\<lparr>item_events := []\<rparr>) (w\<lparr>store := ?db1\<rparr>))"
    using realm_ok_update [OF ok a _ _ ok_a(1) ka(2)] ka(3) ids' ids by simp
  have b1: "conn_of b (put_conn a (ca'\<lparr>item_events := []\<rparr>) (w\<lparr>store := ?db1\<rparr>)) = Some cb" using b ab by simp
  note kb = commit_side_keeps [OF realm_okD(3) [OF one b1] clean(2) bal(2) sb, unfolded ids(2)]
  have "realm_ok R (put_conn b (cb'\<lparr>item_events := []\<rparr>) ((put_conn a (ca'\<lparr>item_events := []\<rparr>) (w\<lparr>store := ?db1\<rparr>))\<lparr>store := db\<rparr>))"
    using realm_ok_update [OF one b1 _ _ ok_a(2), of db] kb(2,3) ids' ids by (simp add: db')
  from realm_ok_trades [OF this tm]
  have "realm_ok R (put_conn b (cb'\<lparr>item_events := []\<rparr>) (put_conn a (ca'\<lparr>item_events := []\<rparr>) (w\<lparr>trades := tm, store := db\<rparr>)))"
    by (simp add: put_conn_def realm_ok_def)
  moreover have "same_gap (store w) db" using ka(1) kb(1) same_gap_trans by (auto simp: db')
  ultimately show ?thesis ..
qed


text \<open>Two worlds in which everybody carries the same.\<close>

definition held_alike :: "world \<Rightarrow> world \<Rightarrow> bool" where
  "held_alike w w' \<longleftrightarrow> (\<forall>k c. conn_of k w = Some c \<longrightarrow> (\<exists>c'. conn_of k w' = Some c' \<and> inventory c' = inventory c \<and> coins c' = coins c))"

lemma held_alikeD:
  "held_alike w w' \<Longrightarrow> conn_of k w = Some c \<Longrightarrow> conn_of k w' = Some c' \<Longrightarrow> inventory c' = inventory c \<and> coins c' = coins c"
  by (force simp: held_alike_def)

lemma held_alike_trans: "held_alike a b \<Longrightarrow> held_alike b c \<Longrightarrow> held_alike a c"
  unfolding held_alike_def by metis

lemma flush_one_alike:
  assumes "flush_one commits k w = (r, w')"
  shows "held_alike w w'"
proof (cases "conn_of k w")
  case None
  then show ?thesis using assms by (auto simp: flush_one_def held_alike_def)
next
  case (Some c)
  then obtain c' db where p: "persist_dirty_stores commits c (store w) = (r, c', db)" "w' = put_conn k c' (w\<lparr>store := db\<rparr>)"
    using assms by (auto simp: flush_one_def split: prod.splits)
  have "inventory c' = inventory c \<and> coins c' = coins c"
    using p(1) by (auto simp: persist_dirty_stores_def split: if_splits option.splits)
  then show ?thesis using Some p(2) by (simp add: held_alike_def)
qed

definition others_alike :: "trade_session \<Rightarrow> world \<Rightarrow> world \<Rightarrow> bool" where
  "others_alike s w w' \<longleftrightarrow> (\<forall>k. k \<noteq> cid (side_a s) \<longrightarrow> k \<noteq> cid (side_b s) \<longrightarrow> conn_of k w' = conn_of k w)"

text \<open>An exchange, whatever the database answers.\<close>

definition exchange_ready :: "trade_session \<Rightarrow> give list \<Rightarrow> give list \<Rightarrow> world \<Rightarrow> bool" where
  "exchange_ready s ga gb w \<longleftrightarrow> cid (side_a s) \<noteq> cid (side_b s)
     \<and> \<not> has_negative (side_coins (side_a s)) \<and> \<not> has_negative (side_coins (side_b s))
     \<and> (\<exists>ca cb. conn_of (cid (side_a s)) w = Some ca \<and> conn_of (cid (side_b s)) w = Some cb
      \<and> has_at_least (coins ca) (side_coins (side_a s)) \<and> has_at_least (coins cb) (side_coins (side_b s))
      \<and> gives_match ga (inventory ca) \<and> gives_match gb (inventory cb))"

lemma checks_ready:
  assumes "manager_wf (trades w)" "trade_checks R who w = Inr (s, ga, gb)"
  shows "exchange_ready s ga gb w"
proof -
  note c = trade_checks_Inr [OF assms(2)]
  obtain sid where "session_wf sid s (by_cid (trades w))" using session_of_wf [OF assms(1) c(1)] by blast
  with c(2) show ?thesis by (simp add: exchange_ready_def session_wf_def side_wf_def)
qed

lemma trade_exchange_cases:
  assumes ok: "realm_ok R w" and bd: "realm_bounded w" and reg: "reg_ok R" and ready: "exchange_ready s ga gb w"
    and res: "trade_exchange R t ans s ga gb w = (w', out)"
  shows "(\<exists>w2. realm_ok R w2 \<and> same_gap (store w) (store w2) \<and> w' = fst (close_trade (cid (side_a s)) ''Trade failed.'' w2)
       \<and> held_alike w w2 \<and> others_alike s w w2)
    \<or> (\<exists>w2 ca cb ta ca' tb cb' db.
         realm_ok R w2 \<and> same_gap (store w) (store w2) \<and> trades w2 = trades w \<and> others_alike s w w2
         \<and> conn_of (cid (side_a s)) w2 = Some ca \<and> conn_of (cid (side_b s)) w2 = Some cb
         \<and> (\<forall>c. conn_of (cid (side_a s)) w = Some c \<longrightarrow> inventory ca = inventory c \<and> coins ca = coins c)
         \<and> (\<forall>c. conn_of (cid (side_b s)) w = Some c \<longrightarrow> inventory cb = inventory c \<and> coins cb = coins c)
         \<and> coins_bounded ca \<and> coins_bounded cb \<and> \<not> any_store_dirty ca \<and> \<not> any_store_dirty cb
         \<and> apply_side R t (cid (side_b s)) ga gb (side_coins (side_a s)) (side_coins (side_b s)) ca = (True, ta, ca')
         \<and> apply_side R t (cid (side_a s)) gb ga (side_coins (side_b s)) (side_coins (side_a s)) cb = (True, tb, cb')
         \<and> commit_trade (commit_ok ans) (cid (side_a s)) ca' (cid (side_b s)) cb' (store w2) = Some db
         \<and> w' = put_conn (cid (side_b s)) (cb'\<lparr>item_events := []\<rparr>) (put_conn (cid (side_a s)) (ca'\<lparr>item_events := []\<rparr>)
                 (w2\<lparr>trades := snd (trade_close (cid (side_a s)) (trades w2)), store := db\<rparr>)))"
    (is "?failed \<or> ?done")
proof -
  let ?a = "cid (side_a s)" and ?b = "cid (side_b s)"
  have ab: "?a \<noteq> ?b" using ready by (simp add: exchange_ready_def)
  obtain a0 b0 where at: "conn_of ?a w = Some a0" "conn_of ?b w = Some b0" using ready by (auto simp: exchange_ready_def)
  obtain r1 w1 where f1: "flush_one (flush_a ans) ?a w = (r1, w1)" by (metis surj_pair)
  note k1 = flush_one_keeps [OF ok bd f1] and h1 = flush_one_alike [OF f1]
  show ?thesis
  proof (cases r1)
    case False
    then have "w' = fst (close_trade ?a ''Trade failed.'' w1)" using res f1 by (simp add: trade_exchange_def Let_def split: bool.splits)
    moreover have "others_alike s w w1" using k1 by (simp add: others_alike_def)
    ultimately show ?thesis using k1 h1 by blast
  next
    case r1: True
    obtain r2 w2 where f2: "flush_one (flush_b ans) ?b w1 = (r2, w2)" by (metis surj_pair)
    have ok1: "realm_ok R w1" and bd1: "realm_bounded w1" using k1 by blast+
    note k2 = flush_one_keeps [OF ok1 bd1 f2]
    have gap: "same_gap (store w) (store w2)" using k1 k2 same_gap_trans by blast
    have alone: "others_alike s w w2" using k1 k2 by (simp add: others_alike_def)
    have kept: "held_alike w w2" using h1 flush_one_alike [OF f2] by (rule held_alike_trans)
    show ?thesis
    proof (cases r2)
      case False
      then have "w' = fst (close_trade ?a ''Trade failed.'' w2)"
        using res f1 f2 r1 by (simp add: trade_exchange_def Let_def split: bool.splits)
      then show ?thesis using k2 gap kept alone by blast
    next
      case r2: True
      obtain ca where "conn_of ?a w1 = Some ca" "\<not> any_store_dirty ca" using k1 at(1) r1 by blast
      moreover have "conn_of ?a w2 = conn_of ?a w1" using k2 ab by blast
      ultimately have ca: "conn_of ?a w2 = Some ca" "\<not> any_store_dirty ca" by simp_all
      have "conn_of ?b w1 = Some b0" using k1 at(2) ab by simp
      then obtain cb where cb: "conn_of ?b w2 = Some cb" "\<not> any_store_dirty cb" using k2 r2 by blast
      have ok2: "realm_ok R w2" and bd2: "coins_bounded ca" "coins_bounded cb" and tr: "trades w2 = trades w"
        using k1 k2 ca cb by (auto simp: realm_bounded_def)
      obtain oka ta ca' where sa: "apply_side R t ?b ga gb (side_coins (side_a s)) (side_coins (side_b s)) ca = (oka, ta, ca')"
        by (metis surj_pair)
      obtain okb tb cb' where sb: "(if oka then apply_side R t ?a gb ga (side_coins (side_b s)) (side_coins (side_a s)) cb
          else (False, [], cb)) = (okb, tb, cb')" by (metis surj_pair)
      show ?thesis
      proof (cases "if okb then commit_trade (commit_ok ans) ?a ca' ?b cb' (store w2) else None")
        case None
        let ?w3 = "put_conn ?b (revert_side cb cb') (put_conn ?a (revert_side ca ca') w2)"
        have fin: "w' = fst (close_trade ?a ''Trade failed.'' ?w3)"
          using res f1 f2 r1 r2 ca cb sa sb None by (simp add: trade_exchange_def Let_def)
        have ra: "revert_side ca ca' = ca\<lparr>inventory_dirty := oka \<or> inventory_dirty ca\<rparr>" using apply_side_revert [OF sa] .
        have rb: "revert_side cb cb' = cb\<lparr>inventory_dirty := okb \<or> inventory_dirty cb\<rparr>"
        proof (cases oka)
          case True
          then show ?thesis using sb apply_side_revert by simp
        next
          case False
          then show ?thesis using sb by (simp add: revert_side_def ledger_rollback_def ledger_mark_def)
        qed
        have "realm_ok R (put_conn ?a (revert_side ca ca') w2)" unfolding ra by (rule realm_ok_dirty [OF ok2 ca(1)])
        then have "realm_ok R ?w3" unfolding rb using realm_ok_dirty cb(1) ab by simp
        moreover note fin
        moreover have "same_gap (store w) (store ?w3)" "others_alike s w ?w3" using gap alone by (simp_all add: others_alike_def)
        moreover have "held_alike w ?w3"
        proof (rule held_alike_trans [OF kept])
          show "held_alike w2 ?w3" using ca(1) cb(1) by (auto simp: held_alike_def ra rb)
        qed
        ultimately show ?thesis by blast
      next
        case (Some db)
        then have okb: okb and com: "commit_trade (commit_ok ans) ?a ca' ?b cb' (store w2) = Some db" by (simp_all split: if_splits)
        then have oka: oka using sb by (simp split: if_splits)
        have "w' = put_conn ?b (cb'\<lparr>item_events := []\<rparr>) (put_conn ?a (ca'\<lparr>item_events := []\<rparr>)
                 (w2\<lparr>trades := snd (trade_close ?a (trades w2)), store := db\<rparr>))"
          using res f1 f2 r1 r2 ca cb sa sb com oka okb by (simp add: trade_exchange_def Let_def)
        moreover have "\<forall>c. conn_of ?a w = Some c \<longrightarrow> inventory ca = inventory c \<and> coins ca = coins c"
            "\<forall>c. conn_of ?b w = Some c \<longrightarrow> inventory cb = inventory c \<and> coins cb = coins c"
          using held_alikeD [OF kept _ ca(1)] held_alikeD [OF kept _ cb(1)] by blast+
        ultimately show ?thesis using ok2 gap tr alone ca cb bd2 sa sb oka okb com by auto
      qed
    qed
  qed
qed


text \<open>What a trade intent leaves alone when it does not commit: everything but the sessions.\<close>

definition only_sessions :: "world \<Rightarrow> world \<Rightarrow> bool" where
  "only_sessions w w' \<longleftrightarrow> conns w' = conns w \<and> store w' = store w \<and> parties w' = parties w \<and> manager_wf (trades w')"

lemma only_sessions_keeps:
  assumes "only_sessions w w'" "realm_ok R w"
  shows "realm_ok R w' \<and> same_gap (store w) (store w') \<and> held_alike w w'"
  using assms by (simp add: only_sessions_def realm_ok_def held_alike_def conn_of_def)

lemma only_sessions_trans: "only_sessions a b \<Longrightarrow> only_sessions b c \<Longrightarrow> only_sessions a c"
  by (simp add: only_sessions_def)

lemma drop_offers_wf: "manager_wf tm \<Longrightarrow> manager_wf (drop_offers who idxs tm)"
  unfolding drop_offers_def
  by (induction idxs arbitrary: tm) (auto split: sum.split intro: retrieve_item_wf)

lemma close_trade_sessions: "manager_wf (trades w) \<Longrightarrow> only_sessions w (fst (close_trade c reason w))"
proof -
  assume wf: "manager_wf (trades w)"
  then have "manager_wf (snd (trade_close c (trades w)))"
    by (rule trade_close_wf)
  then show ?thesis by (auto simp: close_trade_def only_sessions_def split: prod.splits option.splits)
qed

lemma trade_checks_Inl:
  assumes wf: "manager_wf (trades w)" and res: "trade_checks R who w = Inl (w', out)"
  shows "only_sessions w w'"
proof (cases "session_of who (trades w)")
  case None
  then show ?thesis using assms by (auto simp: trade_checks_def only_sessions_def)
next
  case (Some s)
  have close: "only_sessions w w'" if "close_trade c r w = (w', out)" for c r
    using close_trade_sessions [OF wf, of c r] that by simp
  have reset: "only_sessions w (w\<lparr>trades := clear_accepts_of c tm\<rparr>)" if "manager_wf tm" for c tm
    using clear_accepts_of_wf [OF that] by (simp add: only_sessions_def)
  have dropped: "manager_wf (drop_offers b cb (drop_offers a ca (trades w)))" for a b ca cb
    using wf by (simp add: drop_offers_wf)
  show ?thesis using res Some reset [OF wf] reset [OF dropped] close
    by (auto simp: trade_checks_def Let_def split: if_splits option.splits prod.splits)
qed


lemma side_payable:
  assumes "\<not> has_negative d" "has_at_least (coins c) d" "coins_bounded c" "conn_ok R c"
  shows "payable d"
  using assms covered_value [OF assms(2)] coin_bounds(3) [OF assms(4,3)] by (simp add: payable_def)

text \<open>An exchange either moves nothing or commits both sides; the books hold either way.\<close>

definition wealth :: "string \<Rightarrow> nat \<Rightarrow> world \<Rightarrow> nat" where
  "wealth q k w = (case conn_of k w of None \<Rightarrow> 0 | Some c \<Rightarrow> inv_total q (inventory c))"

definition purse_of :: "nat \<Rightarrow> world \<Rightarrow> int" where
  "purse_of k w = (case conn_of k w of None \<Rightarrow> 0 | Some c \<Rightarrow> coin_value (coins c))"

lemma trade_exchange_keeps:
  assumes ok: "realm_ok R w" and bd: "realm_bounded w" and reg: "reg_ok R" and ready: "exchange_ready s ga gb w"
    and res: "trade_exchange R t ans s ga gb w = (w', out)" and bd': "realm_bounded w'"
  shows "realm_ok R w' \<and> same_gap (store w) (store w')
    \<and> wealth q (cid (side_a s)) w' + wealth q (cid (side_b s)) w' = wealth q (cid (side_a s)) w + wealth q (cid (side_b s)) w
    \<and> purse_of (cid (side_a s)) w' + purse_of (cid (side_b s)) w' = purse_of (cid (side_a s)) w + purse_of (cid (side_b s)) w
    \<and> others_alike s w w'"
proof -
  let ?a = "cid (side_a s)" and ?b = "cid (side_b s)"
  obtain a0 b0 where at: "conn_of ?a w = Some a0" "conn_of ?b w = Some b0" and ab: "?a \<noteq> ?b"
    and neg: "\<not> has_negative (side_coins (side_a s))" "\<not> has_negative (side_coins (side_b s))"
    and cover: "has_at_least (coins a0) (side_coins (side_a s))" "has_at_least (coins b0) (side_coins (side_b s))"
    and match: "gives_match ga (inventory a0)" "gives_match gb (inventory b0)"
    using ready by (auto simp: exchange_ready_def)
  consider (failed) w2 where "realm_ok R w2" "same_gap (store w) (store w2)" "w' = fst (close_trade ?a ''Trade failed.'' w2)" "held_alike w w2"
        "others_alike s w w2"
    | (committed) w2 ca cb ta ca' tb cb' db where
        "realm_ok R w2" "same_gap (store w) (store w2)" "conn_of ?a w2 = Some ca" "conn_of ?b w2 = Some cb"
        "inventory ca = inventory a0" "coins ca = coins a0" "inventory cb = inventory b0" "coins cb = coins b0"
        "coins_bounded ca" "coins_bounded cb" "\<not> any_store_dirty ca" "\<not> any_store_dirty cb"
        "apply_side R t ?b ga gb (side_coins (side_a s)) (side_coins (side_b s)) ca = (True, ta, ca')"
        "apply_side R t ?a gb ga (side_coins (side_b s)) (side_coins (side_a s)) cb = (True, tb, cb')"
        "commit_trade (commit_ok ans) ?a ca' ?b cb' (store w2) = Some db"
        "w' = put_conn ?b (cb'\<lparr>item_events := []\<rparr>) (put_conn ?a (ca'\<lparr>item_events := []\<rparr>)
                 (w2\<lparr>trades := snd (trade_close ?a (trades w2)), store := db\<rparr>))"
        "others_alike s w w2"
    using trade_exchange_cases [OF ok bd reg ready res] at by auto
  then show ?thesis
  proof cases
    case failed
    have "only_sessions w2 w'" using close_trade_sessions failed(1,3) by (simp add: realm_ok_def)
    then have same: "realm_ok R w'" "same_gap (store w) (store w')" "held_alike w w'"
      using only_sessions_keeps failed same_gap_trans held_alike_trans by blast+
    have "others_alike s w w'" using \<open>only_sessions w2 w'\<close> failed(5) by (simp add: only_sessions_def others_alike_def conn_of_def)
    obtain a1 where "conn_of ?a w' = Some a1" "inventory a1 = inventory a0" "coins a1 = coins a0"
      using same(3) at(1) unfolding held_alike_def by blast
    moreover obtain b1 where "conn_of ?b w' = Some b1" "inventory b1 = inventory b0" "coins b1 = coins b0"
      using same(3) at(2) unfolding held_alike_def by blast
    ultimately show ?thesis using same at \<open>others_alike s w w'\<close> by (simp add: wealth_def purse_of_def)
  next
    case committed
    note ea = realm_okD(2) [OF committed(1,3)] and eb = realm_okD(2) [OF committed(1,4)]
    have pay: "payable (side_coins (side_a s))" "payable (side_coins (side_b s))"
      using side_payable [OF neg(1) _ committed(9) ea] side_payable [OF neg(2) _ committed(10) eb] cover committed(6,8) by simp_all
    have cov: "has_at_least (coins ca) (side_coins (side_a s))" "has_at_least (coins cb) (side_coins (side_b s))"
      using cover committed(6,8) by simp_all
    have mt: "gives_match ga (inventory ca)" "gives_match gb (inventory cb)" using match committed(5,7) by simp_all
    note sa = apply_side_effect [OF ea reg committed(9) mt(1) neg(1) cov(1) pay(2) committed(13)]
      and sb = apply_side_effect [OF eb reg committed(10) mt(2) neg(2) cov(2) pay(1) committed(14)]
    have small: "conn_small ca'" "conn_small cb'"
    proof -
      have "conn_of ?a w' = Some (ca'\<lparr>item_events := []\<rparr>)" "conn_of ?b w' = Some (cb'\<lparr>item_events := []\<rparr>)"
        using ab by (simp_all add: committed(16))
      then have "conn_small (ca'\<lparr>item_events := []\<rparr>)" "conn_small (cb'\<lparr>item_events := []\<rparr>)"
        using bd' unfolding realm_bounded_def by blast+
      then show "conn_small ca'" "conn_small cb'" by (simp_all add: conn_small_def)
    qed
    have flags: "\<not> bank_dirty ca'" "\<not> bank_items_dirty ca'" "\<not> account_bank_items_dirty ca'" "inventory_dirty ca'"
        "\<not> bank_dirty cb'" "\<not> bank_items_dirty cb'" "\<not> account_bank_items_dirty cb'" "inventory_dirty cb'"
      using sa(4) sb(4) committed(11,12) by (simp_all add: any_store_dirty_def)
    have tm: "manager_wf (snd (trade_close ?a (trades w2)))" using committed(1) by (simp add: realm_ok_def trade_close_wf)
    have keep: "realm_ok R w' \<and> same_gap (store w2) db"
      unfolding committed(16)
      by (rule commit_trade_keeps [OF committed(1,3,4) ab committed(11,12) sa(1) sb(1) flags(1-4) small(1) flags(5-8) small(2) tm committed(15)])
    have items: "inv_total q (inventory ca') + inv_total q (inventory cb') = inv_total q (inventory a0) + inv_total q (inventory b0)"
      using sa(2) [of q] sb(2) [of q] committed(5,7) by simp
    have coin: "coin_value (coins ca') + coin_value (coins cb') = coin_value (coins a0) + coin_value (coins b0)"
      using sa(3) sb(3) committed(6,8) by simp
    have "store w' = db" by (simp add: committed(16))
    then show ?thesis
      using keep same_gap_trans [OF committed(2)] items coin at ab committed(17)
      by (simp add: wealth_def purse_of_def committed(16) others_alike_def)
  qed
qed


section \<open>Every trade intent\<close>

lemma trade_accept_cids:
  assumes wf: "manager_wf tm" and s: "session_of who tm = Some s" and res: "trade_accept who tm = Inr (both, tm')"
    and s': "session_of who tm' = Some s'"
  shows "cid (side_a s') = cid (side_a s) \<and> cid (side_b s') = cid (side_b s)"
proof -
  obtain x where x: "side_of who s = Some x" and tm': "tm' = set_session who (set_side who (x\<lparr>accepted := True\<rparr>) s) tm"
    using res s by (auto simp: trade_accept_def Let_def split: option.splits)
  have "s' = set_side who (x\<lparr>accepted := True\<rparr>) s" using s' session_of_set_session [OF wf s] by (simp add: tm')
  then show ?thesis using x by (auto simp: side_of_def set_side_def split: if_splits)
qed

lemma accept_intent_keeps:
  assumes ok: "realm_ok R w" and bd: "realm_bounded w" "realm_bounded w'" and reg: "reg_ok R"
    and s: "session_of who (trades w) = Some s" and res: "trade_accept_intent R t ans who w = (w', out)"
  shows "realm_ok R w' \<and> same_gap (store w) (store w')
    \<and> wealth q (cid (side_a s)) w' + wealth q (cid (side_b s)) w' = wealth q (cid (side_a s)) w + wealth q (cid (side_b s)) w
    \<and> purse_of (cid (side_a s)) w' + purse_of (cid (side_b s)) w' = purse_of (cid (side_a s)) w + purse_of (cid (side_b s)) w
    \<and> others_alike s w w'"
proof -
  have wf: "manager_wf (trades w)" using ok by (simp add: realm_ok_def)
  have quiet: ?thesis if "only_sessions w w'"
    using only_sessions_keeps [OF that ok] that by (simp add: only_sessions_def wealth_def purse_of_def others_alike_def conn_of_def)
  show ?thesis
  proof (cases "trade_accept who (trades w)")
    case (Inl e)
    then have "w' = w" using res by (simp add: trade_accept_intent_def)
    then show ?thesis using quiet wf by (simp add: only_sessions_def)
  next
    case (Inr r)
    obtain both tm where r: "r = (both, tm)" by (cases r)
    have wf1: "manager_wf tm" using trade_accept_wf [OF wf] Inr r by blast
    let ?w1 = "w\<lparr>trades := tm\<rparr>"
    have one: "only_sessions w ?w1" using wf1 by (simp add: only_sessions_def)
    show ?thesis
    proof (cases "both \<and> (\<exists>s ga gb. trade_checks R who ?w1 = Inr (s, ga, gb))")
      case False
      then have "w' = ?w1 \<or> (\<exists>out'. trade_checks R who ?w1 = Inl (w', out'))"
        using res Inr r by (cases "trade_checks R who ?w1") (auto simp: trade_accept_intent_def Let_def split: if_splits)
      then have "only_sessions w w'"
        using one trade_checks_Inl [of ?w1 R who w'] wf1 by (auto simp: only_sessions_def)
      then show ?thesis by (rule quiet)
    next
      case True
      then obtain s' ga gb where c: "trade_checks R who ?w1 = Inr (s', ga, gb)" by blast
      have ready: "exchange_ready s' ga gb ?w1" using checks_ready [OF _ c] wf1 by simp
      have ex: "trade_exchange R t ans s' ga gb ?w1 = (w', out)"
        using res Inr r True c by (simp add: trade_accept_intent_def)
      have ids: "cid (side_a s') = cid (side_a s) \<and> cid (side_b s') = cid (side_b s)"
        using trade_accept_cids [OF wf s _ trade_checks_Inr(1) [OF c, simplified]] Inr r by blast
      have "realm_ok R ?w1" "realm_bounded ?w1"
        using realm_ok_trades [OF ok wf1] bd(1) by (simp_all add: realm_bounded_def)
      from trade_exchange_keeps [OF this reg ready ex bd(2)] show ?thesis
        by (simp add: ids wealth_def purse_of_def others_alike_def)
    qed
  qed
qed


section \<open>The world as a step relation\<close>

lemma realm_ok_balanced:
  assumes ok: "realm_ok R w" and c: "conn_of k w = Some c" and bal: "balanced R c c'"
  shows "realm_ok R (put_conn k c' w)"
proof -
  have "char_id c' = char_id c" "account_id c' = account_id c" "conn_ok R c'"
    using bal by (simp_all add: balanced_def flags_follow_def)
  from realm_ok_update [OF ok c this balanced_accounted [OF realm_okD(3) [OF ok c] bal]] show ?thesis by simp
qed

text \<open>The intents that concern one character only.\<close>

datatype intent = AtBank bank_intent | Buys buy_intent | Sells sell_intent | Handles "inv_intent \<times> body"

fun intent_step :: "env \<Rightarrow> trade_manager \<Rightarrow> nat \<Rightarrow> intent \<Rightarrow> connection \<Rightarrow> connection" where
  "intent_step E tm who (AtBank i) c = bank_step E tm who i c"
| "intent_step E tm who (Buys b) c = fst (buy_item E b c)"
| "intent_step E tm who (Sells s) c = fst (sell_item E tm who s c)"
| "intent_step E tm who (Handles i) c = inv_step E tm who i c"

fun intent_ok :: "env \<Rightarrow> intent \<Rightarrow> connection \<Rightarrow> bool" where
  "intent_ok E (AtBank i) c = bank_intent_ok i"
| "intent_ok E (Handles i) c = inv_safe E i c"
| "intent_ok E _ c = True"

lemma intent_step_balanced:
  assumes "conn_ok (reg E) c" "reg_ok (reg E)" "coins_bounded c" "intent_ok E i c"
  shows "balanced (reg E) c (intent_step E tm who i c)"
  using assms bank.keeps [of E c] buy.keeps [of E c] sell.keeps [of E c] bags.keeps [of E c] by (cases i) simp_all

interpretation alone: ledgered "intent_step E tm who" "reg E" "\<lambda>i c. reg_ok (reg E) \<and> coins_bounded c \<and> intent_ok E i c" for E tm who
  by unfold_locales (simp add: intent_step_balanced)

text \<open>What the wire and the content files guarantee of any intent: counts are \<open>u32\<close>, and nothing edible is a bag.\<close>

fun intent_typed :: "env \<Rightarrow> intent \<Rightarrow> bool" where
  "intent_typed E (AtBank i) = bank_intent_ok i"
| "intent_typed E (Handles i) = edible_no_bag (reg E)"
| "intent_typed E _ = True"

text \<open>The intent takes a whole filled bag in a split.\<close>

fun intent_spills :: "intent \<Rightarrow> connection \<Rightarrow> bool" where
  "intent_spills (Handles (Splits s, b)) c = spills (sp_src s) (sp_count s) (inventory c)"
| "intent_spills _ c = False"

lemma small_fit: "conn_small c \<Longrightarrow> stacks_fit i j (inventory c)"
proof -
  assume small: "conn_small c"
  have "ecount e < 2147483648" if "vget (base (inventory c)) k = Some e" for k e
  proof -
    have k: "k < length (base (inventory c))" "base (inventory c) ! k = Some e" using that by (auto simp: vget_def split: if_splits)
    have "list_all small_cell (base (inventory c))" using small by (simp add: conn_small_def rows_small_def)
    then have "small_cell (base (inventory c) ! k)" using k(1) by (simp add: list_all_length)
    then show ?thesis using k by (simp add: small_cell_def)
  qed
  note low = this
  have "ecount e + ecount x \<le> u32_max" if "vget (base (inventory c)) i = Some e" "vget (base (inventory c)) j = Some x" for e x
    using low [OF that(1)] low [OF that(2)] by simp
  then show ?thesis unfolding stacks_fit_def by (auto split: option.splits)
qed

lemma typed_intent_ok:
  assumes "intent_typed E i" "\<not> intent_spills i c" "reg_ok (reg E)" "conn_small c"
  shows "intent_ok E i c"
proof (cases i)
  case (Handles jb)
  obtain j b where "jb = (j, b)" by (cases jb)
  then show ?thesis using assms Handles small_fit by (cases j) simp_all
qed (use assms in simp_all)

text \<open>A step of the world, marked when it is a split that takes a whole filled bag and goes through: the one operation that loses
  units without a row.\<close>

inductive realm_step :: "env \<Rightarrow> bool \<Rightarrow> world \<Rightarrow> world \<Rightarrow> bool" for E where
  acts: "conn_of k w = Some c \<Longrightarrow> intent_typed E i \<Longrightarrow> c' = intent_step E (trades w) k i c
    \<Longrightarrow> realm_step E (intent_spills i c \<and> c' \<noteq> c) w (put_conn k c' w)"
| flushes: "flush_one commits k w = (r, w') \<Longrightarrow> realm_step E False w w'"
| prunes: "realm_step E False w (w\<lparr>store := fold_item_events_before cutoff (store w)\<rparr>)"
| requests: "realm_step E False w (fst (trade_request k target w))"
| offers_stack: "realm_step E False w (fst (trade_offer_item (reg E) k ws loc slot w))"
| retrieves: "realm_step E False w (fst (trade_retrieve_item k ws w))"
| offers_coin: "realm_step E False w (fst (trade_offer_coins k amount w))"
| cancels: "realm_step E False w (fst (trade_cancel k w))"
| accepts_deal: "realm_step E False w (fst (trade_accept_intent (reg E) (now E) ans k w))"
| sweeps: "realm_step E False w (fst (sweep_trades w))"
| groups_up: "group_step (parties w) gm \<Longrightarrow> realm_step E False w (w\<lparr>parties := gm\<rparr>)"

inductive_cases realm_stepE: "realm_step E sp w w'"

lemma trade_request_sessions: "manager_wf (trades w) \<Longrightarrow> only_sessions w (fst (trade_request k target w))"
  by (auto simp: trade_request_def only_sessions_def Let_def intro: trade_open_wf split: option.splits sum.splits)

lemma trade_retrieve_sessions: "manager_wf (trades w) \<Longrightarrow> only_sessions w (fst (trade_retrieve_item k ws w))"
  by (auto simp: trade_retrieve_item_def only_sessions_def intro: retrieve_item_wf split: sum.splits)

lemma trade_coins_sessions: "manager_wf (trades w) \<Longrightarrow> only_sessions w (fst (trade_offer_coins k amount w))"
  by (auto simp: trade_offer_coins_def only_sessions_def intro: offer_coins_wf split: sum.splits)

lemma sweep_one_sessions:
  assumes "only_sessions w (fst wo)"
  shows "only_sessions w (fst (sweep_one ab wo))"
proof -
  obtain a b v out where at: "ab = (a, b)" "wo = (v, out)" by (cases ab, cases wo)
  have "only_sessions v (fst (close_trade a r v))" for r
    using close_trade_sessions assms by (simp add: at only_sessions_def)
  then have "only_sessions w (fst (close_trade a r v))" for r using only_sessions_trans assms at by auto
  then show ?thesis using assms by (simp add: sweep_one_def at split_def)
qed

lemma sweep_sessions:
  assumes "manager_wf (trades w)"
  shows "only_sessions w (fst (sweep_trades w))"
proof -
  have "only_sessions w (fst (fold sweep_one ps wo))" if "only_sessions w (fst wo)" for ps wo
    using that by (induction ps arbitrary: wo) (simp_all add: sweep_one_sessions)
  moreover have "only_sessions w w" using assms by (simp add: only_sessions_def)
  ultimately show ?thesis by (simp add: sweep_trades_def)
qed

lemma offer_source_keeps:
  assumes ok: "realm_ok R w" and reg: "reg_ok R" and res: "offer_source R who loc slot w = Inr (at, w1, out)"
  shows "realm_ok R w1 \<and> store w1 = store w \<and> trades w1 = trades w"
proof (cases "loc = ''cursor''")
  case True
  then obtain c where c: "conn_of who w = Some c" using res by (auto simp: offer_source_def split: option.splits)
  obtain touched iv where park: "park_cursor_stack R (inventory c) = Inr ((at, touched), iv)"
      and w1: "w1 = put_conn who (c\<lparr>inventory := iv, inventory_dirty := True\<rparr>) w"
    using res True c by (auto simp: offer_source_def split: sum.splits prod.splits)
  note ok_c = realm_okD(2) [OF ok c]
  have "conserves R (inventory c) iv" using park_cursor_stack_conserves [OF reg conn_okD(1) [OF ok_c] park] .
  then have "balanced R c (c\<lparr>inventory := iv, inventory_dirty := True\<rparr>)"
    using ok_c by (simp add: books raised_def conserves_def)
  then show ?thesis using realm_ok_balanced [OF ok c] by (simp add: w1)
next
  case False
  then show ?thesis using res ok by (simp add: offer_source_def)
qed

lemma trade_offer_item_keeps:
  assumes ok: "realm_ok R w" and reg: "reg_ok R"
  shows "realm_ok R (fst (trade_offer_item R who ws loc slot w)) \<and> store (fst (trade_offer_item R who ws loc slot w)) = store w"
proof (cases "fst (trade_offer_item R who ws loc slot w) = w")
  case False
  then obtain at w1 out where src: "offer_source R who loc slot w = Inr (at, w1, out)"
    by (cases "offer_source R who loc slot w") (auto simp: trade_offer_item_def split: if_splits)
  note k = offer_source_keeps [OF ok reg src]
  have "fst (trade_offer_item R who ws loc slot w) = w1
      \<or> (\<exists>off tm. offer_item who ws off (trades w1) = Inr tm \<and> fst (trade_offer_item R who ws loc slot w) = w1\<lparr>trades := tm\<rparr>)"
    using False src
    by (cases at) (auto simp: trade_offer_item_def split: if_splits option.splits sum.splits prod.splits)
  moreover have "manager_wf (trades w1)" using conjunct1 [OF k] unfolding realm_ok_def by blast
  ultimately show ?thesis using k realm_ok_trades offer_item_wf by auto
qed (use ok in simp)

lemma realm_step_keeps:
  assumes st: "realm_step E False w w'" and ok: "realm_ok (reg E) w" and reg: "reg_ok (reg E)" and bd: "realm_bounded w" "realm_bounded w'"
  shows "realm_ok (reg E) w' \<and> same_gap (store w) (store w')"
proof -
  have wf: "manager_wf (trades w)" using ok by (simp add: realm_ok_def)
  have quiet: ?thesis if "only_sessions w w'" using only_sessions_keeps [OF that ok] by blast
  from st show ?thesis
  proof cases
    case (acts k c i c')
    have c: "conn_ok (reg E) c" "coins_bounded c" "conn_small c" using realm_okD(2) [OF ok acts(3)] bd(1) acts(3) by (simp_all add: realm_bounded_def)
    have "balanced (reg E) c c'"
    proof (cases "c' = c")
      case False
      then have "intent_ok E i c" using typed_intent_ok acts(1,4) reg c(3) by blast
      then show ?thesis using intent_step_balanced [OF c(1) reg c(2)] acts(5) by simp
    qed (use c(1) in \<open>simp add: balanced_refl\<close>)
    from realm_ok_balanced [OF ok acts(3) this] acts(2) show ?thesis by simp
  next
    case (flushes commits k r)
    then show ?thesis using flush_one_keeps [OF ok bd(1)] by blast
  next
    case (prunes cutoff)
    have "conn_fits (reg E) (fold_item_events_before cutoff (store w)) = conn_fits (reg E) (store w)"
      by (auto simp: conn_fits_def prune_accounted fun_eq_iff)
    then show ?thesis using prunes ok prune_same_gap by (simp add: realm_ok_def)
  next
    case requests
    then show ?thesis using trade_request_sessions [OF wf] quiet by blast
  next
    case offers_stack
    then show ?thesis using trade_offer_item_keeps [OF ok reg] by simp
  next
    case retrieves
    then show ?thesis using trade_retrieve_sessions [OF wf] quiet by blast
  next
    case offers_coin
    then show ?thesis using trade_coins_sessions [OF wf] quiet by blast
  next
    case cancels
    then show ?thesis using close_trade_sessions [OF wf] quiet by (simp add: trade_cancel_def)
  next
    case (accepts_deal ans k)
    obtain out where res: "trade_accept_intent (reg E) (now E) ans k w = (w', out)" using accepts_deal by (metis prod.collapse)
    show ?thesis
    proof (cases "session_of k (trades w)")
      case None
      then have "w' = w" using res by (simp add: trade_accept_intent_def trade_accept_def)
      then show ?thesis using ok by simp
    next
      case (Some s)
      then show ?thesis using accept_intent_keeps [OF ok bd reg Some res] by blast
    qed
  next
    case sweeps
    then show ?thesis using sweep_sessions [OF wf] quiet by blast
  next
    case (groups_up gm)
    then show ?thesis using ok group_step_wf by (simp add: realm_ok_def)
  qed
qed

end
