(* ===== verification/Market.thy ===== *)
theory Market
  imports Vendors Town
begin

text \<open>
  What the merchants' handlers promise the player: a purchase charges for exactly the units placed, a sale pays for
  exactly the units taken, and no sequence of the two makes a profit.
\<close>

section \<open>A purchase\<close>

text \<open>C26. A purchase either leaves the character as it was or puts between one and the asked number of units of the named item into the
  bags, taking the price of exactly those units and no other item; and then a merchant within service range that serves the character
  has the item in its stock.\<close>

theorem purchase_is_exact:
  assumes "conn_ok (reg E) c" "reg_ok (reg E)" "buy_item E b c = (c', out)"
  shows "c' = c \<or>
    (\<exists>m\<in>set (npcs E). ''vendor'' \<in> set (kinds m) \<and> f32_le (distance_to (npc_pos m) (pos c)) NPC_SERVICE_RANGE
      \<and> npc_serves E c m Apprehensive \<and> buy_name b \<in> set (stock m)) \<and>
    (\<exists>i k. lookup_by_name (reg E) (buy_name b) = Some i \<and> 0 < vendor_price i \<and> 1 \<le> k \<and> k \<le> buy_qty b
      \<and> (\<forall>q. inv_total q (inventory c') = inv_total q (inventory c) + (if q = path i then k else 0))
      \<and> coin_value (coins c') = coin_value (coins c) - sat64 (int (vendor_price i) * int k)
      \<and> inv_wf (reg E) (inventory c') \<and> bank_coins c' = bank_coins c \<and> bank_items c' = bank_items c
      \<and> account_bank_items c' = account_bank_items c)"
  using assms(1,2)
proof (cases rule: buy_item_cases [of E c b])
  case refused
  then show ?thesis using assms(3) by simp
next
  case (bought i d t k l iv)
  have eff: "inv_wf (reg E) iv \<and> inv_total q iv = inv_total q (inventory c) + units q (path i) k" for q
    using add_item_locating_Inr [OF assms(2) conn_okD(1) [OF assms(1)] bought(5)] bought(4) by blast
  note pay = spend_effect [OF conn_okD(4) [OF assms(1)], of "sat64 (int (vendor_price i) * int k)"]
  have c': "c' = fst (buy_item E b c)" using assms(3) by simp
  have "k \<le> buy_qty b" using bought(4) by simp
  then have "c' = c \<or> (\<exists>i k. lookup_by_name (reg E) (buy_name b) = Some i \<and> 0 < vendor_price i \<and> 1 \<le> k \<and> k \<le> buy_qty b
      \<and> (\<forall>q. inv_total q (inventory c') = inv_total q (inventory c) + (if q = path i then k else 0))
      \<and> coin_value (coins c') = coin_value (coins c) - sat64 (int (vendor_price i) * int k)
      \<and> inv_wf (reg E) (inventory c') \<and> bank_coins c' = bank_coins c \<and> bank_items c' = bank_items c
      \<and> account_bank_items c' = account_bank_items c)"
    using bought(1-3) eff pay bought(6) by (auto simp: c' bought(8) ledger_def units_def)
  moreover have "\<exists>m\<in>set (npcs E). ''vendor'' \<in> set (kinds m) \<and> f32_le (distance_to (npc_pos m) (pos c)) NPC_SERVICE_RANGE
      \<and> npc_serves E c m Apprehensive \<and> buy_name b \<in> set (stock m)" if "c' \<noteq> c"
    using buy_item_stocked [of E b c] that c' by metis
  ultimately show ?thesis by blast
qed

definition demo_order :: buy_intent where "demo_order = \<lparr>buy_name = ''Ration'', buy_qty = 5\<rparr>"

definition demo_got :: player_inventory where
  "demo_got = inventory_new\<lparr>base := [Some (entry ''ration'' 5), None, None, None, None, None, None, None]\<rparr>"

lemma demo_rations: "add_item_locating demo_registry ''ration'' 5 inventory_new = Inr (([(''base'', 0)], 0), demo_got)"
  by (simp add: add_item_locating_def inventory_new_def inner_refs_def carried_bag_keys_def base_refs_def topup_step_def
      claim_step_def claim_cell_def demo_eval demo_got_def numeral_eq_Suc)

lemma demo_stats: "vendor_price demo_ration = 4" "path demo_ration = ''ration''" "\<not> no_drop demo_ration"
  by (simp_all add: demo_ration_def item_default_def)

lemma demo_shopper:
  "pos demo_partner = demo_spot" "inventory demo_partner = inventory_new"
  "coins demo_partner = \<lparr>platinum = 0, gold = 0, silver = 2, copper = 0\<rparr>"
  by (simp_all add: demo_partner_def demo_conn_def)

lemma demo_gate: "vendor_gate demo_env demo_partner = Inr (demo_npc ''vendor'')"
  by (simp add: vendor_gate_def npc_service_def demo_shopper demo_range demo_serves Let_def)

lemma demo_stock:
  "vendor_stocking_within_range (npcs demo_env) ''Ration'' demo_spot (\<lambda>n. npc_serves demo_env c n Apprehensive) = Some (demo_npc ''vendor'')"
  by (simp add: vendor_stocking_within_range_def demo_range demo_serves) (simp add: demo_npc_def)

lemma demo_bought: "inventory (fst (buy_item demo_env demo_order demo_partner)) = demo_got"
proof -
  have "can_afford \<lparr>platinum = 0, gold = 0, silver = 2, copper = 0\<rparr> 20"
    by (simp add: can_afford_def total_copper_def tier_value_def sat64_def)
  then show ?thesis
    using demo_rations demo_stock demo_gate demo_stats demo_shopper
    by (simp add: buy_item_def demo_order_def ledger_def Let_def sat64_def)
qed

theorem purchase_is_exact_witness:
  "\<exists>k\<ge>1. inv_total ''ration'' (inventory (fst (buy_item demo_env demo_order demo_partner))) = k"
proof -
  obtain c' out where b: "buy_item demo_env demo_order demo_partner = (c', out)" by fastforce
  have "demo_got \<noteq> inventory_new" by (simp add: demo_got_def inventory_new_def BASE_SLOT_COUNT_def numeral_eq_Suc)
  then have ne: "c' \<noteq> demo_partner" using demo_bought demo_shopper b by auto
  have "conn_ok (reg demo_env) demo_partner" "reg_ok (reg demo_env)" using demo_partner_ok by simp_all
  from purchase_is_exact [OF this b] ne obtain i k where
    "lookup_by_name demo_registry (buy_name demo_order) = Some i" "1 \<le> k"
    "inv_total (path i) (inventory c') = inv_total (path i) (inventory demo_partner) + k" by auto
  then show ?thesis using b demo_stats demo_shopper by (auto simp: demo_order_def)
qed

section \<open>A sale\<close>

text \<open>C27. For a character holding less than 2^62 copper, a sale either leaves the character as it was or takes units off the one unlocked
  stack the slot names, as many as were asked for or all there are, leaving the rest of that stack in its place and every other address
  and worn item as it was; it pays half the list price for each unit taken, and a NO DROP item is never among them.\<close>

theorem sale_is_exact:
  assumes "conn_ok (reg E) c" "coins_bounded c" "0 < sell_qty s" "sell_lock (sell_slot s) = (loc, slot)"
    and "sell_item E tm who s c = (c', out)"
  shows "c' = c \<or>
    (\<exists>i k n. peek_at loc slot (inventory c) = Some (path i, n) \<and> lookup (reg E) (path i) = Some i \<and> \<not> no_drop i
      \<and> \<not> is_locked who loc slot tm \<and> 1 \<le> k \<and> k = min n (sell_qty s)
      \<and> peek_at loc slot (inventory c') = (if k = n then None else Some (path i, n - k))
      \<and> (\<forall>loc' slot'. parse_slot_ref loc' slot' \<noteq> parse_slot_ref loc slot
            \<longrightarrow> peek_at loc' slot' (inventory c') = peek_at loc' slot' (inventory c))
      \<and> equipment (inventory c') = equipment (inventory c)
      \<and> (\<forall>q. inv_total q (inventory c') + (if q = path i then k else 0) = inv_total q (inventory c))
      \<and> coin_value (coins c') = coin_value (coins c) + sat64 (int (vendor_price i) div 2 * int k)
      \<and> bank_coins c' = bank_coins c \<and> bank_items c' = bank_items c \<and> account_bank_items c' = account_bank_items c)"
  using assms(1)
proof (cases rule: sell_item_cases [of E c tm who s])
  case refused
  then show ?thesis using assms(5) by simp
next
  case (sold l j p qty u m k iv)
  have wf: "inv_wf (reg E) (inventory c)" using conn_okD(1) [OF assms(1)] .
  obtain i n where i: "lookup (reg E) p = Some i" "\<not> no_drop i" "u = int (vendor_price i) div 2" and at: "l = loc" "j = slot"
    and lock: "\<not> is_locked who loc slot tm" and n: "peek_at loc slot (inventory c) = Some (p, n)" "qty = min (sell_qty s) n"
    using sell_quote_addr [OF sold(1) wf] assms(4) by auto
  have k: "k = (if qty = 0 \<or> n \<le> qty then n else qty)" "1 \<le> k"
    using destroy_at_effect [OF wf sold(3), of p] n(1) at by auto
  have "inv_total q iv + units q p k = inv_total q (inventory c)" for q using destroy_at_effect [OF wf sold(3), of q] by blast
  then have total: "\<forall>q. inv_total q iv + (if q = p then k else 0) = inv_total q (inventory c)" by (simp add: units_def)
  have "path i = p" using lookup_path [OF i(1)] by simp
  moreover have "c' = fst (sell_item E tm who s c)" using assms(5) by simp
  moreover have km: "k = min n (sell_qty s)" using k n(2) assms(3) by auto
  moreover have "peek_at loc slot iv = (if k = n then None else Some (p, n - k))" using destroy_at_cells(1) [OF wf sold(3)] n(1) at by auto
  moreover have "peek_at loc' slot' iv = peek_at loc' slot' (inventory c)" if "parse_slot_ref loc' slot' \<noteq> parse_slot_ref loc slot" for loc' slot'
    using destroy_at_cells(2) [OF wf sold(3)] that at by simp
  moreover have "equipment iv = equipment (inventory c)" by (rule destroy_at_cells(3) [OF wf sold(3)])
  moreover note pay = sold_pay(2) [OF assms(1,2) sold(2), of k]
  ultimately show ?thesis
    using i lock n(1) k(2) total
    by (intro disjI2 exI [of _ i] exI [of _ k] exI [of _ n]) (simp add: sold(4) ledger_def pay)
qed

definition demo_sale :: sell_intent where "demo_sale = \<lparr>sell_slot = BaseSlot 1, sell_qty = 3\<rparr>"

lemma demo_quote: "sell_quote demo_env trade_manager_new 1 demo_sale demo_conn = Inr (''base'', 1, ''ration'', 3, 2, demo_npc ''vendor'')"
proof -
  have "vget (base demo_inventory) 1 = Some (entry ''ration'' 5)" "\<not> bag_key_is_nonempty 1 demo_inventory"
    by (simp_all add: demo_inventory_def demo_eval)
  moreover have "inventory demo_conn = demo_inventory" by (simp add: demo_conn_def)
  ultimately show ?thesis
    using demo_stats
    by (simp add: sell_quote_def demo_sale_def sell_lock_def trade_locked_def is_locked_def session_of_def trade_manager_new_def
        vendor_gate_def sell_source_def sell_bag_key_def BASE_SLOT_COUNT_def)
qed

theorem sale_is_exact_witness:
  "inv_total ''ration'' (inventory (fst (sell_item demo_env trade_manager_new 1 demo_sale demo_conn))) + 3 = 23
    \<and> peek_at ''base'' 1 (inventory (fst (sell_item demo_env trade_manager_new 1 demo_sale demo_conn))) = Some (''ration'', 2)"
proof -
  obtain c' out where s: "sell_item demo_env trade_manager_new 1 demo_sale demo_conn = (c', out)" by fastforce
  have inv: "inventory demo_conn = demo_inventory" by (simp add: demo_conn_def)
  obtain iv k where "destroy_at demo_registry ''base'' 1 3 demo_inventory = Inr ((''ration'', k), iv)"
    by (simp add: destroy_at_def source_entry_def take_units_def demo_inventory_def demo_eval Let_def)
  then have "item_events c' \<noteq> item_events demo_conn"
    using s demo_quote inv by (auto simp: sell_item_def ledger_def Let_def)
  then have ne: "c' \<noteq> demo_conn" by auto
  have ok: "conn_ok (reg demo_env) demo_conn" using demo_conn_ok by simp
  have sale: "0 < sell_qty demo_sale" "sell_lock (sell_slot demo_sale) = (''base'', 1)" by (simp_all add: demo_sale_def sell_lock_def)
  have peek: "peek_at ''base'' (Suc 0) demo_inventory = Some (''ration'', 5)" by (simp add: peek_at_def demo_inventory_def demo_eval)
  have qty: "sell_qty demo_sale = 3" by (simp add: demo_sale_def)
  have at: "peek_at ''base'' 1 demo_inventory = Some (''ration'', 5)" using peek by simp
  from sale_is_exact [OF ok demo_conn_ok(2) sale s] show ?thesis
  proof (elim disjE exE conjE)
    fix i k n
    assume sold: "peek_at ''base'' 1 (inventory demo_conn) = Some (path i, n)" "k = min n (sell_qty demo_sale)"
      and left: "peek_at ''base'' 1 (inventory c') = (if k = n then None else Some (path i, n - k))"
      and total: "\<forall>q. inv_total q (inventory c') + (if q = path i then k else 0) = inv_total q (inventory demo_conn)"
    have i: "path i = ''ration''" "n = 5" using sold(1) at inv by simp_all
    then have "k = 3" using sold(2) qty by simp
    then show ?thesis using left total [rule_format, of "''ration''"] i inv s demo_total(1) by simp
  qed (use ne in blast)
qed

section \<open>No profit at a merchant\<close>

text \<open>What a character could walk away with: the purse, and every carried item at what a merchant pays.\<close>

definition resale :: "registry \<Rightarrow> connection \<Rightarrow> int" where
  "resale R c = coin_value (coins c) + (\<Sum>i\<leftarrow>R. int (vendor_price i) div 2 * int (inv_total (path i) (inventory c)))"

inductive market_step :: "env \<Rightarrow> trade_manager \<Rightarrow> nat \<Rightarrow> connection \<Rightarrow> connection \<Rightarrow> bool" for E tm who where
  buys: "coins_bounded c \<Longrightarrow> market_step E tm who c (fst (buy_item E b c))"
| sells: "coins_bounded c \<Longrightarrow> market_step E tm who c (fst (sell_item E tm who s c))"

lemma resale_shift:
  assumes "distinct (map path R)" "i \<in> set R" "\<And>q. int (n' q) = int (n q) + (if q = path i then d else 0)"
  shows "(\<Sum>j\<leftarrow>R. f j * int (n' (path j))) = (\<Sum>j\<leftarrow>R. f j * int (n (path j))) + f i * (d :: int)"
  using assms(1,2)
proof (induction R)
  case (Cons j R)
  show ?case
  proof (cases "i = j")
    case True
    then have "path x \<noteq> path i" if "x \<in> set R" for x using Cons.prems(1) that by (auto simp: image_iff)
    then have "(\<Sum>j\<leftarrow>R. f j * int (n' (path j))) = (\<Sum>j\<leftarrow>R. f j * int (n (path j)))"
      using assms(3) by (intro arg_cong [of _ _ sum_list] map_cong) auto
    then show ?thesis using True assms(3) by (simp add: distrib_left)
  next
    case False
    then have "path j \<noteq> path i" using Cons.prems by (auto simp: image_iff)
    then show ?thesis using Cons False assms(3) by simp
  qed
qed simp

lemma market_step_keeps:
  assumes st: "market_step E tm who c c'" and ok: "conn_ok (reg E) c" and reg: "reg_ok (reg E)" and dist: "distinct (map path (reg E))"
  shows "conn_ok (reg E) c' \<and> resale (reg E) c' \<le> resale (reg E) c"
  using st
proof cases
  case (buys b)
  have ok': "conn_ok (reg E) c'" using buy_item_balanced [OF ok reg] buys(1) by (simp add: balanced_def)
  show ?thesis
    using ok reg
  proof (cases rule: buy_item_cases [of E c b])
    case refused
    then show ?thesis using ok' buys(1) by simp
  next
    case (bought i d t k l iv)
    let ?p = "int (vendor_price i)"
    have inv: "int (inv_total q iv) = int (inv_total q (inventory c)) + (if q = path i then int k else 0)" for q
      using add_item_locating_Inr [OF reg conn_okD(1) [OF ok] bought(5), of q] bought(4) by (simp add: units_def)
    have i: "i \<in> set (reg E)" using lookup_by_name_name [OF bought(1)] by blast
    have small: "sat64 (?p * int k) < i64_max"
      using bought(7) buys(2) ok total_copper_le_value [of "coins c"] coin_bounds(3) [OF ok buys(2)]
      by (auto simp: conn_ok_def purse_ok_def coin_cap_def)
    have "0 \<le> ?p * int k" by simp
    then have "\<not> ?p * int k < i64_min" by linarith
    then have cost: "sat64 (?p * int k) = ?p * int k" using small by (simp add: sat64_def split: if_splits)
    have pay: "coin_value (snd (spend (coins c) (?p * int k))) = coin_value (coins c) - ?p * int k"
      using spend_effect [OF conn_okD(4) [OF ok], of "?p * int k"] bought(6) cost by simp
    have "resale (reg E) c' = resale (reg E) c - ?p * int k + ?p div 2 * int k"
      using resale_shift [OF dist i inv, of "\<lambda>j. int (vendor_price j) div 2"] pay
      by (simp add: resale_def buys(1) bought(8) ledger_def cost)
    moreover have "?p div 2 * int k \<le> ?p * int k" by (intro mult_right_mono) simp_all
    ultimately show ?thesis using ok' by simp
  qed
next
  case (sells s)
  have ok': "conn_ok (reg E) c'" using sell_item_balanced [OF ok sells(2)] sells(1) by (simp add: balanced_def)
  show ?thesis
    using ok
  proof (cases rule: sell_item_cases [of E c tm who s])
    case refused
    then show ?thesis using ok' sells(1) by simp
  next
    case (sold loc slot p qty u m k iv)
    have wf: "inv_wf (reg E) (inventory c)" using conn_okD(1) [OF ok] .
    obtain i where i: "lookup (reg E) p = Some i" "u = int (vendor_price i) div 2" using sell_quote_addr [OF sold(1) wf] by auto
    have at: "path i = p" "i \<in> set (reg E)" using lookup_path [OF i(1)] by simp_all
    have "int (inv_total q iv) = int (inv_total q (inventory c)) + (if q = path i then - int k else 0)" for q
      using destroy_at_effect [OF wf sold(3), of q] at by (simp add: units_def split: if_splits)
    note shift = resale_shift [OF dist at(2) this, of "\<lambda>j. int (vendor_price j) div 2"]
    have "0 \<le> u * int k" using sold(2) by simp
    then have "sat64 (u * int k) \<le> u * int k" by (simp add: sat64_def)
    moreover have "resale (reg E) c' = resale (reg E) c + sat64 (u * int k) - u * int k"
      using shift sold_pay(2) [OF ok sells(2) sold(2), of k] by (simp add: resale_def sells(1) sold(4) ledger_def i(2))
    ultimately show ?thesis using ok' by simp
  qed
qed

text \<open>C8. No sequence of purchases and sales makes a profit: the purse plus everything carried at merchants' buying prices never
  grows, so whoever ends with at least the items of the start ends with no more coin.  Purses stay
  within 2^62 copper.\<close>

theorem merchants_never_lose:
  assumes "(market_step E tm who)\<^sup>*\<^sup>* c c'" "conn_ok (reg E) c" "reg_ok (reg E)" "distinct (map path (reg E))"
  shows "resale (reg E) c' \<le> resale (reg E) c
    \<and> ((\<forall>q. inv_total q (inventory c) \<le> inv_total q (inventory c')) \<longrightarrow> coin_value (coins c') \<le> coin_value (coins c))"
proof -
  have keep: "conn_ok (reg E) c' \<and> resale (reg E) c' \<le> resale (reg E) c"
    using assms(1,2)
  proof (induction rule: rtranclp_induct)
    case (step y z)
    then show ?case using market_step_keeps [OF step.hyps(2) _ assms(3,4)] by force
  qed simp
  have "(\<Sum>i\<leftarrow>R. int (vendor_price i) div 2 * int (inv_total (path i) (inventory c)))
      \<le> (\<Sum>i\<leftarrow>R. int (vendor_price i) div 2 * int (inv_total (path i) (inventory c')))"
    if "\<forall>q. inv_total q (inventory c) \<le> inv_total q (inventory c')" for R
    using that by (intro sum_list_mono mult_left_mono) simp_all
  then show ?thesis using keep unfolding resale_def by (smt (verit))
qed

theorem merchants_never_lose_witness:
  "resale demo_registry (fst (sell_item demo_env trade_manager_new 1 demo_sale (fst (buy_item demo_env demo_order demo_conn))))
     \<le> resale demo_registry demo_conn"
proof -
  let ?c = "fst (buy_item demo_env demo_order demo_conn)"
  have one: "market_step demo_env trade_manager_new 1 demo_conn ?c" using demo_conn_ok by (intro market_step.buys)
  have ok: "conn_ok (reg demo_env) demo_conn" using demo_conn_ok by simp
  have dist: "distinct (map path (reg demo_env))"
    by (simp add: demo_registry_def demo_sword_def demo_ration_def demo_pouch_def demo_ember_def item_default_def)
  have "coins_bounded ?c"
  proof -
    have "reg_ok (reg demo_env)" by simp
    from purchase_is_exact [OF ok this surjective_pairing [of "buy_item demo_env demo_order demo_conn"]]
    have "coin_value (coins ?c) \<le> coin_value (coins demo_conn) \<and> bank_coins ?c = bank_coins demo_conn"
    proof (elim disjE exE conjE)
      fix i k
      assume "coin_value (coins ?c) = coin_value (coins demo_conn) - sat64 (int (vendor_price i) * int k)" "bank_coins ?c = bank_coins demo_conn"
      then show ?thesis using sat64_pos_range [of "int (vendor_price i) * int k"] by simp
    qed simp
    then show ?thesis using demo_conn_ok(2) by (simp add: coins_bounded_def conn_coin_def)
  qed
  then have "market_step demo_env trade_manager_new 1 ?c (fst (sell_item demo_env trade_manager_new 1 demo_sale ?c))"
    by (rule market_step.sells)
  with one have "(market_step demo_env trade_manager_new 1)\<^sup>*\<^sup>* demo_conn (fst (sell_item demo_env trade_manager_new 1 demo_sale ?c))"
    by (meson converse_rtranclp_into_rtranclp r_into_rtranclp)
  from merchants_never_lose [OF this ok _ dist] show ?thesis by simp
qed

end
