(* ===== verification/Laws.thy ===== *)
theory Laws
  imports Realm Market
begin

text \<open>
  The laws of the economy: what no sequence of intents, trades, flushes and prunes of the whole world changes, with
  a world of two characters, one offering rations to the other, to run them on.
\<close>

text \<open>A run of the world, between states in which no purse passes \<open>2 ^ 62\<close> copper and no stack \<open>2 ^ 31\<close> units
  (\<open>realm_bounded\<close>), with the number of splits in it that took a whole filled bag.\<close>

inductive realm_run :: "env \<Rightarrow> nat \<Rightarrow> world \<Rightarrow> world \<Rightarrow> bool" for E where
  rests: "realm_run E 0 w w"
| moves: "realm_run E n w v \<Longrightarrow> realm_step E sp v u \<Longrightarrow> realm_bounded v \<Longrightarrow> realm_bounded u
    \<Longrightarrow> realm_run E (if sp then Suc n else n) w u"

lemma realm_run_keeps:
  assumes "realm_run E n w w'" "n = 0" "realm_ok (reg E) w" "reg_ok (reg E)"
  shows "realm_ok (reg E) w' \<and> same_gap (store w) (store w')"
  using assms
proof (induction rule: realm_run.induct)
  case (moves n w v sp u)
  have "\<not> sp" "n = 0" using moves.prems(1) by (simp_all split: if_splits)
  then have "realm_step E False v u" "realm_ok (reg E) v \<and> same_gap (store w) (store v)" using moves by simp_all
  then show ?case using realm_step_keeps [of E v u] moves.hyps(3,4) moves.prems(3) same_gap_trans by blast
qed simp

section \<open>Two characters about to trade\<close>

definition demo_ration_offer :: offer where
  "demo_ration_offer = \<lparr>location = ''base'', oslot = 1, offer_path = ''ration'', offer_count = 5\<rparr>"

definition demo_deal :: trade_session where
  "demo_deal =
     \<lparr>side_a = \<lparr>cid = 1, offers = [Some demo_ration_offer, None, None, None, None, None, None, None], side_coins = coins_ZERO,
                accepted = False\<rparr>,
      side_b = \<lparr>cid = 2, offers = [None, None, None, None, None, None, None, None], side_coins = \<lparr>platinum = 0, gold = 0, silver = 1, copper = 0\<rparr>,
                accepted = True\<rparr>\<rparr>"

definition demo_world :: world where
  "demo_world =
     \<lparr>conns = [(1, demo_conn), (2, demo_partner)],
      trades = \<lparr>sessions = [(0, demo_deal)], by_cid = [(1, 0), (2, 0)], next_id = 1\<rparr>,
      parties = group_manager_new, store = demo_db\<rparr>"

lemma demo_partner_accounted: "accounted demo_partner demo_db"
proof -
  have rows: "filter (\<lambda>(i, _). i = 2) (character_items demo_db) = []"
    by (auto simp: demo_db_def filter_empty_conv)
  have inv: "to_rows inventory_new = []" by (simp add: to_rows_def inventory_new_def cell_rows_def)
  have "inv_total p inventory_new = 0" for p
    by (simp add: inv_total_def inventory_new_def equip_total_def bags_total_def al_sum_def)
  then have "item_drift p demo_partner = saved_items p demo_partner demo_db" for p
    using rows by (simp add: item_drift_def conn_items_def queued_delta_def saved_items_def demo_partner_def demo_conn_def)
      (simp add: demo_db_def rows_total_def vrows_total_def)
  moreover have "coin_drift demo_partner = saved_coin demo_partner demo_db"
    by (simp add: coin_drift_def conn_coin_def queued_copper_def saved_coin_def demo_db_def demo_partner_def demo_conn_def)
  moreover have "clean_saved demo_partner demo_db"
    using rows inv by (simp add: clean_saved_def demo_partner_def demo_conn_def) (simp add: demo_db_def demo_partner_def demo_conn_def)
  moreover have "db_ok demo_partner demo_db" by (simp add: db_ok_def demo_db_def demo_partner_def demo_conn_def account_of_def)
  moreover have "own_queue demo_partner" by (simp add: own_queue_def demo_partner_def demo_conn_def)
  ultimately show ?thesis by (simp add: accounted_def)
qed

lemma demo_realm: "realm_ok demo_registry demo_world" "realm_bounded demo_world"
proof -
  have "manager_wf (trades demo_world)"
    by (simp add: manager_wf_def demo_world_def demo_deal_def session_wf_def side_wf_def TRADE_SLOTS_def has_negative_def coins_ZERO_def
        offered_slots_def)
  moreover have "groups_wf (parties demo_world)" by (simp add: demo_world_def groups_wf_new)
  moreover have "char_id demo_conn = 1" "char_id demo_partner = 2" "account_id demo_conn = 9" "account_id demo_partner = 10"
    by (simp_all add: demo_conn_def demo_partner_def)
  ultimately show "realm_ok demo_registry demo_world"
    using demo_conn_ok demo_partner_ok demo_accounted demo_partner_accounted
    by (simp add: realm_ok_def conn_fits_def) (simp add: demo_world_def conn_fits_def)
  have "conn_small demo_partner"
    by (simp add: conn_small_def demo_conn_def demo_partner_def rows_small_def small_cell_def inventory_new_def vault_new_def list_all_iff)
  then show "realm_bounded demo_world"
    using demo_conn_ok demo_partner_ok demo_small_conn
    by (auto simp: realm_bounded_def demo_world_def conn_of_def split: if_splits)
qed

section \<open>The deal goes through\<close>


definition demo_sealed :: trade_session where
  "demo_sealed = demo_deal\<lparr>side_a := (side_a demo_deal)\<lparr>accepted := True\<rparr>\<rparr>"

definition demo_accepted :: world where
  "demo_accepted = demo_world\<lparr>trades := \<lparr>sessions = [(0, demo_sealed)], by_cid = [(1, 0), (2, 0)], next_id = 1\<rparr>\<rparr>"

definition demo_given :: player_inventory where
  "demo_given = demo_inventory\<lparr>base := [Some (entry ''pouch'' 1), None, Some (entry ''sword'' 1), None, None, None, None, None]\<rparr>"

lemma demo_conns: "conn_of 1 demo_accepted = Some demo_conn" "conn_of 2 demo_accepted = Some demo_partner"
    "conn_of (Suc 0) demo_accepted = Some demo_conn"
  by (simp_all add: demo_accepted_def demo_world_def conn_of_def)

lemma demo_cids: "cid (side_a demo_sealed) = 1" "cid (side_b demo_sealed) = 2"
  by (simp_all add: demo_sealed_def demo_deal_def)

lemma demo_both_accept: "trade_accept 1 (trades demo_world) = Inr (True, trades demo_accepted)"
  by (simp add: trade_accept_def demo_world_def demo_accepted_def session_of_def demo_deal_def demo_sealed_def side_of_def set_side_def
      set_session_def Let_def)

lemma demo_take: "take_gives demo_registry [(''base'', 1, ''ration'', 5)] demo_inventory = (True, [(''base'', 1)], demo_given)"
  by (simp add: destroy_at_def source_entry_def take_units_def demo_inventory_def demo_given_def demo_eval Let_def)

lemma demo_place: "place_receives demo_registry [(''base'', 1, ''ration'', 5)] inventory_new = (True, [(''base'', 0)], demo_got)"
  by (simp add: demo_rations)

lemma demo_checks: "trade_checks demo_registry 1 demo_accepted = Inr (demo_sealed, [(''base'', 1, ''ration'', 5)], [])"
proof -
  have s: "session_of 1 (trades demo_accepted) = Some demo_sealed" by (simp add: session_of_def demo_accepted_def)
  have alive: "alive demo_conn" "alive demo_partner"
    by (simp_all add: alive_def demo_conn_def demo_partner_def f32_eval)
  have near: "in_trade_range demo_conn demo_partner"
    by (simp add: in_trade_range_def demo_conn_def demo_partner_def TRADE_RANGE_def f32_eval)
  have side: "side_coins (side_a demo_sealed) = coins_ZERO" "side_coins (side_b demo_sealed) = \<lparr>platinum = 0, gold = 0, silver = 1, copper = 0\<rparr>"
    "offers (side_a demo_sealed) = [Some demo_ration_offer, None, None, None, None, None, None, None]"
    "offers (side_b demo_sealed) = [None, None, None, None, None, None, None, None]"
    by (simp_all add: demo_sealed_def demo_deal_def)
  have peek: "peek_at ''base'' 1 demo_inventory = Some (''ration'', 5)" by (simp add: peek_at_def demo_inventory_def demo_eval)
  have inv: "inventory demo_conn = demo_inventory" "inventory demo_partner = inventory_new" by (simp_all add: demo_conn_def demo_partner_def)
  have same: "offer_unchanged demo_ration_offer demo_inventory"
    using peek by (simp add: offer_unchanged_def demo_ration_offer_def) (simp add: bag_key_is_nonempty_def demo_inventory_def)
  have changed: "changed_slots 1 (side_a demo_sealed) demo_accepted = []" "changed_slots 2 (side_b demo_sealed) demo_accepted = []"
    using same by (simp_all add: changed_slots_def demo_conns side inv upt_rec)
  have gives: "resolve_side 1 (side_a demo_sealed) demo_accepted = Some [(''base'', 1, ''ration'', 5)]"
    "resolve_side 2 (side_b demo_sealed) demo_accepted = Some []"
    using peek by (simp_all add: resolve_side_def demo_conns inv offered_slots_def side demo_ration_offer_def)
  have fits: "simulate_side demo_registry 1 [(''base'', 1, ''ration'', 5)] [] demo_accepted"
    "simulate_side demo_registry 2 [] [(''base'', 1, ''ration'', 5)] demo_accepted"
    using demo_take demo_place by (simp_all add: simulate_side_def demo_conns inv)
  have cover: "coins_covered 1 coins_ZERO demo_accepted" "coins_covered 2 \<lparr>platinum = 0, gold = 0, silver = 1, copper = 0\<rparr> demo_accepted"
    by (simp_all add: coins_covered_def demo_conns) (simp_all add: demo_conn_def demo_partner_def coins_ZERO_def)
  show ?thesis
    using s alive near changed gives fits cover
    by (simp add: trade_checks_def still_together_def demo_cids demo_conns side Let_def)
qed


definition demo_answers :: answers where
  "demo_answers = \<lparr>flush_a = True, flush_b = True, commit_ok = True\<rparr>"

definition demo_after :: world where
  "demo_after = fst (trade_accept_intent demo_registry 60 demo_answers 1 demo_world)"

lemma demo_flush: "flush_one True 1 demo_accepted = (True, demo_accepted)" "flush_one True 2 demo_accepted = (True, demo_accepted)"
  by (simp_all add: flush_one_def demo_conns persist_dirty_stores_def any_store_dirty_def)
    (simp_all add: demo_conn_def demo_partner_def put_conn_def demo_accepted_def demo_world_def)

lemma demo_exchange_conns:
  "\<exists>c. conn_of 1 demo_after = Some c \<and> inventory c = demo_given \<and> coins c = \<lparr>platinum = 0, gold = 0, silver = 6, copper = 0\<rparr>
     \<and> bank_coins c = bank_coins demo_conn \<and> bank_items c = bank_items demo_conn \<and> account_bank_items c = account_bank_items demo_conn"
  "\<exists>c. conn_of 2 demo_after = Some c \<and> inventory c = demo_got \<and> coins c = \<lparr>platinum = 0, gold = 0, silver = 1, copper = 0\<rparr>
     \<and> bank_coins c = bank_coins demo_partner \<and> bank_items c = bank_items demo_partner \<and> account_bank_items c = account_bank_items demo_partner"
  "k \<noteq> 1 \<Longrightarrow> k \<noteq> 2 \<Longrightarrow> conn_of k demo_after = None"
proof -
  have inv: "inventory demo_conn = demo_inventory" "inventory demo_partner = inventory_new"
    "coins demo_conn = \<lparr>platinum = 0, gold = 0, silver = 5, copper = 0\<rparr>" "coins demo_partner = \<lparr>platinum = 0, gold = 0, silver = 2, copper = 0\<rparr>"
    by (simp_all add: demo_conn_def demo_partner_def)
  have side: "side_coins (side_a demo_sealed) = coins_ZERO" "side_coins (side_b demo_sealed) = \<lparr>platinum = 0, gold = 0, silver = 1, copper = 0\<rparr>"
    by (simp_all add: demo_sealed_def demo_deal_def)
  obtain ta ca where a: "apply_side demo_registry 60 2 [(''base'', 1, ''ration'', 5)] [] coins_ZERO \<lparr>platinum = 0, gold = 0, silver = 1, copper = 0\<rparr> demo_conn
      = (True, ta, ca)" "inventory ca = demo_given" "coins ca = \<lparr>platinum = 0, gold = 0, silver = 6, copper = 0\<rparr>"
      "bank_coins ca = bank_coins demo_conn" "bank_items ca = bank_items demo_conn" "account_bank_items ca = account_bank_items demo_conn"
    using demo_take by (simp add: apply_side_def inv swap_coins_def coins_ZERO_def wrap64_def)
  obtain tb cb where b: "apply_side demo_registry 60 1 [] [(''base'', 1, ''ration'', 5)] \<lparr>platinum = 0, gold = 0, silver = 1, copper = 0\<rparr> coins_ZERO demo_partner
      = (True, tb, cb)" "inventory cb = demo_got" "coins cb = \<lparr>platinum = 0, gold = 0, silver = 1, copper = 0\<rparr>"
      "bank_coins cb = bank_coins demo_partner" "bank_items cb = bank_items demo_partner" "account_bank_items cb = account_bank_items demo_partner"
    using demo_place by (simp add: apply_side_def inv swap_coins_def coins_ZERO_def wrap64_def)
  obtain db where db: "commit_trade True 1 ca 2 cb (store demo_accepted) = Some db" by (simp add: commit_trade_def)
  have after: "demo_after = put_conn 2 (cb\<lparr>item_events := []\<rparr>) (put_conn 1 (ca\<lparr>item_events := []\<rparr>)
      (demo_accepted\<lparr>trades := snd (trade_close 1 (trades demo_accepted)), store := db\<rparr>))"
  proof -
    have "demo_world\<lparr>trades := trades demo_accepted\<rparr> = demo_accepted" by (simp add: demo_accepted_def)
    then show ?thesis
      using demo_both_accept demo_checks demo_flush demo_conns a(1) b(1) db
      by (simp add: demo_after_def trade_accept_intent_def trade_exchange_def demo_cids side demo_answers_def Let_def)
  qed
  show "\<exists>c. conn_of 1 demo_after = Some c \<and> inventory c = demo_given \<and> coins c = \<lparr>platinum = 0, gold = 0, silver = 6, copper = 0\<rparr>
     \<and> bank_coins c = bank_coins demo_conn \<and> bank_items c = bank_items demo_conn \<and> account_bank_items c = account_bank_items demo_conn"
    using a by (simp add: after)
  show "\<exists>c. conn_of 2 demo_after = Some c \<and> inventory c = demo_got \<and> coins c = \<lparr>platinum = 0, gold = 0, silver = 1, copper = 0\<rparr>
     \<and> bank_coins c = bank_coins demo_partner \<and> bank_items c = bank_items demo_partner \<and> account_bank_items c = account_bank_items demo_partner"
    using b by (simp add: after)
  show "k \<noteq> 1 \<Longrightarrow> k \<noteq> 2 \<Longrightarrow> conn_of k demo_after = None"
    by (simp add: after) (simp add: demo_accepted_def demo_world_def conn_of_def)
qed

lemma demo_after_bounded: "realm_bounded demo_after"
proof -
  have small: "rows_small demo_given" "rows_small demo_got"
    by (simp_all add: rows_small_def small_cell_def demo_given_def demo_got_def demo_inventory_def inventory_new_def)
  have vaults: "list_all small_cell (slots (bank_items demo_conn))" "list_all small_cell (slots (account_bank_items demo_conn))"
    "bank_items demo_partner = bank_items demo_conn" "account_bank_items demo_partner = account_bank_items demo_conn"
    using demo_small_conn by (simp_all add: conn_small_def demo_partner_def)
  have purses: "coin_value (bank_coins demo_conn) \<le> 10000" "coin_value (bank_coins demo_partner) \<le> 10000"
    by (simp_all add: demo_conn_def demo_partner_def coin_value_def coins_ZERO_def)
  have one: "coins_bounded c \<and> conn_small c" if "conn_of 1 demo_after = Some c" for c
    using demo_exchange_conns(1) that small vaults purses
    by (auto simp: coins_bounded_def conn_coin_def conn_small_def coin_value_def coin_cap_def)
  have two: "coins_bounded c \<and> conn_small c" if "conn_of 2 demo_after = Some c" for c
    using demo_exchange_conns(2) that small vaults purses
    by (auto simp: coins_bounded_def conn_coin_def conn_small_def coin_value_def coin_cap_def)
  have "k = 1 \<or> k = 2" if "conn_of k demo_after = Some c" for k c
    using demo_exchange_conns(3) [of k] that by (metis option.distinct(1))
  then show ?thesis unfolding realm_bounded_def using one two by blast
qed

text \<open>C7. Whatever the database answers, pressing accept moves items and coins only between the two traders: the pair's
  units of every item and their copper add up to what they were, everyone else is untouched, and the books keep their gap.
  Before and after, no purse passes 2^62 copper and no stack 2^31 units.\<close>

theorem trade_only_moves_between_the_two:
  assumes "realm_ok R w" "realm_bounded w" "reg_ok R" "session_of who (trades w) = Some s"
    and "trade_accept_intent R t ans who w = (w', out)" "realm_bounded w'"
  shows "wealth q (cid (side_a s)) w' + wealth q (cid (side_b s)) w' = wealth q (cid (side_a s)) w + wealth q (cid (side_b s)) w
    \<and> purse_of (cid (side_a s)) w' + purse_of (cid (side_b s)) w' = purse_of (cid (side_a s)) w + purse_of (cid (side_b s)) w
    \<and> others_alike s w w' \<and> same_gap (store w) (store w') \<and> realm_ok R w'"
  using accept_intent_keeps [OF assms(1,2,6,3,4,5)] by blast

lemma demo_reg_ok: "reg_ok demo_registry"
  using demo_conn_ok by simp

lemma demo_session: "session_of 1 (trades demo_world) = Some demo_deal"
  by (simp add: session_of_def demo_world_def)

theorem trade_only_moves_between_the_two_witness:
  "same_gap (store demo_world) (store demo_after) \<and> purse_of 1 demo_after + purse_of 2 demo_after = 700"
proof -
  obtain out where res: "trade_accept_intent demo_registry 60 demo_answers 1 demo_world = (demo_after, out)"
    by (metis demo_after_def prod.collapse)
  have "purse_of 1 demo_world + purse_of 2 demo_world = 700"
    by (simp add: purse_of_def conn_of_def demo_world_def) (simp add: demo_conn_def demo_partner_def coin_value_def)
  then show ?thesis
    using trade_only_moves_between_the_two [OF demo_realm demo_reg_ok demo_session res demo_after_bounded]
    by (simp add: demo_deal_def)
qed

section \<open>The books of the whole world\<close>

text \<open>C1. Over any run of intents, trades, flushes (committed or refused) and prunes of the whole world in which no split takes a whole
  filled bag, no purse passes 2^62 copper and no stack 2^31 units (and no content file makes a bag edible), what the database holds of
  any item or coin for any account keeps its distance to the ledger, and what a character has not yet flushed is exactly what its queue
  of ledger rows says.  The split left out is the one handler that breaks this, by losing units without a row.\<close>

theorem economy_never_drifts:
  assumes "realm_run E 0 w w'" "realm_ok (reg E) w" "reg_ok (reg E)"
  shows "same_gap (store w) (store w') \<and> realm_ok (reg E) w' \<and> (\<forall>k c. conn_of k w' = Some c \<longrightarrow> accounted c (store w'))"
  using realm_run_keeps [OF assms(1) refl assms(2,3)] realm_okD(3) by blast

lemma demo_realm_run: "realm_run demo_env 0 demo_world (demo_after\<lparr>store := fold_item_events_before 50 (store demo_after)\<rparr>)"
proof -
  let ?pruned = "demo_after\<lparr>store := fold_item_events_before 50 (store demo_after)\<rparr>"
  have deal: "realm_step demo_env False demo_world demo_after"
    using realm_step.accepts_deal [of demo_env demo_world demo_answers 1] by (simp add: demo_after_def demo_env_def)
  have prune: "realm_step demo_env False demo_after ?pruned" by (rule realm_step.prunes)
  have "realm_bounded ?pruned" using demo_after_bounded by (simp add: realm_bounded_def conn_of_def)
  with realm_run.moves [OF realm_run.moves [OF realm_run.rests deal demo_realm(2) demo_after_bounded] prune demo_after_bounded]
  show ?thesis by simp
qed

theorem economy_never_drifts_witness:
  "same_gap (store demo_world) (fold_item_events_before 50 (store demo_after))"
  using economy_never_drifts [OF demo_realm_run] demo_realm(1) by simp

text \<open>C2. The conservation query is exact: it reports nothing precisely when every account holds what its ledger says of every item
  and of coin.  And it raises no false alarm: once it reports nothing, no run of the world makes it report anything as long as no split
  takes a whole filled bag, no purse passes 2^62 copper and no stack 2^31 units.\<close>

theorem audit_never_alarms:
  assumes "realm_run E 0 w w'" "realm_ok (reg E) w" "reg_ok (reg E)"
  shows "(ledger_mismatches (store w) = [] \<longleftrightarrow> (\<forall>a p. db_ledger (store w) a p = db_held (store w) a p)
          \<and> (\<forall>a\<in>set (map snd (characters (store w))). db_ledger_coin (store w) a = db_held_coin (store w) a))
    \<and> (ledger_mismatches (store w) = [] \<longrightarrow> ledger_mismatches (store w') = [])"
proof -
  have "same_gap (store w) (store w')" using realm_run_keeps [OF assms(1) refl assms(2,3)] by blast
  then have "ledger_mismatches (store w) = [] \<longrightarrow> ledger_mismatches (store w') = []" using same_gap_audit by blast
  moreover have "ledger_mismatches (store w) = [] \<longleftrightarrow> books_balance (store w)" by (rule ledger_mismatches_Nil)
  ultimately show ?thesis by (simp only: books_balance_def)
qed

theorem audit_never_alarms_witness: "ledger_mismatches (fold_item_events_before 50 (store demo_after)) = []"
proof -
  have "ledger_mismatches (store demo_world) = []" using demo_audit by (simp add: demo_world_def)
  then show ?thesis using audit_never_alarms [OF demo_realm_run] demo_realm(1) by simp
qed

section \<open>The split that loses a bag's contents\<close>

lemma spills_spilt:
  assumes "inv_wf R iv" "spills src n iv"
  shows "\<exists>q. 0 < spilt q src n iv"
proof -
  obtain arr e where arr: "map_of (bags iv) src = Some arr" "Some e \<in> set arr"
    using assms(2) by (auto simp: spills_def bag_key_is_nonempty_def list_ex_iff split: option.splits)
  then obtain i where i: "i < length arr" "arr ! i = Some e" by (metis in_set_conv_nth)
  have "inner_ok R (Some e)" using assms(1) arr by (auto simp: inv_wf_iffs list_all_iff)
  then have "0 < ecount e" by (simp add: inner_ok_def cell_ok_def entry_ok_def)
  moreover have "cell_count (item_path e) (arr ! i) \<le> cells_total (item_path e) arr"
    using cells_total_update [OF i(1), of "item_path e" None] by simp
  ultimately have "0 < spilt (item_path e) src n iv" using assms(2) arr(1) i(2) by (simp add: spilt_def spills_def)
  then show ?thesis by blast
qed

text \<open>C38. A split between base slots queues no ledger row and keeps every unit the character carries, except that a split taking the
  whole of a stack of a bag destroys everything that was in the bag: exactly those units are gone.  So after such a split of a filled
  bag a character that was accounted for no longer is, whatever the database holds.\<close>

theorem split_drops_bag_contents:
  assumes "conn_ok (reg E) c" "reg_ok (reg E)" "conn_small c" "split_item E tm who s c = (c', out)" "c' \<noteq> c"
  shows "item_events c' = item_events c \<and> inv_wf (reg E) (inventory c')
    \<and> (\<forall>q. inv_total q (inventory c') + spilt q (sp_src s) (sp_count s) (inventory c) = inv_total q (inventory c))
    \<and> (spills (sp_src s) (sp_count s) (inventory c) \<longrightarrow> accounted c db \<longrightarrow> \<not> accounted c' db)"
proof -
  have wf: "inv_wf (reg E) (inventory c)" using assms(1) by (rule conn_okD)
  obtain t iv where iv: "split_base (reg E) (sp_src s) (sp_dst s) (sp_count s) (inventory c) = Inr (t, iv)"
    "c' = c\<lparr>inventory := iv, inventory_dirty := True\<rparr>"
    using assms(4,5) by (auto simp: split_item_def split: if_splits option.splits sum.splits)
  have left: "inv_wf (reg E) iv \<and> inv_total q iv + spilt q (sp_src s) (sp_count s) (inventory c) = inv_total q (inventory c)" for q
    by (rule split_base_exact [OF assms(2) wf iv(1) small_fit [OF assms(3)]])
  have "\<not> accounted c' db" if sp: "spills (sp_src s) (sp_count s) (inventory c)" and acc: "accounted c db"
  proof
    assume after: "accounted c' db"
    obtain q where "0 < spilt q (sp_src s) (sp_count s) (inventory c)" using spills_spilt [OF wf sp] by blast
    then have "inv_total q iv < inv_total q (inventory c)" using left [of q] by simp
    then have "item_drift q c' \<noteq> item_drift q c" by (simp add: iv(2) item_drift_def conn_items_def)
    moreover have "saved_items q c' db = saved_items q c db" by (simp add: iv(2) saved_items_def account_of_def)
    ultimately show False using acc after unfolding accounted_def by metis
  qed
  then show ?thesis using left by (simp add: iv(2))
qed

definition demo_tear :: split_intent where "demo_tear = \<lparr>sp_src_loc = ''base'', sp_dst_loc = ''base'', sp_src = 0, sp_dst = 3, sp_count = 1\<rparr>"

theorem split_drops_bag_contents_witness:
  "let c' = fst (split_item demo_env trade_manager_new 1 demo_tear demo_conn)
   in item_events c' = item_events demo_conn \<and> inv_total ''ration'' (inventory c') + 18 = 23 \<and> \<not> accounted c' demo_db"
proof -
  obtain c' out where s: "split_item demo_env trade_manager_new 1 demo_tear demo_conn = (c', out)" by fastforce
  have inv: "inventory demo_conn = demo_inventory" by (simp add: demo_conn_def)
  have lost: "spilt ''ration'' 0 1 demo_inventory = 18" "spills 0 1 demo_inventory"
    by (simp_all add: spilt_def spills_def whole_stack_def bag_key_is_nonempty_def demo_inventory_def demo_eval)
  obtain t iv where "split_base demo_registry 0 3 1 demo_inventory = Inr (t, iv)"
    by (simp add: split_base_def demo_inventory_def demo_eval Let_def)
  then have "inventory_dirty c'"
    using s by (auto simp: split_item_def demo_tear_def inv is_locked_def trade_locked_def session_of_def trade_manager_new_def)
  then have ne: "c' \<noteq> demo_conn" by (auto simp: demo_conn_def)
  have ok: "conn_ok (reg demo_env) demo_conn" "reg_ok (reg demo_env)" using demo_conn_ok by simp_all
  show ?thesis
    using split_drops_bag_contents [OF ok demo_small_conn s ne, of demo_db] s lost demo_accounted demo_total
    by (auto simp: demo_tear_def inv dest!: spec [of _ "''ration''"])
qed

end
