(* ===== verification/Training.thy ===== *)
theory Training
  imports Skills
begin

text \<open>
  What the skill tables and training promise: caps grow with the level, scores stay between zero and the cap and never
  fall, and the two rules about who dual wields agree.
\<close>

section \<open>Caps\<close>

lemma cap_for_eq: "0 \<le> lvl \<Longrightarrow> cap_for s cl lvl key = (if max_cap s cl key = 0 then 0 else max (max_cap s cl key * lvl div 60) 1)"
  using max_cap_range [of s cl key] by (simp add: cap_for_def MAX_LEVEL_def sdiv_nonneg Let_def)

lemma cap_for_mono: "0 \<le> l \<Longrightarrow> l \<le> l' \<Longrightarrow> cap_for s cl l key \<le> cap_for s cl l' key"
proof -
  assume l: "0 \<le> l" "l \<le> l'"
  then have "max_cap s cl key * l div 60 \<le> max_cap s cl key * l' div 60"
    using max_cap_range [of s cl key] by (intro zdiv_mono1 mult_left_mono) simp_all
  then show ?thesis using l by (auto simp: cap_for_eq max_def)
qed

lemma cap_for_nonneg: "0 \<le> l \<Longrightarrow> 0 \<le> cap_for s cl l key"
  by (auto simp: cap_for_eq le_max_iff_disj)

lemma starting_value_range:
  assumes "1 \<le> l"
  shows "0 \<le> starting_value s cl key \<and> starting_value s cl key \<le> cap_for s cl l key"
proof -
  let ?c = "cap_for s cl 1 key"
  have c: "0 \<le> ?c" "?c \<le> cap_for s cl l key" using cap_for_nonneg cap_for_mono assms by simp_all
  have "starting_value s cl key \<le> ?c" "0 \<le> starting_value s cl key"
    using c(1) by (auto simp: starting_value_def sdiv_nonneg Let_def)
  then show ?thesis using c(2) by simp
qed

text \<open>The level table for dual wielding and the weapon skill table agree: a class has a level at which it may dual wield exactly
  when it trains the dual wield skill, whatever the class name.\<close>

theorem dual_wield_agrees: "dual_wield_level cl \<noteq> None \<longleftrightarrow> class_trains WeaponSkill cl ''dual_wield''"
proof (cases "cl \<in> set (map fst WEAPON_CAPS)")
  case True
  have "list_all (\<lambda>c. (dual_wield_level c \<noteq> None) = class_trains WeaponSkill c ''dual_wield'') (map fst WEAPON_CAPS)"
    by code_simp
  then show ?thesis using True unfolding list_all_iff by blast
next
  case False
  then have "map_of WEAPON_CAPS cl = None" by (simp add: map_of_eq_None_iff)
  then have "\<not> class_trains WeaponSkill cl ''dual_wield''"
    by (simp add: class_trains_def max_cap_def class_row_def lookup_table_def) (simp add: WEAPON_CAPS_def)
  moreover have "dual_wield_level cl = None"
    using False by (auto simp: dual_wield_level_def WEAPON_CAPS_def split: if_splits)
  ultimately show ?thesis by simp
qed

section \<open>Scores\<close>

lemma skill_map_set: "skill_map s (set_score t key v b) = (if s = t then AList.update key v (skill_map s b) else skill_map s b)"
  by (cases s; cases t) (simp_all add: skill_map_def set_score_def)

lemma current_score_set:
  "current_score (set_score t key v b) s k = (if s = t \<and> k = key then v else current_score b s k)"
  by (simp add: current_score_def skill_map_set update_conv')

lemma set_score_level [simp]: "clevel (set_score s key v b) = clevel b"
  by (cases s) (simp_all add: set_score_def)

definition scores_ok :: "string \<Rightarrow> body \<Rightarrow> bool" where
  "scores_ok cl b \<longleftrightarrow> 0 \<le> clevel b
     \<and> (\<forall>s key. 0 \<le> current_score b s key \<and> current_score b s key \<le> cap_for s cl (clevel b) key)"

lemma score_dirty [simp]: "current_score (b\<lparr>skills_dirty := d\<rparr>) s k = current_score b s k"
  by (cases s) (simp_all add: current_score_def skill_map_def)

lemma try_advance_keeps:
  assumes "scores_ok cl b" "try_advance cl roll s key b = (r, b')"
  shows "scores_ok cl b' \<and> (\<forall>t k. current_score b t k \<le> current_score b' t k)
    \<and> (r = None \<longrightarrow> b' = b) \<and> (\<forall>n. r = Some n \<longrightarrow> n = current_score b s key + 1 \<and> n \<le> cap_for s cl (clevel b) key \<and> skills_dirty b')"
  using assms by (auto simp: try_advance_def scores_ok_def current_score_set Let_def split: if_splits)

lemma seed_one_keeps:
  assumes "scores_ok cl b" "1 \<le> clevel b"
  shows "scores_ok cl (fold (\<lambda>k. set_score s k (starting_value s cl k)) ks b)
    \<and> clevel (fold (\<lambda>k. set_score s k (starting_value s cl k)) ks b) = clevel b"
  using assms
proof (induction ks arbitrary: b)
  case (Cons k ks)
  have "scores_ok cl (set_score s k (starting_value s cl k) b)"
    using Cons.prems starting_value_range [of "clevel b" s cl k] by (auto simp: scores_ok_def current_score_set)
  then show ?case using Cons.IH [of "set_score s k (starting_value s cl k) b"] Cons.prems(2) by simp
qed simp

definition untrained :: "body \<Rightarrow> bool" where
  "untrained b \<longleftrightarrow> weapon_skills b = [] \<and> armor_skills b = [] \<and> casting_skills b = []"

lemma seed_scores_ok:
  assumes "untrained b" "1 \<le> clevel b"
  shows "scores_ok cl (seed_starting_scores cl b)"
proof -
  have "current_score b s k = 0" for s k using assms(1) by (cases s) (simp_all add: current_score_def skill_map_def untrained_def)
  then have b0: "scores_ok cl b" using assms(2) cap_for_nonneg by (simp add: scores_ok_def)
  define b1 where "b1 = fold (\<lambda>k. set_score WeaponSkill k (starting_value WeaponSkill cl k)) WEAPON_KEYS b"
  define b2 where "b2 = fold (\<lambda>k. set_score ArmorSkill k (starting_value ArmorSkill cl k)) ARMOR_KEYS b1"
  have b1: "scores_ok cl b1" "1 \<le> clevel b1" using seed_one_keeps [OF b0 assms(2)] assms(2) by (simp_all add: b1_def)
  have b2: "scores_ok cl b2" "1 \<le> clevel b2" using seed_one_keeps [OF b1] b1(2) by (simp_all add: b2_def)
  show ?thesis using seed_one_keeps [OF b2] unfolding seed_starting_scores_def b1_def [symmetric] b2_def [symmetric] by blast
qed

text \<open>A character's training: rolls that advance a skill or not, and levels gained.\<close>

inductive training_step :: "string \<Rightarrow> body \<Rightarrow> body \<Rightarrow> bool" for cl where
  rolls: "try_advance cl roll s key b = (r, b') \<Longrightarrow> training_step cl b b'"
| levels: "clevel b \<le> l \<Longrightarrow> training_step cl b (b\<lparr>clevel := l\<rparr>)"

inductive_cases training_stepE: "training_step cl b b'"

lemma training_step_keeps:
  assumes "training_step cl b b'" "scores_ok cl b"
  shows "scores_ok cl b' \<and> (\<forall>t k. current_score b t k \<le> current_score b' t k)"
  using assms(1)
proof cases
  case rolls
  then show ?thesis using try_advance_keeps [OF assms(2)] by blast
next
  case (levels l)
  have same: "current_score b' t k = current_score b t k" for t k
    by (cases t) (simp_all add: levels(1) current_score_def skill_map_def)
  have "cap_for s cl (clevel b) k \<le> cap_for s cl l k" for s k using assms(2) levels(2) by (intro cap_for_mono) (simp_all add: scores_ok_def)
  moreover have "0 \<le> clevel b'" using assms(2) levels by (simp add: scores_ok_def)
  moreover have "clevel b' = l" by (simp add: levels(1))
  ultimately show ?thesis using assms(2) unfolding scores_ok_def same by (meson order_refl order_trans)
qed

lemma training_run_keeps:
  assumes "(training_step cl)\<^sup>*\<^sup>* b b'" "scores_ok cl b"
  shows "scores_ok cl b' \<and> (\<forall>t k. current_score b t k \<le> current_score b' t k)"
  using assms(1)
proof (induction rule: rtranclp_induct)
  case base
  then show ?case using assms(2) by simp
next
  case (step y z)
  then show ?case using training_step_keeps [OF step.hyps(2)] order_trans by blast
qed

text \<open>C23. Over any training of a freshly seeded character, every skill score is at every moment between zero and the class's cap for the
  character's level, no score ever falls from one moment to a later one, and a skill the class does not train stays at zero.\<close>

theorem training_respects_caps:
  assumes "untrained b" "1 \<le> clevel b" "(training_step cl)\<^sup>*\<^sup>* (seed_starting_scores cl b) b1" "(training_step cl)\<^sup>*\<^sup>* b1 b2"
  shows "0 \<le> current_score b1 s key \<and> current_score b1 s key \<le> cap_for s cl (clevel b1) key
    \<and> current_score b1 s key \<le> current_score b2 s key
    \<and> (\<not> class_trains s cl key \<longrightarrow> current_score b1 s key = 0)"
proof -
  have ok: "scores_ok cl b1" using training_run_keeps [OF assms(3) seed_scores_ok [OF assms(1,2)]] by blast
  then have range: "0 \<le> current_score b1 s key" "current_score b1 s key \<le> cap_for s cl (clevel b1) key" and lvl: "0 \<le> clevel b1"
    unfolding scores_ok_def by blast+
  have "cap_for s cl (clevel b1) key = 0" if "\<not> class_trains s cl key"
    using that max_cap_range [of s cl key] lvl by (simp add: class_trains_def cap_for_eq)
  then show ?thesis using range training_run_keeps [OF assms(4) ok] by auto
qed

theorem training_respects_caps_witness:
  "current_score ((seed_starting_scores ''Monk'' demo_body)\<lparr>clevel := 2\<rparr>) WeaponSkill ''2h_slashing'' = 0
    \<and> current_score (seed_starting_scores ''Monk'' demo_body) WeaponSkill ''hand_to_hand''
      \<le> current_score ((seed_starting_scores ''Monk'' demo_body)\<lparr>clevel := 2\<rparr>) WeaponSkill ''hand_to_hand''"
proof -
  let ?b = "seed_starting_scores ''Monk'' demo_body"
  have b: "untrained demo_body" "1 \<le> clevel demo_body" by (simp_all add: untrained_def demo_body_def)
  have "clevel ?b = 1" by (simp add: seed_starting_scores_def WEAPON_KEYS_def ARMOR_KEYS_def CASTING_KEYS_def demo_body_def)
  then have run: "(training_step ''Monk'')\<^sup>*\<^sup>* ?b (?b\<lparr>clevel := 2\<rparr>)" by (intro r_into_rtranclp training_step.levels) simp
  moreover have "\<not> class_trains WeaponSkill ''Monk'' ''2h_slashing''"
    by (simp add: class_trains_def max_cap_def class_row_def lookup_table_def WEAPON_CAPS_def)
  ultimately show ?thesis
    using training_respects_caps [OF b run rtranclp.rtrancl_refl] training_respects_caps [OF b rtranclp.rtrancl_refl run] by blast
qed

section \<open>Disciplines\<close>

text \<open>Whatever the spell's name, casting it trains one of the seven casting skills.\<close>

theorem discipline_is_a_skill: "discipline_for_spell spell \<in> set CASTING_KEYS"
proof -
  have "list_all (\<lambda>(_, d). d \<in> set CASTING_KEYS) DISCIPLINE_MAP" by (simp add: DISCIPLINE_MAP_def CASTING_KEYS_def)
  then have "map_of (rev DISCIPLINE_MAP) base = Some d \<Longrightarrow> d \<in> set CASTING_KEYS" for base d
    unfolding list_all_iff using map_of_SomeD by fastforce
  moreover have "''evocation'' \<in> set CASTING_KEYS" by (simp add: CASTING_KEYS_def)
  ultimately show ?thesis by (auto simp: discipline_for_spell_def Let_def split: option.splits)
qed

end
