(* ===== verification/Levels.thy ===== *)
theory Levels
  imports CharData
begin

text \<open>
  The experience curve, evaluated: the size of every level's band.  Below level 30 the doubles are whole numbers and the
  band is the exact difference of cubes; from there on the hell levels are computed bit by bit.
\<close>

section \<open>Totals\<close>

lemma whole_one: "f64_whole (F64 False 0x3ff0000000000000) 1"
  by (simp add: f64_whole_def f64_finite_def f64_frac_def f64_exp_def F64_INF_def)

lemma cube_total:
  assumes "1 \<le> l" "l \<le> 60"
  shows "total_xp l = f64_mul (f64_of_int (l * l * l * 1000)) (hell_mod l)"
proof -
  define n where "n = nat l"
  have n: "0 < n" "n \<le> 60" "l = int n" using assms by (simp_all add: n_def)
  have sq: "n * n \<le> 60 * 60" by (rule mult_le_mono) (use n in simp_all)
  have cu: "n * n * n \<le> 60 * 60 * 60" by (rule mult_le_mono) (use n sq in simp_all)
  have w: "f64_whole (f64_of_int (int k)) k" if "0 < k" "k \<le> 216000" for k
    using that by (intro f64_whole_parts) simp_all
  have mult: "f64_mul (f64_of_int (int j)) (f64_of_int (int k)) = f64_of_int (int (j * k))"
    if "0 < j" "j \<le> 216000" "0 < k" "k \<le> 216000" for j k using f64_mul_whole [OF w w] that by simp
  have "f64_mul (f64_of_int l) (f64_of_int l) = f64_of_int (int (n * n))" using mult [of n n] n by simp
  moreover have "f64_mul (f64_of_int (int (n * n))) (f64_of_int l) = f64_of_int (int (n * n * n))"
    using mult [of "n * n" n] n sq by simp
  moreover have "f64_mul (f64_of_int (int (n * n * n))) (f64_of_int 1000) = f64_of_int (int (n * n * n * 1000))"
    using mult [of "n * n * n" 1000] n cu by simp
  ultimately show ?thesis using n by (simp add: total_xp_def Let_def)
qed

lemma total_plain:
  assumes "1 \<le> l" "l \<le> 29"
  shows "total_xp l = f64_of_int (l * l * l * 1000)" "f64_whole (total_xp l) (nat (l * l * l * 1000))"
proof -
  define m where "m = nat (l * l * l * 1000)"
  have "l * l \<le> 29 * 29" by (rule mult_mono) (use assms in simp_all)
  then have "l * l * l \<le> 29 * 29 * 29" by (rule mult_mono) (use assms in simp_all)
  moreover have "0 < l * l * l" using assms by simp
  ultimately have m: "0 < m" "m < 2 ^ 53" "l * l * l * 1000 = int m" by (simp_all add: m_def)
  have w: "f64_whole (f64_of_int (int m)) m" using m by (intro f64_whole_parts)
  have "hell_mod l = F64 False 0x3ff0000000000000" using assms by (simp add: hell_mod_def)
  then have "total_xp l = f64_of_int (int m)"
    using f64_mul_whole [OF w whole_one] assms by (simp add: cube_total m(3))
  then show "total_xp l = f64_of_int (l * l * l * 1000)" "f64_whole (total_xp l) (nat (l * l * l * 1000))"
    using w by (simp_all add: m(3))
qed

section \<open>Bands\<close>

text \<open>The band below level 30 is the difference of cubes.\<close>

lemma band_plain:
  assumes "1 \<le> l" "l \<le> 29"
  shows "xp_to_next_for l = (3 * l * l - 3 * l + 1) * 1000"
proof (cases "l = 1")
  case True
  have "f64_sub (total_xp 1) (total_xp 0) = total_xp 1"
    by (simp add: total_plain(1)) (simp add: total_xp_def f64_eval)
  then show ?thesis using f64_whole_rounded [OF total_plain(2) [of 1]] True
    by (simp add: xp_to_next_for_def MAX_LEVEL_def I32_MAX_def)
next
  case False
  define d where "d = (3 * l * l - 3 * l + 1) * 1000"
  have lt: "(l - 1) * (l - 1) * (l - 1) * 1000 + d = l * l * l * 1000" by (simp add: d_def algebra_simps)
  have "l * l \<le> 29 * 29" by (rule mult_mono) (use assms in simp_all)
  moreover have "1 * l \<le> l * l" by (rule mult_right_mono) (use assms in simp_all)
  ultimately have "l * l \<le> 841" "l \<le> l * l" by simp_all
  moreover have "d = 3000 * (l * l) - 3000 * l + 1000" by (simp add: d_def)
  ultimately have d: "0 < d" "d \<le> 3000000" using assms by linarith+
  have pos: "0 \<le> (l - 1) * (l - 1) * (l - 1) * 1000" using assms by simp
  define A B where "A = l * l * l * 1000" and "B = (l - 1) * (l - 1) * (l - 1) * 1000"
  have AB: "B + d = A" "0 \<le> B" using lt pos by (simp_all add: A_def B_def)
  have "f64_whole (total_xp l) (nat A)" "f64_whole (total_xp (l - 1)) (nat B)"
    using total_plain(2) [of l] total_plain(2) [of "l - 1"] assms False by (simp_all add: A_def B_def)
  from f64_sub_whole [OF this] AB d(1) have "f64_sub (total_xp l) (total_xp (l - 1)) = f64_of_int (A - B)" by simp
  then have "f64_sub (total_xp l) (total_xp (l - 1)) = f64_of_int d" using AB(1) by (metis add_diff_cancel_left')
  moreover have "f64_whole (f64_of_int (int (nat d))) (nat d)" using d by (intro f64_whole_parts) simp_all
  ultimately have "xp_to_next_for l = d"
    using f64_whole_rounded [of "f64_of_int d" "nat d"] d assms by (simp add: xp_to_next_for_def MAX_LEVEL_def I32_MAX_def)
  then show ?thesis by (simp only: d_def)
qed

text \<open>The totals from level 29 on, then the bands.\<close>

lemma total_29: "total_xp 29 = F64 False 0x4177425880000000"
  by (simp add: cube_total hell_mod_def) (simp add: f64_eval)

lemma total_30: "total_xp 30 = F64 False 0x417c52fa00000001"
  by (simp add: cube_total hell_mod_def) (simp add: f64_eval)

lemma total_31: "total_xp 31 = F64 False 0x417f408340000001"
  by (simp add: cube_total hell_mod_def) (simp add: f64_eval)

lemma total_32: "total_xp 32 = F64 False 0x4181300000000000"
  by (simp add: cube_total hell_mod_def) (simp add: f64_eval)

lemma total_33: "total_xp 33 = F64 False 0x4182d98660000000"
  by (simp add: cube_total hell_mod_def) (simp add: f64_eval)

lemma total_34: "total_xp 34 = F64 False 0x41849da300000000"
  by (simp add: cube_total hell_mod_def) (simp add: f64_eval)

lemma total_35: "total_xp 35 = F64 False 0x4188888480000000"
  by (simp add: cube_total hell_mod_def) (simp add: f64_eval)

lemma total_36: "total_xp 36 = F64 False 0x418ab26000000000"
  by (simp add: cube_total hell_mod_def) (simp add: f64_eval)

lemma total_37: "total_xp 37 = F64 False 0x418cfbdf80000000"
  by (simp add: cube_total hell_mod_def) (simp add: f64_eval)

lemma total_38: "total_xp 38 = F64 False 0x418f65e400000000"
  by (simp add: cube_total hell_mod_def) (simp add: f64_eval)

lemma total_39: "total_xp 39 = F64 False 0x4190f8a740000000"
  by (simp add: cube_total hell_mod_def) (simp add: f64_eval)

lemma total_40: "total_xp 40 = F64 False 0x4193d62000000000"
  by (simp add: cube_total hell_mod_def) (simp add: f64_eval)

lemma total_41: "total_xp 41 = F64 False 0x41955c95d0000000"
  by (simp add: cube_total hell_mod_def) (simp add: f64_eval)

lemma total_42: "total_xp 42 = F64 False 0x4196f69080000000"
  by (simp add: cube_total hell_mod_def) (simp add: f64_eval)

lemma total_43: "total_xp 43 = F64 False 0x4198a489f0000000"
  by (simp add: cube_total hell_mod_def) (simp add: f64_eval)

lemma total_44: "total_xp 44 = F64 False 0x419a66fc00000000"
  by (simp add: cube_total hell_mod_def) (simp add: f64_eval)

lemma total_45: "total_xp 45 = F64 False 0x419e6a8f5fffffff"
  by (simp add: cube_total hell_mod_def) (simp add: f64_eval)

lemma total_46: "total_xp 46 = F64 False 0x41a03ea480000000"
  by (simp add: cube_total hell_mod_def) (simp add: f64_eval)

lemma total_47: "total_xp 47 = F64 False 0x41a153cc10000000"
  by (simp add: cube_total hell_mod_def) (simp add: f64_eval)

lemma total_48: "total_xp 48 = F64 False 0x41a2750000000000"
  by (simp add: cube_total hell_mod_def) (simp add: f64_eval)

lemma total_49: "total_xp 49 = F64 False 0x41a3a281f0000000"
  by (simp add: cube_total hell_mod_def) (simp add: f64_eval)

lemma total_50: "total_xp 50 = F64 False 0x41a4dc9380000000"
  by (simp add: cube_total hell_mod_def) (simp add: f64_eval)

lemma total_51: "total_xp 51 = F64 False 0x41a7b847e8000000"
  by (simp add: cube_total hell_mod_def) (simp add: f64_eval)

lemma total_52: "total_xp 52 = F64 False 0x41aad1a000000000"
  by (simp add: cube_total hell_mod_def) (simp add: f64_eval)

lemma total_53: "total_xp 53 = F64 False 0x41ae2bb8a8000000"
  by (simp add: cube_total hell_mod_def) (simp add: f64_eval)

lemma total_54: "total_xp 54 = F64 False 0x41b1d52620000000"
  by (simp add: cube_total hell_mod_def) (simp add: f64_eval)

lemma total_55: "total_xp 55 = F64 False 0x41b4d33aec000000"
  by (simp add: cube_total hell_mod_def) (simp add: f64_eval)

lemma total_56: "total_xp 56 = F64 False 0x41b81347ffffffff"
  by (simp add: cube_total hell_mod_def) (simp add: f64_eval)

lemma total_57: "total_xp 57 = F64 False 0x41bb988d64000000"
  by (simp add: cube_total hell_mod_def) (simp add: f64_eval)

lemma total_58: "total_xp 58 = F64 False 0x41bf665de0000001"
  by (simp add: cube_total hell_mod_def) (simp add: f64_eval)

lemma total_59: "total_xp 59 = F64 False 0x41c25cc094000000"
  by (simp add: cube_total hell_mod_def) (simp add: f64_eval)

lemma total_60: "total_xp 60 = F64 False 0x41c3f4a480000000"
  by (simp add: cube_total hell_mod_def) (simp add: f64_eval)

lemmas totals = total_29 total_30 total_31 total_32 total_33 total_34 total_35 total_36 total_37 total_38 total_39 total_40 total_41 total_42 total_43 total_44 total_45 total_46 total_47 total_48 total_49 total_50 total_51 total_52 total_53 total_54 total_55 total_56 total_57 total_58 total_59 total_60

lemma band_30: "xp_to_next_for 30 = 5311000"
  by (simp add: xp_to_next_for_def MAX_LEVEL_def totals) (simp add: f64_eval)

lemma band_31: "xp_to_next_for 31 = 3070100"
  by (simp add: xp_to_next_for_def MAX_LEVEL_def totals) (simp add: f64_eval)

lemma band_32: "xp_to_next_for 32 = 3274700"
  by (simp add: xp_to_next_for_def MAX_LEVEL_def totals) (simp add: f64_eval)

lemma band_33: "xp_to_next_for 33 = 3485900"
  by (simp add: xp_to_next_for_def MAX_LEVEL_def totals) (simp add: f64_eval)

lemma band_34: "xp_to_next_for 34 = 3703700"
  by (simp add: xp_to_next_for_def MAX_LEVEL_def totals) (simp add: f64_eval)

lemma band_35: "xp_to_next_for 35 = 8215600"
  by (simp add: xp_to_next_for_def MAX_LEVEL_def totals) (simp add: f64_eval)

lemma band_36: "xp_to_next_for 36 = 4537200"
  by (simp add: xp_to_next_for_def MAX_LEVEL_def totals) (simp add: f64_eval)

lemma band_37: "xp_to_next_for 37 = 4796400"
  by (simp add: xp_to_next_for_def MAX_LEVEL_def totals) (simp add: f64_eval)

lemma band_38: "xp_to_next_for 38 = 5062800"
  by (simp add: xp_to_next_for_def MAX_LEVEL_def totals) (simp add: f64_eval)

lemma band_39: "xp_to_next_for 39 = 5336400"
  by (simp add: xp_to_next_for_def MAX_LEVEL_def totals) (simp add: f64_eval)

lemma band_40: "xp_to_next_for 40 = 12017200"
  by (simp add: xp_to_next_for_def MAX_LEVEL_def totals) (simp add: f64_eval)

lemma band_41: "xp_to_next_for 41 = 6397300"
  by (simp add: xp_to_next_for_def MAX_LEVEL_def totals) (simp add: f64_eval)

lemma band_42: "xp_to_next_for 42 = 6717100"
  by (simp add: xp_to_next_for_def MAX_LEVEL_def totals) (simp add: f64_eval)

lemma band_43: "xp_to_next_for 43 = 7044700"
  by (simp add: xp_to_next_for_def MAX_LEVEL_def totals) (simp add: f64_eval)

lemma band_44: "xp_to_next_for 44 = 7380100"
  by (simp add: xp_to_next_for_def MAX_LEVEL_def totals) (simp add: f64_eval)

lemma band_45: "xp_to_next_for 45 = 16835800"
  by (simp add: xp_to_next_for_def MAX_LEVEL_def totals) (simp add: f64_eval)

lemma band_46: "xp_to_next_for 46 = 8695400"
  by (simp add: xp_to_next_for_def MAX_LEVEL_def totals) (simp add: f64_eval)

lemma band_47: "xp_to_next_for 47 = 9081800"
  by (simp add: xp_to_next_for_def MAX_LEVEL_def totals) (simp add: f64_eval)

lemma band_48: "xp_to_next_for 48 = 9476600"
  by (simp add: xp_to_next_for_def MAX_LEVEL_def totals) (simp add: f64_eval)

lemma band_49: "xp_to_next_for 49 = 9879800"
  by (simp add: xp_to_next_for_def MAX_LEVEL_def totals) (simp add: f64_eval)

lemma band_50: "xp_to_next_for 50 = 10291400"
  by (simp add: xp_to_next_for_def MAX_LEVEL_def totals) (simp add: f64_eval)

lemma band_51: "xp_to_next_for 51 = 23976500"
  by (simp add: xp_to_next_for_def MAX_LEVEL_def totals) (simp add: f64_eval)

lemma band_52: "xp_to_next_for 52 = 25996300"
  by (simp add: xp_to_next_for_def MAX_LEVEL_def totals) (simp add: f64_eval)

lemma band_53: "xp_to_next_for 53 = 28118100"
  by (simp add: xp_to_next_for_def MAX_LEVEL_def totals) (simp add: f64_eval)

lemma band_54: "xp_to_next_for 54 = 46090700"
  by (simp add: xp_to_next_for_def MAX_LEVEL_def totals) (simp add: f64_eval)

lemma band_55: "xp_to_next_for 55 = 50205900"
  by (simp add: xp_to_next_for_def MAX_LEVEL_def totals) (simp add: f64_eval)

lemma band_56: "xp_to_next_for 56 = 54529300"
  by (simp add: xp_to_next_for_def MAX_LEVEL_def totals) (simp add: f64_eval)

lemma band_57: "xp_to_next_for 57 = 59065700"
  by (simp add: xp_to_next_for_def MAX_LEVEL_def totals) (simp add: f64_eval)

lemma band_58: "xp_to_next_for 58 = 63819900"
  by (simp add: xp_to_next_for_def MAX_LEVEL_def totals) (simp add: f64_eval)

lemma band_59: "xp_to_next_for 59 = 89334600"
  by (simp add: xp_to_next_for_def MAX_LEVEL_def totals) (simp add: f64_eval)

lemma band_60: "xp_to_next_for 60 = 53463000"
  by (simp add: xp_to_next_for_def MAX_LEVEL_def totals) (simp add: f64_eval)

definition BANDS :: "int list" where
  "BANDS =
     [1000, 7000, 19000, 37000, 61000, 91000, 127000, 169000, 217000, 271000, 331000, 397000,
      469000, 547000, 631000, 721000, 817000, 919000, 1027000, 1141000, 1261000, 1387000, 1519000, 1657000,
      1801000, 1951000, 2107000, 2269000, 2437000, 5311000, 3070100, 3274700, 3485900, 3703700, 8215600, 4537200,
      4796400, 5062800, 5336400, 12017200, 6397300, 6717100, 7044700, 7380100, 16835800, 8695400, 9081800, 9476600,
      9879800, 10291400, 23976500, 25996300, 28118100, 46090700, 50205900, 54529300, 59065700, 63819900, 89334600, 53463000]"

lemma bands_table:
  assumes "1 \<le> l" "l \<le> 60"
  shows "xp_to_next_for l = BANDS ! nat (l - 1)"
proof (cases "l \<le> 29")
  case True
  then have "l \<in> {1..29}" using assms by simp
  moreover have "\<forall>l\<in>{1..29}. (3 * l * l - 3 * l + 1) * 1000 = BANDS ! nat (l - 1)" by code_simp
  ultimately show ?thesis using band_plain [OF assms(1) True] by metis
next
  case False
  have "l = 30 \<or> l = 31 \<or> l = 32 \<or> l = 33 \<or> l = 34 \<or> l = 35 \<or> l = 36 \<or> l = 37 \<or> l = 38 \<or> l = 39 \<or> l = 40 \<or> l = 41 \<or> l = 42 \<or> l = 43 \<or> l = 44 \<or> l = 45 \<or> l = 46 \<or> l = 47 \<or> l = 48 \<or> l = 49 \<or> l = 50 \<or> l = 51 \<or> l = 52 \<or> l = 53 \<or> l = 54 \<or> l = 55 \<or> l = 56 \<or> l = 57 \<or> l = 58 \<or> l = 59 \<or> l = 60" using False assms by presburger
  then show ?thesis
    by (elim disjE) (simp_all only: band_30 band_31 band_32 band_33 band_34 band_35 band_36 band_37 band_38 band_39 band_40 band_41 band_42 band_43 band_44 band_45 band_46 band_47 band_48 band_49 band_50 band_51 band_52 band_53 band_54 band_55 band_56 band_57 band_58 band_59 band_60, simp_all add: BANDS_def)
qed

end
