(* ===== verification/Progress.thy ===== *)
theory Progress
  imports BuffOps Levels
begin

text \<open>
  \<open>world/progression.rs\<close>: experience and levels, the death penalty and the on-death resets, with respawn
  (\<open>world/handlers.rs\<close>) and the accepted resurrection (\<open>world/tick/binds_and_res.rs\<close>).
\<close>

section \<open>Levels from experience\<close>

definition DEATH_PENALTY_FLOOR_LEVEL :: int where "DEATH_PENALTY_FLOOR_LEVEL = 5"

text \<open>0.05, 75.0 and 3.5.\<close>

definition DEATH_XP_LOSS_FRACTION :: f32 where "DEATH_XP_LOSS_FRACTION = 0x3d4ccccd"

definition ZEM_NORMAL :: f32 where "ZEM_NORMAL = 0x42960000"

definition ZEM_KILL_SCALE :: f64 where "ZEM_KILL_SCALE = F64 False 0x400c000000000000"

definition kill_xp :: "int \<Rightarrow> f32 \<Rightarrow> int" where
  "kill_xp mob_level zem =
     (let l = f64_of_int (max mob_level 1)
      in f64_to_i32 (f64_max (f64_round (f64_mul (f64_mul (f64_mul l l) (f64_of_f32 zem)) ZEM_KILL_SCALE)) (F64 False 0x3ff0000000000000)))"

function level_up :: "int \<Rightarrow> int \<Rightarrow> int \<times> int" where
  "level_up x level =
     (if xp_to_next_for level \<le> x \<and> level < MAX_LEVEL then level_up (x - xp_to_next_for level) (level + 1) else (x, level))"
  by auto
termination by (relation "measure (\<lambda>(x, level). nat (MAX_LEVEL - level))") auto

function level_down :: "int \<Rightarrow> int \<Rightarrow> int \<times> int" where
  "level_down x level =
     (if x < 0 \<and> DEATH_PENALTY_FLOOR_LEVEL < level then level_down (x + xp_to_next_for (level - 1)) (level - 1) else (x, level))"
  by auto
termination by (relation "measure (\<lambda>(x, level). nat (level - DEATH_PENALTY_FLOOR_LEVEL))") auto

declare level_up.simps [simp del] level_down.simps [simp del]

definition resolve :: "int \<Rightarrow> int \<Rightarrow> int \<times> int \<times> int" where
  "resolve x level =
     (let (x1, l1) = level_up x level;
          x2 = (if MAX_LEVEL \<le> l1 \<and> xp_to_next_for l1 < x1 then xp_to_next_for l1 else x1);
          (x3, l2) = level_down x2 l1
      in (max x3 0, l2, xp_to_next_for l2))"

definition sat32 :: "int \<Rightarrow> int" where
  "sat32 x = max I32_MIN (min I32_MAX x)"

record xp_progress =
  pr_xp :: int
  pr_xp_to_next :: int
  pr_level :: int

definition progress_after :: "body \<Rightarrow> int \<Rightarrow> xp_progress" where
  "progress_after b amount =
     (case resolve (sat32 (xp b + amount)) (clevel b) of (x, l, n) \<Rightarrow> \<lparr>pr_xp = x, pr_xp_to_next = n, pr_level = l\<rparr>)"

definition current_progress :: "body \<Rightarrow> xp_progress" where
  "current_progress b = \<lparr>pr_xp = xp b, pr_xp_to_next = xp_to_next b, pr_level = clevel b\<rparr>"

section \<open>Level changes\<close>

definition apply_intrinsic_delta :: "int \<Rightarrow> int \<Rightarrow> connection \<times> body \<Rightarrow> connection \<times> body" where
  "apply_intrinsic_delta old_level new_level cb =
     (case cb of (c, b) \<Rightarrow>
        let old = compute_char (race c) (cls c) old_level; new = compute_char (race c) (cls c) new_level;
            d = (\<lambda>f. of_int (f (cc_stats new) - f (cc_stats old)) :: i32);
            mh = f32_add (max_hp b) (f32_sub (cc_max_hp new) (cc_max_hp old));
            mm = f32_add (max_mp b) (f32_sub (cc_max_mp new) (cc_max_mp old));
            ms = f32_add (max_stamina b) (f32_sub (cc_max_stamina new) (cc_max_stamina old))
        in (c\<lparr>hp := f32_min (hp c) mh\<rparr>,
            b\<lparr>strength := strength b + d sb_str, dexterity := dexterity b + d sb_dex, agility := agility b + d sb_agi,
              intelligence := intelligence b + d sb_int, wisdom := wisdom b + d sb_wis, charisma := charisma b + d sb_cha,
              constitution := constitution b + d sb_con, max_hp := mh, max_mp := mm, max_stamina := ms,
              mp := f32_min (mp b) mm, stamina := f32_min (stamina b) ms\<rparr>))"

text \<open>What the client is told: a level, or the experience gained.\<close>

datatype xp_msg = LevelUp int int int | XpGained int int int

definition award_xp :: "int \<Rightarrow> connection \<times> body \<Rightarrow> (bool \<times> xp_msg list) \<times> connection \<times> body" where
  "award_xp amount cb =
     (case cb of (c, b) \<Rightarrow>
        case resolve (sat32 (xp b + amount)) (clevel b) of
          (x, l, n) \<Rightarrow>
            let b1 = b\<lparr>xp := x, clevel := l, xp_to_next := n\<rparr>; leveled = (l \<noteq> clevel b);
                cb2 = (if leveled then apply_intrinsic_delta (clevel b) l (c, b1) else (c, b1))
            in ((leveled, (if leveled then [LevelUp l x n] else []) @ [XpGained amount x n]), cb2))"

section \<open>Death\<close>

definition apply_death_penalty :: "connection \<times> body \<Rightarrow> xp_msg list \<times> connection \<times> body" where
  "apply_death_penalty cb =
     (let cb0 = on_body (\<lambda>b. b\<lparr>death_lost_xp := 0\<rparr>) cb; b = snd cb0 in
      if clevel b < DEATH_PENALTY_FLOOR_LEVEL then ([], cb0)
      else let loss = f32_to_i32 (f32_floor (f32_mul (f32_of_int (xp_to_next b)) DEATH_XP_LOSS_FRACTION)) in
        if loss \<le> 0 then ([], cb0)
        else case award_xp (- loss) cb0 of
          ((_, msgs), c1, b1) \<Rightarrow>
            (msgs, c1, b1\<lparr>death_lost_xp := (if clevel b1 = clevel b \<and> xp b1 = 0 then xp b else loss)\<rparr>))"

definition kill_player :: "connection \<times> body \<Rightarrow> xp_msg list \<times> connection \<times> body" where
  "kill_player cb =
     (case apply_death_penalty cb of
        (msgs, c, b) \<Rightarrow>
          (msgs, c\<lparr>hp := 0\<rparr>,
           mark_dirty (b\<lparr>cast_spell_name := [], cast_total_duration := 0, cast_set_at := None, active_buffs := [],
             camp_since := None, corpse_pending := True\<rparr>)))"

text \<open>Respawn, for one that has died: a quarter of the hit points and mana, half the stamina, at the bind point.\<close>

definition respawn :: "vec3f \<Rightarrow> connection \<times> body \<Rightarrow> connection \<times> body" where
  "respawn dest cb =
     (case cb of (c, b) \<Rightarrow>
        if \<not> death_processed c then (c, b)
        else (c\<lparr>hp := f32_mul (max_hp b) 0x3e800000, death_processed := False, pos := dest\<rparr>,
              mark_dirty (b\<lparr>mp := f32_mul (max_mp b) 0x3e800000, stamina := f32_mul (max_stamina b) 0x3f000000,
                regen_hp_acc := 0, regen_mp_acc := 0, regen_stamina_acc := 0\<rparr>)))"

section \<open>Resurrection\<close>

definition refund_of :: "int \<Rightarrow> nat \<Rightarrow> int" where
  "refund_of lost_xp percent =
     f32_to_i32 (f32_round (f32_mul (f32_of_int lost_xp) (f32_div (f32_of_int (int percent)) 0x42c80000)))"

text \<open>The grant, once the corpse is marked: to the corpse, the refund, the sickness, a quarter of the hit points and no mana.\<close>

definition grant_resurrection :: "vec3f \<Rightarrow> int \<Rightarrow> instant \<Rightarrow> connection \<times> body \<Rightarrow> xp_msg list \<times> connection \<times> body" where
  "grant_resurrection corpse_pos refund t cb =
     (let (msgs, cb1) = (if 0 < refund then (case award_xp refund cb of ((_, m), r) \<Rightarrow> (m, r)) else ([], cb));
          (c, b) = apply_stat_buff (res_sickness_buff (clevel (snd cb1))
                     (cc_stats (compute_char (race (fst cb1)) (cls (fst cb1)) (clevel (snd cb1)))) t) cb1
      in (msgs, c\<lparr>pos := corpse_pos, hp := f32_min (hp c) (f32_max (f32_mul (max_hp b) 0x3e800000) F32_ONE)\<rparr>,
          mark_dirty (b\<lparr>mp := 0\<rparr>)))"

end
