(* ===== verification/Attributes.thy ===== *)
theory Attributes
  imports Progress Town
begin

text \<open>
  Where a character's attributes come from.  \<open>world/tick/spell_buffs.rs\<close> states the invariant: an attribute is its intrinsic
  value, the worn gear's bonuses and the active stat buffs.  Every operation on buffs, gear and level keeps it; death does not.
\<close>

section \<open>The account\<close>

datatype attr = AStr | ADex | AAgi | AInt | AWis | ACha | ACon

fun attr_of :: "attr \<Rightarrow> body \<Rightarrow> i32" where
  "attr_of AStr b = strength b"
| "attr_of ADex b = dexterity b"
| "attr_of AAgi b = agility b"
| "attr_of AInt b = intelligence b"
| "attr_of AWis b = wisdom b"
| "attr_of ACha b = charisma b"
| "attr_of ACon b = constitution b"

fun stat_of :: "attr \<Rightarrow> stat_block \<Rightarrow> int" where
  "stat_of AStr s = sb_str s"
| "stat_of ADex s = sb_dex s"
| "stat_of AAgi s = sb_agi s"
| "stat_of AInt s = sb_int s"
| "stat_of AWis s = sb_wis s"
| "stat_of ACha s = sb_cha s"
| "stat_of ACon s = sb_con s"

fun gear_of :: "attr \<Rightarrow> equip_bonuses \<Rightarrow> i32" where
  "gear_of AStr e = eb_str e"
| "gear_of ADex e = eb_dex e"
| "gear_of AAgi e = eb_agi e"
| "gear_of AInt e = eb_int e"
| "gear_of AWis e = eb_wis e"
| "gear_of ACha e = eb_cha e"
| "gear_of ACon e = eb_con e"

fun buff_of :: "attr \<Rightarrow> buff_effect \<Rightarrow> i32" where
  "buff_of AStr (StatBuff s a i w co dhp dmp) = s"
| "buff_of AAgi (StatBuff s a i w co dhp dmp) = a"
| "buff_of AInt (StatBuff s a i w co dhp dmp) = i"
| "buff_of AWis (StatBuff s a i w co dhp dmp) = w"
| "buff_of ACon (StatBuff s a i w co dhp dmp) = co"
| "buff_of a e = 0"

definition intrinsic_of :: "attr \<Rightarrow> connection \<times> body \<Rightarrow> i32" where
  "intrinsic_of a cb = of_int (stat_of a (cc_stats (compute_char (race (fst cb)) (cls (fst cb)) (clevel (snd cb)))))"

definition buffs_of :: "attr \<Rightarrow> active_buff list \<Rightarrow> i32" where
  "buffs_of a bs = sum_list (map (\<lambda>x. buff_of a (effect x)) bs)"

text \<open>What an attribute is beyond the account; zero when the invariant holds.\<close>

definition attr_drift :: "attr \<Rightarrow> connection \<times> body \<Rightarrow> i32" where
  "attr_drift a cb =
     attr_of a (snd cb) - intrinsic_of a cb - gear_of a (equip_stat_bonuses (snd cb)) - buffs_of a (active_buffs (snd cb))"

definition attrs_ok :: "connection \<times> body \<Rightarrow> bool" where
  "attrs_ok cb \<longleftrightarrow> (\<forall>a. attr_drift a cb = 0)"

lemma buffs_of_simps [simp]:
  "buffs_of a [] = 0" "buffs_of a (x # bs) = buff_of a (effect x) + buffs_of a bs" "buffs_of a (bs @ cs) = buffs_of a bs + buffs_of a cs"
  by (simp_all add: buffs_of_def)

lemma buff_of_plain [simp]: "\<not> is_StatBuff e \<Longrightarrow> buff_of a e = 0"
  by (cases a; cases e) simp_all

lemma buffs_of_filter: "(\<And>x. x \<in> set bs \<Longrightarrow> \<not> P x \<Longrightarrow> \<not> is_StatBuff (effect x)) \<Longrightarrow> buffs_of a (filter P bs) = buffs_of a bs"
  by (induction bs) auto

lemma buffs_of_split: "n < length bs \<Longrightarrow> buffs_of a bs = buffs_of a (take n bs) + (buff_of a (effect (bs ! n)) + buffs_of a (drop (Suc n) bs))"
  using arg_cong [OF id_take_nth_drop, of n bs "buffs_of a"] by simp

lemma buffs_of_remove: "n < length bs \<Longrightarrow> buffs_of a (remove_at n bs) = buffs_of a bs - buff_of a (effect (bs ! n))"
  by (simp add: remove_at_def buffs_of_split [of n bs a])

lemma buffs_of_update:
  "n < length bs \<Longrightarrow> buffs_of a (bs[n := y]) = buffs_of a bs - buff_of a (effect (bs ! n)) + buff_of a (effect y)"
  by (simp add: upd_conv_take_nth_drop buffs_of_split [of n bs a])

lemma position_Some: "position P bs = Some n \<Longrightarrow> n < length bs \<and> P (bs ! n)"
  by (induction bs arbitrary: n) (auto split: if_splits)

section \<open>Each operation\<close>

text \<open>Operations that leave race, class, level and gear alone move an attribute by what they add and take off.\<close>

definition same_frame :: "connection \<times> body \<Rightarrow> connection \<times> body \<Rightarrow> bool" where
  "same_frame cb cb' \<longleftrightarrow> race (fst cb') = race (fst cb) \<and> cls (fst cb') = cls (fst cb) \<and> clevel (snd cb') = clevel (snd cb)
     \<and> equip_stat_bonuses (snd cb') = equip_stat_bonuses (snd cb)"

lemma same_frame_drift:
  assumes "same_frame cb cb'"
  shows "attr_drift a cb' = attr_drift a cb + (attr_of a (snd cb') - attr_of a (snd cb))
    - (buffs_of a (active_buffs (snd cb')) - buffs_of a (active_buffs (snd cb)))"
  using assms by (simp add: attr_drift_def intrinsic_of_def same_frame_def)

lemma undo_effect_facts:
  "same_frame cb (undo_effect e cb) \<and> attr_of a (snd (undo_effect e cb)) = attr_of a (snd cb) - buff_of a e
    \<and> active_buffs (snd (undo_effect e cb)) = active_buffs (snd cb)"
  by (cases cb; cases e; cases a) (simp_all add: undo_effect_def undo_stat_deltas_def same_frame_def Let_def)

lemma apply_deltas_attr:
  "attr_of a (apply_stat_deltas s g i w co dhp dmp b) = attr_of a b + buff_of a (StatBuff s g i w co dhp dmp)"
  by (cases a) (simp_all add: apply_stat_deltas_def)

lemma apply_stat_buff_drift:
  assumes "is_StatBuff (effect x)"
  shows "attr_drift a (apply_stat_buff x cb) = attr_drift a cb"
proof -
  obtain s g i w co dhp dmp where e: "effect x = StatBuff s g i w co dhp dmp" using assms by (cases "effect x") auto
  define mid where "mid = (case position (\<lambda>y. bname y = bname x) (active_buffs (snd cb)) of
      Some n \<Rightarrow> (case undo_effect (effect (active_buffs (snd cb) ! n)) cb of (c, b) \<Rightarrow> (c, b\<lparr>active_buffs := remove_at n (active_buffs b)\<rparr>))
    | None \<Rightarrow> cb)"
  have mid: "attr_drift a mid = attr_drift a cb"
  proof (cases "position (\<lambda>y. bname y = bname x) (active_buffs (snd cb))")
    case (Some n)
    let ?e = "effect (active_buffs (snd cb) ! n)"
    note U = undo_effect_facts [of cb ?e a]
    have n: "n < length (active_buffs (snd cb))" using position_Some [OF Some] by simp
    have m: "mid = (fst (undo_effect ?e cb), (snd (undo_effect ?e cb))\<lparr>active_buffs := remove_at n (active_buffs (snd cb))\<rparr>)"
      using U by (simp add: mid_def Some case_prod_beta)
    have "same_frame cb mid" "attr_of a (snd mid) = attr_of a (snd cb) - buff_of a ?e"
      using U by (cases a; simp add: m same_frame_def)+
    then show ?thesis by (simp add: same_frame_drift m buffs_of_remove [OF n])
  qed (simp add: mid_def)
  have res: "apply_stat_buff x cb = (fst mid, (apply_stat_deltas s g i w co dhp dmp (snd mid))\<lparr>active_buffs := active_buffs (snd mid) @ [x]\<rparr>)"
    by (simp add: apply_stat_buff_def e mid_def [symmetric] case_prod_beta Let_def) (simp add: apply_stat_deltas_def)
  have "same_frame mid (apply_stat_buff x cb)" by (simp add: res same_frame_def apply_stat_deltas_def)
  moreover have "attr_of a (snd (apply_stat_buff x cb)) = attr_of a (snd mid) + buff_of a (effect x)"
    using apply_deltas_attr [of a s g i w co dhp dmp "snd mid"] by (cases a) (simp_all add: res e)
  ultimately show ?thesis by (simp add: same_frame_drift mid) (simp add: res)
qed

text \<open>A buff of another kind, where no active stat buff has its name.\<close>

definition plain_name :: "active_buff \<Rightarrow> body \<Rightarrow> bool" where
  "plain_name x b \<longleftrightarrow> \<not> is_StatBuff (effect x) \<and> (\<forall>y\<in>set (active_buffs b). bname y = bname x \<longrightarrow> \<not> is_StatBuff (effect y))"

lemma buffs_only:
  assumes "buffs_of a bs = buffs_of a (active_buffs b)"
  shows "attr_drift a (c, b\<lparr>active_buffs := bs\<rparr>) = attr_drift a (c, b)"
  using assms by (cases a) (simp_all add: attr_drift_def intrinsic_of_def)

lemma apply_buff_drift: "plain_name x b \<Longrightarrow> attr_drift a (c, apply_buff x b) = attr_drift a (c, b)"
proof (cases "position (\<lambda>y. bname y = bname x) (active_buffs b)")
  case (Some n)
  assume p: "plain_name x b"
  have n: "n < length (active_buffs b)" "bname (active_buffs b ! n) = bname x" using position_Some [OF Some] by auto
  then have "\<not> is_StatBuff (effect (active_buffs b ! n))" using p nth_mem [OF n(1)] by (simp add: plain_name_def)
  then show ?thesis using p n Some by (simp add: apply_buff_def buffs_only buffs_of_update refresh_buff_def plain_name_def)
qed (simp add: apply_buff_def buffs_only plain_name_def)

lemma exclusive_one:
  assumes "\<And>e. K e \<Longrightarrow> \<not> is_StatBuff e" "K (effect x)"
  shows "attr_drift a (c, b\<lparr>active_buffs := filter (\<lambda>y. \<not> K (effect y)) (active_buffs b) @ [x]\<rparr>) = attr_drift a (c, b)"
proof (rule buffs_only)
  have "buffs_of a (filter (\<lambda>y. \<not> K (effect y)) (active_buffs b)) = buffs_of a (active_buffs b)"
    by (rule buffs_of_filter) (use assms(1) in blast)
  then show "buffs_of a (filter (\<lambda>y. \<not> K (effect y)) (active_buffs b) @ [x]) = buffs_of a (active_buffs b)"
    using assms by simp
qed

lemma kinds_differ: "is_MpRegen e \<Longrightarrow> \<not> is_StatBuff e" "is_DamageShield e \<Longrightarrow> \<not> is_StatBuff e" "is_Absorb e \<Longrightarrow> \<not> is_StatBuff e"
  by (cases e; simp)+

lemma exclusive_drift:
  "is_MpRegen (effect x) \<Longrightarrow> attr_drift a (c, apply_mp_regen_exclusive x b) = attr_drift a (c, b)"
  "is_DamageShield (effect x) \<Longrightarrow> attr_drift a (c, apply_damage_shield_exclusive x b) = attr_drift a (c, b)"
  "is_Absorb (effect x) \<Longrightarrow> attr_drift a (c, apply_absorb_exclusive x b) = attr_drift a (c, b)"
  unfolding apply_mp_regen_exclusive_def apply_damage_shield_exclusive_def apply_absorb_exclusive_def
  by (rule exclusive_one; simp add: kinds_differ)+

lemma mark_dirty_drift [simp]: "attr_drift a (on_body mark_dirty cb) = attr_drift a cb"
  by (cases a) (simp_all add: attr_drift_def intrinsic_of_def on_body_def mark_dirty_def)

lemma strip_drift: "attr_drift a (snd (strip_one_buff cb)) = attr_drift a cb"
proof (cases "first_dispellable_index (active_buffs (snd cb))")
  case (Some n)
  let ?e = "effect (active_buffs (snd cb) ! n)"
  define mid where "mid = (if is_StatBuff ?e then on_body mark_dirty (undo_effect ?e cb) else cb)"
  note U = undo_effect_facts [of cb ?e a]
  have n: "n < length (active_buffs (snd cb))" using Some position_Some unfolding first_dispellable_index_def by blast
  have mid: "same_frame cb mid" "attr_of a (snd mid) = attr_of a (snd cb) - buff_of a ?e" "active_buffs (snd mid) = active_buffs (snd cb)"
    using U by (cases a; simp add: mid_def on_body_def mark_dirty_def same_frame_def)+
  have "snd (strip_one_buff cb) = (fst mid, (snd mid)\<lparr>active_buffs := remove_at n (active_buffs (snd cb))\<rparr>)"
    using mid(3) by (simp add: strip_one_buff_def Some mid_def [symmetric] case_prod_beta Let_def)
  moreover have "same_frame cb (fst mid, (snd mid)\<lparr>active_buffs := remove_at n (active_buffs (snd cb))\<rparr>)"
    "attr_of a ((snd mid)\<lparr>active_buffs := remove_at n (active_buffs (snd cb))\<rparr>) = attr_of a (snd cb) - buff_of a ?e"
    using mid by (cases a; simp add: same_frame_def)+
  ultimately show ?thesis by (simp add: same_frame_drift buffs_of_remove [OF n])
qed (simp add: strip_one_buff_def)

subsection \<open>The buff tick\<close>

lemma attr_of_upd [simp]:
  "attr_of a (b\<lparr>active_buffs := bs\<rparr>) = attr_of a b" "attr_of a (b\<lparr>mp := m\<rparr>) = attr_of a b"
  "attr_of a (b\<lparr>haste_lapsed := h\<rparr>) = attr_of a b" "attr_of a (mark_dirty b) = attr_of a b"
  "attr_of a (note_damage_taken t b) = attr_of a b"
  by (cases a; simp add: mark_dirty_def note_damage_taken_def)+

lemma gain_frame:
  "gain_hp ex rate dt x cb = (x', cb') \<Longrightarrow> same_frame cb cb' \<and> attr_of a (snd cb') = attr_of a (snd cb) \<and> effect x' = effect x"
  "gain_mp ex rate dt x cb = (x', cb') \<Longrightarrow> same_frame cb cb' \<and> attr_of a (snd cb') = attr_of a (snd cb) \<and> effect x' = effect x"
  by (auto simp: gain_hp_def gain_mp_def same_frame_def split: prod.splits option.splits if_splits) (simp_all add: mark_dirty_def)

lemma dot_frame:
  "dot_tick dps caster ty d t x cb = (x', cb', mark)
     \<Longrightarrow> same_frame cb cb' \<and> attr_of a (snd cb') = attr_of a (snd cb) \<and> effect x' = effect x"
  by (auto simp: dot_tick_def same_frame_def Let_def split: prod.splits if_splits) (simp_all add: mark_dirty_def note_damage_taken_def)

lemma tick_effect_frame:
  assumes "tick_effect dt t ex x cb = (x', cb', mark)"
  shows "same_frame cb cb' \<and> attr_of a (snd cb') = attr_of a (snd cb) \<and> effect x' = effect x"
proof -
  have same: "same_frame cb cb" by (simp add: same_frame_def)
  show ?thesis
    using assms same gain_frame [of ex _ dt x cb] dot_frame [of _ _ _ _ t x cb]
    by (cases "effect x") (auto simp: tick_effect_def split: prod.splits if_splits)
qed

lemma count_down_effect [simp]: "effect (count_down dt x) = effect x"
  by (simp add: count_down_def)

lemma expire_frame:
  "same_frame cb (expire_buff t x whole cb) \<and> attr_of a (snd (expire_buff t x whole cb)) = attr_of a (snd cb) - buff_of a (effect x)"
proof -
  define mid where "mid = (if is_StatBuff (effect x) then on_body mark_dirty (undo_effect (effect x) cb) else cb)"
  have "same_frame cb mid" "attr_of a (snd mid) = attr_of a (snd cb) - buff_of a (effect x)"
    using undo_effect_facts [of cb "effect x" a] by (cases a; simp add: mid_def on_body_def mark_dirty_def same_frame_def)+
  then show ?thesis by (cases a) (simp_all add: expire_buff_def mid_def [symmetric] on_body_def same_frame_def)
qed

lemma same_frame_trans: "same_frame x y \<Longrightarrow> same_frame y z \<Longrightarrow> same_frame x z"
  by (simp add: same_frame_def)

text \<open>What the pass takes off an attribute is what the buffs it drops had added.\<close>

lemma tick_buffs_frame:
  assumes "tick_buffs dt t kept todo (cb, out) = (bs, cb', out')"
  shows "same_frame cb cb' \<and> attr_of a (snd cb') - buffs_of a bs = attr_of a (snd cb) - buffs_of a kept - buffs_of a todo"
  using assms
proof (induction todo arbitrary: kept cb out)
  case (Cons x todo)
  obtain x2 cb1 mark where e: "tick_effect dt t (buff_expired (count_down dt x)) (count_down dt x) cb = (x2, cb1, mark)"
    by (cases "tick_effect dt t (buff_expired (count_down dt x)) (count_down dt x) cb") auto
  note E = tick_effect_frame [OF e, of a]
  have eff: "effect x2 = effect x" using E by simp
  show ?case
  proof (cases "buff_expired (count_down dt x)")
    case True
    define cb2 where "cb2 = expire_buff t x2 (kept @ x2 # todo) cb1"
    note X = expire_frame [of cb1 t x2 "kept @ x2 # todo" a, folded cb2_def]
    have "\<exists>o2. tick_buffs dt t kept todo (cb2, o2) = (bs, cb', out')"
      using Cons.prems True e by (auto simp: Let_def cb2_def)
    then obtain o2 where "tick_buffs dt t kept todo (cb2, o2) = (bs, cb', out')" by blast
    note I = Cons.IH [OF this]
    have "same_frame cb cb'" using E X I same_frame_trans by blast
    then show ?thesis using I E X eff by simp
  next
    case False
    have "\<exists>o2. tick_buffs dt t (kept @ [x2]) todo (cb1, o2) = (bs, cb', out')"
      using Cons.prems False e by (auto simp: Let_def)
    then obtain o2 where "tick_buffs dt t (kept @ [x2]) todo (cb1, o2) = (bs, cb', out')" by blast
    note I = Cons.IH [OF this]
    have "same_frame cb cb'" using E I same_frame_trans by blast
    then show ?thesis using I E eff by simp
  qed
qed (simp add: same_frame_def)

lemma buff_tick_drift: "attr_drift a (fst (buff_tick dt t cb)) = attr_drift a cb"
proof -
  obtain bs c b out where r: "tick_buffs dt t [] (active_buffs (snd cb)) (cb, \<lparr>out_dots = [], out_sickness_ended = False, out_changed = False\<rparr>)
      = (bs, (c, b), out)" using prod_cases4 by (metis surj_pair)
  note F = tick_buffs_frame [OF r, of a]
  have t: "fst (buff_tick dt t cb) = (c, b\<lparr>active_buffs := bs\<rparr>)" by (simp add: buff_tick_def r)
  have "same_frame cb (c, b\<lparr>active_buffs := bs\<rparr>)" "attr_of a (b\<lparr>active_buffs := bs\<rparr>) = attr_of a b"
    using F by (cases a; simp add: same_frame_def)+
  then show ?thesis using F by (simp add: t same_frame_drift algebra_simps)
qed

subsection \<open>Gear and level\<close>

lemma recompute_drift: "attr_drift a (snd (recompute_equipped_stats R (c, b))) = attr_drift a (c, b)"
  by (cases a) (simp_all add: recompute_equipped_stats_def attr_drift_def intrinsic_of_def Let_def)

lemma inventory_drift [simp]: "attr_drift a (c\<lparr>inventory := i\<rparr>, b) = attr_drift a (c, b)"
  by (simp add: attr_drift_def intrinsic_of_def)

lemma intrinsic_drift:
  "attr_drift a (apply_intrinsic_delta (clevel b) l (c, b\<lparr>xp := x, clevel := l, xp_to_next := n\<rparr>)) = attr_drift a (c, b)"
  by (cases a) (simp_all add: apply_intrinsic_delta_def attr_drift_def intrinsic_of_def Let_def)

lemma progress_drift: "attr_drift a (c, b\<lparr>xp := x, xp_to_next := n\<rparr>) = attr_drift a (c, b)"
  by (cases a) (simp_all add: attr_drift_def intrinsic_of_def)

lemma award_drift: "attr_drift a (snd (award_xp amount cb)) = attr_drift a cb"
proof -
  obtain x l n where r: "resolve (sat32 (xp (snd cb) + amount)) (clevel (snd cb)) = (x, l, n)"
    by (cases "resolve (sat32 (xp (snd cb) + amount)) (clevel (snd cb))") auto
  show ?thesis
  proof (cases "l = clevel (snd cb)")
    case True
    then have "snd (award_xp amount cb) = (fst cb, (snd cb)\<lparr>xp := x, xp_to_next := n\<rparr>)"
      using r by (simp add: award_xp_def case_prod_beta Let_def)
    then show ?thesis using progress_drift [where c = "fst cb" and b = "snd cb"] by simp
  next
    case False
    then have "snd (award_xp amount cb) = apply_intrinsic_delta (clevel (snd cb)) l (fst cb, (snd cb)\<lparr>xp := x, clevel := l, xp_to_next := n\<rparr>)"
      using r by (simp add: award_xp_def case_prod_beta Let_def)
    then show ?thesis using intrinsic_drift [where c = "fst cb" and b = "snd cb"] by simp
  qed
qed

subsection \<open>A whole spell\<close>

text \<open>What a spell grants beside its attribute deltas, and whether it has those.\<close>

definition grants_stats :: "spell \<Rightarrow> bool" where
  "grants_stats s \<longleftrightarrow> pos32 (primary_stat_buff_duration s)
     \<and> (str_buff s \<noteq> 0 \<or> agi_buff s \<noteq> 0 \<or> int_buff s \<noteq> 0 \<or> wis_buff s \<noteq> 0 \<or> con_buff s \<noteq> 0
        \<or> nonzero32 (max_hp_buff s) \<or> nonzero32 (max_mp_buff s))"

definition grants_other :: "spell \<Rightarrow> bool" where
  "grants_other s \<longleftrightarrow> (pos32 (hot_hps s) \<and> pos32 (hot_duration s)) \<or> (pos32 (mp_regen_hps s) \<and> pos32 (mp_regen_duration s))
     \<or> (pos32 (move_speed_mult s) \<and> pos32 (move_speed_duration s)) \<or> (pos32 (haste_amount s) \<and> pos32 (haste_duration s))
     \<or> (pos32 (damage_shield_amount s) \<and> pos32 (damage_shield_duration s)) \<or> pos32 (absorb_amount s)
     \<or> ((pos32 (accuracy_buff s) \<or> pos32 (crit_buff s)) \<and> pos32 (stat_buff_duration s))"

text \<open>A buff name stands for one kind of buff: the spell grants attributes or other effects, not both, and in the latter case
  no active stat buff has its name.\<close>

definition free_name :: "string \<Rightarrow> connection \<times> body \<Rightarrow> bool" where
  "free_name n cb \<longleftrightarrow> (\<forall>y\<in>set (active_buffs (snd cb)). bname y = n \<longrightarrow> \<not> is_StatBuff (effect y))"

definition one_kind :: "spell \<Rightarrow> connection \<times> body \<Rightarrow> bool" where
  "one_kind s cb \<longleftrightarrow> (grants_stats s \<longrightarrow> \<not> grants_other s) \<and> (grants_other s \<longrightarrow> free_name (spell_name s) cb)"

definition keeps_account :: "string \<Rightarrow> connection \<times> body \<Rightarrow> connection \<times> body \<Rightarrow> bool" where
  "keeps_account n cb cb' \<longleftrightarrow> free_name n cb' \<and> (\<forall>a. attr_drift a cb' = attr_drift a cb)"

lemma keeps_trans: "keeps_account n x y \<Longrightarrow> keeps_account n y z \<Longrightarrow> keeps_account n x z"
  by (simp add: keeps_account_def)

lemma plain_kept:
  assumes "free_name (bname x) cb" "\<not> is_StatBuff (effect x)"
  shows "keeps_account (bname x) cb (on_body (apply_buff x) cb)"
proof -
  have "free_name (bname x) (on_body (apply_buff x) cb)"
    using assms by (auto simp: free_name_def on_body_def apply_buff_def refresh_buff_def dest!: set_update_subset_insert [THEN subsetD]
        split: option.splits)
  moreover have "plain_name x (snd cb)" using assms by (simp add: plain_name_def free_name_def)
  then have "attr_drift a (on_body (apply_buff x) cb) = attr_drift a cb" for a
    using apply_buff_drift [of x "snd cb" a "fst cb"] by (simp add: on_body_def)
  ultimately show ?thesis by (simp add: keeps_account_def)
qed

lemma exclusive_kept:
  "free_name n cb \<Longrightarrow> is_MpRegen (effect x) \<Longrightarrow> keeps_account n cb (on_body (apply_mp_regen_exclusive x) cb)"
  "free_name n cb \<Longrightarrow> is_DamageShield (effect x) \<Longrightarrow> keeps_account n cb (on_body (apply_damage_shield_exclusive x) cb)"
  "free_name n cb \<Longrightarrow> is_Absorb (effect x) \<Longrightarrow> keeps_account n cb (on_body (apply_absorb_exclusive x) cb)"
  using exclusive_drift [of x _ "fst cb" "snd cb"] kinds_differ [of "effect x"]
  by (auto simp: keeps_account_def free_name_def on_body_def apply_mp_regen_exclusive_def apply_damage_shield_exclusive_def
      apply_absorb_exclusive_def)

lemma grant_if_kept:
  assumes "keeps_account n cb0 (snd r)" "cond \<Longrightarrow> keeps_account n (snd r) (f (snd r))"
  shows "keeps_account n cb0 (snd (grant_if cond f r))"
  using assms keeps_trans [of n cb0 "snd r" "f (snd r)"] by (cases r) (simp add: grant_if_def)

lemma grant_if_skip: "\<not> cond \<Longrightarrow> grant_if cond f r = r"
  by (cases r) (simp add: grant_if_def)

lemma grants_kept:
  assumes "keeps_account n cb (snd r)"
  shows "bname x = n \<Longrightarrow> \<not> is_StatBuff (effect x) \<Longrightarrow> keeps_account n cb (snd (grant_if cond (on_body (apply_buff x)) r))"
    "is_MpRegen (effect x) \<Longrightarrow> keeps_account n cb (snd (grant_if cond (on_body (apply_mp_regen_exclusive x)) r))"
    "is_DamageShield (effect x) \<Longrightarrow> keeps_account n cb (snd (grant_if cond (on_body (apply_damage_shield_exclusive x)) r))"
    "is_Absorb (effect x) \<Longrightarrow> keeps_account n cb (snd (grant_if cond (on_body (apply_absorb_exclusive x)) r))"
proof -
  have free: "free_name n (snd r)" using assms by (simp add: keeps_account_def)
  show "bname x = n \<Longrightarrow> \<not> is_StatBuff (effect x) \<Longrightarrow> keeps_account n cb (snd (grant_if cond (on_body (apply_buff x)) r))"
    using plain_kept [of x "snd r"] free by (intro grant_if_kept [OF assms]) auto
  show "is_MpRegen (effect x) \<Longrightarrow> keeps_account n cb (snd (grant_if cond (on_body (apply_mp_regen_exclusive x)) r))"
    by (intro grant_if_kept [OF assms] exclusive_kept(1) free)
  show "is_DamageShield (effect x) \<Longrightarrow> keeps_account n cb (snd (grant_if cond (on_body (apply_damage_shield_exclusive x)) r))"
    by (intro grant_if_kept [OF assms] exclusive_kept(2) free)
  show "is_Absorb (effect x) \<Longrightarrow> keeps_account n cb (snd (grant_if cond (on_body (apply_absorb_exclusive x)) r))"
    by (intro grant_if_kept [OF assms] exclusive_kept(3) free)
qed

lemmas new_defs = new_hot_def new_mp_regen_def new_speed_def new_haste_def new_damage_shield_def new_absorb_def new_accuracy_crit_def
  new_stat_buff_def fresh_buff_def

lemma spell_buffs_drift:
  assumes "one_kind s cb"
  shows "attr_drift a (snd (apply_player_spell_buffs s t cb)) = attr_drift a cb"
proof (cases "grants_other s")
  case False
  then have none: "\<not> (pos32 (hot_hps s) \<and> pos32 (hot_duration s))" "\<not> (pos32 (mp_regen_hps s) \<and> pos32 (mp_regen_duration s))"
    "\<not> (pos32 (move_speed_mult s) \<and> pos32 (move_speed_duration s))" "\<not> (pos32 (haste_amount s) \<and> pos32 (haste_duration s))"
    "\<not> (pos32 (damage_shield_amount s) \<and> pos32 (damage_shield_duration s))" "\<not> pos32 (absorb_amount s)"
    "\<not> ((pos32 (accuracy_buff s) \<or> pos32 (crit_buff s)) \<and> pos32 (stat_buff_duration s))"
    unfolding grants_other_def by blast+
  show ?thesis
    unfolding apply_player_spell_buffs_def none [THEN grant_if_skip]
    by (simp add: grant_if_def apply_stat_buff_drift new_defs)
next
  case True
  then have no: "\<not> grants_stats s" and free: "free_name (spell_name s) cb" using assms by (auto simp: one_kind_def)
  have "keeps_account (spell_name s) cb (snd (False, cb))" using free by (simp add: keeps_account_def)
  then have "keeps_account (spell_name s) cb (snd (apply_player_spell_buffs s t cb))"
    unfolding apply_player_spell_buffs_def grant_if_skip [OF no [unfolded grants_stats_def]]
    by (intro grants_kept) (simp_all add: new_defs)
  then show ?thesis by (simp add: keeps_account_def)
qed

section \<open>The invariant\<close>

text \<open>What can happen to a living character's buffs, gear and level.\<close>

inductive attr_step :: "registry \<Rightarrow> connection \<times> body \<Rightarrow> connection \<times> body \<Rightarrow> bool" for R where
  buffed: "one_kind s cb \<Longrightarrow> apply_player_spell_buffs s t cb = (changed, cb') \<Longrightarrow> attr_step R cb cb'"
| sick: "apply_stat_buff (res_sickness_buff level st t) cb = cb' \<Longrightarrow> attr_step R cb cb'"
| afflicted: "plain_name x (snd cb) \<Longrightarrow> attr_step R cb (on_body (apply_buff x) cb)"
| dispelled: "strip_one_buff cb = (changed, cb') \<Longrightarrow> attr_step R cb cb'"
| ticks: "buff_tick dt t cb = (cb', out) \<Longrightarrow> attr_step R cb cb'"
| worn: "recompute_equipped_stats R (c\<lparr>inventory := i\<rparr>, b) = (res, cb') \<Longrightarrow> attr_step R (c, b) cb'"
| earns: "award_xp amount cb = (r, cb') \<Longrightarrow> attr_step R cb cb'"
| revealed: "break_stealth (active_buffs b) = (changed, bs) \<Longrightarrow> attr_step R (c, b) (c, b\<lparr>active_buffs := bs\<rparr>)"
| moved: "end_on_move (active_buffs b) = (changed, bs) \<Longrightarrow> attr_step R (c, b) (c, b\<lparr>active_buffs := bs\<rparr>)"
| respawns: "attr_step R cb (respawn dest cb)"

lemma unhide_drift:
  "attr_drift a (c, b\<lparr>active_buffs := snd (break_stealth (active_buffs b))\<rparr>) = attr_drift a (c, b)"
  "attr_drift a (c, b\<lparr>active_buffs := snd (end_on_move (active_buffs b))\<rparr>) = attr_drift a (c, b)"
  unfolding break_stealth_def end_on_move_def Let_def snd_conv by (intro buffs_only buffs_of_filter; auto)+

lemma respawn_drift: "attr_drift a (respawn dest cb) = attr_drift a cb"
  by (cases cb; cases a) (simp_all add: respawn_def attr_drift_def intrinsic_of_def mark_dirty_def)

lemma attr_step_drift: "attr_step R cb cb' \<Longrightarrow> attr_drift a cb' = attr_drift a cb"
proof (induction rule: attr_step.induct)
  case (buffed s cb t changed cb')
  then show ?case using spell_buffs_drift [of s cb a t] by simp
next
  case (sick level st t cb cb')
  then show ?case using apply_stat_buff_drift [of "res_sickness_buff level st t" a cb] by (simp add: res_sickness_buff_def Let_def)
next
  case (afflicted x cb)
  then show ?case using apply_buff_drift [of x "snd cb" a "fst cb"] by (simp add: on_body_def)
next
  case (dispelled cb changed cb')
  then show ?case using strip_drift [of a cb] by simp
next
  case (ticks dt t cb cb' out)
  then show ?case using buff_tick_drift [of a dt t cb] by simp
next
  case (worn i c b res cb')
  then show ?case using recompute_drift [where c = "c\<lparr>inventory := i\<rparr>" and b = b and R = R and a = a] by simp
next
  case (earns amount cb r cb')
  then show ?case using award_drift [of a amount cb] by simp
next
  case (revealed b changed bs c)
  then show ?case using unhide_drift(1) [of a c b] by simp
next
  case (moved b changed bs c)
  then show ?case using unhide_drift(2) [of a c b] by simp
next
  case (respawns cb dest)
  then show ?case by (rule respawn_drift)
qed


text \<open>A character whose attributes are its race's and class's, with no gear and no buffs.\<close>

definition demo_fresh :: body where
  "demo_fresh =
     (let s = cc_stats (compute_char (race demo_conn) (cls demo_conn) 1)
      in demo_body\<lparr>strength := of_int (sb_str s), dexterity := of_int (sb_dex s), agility := of_int (sb_agi s),
           intelligence := of_int (sb_int s), wisdom := of_int (sb_wis s), charisma := of_int (sb_cha s),
           constitution := of_int (sb_con s)\<rparr>)"

lemma demo_fresh_ok: "attrs_ok (demo_conn, demo_fresh)"
  unfolding attrs_ok_def
proof
  show "attr_drift a (demo_conn, demo_fresh) = 0" for a
    by (cases a) (simp_all add: attr_drift_def intrinsic_of_def demo_fresh_def demo_body_def no_bonuses_def Let_def)
qed


text \<open>C25. Death drops the buffs without undoing them: whatever the active stat buffs had added stays on the attribute after
  \<open>kill_player\<close>, with no buff left to account for it.\<close>

theorem death_leaves_the_buffs_behind:
  "attr_drift a (snd (kill_player cb)) = attr_drift a cb + buffs_of a (active_buffs (snd cb))"
proof -
  obtain m c b where p: "apply_death_penalty cb = (m, c, b)" by (cases "apply_death_penalty cb") auto
  have lost: "attr_drift a (c', b'\<lparr>death_lost_xp := n\<rparr>) = attr_drift a (c', b')" for c' b' n
    by (cases a) (simp_all add: attr_drift_def intrinsic_of_def)
  have kept: "active_buffs (snd (snd (award_xp amount cb'))) = active_buffs (snd cb')" for amount cb'
    by (simp add: award_xp_def apply_intrinsic_delta_def Let_def case_prod_beta)
  have "attr_drift a (c, b) = attr_drift a cb \<and> active_buffs b = active_buffs (snd cb)"
    using p award_drift [of a _ "(fst cb, (snd cb)\<lparr>death_lost_xp := 0\<rparr>)"] kept [of _ "(fst cb, (snd cb)\<lparr>death_lost_xp := 0\<rparr>)"]
      lost [where c' = "fst cb" and b' = "snd cb" and n = 0]
    by (auto simp: apply_death_penalty_def on_body_def Let_def lost split: prod.splits if_splits) (metis snd_conv)+
  moreover have "attr_drift a (snd (kill_player cb)) = attr_drift a (c, b) + buffs_of a (active_buffs b)"
    by (cases a) (simp_all add: kill_player_def p mark_dirty_def attr_drift_def intrinsic_of_def)
  ultimately show ?thesis by simp
qed

end
