(* ===== verification/F32Mono.thy ===== *)
theory F32Mono
  imports F32Ops
begin

text \<open>
  Non-negative floats: conversion, product, floor, rounding and the cast back to \<open>i32\<close> all keep the order, so a bound on a
  formula follows from its value at one point.
\<close>

definition f32_nn :: "f32 \<Rightarrow> bool" where
  "f32_nn a \<longleftrightarrow> f32_finite a \<and> 0 \<le> f32_val a"

lemma f32_nnD: "f32_nn a \<Longrightarrow> f32_finite a" "f32_nn a \<Longrightarrow> 0 \<le> f32_val a" "f32_nn a \<Longrightarrow> \<not> f32_nan a"
  by (simp_all add: f32_nn_def)

lemma f32_val_unfold: "f32_val a = (if f32_sign a then - int (mag_units (f32_mag a)) else int (mag_units (f32_mag a)))"
  by (simp add: f32_val_def)

lemma f32_key_sign: "f32_finite a \<Longrightarrow> 0 \<le> f32_key a \<longleftrightarrow> 0 \<le> f32_val a"
  using mag_units_mono [of "f32_mag a" 0] by (auto simp: f32_key_def f32_val_def)

lemma f32_nn_below:
  assumes "f32_le a c" "f32_finite c" "0 \<le> f32_key a"
  shows "f32_nn a"
proof -
  have "f32_key a \<le> f32_key c" using assms(1) by (simp add: f32_le_def)
  then have "f32_mag a \<le> f32_mag c \<or> f32_mag a = 0"
    using assms(3) by (cases "f32_sign a"; cases "f32_sign c") (simp_all add: f32_key_def)
  moreover have "0 < F32_INF" by (simp add: F32_INF_def)
  ultimately have "f32_finite a" using assms(2) unfolding f32_finite_mag by linarith
  then show ?thesis using assms(3) by (simp add: f32_nn_def f32_key_sign)
qed

lemma f32_le_refl: "\<not> f32_nan a \<Longrightarrow> f32_le a a"
  by (simp add: f32_le_def)

subsection \<open>Conversion from integers\<close>

lemma f32_of_int_key: "0 \<le> n \<Longrightarrow> f32_key (f32_of_int n) = int (round_scaled (nat n * 2 ^ 149) 0)"
  using round_scaled_less by (simp add: f32_of_int_def)

lemma f32_of_int_not_nan [simp]: "\<not> f32_nan (f32_of_int n)"
  by (simp add: f32_of_int_def)

lemma f32_of_int_mono: "0 \<le> m \<Longrightarrow> m \<le> n \<Longrightarrow> f32_le (f32_of_int m) (f32_of_int n)"
  by (simp add: f32_le_key f32_of_int_key round_scaled_mono nat_mono)

lemma f32_of_int_nn: "0 \<le> m \<Longrightarrow> m \<le> n \<Longrightarrow> f32_finite (f32_of_int n) \<Longrightarrow> f32_nn (f32_of_int m)"
  by (rule f32_nn_below [OF f32_of_int_mono]) (simp_all add: f32_of_int_key)

subsection \<open>Products\<close>

lemma f32_mul_nn_key: "f32_nn a \<Longrightarrow> f32_nn b \<Longrightarrow> 0 \<le> f32_key (f32_mul a b)"
  by (simp add: f32_nn_def f32_mul_key rkey_def mult_less_0_iff not_less)

lemma f32_mul_nn_mono:
  assumes "f32_nn a" "f32_nn b" "f32_le a c" "f32_finite c" "f32_finite (f32_mul c b)"
  shows "f32_le (f32_mul a b) (f32_mul c b)" "f32_nn (f32_mul a b)"
proof -
  show le: "f32_le (f32_mul a b) (f32_mul c b)" using assms by (intro f32_mul_mono) (simp_all add: f32_nn_def)
  show "f32_nn (f32_mul a b)" using f32_nn_below [OF le assms(5)] f32_mul_nn_key [OF assms(1,2)] by simp
qed

subsection \<open>Whole parts\<close>

lemma whole_part_nn:
  assumes "f32_nn a"
  shows "f32_val a div 2 ^ 149 = int (mag_units (f32_mag a) div 2 ^ 149)"
  using assms by (auto simp: f32_nn_def f32_val_def zdiv_int split: if_splits)

lemma f32_mag_mono: "f32_nn a \<Longrightarrow> f32_nn c \<Longrightarrow> f32_le a c \<Longrightarrow> f32_mag a \<le> f32_mag c"
  using mag_units_mono [of "f32_mag a" 0] mag_units_mono [of "f32_mag c" 0]
  by (auto simp: f32_le_def f32_key_def f32_nn_def f32_val_def split: if_splits)

lemma f32_to_i32_nn:
  assumes "f32_nn a"
  shows "f32_to_i32 a = min I32_MAX (int (mag_units (f32_mag a) div 2 ^ 149))"
proof -
  have "f32_sign a \<Longrightarrow> mag_units (f32_mag a) = 0" using assms by (auto simp: f32_nn_def f32_val_def)
  then show ?thesis using f32_nnD(1,3) [OF assms] by (auto simp: f32_to_i32_def Let_def I32_MIN_def I32_MAX_def)
qed

lemma f32_to_i32_mono: "f32_nn a \<Longrightarrow> f32_nn c \<Longrightarrow> f32_le a c \<Longrightarrow> f32_to_i32 a \<le> f32_to_i32 c"
  using f32_mag_mono [of a c] mag_units_mono [of "f32_mag a" "f32_mag c"]
  by (simp add: f32_to_i32_nn div_le_mono min.coboundedI2)

lemma f32_to_i32_nonneg: "f32_nn a \<Longrightarrow> 0 \<le> f32_to_i32 a"
  by (simp add: f32_to_i32_nn I32_MAX_def)

text \<open>Casting the floor is casting.\<close>

lemma whole_exact:
  assumes "n = (mag_units m div 2 ^ 149) * 2 ^ 149" "m < F32_INF"
  shows "mag_units (round_scaled n 0) = n" "round_scaled n 0 < F32_INF"
proof -
  have "\<exists>f q. n = f * 2 ^ q \<and> f < (2::nat) ^ 24 \<and> q \<le> 253"
  proof (cases "n = 0")
    case True
    then show ?thesis by (intro exI [of _ 0] exI [of _ 0]) simp
  next
    case False
    have "m < 2 ^ 31" using assms(2) by (simp add: F32_INF_def)
    then obtain q f where p: "mag_units m = f * 2 ^ q" "f < 2 ^ 24" "q \<le> 253"
      by (rule mag_parts) (use assms(2) in blast)
    show ?thesis
    proof (cases "149 \<le> q")
      case True
      then have "(2::nat) ^ q = 2 ^ (q - 149) * 2 ^ 149" by (metis le_add_diff_inverse2 power_add)
      then have "n = f * 2 ^ q" unfolding assms(1) p(1) by (metis mult.assoc nonzero_mult_div_cancel_right power_not_zero zero_neq_numeral)
      then show ?thesis using p by blast
    next
      case False
      then have eq: "(2::nat) ^ 149 = 2 ^ q * 2 ^ (149 - q)" by (metis le_add_diff_inverse nat_le_linear power_add)
      have "mag_units m div 2 ^ 149 = f div 2 ^ (149 - q)" unfolding p(1) eq by (simp add: mult.commute [of f])
      also have "\<dots> \<le> f" by simp
      finally show ?thesis using p(2) unfolding assms(1) by (intro exI [of _ "mag_units m div 2 ^ 149"] exI [of _ 149]) simp
    qed
  qed
  then show "mag_units (round_scaled n 0) = n" "round_scaled n 0 < F32_INF" using round_scaled_exact by blast+
qed

lemma f32_floor_nn:
  assumes "f32_nn a"
  shows "f32_mag (f32_floor a) = round_scaled ((mag_units (f32_mag a) div 2 ^ 149) * 2 ^ 149) 0"
    "f32_sign (f32_floor a) = f32_sign a" "f32_nn (f32_floor a)" "f32_to_i32 (f32_floor a) = f32_to_i32 a"
proof -
  define n where "n = (mag_units (f32_mag a) div 2 ^ 149) * 2 ^ 149"
  have fin: "f32_mag a < F32_INF" using assms by (simp add: f32_nn_def f32_finite_def)
  note ex = whole_exact [OF n_def fin]
  have "nat \<bar>f32_val a div 2 ^ 149\<bar> = mag_units (f32_mag a) div 2 ^ 149" using whole_part_nn [OF assms] by simp
  then have fl: "f32_floor a = f32_pack (f32_sign a) (round_scaled n 0)" using f32_nnD(1) [OF assms] by (simp add: f32_floor_def n_def)
  then show mag: "f32_mag (f32_floor a) = round_scaled ((mag_units (f32_mag a) div 2 ^ 149) * 2 ^ 149) 0"
    and sg: "f32_sign (f32_floor a) = f32_sign a" using round_scaled_less [of n 0] by (simp_all add: n_def)
  have "f32_sign a \<Longrightarrow> mag_units (f32_mag a) = 0" using assms by (auto simp: f32_nn_def f32_val_def)
  then show nn: "f32_nn (f32_floor a)"
    using ex mag sg by (auto simp: f32_nn_def f32_finite_def f32_val_def n_def)
  have "mag_units (f32_mag (f32_floor a)) div 2 ^ 149 = mag_units (f32_mag a) div 2 ^ 149"
    unfolding mag n_def [symmetric] ex(1) by (simp only: n_def) simp
  then show "f32_to_i32 (f32_floor a) = f32_to_i32 a" using nn assms by (simp only: f32_to_i32_nn)
qed

text \<open>Rounding a number that is at most the whole number \<open>n\<close> gives at most \<open>n\<close>.\<close>

lemma f32_round_nn:
  assumes "f32_nn a" "f32_val a \<le> int n * 2 ^ 149" "n \<le> 2 ^ 24"
  shows "f32_to_i32 (f32_round a) \<le> int n" "0 \<le> f32_to_i32 (f32_round a)"
proof -
  define u where "u = mag_units (f32_mag a)"
  define k where "k = (u * 2 + 2 ^ 149) div 2 ^ 150"
  have u: "int u = f32_val a" using assms(1) by (auto simp: f32_nn_def f32_val_def u_def)
  then have "int u \<le> int (n * 2 ^ 149)" using assms(2) by simp
  then have "u \<le> n * 2 ^ 149" by (simp only: of_nat_le_iff)
  then have "u * 2 + 2 ^ 149 \<le> n * 2 ^ 150 + 2 ^ 149" by simp
  then have "k \<le> (n * 2 ^ 150 + 2 ^ 149) div 2 ^ 150" unfolding k_def by (rule div_le_mono)
  then have k: "k \<le> n" by simp
  have r: "f32_round a = f32_pack (f32_sign a) (round_scaled (k * 2 ^ 149) 0)"
    using f32_nnD(1) [OF assms(1)] by (simp add: f32_round_def k_def u_def)
  have ex: "mag_units (round_scaled (k * 2 ^ 149) 0) = k * 2 ^ 149" "round_scaled (k * 2 ^ 149) 0 < F32_INF"
    using int_round [of "int k"] k assms(3) by simp_all
  have "f32_sign a \<Longrightarrow> u = 0" using assms(1) by (auto simp: f32_nn_def f32_val_def u_def)
  then have sg: "f32_sign a \<Longrightarrow> k = 0" by (simp add: k_def)
  have nn: "f32_nn (f32_round a)"
    using ex sg round_scaled_less [of "k * 2 ^ 149" 0] by (auto simp: r f32_nn_def f32_finite_def f32_val_def)
  have "mag_units (f32_mag (f32_round a)) div 2 ^ 149 = k"
    using ex round_scaled_less [of "k * 2 ^ 149" 0] by (simp add: r)
  then show "f32_to_i32 (f32_round a) \<le> int n" "0 \<le> f32_to_i32 (f32_round a)"
    using k f32_to_i32_nn [OF nn] by (simp_all add: I32_MAX_def)
qed

text \<open>A quotient of something no larger is at most one.\<close>

lemma f32_div_le_one:
  assumes "f32_nn a" "f32_nn b" "f32_val a \<le> f32_val b" "0 < f32_val b"
  shows "f32_nn (f32_div a b)" "f32_val (f32_div a b) \<le> 2 ^ 149"
proof -
  define u v where "u = mag_units (f32_mag a)" and "v = mag_units (f32_mag b)"
  have uv: "u \<le> v" "0 < v" using assms by (auto simp: f32_nn_def f32_val_def u_def v_def split: if_splits)
  have v0: "f32_mag b \<noteq> 0" using uv(2) by (metis v_def mag_units_0 less_irrefl)
  have "div_units u v \<le> 2 ^ 149 * 2 ^ 2"
  proof (cases "u = v")
    case True
    then show ?thesis using uv by (simp add: div_units_def)
  next
    case False
    then have "u * 2 ^ 150 < 2 ^ 150 * v" using uv by simp
    then have "u * 2 ^ 150 div v < 2 ^ 150" by (simp add: less_mult_imp_div_less)
    then have "2 * (u * 2 ^ 150 div v) + 2 \<le> 2 ^ 149 * 2 ^ 2" by simp
    then show ?thesis by (auto simp: div_units_def Let_def)
  qed
  then have "round_scaled (div_units u v) (0 + 2) \<le> round_scaled (2 ^ 149 * 2 ^ 2) (0 + 2)" by (rule round_scaled_mono)
  moreover have "round_scaled (2 ^ 149 * 2 ^ 2) (0 + 2) = round_scaled (2 ^ 149) 0" by (rule round_scaled_shift)
  ultimately have r: "round_scaled (div_units u v) 2 \<le> round_scaled (2 ^ 149) 0" by (simp only: add_0_left)
  have one: "mag_units (round_scaled (2 ^ 149) 0) = 2 ^ 149" "round_scaled (2 ^ 149) 0 < F32_INF" using int_round [of 1] by simp_all
  define s where "s = (f32_sign a \<noteq> f32_sign b)"
  have q: "f32_div a b = f32_pack s (round_scaled (div_units u v) 2)"
    using f32_nnD [OF assms(1)] f32_nnD [OF assms(2)] v0 by (simp add: f32_div_def Let_def u_def v_def s_def)
  have "\<not> f32_sign b" using assms(4) by (auto simp: f32_val_def split: if_splits)
  then have "s \<Longrightarrow> u = 0" using assms(1) by (auto simp: s_def f32_nn_def f32_val_def u_def)
  then have z: "s \<Longrightarrow> round_scaled (div_units u v) 2 = 0" by (simp add: div_units_def)
  have m: "f32_mag (f32_div a b) = round_scaled (div_units u v) 2" "f32_sign (f32_div a b) = s" using round_scaled_less by (simp_all add: q)
  have "mag_units (round_scaled (div_units u v) 2) \<le> 2 ^ 149" using r one(1) mag_units_mono by metis
  then have "int (mag_units (round_scaled (div_units u v) 2)) \<le> 2 ^ 149" by simp
  then show "f32_nn (f32_div a b)" "f32_val (f32_div a b) \<le> 2 ^ 149"
    using z r one(2) m by (auto simp: f32_nn_def f32_finite_def f32_val_def)
qed

end
