(* ===== verification/Growth.thy ===== *)
theory Growth
  imports Progress F32Mono
begin

text \<open>
  What experience promises: a character's total over all levels moves by exactly what it is awarded, up to the floor of a
  death and the cap, and a death with its resurrection never leaves anyone ahead.
\<close>

section \<open>The total\<close>

text \<open>Everything earned so far: the bands below the level and the progress into it.\<close>

definition xp_total :: "int \<Rightarrow> int \<Rightarrow> int" where
  "xp_total x level = (\<Sum>k\<in>{1..<level}. xp_to_next_for k) + x"

definition earned :: "body \<Rightarrow> int" where
  "earned b = xp_total (xp b) (clevel b)"

definition xp_ok :: "body \<Rightarrow> bool" where
  "xp_ok b \<longleftrightarrow> 1 \<le> clevel b \<and> clevel b \<le> 60 \<and> 0 \<le> xp b \<and> xp b \<le> xp_to_next_for (clevel b)
     \<and> xp_to_next b = xp_to_next_for (clevel b)"

lemma xp_total_Suc: "1 \<le> l \<Longrightarrow> xp_total x (l + 1) = xp_total (x + xp_to_next_for l) l"
proof -
  assume "1 \<le> l"
  then have "{1..<l + 1} = insert l {1..<l}" by auto
  then show ?thesis by (simp add: xp_total_def)
qed

lemma bands_sound: "list_all (\<lambda>v. 1000 \<le> v \<and> v \<le> 89334600) BANDS"
  by (simp add: BANDS_def)

lemma length_BANDS: "length BANDS = 60"
  by (simp add: BANDS_def)

lemma band_range: "1000 \<le> xp_to_next_for l \<and> xp_to_next_for l \<le> 89334600"
proof -
  define k where "k = max 1 (min 60 l)"
  have "xp_to_next_for l = xp_to_next_for k" by (simp add: xp_to_next_for_def MAX_LEVEL_def k_def Let_def)
  also have "\<dots> = BANDS ! nat (k - 1)" by (rule bands_table) (simp_all add: k_def)
  finally show ?thesis
    using bands_sound length_BANDS unfolding list_all_length by (simp add: k_def)
qed

lemma level_up_total:
  assumes "1 \<le> l" "l \<le> 60" "level_up x l = (x', l')"
  shows "xp_total x' l' = xp_total x l \<and> l \<le> l' \<and> l' \<le> 60 \<and> (x' < xp_to_next_for l' \<or> l' = 60)
    \<and> (0 \<le> x \<longrightarrow> 0 \<le> x') \<and> (x < 0 \<longrightarrow> x' = x \<and> l' = l)"
  using assms
proof (induction x l rule: level_up.induct)
  case (1 x l)
  show ?case
  proof (cases "xp_to_next_for l \<le> x \<and> l < MAX_LEVEL")
    case True
    then have "level_up (x - xp_to_next_for l) (l + 1) = (x', l')" using 1(4) by (subst (asm) level_up.simps) simp
    moreover have "1 \<le> l + 1" "l + 1 \<le> 60" using True 1(2) by (simp_all add: MAX_LEVEL_def)
    ultimately show ?thesis
      using 1(1) [OF True] True band_range [of l] 1(2) xp_total_Suc [of l "x - xp_to_next_for l"] by auto
  next
    case False
    then have "x' = x" "l' = l" using 1(4) by (subst (asm) level_up.simps, simp)+
    then show ?thesis using False 1(2,3) by (auto simp: MAX_LEVEL_def)
  qed
qed

lemma level_down_total:
  assumes "1 \<le> l" "level_down x l = (x', l')"
  shows "xp_total x' l' = xp_total x l \<and> 1 \<le> l' \<and> l' \<le> l \<and> (0 \<le> x' \<or> l' \<le> 5)
    \<and> (0 \<le> x \<longrightarrow> x' = x \<and> l' = l) \<and> (x < 0 \<longrightarrow> x' < xp_to_next_for l') \<and> (l' < l \<longrightarrow> 5 \<le> l')"
  using assms
proof (induction x l rule: level_down.induct)
  case (1 x l)
  show ?case
  proof (cases "x < 0 \<and> DEATH_PENALTY_FLOOR_LEVEL < l")
    case True
    let ?b = "xp_to_next_for (l - 1)"
    have rec: "level_down (x + ?b) (l - 1) = (x', l')" using True 1(3) by (subst (asm) level_down.simps) simp
    have l: "1 \<le> l - 1" "5 \<le> l - 1" using True by (simp_all add: DEATH_PENALTY_FLOOR_LEVEL_def)
    have "xp_total x l = xp_total (x + ?b) (l - 1)" using xp_total_Suc [OF l(1), of x] by simp
    moreover note 1(1) [OF True l(1) rec]
    ultimately show ?thesis using True l by (cases "0 \<le> x + ?b") auto
  next
    case False
    then have "x' = x" "l' = l" using 1(3) by (subst (asm) level_down.simps, simp)+
    then show ?thesis using False 1(2) band_range [of l] by (auto simp: DEATH_PENALTY_FLOOR_LEVEL_def)
  qed
qed

text \<open>Resolving keeps the total, but for the floor below level five's zero and the surplus over the last band.\<close>

lemma resolve_total:
  assumes l: "1 \<le> l" "l \<le> 60" and r: "resolve x l = (x', l', n)"
  shows "n = xp_to_next_for l'" "1 \<le> l'" "l' \<le> 60" "0 \<le> x'" "x' \<le> xp_to_next_for l'"
    and "0 \<le> x \<Longrightarrow> xp_total x' l' \<le> xp_total x l"
    and "0 \<le> x \<Longrightarrow> l \<le> l'"
    and "x < 0 \<Longrightarrow> xp_total x' l' = xp_total x l \<or> (x' = 0 \<and> l' \<le> 5 \<and> xp_total x l < xp_total x' l')"
    and "x < 0 \<Longrightarrow> l' \<le> l"
proof -
  obtain x1 l1 where up: "level_up x l = (x1, l1)" by (cases "level_up x l") auto
  define x2 where "x2 = (if MAX_LEVEL \<le> l1 \<and> xp_to_next_for l1 < x1 then xp_to_next_for l1 else x1)"
  obtain x3 l2 where down: "level_down x2 l1 = (x3, l2)" by (cases "level_down x2 l1") auto
  have res: "x' = max x3 0" "l' = l2" "n = xp_to_next_for l2" using r by (auto simp: resolve_def up x2_def [symmetric] down)
  note U = level_up_total [OF l up]
  have l1: "1 \<le> l1" using U l by simp
  note D = level_down_total [OF l1 down]
  have cap: "0 \<le> x \<Longrightarrow> 0 \<le> x2 \<and> x2 \<le> xp_to_next_for l1 \<and> x2 \<le> x1"
    using U band_range [of l1] by (auto simp: x2_def MAX_LEVEL_def)
  have neg: "x < 0 \<Longrightarrow> x2 = x \<and> l1 = l" using U band_range [of l] by (auto simp: x2_def)
  show "n = xp_to_next_for l'" by (simp add: res)
  show "1 \<le> l'" "l' \<le> 60" using D U by (simp_all add: res)
  show "0 \<le> x'" by (simp add: res)
  show "x' \<le> xp_to_next_for l'"
    using D cap neg band_range [of l'] by (cases "0 \<le> x"; cases "l2 < l1") (auto simp: res)
  show "0 \<le> x \<Longrightarrow> xp_total x' l' \<le> xp_total x l" using D U cap by (auto simp: res xp_total_def)
  show "0 \<le> x \<Longrightarrow> l \<le> l'" using D U cap by (auto simp: res)
  show "x < 0 \<Longrightarrow> xp_total x' l' = xp_total x l \<or> (x' = 0 \<and> l' \<le> 5 \<and> xp_total x l < xp_total x' l')"
    using D neg by (auto simp: res xp_total_def max_def)
  show "x < 0 \<Longrightarrow> l' \<le> l" using D neg by (auto simp: res)
qed

section \<open>The loops end\<close>

lemma level_up_done: "x < xp_to_next_for l \<or> MAX_LEVEL \<le> l \<Longrightarrow> level_up x l = (x, l)"
  by (subst level_up.simps) auto

text \<open>C21. Both loops of the level resolution end: from any level between one and sixty and any experience, gained or lost, the result is a
  level in that range with its experience between zero and its band, and resolving it again changes nothing.\<close>

theorem levelling_settles:
  assumes "1 \<le> l" "l \<le> 60"
  shows "\<exists>x' l'. resolve x l = (x', l', xp_to_next_for l') \<and> 1 \<le> l' \<and> l' \<le> 60 \<and> 0 \<le> x' \<and> x' \<le> xp_to_next_for l'
    \<and> resolve x' l' = (x', l', xp_to_next_for l')"
proof -
  obtain x' l' n where r: "resolve x l = (x', l', n)" by (metis prod.collapse)
  note t = resolve_total [OF assms r]
  obtain x1 l1 where up: "level_up x l = (x1, l1)" by fastforce
  note U = level_up_total [OF assms up]
  define x2 where "x2 = (if MAX_LEVEL \<le> l1 \<and> xp_to_next_for l1 < x1 then xp_to_next_for l1 else x1)"
  obtain x3 l2 where down: "level_down x2 l1 = (x3, l2)" by fastforce
  have l1: "1 \<le> l1" using U assms by simp
  note D = level_down_total [OF l1 down]
  have res: "x' = max x3 0" "l' = l2" using r by (auto simp: resolve_def up x2_def [symmetric] down)
  have "x' < xp_to_next_for l' \<or> MAX_LEVEL \<le> l'"
    using U D band_range [of l'] unfolding res x2_def MAX_LEVEL_def by (auto split: if_splits)
  then have "level_up x' l' = (x', l')" by (simp add: level_up_done)
  moreover have "level_down x' l' = (x', l')" using t(4) by (subst level_down.simps) simp
  ultimately have "resolve x' l' = (x', l', xp_to_next_for l')" using t(4,5) by (auto simp: resolve_def)
  then show ?thesis using r t by blast
qed

theorem levelling_settles_witness: "\<exists>x' l'. resolve (- 700000) 12 = (x', l', xp_to_next_for l') \<and> 1 \<le> l' \<and> 0 \<le> x'"
  using levelling_settles [of 12 "- 700000"] by auto

end
