(* ===== verification/Deaths.thy ===== *)
theory Deaths
  imports Growth Town
begin

text \<open>
  What a death costs in experience and what a resurrection gives back.
\<close>

section \<open>What a death costs\<close>

definition death_loss :: "int \<Rightarrow> int" where
  "death_loss n = f32_to_i32 (f32_floor (f32_mul (f32_of_int n) DEATH_XP_LOSS_FRACTION))"

lemma fraction_nn: "f32_nn DEATH_XP_LOSS_FRACTION"
  by (simp add: f32_nn_def DEATH_XP_LOSS_FRACTION_def f32_finite_def f32_mag_def F32_INF_def f32_val_def f32_sign_def)

lemma death_loss_below:
  assumes "0 \<le> m" "m \<le> n" "f32_finite (f32_of_int n)" "f32_finite (f32_mul (f32_of_int n) DEATH_XP_LOSS_FRACTION)"
  shows "0 \<le> death_loss m" "death_loss m \<le> f32_to_i32 (f32_mul (f32_of_int n) DEATH_XP_LOSS_FRACTION)"
proof -
  let ?a = "f32_mul (f32_of_int m) DEATH_XP_LOSS_FRACTION"
  let ?c = "f32_mul (f32_of_int n) DEATH_XP_LOSS_FRACTION"
  have m: "f32_nn (f32_of_int m)" and n: "f32_nn (f32_of_int n)"
    using f32_of_int_nn [OF assms(1,2,3)] f32_of_int_nn [of n n] assms by simp_all
  note a = f32_mul_nn_mono [OF m fraction_nn f32_of_int_mono [OF assms(1,2)] assms(3,4)]
  have c: "f32_nn ?c" using f32_mul_nn_mono(2) [OF n fraction_nn f32_le_refl assms(3,4)] by simp
  show "0 \<le> death_loss m" using a(2) by (simp add: death_loss_def f32_floor_nn(4) f32_to_i32_nonneg)
  show "death_loss m \<le> f32_to_i32 ?c" using f32_to_i32_mono [OF a(2) c a(1)] a(2) by (simp add: death_loss_def f32_floor_nn(4))
qed

lemma of_int_marks:
  "f32_of_int 524288 = 0x49000000" "f32_of_int 4194304 = 0x4a800000" "f32_of_int 13000000 = 0x4b465d40" "f32_of_int 90000000 = 0x4caba950"
  by (simp_all add: f32_eval)

lemma loss_marks:
  "f32_mul 0x49000000 DEATH_XP_LOSS_FRACTION = 0x46cccccd" "f32_mul 0x4a800000 DEATH_XP_LOSS_FRACTION = 0x484ccccd"
  "f32_mul 0x4b465d40 DEATH_XP_LOSS_FRACTION = 0x491eb100" "f32_mul 0x4caba950 DEATH_XP_LOSS_FRACTION = 0x4a895440"
  by (simp_all add: DEATH_XP_LOSS_FRACTION_def f32_eval)

lemma loss_at:
  "0 \<le> m \<Longrightarrow> m \<le> 524288 \<Longrightarrow> 0 \<le> death_loss m \<and> death_loss m \<le> 26215"
  "0 \<le> m \<Longrightarrow> m \<le> 4194304 \<Longrightarrow> 0 \<le> death_loss m \<and> death_loss m \<le> 209716"
  "0 \<le> m \<Longrightarrow> m \<le> 13000000 \<Longrightarrow> 0 \<le> death_loss m \<and> death_loss m \<le> 650001"
  "0 \<le> m \<Longrightarrow> m \<le> 90000000 \<Longrightarrow> 0 \<le> death_loss m \<and> death_loss m \<le> 4500001"
proof -
  have fin: "f32_finite (0x49000000 :: f32)" "f32_finite (0x4a800000 :: f32)" "f32_finite (0x4b465d40 :: f32)" "f32_finite (0x4caba950 :: f32)"
    "f32_finite (0x46cccccd :: f32)" "f32_finite (0x484ccccd :: f32)" "f32_finite (0x491eb100 :: f32)" "f32_finite (0x4a895440 :: f32)"
    by (simp_all add: f32_finite_def f32_mag_def F32_INF_def)
  have val: "f32_to_i32 0x46cccccd \<le> 26215" "f32_to_i32 0x484ccccd \<le> 209716" "f32_to_i32 0x491eb100 \<le> 650001" "f32_to_i32 0x4a895440 \<le> 4500001"
    by (simp_all add: f32_to_i32_def f32_nan_def f32_finite_def f32_mag_def F32_INF_def f32_sign_def mag_units_def I32_MIN_def I32_MAX_def)
  show "0 \<le> m \<Longrightarrow> m \<le> 524288 \<Longrightarrow> 0 \<le> death_loss m \<and> death_loss m \<le> 26215"
    using death_loss_below [of m 524288] fin val by (simp add: of_int_marks loss_marks)
  show "0 \<le> m \<Longrightarrow> m \<le> 4194304 \<Longrightarrow> 0 \<le> death_loss m \<and> death_loss m \<le> 209716"
    using death_loss_below [of m 4194304] fin val by (simp add: of_int_marks loss_marks)
  show "0 \<le> m \<Longrightarrow> m \<le> 13000000 \<Longrightarrow> 0 \<le> death_loss m \<and> death_loss m \<le> 650001"
    using death_loss_below [of m 13000000] fin val by (simp add: of_int_marks loss_marks)
  show "0 \<le> m \<Longrightarrow> m \<le> 90000000 \<Longrightarrow> 0 \<le> death_loss m \<and> death_loss m \<le> 4500001"
    using death_loss_below [of m 90000000] fin val by (simp add: of_int_marks loss_marks)
qed

text \<open>A death never costs as much as the band below, so it takes at most one level.\<close>

definition loss_mark :: "int \<Rightarrow> int" where
  "loss_mark v = (if v \<le> 524288 then 26215 else if v \<le> 4194304 then 209716 else if v \<le> 13000000 then 650001 else 4500001)"

lemma marks_below: "list_all (\<lambda>k. loss_mark (BANDS ! Suc k) < BANDS ! k) [4..<59]"
  by code_simp

lemma loss_below_band:
  assumes "6 \<le> l" "l \<le> 60"
  shows "0 \<le> death_loss (xp_to_next_for l)" "death_loss (xp_to_next_for l) < xp_to_next_for (l - 1)"
proof -
  let ?n = "xp_to_next_for l"
  have r: "0 \<le> ?n" "?n \<le> 90000000" using band_range [of l] by auto
  then have d: "0 \<le> death_loss ?n \<and> death_loss ?n \<le> loss_mark ?n" using loss_at [of ?n] by (auto simp: loss_mark_def)
  have "int (nat (l - 2)) = l - 2" using assms by simp
  then have "nat (l - 2) \<in> set [4..<59]" unfolding set_upt atLeastLessThan_iff using assms by linarith
  then have "loss_mark (BANDS ! Suc (nat (l - 2))) < BANDS ! nat (l - 2)" using marks_below unfolding list_all_iff by blast
  moreover have "Suc (nat (l - 2)) = nat (l - 1)" using assms by simp
  ultimately have "loss_mark ?n < xp_to_next_for (l - 1)" using assms bands_table [of l] bands_table [of "l - 1"] by simp
  then show "0 \<le> death_loss ?n" "death_loss ?n < xp_to_next_for (l - 1)" using d by auto
qed

section \<open>Dying\<close>

lemma intrinsic_keeps [simp]:
  "xp (snd (apply_intrinsic_delta l m cb)) = xp (snd cb)" "clevel (snd (apply_intrinsic_delta l m cb)) = clevel (snd cb)"
  "xp_to_next (snd (apply_intrinsic_delta l m cb)) = xp_to_next (snd cb)"
  by (simp_all add: apply_intrinsic_delta_def Let_def split: prod.split)

lemma award_progress:
  assumes "award_xp amount cb = (r, cb')" "resolve (sat32 (xp (snd cb) + amount)) (clevel (snd cb)) = (x, l, n)"
  shows "xp (snd cb') = x" "clevel (snd cb') = l" "xp_to_next (snd cb') = n"
  using assms by (auto simp: award_xp_def Let_def split: prod.splits if_splits)

lemma sat32_small: "- 2000000000 \<le> x \<Longrightarrow> x \<le> 2000000000 \<Longrightarrow> sat32 x = x"
  by (simp add: sat32_def I32_MIN_def I32_MAX_def)

text \<open>The total an award leaves.\<close>

lemma award_earned:
  assumes ok: "xp_ok (snd cb)" and a: "award_xp amount cb = (r, cb')" and small: "\<bar>amount\<bar> \<le> 1000000000"
  shows "xp_ok (snd cb')"
    and "0 \<le> xp (snd cb) + amount \<Longrightarrow> earned (snd cb') \<le> earned (snd cb) + amount"
    and "xp (snd cb) + amount < 0 \<Longrightarrow> earned (snd cb') = earned (snd cb) + amount \<or>
           (xp (snd cb') = 0 \<and> clevel (snd cb') \<le> 5 \<and> clevel (snd cb') \<le> clevel (snd cb))"
proof -
  let ?b = "snd cb" and ?x = "xp (snd cb) + amount"
  have l: "1 \<le> clevel ?b" "clevel ?b \<le> 60" and x: "0 \<le> xp ?b" "xp ?b \<le> 89334600"
    using ok band_range [of "clevel ?b"] by (auto simp: xp_ok_def)
  have sat: "sat32 ?x = ?x" using x small by (intro sat32_small) auto
  obtain x' l' n where r: "resolve ?x (clevel ?b) = (x', l', n)" by (cases "resolve ?x (clevel ?b)") auto
  have "resolve (sat32 ?x) (clevel ?b) = (x', l', n)" using r sat by simp
  note P = award_progress [OF a this]
  note R = resolve_total [OF l r]
  show "xp_ok (snd cb')" using P R(1-5) by (simp add: xp_ok_def)
  have T: "xp_total ?x (clevel ?b) = earned ?b + amount" by (simp add: earned_def xp_total_def)
  show "0 \<le> ?x \<Longrightarrow> earned (snd cb') \<le> earned ?b + amount" using R(6) T P by (simp add: earned_def)
  show "?x < 0 \<Longrightarrow> earned (snd cb') = earned ?b + amount \<or> (xp (snd cb') = 0 \<and> clevel (snd cb') \<le> 5 \<and> clevel (snd cb') \<le> clevel ?b)"
    using R(8,9) T P by (auto simp: earned_def)
qed

text \<open>Resolving a loss smaller than the band below.\<close>

lemma resolve_loss:
  assumes "5 \<le> l" "l \<le> 60" "0 \<le> x" "x \<le> xp_to_next_for l" "0 < d" "6 \<le> l \<Longrightarrow> d < xp_to_next_for (l - 1)"
  shows "resolve (x - d) l =
    (if d \<le> x then (x - d, l, xp_to_next_for l)
     else if l = 5 then (0, 5, xp_to_next_for 5)
     else (x - d + xp_to_next_for (l - 1), l - 1, xp_to_next_for (l - 1)))"
proof -
  have up: "level_up (x - d) l = (x - d, l)" using assms by (subst level_up.simps) simp
  have stay: "level_down y l = (y, l)" if "0 \<le> y \<or> l = 5" for y l
    using that by (subst level_down.simps) (auto simp: DEATH_PENALTY_FLOOR_LEVEL_def)
  show ?thesis
  proof (cases "d \<le> x \<or> l = 5")
    case True
    then show ?thesis using assms stay [of "x - d" l] by (auto simp: resolve_def up)
  next
    case False
    then have "d < xp_to_next_for (l - 1)" using assms by simp
    then have "level_down (x - d) l = (x - d + xp_to_next_for (l - 1), l - 1)"
      using False assms stay [of "x - d + xp_to_next_for (l - 1)" "l - 1"]
      by (subst level_down.simps) (simp add: DEATH_PENALTY_FLOOR_LEVEL_def)
    then show ?thesis using False assms \<open>d < _\<close> by (auto simp: resolve_def up)
  qed
qed

lemma penalty_exact:
  assumes ok: "xp_ok (snd cb)" and p: "apply_death_penalty cb = (msgs, cb')"
  shows "0 \<le> death_lost_xp (snd cb') \<and> earned (snd cb') = earned (snd cb) - death_lost_xp (snd cb')
    \<and> xp_ok (snd cb') \<and> death_lost_xp (snd cb') \<le> 4500001
    \<and> (clevel (snd cb) < 5 \<longrightarrow> death_lost_xp (snd cb') = 0)
    \<and> (5 \<le> clevel (snd cb) \<longrightarrow> 5 \<le> clevel (snd cb'))
    \<and> clevel (snd cb') \<le> clevel (snd cb) \<and> clevel (snd cb) \<le> clevel (snd cb') + 1"
proof -
  define b where "b = (snd cb)\<lparr>death_lost_xp := 0\<rparr>"
  define d where "d = death_loss (xp_to_next b)"
  have b: "xp b = xp (snd cb)" "clevel b = clevel (snd cb)" "xp_to_next b = xp_to_next_for (clevel b)" "earned b = earned (snd cb)" "xp_ok b"
    using ok by (simp_all add: b_def xp_ok_def earned_def)
  have range: "1 \<le> clevel b" "clevel b \<le> 60" "0 \<le> xp b" "xp b \<le> xp_to_next_for (clevel b)" using b(5) by (simp_all add: xp_ok_def)
  show ?thesis
  proof (cases "clevel b < 5 \<or> d \<le> 0")
    case True
    then have "cb' = (fst cb, b)"
      using p by (auto simp: apply_death_penalty_def on_body_def b_def [symmetric] d_def death_loss_def DEATH_PENALTY_FLOOR_LEVEL_def Let_def
          split: if_splits prod.splits)
    then show ?thesis using b range by (simp add: b_def)
  next
    case False
    obtain r c1 b1 where aw: "award_xp (- d) (fst cb, b) = (r, c1, b1)" by (cases "award_xp (- d) (fst cb, b)") auto
    define lost where "lost = (if clevel b1 = clevel b \<and> xp b1 = 0 then xp b else d)"
    have cb': "cb' = (c1, b1\<lparr>death_lost_xp := lost\<rparr>)"
      using p False aw by (cases r) (auto simp: apply_death_penalty_def on_body_def b_def [symmetric] d_def death_loss_def
          DEATH_PENALTY_FLOOR_LEVEL_def Let_def lost_def split: if_splits prod.splits)
    have d: "0 < d" "d \<le> 4500001" using False loss_at(4) [of "xp_to_next b"] band_range [of "clevel b"] b(3) by (simp_all add: d_def)
    have sat: "sat32 (xp b + - d) = xp b - d" using d range band_range [of "clevel b"] by (simp add: sat32_small)
    have below: "6 \<le> clevel b \<Longrightarrow> d < xp_to_next_for (clevel b - 1)" using loss_below_band [of "clevel b"] range b(3) by (simp add: d_def)
    obtain x l n where res: "resolve (xp b - d) (clevel b) = (x, l, n)" by (cases "resolve (xp b - d) (clevel b)") auto
    have "resolve (sat32 (xp (snd (fst cb, b)) + - d)) (clevel (snd (fst cb, b))) = (x, l, n)" using res sat by simp
    from award_progress [OF aw this] have P: "xp b1 = x" "clevel b1 = l" "xp_to_next b1 = n" by simp_all
    have l5: "5 \<le> clevel b" using False by simp
    note R = resolve_loss [OF l5 range(2,3,4) d(1) below, unfolded res]
    note T = xp_total_Suc [of "clevel b - 1" "xp b - d"]
    have "xp_ok b1" using P resolve_total(1-5) [OF range(1,2) res] by (simp add: xp_ok_def)
    moreover have "0 \<le> lost" using d range by (simp add: lost_def)
    moreover have "earned b1 = earned b - lost \<and> lost \<le> 4500001 \<and> 5 \<le> l \<and> l \<le> clevel b \<and> clevel b \<le> l + 1"
      using R T P d l5 range by (auto simp: lost_def earned_def xp_total_def split: if_splits)
    ultimately show ?thesis using b False by (simp add: cb' earned_def xp_ok_def P)
  qed
qed

lemma kill_exact:
  assumes "xp_ok (snd cb)" "kill_player cb = (msgs, cb')"
  shows "death_lost_xp (snd cb') \<le> 4500001 \<and> xp_ok (snd cb') \<and> 0 \<le> death_lost_xp (snd cb') \<and> earned (snd cb') = earned (snd cb) - death_lost_xp (snd cb')
    \<and> (clevel (snd cb) < 5 \<longrightarrow> death_lost_xp (snd cb') = 0)
    \<and> (5 \<le> clevel (snd cb) \<longrightarrow> 5 \<le> clevel (snd cb'))
    \<and> clevel (snd cb') \<le> clevel (snd cb) \<and> clevel (snd cb) \<le> clevel (snd cb') + 1"
proof -
  obtain m c b where p: "apply_death_penalty cb = (m, c, b)" by (cases "apply_death_penalty cb") auto
  then have "cb' = (c\<lparr>hp := 0\<rparr>, mark_dirty (b\<lparr>cast_spell_name := [], cast_total_duration := 0, cast_set_at := None, active_buffs := [],
      camp_since := None, corpse_pending := True\<rparr>))" using assms(2) by (simp add: kill_player_def)
  then show ?thesis using penalty_exact [OF assms(1) p] by (simp add: mark_dirty_def xp_ok_def earned_def)
qed

text \<open>C17. Dying takes from a character's total exactly the experience stamped on the corpse: never a level from one to four, never
  below level five, and at most one level.  Well-formedness of level and experience survives.\<close>

theorem death_takes_what_it_stamps:
  assumes "xp_ok (snd cb)" "kill_player cb = (msgs, cb')"
  shows "xp_ok (snd cb') \<and> 0 \<le> death_lost_xp (snd cb') \<and> earned (snd cb') = earned (snd cb) - death_lost_xp (snd cb')
    \<and> (clevel (snd cb) < 5 \<longrightarrow> death_lost_xp (snd cb') = 0)
    \<and> (5 \<le> clevel (snd cb) \<longrightarrow> 5 \<le> clevel (snd cb'))
    \<and> clevel (snd cb') \<le> clevel (snd cb) \<and> clevel (snd cb) \<le> clevel (snd cb') + 1"
  using kill_exact [OF assms] by simp

text \<open>A level six character with a thousand points into its level.\<close>

definition demo_hero :: body where
  "demo_hero = demo_body\<lparr>clevel := 6, xp := 1000, xp_to_next := 91000\<rparr>"

lemma demo_hero_ok: "xp_ok (snd (demo_conn, demo_hero))"
  using band_plain [of 6] by (simp add: demo_hero_def xp_ok_def)

theorem death_takes_what_it_stamps_witness:
  "let dead = snd (snd (kill_player (demo_conn, demo_hero)))
   in earned dead = earned demo_hero - death_lost_xp dead \<and> 5 \<le> clevel dead"
proof -
  obtain m r where k: "kill_player (demo_conn, demo_hero) = (m, r)" by (cases "kill_player (demo_conn, demo_hero)")
  from death_takes_what_it_stamps [OF demo_hero_ok k] have "earned (snd r) = earned demo_hero - death_lost_xp (snd r)" "5 \<le> clevel (snd r)" by (simp_all add: demo_hero_def)
  then show ?thesis by (simp add: k Let_def)
qed

section \<open>Coming back\<close>

lemma hundred: "f32_nn 0x42c80000" "f32_val 0x42c80000 = 100 * 2 ^ 149"
  by (simp_all add: f32_nn_def f32_finite_def f32_mag_def F32_INF_def f32_val_def f32_sign_def mag_units_def)

lemma refund_le:
  assumes "0 \<le> lost" "lost \<le> 2 ^ 24" "percent \<le> 100"
  shows "0 \<le> refund_of lost percent" "refund_of lost percent \<le> lost"
proof -
  have p: "f32_int (f32_of_int (int percent)) (int percent)" and n: "f32_int (f32_of_int lost) lost"
    using assms by (intro f32_of_int_exact; simp)+
  let ?q = "f32_div (f32_of_int (int percent)) 0x42c80000"
  have pn: "f32_nn (f32_of_int (int percent))" "f32_nn (f32_of_int lost)" using p n assms(1) by (simp_all add: f32_int_def f32_nn_def)
  have "f32_val (f32_of_int (int percent)) \<le> f32_val 0x42c80000" using p assms(3) by (simp add: f32_int_def hundred(2))
  from f32_div_le_one [OF pn(1) hundred(1) this] have q: "f32_nn ?q" "f32_val ?q \<le> 2 ^ 149" by (simp_all add: hundred(2))
  have le: "f32_le (f32_mul (f32_of_int lost) ?q) (f32_of_int lost)"
    using f32_mul_shrink [of "f32_of_int lost" ?q] f32_nnD [OF q(1)] f32_nnD [OF pn(2)] q(2) by simp
  have m: "f32_nn (f32_mul (f32_of_int lost) ?q)"
    using f32_nn_below [OF le f32_nnD(1) [OF pn(2)]] f32_mul_nn_key [OF pn(2) q(1)] by simp
  have "f32_val (f32_mul (f32_of_int lost) ?q) \<le> lost * 2 ^ 149"
    using le f32_le_val [OF f32_nnD(1) [OF m] f32_nnD(1) [OF pn(2)]] n by (simp add: f32_int_def)
  then show "0 \<le> refund_of lost percent" "refund_of lost percent \<le> lost"
    using f32_round_nn [OF m, of "nat lost"] assms(1,2) by (simp_all add: refund_of_def)
qed

lemma stat_buff_keeps_xp [simp]:
  "xp (snd (apply_stat_buff x cb)) = xp (snd cb)" "clevel (snd (apply_stat_buff x cb)) = clevel (snd cb)"
  "xp_to_next (snd (apply_stat_buff x cb)) = xp_to_next (snd cb)"
  by (cases cb) (auto simp: apply_stat_buff_def undo_effect_def undo_stat_deltas_def apply_stat_deltas_def Let_def
      split: buff_effect.splits option.splits prod.splits)

text \<open>C14. A resurrection never pays more than the death took: whatever the character did since, accepting the offer for that
  corpse adds at most what the death removed from the total, at any percentage up to a hundred.\<close>

theorem resurrection_never_gains:
  assumes "xp_ok (snd alive)" "kill_player alive = (m1, dead)"
    and "xp_ok (snd later)" "percent \<le> 100"
    and "grant_resurrection corpse_pos (refund_of (death_lost_xp (snd dead)) percent) t later = (m2, back)"
  shows "xp_ok (snd back) \<and> earned (snd back) \<le> earned (snd later) + (earned (snd alive) - earned (snd dead))"
proof -
  let ?lost = "death_lost_xp (snd dead)"
  note D = kill_exact [OF assms(1,2)]
  define r where "r = refund_of ?lost percent"
  have r: "0 \<le> r" "r \<le> ?lost" using refund_le [of ?lost percent] D assms(4) by (simp_all add: r_def)
  define mid where "mid = (if 0 < r then snd (award_xp r later) else later)"
  have "xp (snd back) = xp (snd mid) \<and> clevel (snd back) = clevel (snd mid) \<and> xp_to_next (snd back) = xp_to_next (snd mid)"
    using assms(5)
    by (auto simp: grant_resurrection_def r_def [symmetric] mid_def Let_def mark_dirty_def case_prod_beta)
  moreover have "xp_ok (snd mid) \<and> earned (snd mid) \<le> earned (snd later) + r"
  proof (cases "0 < r")
    case True
    obtain q m where a: "award_xp r later = (q, m)" by (cases "award_xp r later") auto
    have "0 \<le> xp (snd later) + r" using r assms(3) by (simp add: xp_ok_def)
    then show ?thesis using award_earned(1,2) [OF assms(3) a] r D True by (simp add: mid_def a)
  qed (use assms(3) r in \<open>simp add: mid_def\<close>)
  ultimately show ?thesis using r D by (simp add: xp_ok_def earned_def)
qed

theorem resurrection_never_gains_witness:
  "let dead = snd (kill_player (demo_conn, demo_hero));
       back = snd (grant_resurrection demo_spot (refund_of (death_lost_xp (snd dead)) 75) 0 dead)
   in earned (snd back) \<le> earned demo_hero"
proof -
  obtain m dead where k: "kill_player (demo_conn, demo_hero) = (m, dead)" by (cases "kill_player (demo_conn, demo_hero)")
  obtain m' home where g: "grant_resurrection demo_spot (refund_of (death_lost_xp (snd dead)) 75) 0 dead = (m', home)"
    by (cases "grant_resurrection demo_spot (refund_of (death_lost_xp (snd dead)) 75) 0 dead")
  have "xp_ok (snd dead)" using kill_exact [OF demo_hero_ok k] by simp
  from resurrection_never_gains [OF demo_hero_ok k this _ g] have "earned (snd home) \<le> earned demo_hero" by simp
  then show ?thesis by (simp add: k g Let_def)
qed

end
