(* ===== verification/Ground.thy ===== *)
theory Ground
  imports Handling Trading Progress
begin

text \<open>
  What lies on the ground: loot bags (\<open>world/loot.rs\<close>), corpses (\<open>world/corpses.rs\<close>), drops (\<open>apply_drops\<close> of
  \<open>world/tick/inventory_ops.rs\<close>), looting and decay (\<open>world/tick/looting.rs\<close>), the corpse a death leaves
  (\<open>world/tick/death_sweep.rs\<close>) and the transactions that write it (\<open>db/mod.rs\<close>).  Which clients see a point, the height of
  the terrain and the database's answers are arguments.
\<close>

section \<open>Bags and corpses\<close>

record loot_item_stack =
  stack_path :: string
  stack_count :: nat
  worn_slot :: "nat option"

record loot_bag =
  bag_id :: nat
  bag_pos :: vec3f
  bag_items :: "loot_item_stack list"
  bag_coins :: coins
  creature_name :: string
  owner_killer :: "nat option"
  assigned_looter :: "nat option"
  bag_spawned_at :: instant

record corpse =
  corpse_id :: nat
  owner_char :: int
  owner_name :: string
  corpse_zone :: string
  corpse_pos :: vec3f
  corpse_items :: "loot_item_stack list"
  corpse_coins :: coins
  lost_xp :: int
  resurrected :: bool
  corpse_spawned_at :: instant

text \<open>6.0 and 200.0; the two lingers in milliseconds.\<close>

definition LOOT_PICKUP_RANGE :: f32 where "LOOT_PICKUP_RANGE = 0x40c00000"

definition GROUP_SHARE_RANGE :: f32 where "GROUP_SHARE_RANGE = 0x43480000"

definition LOOT_BAG_LINGER :: nat where "LOOT_BAG_LINGER = 120000"

definition CORPSE_LINGER :: nat where "CORPSE_LINGER = 604800000"

definition MAX_DROPS_PER_TICK :: nat where "MAX_DROPS_PER_TICK = 4"

definition loot_bag_new :: "nat \<Rightarrow> vec3f \<Rightarrow> loot_item_stack list \<Rightarrow> coins \<Rightarrow> string \<Rightarrow> nat option \<Rightarrow> instant \<Rightarrow> loot_bag" where
  "loot_bag_new i p its w name0 owner t =
     \<lparr>bag_id = i, bag_pos = p, bag_items = its, bag_coins = w, creature_name = name0, owner_killer = owner,
      assigned_looter = None, bag_spawned_at = t\<rparr>"

definition bag_is_empty :: "loot_bag \<Rightarrow> bool" where
  "bag_is_empty g \<longleftrightarrow> bag_items g = [] \<and> bag_coins g = coins_ZERO"

definition can_loot :: "nat \<Rightarrow> group_manager \<Rightarrow> loot_bag \<Rightarrow> bool" where
  "can_loot looter gm g = (case owner_killer g of None \<Rightarrow> True | Some owner \<Rightarrow> looter = owner \<or> same_group looter owner gm)"

definition snapshot :: "loot_item_stack list \<Rightarrow> (string \<times> nat) list" where
  "snapshot its = map (\<lambda>s. (stack_path s, stack_count s)) its"

definition corpse_emptied_by_loot :: "bool \<Rightarrow> bool \<Rightarrow> bool" where
  "corpse_emptied_by_loot had_content empty_now \<longleftrightarrow> had_content \<and> empty_now"

section \<open>The tables of the dead\<close>

record corpse_row =
  row_char :: int
  row_owner :: string
  row_zone :: string
  row_pos :: vec3f
  row_coins :: coins
  row_items :: "(string \<times> nat \<times> nat option) list"
  row_lost_xp :: int
  row_resurrected :: bool

record corpse_db =
  corpse_rows :: "(int \<times> corpse_row) list"
  progress_rows :: "(int \<times> xp_progress) list"

definition write_xp_progress :: "int \<Rightarrow> xp_progress \<Rightarrow> corpse_db \<Rightarrow> corpse_db" where
  "write_xp_progress ch p g = g\<lparr>progress_rows := update_row ch (Some p) (progress_rows g)\<rparr>"

definition save_corpse ::
    "bool \<Rightarrow> int \<Rightarrow> int \<Rightarrow> corpse_row \<Rightarrow> xp_progress \<Rightarrow> item_event_row list \<Rightarrow> store_db \<times> corpse_db \<Rightarrow> (store_db \<times> corpse_db) option" where
  "save_corpse commits i ch row progress evs d =
     (if \<not> commits then None
      else case d of (db, g) \<Rightarrow>
        Some (db\<lparr>character_items := filter (\<lambda>(j, _). j \<noteq> ch) (character_items db),
                 wallets := update_row ch (Some coins_ZERO) (wallets db),
                 event_rows := event_rows db @ evs\<rparr>,
              write_xp_progress ch progress (g\<lparr>corpse_rows := (i, row) # corpse_rows g\<rparr>)))"

definition delete_corpse :: "int \<Rightarrow> corpse_db \<Rightarrow> corpse_db" where
  "delete_corpse i g = g\<lparr>corpse_rows := filter (\<lambda>(j, _). j \<noteq> i) (corpse_rows g)\<rparr>"

definition set_corpse_resurrected :: "int \<Rightarrow> int \<Rightarrow> xp_progress \<Rightarrow> corpse_db \<Rightarrow> corpse_db" where
  "set_corpse_resurrected i owner progress g =
     write_xp_progress owner progress
       (g\<lparr>corpse_rows := map (\<lambda>(j, r). (j, if j = i then r\<lparr>row_resurrected := True\<rparr> else r)) (corpse_rows g)\<rparr>)"

definition apply_corpse_loot ::
    "bool \<Rightarrow> int \<Rightarrow> inventory_row list \<Rightarrow> coins \<Rightarrow> int \<Rightarrow> (string \<times> nat \<times> nat option) list \<Rightarrow> coins \<Rightarrow> bool \<Rightarrow> item_event_row list
     \<Rightarrow> store_db \<times> corpse_db \<Rightarrow> (store_db \<times> corpse_db) option" where
  "apply_corpse_loot commits ch rows wallet i its w gone evs d =
     (if \<not> commits then None
      else case d of (db, g) \<Rightarrow>
        Some (db\<lparr>character_items := filter (\<lambda>(j, _). j \<noteq> ch) (character_items db) @ map (Pair ch) rows,
                 wallets := update_row ch (Some wallet) (wallets db),
                 event_rows := event_rows db @ evs\<rparr>,
              if gone then delete_corpse i g
              else g\<lparr>corpse_rows := map (\<lambda>(j, r). (j, if j = i then r\<lparr>row_items := its, row_coins := w\<rparr> else r)) (corpse_rows g)\<rparr>))"

text \<open>A corpse back from its row at boot.\<close>

definition load_corpse :: "(vec3f \<Rightarrow> vec3f) \<Rightarrow> instant \<Rightarrow> int \<times> corpse_row \<Rightarrow> nat \<times> corpse" where
  "load_corpse ground boot ir =
     (case ir of (i, r) \<Rightarrow>
        (nat i, \<lparr>corpse_id = nat i, owner_char = row_char r, owner_name = row_owner r, corpse_zone = row_zone r,
           corpse_pos = ground (row_pos r),
           corpse_items = map (\<lambda>(p, n, w). \<lparr>stack_path = p, stack_count = n, worn_slot = w\<rparr>) (row_items r),
           corpse_coins = row_coins r, lost_xp = row_lost_xp r, resurrected = row_resurrected r, corpse_spawned_at = boot\<rparr>))"

section \<open>The land\<close>

record land =
  realm :: world
  figures :: "(nat \<times> body) list"
  zones :: "(nat \<times> string) list"
  lying :: "(nat \<times> loot_bag) list"
  bodies :: "(nat \<times> corpse) list"
  next_bag :: nat
  graves :: corpse_db

record scene =
  sees :: "vec3f \<Rightarrow> nat list"
  everyone :: "nat list"
  ground_vec :: "vec3f \<Rightarrow> vec3f"
  at :: instant

definition put_body :: "nat \<Rightarrow> body \<Rightarrow> land \<Rightarrow> land" where
  "put_body k b L = L\<lparr>figures := AList.update k b (figures L)\<rparr>"

definition mint_bag_id :: "land \<Rightarrow> nat \<times> land" where
  "mint_bag_id L = (next_bag L, L\<lparr>next_bag := Suc (next_bag L)\<rparr>)"

definition reserve_bag_ids_through :: "nat \<Rightarrow> land \<Rightarrow> land" where
  "reserve_bag_ids_through m L = L\<lparr>next_bag := max (next_bag L) (m + 1)\<rparr>"

definition tell :: "nat list \<Rightarrow> server_msg \<Rightarrow> outbox" where
  "tell ks m = map (\<lambda>k. (k, m)) ks"

definition fan_bag :: "scene \<Rightarrow> loot_bag \<Rightarrow> outbox" where
  "fan_bag S g = tell (sees S (bag_pos g)) (LootBagSpawn (bag_id g) (snapshot (bag_items g)) (bag_coins g))"

definition within_reach :: "f32 \<Rightarrow> vec3f \<Rightarrow> nat \<Rightarrow> world \<Rightarrow> bool" where
  "within_reach r p k w = (case conn_of k w of None \<Rightarrow> False | Some c \<Rightarrow> f32_le (distance_to (pos c) p) r)"

section \<open>Dropping\<close>

record drop_intent =
  d_owner :: nat
  d_loc :: string
  d_slot :: nat
  d_count :: nat

record done_drop =
  dd_owner :: nat
  dd_loc :: string
  dd_slot :: nat
  dd_pos :: vec3f
  dd_path :: string
  dd_count :: nat

type_synonym before_drops = "nat \<times> player_inventory \<times> bool \<times> nat"

record drop_run =
  r_world :: world
  r_before :: "before_drops list"
  drops_seen :: "(nat \<times> nat) list"
  r_done :: "done_drop list"
  r_out :: outbox

text \<open>The first pass: out of the inventories, in memory.\<close>

definition drop_take :: "env \<Rightarrow> scene \<Rightarrow> drop_intent \<Rightarrow> drop_run \<Rightarrow> drop_run" where
  "drop_take E S i r =
     (let k = d_owner i; w = r_world r in
      case trade_locked k (d_loc i) (d_slot i) (trades w) of
        Some m \<Rightarrow> r\<lparr>r_out := r_out r @ [(k, m)]\<rparr>
      | None \<Rightarrow>
      case conn_of k w of
        None \<Rightarrow> r\<lparr>r_out := r_out r @ refuse k ''You can't drop that.''\<rparr>
      | Some c \<Rightarrow>
      if (case peek_at (d_loc i) (d_slot i) (inventory c) of None \<Rightarrow> False | Some (p, _) \<Rightarrow> is_no_drop (reg E) p) then
        r\<lparr>r_out := r_out r @ refuse k NO_DROP_REFUSAL\<rparr>
      else
        let seen = (case map_of (drops_seen r) k of None \<Rightarrow> 0 | Some n \<Rightarrow> n) + 1;
            r1 = r\<lparr>drops_seen := AList.update k seen (drops_seen r)\<rparr> in
        if MAX_DROPS_PER_TICK < seen then r1
        else
          let r2 = (if k \<in> set (map fst (r_before r1)) then r1
                    else r1\<lparr>r_before := r_before r1 @ [(k, inventory c, inventory_dirty c, ledger_mark c)]\<rparr>) in
          case destroy_at (reg E) (d_loc i) (d_slot i) (d_count i) (inventory c) of
            Inl _ \<Rightarrow> r2
          | Inr ((p, n), iv) \<Rightarrow>
              r2\<lparr>r_world := put_conn k (ledger (now E) (item_event Drop p n (- int n) (Some ''ground''))
                               (c\<lparr>inventory := iv, inventory_dirty := True\<rparr>)) w,
                 r_done := r_done r2 @ [\<lparr>dd_owner = k, dd_loc = d_loc i, dd_slot = d_slot i, dd_pos = ground_vec S (pos c),
                                        dd_path = p, dd_count = n\<rparr>]\<rparr>)"

text \<open>The second pass: every dropper saved once, or put back as it was.\<close>

definition save_dropper :: "(nat \<Rightarrow> bool) \<Rightarrow> done_drop list \<Rightarrow> before_drops \<Rightarrow> world \<times> nat list \<times> outbox \<Rightarrow> world \<times> nat list \<times> outbox" where
  "save_dropper commits ds b acc =
     (case b of (k, iv, dirty, mark) \<Rightarrow>
      case acc of (w, unsaved, out) \<Rightarrow>
        if \<not> list_ex (\<lambda>d. dd_owner d = k) ds then acc
        else case conn_of k w of
          None \<Rightarrow> acc
        | Some c \<Rightarrow>
            (case persist_dirty_stores (commits k) c (store w) of
               (True, c', db) \<Rightarrow> (put_conn k c' (w\<lparr>store := db\<rparr>), unsaved, out)
             | (False, c', db) \<Rightarrow>
                 (put_conn k (ledger_rollback mark (c'\<lparr>inventory := iv, inventory_dirty := dirty\<rparr>)) (w\<lparr>store := db\<rparr>),
                  unsaved @ [k], out @ refuse k ''You can't drop that right now. Try again.'')))"

text \<open>The third pass: a public bag for every saved drop.\<close>

definition drop_bag :: "scene \<Rightarrow> done_drop \<Rightarrow> land \<times> outbox \<Rightarrow> land \<times> outbox" where
  "drop_bag S d acc =
     (case acc of (L, out) \<Rightarrow>
        let left = (case conn_of (dd_owner d) (realm L) of None \<Rightarrow> None | Some c \<Rightarrow> peek_at (dd_loc d) (dd_slot d) (inventory c));
            (i, L1) = mint_bag_id L;
            g = loot_bag_new i (dd_pos d) [\<lparr>stack_path = dd_path d, stack_count = dd_count d, worn_slot = None\<rparr>] coins_ZERO [] None (at S)
        in (L1\<lparr>lying := AList.update i g (lying L1)\<rparr>, out @ [(dd_owner d, slot_delta (dd_loc d) (dd_slot d) left)] @ fan_bag S g))"

definition apply_drops :: "env \<Rightarrow> scene \<Rightarrow> (nat \<Rightarrow> bool) \<Rightarrow> drop_intent list \<Rightarrow> land \<Rightarrow> land \<times> outbox" where
  "apply_drops E S commits is L =
     (let r = fold (drop_take E S) is \<lparr>r_world = realm L, r_before = [], drops_seen = [], r_done = [], r_out = []\<rparr>;
          (w, unsaved, out) = fold (save_dropper commits (r_done r)) (r_before r) (r_world r, [], r_out r)
      in fold (drop_bag S) (filter (\<lambda>d. dd_owner d \<notin> set unsaved) (r_done r)) (L\<lparr>realm := w\<rparr>, out))"

end
