(* ===== verification/Looting.thy ===== *)
theory Looting
  imports Ground
begin

text \<open>
  \<open>world/tick/looting.rs\<close> and \<open>world/tick/death_sweep.rs\<close>: taking from loot bags and corpses, the ground pickup to the hand, decay,
  and the corpse a death leaves.
\<close>

section \<open>Who may take\<close>

text \<open>Round robin: an unclaimed bag goes to the next member of the killer's group in reach.\<close>

definition claim_turn :: "loot_bag \<Rightarrow> world \<Rightarrow> loot_bag \<times> group_manager" where
  "claim_turn g w =
     (case (owner_killer g, assigned_looter g) of
        (Some owner, None) \<Rightarrow>
          (case next_loot_turn owner (\<lambda>cand. within_reach GROUP_SHARE_RANGE (bag_pos g) cand w) (parties w) of
             (turn, gm) \<Rightarrow> (g\<lparr>assigned_looter := turn\<rparr>, gm))
      | _ \<Rightarrow> (g, parties w))"

text \<open>Reach, loot rights, the turn.  A refusal keeps the claim; \<open>Inl None\<close> is silent.\<close>

definition loot_gate :: "nat \<Rightarrow> loot_bag \<Rightarrow> world \<Rightarrow> (server_msg option + unit) \<times> loot_bag \<times> group_manager" where
  "loot_gate who g w =
     (if \<not> within_reach LOOT_PICKUP_RANGE (bag_pos g) who w then (Inl None, g, parties w)
      else if \<not> can_loot who (parties w) g then (Inl (Some (LootRejected ''That isn't your loot.'')), g, parties w)
      else case owner_killer g of
        None \<Rightarrow> (Inr (), g, parties w)
      | Some _ \<Rightarrow>
          (case claim_turn g w of
             (g1, gm) \<Rightarrow>
               (if assigned_looter g1 \<noteq> None \<and> assigned_looter g1 \<noteq> Some who
                then (Inl (Some (LootRejected ''Not your turn to loot.'')), g1, gm)
                else (Inr (), g1, gm))))"

section \<open>Coin\<close>

definition coin_sharers :: "nat \<Rightarrow> vec3f \<Rightarrow> world \<Rightarrow> nat list" where
  "coin_sharers who p w =
     (let near = (if case conn_of who w of None \<Rightarrow> False | Some c \<Rightarrow> autosplit c
                  then (case group_of who (parties w) of
                          None \<Rightarrow> []
                        | Some grp \<Rightarrow> filter (\<lambda>m. within_reach GROUP_SHARE_RANGE p m w) (members grp))
                  else [])
      in if near = [] then [who] else near)"

definition bag_detail :: "nat \<Rightarrow> string" where
  "bag_detail i = ''bag:'' @ show_nat i"

definition pay_share :: "env \<Rightarrow> nat \<Rightarrow> int \<Rightarrow> int \<Rightarrow> nat \<Rightarrow> nat \<Rightarrow> world \<times> outbox \<Rightarrow> world \<times> outbox" where
  "pay_share E i base_share remainder who r acc =
     (case acc of (w, out) \<Rightarrow>
        let amount = (if r = who then base_share + remainder else base_share) in
        if amount \<le> 0 then acc
        else case conn_of r w of
          None \<Rightarrow> acc
        | Some c \<Rightarrow>
            let purse = add_payout (coins c) amount in
            (put_conn r (ledger (now E) (coin_event LootCoins amount (Some (bag_detail i))) (c\<lparr>coins := purse, coins_dirty := True\<rparr>)) w,
             out @ [(r, CoinsUpdate purse)]))"

definition share_coins :: "env \<Rightarrow> nat \<Rightarrow> loot_bag \<Rightarrow> world \<Rightarrow> world \<times> outbox" where
  "share_coins E who g w =
     (if bag_coins g = coins_ZERO then (w, [])
      else
        let pot = total_copper (bag_coins g); rs = coin_sharers who (bag_pos g) w;
            n = int (length rs); base_share = pot sdiv n; remainder = pot - base_share * n
        in fold (pay_share E (bag_id g) base_share remainder who) rs (w, []))"

section \<open>Items\<close>

text \<open>Takes one stack, or all of them.\<close>

definition take_stacks :: "nat option \<Rightarrow> loot_item_stack list \<Rightarrow> loot_item_stack list \<times> loot_item_stack list" where
  "take_stacks slot its =
     (case slot of
        None \<Rightarrow> (its, [])
      | Some i \<Rightarrow> if i < length its then ([its ! i], take i its @ drop (Suc i) its) else ([], its))"

text \<open>The contents of the touched slots that are not empty.\<close>

definition filled_deltas :: "touched \<Rightarrow> player_inventory \<Rightarrow> server_msg list" where
  "filled_deltas t iv =
     List.map_filter (\<lambda>(loc, slot). case peek_at loc slot iv of None \<Rightarrow> None | Some (p, n) \<Rightarrow> Some (InventoryDelta loc slot (Some p) n)) t"

text \<open>The connection, what is left in the bag, the messages, whether anything was placed.\<close>

record bag_take =
  bt_conn :: connection
  bt_left :: "loot_item_stack list"
  bt_msgs :: "server_msg list"
  bt_took :: bool

definition take_stack :: "env \<Rightarrow> item_action \<Rightarrow> string \<Rightarrow> loot_item_stack \<Rightarrow> bag_take \<Rightarrow> bag_take" where
  "take_stack E kind detail s t =
     (let c = bt_conn t; p = stack_path s; n = stack_count s; refund = (\<lambda>k. \<lparr>stack_path = p, stack_count = k, worn_slot = None\<rparr>) in
      case add_item_locating (reg E) p n (inventory c) of
        Inl _ \<Rightarrow> (if 0 < n then t\<lparr>bt_left := bt_left t @ [refund n]\<rparr> else t)
      | Inr ((touched, left), iv) \<Rightarrow>
          let placed = n - left; c1 = c\<lparr>inventory := iv, inventory_dirty := touched \<noteq> [] \<or> inventory_dirty c\<rparr>;
              c2 = (if 0 < placed then ledger (now E) (item_event kind p placed (int placed) (Some detail)) c1 else c1)
          in t\<lparr>bt_conn := c2,
               bt_left := bt_left t @ (if 0 < left then [refund left] else []),
               bt_msgs := bt_msgs t @ filled_deltas touched iv @ (if 0 < placed then [LootGranted p placed] else []),
               bt_took := bt_took t \<or> 0 < placed\<rparr>)"

definition set_bag :: "loot_bag \<Rightarrow> land \<Rightarrow> land" where
  "set_bag g L = L\<lparr>lying := AList.update (bag_id g) g (lying L)\<rparr>"

definition remove_bag :: "nat \<Rightarrow> land \<Rightarrow> land" where
  "remove_bag i L = L\<lparr>lying := AList.delete i (lying L)\<rparr>"

text \<open>The loot window on a bag.  The last component says whether the looter is to be saved.\<close>

definition loot_bag_take :: "env \<Rightarrow> scene \<Rightarrow> nat \<Rightarrow> nat option \<Rightarrow> loot_bag \<Rightarrow> land \<Rightarrow> land \<times> outbox \<times> bool" where
  "loot_bag_take E S who slot g L =
     (case loot_gate who g (realm L) of
        (verdict, g1, gm) \<Rightarrow>
          let L1 = set_bag g1 (L\<lparr>realm := (realm L)\<lparr>parties := gm\<rparr>\<rparr>) in
          case verdict of
            Inl m \<Rightarrow> (L1, (case m of None \<Rightarrow> [] | Some x \<Rightarrow> [(who, x)]), False)
          | Inr _ \<Rightarrow>
              if (case slot of None \<Rightarrow> False | Some i \<Rightarrow> length (bag_items g1) \<le> i) then
                (L1, [(who, LootRejected ''That isn't there any more.'')], False)
              else
                (case share_coins E who g1 (realm L1) of
                   (w, paid) \<Rightarrow>
                     case conn_of who w of
                       None \<Rightarrow> (L1, [], False)
                     | Some c \<Rightarrow>
                         let kind = (if creature_name g1 = [] then Pickup else Loot);
                             detail = (if creature_name g1 = [] then bag_detail (bag_id g1) else bag_detail (bag_id g1) @ '' '' @ creature_name g1);
                             (granted, rest) = take_stacks slot (bag_items g1);
                             t = fold (take_stack E kind detail) granted \<lparr>bt_conn = c, bt_left = rest, bt_msgs = [], bt_took = False\<rparr>;
                             g2 = g1\<lparr>bag_items := bt_left t, bag_coins := coins_ZERO\<rparr>;
                             L2 = L1\<lparr>realm := put_conn who (bt_conn t) w\<rparr>;
                             out = paid @ to who (bt_msgs t)
                         in if bag_is_empty g2 then (remove_bag (bag_id g2) L2, out @ tell (sees S (bag_pos g2)) (EntityDespawn (bag_id g2)), bt_took t)
                            else (set_bag g2 L2, out @ fan_bag S g2, bt_took t)))"

text \<open>The ground pickup to the hand.\<close>

definition pickup :: "env \<Rightarrow> scene \<Rightarrow> nat \<times> nat \<Rightarrow> land \<Rightarrow> land \<times> outbox \<times> bool" where
  "pickup E S wb L =
     (case wb of (who, i) \<Rightarrow>
      case conn_of who (realm L) of
        None \<Rightarrow> (L, [], False)
      | Some c \<Rightarrow>
      case map_of (lying L) i of
        None \<Rightarrow> (L, refuse who ''That isn't there any more.'', False)
      | Some g \<Rightarrow>
      case loot_gate who g (realm L) of
        (verdict, g1, gm) \<Rightarrow>
          let L1 = set_bag g1 (L\<lparr>realm := (realm L)\<lparr>parties := gm\<rparr>\<rparr>) in
          case verdict of
            Inl m \<Rightarrow> (L1, (case m of None \<Rightarrow> [] | Some x \<Rightarrow> [(who, x)]), False)
          | Inr _ \<Rightarrow>
              if length (bag_items g1) \<noteq> 1 \<or> bag_coins g1 \<noteq> coins_ZERO then
                (L1, refuse who ''There's more than one thing there. Right-click to loot.'', False)
              else if cursor (inventory c) \<noteq> None then (L1, refuse who ''You're already holding something.'', False)
              else
                let s = hd (bag_items g1); p = stack_path s; n = stack_count s;
                    c1 = ledger (now E) (item_event (if creature_name g1 = [] then Pickup else Loot) p n (int n) (Some (bag_detail i)))
                           (c\<lparr>inventory := (inventory c)\<lparr>cursor := Some (entry p n)\<rparr>, inventory_dirty := True\<rparr>);
                    what = (case lookup (reg E) p of None \<Rightarrow> ''the item'' | Some it \<Rightarrow> name it)
                in (remove_bag i (L1\<lparr>realm := put_conn who c1 (realm L1)\<rparr>),
                    [(who, InventoryDelta ''cursor'' 0 (Some p) n), (who, SystemLine (''You pick up '' @ what @ ''.''))]
                    @ tell (sees S (bag_pos g1)) (EntityDespawn i),
                    True))"

section \<open>A corpse looted by its owner\<close>

record corpse_take =
  tk_conn :: connection
  tk_left :: "loot_item_stack list"
  tk_deltas :: "server_msg list"
  tk_lines :: "server_msg list"
  tk_worn :: nat
  tk_refused :: nat

definition corpse_detail :: "nat \<Rightarrow> string" where
  "corpse_detail i = ''corpse:'' @ show_nat i"

text \<open>One stack back to its owner: onto the slot it was worn in if that is free, else into the bags, else left on the body.\<close>

definition return_stack :: "env \<Rightarrow> nat \<Rightarrow> loot_item_stack \<Rightarrow> corpse_take \<Rightarrow> corpse_take" where
  "return_stack E i s t =
     (let c = tk_conn t; p = stack_path s; n = stack_count s;
          row = (\<lambda>k. item_event CorpseLoot p k (int k) (Some (corpse_detail i))) in
      case (case worn_slot s of
              None \<Rightarrow> None
            | Some slot \<Rightarrow> (case restore_worn (reg E) p n slot (inventory c) of (True, iv) \<Rightarrow> Some (slot, iv) | (False, _) \<Rightarrow> None)) of
        Some (slot, iv) \<Rightarrow>
          t\<lparr>tk_conn := ledger (now E) (row n) (c\<lparr>inventory := iv, inventory_dirty := True\<rparr>),
            tk_worn := Suc (tk_worn t),
            tk_deltas := tk_deltas t @ [InventoryDelta ''equip'' slot (Some p) n],
            tk_lines := tk_lines t @ [LootGranted p n]\<rparr>
      | None \<Rightarrow>
          let (c1, placed, left, ds) =
                (case add_item_locating (reg E) p n (inventory c) of
                   Inl _ \<Rightarrow> (c, 0, n, [])
                 | Inr ((touched, left), iv) \<Rightarrow>
                     (let c1 = c\<lparr>inventory := iv, inventory_dirty := True\<rparr> in
                      if left < n then ledger (now E) (row (n - left)) c1 else c1,
                      n - left, left, filled_deltas touched iv))
          in t\<lparr>tk_conn := c1,
               tk_left := tk_left t @ (if 0 < left then [\<lparr>stack_path = p, stack_count = left, worn_slot = worn_slot s\<rparr>] else []),
               tk_deltas := tk_deltas t @ ds,
               tk_lines := tk_lines t @ (if 0 < placed then [LootGranted p placed] else []),
               tk_refused := tk_refused t + (if 0 < left then 1 else 0)\<rparr>)"

definition return_coins :: "env \<Rightarrow> corpse \<Rightarrow> connection \<Rightarrow> connection" where
  "return_coins E k c =
     (if corpse_coins k = coins_ZERO then c
      else ledger (now E) (coin_event CorpseCoins (total_copper (corpse_coins k)) (Some (corpse_detail (corpse_id k))))
             (c\<lparr>coins := add_each (coins c) (corpse_coins k), coins_dirty := True\<rparr>))"

text \<open>Everything that is taken, worn gear first.\<close>

definition worn_first :: "loot_item_stack list \<Rightarrow> loot_item_stack list" where
  "worn_first its = sort_key (\<lambda>s. worn_slot s = None) its"

definition take_from_corpse :: "env \<Rightarrow> nat option \<Rightarrow> corpse \<Rightarrow> connection \<Rightarrow> corpse_take" where
  "take_from_corpse E slot k c =
     (let (granted, rest) = take_stacks slot (corpse_items k) in
      fold (return_stack E (corpse_id k)) (worn_first granted)
        \<lparr>tk_conn = return_coins E k c, tk_left = rest, tk_deltas = [], tk_lines = [], tk_worn = 0, tk_refused = 0\<rparr>)"

definition row_stacks :: "loot_item_stack list \<Rightarrow> (string \<times> nat \<times> nat option) list" where
  "row_stacks its = map (\<lambda>s. (stack_path s, stack_count s, worn_slot s)) its"

definition bags_full_line :: "nat \<Rightarrow> string" where
  "bags_full_line n =
     (if n = 1 then ''Your bags are full: one item stays on your corpse.''
      else ''Your bags are full: '' @ show_nat n @ '' items stay on your corpse.'')"

definition contents_of :: "corpse \<Rightarrow> server_msg" where
  "contents_of k = CorpseContents (corpse_id k) (snapshot (corpse_items k)) (corpse_coins k)"

record loot_answers =
  flush_ok :: bool
  take_ok :: bool

definition set_corpse :: "corpse \<Rightarrow> land \<Rightarrow> land" where
  "set_corpse k L = L\<lparr>bodies := AList.update (corpse_id k) k (bodies L)\<rparr>"

definition had_content :: "corpse \<Rightarrow> bool" where
  "had_content k \<longleftrightarrow> corpse_items k \<noteq> [] \<or> corpse_coins k \<noteq> coins_ZERO"

definition loot_corpse :: "env \<Rightarrow> scene \<Rightarrow> loot_answers \<Rightarrow> nat \<Rightarrow> nat option \<Rightarrow> corpse \<Rightarrow> land \<Rightarrow> land \<times> outbox" where
  "loot_corpse E S ans who slot k L =
     (if \<not> within_reach LOOT_PICKUP_RANGE (corpse_pos k) who (realm L) then (L, [])
      else if owner_char k \<noteq> int who then (L, [(who, LootRejected ''That is not your corpse.'')])
      else case flush_one (flush_ok ans) who (realm L) of
        (False, w) \<Rightarrow> (L\<lparr>realm := w\<rparr>, [(who, LootRejected ''You can't loot that right now. Try again.'')])
      | (True, w) \<Rightarrow>
      case (conn_of who w, map_of (figures L) who) of
        (Some c, Some b) \<Rightarrow>
          let t = take_from_corpse E slot k c;
              (changed, c2, b2) = (if 0 < tk_worn t
                then (case recompute_equipped_stats (reg E) (tk_conn t, b) of (r, c', b') \<Rightarrow> (any_resource_max_changed r, c', b'))
                else (False, tk_conn t, b));
              gone = corpse_emptied_by_loot (had_content k) (tk_left t = []);
              k2 = k\<lparr>corpse_items := tk_left t, corpse_coins := coins_ZERO\<rparr>
          in (case apply_corpse_loot (take_ok ans) (int who) (to_rows (inventory c2)) (coins c2) (int (corpse_id k))
                     (row_stacks (tk_left t)) coins_ZERO gone (item_events c2) (store w, graves L) of
                Some (db, gr) \<Rightarrow>
                  let c3 = c2\<lparr>inventory_dirty := False, coins_dirty := False, item_events := []\<rparr>;
                      L1 = put_body who b2 (L\<lparr>realm := put_conn who c3 (w\<lparr>store := db\<rparr>), graves := gr\<rparr>);
                      out = (if corpse_coins k = coins_ZERO then [] else [(who, CoinsUpdate (coins c2))])
                            @ to who (tk_deltas t) @ to who (tk_lines t)
                            @ (if changed then tell (everyone S) (ResourcesOf who) else [])
                            @ (if 0 < tk_refused t then refuse who (bags_full_line (tk_refused t)) else [])
                  in if gone then (L1\<lparr>bodies := AList.delete (corpse_id k) (bodies L1)\<rparr>,
                                   out @ tell (sees S (corpse_pos k)) (EntityDespawn (corpse_id k)))
                     else (set_corpse k2 L1, out @ [(who, contents_of k2)])
              | None \<Rightarrow>
                  let c3 = ledger_rollback (ledger_mark c) (c2\<lparr>inventory := inventory c, coins := coins c\<rparr>);
                      (c4, b4) = (if 0 < tk_worn t then snd (recompute_equipped_stats (reg E) (c3, b2)) else (c3, b2))
                  in (put_body who b4 (L\<lparr>realm := put_conn who c4 w\<rparr>),
                      [(who, LootRejected ''Couldn't loot the corpse -- try again.''), (who, contents_of k)]))
      | _ \<Rightarrow> (L\<lparr>realm := w\<rparr>, []))"

section \<open>The phase\<close>

record loot_intent =
  looter :: nat
  target_id :: nat
  loot_slot :: "nat option"

definition loot_one :: "env \<Rightarrow> scene \<Rightarrow> (nat \<Rightarrow> loot_answers) \<Rightarrow> loot_intent \<Rightarrow> land \<times> outbox \<times> nat list \<Rightarrow> land \<times> outbox \<times> nat list" where
  "loot_one E S ans i acc =
     (case acc of (L, out, savers) \<Rightarrow>
        if conn_of (looter i) (realm L) = None then acc
        else case map_of (bodies L) (target_id i) of
          Some k \<Rightarrow> (case loot_corpse E S (ans (looter i)) (looter i) (loot_slot i) k L of (L', o1) \<Rightarrow> (L', out @ o1, savers))
        | None \<Rightarrow>
            (case map_of (lying L) (target_id i) of
               None \<Rightarrow> acc
             | Some g \<Rightarrow>
                 (case loot_bag_take E S (looter i) (loot_slot i) g L of
                    (L', o1, took) \<Rightarrow> (L', out @ o1, if took then List.insert (looter i) savers else savers))))"

definition pickup_one :: "env \<Rightarrow> scene \<Rightarrow> nat \<times> nat \<Rightarrow> land \<times> outbox \<times> nat list \<Rightarrow> land \<times> outbox \<times> nat list" where
  "pickup_one E S wb acc =
     (case acc of (L, out, savers) \<Rightarrow>
      case pickup E S wb L of (L', o1, took) \<Rightarrow> (L', out @ o1, if took then List.insert (fst wb) savers else savers))"

text \<open>One save per looter at the end; a failure leaves the stores dirty for the checkpoint.\<close>

definition save_looter :: "(nat \<Rightarrow> bool) \<Rightarrow> nat \<Rightarrow> land \<Rightarrow> land" where
  "save_looter commits who L = L\<lparr>realm := snd (flush_one (commits who) who (realm L))\<rparr>"

definition apply_loot_intents ::
    "env \<Rightarrow> scene \<Rightarrow> (nat \<Rightarrow> loot_answers) \<Rightarrow> (nat \<Rightarrow> bool) \<Rightarrow> loot_intent list \<Rightarrow> (nat \<times> nat) list \<Rightarrow> land \<Rightarrow> land \<times> outbox" where
  "apply_loot_intents E S ans commits is ps L =
     (case fold (pickup_one E S) ps (fold (loot_one E S ans) is (L, [], [])) of
        (L1, out, savers) \<Rightarrow> (fold (save_looter commits) (rev savers) L1, out))"

section \<open>Decay\<close>

definition decay_bag :: "scene \<Rightarrow> nat \<Rightarrow> land \<times> outbox \<Rightarrow> land \<times> outbox" where
  "decay_bag S i acc =
     (case acc of (L, out) \<Rightarrow>
      case map_of (lying L) i of
        None \<Rightarrow> acc
      | Some g \<Rightarrow> (remove_bag i L, out @ tell (sees S (bag_pos g)) (EntityDespawn i)))"

definition decay_corpse :: "scene \<Rightarrow> (nat \<Rightarrow> bool) \<Rightarrow> nat \<Rightarrow> land \<times> outbox \<Rightarrow> land \<times> outbox" where
  "decay_corpse S commits i acc =
     (case acc of (L, out) \<Rightarrow>
      case map_of (bodies L) i of
        None \<Rightarrow> acc
      | Some k \<Rightarrow>
          (L\<lparr>bodies := AList.delete i (bodies L), graves := (if commits i then delete_corpse (int i) (graves L) else graves L)\<rparr>,
           out @ tell (sees S (corpse_pos k)) (EntityDespawn i)))"

definition expire_bags_and_corpses :: "scene \<Rightarrow> (nat \<Rightarrow> bool) \<Rightarrow> land \<Rightarrow> land \<times> outbox" where
  "expire_bags_and_corpses S commits L =
     (let old_bags = map fst (filter (\<lambda>(_, g). LOOT_BAG_LINGER \<le> at S - bag_spawned_at g) (lying L));
          old_bodies = map fst (filter (\<lambda>(_, k). CORPSE_LINGER \<le> at S - corpse_spawned_at k) (bodies L))
      in fold (decay_corpse S commits) old_bodies (fold (decay_bag S) old_bags (L, [])))"

section \<open>Death\<close>

definition dies_now :: "connection \<Rightarrow> bool" where
  "dies_now c \<longleftrightarrow> in_world c \<and> f32_le (hp c) 0 \<and> \<not> death_processed c"

definition die :: "connection \<times> body \<Rightarrow> xp_msg list \<times> connection \<times> body" where
  "die cb =
     (case kill_player cb of
        (msgs, c, b) \<Rightarrow> (msgs, c\<lparr>death_processed := True\<rparr>, b\<lparr>active_song := None, song_next_pulse_at := None\<rparr>))"

definition death_rows :: "nat \<Rightarrow> (string \<times> nat \<times> nat option) list \<Rightarrow> coins \<Rightarrow> item_event_row list" where
  "death_rows i its w =
     map (\<lambda>(p, n, _). item_event Death p n (- int n) (Some (corpse_detail i))) its
     @ (if total_copper w = 0 then [] else [coin_event DeathCoins (- total_copper w) (Some (corpse_detail i))])"

text \<open>The corpse of one whose death is pending: flush, one transaction for the corpse and the strip, then the memory follows.\<close>

definition leave_corpse :: "env \<Rightarrow> scene \<Rightarrow> (nat \<Rightarrow> loot_answers) \<Rightarrow> nat \<Rightarrow> land \<times> outbox \<Rightarrow> land \<times> outbox" where
  "leave_corpse E S ans who acc =
     (case acc of (L, out) \<Rightarrow>
      case (conn_of who (realm L), map_of (figures L) who) of
        (Some c0, Some b0) \<Rightarrow>
          let its = corpse_stacks (inventory c0); w0 = coins c0; b = b0\<lparr>corpse_pending := False\<rparr> in
          (case flush_one (flush_ok (ans who)) who (realm L) of
             (False, w) \<Rightarrow> (put_body who (b\<lparr>corpse_pending := True\<rparr>) (L\<lparr>realm := w\<rparr>), out)
           | (True, w) \<Rightarrow>
               case conn_of who w of
                 None \<Rightarrow> (put_body who b (L\<lparr>realm := w\<rparr>), out)
               | Some c \<Rightarrow>
                   let (i, L1) = mint_bag_id L;
                       c1 = ledger_all (now E) (death_rows i its w0) c;
                       zone = (case map_of (zones L) who of None \<Rightarrow> [] | Some z \<Rightarrow> z);
                       row = \<lparr>row_char = int who, row_owner = cname c0, row_zone = zone, row_pos = pos c0, row_coins = w0,
                              row_items = its, row_lost_xp = death_lost_xp b0, row_resurrected = False\<rparr>
                   in (case save_corpse (take_ok (ans who)) (int i) (int who) row (current_progress b0) (item_events c1) (store w, graves L) of
                         None \<Rightarrow>
                           (put_body who (b\<lparr>corpse_pending := True\<rparr>) (L1\<lparr>realm := put_conn who (ledger_rollback (ledger_mark c) c1) w\<rparr>), out)
                       | Some (db, gr) \<Rightarrow>
                           (case recompute_equipped_stats (reg E) (c1\<lparr>inventory := clear_all (inventory c1)\<rparr>, b) of
                              (_, c2, b2) \<Rightarrow>
                                let c3 = c2\<lparr>coins := coins_ZERO, inventory_dirty := False, coins_dirty := False, item_events := []\<rparr>;
                                    k = \<lparr>corpse_id = i, owner_char = int who, owner_name = cname c0, corpse_zone = zone,
                                         corpse_pos = ground_vec S (pos c0),
                                         corpse_items = map (\<lambda>(p, n, v). \<lparr>stack_path = p, stack_count = n, worn_slot = v\<rparr>) its,
                                         corpse_coins = w0, lost_xp = death_lost_xp b0, resurrected = False, corpse_spawned_at = at S\<rparr>
                                in (set_corpse k (put_body who b2 (L1\<lparr>realm := put_conn who c3 (w\<lparr>store := db\<rparr>), graves := gr\<rparr>)),
                                    out @ [(who, InventorySnapshot (to_snapshot_entries (inventory c3))), (who, ResourcesOf who),
                                           (who, CoinsUpdate coins_ZERO)]
                                    @ tell (sees S (pos c0)) (CorpseSpawn i (cname c0) (corpse_pos k)) @ [(who, contents_of k)]))))
      | _ \<Rightarrow> acc)"

text \<open>The tick's deaths: each of the newly dead killed once, then every pending corpse.\<close>

definition strike_down :: "scene \<Rightarrow> nat \<Rightarrow> land \<times> outbox \<Rightarrow> land \<times> outbox" where
  "strike_down S who acc =
     (case acc of (L, out) \<Rightarrow>
      case (conn_of who (realm L), map_of (figures L) who) of
        (Some c, Some b) \<Rightarrow>
          if dies_now c then
            (case die (c, b) of (_, c', b') \<Rightarrow> (put_body who b' (L\<lparr>realm := put_conn who c' (realm L)\<rparr>), out @ tell (everyone S) (EntityDied who)))
          else acc
      | _ \<Rightarrow> acc)"

definition clear_player_dots_from :: "nat list \<Rightarrow> body \<Rightarrow> body" where
  "clear_player_dots_from casters b =
     b\<lparr>active_buffs := filter (\<lambda>x. case effect x of Dot _ caster _ _ \<Rightarrow> caster \<notin> set casters | _ \<Rightarrow> True) (active_buffs b)\<rparr>"

definition run_death_sweep :: "env \<Rightarrow> scene \<Rightarrow> (nat \<Rightarrow> loot_answers) \<Rightarrow> land \<Rightarrow> land \<times> outbox" where
  "run_death_sweep E S ans L =
     (let dying = map fst (filter (\<lambda>(_, c). dies_now c) (conns (realm L)));
          (L1, out) = fold (strike_down S) dying (L, []);
          L2 = (if dying = [] then L1 else L1\<lparr>figures := map (\<lambda>(k, b). (k, clear_player_dots_from dying b)) (figures L1)\<rparr>);
          pending = filter (\<lambda>k. case map_of (figures L2) k of None \<Rightarrow> False | Some b \<Rightarrow> corpse_pending b) (map fst (conns (realm L2)))
      in fold (leave_corpse E S ans) pending (L2, out))"

end
