(* ===== verification/Spoils.thy ===== *)
theory Spoils
  imports Looting Realm
begin

text \<open>
  What looting, dropping and dying do to the books: every stack that leaves a connection lies on the ground or on a body and
  the other way round, and the ledger says so.
\<close>

section \<open>Stacks\<close>

definition stack_ok :: "loot_item_stack \<Rightarrow> bool" where
  "stack_ok s \<longleftrightarrow> stack_path s \<noteq> [] \<and> 1 \<le> stack_count s \<and> stack_count s \<le> u32_max"

definition stacks_total :: "string \<Rightarrow> loot_item_stack list \<Rightarrow> nat" where
  "stacks_total q its = (\<Sum>s\<leftarrow>its. units q (stack_path s) (stack_count s))"

lemma stacks_total_simps [simp]:
  "stacks_total q [] = 0" "stacks_total q (s # its) = units q (stack_path s) (stack_count s) + stacks_total q its"
  "stacks_total q (xs @ ys) = stacks_total q xs + stacks_total q ys"
  by (simp_all add: stacks_total_def)

lemma take_stacks_split:
  assumes "take_stacks slot its = (granted, rest)"
  shows "stacks_total q granted + stacks_total q rest = stacks_total q its" "set granted \<union> set rest = set its"
proof -
  have "its = take i its @ its ! i # drop (Suc i) its" if "i < length its" for i
    using that by (rule id_take_nth_drop)
  then have "stacks_total q granted + stacks_total q rest = stacks_total q its \<and> set granted \<union> set rest = set its"
  proof (cases slot)
    case (Some i)
    show ?thesis
    proof (cases "i < length its")
      case True
      then have g: "granted = [its ! i]" "rest = take i its @ drop (Suc i) its" using assms Some by (simp_all add: take_stacks_def)
      have e: "its = take i its @ its ! i # drop (Suc i) its" using True by (rule id_take_nth_drop)
      have "stacks_total q its = stacks_total q (take i its @ its ! i # drop (Suc i) its)"
        "set its = set (take i its @ its ! i # drop (Suc i) its)" using e by (rule arg_cong)+
      then show ?thesis by (auto simp: g)
    qed (use assms Some in \<open>simp add: take_stacks_def\<close>)
  qed (use assms in \<open>simp add: take_stacks_def\<close>)
  then show "stacks_total q granted + stacks_total q rest = stacks_total q its" "set granted \<union> set rest = set its" by blast+
qed

lemma worn_first_same: "stacks_total q (worn_first its) = stacks_total q its" "set (worn_first its) = set its"
proof -
  have "mset (worn_first its) = mset its" by (simp add: worn_first_def)
  then have "sum_mset (image_mset f (mset (worn_first its))) = sum_mset (image_mset f (mset its))"
    for f :: "loot_item_stack \<Rightarrow> nat" by (rule arg_cong)
  from this [of "\<lambda>s. units q (stack_path s) (stack_count s)"]
  show "stacks_total q (worn_first its) = stacks_total q its"
    by (simp only: stacks_total_def mset_map [symmetric] sum_mset_sum_list)
  show "set (worn_first its) = set its" by (simp add: worn_first_def)
qed

text \<open>Items pass between a connection and a pile; the books are kept, and nothing else of value moves.\<close>

definition vault_flags :: "connection \<Rightarrow> bool \<times> bool \<times> bool" where
  "vault_flags c = (bank_dirty c, bank_items_dirty c, account_bank_items_dirty c)"

lemma vault_flags_ledger [simp]: "vault_flags (ledger t e c) = vault_flags c"
  by (simp add: vault_flags_def)

definition passes :: "registry \<Rightarrow> connection \<Rightarrow> loot_item_stack list \<Rightarrow> connection \<Rightarrow> loot_item_stack list \<Rightarrow> bool" where
  "passes R c its c' its' \<longleftrightarrow> balanced R c c' \<and> (\<forall>q. conn_items q c' + stacks_total q its' = conn_items q c + stacks_total q its)
     \<and> list_all stack_ok its' \<and> coins c' = coins c \<and> bank_coins c' = bank_coins c \<and> vault_flags c' = vault_flags c"

lemma passesD:
  assumes "passes R c its c' its'"
  shows "balanced R c c'" "conn_ok R c'" "conn_items q c' + stacks_total q its' = conn_items q c + stacks_total q its"
    "list_all stack_ok its'" "coins c' = coins c" "bank_coins c' = bank_coins c" "vault_flags c' = vault_flags c"
  using assms by (simp_all add: passes_def balanced_def)

lemma passes_refl: "conn_ok R c \<Longrightarrow> list_all stack_ok its' \<Longrightarrow> (\<And>q. stacks_total q its' = stacks_total q its) \<Longrightarrow> passes R c its c its'"
  by (simp add: passes_def balanced_refl)

lemma passes_trans: "passes R c a c1 b \<Longrightarrow> passes R c1 b c2 d \<Longrightarrow> passes R c a c2 d"
  by (auto simp: passes_def intro: balanced_trans)

lemma passes_beside:
  assumes "passes R c a c' b" "list_all stack_ok d"
  shows "passes R c (d @ a) c' (d @ b)"
  using assms by (simp add: passes_def)

text \<open>A stack offered to the inventory: what is placed is on the ledger, the rest stays.\<close>

lemma placed_passes:
  assumes ok: "conn_ok R c" and reg: "reg_ok R" and add: "add_item_locating R p n (inventory c) = Inr ((t, l), iv)"
    and n: "n \<le> u32_max" and d: "d \<or> iv = inventory c"
    and c': "c' = (if 0 < n - l then ledger now0 (item_event kind p (n - l) (int (n - l)) det) (c\<lparr>inventory := iv, inventory_dirty := d \<or> inventory_dirty c\<rparr>)
                   else c\<lparr>inventory := iv, inventory_dirty := d \<or> inventory_dirty c\<rparr>)"
    and its': "its' = (if 0 < l then [\<lparr>stack_path = p, stack_count = l, worn_slot = w\<rparr>] else [])"
  shows "passes R c [\<lparr>stack_path = p, stack_count = n, worn_slot = w'\<rparr>] c' its'"
proof -
  note eff = add_item_locating_Inr [OF reg conn_okD(1) [OF ok] add]
  have wf: "inv_wf R iv" and le: "l \<le> n" and np: "p \<noteq> []" using eff by blast+
  have items: "inv_total q iv = inv_total q (inventory c) + (if q = p then n - l else 0)" for q
    using eff [of q] unfolding units_def by blast
  have c'_inv: "conn_items q c' + (if q = p then l else 0) = conn_items q c + (if q = p then n else 0)" for q
    using items [of q] le by (cases "q = p") (simp_all add: c' conn_items_def)
  have "balanced R c c'"
  proof -
    have "int (inv_total q iv) - int (inv_total q (inventory c)) - (if q = p then int (n - l) else 0) = 0" for q
      using items [of q] by simp
    then show ?thesis using ok wf d items by (auto simp: c' books raised_def)
  qed
  moreover have "list_all stack_ok its'" using np le n by (simp add: its' stack_ok_def)
  moreover have "coins c' = coins c \<and> bank_coins c' = bank_coins c \<and> vault_flags c' = vault_flags c" by (simp add: c' vault_flags_def)
  ultimately show ?thesis using c'_inv by (auto simp: passes_def its' units_def)
qed

lemma take_stack_passes:
  assumes ok: "conn_ok (reg E) (bt_conn t)" and reg: "reg_ok (reg E)" and left: "list_all stack_ok (bt_left t)" and s: "stack_ok s"
  shows "passes (reg E) (bt_conn t) (bt_left t @ [s]) (bt_conn (take_stack E kind det s t)) (bt_left (take_stack E kind det s t))"
proof (cases "add_item_locating (reg E) (stack_path s) (stack_count s) (inventory (bt_conn t))")
  case (Inl e)
  then show ?thesis
    using ok left s by (auto simp: take_stack_def stack_ok_def intro!: passes_refl)
next
  case (Inr r)
  obtain touched l iv where r: "r = ((touched, l), iv)" by (metis surj_pair)
  have "touched \<noteq> [] \<or> iv = inventory (bt_conn t)" using add_item_locating_untouched Inr r by blast
  moreover have "stack_count s \<le> u32_max" using s by (simp add: stack_ok_def)
  moreover have "bt_conn (take_stack E kind det s t) = (if 0 < stack_count s - l
      then ledger (now E) (item_event kind (stack_path s) (stack_count s - l) (int (stack_count s - l)) (Some det))
             ((bt_conn t)\<lparr>inventory := iv, inventory_dirty := touched \<noteq> [] \<or> inventory_dirty (bt_conn t)\<rparr>)
      else (bt_conn t)\<lparr>inventory := iv, inventory_dirty := touched \<noteq> [] \<or> inventory_dirty (bt_conn t)\<rparr>)"
    by (simp add: take_stack_def Inr r Let_def)
  ultimately have "passes (reg E) (bt_conn t) [\<lparr>stack_path = stack_path s, stack_count = stack_count s, worn_slot = worn_slot s\<rparr>]
      (bt_conn (take_stack E kind det s t)) (if 0 < l then [\<lparr>stack_path = stack_path s, stack_count = l, worn_slot = None\<rparr>] else [])"
    by (intro placed_passes [OF ok reg Inr [unfolded r]]) simp_all
  moreover have "\<lparr>stack_path = stack_path s, stack_count = stack_count s, worn_slot = worn_slot s\<rparr> = s" by simp
  ultimately show ?thesis
    using passes_beside [OF _ left] by (simp add: take_stack_def Inr r Let_def)
qed

lemma take_stacks_passes:
  assumes "conn_ok (reg E) (bt_conn t)" "reg_ok (reg E)" "list_all stack_ok (bt_left t)" "list_all stack_ok gs"
  shows "passes (reg E) (bt_conn t) (bt_left t @ gs) (bt_conn (fold (take_stack E kind det) gs t)) (bt_left (fold (take_stack E kind det) gs t))"
  using assms
proof (induction gs arbitrary: t)
  case (Cons s gs)
  let ?t = "take_stack E kind det s t"
  have one: "passes (reg E) (bt_conn t) (bt_left t @ [s]) (bt_conn ?t) (bt_left ?t)" using take_stack_passes Cons.prems by simp
  then have "passes (reg E) (bt_conn ?t) (bt_left ?t @ gs) (bt_conn (fold (take_stack E kind det) gs ?t)) (bt_left (fold (take_stack E kind det) gs ?t))"
    using Cons passesD [OF one] by simp
  moreover have "passes (reg E) (bt_conn t) (bt_left t @ s # gs) (bt_conn ?t) (bt_left ?t @ gs)"
    using one Cons.prems(4) by (simp add: passes_def)
  ultimately show ?case using passes_trans by simp
qed (simp add: passes_refl)

text \<open>The same for a corpse, where a worn stack may go straight back on.\<close>

lemma return_stack_passes:
  assumes ok: "conn_ok (reg E) (tk_conn t)" and reg: "reg_ok (reg E)" and left: "list_all stack_ok (tk_left t)" and s: "stack_ok s"
  shows "passes (reg E) (tk_conn t) (tk_left t @ [s]) (tk_conn (return_stack E i s t)) (tk_left (return_stack E i s t))"
proof -
  let ?c = "tk_conn t" and ?p = "stack_path s" and ?n = "stack_count s"
  define worn where "worn = (case worn_slot s of None \<Rightarrow> None
            | Some slot \<Rightarrow> (case restore_worn (reg E) ?p ?n slot (inventory ?c) of (True, iv) \<Rightarrow> Some (slot, iv) | (False, _) \<Rightarrow> None))"
  have same: "\<lparr>stack_path = ?p, stack_count = ?n, worn_slot = worn_slot s\<rparr> = s" by simp
  have n: "?n \<le> u32_max" using s by (simp add: stack_ok_def)
  show ?thesis
  proof (cases worn)
    case (Some si)
    obtain slot iv where si: "si = (slot, iv)" by (cases si)
    have res: "restore_worn (reg E) ?p ?n slot (inventory ?c) = (True, iv)"
      using Some si by (auto simp: worn_def split: option.splits prod.splits bool.splits)
    note eff = restore_worn_effect [OF conn_okD(1) [OF ok] res n]
    let ?c' = "ledger (now E) (item_event CorpseLoot ?p ?n (int ?n) (Some (corpse_detail i))) (?c\<lparr>inventory := iv, inventory_dirty := True\<rparr>)"
    have items: "inv_total q iv = inv_total q (inventory ?c) + (if q = ?p then ?n else 0)" for q
      using eff [of q] by (simp add: units_def)
    have "inv_wf (reg E) iv" using eff by blast
    then have "balanced (reg E) ?c ?c'" using ok items by (simp add: books raised_def)
    then have "passes (reg E) ?c (tk_left t @ [s]) ?c' (tk_left t)"
      using items left by (simp add: passes_def conn_items_def units_def vault_flags_def)
    moreover have "return_stack E i s t = t\<lparr>tk_conn := ?c', tk_worn := Suc (tk_worn t),
        tk_deltas := tk_deltas t @ [InventoryDelta ''equip'' slot (Some ?p) ?n], tk_lines := tk_lines t @ [LootGranted ?p ?n]\<rparr>"
      using Some si by (simp add: return_stack_def worn_def [symmetric] Let_def)
    ultimately show ?thesis by simp
  next
    case None
    show ?thesis
    proof (cases "add_item_locating (reg E) ?p ?n (inventory ?c)")
      case (Inl e)
      have "tk_conn (return_stack E i s t) = ?c" "tk_left (return_stack E i s t) = tk_left t @ [s]"
        using None s same by (simp_all add: return_stack_def worn_def [symmetric] Inl Let_def stack_ok_def)
      then show ?thesis using ok left s by (simp add: passes_refl)
    next
      case (Inr r)
      obtain touched l iv where r: "r = ((touched, l), iv)" by (metis surj_pair)
      let ?c' = "if 0 < ?n - l then ledger (now E) (item_event CorpseLoot ?p (?n - l) (int (?n - l)) (Some (corpse_detail i)))
          (?c\<lparr>inventory := iv, inventory_dirty := True \<or> inventory_dirty ?c\<rparr>) else ?c\<lparr>inventory := iv, inventory_dirty := True \<or> inventory_dirty ?c\<rparr>"
      have "passes (reg E) ?c [s] ?c' (if 0 < l then [\<lparr>stack_path = ?p, stack_count = l, worn_slot = worn_slot s\<rparr>] else [])"
        by (subst same [symmetric], rule placed_passes [OF ok reg Inr [unfolded r] n]) simp_all
      moreover have "tk_conn (return_stack E i s t) = ?c'"
        "tk_left (return_stack E i s t) = tk_left t @ (if 0 < l then [\<lparr>stack_path = ?p, stack_count = l, worn_slot = worn_slot s\<rparr>] else [])"
        using None by (simp_all add: return_stack_def worn_def [symmetric] Inr r Let_def)
      ultimately show ?thesis using passes_beside [OF _ left] by simp
    qed
  qed
qed

lemma return_stacks_passes:
  assumes "conn_ok (reg E) (tk_conn t)" "reg_ok (reg E)" "list_all stack_ok (tk_left t)" "list_all stack_ok gs"
  shows "passes (reg E) (tk_conn t) (tk_left t @ gs) (tk_conn (fold (return_stack E i) gs t)) (tk_left (fold (return_stack E i) gs t))"
  using assms
proof (induction gs arbitrary: t)
  case (Cons s gs)
  let ?t = "return_stack E i s t"
  have one: "passes (reg E) (tk_conn t) (tk_left t @ [s]) (tk_conn ?t) (tk_left ?t)" using return_stack_passes Cons.prems by simp
  then have "passes (reg E) (tk_conn ?t) (tk_left ?t @ gs) (tk_conn (fold (return_stack E i) gs ?t)) (tk_left (fold (return_stack E i) gs ?t))"
    using Cons passesD [OF one] by simp
  moreover have "passes (reg E) (tk_conn t) (tk_left t @ s # gs) (tk_conn ?t) (tk_left ?t @ gs)"
    using one Cons.prems(4) by (simp add: passes_def)
  ultimately show ?case using passes_trans by simp
qed (simp add: passes_refl)

section \<open>What a corpse gives back\<close>

lemma return_coins_effect:
  assumes ok: "conn_ok R c" and bd: "coins_bounded c" and k: "purse_ok (corpse_coins k)" "coin_value (corpse_coins k) \<le> coin_cap"
  shows "balanced R c (return_coins E k c) \<and> conn_items q (return_coins E k c) = conn_items q c
    \<and> conn_coin (return_coins E k c) = conn_coin c + coin_value (corpse_coins k) \<and> vault_flags (return_coins E k c) = vault_flags c
    \<and> conn_ok R (return_coins E k c)"
proof (cases "corpse_coins k = coins_ZERO")
  case True
  then show ?thesis using ok by (simp add: return_coins_def balanced_refl coin_value_def coins_ZERO_def)
next
  case False
  note add = add_each_bounded [OF conn_okD(4) [OF ok] k(1) coin_bounds(3) [OF ok bd] k(2)]
  have "\<not> has_negative (corpse_coins k)" using k(1) by (simp add: purse_ok_def)
  then have "total_copper (corpse_coins k) = coin_value (corpse_coins k)" using k(2) by (rule total_copper_bounded)
  then show ?thesis
    using False ok add by (simp add: return_coins_def books raised_def conn_items_def conn_coin_def vault_flags_def)
qed

lemma take_from_corpse_effect:
  assumes ok: "conn_ok (reg E) c" and bd: "coins_bounded c" and reg: "reg_ok (reg E)"
    and k: "purse_ok (corpse_coins k)" "coin_value (corpse_coins k) \<le> coin_cap" "list_all stack_ok (corpse_items k)"
    and t: "t = take_from_corpse E slot k c"
  shows "balanced (reg E) c (tk_conn t)" "conn_items q (tk_conn t) + stacks_total q (tk_left t) = conn_items q c + stacks_total q (corpse_items k)"
    "list_all stack_ok (tk_left t)" "conn_coin (tk_conn t) = conn_coin c + coin_value (corpse_coins k)" "vault_flags (tk_conn t) = vault_flags c"
proof -
  obtain granted rest where tk: "take_stacks slot (corpse_items k) = (granted, rest)" by (cases "take_stacks slot (corpse_items k)")
  note split = take_stacks_split [OF tk]
  let ?t0 = "\<lparr>tk_conn = return_coins E k c, tk_left = rest, tk_deltas = [], tk_lines = [], tk_worn = 0, tk_refused = 0\<rparr>"
  have t': "t = fold (return_stack E (corpse_id k)) (worn_first granted) ?t0" by (simp add: t take_from_corpse_def tk)
  note rc = return_coins_effect [OF ok bd k(1,2)]
  have gs: "list_all stack_ok rest" "list_all stack_ok (worn_first granted)"
    using k(3) split(2) worn_first_same(2) by (auto simp: list_all_iff)
  have p: "passes (reg E) (return_coins E k c) (rest @ worn_first granted) (tk_conn t) (tk_left t)"
    using return_stacks_passes [of E ?t0 "worn_first granted"] rc reg gs by (simp add: t')
  note d = passesD [OF p]
  show "balanced (reg E) c (tk_conn t)" using rc d(1) balanced_trans by blast
  show "conn_items q (tk_conn t) + stacks_total q (tk_left t) = conn_items q c + stacks_total q (corpse_items k)"
    using d(3) [of q] rc split(1) [of q] by (simp add: worn_first_same(1))
  show "list_all stack_ok (tk_left t)" using d(4) .
  show "conn_coin (tk_conn t) = conn_coin c + coin_value (corpse_coins k)" using rc d(5,6) by (simp add: conn_coin_def)
  show "vault_flags (tk_conn t) = vault_flags c" using rc d(7) by simp
qed

section \<open>A transaction over the inventory and the wallet\<close>

text \<open>One that writes the inventory, the wallet and the queue of a connection whose stores were clean.\<close>

lemma commit_keeps_clean:
  assumes acc: "accounted c db" and clean: "\<not> any_store_dirty c" and bal: "balanced R c c'" and flags: "vault_flags c' = vault_flags c"
    and small: "conn_small c'"
  shows "same_gap db (commit_side (char_id c) c' db)"
    and "accounted (c'\<lparr>inventory_dirty := False, coins_dirty := False, item_events := []\<rparr>) (commit_side (char_id c) c' db)"
    and "conn_ok R (c'\<lparr>inventory_dirty := False, coins_dirty := False, item_events := []\<rparr>)"
    and "other (char_id c) (account_id c) d \<Longrightarrow> accounted d (commit_side (char_id c) c' db) = accounted d db"
proof -
  let ?c = "c'\<lparr>inventory_dirty := True, coins_dirty := True\<rparr>"
  let ?d = "c'\<lparr>inventory_dirty := False, coins_dirty := False, item_events := []\<rparr>"
  have f: "\<not> bank_dirty c'" "\<not> bank_items_dirty c'" "\<not> account_bank_items_dirty c'"
    using flags clean by (simp_all add: vault_flags_def any_store_dirty_def)
  have ids: "char_id c' = char_id c" "account_id c' = account_id c" using bal by (simp_all add: balanced_def flags_follow_def)
  have bal': "balanced R c ?c" using bal by (simp add: books raised_def)
  have c_d: "?c\<lparr>inventory_dirty := False, coins_dirty := False, bank_dirty := False, bank_items_dirty := False,
      account_bank_items_dirty := False, item_events := []\<rparr> = ?d"
    by (rule connection.equality) (use f in simp_all)
  have "persist_dirty_stores True ?c db = (True, ?d, commit_side (char_id c) c' db)"
    using f ids unfolding c_d [symmetric]
    by (simp add: persist_dirty_stores_def any_store_dirty_def save_stores_atomic_def when_dirty_def commit_side_def)
  moreover have "accounted ?c db" using balanced_accounted [OF acc bal'] .
  moreover have "conn_small ?c" using small by (simp add: conn_small_def)
  ultimately show "same_gap db (commit_side (char_id c) c' db)" "accounted ?d (commit_side (char_id c) c' db)"
    using flush_keeps by blast+
  show "conn_ok R ?d" using bal by (simp add: balanced_def conn_ok_def)
  show "accounted d (commit_side (char_id c) c' db) = accounted d db" if "other (char_id c) (account_id c) d"
    using save_frame [OF commit_side_save [symmetric] that] .
qed

text \<open>Both transactions of the dead have that shape.\<close>

lemma apply_corpse_loot_shape:
  "apply_corpse_loot commits ch (to_rows (inventory c)) (coins c) i its w gone (item_events c) (db, g) = Some (db', g') \<Longrightarrow>
     commits \<and> db' = commit_side ch c db"
  by (simp add: apply_corpse_loot_def commit_side_def replace_rows_def split: if_splits)

lemma to_rows_clear: "to_rows (clear_all iv) = []"
proof -
  have "cell_rows loc (map (\<lambda>_. None) cs) = []" for loc :: string and cs :: "cell list"
    by (simp add: cell_rows_def)
  then show ?thesis by (simp add: clear_all_def to_rows_def)
qed

lemma save_corpse_shape:
  assumes "save_corpse commits i ch row pr (item_events c) (db, g) = Some (db', g')" "to_rows (inventory c) = []" "coins c = coins_ZERO"
  shows "commits \<and> db' = commit_side ch c db \<and> corpse_rows g' = (i, row) # corpse_rows g"
  using assms by (auto simp: save_corpse_def commit_side_def replace_rows_def write_xp_progress_def split: if_splits)

section \<open>What a death takes\<close>

lemma death_rows_sums:
  assumes "\<not> has_negative w" "coin_value w \<le> coin_cap"
  shows "queued_delta q (death_rows i its w) = - int (corpse_total q its)" "queued_copper (death_rows i its w) = - coin_value w"
proof -
  have "queued_delta q (map (\<lambda>(p, n, _). item_event Death p n (- int n) d) its) = - int (corpse_total q its)"
    "queued_copper (map (\<lambda>(p, n, _). item_event Death p n (- int n) d) its) = 0" for d
    by (induction its) (auto simp: corpse_total_def grants_total_def units_def queued_delta_def queued_copper_def)
  then show "queued_delta q (death_rows i its w) = - int (corpse_total q its)" "queued_copper (death_rows i its w) = - coin_value w"
    using total_copper_bounded [OF assms] by (auto simp: death_rows_def queued_single)
qed

lemma death_balanced:
  assumes ok: "conn_ok R c" and bd: "coins_bounded c" and dirty: "inventory_dirty c'" "coins_dirty c'"
    and c': "c' = (ledger_all t (death_rows i (corpse_stacks (inventory c)) (coins c)) c)
                 \<lparr>inventory := clear_all (inventory c), coins := coins_ZERO, hp := h, inventory_dirty := True, coins_dirty := True\<rparr>"
  shows "balanced R c c'"
proof -
  have w: "\<not> has_negative (coins c)" "coin_value (coins c) \<le> coin_cap"
    using ok coin_bounds(3) [OF ok bd] by (simp_all add: conn_ok_def purse_ok_def)
  have total: "corpse_total q (corpse_stacks (inventory c)) = inv_total q (inventory c)" for q
    by (rule corpse_stacks_total [OF conn_okD(1) [OF ok]])
  note sums = death_rows_sums [OF w]
  have q: "item_events c' = item_events c @ map (\<lambda>r. r\<lparr>ev_at := t, ev_char := char_id c\<rparr>) (death_rows i (corpse_stacks (inventory c)) (coins c))"
    by (simp add: c' ledger_all_events)
  have same: "queued_delta q (map (\<lambda>r. r\<lparr>ev_at := t, ev_char := ch\<rparr>) rows) = queued_delta q rows"
    "queued_copper (map (\<lambda>r. r\<lparr>ev_at := t, ev_char := ch\<rparr>) rows) = queued_copper rows" for q ch rows
    by (induction rows) (simp_all add: queued_delta_def queued_copper_def)
  have fields: "inventory c' = clear_all (inventory c)" "coins c' = coins_ZERO" "bank_items c' = bank_items c" "bank_coins c' = bank_coins c"
    "account_bank_items c' = account_bank_items c" "char_id c' = char_id c" "account_id c' = account_id c" "bank_dirty c' = bank_dirty c"
    "bank_items_dirty c' = bank_items_dirty c" "account_bank_items_dirty c' = account_bank_items_dirty c"
    by (simp_all add: c' ledger_all_simps)
  have "own_queue c \<Longrightarrow> own_queue c'" by (auto simp: own_queue_def q fields list_all_iff)
  moreover have "item_drift p c' = item_drift p c" for p
    by (simp add: item_drift_def conn_items_def fields q same sums total)
  moreover have "coin_drift c' = coin_drift c"
    by (simp add: coin_drift_def conn_coin_def fields q same sums coin_value_def coins_ZERO_def)
  moreover have "purse_ok coins_ZERO" by (simp add: purse_ok_def has_negative_def fits64_def coins_ZERO_def)
  ultimately show ?thesis
    using ok clear_all_wf dirty by (simp add: balanced_def conn_ok_def flags_follow_def fields raised_def)
qed

section \<open>Shares of a pot\<close>

lemma paid_balanced:
  assumes ok: "conn_ok R c" and bd: "coins_bounded c" and n: "0 \<le> n" "n \<le> coin_cap"
  shows "balanced R c (ledger t (coin_event a n d) (c\<lparr>coins := add_payout (coins c) n, coins_dirty := True\<rparr>))"
    and "coin_value (add_payout (coins c) n) = coin_value (coins c) + n"
proof -
  have "n \<le> i64_max" using n(2) by (simp add: coin_cap_def)
  note p = payout_bounded [OF conn_okD(4) [OF ok] coin_bounds(3) [OF ok bd] n(1) this]
  show "coin_value (add_payout (coins c) n) = coin_value (coins c) + n" by (rule p(2))
  show "balanced R c (ledger t (coin_event a n d) (c\<lparr>coins := add_payout (coins c) n, coins_dirty := True\<rparr>))"
    using ok p by (simp add: books raised_def)
qed

end
