(* ===== verification/Land.thy ===== *)
theory Land
  imports Spoils
begin

text \<open>
  The whole land: every connection, every bag on the ground and every corpse, with the one database.  What each way of moving
  things between them keeps.
\<close>

section \<open>What there is\<close>

definition world_items :: "string \<Rightarrow> world \<Rightarrow> nat" where
  "world_items q w = al_sum (conn_items q) (conns w)"

definition world_coin :: "world \<Rightarrow> nat" where
  "world_coin w = al_sum (\<lambda>c. nat (conn_coin c)) (conns w)"

definition land_items :: "string \<Rightarrow> land \<Rightarrow> nat" where
  "land_items q L = world_items q (realm L) + al_sum (\<lambda>g. stacks_total q (bag_items g)) (lying L)
     + al_sum (\<lambda>k. stacks_total q (corpse_items k)) (bodies L)"

definition land_coin :: "land \<Rightarrow> nat" where
  "land_coin L = world_coin (realm L) + al_sum (\<lambda>g. nat (coin_value (bag_coins g))) (lying L)
     + al_sum (\<lambda>k. nat (coin_value (corpse_coins k))) (bodies L)"

text \<open>The row of a corpse, \<open>G\<close> being the ground.\<close>

definition buried :: "(vec3f \<Rightarrow> vec3f) \<Rightarrow> corpse \<Rightarrow> corpse_row \<Rightarrow> bool" where
  "buried G k r \<longleftrightarrow> row_char r = owner_char k \<and> row_owner r = owner_name k \<and> row_zone r = corpse_zone k \<and> G (row_pos r) = corpse_pos k
     \<and> row_coins r = corpse_coins k \<and> row_items r = row_stacks (corpse_items k) \<and> row_lost_xp r = lost_xp k
     \<and> row_resurrected r = resurrected k"

definition bag_ok :: "nat \<Rightarrow> loot_bag \<Rightarrow> bool" where
  "bag_ok i g \<longleftrightarrow> bag_id g = i \<and> list_all stack_ok (bag_items g) \<and> purse_ok (bag_coins g)"

definition body_ok :: "nat \<Rightarrow> corpse \<Rightarrow> bool" where
  "body_ok i k \<longleftrightarrow> corpse_id k = i \<and> list_all stack_ok (corpse_items k) \<and> purse_ok (corpse_coins k)"

definition land_ok :: "registry \<Rightarrow> (vec3f \<Rightarrow> vec3f) \<Rightarrow> land \<Rightarrow> bool" where
  "land_ok R G L \<longleftrightarrow> realm_ok R (realm L) \<and> distinct (map fst (lying L)) \<and> distinct (map fst (bodies L))
     \<and> (\<forall>i g. map_of (lying L) i = Some g \<longrightarrow> bag_ok i g \<and> i < next_bag L \<and> map_of (bodies L) i = None)
     \<and> (\<forall>i k. map_of (bodies L) i = Some k \<longrightarrow>
          body_ok i k \<and> i < next_bag L \<and> (\<exists>r. map_of (corpse_rows (graves L)) (int i) = Some r \<and> buried G k r))"

text \<open>Sums far from the ends of the integers that hold them.\<close>

definition light :: "connection \<Rightarrow> bool" where
  "light c \<longleftrightarrow> (\<forall>q. conn_items q c \<le> 2147483647)"

definition land_bounded :: "land \<Rightarrow> bool" where
  "land_bounded L \<longleftrightarrow> (\<forall>k c. conn_of k (realm L) = Some c \<longrightarrow> coins_bounded c \<and> light c)
     \<and> (\<forall>i g. map_of (lying L) i = Some g \<longrightarrow> coin_value (bag_coins g) \<le> coin_cap)
     \<and> (\<forall>i k. map_of (bodies L) i = Some k \<longrightarrow> coin_value (corpse_coins k) \<le> coin_cap)"

lemma cell_le_total: "c \<in> set cs \<Longrightarrow> cell_count p c \<le> cells_total p cs"
  by (auto simp: cells_total_def intro: member_le_sum_list)

lemma small_of_count: "(\<And>q. cell_count q c \<le> 2147483647) \<Longrightarrow> small_cell c"
proof (cases c)
  case (Some e)
  assume "\<And>q. cell_count q c \<le> 2147483647"
  from this [of "item_path e"] show ?thesis by (simp add: Some small_cell_def)
qed (simp add: small_cell_def)

lemma al_sum_member: "(k, v) \<in> set m \<Longrightarrow> f v \<le> al_sum f m"
  by (induction m) (auto simp: al_sum_def)

lemma light_small:
  assumes "light c"
  shows "conn_small c"
proof -
  let ?iv = "inventory c"
  have l: "inv_total q ?iv + vault_total q (bank_items c) + vault_total q (account_bank_items c) \<le> 2147483647" for q
    using assms by (simp add: light_def conn_items_def)
  have parts: "cells_total q (base ?iv) \<le> 2147483647" "equip_total q (equipment ?iv) \<le> 2147483647" "bags_total q (bags ?iv) \<le> 2147483647"
    "cell_count q (cursor ?iv) \<le> 2147483647" "cells_total q (slots (bank_items c)) \<le> 2147483647"
    "cells_total q (slots (account_bank_items c)) \<le> 2147483647" for q
    using l [of q] by (simp_all add: inv_total_def vault_total_def)
  have cells: "list_all small_cell cs" if "\<And>q. cells_total q cs \<le> 2147483647" for cs
    using that cell_le_total by (fastforce simp: list_all_iff intro: small_of_count le_trans)
  have "small_cell (Some e)" if "(k, e) \<in> set (equipment ?iv)" for k e
    using al_sum_member [OF that, of "\<lambda>e. cell_count q (Some e)" for q] parts(2)
    by (intro small_of_count) (metis equip_total_def le_trans)
  moreover have "list_all small_cell arr" if "(k, arr) \<in> set (bags ?iv)" for k arr
    using al_sum_member [OF that, of "cells_total q" for q] parts(3) by (intro cells) (metis bags_total_def le_trans)
  ultimately show ?thesis
    using cells [OF parts(1)] cells [OF parts(5)] cells [OF parts(6)] small_of_count [OF parts(4)]
    by (auto simp: conn_small_def rows_small_def list_all_iff)
qed

lemma land_bounded_realm: "land_bounded L \<Longrightarrow> realm_bounded (realm L)"
  by (auto simp: land_bounded_def realm_bounded_def intro: light_small)

section \<open>One connection changes\<close>

lemma conn_coin_nonneg: "conn_ok R c \<Longrightarrow> 0 \<le> conn_coin c"
  using coin_value_purse [of "coins c"] coin_value_purse [of "bank_coins c"] by (simp add: conn_ok_def conn_coin_def)

text \<open>Nothing in the whole land out of proportion: then nothing anyone holds is.\<close>

definition land_light :: "land \<Rightarrow> bool" where
  "land_light L \<longleftrightarrow> (\<forall>q. land_items q L \<le> 2147483647) \<and> int (land_coin L) \<le> coin_cap"

lemma al_sum_at: "map_of m k = Some v \<Longrightarrow> f v \<le> al_sum f m"
  by (rule al_sum_member) (rule map_of_SomeD)

lemma held_in_land:
  assumes "conn_of k (realm L) = Some c"
  shows "conn_items q c \<le> world_items q (realm L)" "conn_items q c \<le> land_items q L" "nat (conn_coin c) \<le> land_coin L"
  using al_sum_at [of "conns (realm L)" k c "conn_items q"] al_sum_at [of "conns (realm L)" k c "\<lambda>c. nat (conn_coin c)"] assms
  by (simp_all add: conn_of_def land_items_def world_items_def land_coin_def world_coin_def)

lemma light_bounded: "land_light L \<Longrightarrow> land_bounded L"
proof -
  assume l: "land_light L"
  have "coins_bounded c \<and> light c" if "conn_of k (realm L) = Some c" for k c
  proof
    show "coins_bounded c" using held_in_land(3) [OF that] l by (simp add: coins_bounded_def land_light_def nat_le_iff)
    show "light c" unfolding light_def using held_in_land(2) [OF that] l by (meson land_light_def le_trans)
  qed
  moreover have "coin_value (bag_coins g) \<le> coin_cap" if "map_of (lying L) i = Some g" for i g
    using al_sum_at [OF that, of "\<lambda>g. nat (coin_value (bag_coins g))"] l by (simp add: land_light_def land_coin_def nat_le_iff)
  moreover have "coin_value (corpse_coins k) \<le> coin_cap" if "map_of (bodies L) i = Some k" for i k
    using al_sum_at [OF that, of "\<lambda>k. nat (coin_value (corpse_coins k))"] l by (simp add: land_light_def land_coin_def nat_le_iff)
  ultimately show ?thesis unfolding land_bounded_def by blast
qed

lemma world_put:
  assumes "realm_ok R w" "conn_of k w = Some c"
  shows "world_items q (put_conn k c' w) + conn_items q c = world_items q w + conn_items q c'"
    and "world_coin (put_conn k c' w) + nat (conn_coin c) = world_coin w + nat (conn_coin c')"
proof -
  have d: "distinct (map fst (conns w))" using assms(1) by (simp add: realm_ok_def)
  show "world_items q (put_conn k c' w) + conn_items q c = world_items q w + conn_items q c'"
    "world_coin (put_conn k c' w) + nat (conn_coin c) = world_coin w + nat (conn_coin c')"
    using al_sum_update [OF d, of "conn_items q" k c'] al_sum_update [OF d, of "\<lambda>c. nat (conn_coin c)" k c'] assms(2)
    by (simp_all add: world_items_def world_coin_def put_conn_def conn_of_def)
qed

lemma world_sums_same [simp]:
  "world_items q (w\<lparr>store := db\<rparr>) = world_items q w" "world_coin (w\<lparr>store := db\<rparr>) = world_coin w"
  "world_items q (w\<lparr>parties := gm\<rparr>) = world_items q w" "world_coin (w\<lparr>parties := gm\<rparr>) = world_coin w"
  "world_items q (w\<lparr>trades := tm\<rparr>) = world_items q w" "world_coin (w\<lparr>trades := tm\<rparr>) = world_coin w"
  by (simp_all add: world_items_def world_coin_def)

text \<open>A flush moves nothing in memory.\<close>

lemma flush_one_sums:
  assumes ok: "realm_ok R w" and bd: "realm_bounded w" and res: "flush_one commits k w = (r, w')"
  shows "world_items q w' = world_items q w" "world_coin w' = world_coin w"
proof -
  have "world_items q w' = world_items q w \<and> world_coin w' = world_coin w"
  proof (cases "conn_of k w")
    case None
    then show ?thesis using res by (simp add: flush_one_def)
  next
    case (Some c)
    obtain c' db where p: "persist_dirty_stores commits c (store w) = (r, c', db)" "w' = put_conn k c' (w\<lparr>store := db\<rparr>)"
      using res Some by (auto simp: flush_one_def split: prod.splits)
    have "conn_items q c' = conn_items q c" "conn_coin c' = conn_coin c"
      using p(1) by (auto simp: persist_dirty_stores_def conn_items_def conn_coin_def split: if_splits option.splits)
    moreover have "put_conn k c' (w\<lparr>store := db\<rparr>) = (put_conn k c' w)\<lparr>store := db\<rparr>" by (simp add: put_conn_def)
    ultimately show ?thesis using world_put(1) [OF ok Some, of q c'] world_put(2) [OF ok Some, of c'] p(2) by simp
  qed
  then show "world_items q w' = world_items q w" "world_coin w' = world_coin w" by simp_all
qed

section \<open>What a step keeps\<close>

definition land_keeps :: "registry \<Rightarrow> (vec3f \<Rightarrow> vec3f) \<Rightarrow> land \<Rightarrow> land \<Rightarrow> bool" where
  "land_keeps R G L L' \<longleftrightarrow> land_ok R G L' \<and> same_gap (store (realm L)) (store (realm L'))
     \<and> (\<forall>q. land_items q L' = land_items q L) \<and> land_coin L' = land_coin L"

lemma land_keeps_refl: "land_ok R G L \<Longrightarrow> land_keeps R G L L"
  by (simp add: land_keeps_def)

lemma land_keeps_trans: "land_keeps R G a b \<Longrightarrow> land_keeps R G b c \<Longrightarrow> land_keeps R G a c"
  by (auto simp: land_keeps_def intro: same_gap_trans)

lemma keeps_light: "land_keeps R G L L' \<Longrightarrow> land_light L \<Longrightarrow> land_light L'"
  by (simp add: land_keeps_def land_light_def)

text \<open>A change of the realm alone that keeps its sums.\<close>

lemma realm_only_keeps:
  assumes "land_ok R G L" "realm_ok R w" "same_gap (store (realm L)) (store w)" "\<And>q. world_items q w = world_items q (realm L)"
    "world_coin w = world_coin (realm L)"
  shows "land_keeps R G L (L\<lparr>realm := w\<rparr>)"
  using assms by (simp add: land_keeps_def land_ok_def land_items_def land_coin_def)

lemma put_body_keeps [simp]:
  "land_ok R G (put_body k b L) = land_ok R G L" "land_items q (put_body k b L) = land_items q L"
  "land_coin (put_body k b L) = land_coin L" "realm (put_body k b L) = realm L"
  "lying (put_body k b L) = lying L" "bodies (put_body k b L) = bodies L" "graves (put_body k b L) = graves L"
  "next_bag (put_body k b L) = next_bag L"
  by (simp_all add: put_body_def land_ok_def land_items_def land_coin_def)

lemma land_keeps_put_body [simp]: "land_keeps R G L (put_body k b L') = land_keeps R G L L'"
  by (simp add: land_keeps_def)

lemma realm_ok_parties: "realm_ok R w \<Longrightarrow> groups_wf gm \<Longrightarrow> realm_ok R (w\<lparr>parties := gm\<rparr>)"
  by (simp add: realm_ok_def)

lemma bag_ok_at: "land_ok R G L \<Longrightarrow> map_of (lying L) i = Some g \<Longrightarrow> bag_ok i g \<and> i < next_bag L \<and> map_of (bodies L) i = None"
  by (simp add: land_ok_def)

lemma body_ok_at:
  "land_ok R G L \<Longrightarrow> map_of (bodies L) i = Some k \<Longrightarrow>
     body_ok i k \<and> i < next_bag L \<and> (\<exists>r. map_of (corpse_rows (graves L)) (int i) = Some r \<and> buried G k r)"
  by (simp add: land_ok_def)

text \<open>One bag replaced or removed, with the realm: what the sums need.\<close>

lemma swap_bag_keeps:
  assumes ok: "land_ok R G L" and g: "map_of (lying L) i = Some g" and g': "bag_ok i g'" and w: "realm_ok R w"
    "same_gap (store (realm L)) (store w)"
    and items: "\<And>q. world_items q w + stacks_total q (bag_items g') = world_items q (realm L) + stacks_total q (bag_items g)"
    and coin: "world_coin w + nat (coin_value (bag_coins g')) = world_coin (realm L) + nat (coin_value (bag_coins g))"
  shows "land_keeps R G L (set_bag g' (L\<lparr>realm := w\<rparr>))"
    and "bag_is_empty g' \<Longrightarrow> land_keeps R G L (remove_bag i (L\<lparr>realm := w\<rparr>))"
proof -
  have d: "distinct (map fst (lying L))" using ok by (simp add: land_ok_def)
  have id: "bag_id g' = i" using g' by (simp add: bag_ok_def)
  have put: "al_sum f (AList.update i g' (lying L)) + f g = al_sum f (lying L) + f g'" for f :: "loot_bag \<Rightarrow> nat"
    using al_sum_update [OF d, of f i g'] g by simp
  have del: "al_sum f (AList.delete i (lying L)) + f g = al_sum f (lying L)" for f :: "loot_bag \<Rightarrow> nat"
    using al_sum_delete [OF d, of f i] g by simp
  have "land_ok R G (set_bag g' (L\<lparr>realm := w\<rparr>))"
    using ok g g' w(1) id by (auto simp: land_ok_def set_bag_def split: if_splits)
  moreover have "land_items q (set_bag g' (L\<lparr>realm := w\<rparr>)) = land_items q L" for q
    using items [of q] put [of "\<lambda>g. stacks_total q (bag_items g)"] id by (simp add: land_items_def set_bag_def)
  moreover have "land_coin (set_bag g' (L\<lparr>realm := w\<rparr>)) = land_coin L"
    using coin put [of "\<lambda>g. nat (coin_value (bag_coins g))"] id by (simp add: land_coin_def set_bag_def)
  ultimately show "land_keeps R G L (set_bag g' (L\<lparr>realm := w\<rparr>))" using w(2) by (simp add: land_keeps_def set_bag_def)
  assume empty: "bag_is_empty g'"
  have z: "stacks_total q (bag_items g') = 0" "coin_value (bag_coins g') = 0" for q
    using empty by (simp_all add: bag_is_empty_def coin_value_def coins_ZERO_def)
  have "land_ok R G (remove_bag i (L\<lparr>realm := w\<rparr>))"
    using ok g w(1) by (auto simp: land_ok_def remove_bag_def split: if_splits)
  moreover have "land_items q (remove_bag i (L\<lparr>realm := w\<rparr>)) = land_items q L" for q
    using items [of q] del [of "\<lambda>g. stacks_total q (bag_items g)"] z by (simp add: land_items_def remove_bag_def)
  moreover have "land_coin (remove_bag i (L\<lparr>realm := w\<rparr>)) = land_coin L"
    using coin del [of "\<lambda>g. nat (coin_value (bag_coins g))"] z by (simp add: land_coin_def remove_bag_def)
  ultimately show "land_keeps R G L (remove_bag i (L\<lparr>realm := w\<rparr>))" using w(2) by (simp add: land_keeps_def remove_bag_def)
qed

section \<open>Looting a bag\<close>

lemma loot_gate_bag:
  assumes res: "loot_gate who g w = (v, g1, gm)" and wf: "groups_wf (parties w)"
  shows "bag_id g1 = bag_id g" "bag_items g1 = bag_items g" "bag_coins g1 = bag_coins g" "bag_pos g1 = bag_pos g"
    "groups_wf gm" "v = Inr u \<Longrightarrow> within_reach LOOT_PICKUP_RANGE (bag_pos g) who w"
proof -
  obtain g2 gm2 where cl: "claim_turn g w = (g2, gm2)" by (cases "claim_turn g w")
  have c: "bag_id g2 = bag_id g \<and> bag_items g2 = bag_items g \<and> bag_coins g2 = bag_coins g \<and> bag_pos g2 = bag_pos g \<and> groups_wf gm2"
    using cl wf by (auto simp: claim_turn_def split: option.splits prod.splits dest: next_loot_turn_wf)
  show "bag_id g1 = bag_id g" "bag_items g1 = bag_items g" "bag_coins g1 = bag_coins g" "bag_pos g1 = bag_pos g"
    "groups_wf gm" "v = Inr u \<Longrightarrow> within_reach LOOT_PICKUP_RANGE (bag_pos g) who w"
    using res wf c by (auto simp: loot_gate_def cl split: if_splits option.splits)
qed

lemma nat_sum: "0 \<le> a \<Longrightarrow> 0 \<le> b \<Longrightarrow> nat (a + b) = nat a + nat b"
  by simp

lemma shares_paid:
  assumes "distinct rs" "realm_ok R w" "\<forall>r\<in>set rs. \<exists>c. conn_of r w = Some c \<and> coins_bounded c"
    and sh: "0 \<le> b" "0 \<le> m" "b + m \<le> coin_cap"
    and "fold (pay_share E i b m who) rs (w, out) = (w', out')"
  shows "realm_ok R w' \<and> store w' = store w \<and> world_items q w' = world_items q w
    \<and> int (world_coin w') = int (world_coin w) + b * int (length rs) + (if who \<in> set rs then m else 0)
    \<and> (conn_of k w' = None \<longleftrightarrow> conn_of k w = None)"
  using assms(1-3,7)
proof (induction rs arbitrary: w out)
  case (Cons r rs)
  obtain c where c: "conn_of r w = Some c" "coins_bounded c" using Cons.prems(3) by auto
  let ?n = "if r = who then b + m else b"
  show ?case
  proof (cases "?n \<le> 0")
    case True
    then have "pay_share E i b m who r (w, out) = (w, out)" by (simp add: pay_share_def Let_def)
    then have "fold (pay_share E i b m who) rs (w, out) = (w', out')" using Cons.prems(4) by simp
    moreover have "b = 0" "r = who \<longrightarrow> m = 0" using True sh by (auto split: if_splits)
    ultimately show ?thesis using Cons.IH [OF _ Cons.prems(2), of out] Cons.prems(1,3) by auto
  next
    case False
    let ?c = "ledger (now E) (coin_event LootCoins ?n (Some (bag_detail i))) (c\<lparr>coins := add_payout (coins c) ?n, coins_dirty := True\<rparr>)"
    let ?w = "put_conn r ?c w"
    have n: "0 \<le> ?n" "?n \<le> coin_cap" using sh by auto
    note pb = paid_balanced [OF realm_okD(2) [OF Cons.prems(2) c(1)] c(2) n]
    have ok: "realm_ok R ?w" by (rule realm_ok_balanced [OF Cons.prems(2) c(1) pb(1)])
    have cc: "conn_items q ?c = conn_items q c" "conn_coin ?c = conn_coin c + ?n" using pb(2) by (simp_all add: conn_items_def conn_coin_def)
    have "0 \<le> conn_coin c" using conn_coin_nonneg realm_okD(2) [OF Cons.prems(2) c(1)] by blast
    then have wc: "int (world_coin ?w) = int (world_coin w) + ?n"
      using world_put(2) [OF Cons.prems(2) c(1), of ?c] cc(2) n(1) by (simp add: nat_sum)
    have wi: "world_items q ?w = world_items q w" using world_put(1) [OF Cons.prems(2) c(1), of q ?c] cc(1) by simp
    have rest: "\<forall>x\<in>set rs. \<exists>c. conn_of x ?w = Some c \<and> coins_bounded c" using Cons.prems(1,3) by auto
    have "pay_share E i b m who r (w, out) = (?w, out @ [(r, CoinsUpdate (add_payout (coins c) ?n))])"
      using False c(1) by (simp add: pay_share_def Let_def)
    then have "fold (pay_share E i b m who) rs (?w, out @ [(r, CoinsUpdate (add_payout (coins c) ?n))]) = (w', out')"
      using Cons.prems(4) by simp
    from Cons.IH [OF _ ok rest this] Cons.prems(1) have
      "realm_ok R w' \<and> store w' = store ?w \<and> world_items q w' = world_items q ?w
        \<and> int (world_coin w') = int (world_coin ?w) + b * int (length rs) + (if who \<in> set rs then m else 0)
        \<and> (conn_of k w' = None \<longleftrightarrow> conn_of k ?w = None)" by simp
    then show ?thesis using wc wi c(1) Cons.prems(1) by (auto simp: algebra_simps)
  qed
qed simp

lemma reach_wider: "within_reach LOOT_PICKUP_RANGE p k w \<Longrightarrow> within_reach GROUP_SHARE_RANGE p k w"
proof -
  have "f32_le LOOT_PICKUP_RANGE GROUP_SHARE_RANGE" by (simp add: LOOT_PICKUP_RANGE_def GROUP_SHARE_RANGE_def f32_eval)
  then show "within_reach LOOT_PICKUP_RANGE p k w \<Longrightarrow> within_reach GROUP_SHARE_RANGE p k w"
    by (auto simp: within_reach_def split: option.splits dest: f32_le_trans)
qed

lemma coin_sharers_ok:
  assumes wf: "groups_wf (parties w)" and near: "within_reach LOOT_PICKUP_RANGE p who w"
  shows "distinct (coin_sharers who p w)" "who \<in> set (coin_sharers who p w)" "\<forall>r\<in>set (coin_sharers who p w). \<exists>c. conn_of r w = Some c"
proof -
  have one: "conn_of who w \<noteq> None" using near by (auto simp: within_reach_def split: option.splits)
  have there: "\<exists>c. conn_of r w = Some c" if "within_reach d p r w" for d r using that by (auto simp: within_reach_def split: option.splits)
  have "distinct (coin_sharers who p w) \<and> who \<in> set (coin_sharers who p w) \<and> (\<forall>r\<in>set (coin_sharers who p w). \<exists>c. conn_of r w = Some c)"
  proof (cases "\<exists>c grp. conn_of who w = Some c \<and> autosplit c \<and> group_of who (parties w) = Some grp")
    case True
    then obtain c grp where g: "conn_of who w = Some c" "autosplit c" "group_of who (parties w) = Some grp" by blast
    obtain gi where gi: "map_of (member_to_group (parties w)) who = Some gi" "map_of (groups (parties w)) gi = Some grp"
      using g(3) by (auto simp: group_of_def split: option.splits)
    have mem: "who \<in> set (members grp)" "distinct (members grp)"
      using wf gi by (fastforce simp: groups_wf_iff group_ok_def)+
    then have "who \<in> set (filter (\<lambda>m. within_reach GROUP_SHARE_RANGE p m w) (members grp))" using reach_wider [OF near] by simp
    then have "filter (\<lambda>m. within_reach GROUP_SHARE_RANGE p m w) (members grp) \<noteq> []" by force
    then have "coin_sharers who p w = filter (\<lambda>m. within_reach GROUP_SHARE_RANGE p m w) (members grp)"
      using g by (auto simp: coin_sharers_def Let_def)
    then show ?thesis using mem reach_wider [OF near] there by auto
  next
    case False
    then have "coin_sharers who p w = [who]" using one by (auto simp: coin_sharers_def Let_def split: option.splits)
    then show ?thesis using one by auto
  qed
  then show "distinct (coin_sharers who p w)" "who \<in> set (coin_sharers who p w)" "\<forall>r\<in>set (coin_sharers who p w). \<exists>c. conn_of r w = Some c"
    by blast+
qed

lemma share_coins_keeps:
  assumes ok: "realm_ok R w" and near: "within_reach LOOT_PICKUP_RANGE (bag_pos g) who w"
    and bd: "\<forall>k c. conn_of k w = Some c \<longrightarrow> coins_bounded c"
    and g: "purse_ok (bag_coins g)" "coin_value (bag_coins g) \<le> coin_cap" and res: "share_coins E who g w = (w', out)"
  shows "realm_ok R w'" "store w' = store w" "world_items q w' = world_items q w"
    "world_coin w' = world_coin w + nat (coin_value (bag_coins g))" "\<exists>c. conn_of who w' = Some c"
proof -
  have one: "\<exists>c. conn_of who w = Some c" using near by (auto simp: within_reach_def split: option.splits)
  have "realm_ok R w' \<and> store w' = store w \<and> world_items q w' = world_items q w
    \<and> world_coin w' = world_coin w + nat (coin_value (bag_coins g)) \<and> (\<exists>c. conn_of who w' = Some c)"
  proof (cases "bag_coins g = coins_ZERO")
    case True
    then show ?thesis using res ok one by (simp add: share_coins_def coin_value_def coins_ZERO_def)
  next
    case False
    have wf: "groups_wf (parties w)" using ok by (simp add: realm_ok_def)
    let ?rs = "coin_sharers who (bag_pos g) w"
    note rs = coin_sharers_ok [OF wf near]
    define pot where "pot = total_copper (bag_coins g)"
    have pot: "pot = coin_value (bag_coins g)" using g total_copper_bounded by (simp add: pot_def purse_ok_def)
    then have p0: "0 \<le> pot" "pot \<le> coin_cap" using coin_value_purse [OF g(1)] g(2) by simp_all
    define n where "n = int (length ?rs)"
    have n: "0 < n" using rs(2) by (cases ?rs) (auto simp: n_def)
    have d: "pot sdiv n = pot div n" using sdiv_nonneg [OF p0(1) n] .
    define b where "b = pot div n"
    have b: "0 \<le> b" "0 \<le> pot - b * n" "b + (pot - b * n) \<le> coin_cap"
    proof -
      show b0: "0 \<le> b" using p0(1) n by (simp add: b_def pos_imp_zdiv_nonneg_iff)
      have "b * n \<le> pot" using n by (simp add: b_def) (metis minus_mod_eq_div_mult pos_mod_sign diff_left_mono diff_zero)
      moreover have "b \<le> b * n" using b0 n by (simp add: mult_le_cancel_left1)
      ultimately show "0 \<le> pot - b * n" "b + (pot - b * n) \<le> coin_cap" using p0(2) by linarith+
    qed
    have "fold (pay_share E (bag_id g) b (pot - b * n) who) ?rs (w, []) = (w', out)"
      using res False by (simp add: share_coins_def Let_def pot_def [symmetric] n_def [symmetric] d b_def)
    moreover have "\<forall>r\<in>set ?rs. \<exists>c. conn_of r w = Some c \<and> coins_bounded c" using rs(3) bd by blast
    ultimately have s: "realm_ok R w' \<and> store w' = store w \<and> world_items q w' = world_items q w
      \<and> int (world_coin w') = int (world_coin w) + b * int (length ?rs) + (if who \<in> set ?rs then pot - b * n else 0)
      \<and> (conn_of who w' = None \<longleftrightarrow> conn_of who w = None)"
      using shares_paid [OF rs(1) ok _ b] by blast
    then have "int (world_coin w') = int (world_coin w) + pot" using rs(2) by (simp add: n_def)
    then have "world_coin w' = world_coin w + nat pot" using p0(1) by linarith
    then show ?thesis using s pot one by auto
  qed
  then show "realm_ok R w'" "store w' = store w" "world_items q w' = world_items q w"
    "world_coin w' = world_coin w + nat (coin_value (bag_coins g))" "\<exists>c. conn_of who w' = Some c" by blast+
qed

text \<open>The claim of a turn moves nothing.\<close>

lemma gate_keeps:
  assumes ok: "land_ok R G L" and g: "map_of (lying L) i = Some g" and res: "loot_gate who g (realm L) = (v, g1, gm)"
  shows "land_keeps R G L (set_bag g1 (L\<lparr>realm := (realm L)\<lparr>parties := gm\<rparr>\<rparr>))" "bag_ok i g1"
    "realm_ok R ((realm L)\<lparr>parties := gm\<rparr>)"
proof -
  have r: "realm_ok R (realm L)" using ok by (simp add: land_ok_def)
  then have wf: "groups_wf (parties (realm L))" by (simp add: realm_ok_def)
  note b = loot_gate_bag [OF res wf]
  show g1: "bag_ok i g1" using bag_ok_at [OF ok g] b(1-3) by (simp add: bag_ok_def)
  show r1: "realm_ok R ((realm L)\<lparr>parties := gm\<rparr>)" using r b(5) by (rule realm_ok_parties)
  show "land_keeps R G L (set_bag g1 (L\<lparr>realm := (realm L)\<lparr>parties := gm\<rparr>\<rparr>))"
    by (rule swap_bag_keeps(1) [OF ok g g1 r1]) (simp_all add: b(2,3))
qed

lemma loot_bag_take_keeps:
  assumes ok: "land_ok (reg E) G L" and bd: "land_bounded L" and reg: "reg_ok (reg E)" and g: "map_of (lying L) i = Some g"
    and res: "loot_bag_take E S who slot g L = (L', out, took)"
  shows "land_keeps (reg E) G L L'"
proof -
  obtain v g1 gm where gate: "loot_gate who g (realm L) = (v, g1, gm)" by (metis surj_pair)
  let ?w = "(realm L)\<lparr>parties := gm\<rparr>"
  let ?L1 = "set_bag g1 (L\<lparr>realm := ?w\<rparr>)"
  note k = gate_keeps [OF ok g gate]
  have r: "realm_ok (reg E) (realm L)" using ok by (simp add: land_ok_def)
  have wf: "groups_wf (parties (realm L))" using r by (simp add: realm_ok_def)
  note b = loot_gate_bag [OF gate wf]
  have r1: "realm ?L1 = ?w" by (simp add: set_bag_def)
  have quiet: ?thesis if "L' = ?L1" using k(1) that by simp
  show ?thesis
  proof (cases "v = Inr () \<and> \<not> (case slot of None \<Rightarrow> False | Some j \<Rightarrow> length (bag_items g1) \<le> j)")
    case False
    then have "L' = ?L1" using res gate by (auto simp: loot_bag_take_def Let_def split: sum.splits if_splits)
    then show ?thesis by (rule quiet)
  next
    case True
    obtain w paid where sc: "share_coins E who g1 ?w = (w, paid)" by (cases "share_coins E who g1 ?w")
    have near: "within_reach LOOT_PICKUP_RANGE (bag_pos g1) who ?w" using b(6) True b(4) by (simp add: within_reach_def)
    have bound: "\<forall>j c. conn_of j ?w = Some c \<longrightarrow> coins_bounded c" using bd by (simp add: land_bounded_def)
    have cap: "coin_value (bag_coins g1) \<le> coin_cap" using bd g b(3) by (simp add: land_bounded_def)
    have purse: "purse_ok (bag_coins g1)" using k(2) by (simp add: bag_ok_def)
    note sh = share_coins_keeps [OF k(3) near bound purse cap sc]
    obtain c where c: "conn_of who w = Some c" using sh(5) by blast
    obtain granted rest where tk: "take_stacks slot (bag_items g1) = (granted, rest)" by (cases "take_stacks slot (bag_items g1)")
    define kind where "kind = (if creature_name g1 = [] then Pickup else Loot)"
    define det where "det = (if creature_name g1 = [] then bag_detail (bag_id g1) else bag_detail (bag_id g1) @ '' '' @ creature_name g1)"
    define t where "t = fold (take_stack E kind det) granted \<lparr>bt_conn = c, bt_left = rest, bt_msgs = [], bt_took = False\<rparr>"
    let ?g2 = "g1\<lparr>bag_items := bt_left t, bag_coins := coins_ZERO\<rparr>"
    let ?w2 = "put_conn who (bt_conn t) w"
    have out: "L' = (if bag_is_empty ?g2 then remove_bag (bag_id g1) (?L1\<lparr>realm := ?w2\<rparr>) else set_bag ?g2 (?L1\<lparr>realm := ?w2\<rparr>))"
      using res gate True sc c tk r1
      by (auto simp: loot_bag_take_def Let_def kind_def det_def t_def split: if_splits option.splits)
    have st: "list_all stack_ok granted" "list_all stack_ok rest"
      using k(2) take_stacks_split(2) [OF tk] by (auto simp: bag_ok_def list_all_iff)
    have okc: "conn_ok (reg E) c" using realm_okD(2) [OF sh(1) c] .
    have p: "passes (reg E) c (rest @ granted) (bt_conn t) (bt_left t)"
      using take_stacks_passes [of E "\<lparr>bt_conn = c, bt_left = rest, bt_msgs = [], bt_took = False\<rparr>" granted kind det] okc reg st
      by (simp add: t_def)
    note pd = passesD [OF p]
    have w2: "realm_ok (reg E) ?w2" using realm_ok_balanced [OF sh(1) c pd(1)] .
    have "conn_coin (bt_conn t) = conn_coin c" using pd(5,6) by (simp add: conn_coin_def)
    then have coin: "world_coin ?w2 = world_coin w" using world_put(2) [OF sh(1) c, of "bt_conn t"] by simp
    have items: "world_items q ?w2 + stacks_total q (bt_left t) = world_items q (realm L) + stacks_total q (bag_items g)" for q
      using world_put(1) [OF sh(1) c, of q "bt_conn t"] pd(3) [of q] sh(3) [of q] take_stacks_split(1) [OF tk, of q] b(2) by simp
    have zero: "coin_value coins_ZERO = 0" "purse_ok coins_ZERO"
      by (simp_all add: coin_value_def coins_ZERO_def purse_ok_def has_negative_def fits64_def)
    have g2: "bag_ok i ?g2" using k(2) pd(4) zero by (simp add: bag_ok_def)
    have id: "bag_id g1 = i" using k(2) by (simp add: bag_ok_def)
    have gap: "same_gap (store (realm L)) (store ?w2)" using sh(2) by simp
    have L: "land_ok (reg E) G ?L1" "map_of (lying ?L1) i = Some g1" using k(1) id by (simp_all add: land_keeps_def set_bag_def)
    have "land_keeps (reg E) G ?L1 L'"
      using swap_bag_keeps [OF L g2 w2] gap items coin sh(4) b(2,3) zero out id by (simp add: r1)
    then show ?thesis using land_keeps_trans [OF k(1)] by blast
  qed
qed

text \<open>The pickup puts the one stack into the empty hand.\<close>

lemma hand_takes:
  assumes "inv_wf R iv" "cursor iv = None" "entry_ok e"
  shows "inv_wf R (iv\<lparr>cursor := Some e\<rparr>)" "inv_total q (iv\<lparr>cursor := Some e\<rparr>) = inv_total q iv + units q (item_path e) (ecount e)"
  using assms by (auto simp: inv_wf_iffs cell_ok_def inv_total_def units_def)

lemma pickup_keeps:
  assumes ok: "land_ok (reg E) G L" and res: "pickup E S (who, i) L = (L', out, took)"
  shows "land_keeps (reg E) G L L'"
proof (cases "conn_of who (realm L) = None \<or> map_of (lying L) i = None")
  case True
  then show ?thesis using res ok by (auto simp: pickup_def land_keeps_refl split: option.splits)
next
  case False
  then obtain c g where c: "conn_of who (realm L) = Some c" and g: "map_of (lying L) i = Some g" by auto
  obtain v g1 gm where gate: "loot_gate who g (realm L) = (v, g1, gm)" by (metis surj_pair)
  let ?w = "(realm L)\<lparr>parties := gm\<rparr>"
  let ?L1 = "set_bag g1 (L\<lparr>realm := ?w\<rparr>)"
  note k = gate_keeps [OF ok g gate]
  have r1: "realm ?L1 = ?w" by (simp add: set_bag_def)
  show ?thesis
  proof (cases "v = Inr () \<and> length (bag_items g1) = 1 \<and> bag_coins g1 = coins_ZERO \<and> cursor (inventory c) = None")
    case False
    then have "L' = ?L1" using res c g gate by (auto simp: pickup_def Let_def split: sum.splits if_splits)
    then show ?thesis using k(1) by simp
  next
    case True
    then obtain s where s: "bag_items g1 = [s]" by (cases "bag_items g1") auto
    let ?iv = "(inventory c)\<lparr>cursor := Some (entry (stack_path s) (stack_count s))\<rparr>"
    let ?c = "ledger (now E) (item_event (if creature_name g1 = [] then Pickup else Loot) (stack_path s) (stack_count s)
                (int (stack_count s)) (Some (bag_detail i))) (c\<lparr>inventory := ?iv, inventory_dirty := True\<rparr>)"
    have out: "L' = remove_bag i (?L1\<lparr>realm := put_conn who ?c ?w\<rparr>)"
      using res c g gate True s r1 by (auto simp: pickup_def Let_def)
    have "stack_ok s" using k(2) s by (simp add: bag_ok_def)
    then have e: "entry_ok (entry (stack_path s) (stack_count s))" by (simp add: stack_ok_def entry_ok_def)
    have okc: "conn_ok (reg E) c" using realm_okD(2) [OF _ c] ok by (simp add: land_ok_def)
    note h = hand_takes [OF conn_okD(1) [OF okc] _ e]
    have empty: "cursor (inventory c) = None" using True by blast
    have bal: "balanced (reg E) c ?c" using okc h(1) [OF empty] h(2) [OF empty] by (simp add: books raised_def units_def)
    have c1: "conn_of who ?w = Some c" using c by simp
    note ok2 = realm_ok_balanced [OF k(3) c1 bal] and put = world_put [OF k(3) c1]
    have sums: "conn_items q ?c = conn_items q c + units q (stack_path s) (stack_count s)" "conn_coin ?c = conn_coin c" for q
      using h(2) [OF empty] by (simp_all add: conn_items_def conn_coin_def)
    have L: "land_ok (reg E) G ?L1" "map_of (lying ?L1) i = Some g1"
      using k(1,2) by (simp_all add: land_keeps_def set_bag_def bag_ok_def)
    let ?g2 = "g1\<lparr>bag_items := []\<rparr>"
    have "bag_ok i ?g2" "bag_is_empty ?g2" using k(2) True by (simp_all add: bag_ok_def bag_is_empty_def)
    then have "land_keeps (reg E) G ?L1 (remove_bag i (?L1\<lparr>realm := put_conn who ?c ?w\<rparr>))"
      using swap_bag_keeps(2) [OF L _ ok2, of ?g2] put(1) [of q ?c for q] put(2) [of ?c] sums by (simp add: r1 s)
    then show ?thesis using land_keeps_trans [OF k(1)] out by simp
  qed
qed

end
