(* ===== verification/Mortal.thy ===== *)
theory Mortal
  imports Land
begin

text \<open>
  Death and the corpse run: the corpse holds what the dead carried and its row says the same, and looting it moves everything
  back or leaves memory and database as they were.
\<close>

section \<open>A connection whose stores did not change\<close>

lemma stores_alike_balanced:
  assumes "conn_ok R c" "inventory c' = inventory c" "coins c' = coins c" "bank_coins c' = bank_coins c" "bank_items c' = bank_items c"
    "account_bank_items c' = account_bank_items c" "item_events c' = item_events c" "char_id c' = char_id c" "account_id c' = account_id c"
    "inventory_dirty c \<longrightarrow> inventory_dirty c'" "coins_dirty c \<longrightarrow> coins_dirty c'" "vault_flags c' = vault_flags c"
  shows "balanced R c c'" "conn_items q c' = conn_items q c" "conn_coin c' = conn_coin c"
  using assms
  by (simp_all add: balanced_def flags_follow_def conn_ok_def item_drift_def coin_drift_def conn_items_def conn_coin_def own_queue_def
      raised_def vault_flags_def)

lemma recomputed:
  assumes "recompute_equipped_stats R (c, b) = (r, c', b')"
  obtains h where "c' = c\<lparr>hp := h\<rparr>"
  using recompute_conn [of R c b] assms by auto

lemma hp_same [simp]:
  "conn_items q (c\<lparr>hp := h\<rparr>) = conn_items q c" "conn_coin (c\<lparr>hp := h\<rparr>) = conn_coin c" "vault_flags (c\<lparr>hp := h\<rparr>) = vault_flags c"
  by (simp_all add: conn_items_def conn_coin_def vault_flags_def)

lemma flags_same [simp]:
  "conn_items q (c\<lparr>inventory_dirty := d, coins_dirty := e, item_events := evs\<rparr>) = conn_items q c"
  "conn_coin (c\<lparr>inventory_dirty := d, coins_dirty := e, item_events := evs\<rparr>) = conn_coin c"
  by (simp_all add: conn_items_def conn_coin_def)

text \<open>The vaults of a clean connection do not change under a handler that leaves their flags down.\<close>

lemma vaults_same:
  assumes "balanced R c c'" "\<not> any_store_dirty c" "vault_flags c' = vault_flags c"
  shows "bank_coins c' = bank_coins c" "bank_items c' = bank_items c" "account_bank_items c' = account_bank_items c"
    "char_id c' = char_id c" "account_id c' = account_id c"
  using assms by (auto simp: balanced_def flags_follow_def raised_def vault_flags_def any_store_dirty_def)

text \<open>What a flush leaves of a connection.\<close>

lemma flushed:
  assumes ok: "realm_ok R w" and bd: "realm_bounded w" and res: "flush_one commits k w = (r, w')" and c0: "conn_of k w = Some c0"
  obtains c where "conn_of k w' = Some c" "inventory c = inventory c0" "coins c = coins c0" "r \<Longrightarrow> \<not> any_store_dirty c"
    "r \<Longrightarrow> item_events c = []" "\<And>q. conn_items q c = conn_items q c0" "conn_coin c = conn_coin c0"
proof -
  obtain c' db where p: "persist_dirty_stores commits c0 (store w) = (r, c', db)" "w' = put_conn k c' (w\<lparr>store := db\<rparr>)"
    using res c0 by (auto simp: flush_one_def split: prod.splits)
  have "inventory c' = inventory c0 \<and> coins c' = coins c0 \<and> conn_coin c' = conn_coin c0 \<and> (\<forall>q. conn_items q c' = conn_items q c0)"
    using p(1) by (auto simp: persist_dirty_stores_def conn_items_def conn_coin_def split: if_splits option.splits)
  moreover have "r \<Longrightarrow> \<not> any_store_dirty c' \<and> item_events c' = []" using flush_clean [of commits c0 "store w" c' db] p(1) by simp
  ultimately show thesis using that p(2) by simp
qed

section \<open>One body replaced or removed\<close>

lemma swap_body_keeps:
  assumes ok: "land_ok R G L" and k: "map_of (bodies L) i = Some k" and k': "body_ok i k'" and w: "realm_ok R w"
    "same_gap (store (realm L)) (store w)"
    and items: "\<And>q. world_items q w + stacks_total q (corpse_items k') = world_items q (realm L) + stacks_total q (corpse_items k)"
    and coin: "world_coin w + nat (coin_value (corpse_coins k')) = world_coin (realm L) + nat (coin_value (corpse_coins k))"
    and others: "\<And>j. j \<noteq> i \<Longrightarrow> map_of (corpse_rows gr) (int j) = map_of (corpse_rows (graves L)) (int j)"
  shows "(\<exists>r. map_of (corpse_rows gr) (int i) = Some r \<and> buried G k' r) \<Longrightarrow>
      land_keeps R G L (set_corpse k' (L\<lparr>realm := w, graves := gr\<rparr>))" (is "?here \<Longrightarrow> ?set")
    and "corpse_items k' = [] \<Longrightarrow> corpse_coins k' = coins_ZERO \<Longrightarrow>
      land_keeps R G L (L\<lparr>realm := w, graves := gr, bodies := AList.delete i (bodies L)\<rparr>)" (is "_ \<Longrightarrow> _ \<Longrightarrow> ?del")
proof -
  have d: "distinct (map fst (bodies L))" using ok by (simp add: land_ok_def)
  have id: "corpse_id k' = i" using k' by (simp add: body_ok_def)
  have put: "al_sum f (AList.update i k' (bodies L)) + f k = al_sum f (bodies L) + f k'" for f :: "corpse \<Rightarrow> nat"
    using al_sum_update [OF d, of f i k'] k by simp
  have del: "al_sum f (AList.delete i (bodies L)) + f k = al_sum f (bodies L)" for f :: "corpse \<Rightarrow> nat"
    using al_sum_delete [OF d, of f i] k by simp
  have away: "map_of (lying L) i = None"
  proof (rule ccontr)
    assume "map_of (lying L) i \<noteq> None"
    then obtain g where "map_of (lying L) i = Some g" by blast
    then show False using bag_ok_at [OF ok] k by fastforce
  qed
  {
    assume h: ?here
    have "land_ok R G (set_corpse k' (L\<lparr>realm := w, graves := gr\<rparr>))"
      using ok k k' w(1) id h others away by (auto simp: land_ok_def set_corpse_def split: if_splits)
    moreover have "land_items q (set_corpse k' (L\<lparr>realm := w, graves := gr\<rparr>)) = land_items q L" for q
      using items [of q] put [of "\<lambda>k. stacks_total q (corpse_items k)"] id by (simp add: land_items_def set_corpse_def)
    moreover have "land_coin (set_corpse k' (L\<lparr>realm := w, graves := gr\<rparr>)) = land_coin L"
      using coin put [of "\<lambda>k. nat (coin_value (corpse_coins k))"] id by (simp add: land_coin_def set_corpse_def)
    ultimately show ?set using w(2) by (simp add: land_keeps_def set_corpse_def)
  }
  assume e: "corpse_items k' = []" "corpse_coins k' = coins_ZERO"
  then have z: "stacks_total q (corpse_items k') = 0" "coin_value (corpse_coins k') = 0" for q
    by (simp_all add: coin_value_def coins_ZERO_def)
  have "land_ok R G (L\<lparr>realm := w, graves := gr, bodies := AList.delete i (bodies L)\<rparr>)"
    using ok w(1) others by (auto simp: land_ok_def split: if_splits)
  moreover have "land_items q (L\<lparr>realm := w, graves := gr, bodies := AList.delete i (bodies L)\<rparr>) = land_items q L" for q
    using items [of q] del [of "\<lambda>k. stacks_total q (corpse_items k)"] z by (simp add: land_items_def)
  moreover have "land_coin (L\<lparr>realm := w, graves := gr, bodies := AList.delete i (bodies L)\<rparr>) = land_coin L"
    using coin del [of "\<lambda>k. nat (coin_value (corpse_coins k))"] z by (simp add: land_coin_def)
  ultimately show ?del using w(2) by (simp add: land_keeps_def)
qed

text \<open>The rows of the other corpses stay as they are, and the looted one's follows the take.\<close>

lemma map_of_map_row: "map_of (map (\<lambda>(j, r). (j, if j = i then f r else r)) rs) j = (if j = i then map_option f (map_of rs j) else map_of rs j)"
  by (induction rs) auto

lemma map_of_filter_row: "map_of (filter (\<lambda>(j, _). j \<noteq> i) rs) j = (if j = i then None else map_of rs j)"
  by (induction rs) auto

lemma corpse_loot_rows:
  assumes "apply_corpse_loot commits ch rows wallet (int i) its w gone evs (db, g) = Some (db', g')"
  shows "j \<noteq> i \<Longrightarrow> map_of (corpse_rows g') (int j) = map_of (corpse_rows g) (int j)"
    and "\<not> gone \<Longrightarrow> map_of (corpse_rows g') (int i) = map_option (\<lambda>r. r\<lparr>row_items := its, row_coins := w\<rparr>) (map_of (corpse_rows g) (int i))"
  using assms by (auto simp: apply_corpse_loot_def delete_corpse_def map_of_map_row map_of_filter_row split: if_splits)

section \<open>The corpse run\<close>

text \<open>The take that commits.\<close>

lemma corpse_commit_keeps:
  assumes ok: "land_ok (reg E) G L" and k: "map_of (bodies L) i = Some k"
    and w: "realm_ok (reg E) w" "same_gap (store (realm L)) (store w)" "world_items q0 w = world_items q0 (realm L)"
    and sums: "\<And>q. world_items q w = world_items q (realm L)" "world_coin w = world_coin (realm L)"
    and c: "conn_of who w = Some c" "\<not> any_store_dirty c"
    and c2: "balanced (reg E) c c2" "vault_flags c2 = vault_flags c" "conn_small c2"
    and items: "\<And>q. conn_items q c2 + stacks_total q left = conn_items q c + stacks_total q (corpse_items k)"
    and coin: "conn_coin c2 = conn_coin c + coin_value (corpse_coins k)" and left: "list_all stack_ok left"
    and gone: "gone \<longrightarrow> left = []"
    and tx: "apply_corpse_loot commits (int who) (to_rows (inventory c2)) (coins c2) (int i) (row_stacks left) coins_ZERO gone (item_events c2)
        (store w, graves L) = Some (db, gr)"
  shows "land_keeps (reg E) G L
      (if gone then L\<lparr>realm := put_conn who (c2\<lparr>inventory_dirty := False, coins_dirty := False, item_events := []\<rparr>) (w\<lparr>store := db\<rparr>),
          graves := gr, bodies := AList.delete i (bodies L)\<rparr>
       else set_corpse (k\<lparr>corpse_items := left, corpse_coins := coins_ZERO\<rparr>)
          (L\<lparr>realm := put_conn who (c2\<lparr>inventory_dirty := False, coins_dirty := False, item_events := []\<rparr>) (w\<lparr>store := db\<rparr>), graves := gr\<rparr>))"
proof -
  let ?c3 = "c2\<lparr>inventory_dirty := False, coins_dirty := False, item_events := []\<rparr>"
  let ?w = "put_conn who ?c3 (w\<lparr>store := db\<rparr>)" and ?k = "k\<lparr>corpse_items := left, corpse_coins := coins_ZERO\<rparr>"
  have id: "char_id c = int who" using realm_okD(1) [OF w(1) c(1)] .
  have db: "db = commit_side (char_id c) c2 (store w)" using apply_corpse_loot_shape [OF tx] id by simp
  note ck = commit_keeps_clean [OF realm_okD(3) [OF w(1) c(1)] c(2) c2, folded db]
  have ids: "char_id ?c3 = char_id c" "account_id ?c3 = account_id c" using c2(1) by (simp_all add: balanced_def flags_follow_def)
  have r: "realm_ok (reg E) ?w" using realm_ok_update [OF w(1) c(1) ids ck(3,2)] ck(4) by blast
  have swap: "put_conn who ?c3 (w\<lparr>store := db\<rparr>) = (put_conn who ?c3 w)\<lparr>store := db\<rparr>" by (simp add: put_conn_def)
  have wi: "world_items q ?w + stacks_total q (corpse_items ?k) = world_items q (realm L) + stacks_total q (corpse_items k)" for q
    using world_put(1) [OF w(1) c(1), of q ?c3] items [of q] sums(1) [of q] unfolding swap by simp
  have nn: "0 \<le> conn_coin c" using conn_coin_nonneg realm_okD(2) [OF w(1) c(1)] by blast
  have kp: "body_ok i k" using body_ok_at [OF ok k] by blast
  then have kc: "0 \<le> coin_value (corpse_coins k)" using coin_value_purse by (simp add: body_ok_def)
  have z: "coin_value coins_ZERO = 0" "purse_ok coins_ZERO"
    by (simp_all add: coin_value_def coins_ZERO_def purse_ok_def has_negative_def fits64_def)
  have wc: "world_coin ?w + nat (coin_value (corpse_coins ?k)) = world_coin (realm L) + nat (coin_value (corpse_coins k))"
    using world_put(2) [OF w(1) c(1), of ?c3] coin sums(2) nn kc z unfolding swap by (simp add: nat_sum)
  have kb: "body_ok i ?k" using kp left z by (simp add: body_ok_def)
  have gap: "same_gap (store (realm L)) (store ?w)" using same_gap_trans [OF w(2) ck(1)] by simp
  have rows: "map_of (corpse_rows gr) (int j) = map_of (corpse_rows (graves L)) (int j)" if "j \<noteq> i" for j
    using corpse_loot_rows(1) [OF tx that] .
  note sb = swap_body_keeps [OF ok k kb r gap wi wc rows]
  show ?thesis
  proof (cases gone)
    case True
    then show ?thesis using sb(2) gone by simp
  next
    case False
    obtain r0 where r0: "map_of (corpse_rows (graves L)) (int i) = Some r0" "buried G k r0" using body_ok_at [OF ok k] by blast
    have "map_of (corpse_rows gr) (int i) = Some (r0\<lparr>row_items := row_stacks left, row_coins := coins_ZERO\<rparr>)"
      using corpse_loot_rows(2) [OF tx False] r0(1) by simp
    moreover have "buried G ?k (r0\<lparr>row_items := row_stacks left, row_coins := coins_ZERO\<rparr>)" using r0(2) by (simp add: buried_def)
    ultimately show ?thesis using sb(1) False by auto
  qed
qed

lemma loot_corpse_keeps:
  assumes ok: "land_ok (reg E) G L" and lt: "land_light L" and reg: "reg_ok (reg E)"
    and k: "map_of (bodies L) i = Some k" and res: "loot_corpse E S ans who slot k L = (L', out)"
  shows "land_keeps (reg E) G L L'"
proof -
  have bd: "land_bounded L" using light_bounded [OF lt] .
  have L': "L' = fst (loot_corpse E S ans who slot k L)" using res by simp
  have r: "realm_ok (reg E) (realm L)" using ok by (simp add: land_ok_def)
  have rb: "realm_bounded (realm L)" using land_bounded_realm [OF bd] .
  obtain f w where fl: "flush_one (flush_ok ans) who (realm L) = (f, w)" by (cases "flush_one (flush_ok ans) who (realm L)")
  note fk = flush_one_keeps [OF r rb fl] and fs = flush_one_sums [OF r rb fl]
  have flat: "land_keeps (reg E) G L (L\<lparr>realm := w\<rparr>)"
    using realm_only_keeps [OF ok] fk fs by blast
  show ?thesis
  proof (cases "within_reach LOOT_PICKUP_RANGE (corpse_pos k) who (realm L) \<and> owner_char k = int who")
    case False
    then have "L' = L" using res by (auto simp: loot_corpse_def split: if_splits)
    then show ?thesis using ok by (simp add: land_keeps_refl)
  next
    case go: True
    then obtain c0 where c0: "conn_of who (realm L) = Some c0" by (auto simp: within_reach_def split: option.splits)
    obtain c where c: "conn_of who w = Some c" "inventory c = inventory c0" "coins c = coins c0" "f \<Longrightarrow> \<not> any_store_dirty c"
        "f \<Longrightarrow> item_events c = []" "\<And>q. conn_items q c = conn_items q c0" "conn_coin c = conn_coin c0"
      using flushed [OF r rb fl c0] by blast
    show ?thesis
    proof (cases "f \<and> map_of (figures L) who \<noteq> None")
      case False
      then have "L' = L\<lparr>realm := w\<rparr>" using res go fl c(1) by (auto simp: loot_corpse_def split: option.splits bool.splits)
      then show ?thesis using flat by simp
    next
      case True
      then obtain b where f: f and b: "map_of (figures L) who = Some b" by auto
      have clean: "\<not> any_store_dirty c" "item_events c = []" using c(4,5) f by blast+
      have okw: "realm_ok (reg E) w" "same_gap (store (realm L)) (store w)" using fk by blast+
      have okc: "conn_ok (reg E) c" using realm_okD(2) [OF okw(1) c(1)] .
      have bdc: "coins_bounded c" using bd c0 c(7) by (simp add: land_bounded_def coins_bounded_def)
      have kb: "body_ok i k" using body_ok_at [OF ok k] by blast
      have ki: "corpse_id k = i" "purse_ok (corpse_coins k)" "list_all stack_ok (corpse_items k)" using kb by (simp_all add: body_ok_def)
      have kc: "coin_value (corpse_coins k) \<le> coin_cap" using bd k by (simp add: land_bounded_def)
      define t where "t = take_from_corpse E slot k c"
      note te = take_from_corpse_effect [OF okc bdc reg ki(2) kc ki(3) t_def]
      obtain changed c2 b2 where rc: "(if 0 < tk_worn t
          then (case recompute_equipped_stats (reg E) (tk_conn t, b) of (r, c', b') \<Rightarrow> (any_resource_max_changed r, c', b'))
          else (False, tk_conn t, b)) = (changed, c2, b2)" by (metis surj_pair)
      obtain h where c2: "c2 = (tk_conn t)\<lparr>hp := h\<rparr>"
      proof (cases "0 < tk_worn t")
        case True
        then show ?thesis using rc that by (auto elim!: recomputed split: prod.splits)
      next
        case False
        then have "c2 = (tk_conn t)\<lparr>hp := hp (tk_conn t)\<rparr>" using rc by simp
        then show ?thesis by (rule that)
      qed
      have bal: "balanced (reg E) c c2" using hp_balanced [OF te(1)] c2 by simp
      have vf: "vault_flags c2 = vault_flags c" using te(5) c2 by simp
      define gone where "gone = corpse_emptied_by_loot (had_content k) (tk_left t = [])"
      let ?tx = "apply_corpse_loot (take_ok ans) (int who) (to_rows (inventory c2)) (coins c2) (int i) (row_stacks (tk_left t)) coins_ZERO
          gone (item_events c2) (store w, graves L)"
      show ?thesis
      proof (cases ?tx)
        case (Some dg)
        obtain db gr where dg: "dg = (db, gr)" by (cases dg)
        let ?c3 = "c2\<lparr>inventory_dirty := False, coins_dirty := False, item_events := []\<rparr>"
        let ?fin = "if gone then L\<lparr>realm := put_conn who ?c3 (w\<lparr>store := db\<rparr>), graves := gr, bodies := AList.delete i (bodies L)\<rparr>
            else set_corpse (k\<lparr>corpse_items := tk_left t, corpse_coins := coins_ZERO\<rparr>)
              (L\<lparr>realm := put_conn who ?c3 (w\<lparr>store := db\<rparr>), graves := gr\<rparr>)"
        have out: "L' = put_body who b2 ?fin"
          unfolding L' using go fl f c(1) b rc Some
          by (cases gone) (simp_all add: loot_corpse_def t_def [symmetric] gone_def [symmetric] ki(1) dg Let_def put_body_def set_corpse_def)
        have "conn_items q c2 \<le> land_items q L" for q
        proof -
          have "conn_items q c0 + stacks_total q (corpse_items k) \<le> land_items q L"
            using held_in_land(1) [OF c0, of q] al_sum_at [OF k, of "\<lambda>k. stacks_total q (corpse_items k)"] by (simp add: land_items_def)
          moreover have "conn_items q c2 \<le> conn_items q c0 + stacks_total q (corpse_items k)"
            using te(2) [of q] c(6) [of q] c2 by simp
          ultimately show ?thesis by simp
        qed
        then have small: "conn_small c2" using lt by (intro light_small) (meson land_light_def le_trans light_def)
        have "land_keeps (reg E) G L ?fin"
          by (rule corpse_commit_keeps [OF ok k okw fs(1) fs(1) fs(2) c(1) clean(1) bal vf small])
            (use te(2,3,4) c2 Some dg in \<open>simp_all add: gone_def corpse_emptied_by_loot_def\<close>)
        then show ?thesis by (simp add: out)
      next
        case None
        let ?c3 = "ledger_rollback (ledger_mark c) (c2\<lparr>inventory := inventory c, coins := coins c\<rparr>)"
        obtain c4 b4 where c4: "(if 0 < tk_worn t then snd (recompute_equipped_stats (reg E) (?c3, b2)) else (?c3, b2)) = (c4, b4)"
          by (metis surj_pair)
        obtain h' where h': "c4 = ?c3\<lparr>hp := h'\<rparr>"
        proof (cases "0 < tk_worn t")
          case True
          then have "fst (snd (recompute_equipped_stats (reg E) (?c3, b2))) = c4" using c4 by simp
          then show ?thesis using recompute_conn [of "reg E" ?c3 b2] that by metis
        next
          case False
          then have "c4 = ?c3\<lparr>hp := hp ?c3\<rparr>" using c4 by simp
          then show ?thesis by (rule that)
        qed
        have out: "L' = put_body who b4 (L\<lparr>realm := put_conn who c4 w\<rparr>)"
          unfolding L' using go fl f c(1) b rc None c4
          by (simp add: loot_corpse_def t_def [symmetric] gone_def [symmetric] ki(1) Let_def)
        note vs = vaults_same [OF bal clean(1) vf]
        have flags: "\<not> inventory_dirty c" "\<not> coins_dirty c" using clean(1) by (simp_all add: any_store_dirty_def)
        have c4': "inventory c4 = inventory c" "coins c4 = coins c" "bank_coins c4 = bank_coins c" "bank_items c4 = bank_items c"
          "account_bank_items c4 = account_bank_items c" "item_events c4 = item_events c" "char_id c4 = char_id c" "account_id c4 = account_id c"
          "vault_flags c4 = vault_flags c"
          using vs vf by (simp_all add: h' ledger_rollback_def ledger_mark_def clean(2) vault_flags_def)
        note al = stores_alike_balanced [OF okc c4'(1-8) _ _ c4'(9)]
        have al: "balanced (reg E) c c4" "conn_items q c4 = conn_items q c" "conn_coin c4 = conn_coin c" for q
          using al flags by blast+
        have "realm_ok (reg E) (put_conn who c4 w)" using realm_ok_balanced [OF okw(1) c(1) al(1)] .
        then have "land_keeps (reg E) G L (L\<lparr>realm := put_conn who c4 w\<rparr>)"
          using realm_only_keeps [OF ok, of "put_conn who c4 w"] okw(2) world_put(1) [OF okw(1) c(1), of _ c4] al fs
            world_put(2) [OF okw(1) c(1), of c4] by simp
        then show ?thesis by (simp add: out)
      qed
    qed
  qed
qed

section \<open>Dying\<close>

lemma hp_itself: "\<exists>h. c = c\<lparr>hp := h\<rparr>"
  by (rule exI [of _ "hp c"]) simp

lemma award_conn: "\<exists>h. fst (snd (award_xp n (c, b))) = c\<lparr>hp := h\<rparr>"
proof -
  have "\<exists>h. fst (apply_intrinsic_delta k l (c, b')) = c\<lparr>hp := h\<rparr>" for k l b'
    by (simp add: apply_intrinsic_delta_def Let_def) (rule exI, rule refl)
  then show ?thesis using hp_itself by (auto simp: award_xp_def Let_def case_prod_beta)
qed

lemma penalty_conn: "\<exists>h. fst (snd (apply_death_penalty (c, b))) = c\<lparr>hp := h\<rparr>"
  using hp_itself [of c] award_conn [of _ c] by (simp add: apply_death_penalty_def on_body_def Let_def case_prod_beta)

lemma die_conn: "fst (snd (die (c, b))) = c\<lparr>hp := 0, death_processed := True\<rparr>"
proof -
  obtain h where "fst (snd (apply_death_penalty (c, b))) = c\<lparr>hp := h\<rparr>" using penalty_conn by blast
  then show ?thesis by (simp add: die_def kill_player_def case_prod_beta)
qed

lemma strike_down_keeps:
  assumes ok: "land_ok R G L"
  shows "land_keeps R G L (fst (strike_down S who (L, out)))"
proof (cases "\<exists>c b. conn_of who (realm L) = Some c \<and> map_of (figures L) who = Some b \<and> dies_now c")
  case False
  then have "strike_down S who (L, out) = (L, out)" by (auto simp: strike_down_def split: option.splits)
  then show ?thesis using ok by (simp add: land_keeps_refl)
next
  case True
  then obtain c b where c: "conn_of who (realm L) = Some c" "map_of (figures L) who = Some b" "dies_now c" by blast
  obtain ms c' b' where d: "die (c, b) = (ms, c', b')" by (metis surj_pair)
  have c': "c' = c\<lparr>hp := 0, death_processed := True\<rparr>" using die_conn [of c b] d by simp
  have r: "realm_ok R (realm L)" using ok by (simp add: land_ok_def)
  note al = stores_alike_balanced [OF realm_okD(2) [OF r c(1)], of c']
  have al: "balanced R c c'" "conn_items q c' = conn_items q c" "conn_coin c' = conn_coin c" for q
    using al by (simp_all add: c' vault_flags_def)
  have "land_keeps R G L (L\<lparr>realm := put_conn who c' (realm L)\<rparr>)"
    using realm_only_keeps [OF ok realm_ok_balanced [OF r c(1) al(1)]] world_put(1) [OF r c(1), of _ c'] world_put(2) [OF r c(1), of c'] al
    by simp
  then show ?thesis using c d by (simp add: strike_down_def)
qed

section \<open>What a death leaves\<close>

lemma cell_stacks_ok: "list_all cell_ok cs \<Longrightarrow> (p, n) \<in> set (cell_stacks cs) \<Longrightarrow> p \<noteq> [] \<and> 1 \<le> n \<and> n \<le> u32_max"
  by (induction cs) (auto simp: cell_ok_def entry_ok_def split: option.splits)

lemma corpse_stacks_ok:
  assumes wf: "inv_wf R iv" and mem: "(p, n, v) \<in> set (corpse_stacks iv)"
  shows "p \<noteq> [] \<and> 1 \<le> n \<and> n \<le> u32_max"
proof -
  have cells: "list_all cell_ok (base iv)" "list_all cell_ok [cursor iv]" using wf by (auto simp: inv_wf_iffs list_all_length)
  have inner: "list_all cell_ok arr" if "map_of (bags iv) k = Some arr" for k arr
    using wf that by (auto simp: inv_wf_iffs inner_ok_iff list_all_iff)
  have gear: "entry_ok e" if "(k, e) \<in> set (equipment iv)" for k e
    using wf that by (auto simp: inv_wf_but_def equip_wf_def list_all_iff)
  from mem consider (worn) k e where "(k, e) \<in> set (equipment iv)" "p = item_path e" "n = ecount e"
    | (base) "(p, n) \<in> set (cell_stacks (base iv))" | (hand) "(p, n) \<in> set (cell_stacks [cursor iv])"
    | (bag) k arr where "map_of (bags iv) k = Some arr" "(p, n) \<in> set (cell_stacks arr)"
    unfolding corpse_stacks_def by (auto simp del: cell_stacks_simps(2) split: option.splits)
  then show ?thesis
  proof cases
    case worn
    then show ?thesis using gear by (simp add: entry_ok_def)
  next
    case base
    then show ?thesis by (rule cell_stacks_ok [OF cells(1)])
  next
    case hand
    then show ?thesis by (rule cell_stacks_ok [OF cells(2)])
  next
    case bag
    then show ?thesis using cell_stacks_ok [OF inner] by blast
  qed
qed

lemma ledger_rollback_all: "ledger_rollback (ledger_mark c) (ledger_all t rows c) = c"
  by (simp add: ledger_all_as_update ledger_rollback_mark)

lemma row_stacks_back: "row_stacks (map (\<lambda>(p, n, v). \<lparr>stack_path = p, stack_count = n, worn_slot = v\<rparr>) its) = its"
  by (induction its) (auto simp: row_stacks_def)

lemma made_stacks_total:
  "stacks_total q (map (\<lambda>(p, n, v). \<lparr>stack_path = p, stack_count = n, worn_slot = v\<rparr>) its) = corpse_total q its"
  by (induction its) (auto simp: corpse_total_def grants_total_def)

lemma next_bag_keeps [simp]:
  "land_ok R G L \<Longrightarrow> land_keeps R G L (L\<lparr>next_bag := Suc (next_bag L)\<rparr>)"
  by (auto simp: land_keeps_def land_ok_def land_items_def land_coin_def less_Suc_eq)

text \<open>A new body, with an id nothing else has.\<close>

lemma new_body_keeps:
  assumes ok: "land_ok R G L" and i: "i = next_bag L" and k: "body_ok i k" and w: "realm_ok R w" "same_gap (store (realm L)) (store w)"
    and items: "\<And>q. world_items q w + stacks_total q (corpse_items k) = world_items q (realm L)"
    and coin: "world_coin w + nat (coin_value (corpse_coins k)) = world_coin (realm L)"
    and gr: "corpse_rows gr = (int i, r) # corpse_rows (graves L)" "buried G k r"
  shows "land_keeps R G L (set_corpse k (L\<lparr>next_bag := Suc i, realm := w, graves := gr\<rparr>))"
proof -
  have d: "distinct (map fst (bodies L))" using ok by (simp add: land_ok_def)
  have id: "corpse_id k = i" using k by (simp add: body_ok_def)
  have fresh: "map_of (bodies L) i = None" "map_of (lying L) i = None"
    using body_ok_at [OF ok, of i] bag_ok_at [OF ok, of i] i by (metis less_irrefl not_None_eq)+
  have put: "al_sum f (AList.update i k (bodies L)) = al_sum f (bodies L) + f k" for f :: "corpse \<Rightarrow> nat"
    using al_sum_update [OF d, of f i k] fresh by simp
  have "land_ok R G (set_corpse k (L\<lparr>next_bag := Suc i, realm := w, graves := gr\<rparr>))"
    using ok k w(1) id gr fresh i by (auto simp: land_ok_def set_corpse_def less_Suc_eq split: if_splits)
  moreover have "land_items q (set_corpse k (L\<lparr>next_bag := Suc i, realm := w, graves := gr\<rparr>)) = land_items q L" for q
    using items [of q] put [of "\<lambda>k. stacks_total q (corpse_items k)"] id by (simp add: land_items_def set_corpse_def)
  moreover have "land_coin (set_corpse k (L\<lparr>next_bag := Suc i, realm := w, graves := gr\<rparr>)) = land_coin L"
    using coin put [of "\<lambda>k. nat (coin_value (corpse_coins k))"] id by (simp add: land_coin_def set_corpse_def)
  ultimately show ?thesis using w(2) by (simp add: land_keeps_def set_corpse_def)
qed

lemma clear_small: "rows_small (clear_all iv)"
  by (simp add: clear_all_def rows_small_def small_cell_def list_all_iff)

lemma leave_corpse_keeps:
  assumes ok: "land_ok (reg E) (ground_vec S) L" and bd: "land_bounded L" and res: "leave_corpse E S ans who (L, out) = (L', out')"
  shows "land_keeps (reg E) (ground_vec S) L L'"
proof (cases "conn_of who (realm L) = None \<or> map_of (figures L) who = None")
  case True
  then show ?thesis using res ok by (auto simp: leave_corpse_def land_keeps_refl split: option.splits)
next
  case False
  then obtain c0 b0 where c0: "conn_of who (realm L) = Some c0" and b0: "map_of (figures L) who = Some b0" by auto
  have L': "L' = fst (leave_corpse E S ans who (L, out))" using res by simp
  let ?G = "ground_vec S"
  have r: "realm_ok (reg E) (realm L)" using ok by (simp add: land_ok_def)
  have rb: "realm_bounded (realm L)" using land_bounded_realm [OF bd] .
  obtain f w where fl: "flush_one (flush_ok (ans who)) who (realm L) = (f, w)" by (cases "flush_one (flush_ok (ans who)) who (realm L)")
  note fk = flush_one_keeps [OF r rb fl] and fs = flush_one_sums [OF r rb fl]
  have flat: "land_keeps (reg E) ?G L (L\<lparr>realm := w\<rparr>)" using realm_only_keeps [OF ok] fk fs by blast
  obtain c where c: "conn_of who w = Some c" "inventory c = inventory c0" "coins c = coins c0" "f \<Longrightarrow> \<not> any_store_dirty c"
      "f \<Longrightarrow> item_events c = []" "\<And>q. conn_items q c = conn_items q c0" "conn_coin c = conn_coin c0"
    using flushed [OF r rb fl c0] by blast
  have okw: "realm_ok (reg E) w" "same_gap (store (realm L)) (store w)" using fk by blast+
  show ?thesis
  proof (cases f)
    case False
    then have "L' = put_body who (b0\<lparr>corpse_pending := True\<rparr>) (L\<lparr>realm := w\<rparr>)"
      unfolding L' using c0 b0 fl by (simp add: leave_corpse_def Let_def)
    then show ?thesis using flat by simp
  next
    case f: True
    let ?i = "next_bag L" and ?its = "corpse_stacks (inventory c0)" and ?purse = "coins c0"
    define c1 where "c1 = ledger_all (now E) (death_rows ?i ?its ?purse) c"
    define zone where "zone = (case map_of (zones L) who of None \<Rightarrow> [] | Some z \<Rightarrow> z)"
    define row where "row = \<lparr>row_char = int who, row_owner = cname c0, row_zone = zone, row_pos = pos c0, row_coins = ?purse,
        row_items = ?its, row_lost_xp = death_lost_xp b0, row_resurrected = False\<rparr>"
    let ?b = "b0\<lparr>corpse_pending := False\<rparr>"
    show ?thesis
    proof (cases "save_corpse (take_ok (ans who)) (int ?i) (int who) row (current_progress b0) (item_events c1) (store w, graves L)")
      case None
      have undone: "ledger_rollback (ledger_mark c) c1 = c" by (simp add: c1_def ledger_rollback_all)
      have "L' = put_body who (b0\<lparr>corpse_pending := True\<rparr>) (L\<lparr>next_bag := Suc ?i, realm := put_conn who c w\<rparr>)"
        unfolding L' using c0 b0 fl f c(1) None undone
        by (simp add: leave_corpse_def Let_def mint_bag_id_def c1_def [symmetric] zone_def [symmetric] row_def [symmetric])
      moreover have "put_conn who c w = w"
        using c(1) by (simp add: put_conn_def conn_of_def update_triv)
      moreover have "L\<lparr>next_bag := Suc ?i, realm := w\<rparr> = (L\<lparr>realm := w\<rparr>)\<lparr>next_bag := Suc (next_bag (L\<lparr>realm := w\<rparr>))\<rparr>" by simp
      moreover have "land_keeps (reg E) ?G (L\<lparr>realm := w\<rparr>) ((L\<lparr>realm := w\<rparr>)\<lparr>next_bag := Suc (next_bag (L\<lparr>realm := w\<rparr>))\<rparr>)"
        using next_bag_keeps flat unfolding land_keeps_def by blast
      ultimately show ?thesis using land_keeps_trans [OF flat] by (metis land_keeps_put_body)
    next
      case (Some dg)
      obtain db gr where dg: "dg = (db, gr)" by (cases dg)
      obtain r2 c2 b2 where rc: "recompute_equipped_stats (reg E) (c1\<lparr>inventory := clear_all (inventory c1)\<rparr>, ?b) = (r2, c2, b2)"
        by (metis surj_pair)
      obtain h where c2: "c2 = c1\<lparr>inventory := clear_all (inventory c1), hp := h\<rparr>" using recomputed [OF rc] by metis
      let ?c3 = "c2\<lparr>coins := coins_ZERO, inventory_dirty := False, coins_dirty := False, item_events := []\<rparr>"
      define k where "k = \<lparr>corpse_id = ?i, owner_char = int who, owner_name = cname c0, corpse_zone = zone, corpse_pos = ?G (pos c0),
          corpse_items = map (\<lambda>(p, n, v). \<lparr>stack_path = p, stack_count = n, worn_slot = v\<rparr>) ?its,
          corpse_coins = ?purse, lost_xp = death_lost_xp b0, resurrected = False, corpse_spawned_at = at S\<rparr>"
      have out: "L' = set_corpse k (put_body who b2 (L\<lparr>next_bag := Suc ?i, realm := put_conn who ?c3 (w\<lparr>store := db\<rparr>), graves := gr\<rparr>))"
        unfolding L' using c0 b0 fl f c(1) Some rc
        by (simp add: leave_corpse_def Let_def mint_bag_id_def c1_def [symmetric] zone_def [symmetric] row_def [symmetric] dg k_def)
      have okc: "conn_ok (reg E) c" "char_id c = int who" "accounted c (store w)" using realm_okD [OF okw(1) c(1)] by blast+
      have okc0: "conn_ok (reg E) c0" using realm_okD(2) [OF r c0] .
      have bdc: "coins_bounded c" using bd c0 c(7) by (simp add: land_bounded_def coins_bounded_def)
      let ?c' = "c1\<lparr>inventory := clear_all (inventory c), coins := coins_ZERO, hp := h, inventory_dirty := True, coins_dirty := True\<rparr>"
      have bal: "balanced (reg E) c ?c'" by (rule death_balanced [OF okc(1) bdc]) (simp_all add: c1_def c(2,3))
      have vf: "vault_flags ?c' = vault_flags c" by (simp add: vault_flags_def c1_def ledger_all_simps)
      have inv: "inventory c1 = inventory c" by (simp add: c1_def ledger_all_simps)
      have lc: "light c" using bd c0 c(6) by (simp add: land_bounded_def light_def)
      have small: "conn_small ?c'"
        using light_small [OF lc] by (simp add: conn_small_def clear_small c1_def ledger_all_simps)
      have clean: "\<not> any_store_dirty c" using c(4) f by blast
      have rows: "to_rows (inventory ?c') = []" "coins ?c' = coins_ZERO" "item_events ?c' = item_events c1" by (simp_all add: to_rows_clear)
      have tx: "save_corpse (take_ok (ans who)) (int ?i) (int who) row (current_progress b0) (item_events ?c') (store w, graves L) = Some (db, gr)"
        using Some rows(3) dg by simp
      note shape = save_corpse_shape [OF tx rows(1,2)]
      have db: "db = commit_side (char_id c) ?c' (store w)" using shape okc(2) by simp
      note ck = commit_keeps_clean [OF okc(3) clean bal vf small, folded db]
      have c3: "?c'\<lparr>inventory_dirty := False, coins_dirty := False, item_events := []\<rparr> = ?c3"
        by (rule connection.equality) (simp_all add: c2 inv)
      have ids: "char_id ?c3 = char_id c" "account_id ?c3 = account_id c" using bal by (simp_all add: c2 balanced_def flags_follow_def)
      let ?w = "put_conn who ?c3 (w\<lparr>store := db\<rparr>)"
      have rw: "realm_ok (reg E) ?w" using realm_ok_update [OF okw(1) c(1) ids] ck(2,3,4) unfolding c3 by blast
      have swap: "?w = (put_conn who ?c3 w)\<lparr>store := db\<rparr>" by (simp add: put_conn_def)
      have tot: "corpse_total q ?its = inv_total q (inventory c)" for q
        using corpse_stacks_total [OF conn_okD(1) [OF okc0]] c(2) by simp
      have ci: "conn_items q ?c3 + inv_total q (inventory c) = conn_items q c" for q
        by (simp add: conn_items_def c2 c1_def ledger_all_simps)
      have wi: "world_items q ?w + stacks_total q (corpse_items k) = world_items q (realm L)" for q
        using world_put(1) [OF okw(1) c(1), of q ?c3] ci [of q] tot [of q] fs(1) [of q] unfolding swap by (simp add: k_def made_stacks_total)
      have cc: "conn_coin ?c3 + coin_value ?purse = conn_coin c"
        by (simp add: conn_coin_def c2 c1_def ledger_all_simps c(3) coin_value_def coins_ZERO_def)
      have pos: "0 \<le> coin_value ?purse" "0 \<le> conn_coin ?c3"
        using coin_value_purse conn_okD(4) [OF okc0] conn_coin_nonneg ck(3) unfolding c3 by blast+
      have wc: "world_coin ?w + nat (coin_value (corpse_coins k)) = world_coin (realm L)"
        using world_put(2) [OF okw(1) c(1), of ?c3] cc pos fs(2) unfolding swap by (simp add: k_def)
      have kb: "body_ok ?i k"
        using corpse_stacks_ok [OF conn_okD(1) [OF okc0]] conn_okD(4) [OF okc0]
        by (auto simp: body_ok_def k_def list_all_iff stack_ok_def)
      have bur: "buried ?G k row" by (simp add: buried_def k_def row_def row_stacks_back)
      have gap: "same_gap (store (realm L)) (store ?w)" using same_gap_trans [OF okw(2) ck(1)] by simp
      have "land_keeps (reg E) ?G L (set_corpse k (L\<lparr>next_bag := Suc ?i, realm := ?w, graves := gr\<rparr>))"
        by (rule new_body_keeps [OF ok refl kb rw gap wi wc _ bur]) (use shape in blast)
      moreover have "L' = put_body who b2 (set_corpse k (L\<lparr>next_bag := Suc ?i, realm := ?w, graves := gr\<rparr>))"
        by (simp add: out put_body_def set_corpse_def)
      ultimately show ?thesis by simp
    qed
  qed
qed

end
