(* ===== verification/Dropping.thy ===== *)
theory Dropping
  imports Mortal
begin

text \<open>
  The three passes of a tick's drops: out of the inventories, every dropper saved or put back, a bag for every saved drop.
\<close>

section \<open>Out of the inventories\<close>

definition done_stack :: "done_drop \<Rightarrow> loot_item_stack" where
  "done_stack d = \<lparr>stack_path = dd_path d, stack_count = dd_count d, worn_slot = None\<rparr>"

definition done_total :: "string \<Rightarrow> done_drop list \<Rightarrow> nat" where
  "done_total q ds = stacks_total q (map done_stack ds)"

lemma done_total_simps [simp]:
  "done_total q [] = 0" "done_total q (d # ds) = units q (dd_path d) (dd_count d) + done_total q ds"
  "done_total q (xs @ ys) = done_total q xs + done_total q ys"
  by (simp_all add: done_total_def done_stack_def)

definition of_owner :: "nat \<Rightarrow> done_drop list \<Rightarrow> done_drop list" where
  "of_owner k ds = filter (\<lambda>d. dd_owner d = k) ds"

text \<open>What a removal may have changed, and what puts it back.\<close>

definition thinned :: "connection \<Rightarrow> connection \<Rightarrow> bool" where
  "thinned c0 c \<longleftrightarrow> (\<exists>iv d rows. c = c0\<lparr>inventory := iv, inventory_dirty := d, item_events := item_events c0 @ rows\<rparr>)"

lemma thinned_refl: "thinned c c"
proof -
  have "c = c\<lparr>inventory := inventory c, inventory_dirty := inventory_dirty c, item_events := item_events c @ []\<rparr>" by simp
  then show ?thesis unfolding thinned_def by blast
qed

lemma thinned_more: "thinned c0 c \<Longrightarrow> thinned c0 (ledger t e (c\<lparr>inventory := iv, inventory_dirty := True\<rparr>))"
proof -
  assume "thinned c0 c"
  then obtain iv' d rows where c: "c = c0\<lparr>inventory := iv', inventory_dirty := d, item_events := item_events c0 @ rows\<rparr>"
    by (auto simp: thinned_def)
  have "ledger t e (c\<lparr>inventory := iv, inventory_dirty := True\<rparr>)
      = c0\<lparr>inventory := iv, inventory_dirty := True, item_events := item_events c0 @ (rows @ [e\<lparr>ev_at := t, ev_char := char_id c0\<rparr>])\<rparr>"
    by (simp add: c ledger_def)
  then show ?thesis unfolding thinned_def by blast
qed

lemma thinned_undone:
  assumes "thinned c0 c"
  shows "ledger_rollback (ledger_mark c0) (c\<lparr>inventory := inventory c0, inventory_dirty := inventory_dirty c0\<rparr>) = c0"
proof -
  obtain iv d rows where "c = c0\<lparr>inventory := iv, inventory_dirty := d, item_events := item_events c0 @ rows\<rparr>"
    using assms by (auto simp: thinned_def)
  then show ?thesis by (simp add: ledger_rollback_def ledger_mark_def)
qed

lemma thinned_same:
  assumes "thinned c0 c"
  shows "char_id c = char_id c0" "account_id c = account_id c0" "conn_coin c = conn_coin c0" "pos c = pos c0"
  using assms by (auto simp: thinned_def conn_coin_def)

definition before_of :: "nat \<Rightarrow> connection \<Rightarrow> before_drops" where
  "before_of k c = (k, inventory c, inventory_dirty c, ledger_mark c)"

definition drop_inv :: "registry \<Rightarrow> world \<Rightarrow> drop_run \<Rightarrow> bool" where
  "drop_inv R w0 r \<longleftrightarrow> realm_ok R (r_world r) \<and> store (r_world r) = store w0 \<and> trades (r_world r) = trades w0 \<and> parties (r_world r) = parties w0
     \<and> distinct (map fst (r_before r)) \<and> (\<forall>b\<in>set (r_before r). \<exists>k c0. conn_of k w0 = Some c0 \<and> b = before_of k c0)
     \<and> (\<forall>k. conn_of k w0 = None \<longrightarrow> conn_of k (r_world r) = None)
     \<and> (\<forall>k c0. conn_of k w0 = Some c0 \<longrightarrow> (\<exists>c. conn_of k (r_world r) = Some c \<and> thinned c0 c
          \<and> (\<forall>q. conn_items q c + done_total q (of_owner k (r_done r)) = conn_items q c0) \<and> (k \<notin> set (map fst (r_before r)) \<longrightarrow> c = c0)))
     \<and> list_all (\<lambda>d. stack_ok (done_stack d) \<and> dd_owner d \<in> set (map fst (r_before r))) (r_done r)
     \<and> (\<forall>q. world_items q (r_world r) + done_total q (r_done r) = world_items q w0) \<and> world_coin (r_world r) = world_coin w0"

lemma drop_invD:
  assumes "drop_inv R w0 r"
  shows "realm_ok R (r_world r)" "store (r_world r) = store w0" "distinct (map fst (r_before r))"
    "b \<in> set (r_before r) \<Longrightarrow> \<exists>k c0. conn_of k w0 = Some c0 \<and> b = before_of k c0"
    "conn_of k w0 = Some c0 \<Longrightarrow> \<exists>c. conn_of k (r_world r) = Some c \<and> thinned c0 c
          \<and> (\<forall>q. conn_items q c + done_total q (of_owner k (r_done r)) = conn_items q c0) \<and> (k \<notin> set (map fst (r_before r)) \<longrightarrow> c = c0)"
    "conn_of k (r_world r) = Some c \<Longrightarrow> \<exists>c0. conn_of k w0 = Some c0"
    "list_all (\<lambda>d. stack_ok (done_stack d) \<and> dd_owner d \<in> set (map fst (r_before r))) (r_done r)"
    "world_items q (r_world r) + done_total q (r_done r) = world_items q w0" "world_coin (r_world r) = world_coin w0"
  using assms by (auto simp: drop_inv_def)

lemma drop_inv_ext:
  assumes "drop_inv R w0 r" "r_world r' = r_world r" "r_done r' = r_done r" "r_before r' = r_before r"
  shows "drop_inv R w0 r'"
  using assms by (simp add: drop_inv_def)

text \<open>The snapshot taken on the way does not disturb the invariant.\<close>

lemma drop_inv_quiet:
  assumes inv: "drop_inv R w0 r" and c: "conn_of k (r_world r) = Some c" and same: "r_world r' = r_world r" "r_done r' = r_done r"
    and b: "r_before r' = (if k \<in> set (map fst (r_before r)) then r_before r
              else r_before r @ [(k, inventory c, inventory_dirty c, ledger_mark c)])"
  shows "drop_inv R w0 r'" "k \<in> set (map fst (r_before r'))"
proof -
  note d = drop_invD [OF inv]
  show "k \<in> set (map fst (r_before r'))" by (simp add: b)
  show "drop_inv R w0 r'"
  proof (cases "k \<in> set (map fst (r_before r))")
    case True
    then show ?thesis using drop_inv_ext [OF inv same] b by simp
  next
    case False
    obtain c0 where c0: "conn_of k w0 = Some c0" using d(6) [OF c] by blast
    have "c = c0" using d(5) [OF c0] c False by auto
    then have b': "r_before r' = r_before r @ [before_of k c0]" using False by (simp add: b before_of_def)
    have fs: "set (map fst (r_before r')) = insert k (set (map fst (r_before r)))" by (simp add: b' before_of_def)
    have "distinct (map fst (r_before r'))" using d(3) False by (simp add: b' before_of_def)
    moreover have "\<forall>b\<in>set (r_before r'). \<exists>k c0. conn_of k w0 = Some c0 \<and> b = before_of k c0"
      using d(4) c0 by (auto simp: b')
    moreover have "list_all (\<lambda>d. stack_ok (done_stack d) \<and> dd_owner d \<in> set (map fst (r_before r'))) (r_done r)"
      using d(7) unfolding fs by (simp add: list_all_iff)
    moreover have "\<exists>c. conn_of j (r_world r) = Some c \<and> thinned c1 c
        \<and> (\<forall>q. conn_items q c + done_total q (of_owner j (r_done r)) = conn_items q c1)
        \<and> (j \<notin> insert k (set (map fst (r_before r))) \<longrightarrow> c = c1)" if "conn_of j w0 = Some c1" for j c1
      using d(5) [OF that] by blast
    ultimately show ?thesis using inv unfolding drop_inv_def same fs by blast
  qed
qed

lemma destroyed_stack_ok:
  assumes "inv_wf R iv" "destroy_at R loc slot n iv = Inr ((p, k), iv')"
  shows "p \<noteq> []" "1 \<le> k" "k \<le> u32_max"
proof -
  obtain m where m: "peek_at loc slot iv = Some (p, m)" "k = (if n = 0 \<or> m \<le> n then m else n)" "1 \<le> k"
    using destroy_at_effect [OF assms] by blast
  then have "p \<noteq> [] \<and> m \<le> u32_max"
    using cell_at_entry_ok [OF assms(1)] by (auto simp: peek_at_def cell_pair_def entry_ok_def split: sum.splits option.splits)
  then show "p \<noteq> []" "1 \<le> k" "k \<le> u32_max" using m(2,3) by auto
qed

text \<open>The removal itself.\<close>

lemma drop_inv_goes:
  assumes inv: "drop_inv R w0 r" and c: "conn_of k (r_world r) = Some c" and k: "k \<in> set (map fst (r_before r))"
    and dst: "destroy_at R loc slot n (inventory c) = Inr ((p, m), iv)" and d: "dd_owner d = k" "dd_path d = p" "dd_count d = m"
  shows "drop_inv R w0 (r\<lparr>r_world := put_conn k (ledger t (item_event Drop p m (- int m) x) (c\<lparr>inventory := iv, inventory_dirty := True\<rparr>)) (r_world r),
      r_done := r_done r @ [d]\<rparr>)"
proof -
  let ?w = "r_world r" and ?c = "ledger t (item_event Drop p m (- int m) x) (c\<lparr>inventory := iv, inventory_dirty := True\<rparr>)"
  note dd = drop_invD [OF inv]
  have okc: "conn_ok R c" using realm_okD(2) [OF dd(1) c] .
  have wf: "inv_wf R iv" and tot: "\<And>q. inv_total q iv + units q p m = inv_total q (inventory c)"
    using destroy_at_effect [OF conn_okD(1) [OF okc] dst] by blast+
  have so: "stack_ok (done_stack d)" using destroyed_stack_ok [OF conn_okD(1) [OF okc] dst] d by (simp add: stack_ok_def done_stack_def)
  have rw: "realm_ok R (put_conn k ?c ?w)" by (rule realm_ok_balanced [OF dd(1) c taken_balanced [OF okc wf tot]])
  have ci: "conn_items q ?c + units q p m = conn_items q c" for q using tot [of q] by (simp add: conn_items_def)
  have cc: "conn_coin ?c = conn_coin c" by (simp add: conn_coin_def)
  have items: "world_items q (put_conn k ?c ?w) + done_total q (r_done r @ [d]) = world_items q w0" for q
    using world_put(1) [OF dd(1) c, of q ?c] ci [of q] dd(8) [of q] d by simp
  have coin: "world_coin (put_conn k ?c ?w) = world_coin w0" using world_put(2) [OF dd(1) c, of ?c] cc dd(9) by simp
  have conns: "\<exists>c'. conn_of j (put_conn k ?c ?w) = Some c' \<and> thinned c0 c'
      \<and> (\<forall>q. conn_items q c' + done_total q (of_owner j (r_done r @ [d])) = conn_items q c0)
      \<and> (j \<notin> set (map fst (r_before r)) \<longrightarrow> c' = c0)" if c0: "conn_of j w0 = Some c0" for j c0
  proof (cases "j = k")
    case True
    have th: "thinned c0 c" and old: "conn_items q c + done_total q (of_owner k (r_done r)) = conn_items q c0" for q
      using dd(5) [OF c0] c True by auto
    have "conn_items q ?c + done_total q (of_owner k (r_done r @ [d])) = conn_items q c0" for q
      using ci [of q] old [of q] d by (simp add: of_owner_def)
    then show ?thesis using True thinned_more [OF th] k by simp
  next
    case False
    then show ?thesis using dd(5) [OF c0] d by (simp add: of_owner_def)
  qed
  have "list_all (\<lambda>d. stack_ok (done_stack d) \<and> dd_owner d \<in> set (map fst (r_before r))) (r_done r @ [d])" using dd(7) so k d by simp
  moreover have "\<forall>j. conn_of j w0 = None \<longrightarrow> conn_of j (put_conn k ?c ?w) = None"
    using inv c by (auto simp: drop_inv_def)
  ultimately show ?thesis using rw conns items coin inv unfolding drop_inv_def by simp
qed

lemma drop_take_inv:
  assumes inv: "drop_inv (reg E) w0 r"
  shows "drop_inv (reg E) w0 (drop_take E S i r)"
proof -
  let ?k = "d_owner i" and ?w = "r_world r"
  have quiet: "drop_inv (reg E) w0 (r\<lparr>r_out := x\<rparr>)" for x by (rule drop_inv_ext [OF inv]) simp_all
  show ?thesis
  proof (cases "trade_locked ?k (d_loc i) (d_slot i) (trades ?w)")
    case (Some m)
    then show ?thesis using quiet by (simp add: drop_take_def Let_def)
  next
    case free: None
    show ?thesis
    proof (cases "conn_of ?k ?w")
      case None
      then show ?thesis using free quiet by (simp add: drop_take_def Let_def)
    next
      case c: (Some c)
      show ?thesis
      proof (cases "case peek_at (d_loc i) (d_slot i) (inventory c) of None \<Rightarrow> False | Some (p, _) \<Rightarrow> is_no_drop (reg E) p")
        case True
        then show ?thesis using free c quiet by (simp only: drop_take_def Let_def option.case if_True)
      next
        case loose: False
        define seen where "seen = (case map_of (drops_seen r) ?k of None \<Rightarrow> 0 | Some n \<Rightarrow> n) + 1"
        define r1 where "r1 = r\<lparr>drops_seen := AList.update ?k seen (drops_seen r)\<rparr>"
        define r2 where "r2 = (if ?k \<in> set (map fst (r_before r1)) then r1
            else r1\<lparr>r_before := r_before r1 @ [(?k, inventory c, inventory_dirty c, ledger_mark c)]\<rparr>)"
        have step: "drop_take E S i r = (if MAX_DROPS_PER_TICK < seen then r1 else
            case destroy_at (reg E) (d_loc i) (d_slot i) (d_count i) (inventory c) of
              Inl _ \<Rightarrow> r2
            | Inr ((p, n), iv) \<Rightarrow>
                r2\<lparr>r_world := put_conn ?k (ledger (now E) (item_event Drop p n (- int n) (Some ''ground''))
                                 (c\<lparr>inventory := iv, inventory_dirty := True\<rparr>)) ?w,
                   r_done := r_done r2 @ [\<lparr>dd_owner = ?k, dd_loc = d_loc i, dd_slot = d_slot i, dd_pos = ground_vec S (pos c),
                                          dd_path = p, dd_count = n\<rparr>]\<rparr>)"
          unfolding drop_take_def Let_def free c option.case if_not_P [OF loose] seen_def r1_def r2_def ..
        have q1: "drop_inv (reg E) w0 r1" by (rule drop_inv_ext [OF inv]) (simp_all add: r1_def)
        have q2: "drop_inv (reg E) w0 r2" "?k \<in> set (map fst (r_before r2))"
          by (rule drop_inv_quiet [OF inv c]; simp add: r2_def r1_def)+
        have w2: "r_world r2 = ?w" by (simp add: r2_def r1_def)
        show ?thesis
        proof (cases "MAX_DROPS_PER_TICK < seen")
          case True
          then show ?thesis using step q1 by simp
        next
          case False
          show ?thesis
          proof (cases "destroy_at (reg E) (d_loc i) (d_slot i) (d_count i) (inventory c)")
            case (Inl e)
            then show ?thesis using step False q2 by simp
          next
            case (Inr x)
            obtain p n iv where x: "x = ((p, n), iv)" by (metis surj_pair)
            have c2: "conn_of ?k (r_world r2) = Some c" using c w2 by simp
            show ?thesis using step False Inr x drop_inv_goes [OF q2(1) c2 q2(2)] by (simp add: w2)
          qed
        qed
      qed
    qed
  qed
qed

lemma drop_takes_inv: "drop_inv (reg E) w0 r \<Longrightarrow> drop_inv (reg E) w0 (fold (drop_take E S) is r)"
  by (induction "is" arbitrary: r) (simp_all add: drop_take_inv)

section \<open>Saved, or put back\<close>

text \<open>
  Between two droppers: the ones not yet looked at stand as the first pass left them, and every removal not undone is still owed
  a bag.
\<close>

definition save_inv :: "registry \<Rightarrow> world \<Rightarrow> drop_run \<Rightarrow> nat set \<Rightarrow> world \<Rightarrow> nat list \<Rightarrow> bool" where
  "save_inv R w0 r ks w unsaved \<longleftrightarrow> realm_ok R w \<and> same_gap (store w0) (store w) \<and> realm_bounded w
     \<and> set unsaved \<inter> ks = {}
     \<and> (\<forall>k\<in>ks. conn_of k w = conn_of k (r_world r) \<and> (\<forall>c0. conn_of k w0 = Some c0 \<longrightarrow> accounted c0 (store w)))
     \<and> (\<forall>q. world_items q w + done_total q (filter (\<lambda>d. dd_owner d \<notin> set unsaved) (r_done r)) = world_items q w0)
     \<and> world_coin w = world_coin w0"

lemma save_invD:
  assumes "save_inv R w0 r ks w unsaved"
  shows "realm_ok R w" "same_gap (store w0) (store w)" "realm_bounded w" "set unsaved \<inter> ks = {}"
    "k \<in> ks \<Longrightarrow> conn_of k w = conn_of k (r_world r)" "k \<in> ks \<Longrightarrow> conn_of k w0 = Some c0 \<Longrightarrow> accounted c0 (store w)"
    "world_items q w + done_total q (filter (\<lambda>d. dd_owner d \<notin> set unsaved) (r_done r)) = world_items q w0"
    "world_coin w = world_coin w0"
  using assms by (simp_all add: save_inv_def)

lemma save_inv_less: "save_inv R w0 r ks w unsaved \<Longrightarrow> ks' \<subseteq> ks \<Longrightarrow> save_inv R w0 r ks' w unsaved"
  by (auto simp: save_inv_def)

lemma done_total_split:
  assumes "k \<notin> set unsaved"
  shows "done_total q (filter (\<lambda>d. dd_owner d \<notin> set unsaved) ds)
    = done_total q (filter (\<lambda>d. dd_owner d \<notin> set (unsaved @ [k])) ds) + done_total q (of_owner k ds)"
  using assms by (induction ds) (auto simp: of_owner_def)

lemma save_dropper_inv:
  assumes inv: "save_inv (reg E) w0 r (insert k ks) w unsaved" and run: "drop_inv (reg E) w0 r" and new: "k \<notin> ks"
    and ok0: "realm_ok (reg E) w0" and bd0: "realm_bounded w0" and c0: "conn_of k w0 = Some c0"
    and res: "save_dropper commits (r_done r) (before_of k c0) (w, unsaved, out) = (w', unsaved', out')"
  shows "save_inv (reg E) w0 r ks w' unsaved'"
proof -
  note s = save_invD [OF inv]
  obtain c where c: "conn_of k w = Some c" "thinned c0 c" and ci: "\<And>q. conn_items q c + done_total q (of_owner k (r_done r)) = conn_items q c0"
    using drop_invD(5) [OF run c0] s(5) [of k] by auto
  show ?thesis
  proof (cases "list_ex (\<lambda>d. dd_owner d = k) (r_done r)")
    case False
    then have "w' = w" "unsaved' = unsaved" using res by (simp_all add: save_dropper_def before_of_def)
    then show ?thesis using save_inv_less [OF inv] by blast
  next
    case has: True
    obtain f c' db where p: "persist_dirty_stores (commits k) c (store w) = (f, c', db)" by (metis surj_pair)
    show ?thesis
    proof (cases f)
      case True
      have w': "w' = put_conn k c' (w\<lparr>store := db\<rparr>)" and u: "unsaved' = unsaved"
        using res has c(1) p True by (simp_all add: save_dropper_def before_of_def)
      have fl: "flush_one (commits k) k w = (True, w')" using c(1) p True w' by (simp add: flush_one_def)
      note fk = flush_one_keeps [OF s(1) s(3) fl] and fs = flush_one_sums [OF s(1) s(3) fl]
      have "accounted d (store w')" if j: "j \<in> ks" "conn_of j w0 = Some d" for j d
      proof -
        have "other (char_id c0) (account_id c0) d" by (rule realm_distinct_accounts [OF ok0 j(2) c0]) (use j(1) new in auto)
        then have "other (char_id c) (account_id c) d" using thinned_same [OF c(2)] by simp
        then show ?thesis using flush_frame [OF p] s(6) [of j d] j w' by simp
      qed
      moreover have "conn_of j w' = conn_of j (r_world r)" if "j \<in> ks" for j
        using s(5) [of j] that new fk by (metis insertI2)
      moreover have "same_gap (store w0) (store w')" using same_gap_trans [OF s(2)] fk by blast
      ultimately show ?thesis using fk fs s(4,7,8) unfolding save_inv_def u by simp
    next
      case False
      have same: "c' = c" "db = store w" using p False by (auto simp: persist_dirty_stores_def split: if_splits option.splits)
      have w': "w' = put_conn k c0 w" and u: "unsaved' = unsaved @ [k]"
        using res has c(1) p False thinned_undone [OF c(2)] by (simp_all add: save_dropper_def before_of_def same)
      have okc0: "conn_ok (reg E) c0" using realm_okD(2) [OF ok0 c0] .
      have acc: "accounted c0 (store w)" using s(6) [of k c0] c0 by simp
      have "realm_ok (reg E) (put_conn k c0 (w\<lparr>store := store w\<rparr>))"
        by (rule realm_ok_update [OF s(1) c(1)]) (use thinned_same [OF c(2)] okc0 acc in simp_all)
      then have okw: "realm_ok (reg E) w'" by (simp add: w')
      have "realm_bounded w'" using s(3) bd0 c0 by (auto simp: realm_bounded_def w')
      moreover have "world_items q w' + done_total q (filter (\<lambda>d. dd_owner d \<notin> set unsaved') (r_done r)) = world_items q w0" for q
        using world_put(1) [OF s(1) c(1), of q c0] ci [of q] s(7) [of q] done_total_split [of k unsaved q "r_done r"] s(4)
        by (simp add: w' u)
      moreover have "world_coin w' = world_coin w0"
        using world_put(2) [OF s(1) c(1), of c0] thinned_same(3) [OF c(2)] s(8) by (simp add: w')
      moreover have "\<forall>j\<in>ks. conn_of j w' = conn_of j (r_world r) \<and> (\<forall>d. conn_of j w0 = Some d \<longrightarrow> accounted d (store w'))"
        using s(5,6) new by (auto simp: w')
      ultimately show ?thesis using okw s(2,4) new unfolding save_inv_def by (auto simp: w' u)
    qed
  qed
qed

lemma save_droppers_inv:
  assumes "save_inv (reg E) w0 r (set (map fst bs)) w unsaved" "drop_inv (reg E) w0 r" "distinct (map fst bs)"
    "realm_ok (reg E) w0" "realm_bounded w0" "\<forall>b\<in>set bs. \<exists>k c0. conn_of k w0 = Some c0 \<and> b = before_of k c0"
    "fold (save_dropper commits (r_done r)) bs (w, unsaved, out) = (w', unsaved', out')"
  shows "save_inv (reg E) w0 r {} w' unsaved'"
  using assms
proof (induction bs arbitrary: w unsaved out)
  case (Cons b bs)
  obtain k c0 where b: "conn_of k w0 = Some c0" "b = before_of k c0" using Cons.prems(6) by auto
  obtain w1 u1 o1 where s: "save_dropper commits (r_done r) (before_of k c0) (w, unsaved, out) = (w1, u1, o1)" by (metis surj_pair)
  have fb: "fst b = k" by (simp add: b(2) before_of_def)
  have "save_inv (reg E) w0 r (set (map fst bs)) w1 u1"
    by (rule save_dropper_inv [OF _ Cons.prems(2) _ Cons.prems(4,5) b(1) s]) (use Cons.prems(1,3) fb in simp_all)
  then show ?case using Cons.IH [of w1 u1 o1] Cons.prems s b(2) by simp
qed simp

section \<open>A bag for every saved drop\<close>

lemma drop_bag_keeps:
  assumes ok: "land_ok R G L" and so: "stack_ok (done_stack d)" and res: "drop_bag S d (L, out) = (L', out')"
  shows "land_ok R G L' \<and> realm L' = realm L \<and> (\<forall>q. land_items q L' = land_items q L + units q (dd_path d) (dd_count d)) \<and> land_coin L' = land_coin L"
proof -
  define g where "g = loot_bag_new (next_bag L) (dd_pos d) [done_stack d] coins_ZERO [] None (at S)"
  have L': "L' = L\<lparr>next_bag := Suc (next_bag L), lying := AList.update (next_bag L) g (lying L)\<rparr>"
    using res by (simp add: drop_bag_def Let_def mint_bag_id_def g_def done_stack_def)
  have fresh: "map_of (lying L) (next_bag L) = None" "map_of (bodies L) (next_bag L) = None"
    using bag_ok_at [OF ok, of "next_bag L"] body_ok_at [OF ok, of "next_bag L"] by (metis less_irrefl not_None_eq)+
  have g: "bag_ok (next_bag L) g" "bag_items g = [done_stack d]" "bag_coins g = coins_ZERO"
    using so by (simp_all add: g_def loot_bag_new_def bag_ok_def coins_ZERO_def purse_ok_def has_negative_def fits64_def)
  have dl: "distinct (map fst (lying L))" using ok by (simp add: land_ok_def)
  have put: "al_sum f (AList.update (next_bag L) g (lying L)) = al_sum f (lying L) + f g" for f :: "loot_bag \<Rightarrow> nat"
    using al_sum_update [OF dl, of f "next_bag L" g] fresh by simp
  have "land_ok R G L'" using ok g(1) fresh by (auto simp: land_ok_def L' less_Suc_eq split: if_splits)
  moreover have "land_items q L' = land_items q L + units q (dd_path d) (dd_count d)" for q
    using put [of "\<lambda>g. stacks_total q (bag_items g)"] by (simp add: land_items_def L' g(2) done_stack_def)
  moreover have "land_coin L' = land_coin L"
    using put [of "\<lambda>g. nat (coin_value (bag_coins g))"] by (simp add: land_coin_def L' g(3) coin_value_def coins_ZERO_def)
  ultimately show ?thesis by (simp add: L')
qed

lemma drop_bags_keep:
  assumes "land_ok R G L" "list_all (\<lambda>d. stack_ok (done_stack d)) ds" "fold (drop_bag S) ds (L, out) = (L', out')"
  shows "land_ok R G L' \<and> realm L' = realm L \<and> (\<forall>q. land_items q L' = land_items q L + done_total q ds) \<and> land_coin L' = land_coin L"
  using assms
proof (induction ds arbitrary: L out)
  case (Cons d ds)
  obtain L1 o1 where s: "drop_bag S d (L, out) = (L1, o1)" by (metis surj_pair)
  then have "fold (drop_bag S) ds (L1, o1) = (L', out')" using Cons.prems(3) by simp
  then show ?case using drop_bag_keeps [OF Cons.prems(1) _ s] Cons.IH [of L1 o1] Cons.prems(2) by simp
qed simp

section \<open>The tick's drops\<close>

lemma apply_drops_keeps:
  assumes ok: "land_ok (reg E) G L" and bd: "land_bounded L" and res: "apply_drops E S commits is L = (L', out)"
  shows "land_keeps (reg E) G L L'"
proof -
  let ?r0 = "\<lparr>r_world = realm L, r_before = [], drops_seen = [], r_done = [], r_out = []\<rparr>" and ?w0 = "realm L"
  define r where "r = fold (drop_take E S) is ?r0"
  have ok0: "realm_ok (reg E) ?w0" using ok by (simp add: land_ok_def)
  have bd0: "realm_bounded ?w0" using land_bounded_realm [OF bd] .
  have "drop_inv (reg E) ?w0 ?r0" using ok0 by (auto simp: drop_inv_def thinned_refl of_owner_def)
  then have run: "drop_inv (reg E) ?w0 r" unfolding r_def by (rule drop_takes_inv)
  note rd = drop_invD [OF run]
  obtain w unsaved o1 where sv: "fold (save_dropper commits (r_done r)) (r_before r) (r_world r, [], r_out r) = (w, unsaved, o1)"
    by (metis surj_pair)
  let ?ds = "filter (\<lambda>d. dd_owner d \<notin> set unsaved) (r_done r)"
  have last: "fold (drop_bag S) ?ds (L\<lparr>realm := w\<rparr>, o1) = (L', out)"
    using res unfolding apply_drops_def r_def [symmetric] Let_def sv by simp
  have bdr: "realm_bounded (r_world r)"
    unfolding realm_bounded_def
  proof (intro allI impI)
    fix k c assume c: "conn_of k (r_world r) = Some c"
    then obtain c0 where c0: "conn_of k ?w0 = Some c0" using rd(6) by blast
    then have th: "thinned c0 c" "conn_items q c + done_total q (of_owner k (r_done r)) = conn_items q c0" for q
      using rd(5) [OF c0] c by auto
    have l0: "coins_bounded c0" "light c0" using bd c0 by (simp_all add: land_bounded_def)
    have "conn_items q c \<le> 2147483647" for q using th(2) [of q] l0(2) by (simp add: light_def) (metis le_add1 le_trans)
    then have "light c" by (simp add: light_def)
    then show "coins_bounded c \<and> conn_small c" using l0(1) thinned_same(3) [OF th(1)] light_small by (simp add: coins_bounded_def)
  qed
  have "save_inv (reg E) ?w0 r (set (map fst (r_before r))) (r_world r) []"
    using rd(1,2,8,9) bdr realm_okD(3) [OF ok0] by (simp add: save_inv_def)
  from save_droppers_inv [OF this run rd(3) ok0 bd0 _ sv] have fin: "save_inv (reg E) ?w0 r {} w unsaved" using rd(4) by blast
  note s = save_invD [OF fin]
  have "land_ok (reg E) G (L\<lparr>realm := w\<rparr>)" using ok s(1) by (simp add: land_ok_def)
  moreover have "list_all (\<lambda>d. stack_ok (done_stack d)) ?ds" using rd(7) by (simp add: list_all_iff)
  ultimately have b: "land_ok (reg E) G L' \<and> realm L' = w \<and> (\<forall>q. land_items q L' = land_items q (L\<lparr>realm := w\<rparr>) + done_total q ?ds)
      \<and> land_coin L' = land_coin (L\<lparr>realm := w\<rparr>)"
    using drop_bags_keep [OF _ _ last] by simp
  moreover have "land_items q (L\<lparr>realm := w\<rparr>) + done_total q ?ds = land_items q L" for q
    using s(7) [of q] by (simp add: land_items_def)
  moreover have "land_coin (L\<lparr>realm := w\<rparr>) = land_coin L" using s(8) by (simp add: land_coin_def)
  ultimately show ?thesis using s(2) by (simp add: land_keeps_def)
qed

end
