(* ===== verification/Wake.thy ===== *)
theory Wake
  imports Dropping
begin

text \<open>
  Whole phases of the tick over the land, and what no sequence of them changes: nothing is lost or made by dying, by looting, by
  dropping and picking up, whatever the database answers, and every corpse in memory is one the database would give back.
\<close>

section \<open>A phase keeps what its steps keep\<close>

lemma fold_keeps_land:
  assumes "\<And>x L out L' out'. land_ok R G L \<Longrightarrow> land_light L \<Longrightarrow> f x (L, out) = (L', out') \<Longrightarrow> land_keeps R G L L'"
    and "land_ok R G L" "land_light L" "fold f xs (L, out) = (L', out')"
  shows "land_keeps R G L L'"
  using assms(2-4)
proof (induction xs arbitrary: L out)
  case Nil
  then show ?case by (simp add: land_keeps_refl)
next
  case (Cons x xs)
  obtain L1 o1 where s: "f x (L, out) = (L1, o1)" by (metis surj_pair)
  have k: "land_keeps R G L L1" using assms(1) [OF Cons.prems(1,2) s] .
  then have "land_ok R G L1" by (simp add: land_keeps_def)
  then have "land_keeps R G L1 L'" using Cons.IH [of L1 o1] keeps_light [OF k Cons.prems(2)] Cons.prems(3) s by simp
  then show ?case using land_keeps_trans [OF k] by blast
qed

lemma loot_one_keeps:
  assumes ok: "land_ok (reg E) G L" and lt: "land_light L" and reg: "reg_ok (reg E)"
    and res: "loot_one E S ans i (L, x) = (L', x')"
  shows "land_keeps (reg E) G L L'"
proof -
  obtain out savers where x: "x = (out, savers)" by (cases x)
  show ?thesis
  proof (cases "conn_of (looter i) (realm L) = None")
    case True
    then show ?thesis using res ok by (simp add: loot_one_def x land_keeps_refl)
  next
    case here: False
    show ?thesis
    proof (cases "map_of (bodies L) (target_id i)")
      case (Some k)
      obtain L1 o1 where s: "loot_corpse E S (ans (looter i)) (looter i) (loot_slot i) k L = (L1, o1)" by (metis surj_pair)
      then have "L' = L1" using res here Some by (simp add: loot_one_def x)
      then show ?thesis using loot_corpse_keeps [OF ok lt reg Some s] by simp
    next
      case none: None
      show ?thesis
      proof (cases "map_of (lying L) (target_id i)")
        case None
        then show ?thesis using res here none ok by (simp add: loot_one_def x land_keeps_refl)
      next
        case (Some g)
        obtain L1 o1 took where s: "loot_bag_take E S (looter i) (loot_slot i) g L = (L1, o1, took)" by (metis surj_pair)
        then have "L' = L1" using res here none Some by (simp add: loot_one_def x)
        then show ?thesis using loot_bag_take_keeps [OF ok light_bounded [OF lt] reg Some s] by simp
      qed
    qed
  qed
qed

lemma pickup_one_keeps:
  assumes ok: "land_ok (reg E) G L" and res: "pickup_one E S wb (L, x) = (L', x')"
  shows "land_keeps (reg E) G L L'"
proof -
  obtain out savers where x: "x = (out, savers)" by (cases x)
  obtain who i where wb: "wb = (who, i)" by (cases wb)
  obtain L1 o1 took where s: "pickup E S (who, i) L = (L1, o1, took)" by (metis surj_pair)
  then have "L' = L1" using res by (simp add: pickup_one_def x wb)
  then show ?thesis using pickup_keeps [OF ok s] by simp
qed

lemma save_looter_keeps:
  assumes "land_ok R G L" "land_light L"
  shows "land_keeps R G L (save_looter commits who L)"
proof -
  obtain r w where fl: "flush_one (commits who) who (realm L) = (r, w)" by (cases "flush_one (commits who) who (realm L)")
  have ok: "realm_ok R (realm L)" using assms(1) by (simp add: land_ok_def)
  have rb: "realm_bounded (realm L)" using land_bounded_realm light_bounded assms(2) by blast
  show ?thesis
    using realm_only_keeps [OF assms(1)] flush_one_keeps [OF ok rb fl] flush_one_sums [OF ok rb fl] by (simp add: save_looter_def fl)
qed

lemma save_looters_keep:
  assumes "land_ok R G L" "land_light L"
  shows "land_keeps R G L (fold (save_looter commits) ws L)"
  using assms
proof (induction ws arbitrary: L)
  case Nil
  then show ?case by (simp add: land_keeps_refl)
next
  case (Cons k ws)
  have s: "land_keeps R G L (save_looter commits k L)" by (rule save_looter_keeps [OF Cons.prems])
  then have "land_ok R G (save_looter commits k L)" by (simp add: land_keeps_def)
  from land_keeps_trans [OF s Cons.IH [OF this keeps_light [OF s Cons.prems(2)]]] show ?case by simp
qed

lemma apply_loot_intents_keeps:
  assumes ok: "land_ok (reg E) G L" and lt: "land_light L" and reg: "reg_ok (reg E)"
    and res: "apply_loot_intents E S ans commits is ps L = (L', out)"
  shows "land_keeps (reg E) G L L'"
proof -
  obtain L1 x1 where l1: "fold (loot_one E S ans) is (L, [], []) = (L1, x1)" by (metis surj_pair)
  obtain L2 o2 savers where l2: "fold (pickup_one E S) ps (L1, x1) = (L2, o2, savers)" by (metis surj_pair)
  have k1: "land_keeps (reg E) G L L1" by (rule fold_keeps_land [OF _ ok lt l1]) (rule loot_one_keeps [OF _ _ reg])
  have ok1: "land_ok (reg E) G L1" using k1 by (simp add: land_keeps_def)
  have k2: "land_keeps (reg E) G L1 L2"
    by (rule fold_keeps_land [OF _ ok1 keeps_light [OF k1 lt] l2]) (rule pickup_one_keeps)
  have k12: "land_keeps (reg E) G L L2" by (rule land_keeps_trans [OF k1 k2])
  then have "land_ok (reg E) G L2" by (simp add: land_keeps_def)
  from save_looters_keep [OF this keeps_light [OF k12 lt]] have "land_keeps (reg E) G L2 L'"
    using res l1 l2 by (auto simp: apply_loot_intents_def)
  then show ?thesis by (rule land_keeps_trans [OF k12])
qed

section \<open>The deaths of a tick\<close>

lemma figures_keep [simp]: "land_keeps R G L (L'\<lparr>figures := fs\<rparr>) = land_keeps R G L L'"
  by (simp add: land_keeps_def land_ok_def land_items_def land_coin_def)

lemma run_death_sweep_keeps:
  assumes ok: "land_ok (reg E) (ground_vec S) L" and lt: "land_light L" and res: "run_death_sweep E S ans L = (L', out)"
  shows "land_keeps (reg E) (ground_vec S) L L'"
proof -
  let ?G = "ground_vec S"
  define dying where "dying = map fst (filter (\<lambda>(_, c). dies_now c) (conns (realm L)))"
  obtain L1 o1 where l1: "fold (strike_down S) dying (L, []) = (L1, o1)" by (metis surj_pair)
  have k1: "land_keeps (reg E) ?G L L1"
    by (rule fold_keeps_land [OF _ ok lt l1]) (metis strike_down_keeps fst_conv)
  define L2 where "L2 = (if dying = [] then L1 else L1\<lparr>figures := map (\<lambda>(k, b). (k, clear_player_dots_from dying b)) (figures L1)\<rparr>)"
  have k2: "land_keeps (reg E) ?G L L2" using k1 by (simp add: L2_def)
  then have ok2: "land_ok (reg E) ?G L2" by (simp add: land_keeps_def)
  define pending where
    "pending = filter (\<lambda>k. case map_of (figures L2) k of None \<Rightarrow> False | Some b \<Rightarrow> corpse_pending b) (map fst (conns (realm L2)))"
  have last: "fold (leave_corpse E S ans) pending (L2, o1) = (L', out)"
    using res by (simp add: run_death_sweep_def Let_def dying_def [symmetric] l1 L2_def [symmetric] pending_def)
  have "land_keeps (reg E) ?G L2 L'"
    by (rule fold_keeps_land [OF _ ok2 keeps_light [OF k2 lt] last]) (rule leave_corpse_keeps, assumption, erule light_bounded)
  then show ?thesis by (rule land_keeps_trans [OF k2])
qed

section \<open>Decay\<close>

lemma decays_keep:
  assumes "land_ok R G L" "expire_bags_and_corpses S commits L = (L', out)"
  shows "land_ok R G L' \<and> realm L' = realm L"
proof -
  have bag: "land_ok R G (fst (decay_bag S i (L, out))) \<and> realm (fst (decay_bag S i (L, out))) = realm L" if "land_ok R G L" for i L out
  proof (cases "map_of (lying L) i")
    case (Some g)
    then show ?thesis using that by (auto simp: decay_bag_def remove_bag_def land_ok_def split: if_splits)
  qed (use that in \<open>simp add: decay_bag_def\<close>)
  have body: "land_ok R G (fst (decay_corpse S commits i (L, out))) \<and> realm (fst (decay_corpse S commits i (L, out))) = realm L"
    if "land_ok R G L" for i L out
  proof (cases "map_of (bodies L) i")
    case (Some k)
    then show ?thesis
      using that by (auto simp: decay_corpse_def delete_corpse_def map_of_filter_row land_ok_def split: if_splits)
  qed (use that in \<open>simp add: decay_corpse_def\<close>)
  have both: "land_ok R G (fst (fold f xs acc)) \<and> realm (fst (fold f xs acc)) = realm (fst acc)"
    if "\<And>i L out. land_ok R G L \<Longrightarrow> land_ok R G (fst (f i (L, out))) \<and> realm (fst (f i (L, out))) = realm L" "land_ok R G (fst acc)"
    for f :: "nat \<Rightarrow> land \<times> outbox \<Rightarrow> land \<times> outbox" and xs acc
    using that(2)
  proof (induction xs arbitrary: acc)
    case (Cons i xs)
    have "land_ok R G (fst (f i acc)) \<and> realm (fst (f i acc)) = realm (fst acc)" using that(1) [of "fst acc" i "snd acc"] Cons.prems by simp
    then show ?case using Cons.IH [of "f i acc"] by simp
  qed simp
  let ?bags = "map fst (filter (\<lambda>(_, g). LOOT_BAG_LINGER \<le> at S - bag_spawned_at g) (lying L))"
  let ?mid = "fold (decay_bag S) ?bags (L, [])"
  have m: "land_ok R G (fst ?mid) \<and> realm (fst ?mid) = realm L" using both [of "decay_bag S" "(L, [])" ?bags] bag assms(1) by simp
  then have "land_ok R G (fst (expire_bags_and_corpses S commits L)) \<and> realm (fst (expire_bags_and_corpses S commits L)) = realm L"
    using both [of "decay_corpse S commits" ?mid] body by (simp add: expire_bags_and_corpses_def Let_def)
  then show ?thesis using assms(2) by simp
qed

section \<open>The phases as steps\<close>

text \<open>The phases that only move things about.\<close>

inductive ground_phase :: "env \<Rightarrow> scene \<Rightarrow> land \<Rightarrow> land \<Rightarrow> bool" for E S where
  loots: "apply_loot_intents E S ans commits is ps L = (L', out) \<Longrightarrow> ground_phase E S L L'"
| drops: "apply_drops E S commits ds L = (L', out) \<Longrightarrow> ground_phase E S L L'"
| deaths: "run_death_sweep E S ans L = (L', out) \<Longrightarrow> ground_phase E S L L'"

inductive_cases ground_phaseE: "ground_phase E S L L'"

lemma ground_phase_keeps:
  assumes "ground_phase E S L L'" "land_ok (reg E) (ground_vec S) L" "land_light L" "reg_ok (reg E)"
  shows "land_keeps (reg E) (ground_vec S) L L'"
  using assms
  by (elim ground_phaseE)
    (auto intro: apply_loot_intents_keeps apply_drops_keeps [OF _ light_bounded] run_death_sweep_keeps)

text \<open>With them whatever else a connection does, and decay.\<close>

inductive land_step :: "env \<Rightarrow> scene \<Rightarrow> bool \<Rightarrow> land \<Rightarrow> land \<Rightarrow> bool" for E S where
  phase: "ground_phase E S L L' \<Longrightarrow> land_step E S False L L'"
| decays: "expire_bags_and_corpses S commits L = (L', out) \<Longrightarrow> land_step E S False L L'"
| lives: "realm_step E sp (realm L) w \<Longrightarrow> realm_bounded w \<Longrightarrow> land_step E S sp L (L\<lparr>realm := w, figures := fs\<rparr>)"

inductive_cases land_stepE: "land_step E S sp L L'"

lemma land_step_keeps:
  assumes "land_step E S False L L'" "land_ok (reg E) (ground_vec S) L" "land_light L" "reg_ok (reg E)"
  shows "land_ok (reg E) (ground_vec S) L' \<and> same_gap (store (realm L)) (store (realm L'))"
  using assms(1)
proof (cases rule: land_step.cases)
  case phase
  then show ?thesis using ground_phase_keeps assms(2-4) by (simp add: land_keeps_def)
next
  case (decays commits out)
  then show ?thesis using decays_keep [OF assms(2)] by auto
next
  case (lives w fs)
  have "realm_ok (reg E) (realm L)" using assms(2) by (simp add: land_ok_def)
  then have "realm_ok (reg E) w \<and> same_gap (store (realm L)) (store w)"
    using realm_step_keeps [OF lives(2)] assms(4) land_bounded_realm [OF light_bounded [OF assms(3)]] lives(3) by blast
  then show ?thesis using assms(2) lives(1) by (simp add: land_ok_def)
qed

text \<open>A run of the land while it is light, with the number of splits in it that took a whole filled bag.\<close>

inductive land_run :: "env \<Rightarrow> scene \<Rightarrow> nat \<Rightarrow> land \<Rightarrow> land \<Rightarrow> bool" for E S where
  rests: "land_run E S 0 L L"
| moves: "land_run E S n L M \<Longrightarrow> land_step E S sp M N \<Longrightarrow> land_light M \<Longrightarrow> land_run E S (if sp then Suc n else n) L N"

lemma land_run_keeps:
  assumes "land_run E S n L L'" "n = 0" "land_ok (reg E) (ground_vec S) L" "reg_ok (reg E)"
  shows "land_ok (reg E) (ground_vec S) L' \<and> same_gap (store (realm L)) (store (realm L'))"
  using assms
proof (induction rule: land_run.induct)
  case (moves n L M sp N)
  have "\<not> sp" "n = 0" using moves.prems(1) by (simp_all split: if_splits)
  then have "land_step E S False M N" "land_ok (reg E) (ground_vec S) M \<and> same_gap (store (realm L)) (store (realm M))" using moves by simp_all
  then show ?case using land_step_keeps [of E S M N] moves.hyps(3) moves.prems(3) same_gap_trans by blast
qed simp

lemma ground_phases_keep:
  assumes "(ground_phase E S)\<^sup>*\<^sup>* L L'" "land_ok (reg E) (ground_vec S) L" "land_light L" "reg_ok (reg E)"
  shows "land_keeps (reg E) (ground_vec S) L L'"
  using assms(1)
proof (induction rule: rtranclp_induct)
  case base
  then show ?case using land_keeps_refl assms(2) by blast
next
  case (step a b)
  have "land_ok (reg E) (ground_vec S) a" using step.IH by (simp add: land_keeps_def)
  then have "land_keeps (reg E) (ground_vec S) a b" using ground_phase_keeps step.hyps(2) keeps_light [OF step.IH assms(3)] assms(4) by blast
  then show ?case by (rule land_keeps_trans [OF step.IH])
qed

end
