(* ===== verification/Fate.thy ===== *)
theory Fate
  imports Wake Laws
begin

text \<open>
  What holds of the ground and of death, on any run of the land, and a small land to run the instances on: a sword lying by the
  road and a corpse with its owner beside it.
\<close>

section \<open>A small land\<close>

definition demo_scene :: scene where
  "demo_scene = \<lparr>sees = (\<lambda>_. [1, 2]), everyone = [1, 2], ground_vec = id, at = 90\<rparr>"

definition demo_bag :: loot_bag where
  "demo_bag = loot_bag_new 4 demo_spot [\<lparr>stack_path = ''sword'', stack_count = 1, worn_slot = None\<rparr>] coins_ZERO [] None 80"

definition demo_corpse :: corpse where
  "demo_corpse = \<lparr>corpse_id = 3, owner_char = 1, owner_name = ''Ayla'', corpse_zone = ''vale'', corpse_pos = demo_spot,
     corpse_items = [\<lparr>stack_path = ''ration'', stack_count = 7, worn_slot = None\<rparr>],
     corpse_coins = \<lparr>platinum = 0, gold = 0, silver = 0, copper = 30\<rparr>, lost_xp = 50, resurrected = False, corpse_spawned_at = 70\<rparr>"

definition demo_grave :: corpse_row where
  "demo_grave = \<lparr>row_char = 1, row_owner = ''Ayla'', row_zone = ''vale'', row_pos = demo_spot,
     row_coins = \<lparr>platinum = 0, gold = 0, silver = 0, copper = 30\<rparr>, row_items = [(''ration'', 7, None)], row_lost_xp = 50,
     row_resurrected = False\<rparr>"

definition demo_land :: land where
  "demo_land = \<lparr>realm = demo_world, figures = [(1, demo_body), (2, demo_body)], zones = [(1, ''vale''), (2, ''vale'')],
     lying = [(4, demo_bag)], bodies = [(3, demo_corpse)], next_bag = 5,
     graves = \<lparr>corpse_rows = [(3, demo_grave)], progress_rows = []\<rparr>\<rparr>"

lemma demo_purses: "purse_ok coins_ZERO" "purse_ok \<lparr>platinum = 0, gold = 0, silver = 0, copper = 30\<rparr>"
  by (simp_all add: coins_ZERO_def purse_ok_def has_negative_def fits64_def)

lemma demo_land_ok: "land_ok (reg demo_env) (ground_vec demo_scene) demo_land"
proof -
  have "bag_ok 4 demo_bag" using demo_purses by (simp add: bag_ok_def demo_bag_def loot_bag_new_def stack_ok_def)
  moreover have "body_ok 3 demo_corpse" using demo_purses by (simp add: body_ok_def demo_corpse_def stack_ok_def)
  moreover have "buried id demo_corpse demo_grave" by (simp add: buried_def demo_corpse_def demo_grave_def row_stacks_def)
  ultimately show ?thesis using demo_realm(1) by (simp add: land_ok_def demo_land_def demo_scene_def)
qed

lemma demo_hoards: "conn_items q demo_conn \<le> 25" "conn_items q demo_partner \<le> 25" "conn_coin demo_conn = 10500" "conn_coin demo_partner = 200"
proof -
  have empty: "inv_total q inventory_new = 0" "vault_total q (vault_new n) = 0" for n
    by (simp_all add: inv_total_def inventory_new_def equip_total_def bags_total_def al_sum_def vault_total_def vault_new_def)
  show "conn_items q demo_conn \<le> 25"
    using empty by (simp add: conn_items_def demo_conn_def inv_total_def demo_inventory_def equip_total_def bags_total_def al_sum_def cells_total_def)
  show "conn_items q demo_partner \<le> 25" using empty by (simp add: conn_items_def demo_partner_def demo_conn_def)
  show "conn_coin demo_conn = 10500" "conn_coin demo_partner = 200"
    by (simp_all add: conn_coin_def demo_partner_def demo_conn_def coin_value_def coins_ZERO_def)
qed

lemma demo_land_items: "land_items q demo_land
    = conn_items q demo_conn + conn_items q demo_partner + (if q = ''sword'' then 1 else 0) + (if q = ''ration'' then 7 else 0)"
  by (simp add: land_items_def demo_land_def world_items_def demo_world_def demo_bag_def loot_bag_new_def demo_corpse_def units_def al_sum_def)

lemma demo_land_coin: "land_coin demo_land = 10730"
  using demo_hoards by (simp add: land_coin_def demo_land_def world_coin_def demo_world_def demo_bag_def loot_bag_new_def demo_corpse_def
      coin_value_def coins_ZERO_def al_sum_def)

lemma demo_land_light: "land_light demo_land"
proof -
  have "(if q = ''sword'' then 1 else 0) \<le> (1 :: nat)" "(if q = ''ration'' then 7 else 0) \<le> (7 :: nat)" for q :: string by simp_all
  note kinds = this
  have "land_items q demo_land \<le> 58" for q
    using demo_hoards(1,2) [of q] kinds [of q] unfolding demo_land_items by linarith
  then have "land_items q demo_land \<le> 2147483647" for q by (rule order_trans) simp
  then show ?thesis by (simp add: land_light_def demo_land_coin coin_cap_def)
qed

definition demo_yes :: "nat \<Rightarrow> loot_answers" where
  "demo_yes = (\<lambda>_. \<lparr>flush_ok = True, take_ok = True\<rparr>)"

text \<open>The corpse looted while its save fails, and the sword picked up.\<close>

definition demo_looted :: land where
  "demo_looted = fst (apply_loot_intents demo_env demo_scene demo_yes (\<lambda>_. False) [\<lparr>looter = 1, target_id = 3, loot_slot = None\<rparr>] [(1, 4)] demo_land)"

definition demo_swept :: land where
  "demo_swept = fst (run_death_sweep demo_env demo_scene demo_yes demo_looted)"

lemma demo_phases: "(ground_phase demo_env demo_scene)\<^sup>*\<^sup>* demo_land demo_swept" "land_run demo_env demo_scene 0 demo_land demo_swept"
proof -
  have reg: "reg_ok (reg demo_env)" using demo_reg_ok by simp
  have one: "ground_phase demo_env demo_scene demo_land demo_looted"
    unfolding demo_looted_def
    by (rule ground_phase.loots) (rule prod.collapse [symmetric])
  have two: "ground_phase demo_env demo_scene demo_looted demo_swept"
    unfolding demo_swept_def by (rule ground_phase.deaths) (rule prod.collapse [symmetric])
  show "(ground_phase demo_env demo_scene)\<^sup>*\<^sup>* demo_land demo_swept" using one two by (meson rtranclp.simps)
  have "land_light demo_looted"
    using keeps_light [OF ground_phase_keeps [OF one demo_land_ok demo_land_light reg] demo_land_light] .
  then show "land_run demo_env demo_scene 0 demo_land demo_swept"
    using land_run.moves [OF land_run.moves [OF land_run.rests land_step.phase [OF one] demo_land_light] land_step.phase [OF two]]
    by simp
qed

section \<open>Nothing is lost\<close>

text \<open>C3. Dying, looting corpses and bags, dropping and picking up only move things: over any sequence of these phases, whatever
  the database answers to each flush and transaction, the land holds as many units of every item and as much copper as before,
  what the database holds keeps its distance to the ledger, and every connection's unsaved part is what its queue says.  The land holds
  less than 2^31 units of any one item and at most 2^62 copper in all.\<close>

theorem ground_only_moves_things:
  assumes "(ground_phase E S)\<^sup>*\<^sup>* L L'" "land_ok (reg E) (ground_vec S) L" "land_light L" "reg_ok (reg E)"
  shows "land_items q L' = land_items q L \<and> land_coin L' = land_coin L \<and> same_gap (store (realm L)) (store (realm L'))
    \<and> (\<forall>k c. conn_of k (realm L') = Some c \<longrightarrow> accounted c (store (realm L')))"
proof -
  have "land_keeps (reg E) (ground_vec S) L L'" by (rule ground_phases_keep [OF assms])
  then show ?thesis using realm_okD(3) by (simp add: land_keeps_def land_ok_def) blast
qed

theorem ground_only_moves_things_witness:
  "land_items ''ration'' demo_swept = 30 \<and> land_items ''sword'' demo_swept = 2 \<and> land_coin demo_swept = 10730"
proof -
  have reg: "reg_ok (reg demo_env)" using demo_reg_ok by simp
  have empty: "inv_total q inventory_new = 0" "vault_total q (vault_new n) = 0" for n q
    by (simp_all add: inv_total_def inventory_new_def equip_total_def bags_total_def al_sum_def vault_total_def vault_new_def)
  have "land_items ''ration'' demo_land = 30" "land_items ''sword'' demo_land = 2"
    using empty by (simp_all add: demo_land_items conn_items_def demo_partner_def demo_conn_def)
  then show ?thesis
    using ground_only_moves_things [OF demo_phases(1) demo_land_ok demo_land_light reg] demo_land_coin by simp
qed

text \<open>C6. With everything else the connections do and with decay mixed in, the books still never drift: any run of the land in which no
  split takes a whole filled bag (the one handler that loses units without a row) and which never holds 2^31 units of one item or
  2^62 copper keeps the distance between database and ledger, every connection stays accounted for, and no id names both a bag and a
  corpse.\<close>

theorem ground_keeps_the_books:
  assumes "land_run E S 0 L L'" "land_ok (reg E) (ground_vec S) L" "reg_ok (reg E)"
  shows "same_gap (store (realm L)) (store (realm L')) \<and> (\<forall>k c. conn_of k (realm L') = Some c \<longrightarrow> accounted c (store (realm L')))
    \<and> (\<forall>i. map_of (lying L') i \<noteq> None \<longrightarrow> map_of (bodies L') i = None \<and> i < next_bag L')"
proof -
  have "land_ok (reg E) (ground_vec S) L' \<and> same_gap (store (realm L)) (store (realm L'))" by (rule land_run_keeps [OF assms(1) refl assms(2,3)])
  then show ?thesis using realm_okD(3) bag_ok_at by (fastforce simp: land_ok_def)
qed

theorem ground_keeps_the_books_witness: "same_gap demo_db (store (realm demo_swept))"
proof -
  have "store (realm demo_land) = demo_db" by (simp add: demo_land_def demo_world_def)
  moreover have "reg_ok (reg demo_env)" using demo_reg_ok by simp
  ultimately show ?thesis using ground_keeps_the_books [OF demo_phases(2) demo_land_ok] by simp
qed

section \<open>A crash loses no corpse\<close>

lemma stacks_read_back: "map (\<lambda>(p, n, v). \<lparr>stack_path = p, stack_count = n, worn_slot = v\<rparr>) (row_stacks its) = its"
  by (induction its) (simp_all add: row_stacks_def)

lemma buried_reads_back:
  assumes "buried G k r" "corpse_id k = i"
  shows "load_corpse G t (int i, r) = (i, k\<lparr>corpse_spawned_at := t\<rparr>)"
  using assms stacks_read_back [of "corpse_items k"] by (simp add: buried_def load_corpse_def)

text \<open>C5. A server that stops at any point of a run of the land (the phases, decay and everything else the connections do, no split taking
  a whole filled bag, never 2^31 units of one item or 2^62 copper in the land) and starts again finds every corpse that was in memory:
  its row is in the table under its id and reads back as that corpse, contents, coin, experience and resurrection mark, with a fresh
  linger clock.\<close>

theorem corpses_survive_a_restart:
  assumes "land_run E S 0 L L'" "land_ok (reg E) (ground_vec S) L" "reg_ok (reg E)" "map_of (bodies L') i = Some k"
  shows "\<exists>r. map_of (corpse_rows (graves L')) (int i) = Some r
    \<and> load_corpse (ground_vec S) boot (int i, r) = (i, k\<lparr>corpse_spawned_at := boot\<rparr>)"
proof -
  have "land_ok (reg E) (ground_vec S) L'" using land_run_keeps [OF assms(1) refl assms(2,3)] by blast
  from body_ok_at [OF this assms(4)] obtain r where "map_of (corpse_rows (graves L')) (int i) = Some r" "buried (ground_vec S) k r"
    "corpse_id k = i" by (auto simp: body_ok_def)
  then show ?thesis using buried_reads_back by blast
qed

theorem corpses_survive_a_restart_witness:
  "\<exists>r. map_of (corpse_rows (graves demo_land)) 3 = Some r \<and> load_corpse id 500 (3, r) = (3, demo_corpse\<lparr>corpse_spawned_at := 500\<rparr>)"
proof -
  have run: "land_run demo_env demo_scene 0 demo_land demo_land" by (rule land_run.rests)
  have at: "map_of (bodies demo_land) 3 = Some demo_corpse" by (simp add: demo_land_def)
  have "reg_ok (reg demo_env)" using demo_reg_ok by simp
  from corpses_survive_a_restart [OF run demo_land_ok this at, of 500] show ?thesis by (simp add: demo_scene_def)
qed

section \<open>Death is all or nothing\<close>

text \<open>What a death that goes through leaves, and what one that does not.\<close>

definition stripped :: "nat \<Rightarrow> connection \<Rightarrow> land \<Rightarrow> land \<Rightarrow> bool" where
  "stripped who c0 L L' \<longleftrightarrow> (\<exists>c k. conn_of who (realm L') = Some c \<and> (\<forall>q. inv_total q (inventory c) = 0) \<and> coins c = coins_ZERO
     \<and> \<not> any_store_dirty c \<and> item_events c = [] \<and> map_of (bodies L') (next_bag L) = Some k \<and> owner_char k = int who
     \<and> (\<forall>q. stacks_total q (corpse_items k) = inv_total q (inventory c0)) \<and> corpse_coins k = coins c0
     \<and> \<not> resurrected k)"

definition still_whole :: "nat \<Rightarrow> connection \<Rightarrow> land \<Rightarrow> land \<Rightarrow> bool" where
  "still_whole who c0 L L' \<longleftrightarrow> (\<exists>c b. conn_of who (realm L') = Some c \<and> inventory c = inventory c0 \<and> coins c = coins c0
     \<and> map_of (figures L') who = Some b \<and> corpse_pending b \<and> bodies L' = bodies L \<and> graves L' = graves L)"

lemma figure_put [simp]: "map_of (figures (put_body who b L)) who = Some b"
  by (simp add: put_body_def update_conv')

text \<open>C4. A death takes everything or nothing: if the flush and the corpse transaction both commit, the dead carry nothing and
  nothing of theirs is left to save, and the new corpse holds exactly what they carried; if either is refused they keep it all,
  there is no new corpse in memory or in the table, and the corpse stays pending for the next tick.  The land holds
  less than 2^31 units of any one item and at most 2^62 copper in all.\<close>

theorem death_is_all_or_nothing:
  assumes "land_ok (reg E) G L" "land_light L" "conn_of who (realm L) = Some c0" "map_of (figures L) who = Some b0"
    and "leave_corpse E S ans who (L, out) = (L', out')"
  shows "if (flush_ok (ans who) \<or> \<not> any_store_dirty c0 \<and> item_events c0 = []) \<and> take_ok (ans who)
         then stripped who c0 L L' else still_whole who c0 L L'"
proof -
  have L': "L' = fst (leave_corpse E S ans who (L, out))" using assms(5) by simp
  have r: "realm_ok (reg E) (realm L)" using assms(1) by (simp add: land_ok_def)
  have rb: "realm_bounded (realm L)" using land_bounded_realm light_bounded assms(2) by blast
  have okc: "conn_ok (reg E) c0" using realm_okD(2) [OF r assms(3)] .
  obtain f w where fl: "flush_one (flush_ok (ans who)) who (realm L) = (f, w)" by (cases "flush_one (flush_ok (ans who)) who (realm L)")
  obtain c where c: "conn_of who w = Some c" "inventory c = inventory c0" "coins c = coins c0" "f \<Longrightarrow> \<not> any_store_dirty c"
    using flushed [OF r rb fl assms(3)] by blast
  have f: "f \<longleftrightarrow> flush_ok (ans who) \<or> \<not> any_store_dirty c0 \<and> item_events c0 = []"
    using fl assms(3) by (auto simp: flush_one_def persist_dirty_stores_def save_stores_atomic_def split: if_splits)
  let ?its = "corpse_stacks (inventory c0)"
  have tot: "corpse_total q ?its = inv_total q (inventory c0)" for q
    using corpse_stacks_total [OF conn_okD(1) [OF okc]] by simp
  show ?thesis
  proof (cases f)
    case False
    then have "L' = put_body who (b0\<lparr>corpse_pending := True\<rparr>) (L\<lparr>realm := w\<rparr>)"
      unfolding L' using assms(3,4) fl by (simp add: leave_corpse_def Let_def)
    then have whole: "still_whole who c0 L L'" using c(1-3) by (simp add: still_whole_def)
    have no: "\<not> ((flush_ok (ans who) \<or> \<not> any_store_dirty c0 \<and> item_events c0 = []) \<and> take_ok (ans who))" using False f by blast
    show ?thesis unfolding if_not_P [OF no] by (rule whole)
  next
    case True
    define c1 where "c1 = ledger_all (now E) (death_rows (next_bag L) ?its (coins c0)) c"
    show ?thesis
    proof (cases "take_ok (ans who)")
      case False
      have "ledger_rollback (ledger_mark c) c1 = c" by (simp add: c1_def ledger_rollback_all)
      then have "L' = put_body who (b0\<lparr>corpse_pending := True\<rparr>) (L\<lparr>next_bag := Suc (next_bag L), realm := put_conn who c w\<rparr>)"
        unfolding L' using assms(3,4) fl True c(1) False
        by (simp add: leave_corpse_def Let_def mint_bag_id_def c1_def [symmetric] save_corpse_def)
      then have "still_whole who c0 L L'" using c(2,3) by (simp add: still_whole_def)
      then show ?thesis using False by simp
    next
      case take: True
      obtain r2 c2 b2 where rc: "recompute_equipped_stats (reg E) (c1\<lparr>inventory := clear_all (inventory c1)\<rparr>, b0\<lparr>corpse_pending := False\<rparr>)
          = (r2, c2, b2)" by (metis surj_pair)
      obtain h where c2: "c2 = c1\<lparr>inventory := clear_all (inventory c1), hp := h\<rparr>" using recomputed [OF rc] by metis
      have st: "any_store_dirty (c2\<lparr>coins := coins_ZERO, inventory_dirty := False, coins_dirty := False, item_events := []\<rparr>) = False"
        using c(4) True by (simp add: any_store_dirty_def c2 c1_def ledger_all_simps)
      have inv: "inventory c1 = inventory c" by (simp add: c1_def ledger_all_simps)
      let ?c3 = "c2\<lparr>coins := coins_ZERO, inventory_dirty := False, coins_dirty := False, item_events := []\<rparr>"
      define zone where "zone = (case map_of (zones L) who of None \<Rightarrow> [] | Some z \<Rightarrow> z)"
      define k where "k = \<lparr>corpse_id = next_bag L, owner_char = int who, owner_name = cname c0, corpse_zone = zone,
          corpse_pos = ground_vec S (pos c0), corpse_items = map (\<lambda>(p, n, v). \<lparr>stack_path = p, stack_count = n, worn_slot = v\<rparr>) ?its,
          corpse_coins = coins c0, lost_xp = death_lost_xp b0, resurrected = False, corpse_spawned_at = at S\<rparr>"
      obtain db gr where "L' = set_corpse k (put_body who b2 (L\<lparr>next_bag := Suc (next_bag L), realm := put_conn who ?c3 (w\<lparr>store := db\<rparr>), graves := gr\<rparr>))"
        unfolding L' using assms(3,4) fl True c(1) take rc that
        by (simp add: leave_corpse_def Let_def mint_bag_id_def c1_def [symmetric] zone_def [symmetric] save_corpse_def k_def inv)
      then have out: "conn_of who (realm L') = Some ?c3" "map_of (bodies L') (next_bag L) = Some k"
        by (simp_all add: set_corpse_def k_def put_body_def update_conv')
      have "inv_total q (inventory ?c3) = 0" for q by (simp add: c2)
      moreover have "stacks_total q (corpse_items k) = inv_total q (inventory c0)" for q using tot [of q] by (simp add: k_def made_stacks_total)
      ultimately have "stripped who c0 L L'"
        unfolding stripped_def using out st
        by (intro exI [of _ ?c3] exI [of _ k]) (simp add: k_def)
      then show ?thesis using True take f by (simp only: simp_thms if_True)
    qed
  qed
qed

theorem death_is_all_or_nothing_witness:
  "stripped 1 demo_conn demo_land (fst (leave_corpse demo_env demo_scene demo_yes 1 (demo_land, [])))
    \<and> still_whole 1 demo_conn demo_land (fst (leave_corpse demo_env demo_scene (\<lambda>_. \<lparr>flush_ok = True, take_ok = False\<rparr>) 1 (demo_land, [])))"
proof -
  have at: "conn_of 1 (realm demo_land) = Some demo_conn" "map_of (figures demo_land) 1 = Some demo_body"
    by (simp_all add: demo_land_def demo_world_def conn_of_def)
  have dead: "if (flush_ok (ans 1) \<or> \<not> any_store_dirty demo_conn \<and> item_events demo_conn = []) \<and> take_ok (ans 1)
      then stripped 1 demo_conn demo_land (fst (leave_corpse demo_env demo_scene ans 1 (demo_land, [])))
      else still_whole 1 demo_conn demo_land (fst (leave_corpse demo_env demo_scene ans 1 (demo_land, [])))" for ans
    by (rule death_is_all_or_nothing [OF demo_land_ok demo_land_light at prod.collapse [symmetric]])
  show ?thesis using dead [of demo_yes] dead [of "\<lambda>_. \<lparr>flush_ok = True, take_ok = False\<rparr>"] by (simp add: demo_yes_def)
qed

end
