(* ===== verification/Sight.thy ===== *)
theory Sight
  imports F32Ops Factions
begin

text \<open>
  The area of interest (\<open>world/aoi.rs\<close>): the grid of cells, who is in which, and who sees whom.  A hash set of ids is a list
  without repetition.
\<close>

section \<open>Cells\<close>

text \<open>120.0.\<close>

definition CELL_SIZE :: f32 where "CELL_SIZE = 0x42f00000"

definition f32_trunc :: "f32 \<Rightarrow> f32" where
  "f32_trunc a =
     (if \<not> f32_finite a then a
      else f32_pack (f32_sign a) (round_scaled ((mag_units (f32_mag a) div 2 ^ 149) * 2 ^ 149) 0))"

text \<open>Rust's \<open>%\<close>: exact, with the sign of the dividend.\<close>

definition f32_rem :: "f32 \<Rightarrow> f32 \<Rightarrow> f32" where
  "f32_rem a b =
     (if f32_nan a \<or> f32_nan b \<or> \<not> f32_finite a \<or> f32_mag b = 0 then F32_NAN
      else if \<not> f32_finite b then a
      else f32_pack (f32_sign a) (round_scaled (mag_units (f32_mag a) mod mag_units (f32_mag b)) 0))"

definition f32_div_euclid :: "f32 \<Rightarrow> f32 \<Rightarrow> f32" where
  "f32_div_euclid a b =
     (let q = f32_trunc (f32_div a b) in
      if f32_lt (f32_rem a b) 0 then (if f32_lt 0 b then f32_sub q F32_ONE else f32_add q F32_ONE) else q)"

type_synonym grid_cell = "int \<times> int"

definition cell_for :: "f32 \<Rightarrow> f32 \<Rightarrow> grid_cell" where
  "cell_for x z = (f32_to_i32 (f32_div_euclid x CELL_SIZE), f32_to_i32 (f32_div_euclid z CELL_SIZE))"

text \<open>A cell on the rim of the integers has neighbours that wrap round.\<close>

definition neighbors :: "grid_cell \<Rightarrow> grid_cell list" where
  "neighbors c =
     (case c of (x, z) \<Rightarrow>
        let w = wrap32 (x - 1); e = wrap32 (x + 1); n = wrap32 (z - 1); s = wrap32 (z + 1)
        in [(w, n), (x, n), (e, n), (w, z), (x, z), (e, z), (w, s), (x, s), (e, s)])"

section \<open>The grid\<close>

type_synonym aoi_grid = "(grid_cell \<times> nat list) list"

definition occupants :: "aoi_grid \<Rightarrow> grid_cell \<Rightarrow> nat list" where
  "occupants g c = (case map_of g c of None \<Rightarrow> [] | Some ids \<Rightarrow> ids)"

definition aoi_new :: aoi_grid where "aoi_new = []"

definition aoi_insert :: "nat \<Rightarrow> grid_cell \<Rightarrow> aoi_grid \<Rightarrow> aoi_grid" where
  "aoi_insert i c g = AList.update c (List.insert i (occupants g c)) g"

definition aoi_remove :: "nat \<Rightarrow> grid_cell \<Rightarrow> aoi_grid \<Rightarrow> aoi_grid" where
  "aoi_remove i c g =
     (case map_of g c of
        None \<Rightarrow> g
      | Some ids \<Rightarrow> let rest = removeAll i ids in if rest = [] then AList.delete c g else AList.update c rest g)"

definition aoi_update :: "nat \<Rightarrow> grid_cell \<Rightarrow> grid_cell \<Rightarrow> aoi_grid \<Rightarrow> (grid_cell list \<times> grid_cell list) \<times> aoi_grid" where
  "aoi_update i old new g =
     (if old = new then (([], []), g)
      else ((filter (\<lambda>c. c \<notin> set (neighbors old)) (neighbors new), filter (\<lambda>c. c \<notin> set (neighbors new)) (neighbors old)),
            aoi_insert i new (aoi_remove i old g)))"

definition entities_in_cells :: "aoi_grid \<Rightarrow> grid_cell list \<Rightarrow> nat list" where
  "entities_in_cells g cs = remdups (concat (map (occupants g) cs))"

definition entities_visible_from :: "aoi_grid \<Rightarrow> grid_cell \<Rightarrow> nat list" where
  "entities_visible_from g c = entities_in_cells g (neighbors c)"

definition can_see :: "grid_cell \<Rightarrow> grid_cell \<Rightarrow> bool" where
  "can_see observer target =
     (wrap32 \<bar>wrap32 (fst observer - fst target)\<bar> \<le> 1 \<and> wrap32 \<bar>wrap32 (snd observer - snd target)\<bar> \<le> 1)"

section \<open>The grid against the places it stands for\<close>

text \<open>
  The abstract state is where each entity is.  The three ways the server changes it, and the grid beside it.
\<close>

datatype aoi_op = Enter nat grid_cell | Leave nat | Move nat grid_cell

fun place_op :: "aoi_op \<Rightarrow> (nat \<rightharpoonup> grid_cell) \<Rightarrow> (nat \<rightharpoonup> grid_cell)" where
  "place_op (Enter i c) m = (if m i = None then m(i \<mapsto> c) else m)"
| "place_op (Leave i) m = m(i := None)"
| "place_op (Move i c) m = (if m i = None then m else m(i \<mapsto> c))"

fun grid_op :: "(nat \<rightharpoonup> grid_cell) \<Rightarrow> aoi_op \<Rightarrow> aoi_grid \<Rightarrow> aoi_grid" where
  "grid_op m (Enter i c) g = (if m i = None then aoi_insert i c g else g)"
| "grid_op m (Leave i) g = (case m i of None \<Rightarrow> g | Some c \<Rightarrow> aoi_remove i c g)"
| "grid_op m (Move i c) g = (case m i of None \<Rightarrow> g | Some old \<Rightarrow> snd (aoi_update i old c g))"

definition grid_shows :: "aoi_grid \<Rightarrow> (nat \<rightharpoonup> grid_cell) \<Rightarrow> bool" where
  "grid_shows g m \<longleftrightarrow> distinct (map fst g) \<and> (\<forall>c ids. map_of g c = Some ids \<longrightarrow> ids \<noteq> [])
     \<and> (\<forall>i c. i \<in> set (occupants g c) \<longleftrightarrow> m i = Some c)"

lemma grid_showsD:
  assumes "grid_shows g m"
  shows "distinct (map fst g)" "map_of g c = Some ids \<Longrightarrow> ids \<noteq> []" "i \<in> set (occupants g c) \<longleftrightarrow> m i = Some c"
  using assms unfolding grid_shows_def by blast+

lemma insert_occupants: "set (occupants (aoi_insert i c g) d) = (if d = c then insert i (set (occupants g c)) else set (occupants g d))"
  by (cases "map_of g c") (auto simp: aoi_insert_def occupants_def update_conv')

lemma remove_occupants:
  assumes "distinct (map fst g)"
  shows "set (occupants (aoi_remove i c g) d) = (if d = c then set (occupants g c) - {i} else set (occupants g d))"
proof (cases "map_of g c")
  case (Some ids)
  show ?thesis
  proof (cases "removeAll i ids = []")
    case True
    then have "set ids - {i} = {}" by (metis set_removeAll empty_set)
    then show ?thesis using Some True by (simp add: aoi_remove_def occupants_def delete_conv')
  next
    case False
    then show ?thesis using Some by (simp add: aoi_remove_def occupants_def update_conv' Let_def) blast
  qed
qed (auto simp: aoi_remove_def occupants_def)

lemma insert_shows:
  assumes "grid_shows g m" "m i = None"
  shows "grid_shows (aoi_insert i c g) (m(i \<mapsto> c))"
proof -
  have "distinct (map fst (aoi_insert i c g))" using assms(1) by (simp add: grid_shows_def aoi_insert_def distinct_update)
  moreover have "ids \<noteq> []" if "map_of (aoi_insert i c g) d = Some ids" for d ids
    using that grid_showsD(2) [OF assms(1)] by (auto simp: aoi_insert_def update_conv' List.insert_def split: if_splits)
  moreover have "j \<in> set (occupants (aoi_insert i c g) d) \<longleftrightarrow> (m(i \<mapsto> c)) j = Some d" for j d
    using grid_showsD(3) [OF assms(1)] assms(2) by (auto simp: insert_occupants)
  ultimately show ?thesis unfolding grid_shows_def by blast
qed

lemma remove_shows:
  assumes "grid_shows g m" "m i = Some c"
  shows "grid_shows (aoi_remove i c g) (m(i := None))"
proof -
  have d: "distinct (map fst g)" using grid_showsD(1) [OF assms(1)] .
  have "distinct (map fst (aoi_remove i c g))"
    using d by (auto simp: aoi_remove_def distinct_update distinct_delete Let_def split: option.splits)
  moreover have "ids \<noteq> []" if "map_of (aoi_remove i c g) e = Some ids" for e ids
    using that grid_showsD(2) [OF assms(1)] by (auto simp: aoi_remove_def update_conv' delete_conv' Let_def split: option.splits if_splits)
  moreover have "j \<in> set (occupants (aoi_remove i c g) e) \<longleftrightarrow> (m(i := None)) j = Some e" for j e
    using grid_showsD(3) [OF assms(1)] assms(2) by (auto simp: remove_occupants [OF d])
  ultimately show ?thesis unfolding grid_shows_def by blast
qed

lemma grid_op_shows: "grid_shows g m \<Longrightarrow> grid_shows (grid_op m a g) (place_op a m)"
proof (cases a)
  case (Enter i c)
  then show "grid_shows g m \<Longrightarrow> ?thesis" using insert_shows by simp
next
  case (Leave i)
  assume s: "grid_shows g m"
  show ?thesis
  proof (cases "m i")
    case None
    then have "m(i := None) = m" by auto
    then show ?thesis using s Leave None by simp
  qed (use s Leave remove_shows in simp)
next
  case (Move i c)
  assume s: "grid_shows g m"
  show ?thesis
  proof (cases "m i")
    case (Some old)
    show ?thesis
    proof (cases "old = c")
      case True
      then have "m(i \<mapsto> c) = m" using Some by auto
      then show ?thesis using s Move Some True by (simp add: aoi_update_def)
    next
      case False
      have "grid_shows (aoi_insert i c (aoi_remove i old g)) ((m(i := None))(i \<mapsto> c))"
        by (rule insert_shows [OF remove_shows [OF s Some]]) simp
      then show ?thesis using Move Some False by (simp add: aoi_update_def)
    qed
  qed (use s Move in simp)
qed

fun aoi_run :: "aoi_op list \<Rightarrow> aoi_grid \<times> (nat \<rightharpoonup> grid_cell) \<Rightarrow> aoi_grid \<times> (nat \<rightharpoonup> grid_cell)" where
  "aoi_run [] s = s"
| "aoi_run (a # as) (g, m) = aoi_run as (grid_op m a g, place_op a m)"

lemma aoi_run_shows: "grid_shows g m \<Longrightarrow> aoi_run as (g, m) = (g', m') \<Longrightarrow> grid_shows g' m'"
  by (induction as arbitrary: g m) (auto dest: grid_op_shows)

section \<open>Who is seen\<close>

text \<open>One cell away at most, each way; and the cells whose differences do not wrap.\<close>

definition near :: "grid_cell \<Rightarrow> grid_cell \<Rightarrow> bool" where
  "near c d \<longleftrightarrow> \<bar>fst c - fst d\<bar> \<le> 1 \<and> \<bar>snd c - snd d\<bar> \<le> 1"

definition off_rim :: "grid_cell \<Rightarrow> bool" where
  "off_rim c \<longleftrightarrow> \<bar>fst c\<bar> < 2 ^ 30 \<and> \<bar>snd c\<bar> < 2 ^ 30"

lemma wrap32_cell: "-2147483648 \<le> n \<Longrightarrow> n \<le> 2147483647 \<Longrightarrow> wrap32 n = n"
  by (simp add: wrap32_def)

lemma near_cells: "\<bar>a - b\<bar> \<le> 1 \<longleftrightarrow> b = a - 1 \<or> b = a \<or> b = a + 1" for a b :: int
  by linarith

lemma rim_steps:
  assumes "off_rim (x, z)"
  shows "wrap32 (x - 1) = x - 1" "wrap32 (x + 1) = x + 1" "wrap32 (z - 1) = z - 1" "wrap32 (z + 1) = z + 1"
proof -
  have "\<bar>x\<bar> < 2 ^ 30" "\<bar>z\<bar> < 2 ^ 30" using assms by (simp_all add: off_rim_def)
  then have "- 1073741824 < x" "x < 1073741824" "- 1073741824 < z" "z < 1073741824" by (simp_all add: abs_less_iff)
  then show "wrap32 (x - 1) = x - 1" "wrap32 (x + 1) = x + 1" "wrap32 (z - 1) = z - 1" "wrap32 (z + 1) = z + 1"
    by (auto intro!: wrap32_cell)
qed

lemma neighbors_see: "off_rim c \<Longrightarrow> d \<in> set (neighbors c) \<longleftrightarrow> near c d"
  by (cases c; cases d) (auto simp: neighbors_def near_def rim_steps near_cells Let_def)

lemma rim_gap: "\<bar>a\<bar> < 2 ^ 30 \<Longrightarrow> \<bar>b\<bar> < 2 ^ 30 \<Longrightarrow> wrap32 \<bar>wrap32 (a - b)\<bar> = \<bar>a - b\<bar>" for a b :: int
proof -
  assume "\<bar>a\<bar> < 2 ^ 30" "\<bar>b\<bar> < 2 ^ 30"
  then have g: "\<bar>a - b\<bar> < 2147483648" using abs_triangle_ineq4 [of a b] by simp
  then have "wrap32 (a - b) = a - b" by (intro wrap32_cell) (simp_all add: abs_less_iff)
  moreover have "wrap32 \<bar>a - b\<bar> = \<bar>a - b\<bar>" using g by (intro wrap32_cell) simp_all
  ultimately show ?thesis by simp
qed

lemma can_see_near: "off_rim c \<Longrightarrow> off_rim d \<Longrightarrow> can_see c d \<longleftrightarrow> near c d"
  by (simp add: can_see_def near_def off_rim_def rim_gap)

lemma visible_set: "i \<in> set (entities_visible_from g c) \<longleftrightarrow> (\<exists>d\<in>set (neighbors c). i \<in> set (occupants g d))"
  by (auto simp: entities_visible_from_def entities_in_cells_def)

text \<open>C19. Whatever enters, moves and leaves, in any order, the grid shows an observer exactly the entities that are in the world and
  within one cell of it each way, each once; nobody is shown twice or left behind in a cell it has left.  A move announces exactly
  the cells that come into view and those that leave it, and the server's test of sight is that distance.\<close>

theorem grid_shows_the_neighbourhood:
  assumes "aoi_run as (aoi_new, Map.empty) = (g, m)" "off_rim c" "off_rim c'" "aoi_update j c c' g = ((gained, lost), g')"
  shows "(i \<in> set (entities_visible_from g c) \<longleftrightarrow> (\<exists>d. m i = Some d \<and> near c d)) \<and> distinct (entities_visible_from g c)
    \<and> set gained = {d. near c' d \<and> \<not> near c d} \<and> set lost = {d. near c d \<and> \<not> near c' d}
    \<and> (can_see c c' \<longleftrightarrow> near c c')"
proof -
  have "grid_shows aoi_new Map.empty" by (simp add: grid_shows_def aoi_new_def occupants_def)
  then have s: "grid_shows g m" using aoi_run_shows assms(1) by blast
  have "i \<in> set (entities_visible_from g c) \<longleftrightarrow> (\<exists>d. m i = Some d \<and> near c d)"
    using grid_showsD(3) [OF s] neighbors_see [OF assms(2)] by (auto simp: visible_set)
  moreover have "distinct (entities_visible_from g c)" by (simp add: entities_visible_from_def entities_in_cells_def)
  moreover have "set gained = {d. near c' d \<and> \<not> near c d}" "set lost = {d. near c d \<and> \<not> near c' d}"
    using assms(4) neighbors_see [OF assms(2)] neighbors_see [OF assms(3)] by (auto simp: aoi_update_def split: if_splits)
  ultimately show ?thesis using can_see_near [OF assms(2,3)] by blast
qed

theorem grid_shows_the_neighbourhood_witness:
  "let g = fst (aoi_run [Enter 7 (0, 0), Enter 8 (3, 0), Move 8 (1, 0)] (aoi_new, Map.empty))
   in 8 \<in> set (entities_visible_from g (0, 0)) \<and> 8 \<notin> set (entities_visible_from g (3, 3))"
proof -
  let ?as = "[Enter 7 (0, 0), Enter 8 (3, 0), Move 8 (1, 0)]"
  obtain g m where r: "aoi_run ?as (aoi_new, Map.empty) = (g, m)" by (metis surj_pair)
  then have m: "m 8 = Some (1, 0)" by auto
  have rim: "off_rim (0, 0)" "off_rim (3, 3)" by (simp_all add: off_rim_def)
  have still: "aoi_update 9 c c g = (([], []), g)" for c by (simp add: aoi_update_def)
  show ?thesis
    using grid_shows_the_neighbourhood [OF r rim(1,1) still, of 8] grid_shows_the_neighbourhood [OF r rim(2,2) still, of 8] m r
    by (simp add: near_def Let_def)
qed

end
