(* ===== verification/Upkeep.thy ===== *)
theory Upkeep
  imports Handling F32Mono Town
begin

text \<open>
  What the upkeep of a character promises: hunger and thirst stay between empty and full, hit points, mana and stamina between
  zero and their maxima, natural recovery never takes anything away, and a famished character recovers nothing.
\<close>

section \<open>Numbers in a range\<close>

definition within :: "f32 \<Rightarrow> f32 \<Rightarrow> bool" where
  "within x cap \<longleftrightarrow> f32_nn x \<and> f32_nn cap \<and> f32_le x cap"

lemma withinD: "within x cap \<Longrightarrow> f32_nn x" "within x cap \<Longrightarrow> f32_nn cap" "within x cap \<Longrightarrow> f32_le x cap"
  by (simp_all add: within_def)

lemma within_zero: "f32_nn cap \<Longrightarrow> within 0 cap"
  by (auto simp: within_def f32_nn_def f32_le_val f32_finite_def f32_val_def f32_mag_def F32_INF_def f32_sign_def)

lemma min_within: "\<not> f32_nan x \<Longrightarrow> 0 \<le> f32_key x \<Longrightarrow> f32_nn cap \<Longrightarrow> within (f32_min x cap) cap"
  using f32_nn_below [of x cap] f32_le_refl [of cap] f32_nnD [of cap]
  by (auto simp: within_def f32_min_def f32_lt_def f32_le_def)

lemma nn_key: "f32_nn a \<Longrightarrow> 0 \<le> f32_key a"
  by (simp add: f32_key_sign f32_nn_def)

text \<open>A sum of a number in the range and any addend that is not negative, infinity included.\<close>

lemma add_key_nn:
  assumes "f32_nn a" "\<not> f32_nan x" "0 \<le> f32_key x"
  shows "\<not> f32_nan (f32_add a x)" "0 \<le> f32_key (f32_add a x)" "f32_le a (f32_add a x)"
proof -
  have *: "\<not> f32_nan (f32_add a x) \<and> 0 \<le> f32_key (f32_add a x) \<and> f32_le a (f32_add a x)"
  proof (cases "f32_finite x")
    case True
    then have v: "0 \<le> f32_val x" using assms(3) by (simp add: f32_key_sign)
    note a = f32_nnD [OF assms(1)]
    show ?thesis
      using f32_add_key [OF a(1) True] f32_add_up [OF a(1) True v] nn_key [OF assms(1)] by (simp add: f32_le_def)
  next
    case False
    then have "f32_add a x = x" using f32_nnD [OF assms(1)] assms(2) by (simp add: f32_add_def)
    moreover have "f32_mag a < F32_INF" "f32_mag x = F32_INF" "\<not> f32_sign x"
      using False assms f32_nnD(1) [OF assms(1)] by (auto simp: f32_finite_def f32_nan_def f32_key_def F32_INF_def)
    ultimately show ?thesis using assms f32_nnD(3) [OF assms(1)] by (simp add: f32_le_def f32_key_def)
  qed
  then show "\<not> f32_nan (f32_add a x)" "0 \<le> f32_key (f32_add a x)" "f32_le a (f32_add a x)" by blast+
qed

lemma max0_key: "\<not> f32_nan (f32_max x 0) \<and> 0 \<le> f32_key (f32_max x 0)"
proof -
  have z: "\<not> f32_nan 0" "f32_key 0 = 0" by (simp_all add: f32_nan_def f32_key_def f32_mag_def f32_sign_def F32_INF_def)
  then show ?thesis by (auto simp: f32_max_def f32_lt_def)
qed

lemma floor_le: "f32_nn a \<Longrightarrow> f32_val (f32_floor a) \<le> f32_val a \<and> f32_val a - f32_val (f32_floor a) \<le> 2 ^ 149"
proof -
  assume nn: "f32_nn a"
  define u where "u = mag_units (f32_mag a)"
  have u: "f32_val a = int u" using nn by (auto simp: f32_nn_def f32_val_def u_def)
  note fl = f32_floor_nn [OF nn]
  have fin: "f32_mag a < F32_INF" using nn by (simp add: f32_nn_def f32_finite_def)
  have ex: "mag_units (round_scaled ((u div 2 ^ 149) * 2 ^ 149) 0) = (u div 2 ^ 149) * 2 ^ 149"
    by (rule whole_exact(1) [OF _ fin]) (simp add: u_def)
  have "f32_sign (f32_floor a) \<Longrightarrow> f32_val (f32_floor a) = 0" using f32_nnD(2) [OF fl(3)] by (auto simp: f32_val_def)
  have "f32_val (f32_floor a) = int ((u div 2 ^ 149) * 2 ^ 149)"
  proof (cases "f32_sign a")
    case True
    then have "u = 0" using nn by (auto simp: f32_nn_def f32_val_def u_def)
    then show ?thesis using fl(1) by (simp add: f32_val_def u_def)
  next
    case False
    then show ?thesis using fl(1,2) ex by (simp add: f32_val_def u_def)
  qed
  moreover define k r where "k = (u div 2 ^ 149) * 2 ^ 149" and "r = u mod 2 ^ 149"
  moreover have "k + r = u" by (simp add: k_def r_def)
  moreover have "r \<le> 2 ^ 149" unfolding r_def by (rule order_less_imp_le) simp
  then have "int r \<le> 2 ^ 149" by simp
  ultimately show ?thesis unfolding u k_def [symmetric] by auto
qed

lemma one_val: "f32_nn F32_ONE" "f32_val F32_ONE = 2 ^ 149"
  by (simp_all add: f32_nn_def F32_ONE_def f32_finite_def f32_val_def f32_mag_def F32_INF_def f32_sign_def mag_units_def)

text \<open>What is left in the accumulator after the whole points have flowed.\<close>

lemma fraction_within:
  assumes "f32_nn a"
  shows "within (f32_sub a (f32_floor a)) F32_ONE"
proof -
  let ?f = "f32_floor a"
  note fl = f32_floor_nn(3) [OF assms] and d = floor_le [OF assms]
  note a = f32_nnD [OF assms] and f = f32_nnD [OF fl]
  have key: "f32_key (f32_sub a ?f) = rkey (f32_val a - f32_val ?f) 0" and nan: "\<not> f32_nan (f32_sub a ?f)"
    using f32_add_key [of a "f32_neg ?f"] a f by (simp_all add: f32_sub_def)
  have "rkey 0 0 \<le> f32_key (f32_sub a ?f)" unfolding key by (rule rkey_mono) (use d in simp)
  then have pos: "0 \<le> f32_key (f32_sub a ?f)" by (simp add: rkey_def)
  have "f32_key (f32_sub a ?f) \<le> f32_key F32_ONE"
    unfolding key f32_key_val [OF f32_nnD(1) [OF one_val(1)]] by (rule rkey_mono) (use d one_val in simp)
  then have "f32_le (f32_sub a ?f) F32_ONE" using nan one_val(1) by (simp add: f32_le_def f32_nn_def)
  then show ?thesis using f32_nn_below pos one_val(1) by (simp add: within_def f32_nn_def)
qed

section \<open>One resource\<close>

text \<open>A hundred points a tick is more than any table gives.\<close>

definition A_LOT :: f32 where "A_LOT = 0x42c80000"

lemma regain_within:
  assumes acc: "within acc F32_ONE" and cur: "within cur cap" and amount: "flows \<Longrightarrow> within amount A_LOT"
    and res: "regain flows amount acc cur cap = (acc', cur')"
  shows "within acc' F32_ONE" "within cur' cap" "f32_le cur cur'"
proof -
  have refl: "f32_le cur cur" using withinD(1) [OF cur] by (simp add: f32_le_refl f32_nn_def)
  have *: "within acc' F32_ONE \<and> within cur' cap \<and> f32_le cur cur'"
  proof (cases flows)
    case False
    then show ?thesis using res cur refl within_zero one_val(1) by (auto simp: regain_def)
  next
    case True
    note am = amount [OF True]
    let ?a = "f32_add acc amount"
    have fin: "f32_finite acc" "f32_finite amount" "f32_finite F32_ONE" "f32_finite A_LOT"
      using withinD [OF acc] withinD [OF am] f32_nnD by blast+
    have le: "f32_val acc \<le> 2 ^ 149" "f32_val amount \<le> f32_val A_LOT"
      using withinD(3) [OF acc] withinD(3) [OF am] fin by (simp_all add: f32_le_val one_val)
    have top: "f32_le ?a (f32_add F32_ONE A_LOT)" "f32_finite (f32_add F32_ONE A_LOT)"
    proof -
      show "f32_le ?a (f32_add F32_ONE A_LOT)"
        using le fin by (simp add: f32_le_def f32_add_key rkey_mono one_val)
      show "f32_finite (f32_add F32_ONE A_LOT)" by (simp add: A_LOT_def F32_ONE_def f32_eval)
    qed
    have nnx: "\<not> f32_nan amount" "0 \<le> f32_key amount" using withinD(1) [OF am] nn_key by (simp_all add: f32_nn_def)
    note sum = add_key_nn [OF withinD(1) [OF acc] nnx]
    have a: "f32_nn ?a" by (rule f32_nn_below [OF top sum(2)])
    show ?thesis
    proof (cases "f32_le F32_ONE ?a")
      case False
      then have "f32_le ?a F32_ONE"
        using sum(1) one_val(1) by (auto simp: f32_le_def f32_nn_def)
      then show ?thesis using False True res cur refl a one_val(1) by (auto simp: regain_def within_def)
    next
      case go: True
      note fl = f32_floor_nn(3) [OF a]
      have f: "\<not> f32_nan (f32_floor ?a)" "0 \<le> f32_key (f32_floor ?a)" using fl nn_key by (simp_all add: f32_nn_def)
      note up = add_key_nn [OF withinD(1) [OF cur] f]
      have w: "within (f32_min (f32_add cur (f32_floor ?a)) cap) cap" by (rule min_within [OF up(1,2) withinD(2) [OF cur]])
      have "f32_le cur (f32_min (f32_add cur (f32_floor ?a)) cap)"
        using up(1,3) withinD(3) [OF cur] by (auto simp: f32_min_def f32_nn_def dest: f32_nnD)
      then show ?thesis using go True res w fraction_within [OF a] by (auto simp: regain_def Let_def)
    qed
  qed
  then show "within acc' F32_ONE" "within cur' cap" "f32_le cur cur'" by blast+
qed

text \<open>The rates are within a hundred.\<close>

lemma of_int_within: "0 \<le> n \<Longrightarrow> n \<le> 100 \<Longrightarrow> within (f32_of_int n) A_LOT"
proof -
  assume n: "0 \<le> n" "n \<le> 100"
  have top: "f32_of_int 100 = A_LOT" "f32_nn A_LOT"
    by (simp_all add: A_LOT_def f32_nn_def f32_eval)
  show ?thesis using f32_of_int_mono [OF n] f32_of_int_nn [OF n] top by (simp add: within_def f32_nn_def)
qed

lemma scaled_within:
  assumes "within r A_LOT" "f32_nn s" "f32_val s \<le> 2 ^ 149"
  shows "within (f32_mul r s) A_LOT"
proof -
  have le: "f32_le (f32_mul r s) r" using f32_mul_shrink withinD(1) [OF assms(1)] assms(2,3) by (simp add: f32_nn_def)
  have "f32_le (f32_mul r s) A_LOT" using f32_le_trans [OF le withinD(3) [OF assms(1)]] .
  moreover have "0 \<le> f32_key (f32_mul r s)" by (rule f32_mul_nn_key [OF withinD(1) [OF assms(1)] assms(2)])
  moreover note withinD(2) [OF assms(1)]
  ultimately show ?thesis using f32_nn_below by (simp add: within_def f32_nn_def)
qed

lemma hp_rate_within: "within (hp_regen_per_tick l sitting troll) A_LOT"
  by (simp add: hp_regen_per_tick_def hp_regen_pair_def of_int_within)

lemma mp_rate_within: "m \<le> 252 \<Longrightarrow> within (mp_regen_per_tick sitting m) A_LOT"
proof -
  assume "m \<le> 252"
  then have "max 0 m div 12 \<le> 252 div 12" by (intro zdiv_mono1) simp_all
  moreover have "0 \<le> max 0 m div 12" by simp
  moreover have "F32_ONE = f32_of_int 1" by (simp add: F32_ONE_def f32_eval)
  ultimately show ?thesis using of_int_within [of 1] of_int_within [of "2 + max 0 m div 12"] by (simp add: mp_regen_per_tick_def)
qed

lemma load_cases: "snd (load_for_conn R cb) \<in> {0, ENCUMBERED_ST_REGEN_MULT, F32_ONE}"
  by (simp add: load_for_conn_def stamina_regen_mult_def Let_def)

lemma st_rates: "f32_mul STAMINA_REGEN_PER_TICK 0 = f32_of_int 0"
    "f32_mul STAMINA_REGEN_PER_TICK ENCUMBERED_ST_REGEN_MULT = f32_of_int 5" "f32_mul STAMINA_REGEN_PER_TICK F32_ONE = f32_of_int 10"
  by (simp_all add: STAMINA_REGEN_PER_TICK_def ENCUMBERED_ST_REGEN_MULT_def F32_ONE_def f32_eval)

lemma st_rate_within: "l \<in> {0, ENCUMBERED_ST_REGEN_MULT, F32_ONE} \<Longrightarrow> within (f32_mul STAMINA_REGEN_PER_TICK l) A_LOT"
  using st_rates of_int_within [of 0] of_int_within [of 5] of_int_within [of 10] by auto

section \<open>A turn of the regeneration pass\<close>

text \<open>Everything of a character that upkeep moves is in its range.\<close>

definition vitals_ok :: "connection \<times> body \<Rightarrow> bool" where
  "vitals_ok cb \<longleftrightarrow> within (hunger_secs (snd cb)) FULLNESS_CAP_SECS \<and> within (thirst_secs (snd cb)) FULLNESS_CAP_SECS
     \<and> within (hp (fst cb)) (max_hp (snd cb)) \<and> within (mp (snd cb)) (max_mp (snd cb)) \<and> within (stamina (snd cb)) (max_stamina (snd cb))
     \<and> within (regen_hp_acc (snd cb)) F32_ONE \<and> within (regen_mp_acc (snd cb)) F32_ONE \<and> within (regen_stamina_acc (snd cb)) F32_ONE"

text \<open>Nothing fell and no maximum moved.\<close>

definition recovered :: "connection \<times> body \<Rightarrow> connection \<times> body \<Rightarrow> bool" where
  "recovered cb cb' \<longleftrightarrow> f32_le (hp (fst cb)) (hp (fst cb')) \<and> f32_le (mp (snd cb)) (mp (snd cb'))
     \<and> f32_le (stamina (snd cb)) (stamina (snd cb')) \<and> max_hp (snd cb') = max_hp (snd cb) \<and> max_mp (snd cb') = max_mp (snd cb)
     \<and> max_stamina (snd cb') = max_stamina (snd cb)"

definition meditate_score :: "body \<Rightarrow> int" where
  "meditate_score b = (case map_of (casting_skills b) ''meditate'' of None \<Rightarrow> 0 | Some s \<Rightarrow> s)"

definition short_tick :: "f32 \<Rightarrow> bool" where
  "short_tick dt \<longleftrightarrow> within dt F32_ONE"

lemma cap_nn: "f32_nn FULLNESS_CAP_SECS"
  by (simp add: FULLNESS_CAP_SECS_def f32_nn_def f32_finite_def f32_val_def f32_mag_def F32_INF_def f32_sign_def)

lemma scale_ok:
  assumes "short_tick dt"
  shows "f32_nn (f32_div dt CLIENT_TICK_INTERVAL_SECS)" "f32_val (f32_div dt CLIENT_TICK_INTERVAL_SECS) \<le> 2 ^ 149"
proof -
  have six: "f32_nn CLIENT_TICK_INTERVAL_SECS" "f32_val CLIENT_TICK_INTERVAL_SECS = 6 * 2 ^ 149"
    by (simp_all add: CLIENT_TICK_INTERVAL_SECS_def f32_nn_def f32_finite_def f32_val_def f32_mag_def F32_INF_def f32_sign_def mag_units_def)
  have dt: "f32_nn dt" "f32_val dt \<le> 2 ^ 149"
    using assms one_val f32_le_val [of dt F32_ONE] by (auto simp: short_tick_def within_def f32_nn_def)
  have "f32_val dt \<le> f32_val CLIENT_TICK_INTERVAL_SECS" "0 < f32_val CLIENT_TICK_INTERVAL_SECS"
    using dt(2) unfolding six(2) by simp_all
  from f32_div_le_one [OF dt(1) six(1) this]
  show "f32_nn (f32_div dt CLIENT_TICK_INTERVAL_SECS)" "f32_val (f32_div dt CLIENT_TICK_INTERVAL_SECS) \<le> 2 ^ 149" by blast+
qed

lemma regen_resources_ok:
  assumes v: "vitals_ok (c, b)" and dt: "short_tick dt" and m: "meditate_score b \<le> 252"
  shows "vitals_ok (regen_resources R dt t (c, b)) \<and> recovered (c, b) (regen_resources R dt t (c, b))"
proof -
  let ?s = "f32_div dt CLIENT_TICK_INTERVAL_SECS"
  note sc = scale_ok [OF dt]
  have med: "(case map_of (casting_skills b) ''meditate'' of None \<Rightarrow> 0 | Some s \<Rightarrow> s) \<le> 252" using m by (simp add: meditate_score_def)
  define fh where "fh \<longleftrightarrow> pos32 (hp c) \<and> f32_lt (hp c) (max_hp b) \<and> \<not> is_lich_form_active (active_buffs b) \<and> pos32 (hunger_secs b)"
  define rh where "rh = f32_mul (hp_regen_per_tick (clevel b) (sitting_bonus_applies t b) (race c = ''Troll'')) ?s"
  define fm where "fm \<longleftrightarrow> f32_lt (mp b) (max_mp b) \<and> pos32 (thirst_secs b)"
  define rm where "rm = f32_mul (mp_regen_per_tick (sitting_bonus_applies t b) (case map_of (casting_skills b) ''meditate'' of None \<Rightarrow> 0 | Some s \<Rightarrow> s)) ?s"
  define load where "load = (if f32_lt (stamina b) (max_stamina b) \<and> pos32 (hunger_secs b) \<and> pos32 (thirst_secs b) then snd (load_for_conn R (c, b)) else 0)"
  define rs where "rs = f32_mul (f32_mul STAMINA_REGEN_PER_TICK load) ?s"
  obtain ha h where H: "regain fh rh (regen_hp_acc b) (hp c) (max_hp b) = (ha, h)" by fastforce
  obtain ma mv where M: "regain fm rm (regen_mp_acc b) (mp b) (max_mp b) = (ma, mv)" by fastforce
  obtain sa sv where S: "regain (pos32 load) rs (regen_stamina_acc b) (stamina b) (max_stamina b) = (sa, sv)" by fastforce
  have eq: "regen_resources R dt t (c, b)
      = (c\<lparr>hp := h\<rparr>, b\<lparr>regen_hp_acc := ha, mp := mv, regen_mp_acc := ma, stamina := sv, regen_stamina_acc := sa\<rparr>)"
    using H M S by (simp add: regen_resources_def natural_regen_allowed_def Let_def fh_def rh_def fm_def rm_def load_def rs_def conj_ac)
  have rates: "within rh A_LOT" "within rm A_LOT" "within rs A_LOT"
    using scaled_within [OF _ sc] hp_rate_within mp_rate_within [OF med] st_rate_within [of load] load_cases [of R "(c, b)"]
    by (simp_all add: rh_def rm_def rs_def load_def)
  have in_v: "within (regen_hp_acc b) F32_ONE" "within (hp c) (max_hp b)" "within (regen_mp_acc b) F32_ONE" "within (mp b) (max_mp b)"
    "within (regen_stamina_acc b) F32_ONE" "within (stamina b) (max_stamina b)"
    using v by (simp_all add: vitals_ok_def)
  note h = regain_within [OF in_v(1,2) rates(1) H] and m = regain_within [OF in_v(3,4) rates(2) M]
    and s = regain_within [OF in_v(5,6) rates(3) S]
  show ?thesis using v h m s unfolding eq by (simp add: vitals_ok_def recovered_def)
qed

section \<open>Food and water in range\<close>

definition fed_ok :: "body \<Rightarrow> bool" where
  "fed_ok b \<longleftrightarrow> within (hunger_secs b) FULLNESS_CAP_SECS \<and> within (thirst_secs b) FULLNESS_CAP_SECS"

text \<open>The fields recovery reads and writes, food and water apart.\<close>

definition same_pools :: "body \<Rightarrow> body \<Rightarrow> bool" where
  "same_pools b b' \<longleftrightarrow> max_hp b' = max_hp b \<and> mp b' = mp b \<and> max_mp b' = max_mp b \<and> stamina b' = stamina b
     \<and> max_stamina b' = max_stamina b \<and> regen_hp_acc b' = regen_hp_acc b \<and> regen_mp_acc b' = regen_mp_acc b
     \<and> regen_stamina_acc b' = regen_stamina_acc b \<and> casting_skills b' = casting_skills b"

lemma same_pools_trans: "same_pools a b \<Longrightarrow> same_pools b c \<Longrightarrow> same_pools a c"
  by (simp add: same_pools_def)

lemma same_pools_refl [simp]: "same_pools b b"
  by (simp add: same_pools_def)

lemma vitals_pools:
  assumes "vitals_ok (c, b)" "same_pools b b'" "fed_ok b'" "hp c' = hp c"
  shows "vitals_ok (c', b')"
  using assms by (simp add: vitals_ok_def same_pools_def fed_ok_def)

lemma set_counter_ok: "fed_ok b \<Longrightarrow> within v FULLNESS_CAP_SECS \<Longrightarrow> fed_ok (set_counter n v b) \<and> same_pools b (set_counter n v b)"
  by (cases n) (simp_all add: fed_ok_def set_counter_def same_pools_def)

lemma counter_within: "fed_ok b \<Longrightarrow> within (counter n b) FULLNESS_CAP_SECS"
  by (cases n) (simp_all add: fed_ok_def counter_def)

lemma feed_ok:
  assumes "fed_ok b"
  shows "fed_ok (feed n amount b) \<and> same_pools b (feed n amount b)"
proof -
  note c = withinD(1) [OF counter_within [OF assms, of n]]
  note up = add_key_nn [OF c, of "f32_max amount 0"]
  have "within (f32_min (f32_add (counter n b) (f32_max amount 0)) FULLNESS_CAP_SECS) FULLNESS_CAP_SECS"
    using min_within up max0_key cap_nn by blast
  from set_counter_ok [OF assms this, of n] show ?thesis by (simp add: feed_def fed_ok_def same_pools_def)
qed

lemma drain_amount_nn:
  assumes "short_tick dt"
  shows "f32_nn (f32_mul dt (race_drain_multiplier r))"
proof -
  let ?m = "race_drain_multiplier r"
  have cases: "?m \<in> {0x40000000, 0x3fc00000, 0x3f400000, 0x3f800000}" by (simp add: race_drain_multiplier_def)
  have m: "f32_nn ?m" using cases by (auto simp: f32_nn_def f32_finite_def f32_val_def f32_mag_def F32_INF_def f32_sign_def)
  have "f32_finite (f32_mul F32_ONE 0x40000000)" "f32_finite (f32_mul F32_ONE 0x3fc00000)" "f32_finite (f32_mul F32_ONE 0x3f400000)"
    "f32_finite (f32_mul F32_ONE 0x3f800000)" by (simp_all add: F32_ONE_def f32_eval)
  then have fin: "f32_finite (f32_mul F32_ONE ?m)" using cases by auto
  have "f32_nn dt" "f32_le dt F32_ONE" "f32_finite F32_ONE" using assms one_val(1) by (simp_all add: short_tick_def within_def f32_nn_def)
  from f32_mul_nn_mono(2) [OF this(1) m this(2,3) fin] show ?thesis .
qed

lemma drain_need_ok:
  assumes "fed_ok b" "f32_nn amount" "drain_need amount n (es, b) = (es', b')"
  shows "fed_ok b' \<and> same_pools b b'"
proof -
  note c = counter_within [OF assms(1), of n]
  let ?a = "f32_max (f32_sub (counter n b) amount) 0"
  have down: "f32_le (f32_sub (counter n b) amount) (counter n b)"
    using f32_sub_down withinD(1) [OF c] assms(2) by (simp add: f32_nn_def)
  have zero: "f32_le 0 FULLNESS_CAP_SECS" using within_zero [OF cap_nn] by (simp add: within_def)
  have "?a = 0 \<or> ?a = f32_sub (counter n b) amount" by (simp add: f32_max_def)
  then have "f32_le ?a FULLNESS_CAP_SECS" using f32_le_trans [OF down withinD(3) [OF c]] zero by metis
  then have "within ?a FULLNESS_CAP_SECS" using max0_key cap_nn f32_nn_below by (simp add: within_def f32_nn_def)
  from set_counter_ok [OF assms(1) this, of n] show ?thesis
    using assms(3) by (auto simp: drain_need_def Let_def fed_ok_def same_pools_def split: if_splits)
qed

lemma drain_ok:
  assumes "fed_ok b" "short_tick dt" "drain r dt b = (es, b')"
  shows "fed_ok b' \<and> same_pools b b'"
proof (cases "f32_le (race_drain_multiplier r) 0 \<or> f32_le dt 0")
  case True
  then show ?thesis using assms by (auto simp: drain_def Let_def)
next
  case False
  let ?a = "f32_mul dt (race_drain_multiplier r)"
  obtain e1 b1 where one: "drain_need ?a Food ([], b) = (e1, b1)" by fastforce
  have two: "drain_need ?a Drink (e1, b1) = (es, b')" using assms(3) False one by (auto simp: drain_def Let_def)
  note a = drain_amount_nn [OF assms(2), of r]
  note s1 = drain_need_ok [OF assms(1) a one]
  note s2 = drain_need_ok [OF conjunct1 [OF s1] a two]
  show ?thesis using s1 s2 same_pools_trans by blast
qed

lemma auto_eat_ok:
  assumes "fed_ok b" "auto_eat E tm who n (c, b) = (ate, ms, es, c', b')"
  shows "fed_ok b' \<and> same_pools b b' \<and> hp c' = hp c"
  using assms feed_ok [OF assms(1)]
  by (auto simp: auto_eat_def Let_def ledger_def split: if_splits option.splits sum.splits prod.splits)

lemma appetite_ok:
  assumes ok: "fed_ok b" "short_tick dt" and res: "appetite E tm who dt (c, b) = (ms, es, c', b')"
  shows "fed_ok b' \<and> same_pools b b' \<and> hp c' = hp c"
proof (cases "in_world c \<and> pos32 (hp c) \<and> \<not> death_processed c")
  case True
  define b1 where "b1 = (if appetite_announced b then b else b\<lparr>appetite_announced := True\<rparr>)"
  have b1: "fed_ok b1 \<and> same_pools b b1" using ok(1) by (simp add: b1_def fed_ok_def same_pools_def)
  obtain en b2 where dr: "drain (race c) dt b1 = (en, b2)" by fastforce
  obtain a1 m1 e1 c3 b3 where f: "auto_eat E tm who Food (c, b2) = (a1, m1, e1, c3, b3)" by (metis prod.collapse)
  obtain a2 m2 e2 c4 b4 where d: "auto_eat E tm who Drink (c3, b3) = (a2, m2, e2, c4, b4)" by (metis prod.collapse)
  have "(c', b') = (c4, b4)"
    using res True dr f d by (cases "appetite_announced b") (auto simp: appetite_def b1_def Let_def)
  moreover note s1 = drain_ok [OF conjunct1 [OF b1] ok(2) dr]
  moreover note s2 = auto_eat_ok [OF conjunct1 [OF s1] f]
  moreover note s3 = auto_eat_ok [OF conjunct1 [OF s2] d]
  ultimately show ?thesis using b1 same_pools_trans by (metis prod.inject)
next
  case False
  then show ?thesis using res ok by (auto simp: appetite_def)
qed

lemma fanout_ok:
  assumes "regen_fanout t (c, b) = (fan, c', b')"
  shows "c' = c \<and> same_pools b b' \<and> hunger_secs b' = hunger_secs b \<and> thirst_secs b' = thirst_secs b"
  using assms by (auto simp: regen_fanout_def Let_def same_pools_def split: if_splits)

lemma meditate_ok:
  assumes "meditate_step t roll (c, b) = (ms, c', b')"
  shows "c' = c \<and> max_hp b' = max_hp b \<and> mp b' = mp b \<and> max_mp b' = max_mp b \<and> stamina b' = stamina b
     \<and> max_stamina b' = max_stamina b \<and> regen_hp_acc b' = regen_hp_acc b \<and> regen_mp_acc b' = regen_mp_acc b
     \<and> regen_stamina_acc b' = regen_stamina_acc b \<and> hunger_secs b' = hunger_secs b \<and> thirst_secs b' = thirst_secs b"
  using assms
  by (auto simp: meditate_step_def try_advance_def set_score_def Let_def split: if_splits option.splits prod.splits skill_kind.splits)

text \<open>The steps of a turn, one after the other.\<close>

lemma regen_turn_steps:
  assumes "regen_turn E tm who dt t roll (c, b) = (out, c', b')"
  obtains ms es c1 b1 c2 b2 c3 b3 fan b4 where "appetite E tm who dt (c, b) = (ms, es, c1, b1)"
    "c2 = c1" "same_pools b1 b2" "hunger_secs b2 = hunger_secs b1" "thirst_secs b2 = thirst_secs b1"
    "regen_resources (reg E) dt t (c1, b2) = (c3, b3)" "regen_fanout t (c3, b3) = (fan, c3, b4)"
    "fst (snd (meditate_step t roll (c3, b4))) = c'" "snd (snd (meditate_step t roll (c3, b4))) = b'"
proof -
  obtain ms es c1 b1 where ap: "appetite E tm who dt (c, b) = (ms, es, c1, b1)" by (metis prod.collapse)
  define b2 where "b2 = (if in_world c1 \<and> update_due t (c1, b1) then snd (mark_sent t (c1, b1)) else b1)"
  have b2: "same_pools b1 b2" "hunger_secs b2 = hunger_secs b1" "thirst_secs b2 = thirst_secs b1"
    by (simp_all add: b2_def mark_sent_def on_body_def same_pools_def)
  obtain c3 b3 where r: "regen_resources (reg E) dt t (c1, b2) = (c3, b3)" by fastforce
  obtain fan c4 b4 where f: "regen_fanout t (c3, b3) = (fan, c4, b4)" by (metis prod.collapse)
  have "c4 = c3" using fanout_ok [OF f] by simp
  moreover have "snd (regen_turn E tm who dt t roll (c, b)) = snd (meditate_step t roll (c4, b4))"
    using ap r f by (auto simp: regen_turn_def regen_tick_one_def b2_def mark_sent_def on_body_def Let_def split: prod.splits)
  ultimately have m: "snd (meditate_step t roll (c3, b4)) = (c', b')" and f': "regen_fanout t (c3, b3) = (fan, c3, b4)"
    using f assms by simp_all
  show thesis by (rule that [OF ap refl b2 r f']) (simp_all add: m)
qed

lemma regain_off: "regain False amount acc cur cap = (0, cur)"
  by (simp add: regain_def)

lemma regen_gates:
  assumes "regen_resources R dt t (c, b) = (c', b')"
  shows "\<not> pos32 (hunger_secs b) \<Longrightarrow> hp c' = hp c" "\<not> pos32 (thirst_secs b) \<Longrightarrow> mp b' = mp b"
    "\<not> pos32 (hunger_secs b) \<or> \<not> pos32 (thirst_secs b) \<Longrightarrow> stamina b' = stamina b"
    "hunger_secs b' = hunger_secs b" "thirst_secs b' = thirst_secs b"
proof -
  have z: "\<not> pos32 0" by (simp add: pos32_def f32_lt_def)
  note unf = regen_resources_def natural_regen_allowed_def Let_def
  show "\<not> pos32 (hunger_secs b) \<Longrightarrow> hp c' = hp c" using assms by (auto simp: unf regain_off split: prod.splits)
  show "\<not> pos32 (thirst_secs b) \<Longrightarrow> mp b' = mp b" using assms by (auto simp: unf regain_off split: prod.splits)
  show "\<not> pos32 (hunger_secs b) \<or> \<not> pos32 (thirst_secs b) \<Longrightarrow> stamina b' = stamina b"
    using assms z by (elim disjE) (auto simp: unf regain_off split: prod.splits)
  show "hunger_secs b' = hunger_secs b" "thirst_secs b' = thirst_secs b" using assms by (auto simp: unf split: prod.splits)
qed

text \<open>C15. A turn of the upkeep pass keeps hunger and thirst between empty and the cap and hit points, mana and stamina between zero
  and their maxima; it never lowers a resource, and recovers no hit points without food, no mana without water and no stamina
  without both.  The turn covers at most a second, and the meditate score is
  at most 252, the highest any class reaches.\<close>

theorem upkeep_keeps_vitals:
  assumes "vitals_ok (c, b)" "short_tick dt" "meditate_score b \<le> 252" "regen_turn E tm who dt t roll (c, b) = (out, c', b')"
  shows "vitals_ok (c', b') \<and> recovered (c, b) (c', b')
    \<and> (pos32 (hunger_secs b') \<or> hp c' = hp c \<and> stamina b' = stamina b) \<and> (pos32 (thirst_secs b') \<or> mp b' = mp b \<and> stamina b' = stamina b)"
proof -
  from assms(4) obtain ms es c1 b1 c2 b2 c3 b3 fan b4 where st: "appetite E tm who dt (c, b) = (ms, es, c1, b1)"
    "c2 = c1" "same_pools b1 b2" "hunger_secs b2 = hunger_secs b1" "thirst_secs b2 = thirst_secs b1"
    "regen_resources (reg E) dt t (c1, b2) = (c3, b3)" "regen_fanout t (c3, b3) = (fan, c3, b4)"
    "fst (snd (meditate_step t roll (c3, b4))) = c'" "snd (snd (meditate_step t roll (c3, b4))) = b'"
    by (rule regen_turn_steps)
  have "fed_ok b" using assms(1) by (simp add: vitals_ok_def fed_ok_def)
  note ap = appetite_ok [OF this assms(2) st(1)]
  have pools: "same_pools b b2" "fed_ok b2" "hp c1 = hp c" using ap st(3-5) same_pools_trans by (auto simp: fed_ok_def)
  have v2: "vitals_ok (c1, b2)" by (rule vitals_pools [OF assms(1) pools])
  have "meditate_score b2 \<le> 252" using assms(3) pools(1) by (simp add: meditate_score_def same_pools_def)
  note r = regen_resources_ok [OF v2 assms(2) this, of "reg E" t, unfolded st(6)] and g = regen_gates [OF st(6)]
  note f = fanout_ok [OF st(7)]
  obtain md where m: "meditate_step t roll (c3, b4) = (md, c', b')" using st(8,9) by (metis prod.collapse)
  note md = meditate_ok [OF m]
  show ?thesis
    using r g f md pools(1,3) by (auto simp: vitals_ok_def recovered_def same_pools_def)
qed

lemma demo_vitals: "vitals_ok (demo_conn, demo_body)"
proof -
  have "within 0x46610000 FULLNESS_CAP_SECS" "within 0x42c80000 0x42c80000" "within 0 F32_ONE"
    by (simp_all add: within_def f32_nn_def FULLNESS_CAP_SECS_def F32_ONE_def f32_le_def f32_nan_def f32_finite_def f32_val_def f32_mag_def
        F32_INF_def f32_sign_def f32_key_def)
  then show ?thesis by (simp add: vitals_ok_def demo_body_def demo_conn_def)
qed

theorem upkeep_keeps_vitals_witness:
  "vitals_ok (snd (regen_turn demo_env trade_manager_new 1 0x3d4ccccd 1000 0 (demo_conn, demo_body)))"
proof -
  obtain out c' b' where r: "regen_turn demo_env trade_manager_new 1 0x3d4ccccd 1000 0 (demo_conn, demo_body) = (out, c', b')" by (metis prod.collapse)
  have "short_tick 0x3d4ccccd"
    by (simp add: short_tick_def within_def f32_nn_def F32_ONE_def f32_le_def f32_nan_def f32_finite_def f32_val_def f32_mag_def
        F32_INF_def f32_sign_def f32_key_def)
  moreover have "meditate_score demo_body \<le> 252" by (simp add: meditate_score_def demo_body_def)
  ultimately show ?thesis using upkeep_keeps_vitals [OF demo_vitals _ _ r] r by simp
qed

end
