(* ===== verification/Swings.thy ===== *)
theory Swings
  imports Training Upkeep
begin

text \<open>
  A melee swing (\<open>world/combat.rs\<close>): the miss, the damage band, the crit, and what armor takes off.  The random numbers are
  arguments.
\<close>

section \<open>Constants\<close>

text \<open>0.003, 0.30, 0.80; 0.35, 0.05, 0.80, 0.5; 0.15, 0.20, 0.95.\<close>

definition CRIT_PER_DEX :: f32 where "CRIT_PER_DEX = 0x3b449ba6"

definition CRIT_MAX :: f32 where "CRIT_MAX = 0x3e99999a"

definition OFFHAND_DAMAGE_MULT :: f32 where "OFFHAND_DAMAGE_MULT = 0x3f4ccccd"

definition MISS_AT_NO_SKILL :: f32 where "MISS_AT_NO_SKILL = 0x3eb33333"

definition MISS_FLOOR :: f32 where "MISS_FLOOR = 0x3d4ccccd"

definition MISS_UNUSABLE :: f32 where "MISS_UNUSABLE = 0x3f4ccccd"

definition SKILL_UNUSABLE_DAMAGE_MULT :: f32 where "SKILL_UNUSABLE_DAMAGE_MULT = 0x3f000000"

definition SKILL_MAX_DAMAGE_BONUS :: f32 where "SKILL_MAX_DAMAGE_BONUS = 0x3e19999a"

definition DUAL_WIELD_MISS_PENALTY :: f32 where "DUAL_WIELD_MISS_PENALTY = 0x3e4ccccd"

definition OFFHAND_MISS_CAP :: f32 where "OFFHAND_MISS_CAP = 0x3f733333"

section \<open>Skill\<close>

definition can_attack :: "body \<Rightarrow> body \<Rightarrow> bool" where
  "can_attack attacker target = (pvp_override_on attacker \<and> pvp_override_on target)"

definition skill_ratio :: "connection \<times> body \<Rightarrow> string \<Rightarrow> f32 option" where
  "skill_ratio cb key =
     (let cap = cap_for WeaponSkill (cls (fst cb)) (clevel (snd cb)) key in
      if cap \<le> 0 then None
      else Some (f32_clamp (f32_div (f32_of_int (current_score (snd cb) WeaponSkill key)) (f32_of_int cap)) 0 F32_ONE))"

definition miss_chance :: "connection \<times> body \<Rightarrow> string \<Rightarrow> bool \<Rightarrow> f32" where
  "miss_chance cb key is_offhand =
     (let base_chance = (case skill_ratio cb key of
            None \<Rightarrow> MISS_UNUSABLE
          | Some r \<Rightarrow> f32_max (f32_mul MISS_AT_NO_SKILL (f32_sub F32_ONE r)) MISS_FLOOR);
          accuracy = fst (accuracy_crit_bonus (active_buffs (snd cb)))
      in if is_offhand then f32_clamp (f32_sub (f32_add base_chance DUAL_WIELD_MISS_PENALTY) accuracy) 0 OFFHAND_MISS_CAP
         else f32_max (f32_sub base_chance accuracy) 0)"

definition skill_damage_mult :: "connection \<times> body \<Rightarrow> string \<Rightarrow> f32" where
  "skill_damage_mult cb key =
     (case skill_ratio cb key of
        None \<Rightarrow> SKILL_UNUSABLE_DAMAGE_MULT
      | Some r \<Rightarrow> f32_add F32_ONE (f32_mul SKILL_MAX_DAMAGE_BONUS r))"

section \<open>The swing\<close>

record swing =
  sw_amount :: int
  sw_crit :: bool
  sw_missed :: bool

text \<open>The rolls, in the order the code makes them: the miss, the point of the weapon's band or of the fists' one to four, the crit,
  its size.\<close>

record swing_rolls =
  miss_roll :: f32
  band_roll :: int
  fist_roll :: int
  crit_roll :: f32
  crit_size :: f32

definition base_roll :: "registry \<Rightarrow> string \<Rightarrow> bool \<Rightarrow> swing_rolls \<Rightarrow> int" where
  "base_roll R p max_roll r =
     (case lookup R p of
        None \<Rightarrow> if max_roll then 4 else fist_roll r
      | Some w \<Rightarrow>
          if 0 < damage_max w then
            let span = max (wrap32 (damage_max w - damage_min w)) 0
            in wrap32 (damage_min w + (if max_roll \<or> span = 0 then span else band_roll r))
          else if max_roll then 4 else fist_roll r)"

definition crit_chance_of :: "connection \<times> body \<Rightarrow> bool \<Rightarrow> f32" where
  "crit_chance_of cb is_offhand =
     (let chance = f32_clamp (f32_mul (f32_sub (f32_of_int (sint (dexterity (snd cb)))) 0x41200000) CRIT_PER_DEX) 0 CRIT_MAX;
          chance1 = f32_min (f32_add chance (snd (accuracy_crit_bonus (active_buffs (snd cb))))) CRIT_MAX
      in if is_offhand then f32_mul chance1 0x3f19999a else chance1)"

definition swing_base :: "registry \<Rightarrow> connection \<times> body \<Rightarrow> string \<Rightarrow> bool \<Rightarrow> bool \<Rightarrow> swing_rolls \<Rightarrow> int" where
  "swing_base R cb p is_offhand max_roll r =
     (let ranged = (case lookup R p of None \<Rightarrow> False | Some w \<Rightarrow> is_ranged w);
          stat_bonus = sint (if ranged then dexterity (snd cb) else strength (snd cb)) sdiv 5;
          whole = wrap32 (base_roll R p max_roll r + stat_bonus)
      in if is_offhand then f32_to_i32 (f32_mul (f32_of_int whole) OFFHAND_DAMAGE_MULT) else whole)"

definition swing_with :: "registry \<Rightarrow> connection \<times> body \<Rightarrow> string \<Rightarrow> bool \<Rightarrow> bool \<Rightarrow> swing_rolls \<Rightarrow> swing" where
  "swing_with R cb p is_offhand max_roll r =
     (let key = weapon_skill_key R p in
      if \<not> max_roll \<and> f32_lt (miss_roll r) (miss_chance cb key is_offhand) then
        \<lparr>sw_amount = 0, sw_crit = False, sw_missed = True\<rparr>
      else
        let b = swing_base R cb p is_offhand max_roll r;
            crit = f32_lt (crit_roll r) (crit_chance_of cb is_offhand);
            crit_mult = (if crit then crit_size r else F32_ONE);
            dealt = max (f32_to_i32 (f32_mul (f32_mul (f32_of_int b) (skill_damage_mult cb key)) crit_mult)) 1
        in \<lparr>sw_amount = dealt, sw_crit = crit, sw_missed = False\<rparr>)"

definition calc_swing :: "registry \<Rightarrow> connection \<times> body \<Rightarrow> string \<Rightarrow> bool \<Rightarrow> swing_rolls \<Rightarrow> swing" where
  "calc_swing R cb p is_offhand r = swing_with R cb p is_offhand False r"

definition calc_swing_max :: "registry \<Rightarrow> connection \<times> body \<Rightarrow> string \<Rightarrow> bool \<Rightarrow> swing_rolls \<Rightarrow> swing" where
  "calc_swing_max R cb p is_offhand r = swing_with R cb p is_offhand True r"

text \<open>100.0.\<close>

definition mitigated :: "int \<Rightarrow> int \<Rightarrow> bool \<Rightarrow> int" where
  "mitigated dealt armor0 seated =
     (if seated then max dealt 1
      else
        let a = f32_of_int (max armor0 0); reduction = f32_div a (f32_add a 0x42c80000)
        in max (f32_to_i32 (f32_mul (f32_of_int dealt) (f32_sub F32_ONE reduction))) 1)"

section \<open>Armor only softens\<close>

lemma small_int:
  assumes "0 \<le> n" "n \<le> 2 ^ 24"
  shows "f32_nn (f32_of_int n)" "f32_to_i32 (f32_of_int n) = n" "f32_val (f32_of_int n) = n * 2 ^ 149"
proof -
  have i: "f32_int (f32_of_int n) n" by (rule f32_of_int_exact) (use assms in simp)
  then have v: "f32_val (f32_of_int n) = n * 2 ^ 149" "f32_finite (f32_of_int n)" by (simp_all add: f32_int_def)
  show nn: "f32_nn (f32_of_int n)" using v assms by (simp add: f32_nn_def)
  show "f32_val (f32_of_int n) = n * 2 ^ 149" by (rule v)
  have "int (mag_units (f32_mag (f32_of_int n)) div 2 ^ 149) = n" using whole_part_nn [OF nn] v(1) by simp
  then show "f32_to_i32 (f32_of_int n) = n" using f32_to_i32_nn [OF nn] assms by (simp add: I32_MAX_def)
qed

lemma top_finite: "f32_finite (f32_of_int 2147483647)" "f32_finite (f32_add (f32_of_int 2147483647) 0x42c80000)"
    "f32_finite 0x42c80000" "f32_val 0x42c80000 = 100 * 2 ^ 149"
  by (simp_all add: f32_eval)

lemma below_cap: "f32_nn b \<Longrightarrow> \<not> f32_nan x \<Longrightarrow> 0 \<le> f32_key x \<Longrightarrow> f32_le x b \<Longrightarrow> f32_nn x"
  using f32_nn_below by (auto simp: f32_nn_def)

text \<open>The share armor takes lies between nothing and everything.\<close>

lemma armor_share:
  assumes "0 \<le> n" "n \<le> 2147483647"
  shows "f32_nn (f32_div (f32_of_int n) (f32_add (f32_of_int n) 0x42c80000))"
    "f32_val (f32_div (f32_of_int n) (f32_add (f32_of_int n) 0x42c80000)) \<le> 2 ^ 149"
proof -
  let ?a = "f32_of_int n" and ?h = "0x42c80000 :: f32"
  have a: "f32_nn ?a" by (rule f32_of_int_nn [OF assms top_finite(1)])
  have af: "f32_finite ?a" "0 \<le> f32_val ?a" using a by (simp_all add: f32_nn_def)
  have up: "f32_le ?a (f32_add ?a ?h)" by (rule f32_add_up) (use af top_finite in simp_all)
  have "f32_le (f32_add ?a ?h) (f32_add (f32_of_int 2147483647) ?h)"
    by (rule f32_add_mono) (use af top_finite f32_of_int_mono [OF assms] in simp_all)
  moreover have "0 \<le> f32_key (f32_add ?a ?h)" using up a nn_key [OF a] by (simp add: f32_le_def)
  ultimately have b: "f32_nn (f32_add ?a ?h)" using f32_nn_below top_finite(2) by blast
  have le: "f32_val ?a \<le> f32_val (f32_add ?a ?h)" using up f32_le_val af b by (simp add: f32_nn_def)
  have "f32_key (f32_add ?a ?h) = rkey (f32_val ?a + 100 * 2 ^ 149) 0" using f32_add_key(1) [of ?a ?h] af top_finite by simp
  also have "rkey (100 * 2 ^ 149) 0 \<le> \<dots>" using af by (intro rkey_mono) simp
  finally have "f32_key ?h \<le> f32_key (f32_add ?a ?h)" using f32_key_val [of ?h] top_finite by simp
  then have "f32_le ?h (f32_add ?a ?h)" using b top_finite by (simp add: f32_le_def f32_nn_def)
  then have "100 * 2 ^ 149 \<le> f32_val (f32_add ?a ?h)" using f32_le_val [of ?h] b top_finite by (simp add: f32_nn_def)
  then have "0 < f32_val (f32_add ?a ?h)" by (rule less_le_trans [rotated]) simp
  from f32_div_le_one [OF a b le this] show "f32_nn (f32_div ?a (f32_add ?a ?h))" "f32_val (f32_div ?a (f32_add ?a ?h)) \<le> 2 ^ 149" .
qed

lemma rest_of_one:
  assumes "f32_nn r" "f32_val r \<le> 2 ^ 149"
  shows "f32_nn (f32_sub F32_ONE r)" "f32_val (f32_sub F32_ONE r) \<le> 2 ^ 149"
proof -
  have f: "f32_finite F32_ONE" "f32_finite r" "0 \<le> f32_val r" using assms(1) one_val by (simp_all add: f32_nn_def)
  have le: "f32_le (f32_sub F32_ONE r) F32_ONE" by (rule f32_sub_down [OF f])
  have "f32_key (f32_sub F32_ONE r) = rkey (2 ^ 149 - f32_val r) 0"
    using f32_add_key(1) [of F32_ONE "f32_neg r"] f one_val(2) by (simp add: f32_sub_def)
  then have "0 \<le> f32_key (f32_sub F32_ONE r)" using assms(2) by (simp add: rkey_def)
  then show nn: "f32_nn (f32_sub F32_ONE r)" using f32_nn_below [OF le f(1)] by blast
  show "f32_val (f32_sub F32_ONE r) \<le> 2 ^ 149" using le f32_le_val [of _ F32_ONE] nn one_val by (simp add: f32_nn_def)
qed

lemma softened:
  assumes "0 \<le> n" "n \<le> 2 ^ 24" "f32_nn s" "f32_val s \<le> 2 ^ 149"
  shows "f32_to_i32 (f32_mul (f32_of_int n) s) \<le> n"
proof -
  note i = small_int [OF assms(1,2)]
  have le: "f32_le (f32_mul (f32_of_int n) s) (f32_of_int n)"
    by (rule f32_mul_shrink) (use i(1) assms(3,4) in \<open>simp_all add: f32_nn_def\<close>)
  have "f32_nn (f32_mul (f32_of_int n) s)"
    using f32_nn_below [OF le] f32_mul_nn_key [OF i(1) assms(3)] i(1) by (simp add: f32_nn_def)
  from f32_to_i32_mono [OF this i(1) le] show ?thesis by (simp add: i(2))
qed

text \<open>C34. Armor only softens a blow: whatever the armor, between a point and the whole blow lands; a seated target takes all of it.\<close>

theorem armor_only_softens:
  assumes "0 \<le> dealt" "dealt \<le> 2 ^ 24" "armor0 \<le> 2147483647"
  shows "1 \<le> mitigated dealt armor0 seated \<and> mitigated dealt armor0 seated \<le> max dealt 1 \<and> mitigated dealt armor0 True = max dealt 1"
proof -
  have n: "0 \<le> max armor0 0" "max armor0 0 \<le> 2147483647" using assms(3) by simp_all
  have "f32_to_i32 (f32_mul (f32_of_int dealt) (f32_sub F32_ONE (f32_div (f32_of_int (max armor0 0)) (f32_add (f32_of_int (max armor0 0)) 0x42c80000)))) \<le> dealt"
    by (rule softened [OF assms(1,2) rest_of_one]) (rule armor_share [OF n])+
  then show ?thesis by (simp add: mitigated_def Let_def max.coboundedI1)
qed

theorem armor_only_softens_witness: "mitigated 40 60 False \<le> 40 \<and> mitigated 40 60 True = 40"
  using armor_only_softens [of 40 60 False] by simp

section \<open>The top of the band\<close>

lemma f32_mul_comm: "f32_mul a b = f32_mul b a"
proof -
  have "(f32_sign a \<noteq> f32_sign b) = (f32_sign b \<noteq> f32_sign a)" by auto
  then show ?thesis unfolding f32_mul_def by (simp add: disj_commute mult.commute Let_def conj_commute)
qed

text \<open>A factor in the range of the skill and the crit.\<close>

definition factor_ok :: "f32 \<Rightarrow> bool" where
  "factor_ok s \<longleftrightarrow> f32_nn s \<and> f32_le s 0x40000000"

lemma two_facts: "f32_nn 0x40000000" "f32_val 0x40000000 = 2 * 2 ^ 149"
    "f32_finite (f32_mul 0x40000000 (f32_of_int (2 ^ 22)))" "f32_finite (f32_mul 0x40000000 (f32_mul 0x40000000 (f32_of_int (2 ^ 22))))"
  by (simp_all add: f32_nn_def f32_eval)

lemma scaled_mono:
  assumes x: "f32_nn x" "f32_nn y" "f32_le x y" and s: "factor_ok s" and y: "f32_le y t" "f32_nn t" "f32_finite (f32_mul 0x40000000 t)"
  shows "f32_nn (f32_mul x s)" "f32_nn (f32_mul y s)" "f32_le (f32_mul x s) (f32_mul y s)" "f32_le (f32_mul y s) (f32_mul 0x40000000 t)"
proof -
  have s2: "f32_nn s" "f32_le s 0x40000000" using s by (simp_all add: factor_ok_def)
  have fin: "f32_finite x" "f32_finite y" "f32_finite s" "f32_finite t" "0 \<le> f32_val s" "0 \<le> f32_val t"
    using x y s2 by (simp_all add: f32_nn_def)
  have 1: "f32_le (f32_mul y s) (f32_mul t s)" by (rule f32_mul_mono) (use fin y in simp_all)
  have 2: "f32_le (f32_mul s t) (f32_mul 0x40000000 t)" by (rule f32_mul_mono) (use fin two_facts s2 in \<open>simp_all add: f32_nn_def\<close>)
  show le: "f32_le (f32_mul y s) (f32_mul 0x40000000 t)" using 1 2 f32_le_trans unfolding f32_mul_comm [of s t] by blast
  show m: "f32_le (f32_mul x s) (f32_mul y s)" by (rule f32_mul_mono) (use fin x in simp_all)
  show nn: "f32_nn (f32_mul y s)" by (rule f32_nn_below [OF le y(3) f32_mul_nn_key [OF x(2) s2(1)]])
  show "f32_nn (f32_mul x s)" by (rule f32_nn_below [OF m _ f32_mul_nn_key [OF x(1) s2(1)]]) (use nn in \<open>simp add: f32_nn_def\<close>)
qed

lemma clamp_unit: "\<not> f32_nan x \<Longrightarrow> f32_nn (f32_clamp x 0 F32_ONE) \<and> f32_le (f32_clamp x 0 F32_ONE) F32_ONE"
proof -
  assume x: "\<not> f32_nan x"
  have c: "f32_nn 0" "f32_key 0 = 0" "\<not> f32_nan 0" "f32_nn F32_ONE" "0 < f32_key F32_ONE"
    by (simp_all add: f32_nn_def F32_ONE_def f32_eval)
  have "\<not> f32_nan F32_ONE" using c by (simp add: f32_nnD)
  then show ?thesis using x c f32_nn_below [of x F32_ONE]
    by (auto simp: f32_clamp_def f32_lt_def f32_le_def Let_def f32_nn_def)
qed

lemma ratio_ok:
  assumes "1 \<le> clevel (snd cb)" "clevel (snd cb) \<le> 60" "skill_ratio cb key = Some r"
  shows "f32_nn r" "f32_le r F32_ONE"
proof -
  let ?cap = "cap_for WeaponSkill (cls (fst cb)) (clevel (snd cb)) key"
  have cap: "0 < ?cap" and r: "r = f32_clamp (f32_div (f32_of_int (current_score (snd cb) WeaponSkill key)) (f32_of_int ?cap)) 0 F32_ONE"
    using assms(3) by (auto simp: skill_ratio_def Let_def split: if_splits)
  have "?cap \<le> cap_for WeaponSkill (cls (fst cb)) 60 key" using cap_for_mono assms(1,2) by simp
  also have "\<dots> \<le> 250" using max_cap_range [of WeaponSkill "cls (fst cb)" key] by (simp add: cap_for_eq)
  finally have small: "?cap \<le> 2 ^ 24" by simp
  note i = small_int [OF less_imp_le [OF cap] small]
  have inf: "\<not> f32_nan (f32_pack s F32_INF)" "\<not> f32_nan (f32_pack s 0)" for s by (simp_all add: f32_nan_def F32_INF_def)
  have zero: "f32_mag w = 0 \<Longrightarrow> f32_val w = 0" for w by (simp add: f32_val_def)
  have "f32_mag (f32_of_int ?cap) \<noteq> 0"
  proof
    assume "f32_mag (f32_of_int ?cap) = 0"
    then have "?cap * 2 ^ 149 = 0" using zero [of "f32_of_int ?cap"] i(3) by simp
    then show False using cap by simp
  qed
  then have "\<not> f32_nan (f32_div (f32_of_int (current_score (snd cb) WeaponSkill key)) (f32_of_int ?cap))"
    using i(1) inf by (auto simp: f32_div_def f32_nn_def Let_def)
  then show "f32_nn r" "f32_le r F32_ONE" using clamp_unit r by blast+
qed

lemma skill_mult_ok:
  assumes "1 \<le> clevel (snd cb)" "clevel (snd cb) \<le> 60"
  shows "factor_ok (skill_damage_mult cb key)"
proof (cases "skill_ratio cb key")
  case None
  then show ?thesis by (simp add: skill_damage_mult_def SKILL_UNUSABLE_DAMAGE_MULT_def factor_ok_def f32_nn_def f32_eval)
next
  case (Some r)
  note ok = ratio_ok [OF assms Some]
  let ?k = SKILL_MAX_DAMAGE_BONUS
  have k: "f32_nn ?k" "f32_val ?k \<le> 2 ^ 149" by (simp_all add: SKILL_MAX_DAMAGE_BONUS_def f32_nn_def f32_eval)
  have r: "f32_finite r" "0 \<le> f32_val r" "f32_val r \<le> 2 ^ 149" using ok f32_le_val [of r F32_ONE] one_val by (simp_all add: f32_nn_def)
  have le: "f32_le (f32_mul ?k r) ?k" by (rule f32_mul_shrink) (use k r in \<open>simp_all add: f32_nn_def\<close>)
  have m: "f32_nn (f32_mul ?k r)" using f32_nn_below [OF le] f32_mul_nn_key [OF k(1) ok(1)] k(1) by (simp add: f32_nn_def)
  have mv: "0 \<le> f32_val (f32_mul ?k r)" "f32_val (f32_mul ?k r) \<le> 2 ^ 149" "f32_finite (f32_mul ?k r)"
    using le m k f32_le_val [of "f32_mul ?k r" ?k] by (simp_all add: f32_nn_def)
  have key: "f32_key (f32_add F32_ONE (f32_mul ?k r)) = rkey (2 ^ 149 + f32_val (f32_mul ?k r)) 0" "\<not> f32_nan (f32_add F32_ONE (f32_mul ?k r))"
    using f32_add_key [of F32_ONE] mv(3) one_val by (simp_all add: f32_nn_def)
  have "f32_key (f32_add F32_ONE (f32_mul ?k r)) \<le> rkey (2 * 2 ^ 149) 0" unfolding key(1) using mv by (intro rkey_mono) simp
  also have "rkey (2 * 2 ^ 149) 0 = f32_key 0x40000000" using f32_key_val [of "0x40000000"] two_facts by (simp add: f32_nn_def)
  finally have top: "f32_le (f32_add F32_ONE (f32_mul ?k r)) 0x40000000" using key(2) two_facts(1) by (simp add: f32_le_def f32_nnD)
  have "0 \<le> f32_key (f32_add F32_ONE (f32_mul ?k r))" unfolding key(1) using mv by (simp add: rkey_def)
  then have "f32_nn (f32_add F32_ONE (f32_mul ?k r))" using f32_nn_below [OF top] two_facts by (simp add: f32_nn_def)
  then show ?thesis using top Some by (simp add: skill_damage_mult_def factor_ok_def)
qed

text \<open>What the dice may show, and a wielder and weapon of ordinary strength.\<close>

definition rolls_ok :: "registry \<Rightarrow> string \<Rightarrow> swing_rolls \<Rightarrow> bool" where
  "rolls_ok R p r \<longleftrightarrow> 1 \<le> fist_roll r \<and> fist_roll r \<le> 4 \<and> f32_le F32_ONE (crit_size r) \<and> f32_le (crit_size r) 0x40000000
     \<and> (\<forall>w. lookup R p = Some w \<longrightarrow> 0 \<le> band_roll r \<and> band_roll r \<le> max (damage_max w - damage_min w) 0)"

definition ordinary :: "registry \<Rightarrow> string \<Rightarrow> connection \<times> body \<Rightarrow> bool" where
  "ordinary R p cb \<longleftrightarrow> 1 \<le> clevel (snd cb) \<and> clevel (snd cb) \<le> 60
     \<and> \<bar>sint (strength (snd cb))\<bar> \<le> 2 ^ 20 \<and> \<bar>sint (dexterity (snd cb))\<bar> \<le> 2 ^ 20
     \<and> (\<forall>w. lookup R p = Some w \<longrightarrow> \<bar>damage_min w\<bar> \<le> 2 ^ 20 \<and> \<bar>damage_max w\<bar> \<le> 2 ^ 20)"

lemma wrap32_id: "-2147483648 \<le> n \<Longrightarrow> n \<le> 2147483647 \<Longrightarrow> wrap32 n = n"
  by (simp add: wrap32_def)

lemma base_roll_top:
  assumes "rolls_ok R p r" "ordinary R p cb"
  shows "- (2 ^ 20) \<le> base_roll R p False r" "base_roll R p False r \<le> base_roll R p True r" "base_roll R p True r \<le> 2 ^ 20"
proof -
  have "- (2 ^ 20) \<le> base_roll R p False r \<and> base_roll R p False r \<le> base_roll R p True r \<and> base_roll R p True r \<le> 2 ^ 20"
  proof (cases "\<exists>w. lookup R p = Some w \<and> 0 < damage_max w")
    case False
    then show ?thesis using assms(1) by (auto simp: base_roll_def rolls_ok_def split: option.splits)
  next
    case True
    then obtain w where w: "lookup R p = Some w" "0 < damage_max w" by blast
    have b: "- (2 ^ 20) \<le> damage_min w" "damage_min w \<le> 2 ^ 20" "damage_max w \<le> 2 ^ 20" using assms(2) w(1) by (simp_all add: ordinary_def abs_le_iff)
    have g: "0 \<le> band_roll r" "band_roll r \<le> max (damage_max w - damage_min w) 0" using assms(1) w(1) by (simp_all add: rolls_ok_def)
    have span: "wrap32 (damage_max w - damage_min w) = damage_max w - damage_min w" by (rule wrap32_id) (use b w(2) in simp_all)
    let ?s = "max (damage_max w - damage_min w) 0"
    have t: "wrap32 (damage_min w + ?s) = damage_min w + ?s" "wrap32 (damage_min w + band_roll r) = damage_min w + band_roll r"
      "wrap32 (damage_min w) = damage_min w"
      by (rule wrap32_id; use b g in simp)+
    show ?thesis using w b g by (auto simp: base_roll_def span Let_def t)
  qed
  then show "- (2 ^ 20) \<le> base_roll R p False r" "base_roll R p False r \<le> base_roll R p True r" "base_roll R p True r \<le> 2 ^ 20" by simp_all
qed

text \<open>Whatever the size of the number, one that is not above zero stays so under the factors of a swing.\<close>

definition nonpos :: "f32 \<Rightarrow> bool" where
  "nonpos a \<longleftrightarrow> f32_nan a \<or> f32_sign a \<or> f32_mag a = 0"

lemma nonpos_i32: "nonpos a \<Longrightarrow> f32_to_i32 a \<le> 0"
proof -
  have z: "mag_units 0 = 0" by (simp add: f32_eval)
  show "nonpos a \<Longrightarrow> f32_to_i32 a \<le> 0"
    by (auto simp: nonpos_def f32_to_i32_def I32_MIN_def f32_finite_def F32_INF_def z Let_def)
qed

lemma nonpos_of_int: "n \<le> 0 \<Longrightarrow> nonpos (f32_of_int n)"
proof -
  assume n: "n \<le> 0"
  show ?thesis
  proof (cases "n = 0")
    case True
    then show ?thesis by (simp add: nonpos_def f32_eval)
  next
    case False
    then show ?thesis using n round_scaled_less by (simp add: nonpos_def f32_of_int_def)
  qed
qed

lemma nonpos_mul: "nonpos a \<Longrightarrow> f32_nn b \<Longrightarrow> nonpos (f32_mul a b)"
proof -
  assume a: "nonpos a" and b: "f32_nn b"
  have z: "mag_units 0 = 0" "round_scaled 0 149 = 0" by (simp_all add: f32_eval)
  have nb: "f32_finite b" "\<not> f32_nan b" using b f32_nnD by blast+
  have sb: "mag_units (f32_mag b) = 0" if "f32_sign b"
    using b that by (simp add: f32_nn_def f32_val_def)
  have zb: "f32_mag b = 0" if "f32_sign b"
  proof (rule ccontr)
    assume "f32_mag b \<noteq> 0"
    then have "mag_units 1 \<le> mag_units (f32_mag b)" using mag_units_mono [of 1 "f32_mag b"] by simp
    then show False using sb [OF that] by (simp add: f32_eval)
  qed
  have nan: "f32_nan F32_NAN" by (simp add: f32_eval)
  have inf: "F32_INF < 2 ^ 31" by (simp add: F32_INF_def)
  show ?thesis
  proof (cases "f32_mag a = 0 \<or> f32_mag b = 0")
    case True
    then have "f32_nan a \<or> \<not> f32_finite a \<or> f32_mag (f32_mul a b) = 0" using nb by (auto simp: f32_mul_def z Let_def)
    then show ?thesis using True nan nb by (auto simp: nonpos_def f32_mul_def Let_def)
  next
    case False
    then have s: "\<not> f32_sign b" "f32_nan a \<or> f32_sign a" using zb a by (auto simp: nonpos_def)
    then show ?thesis using nan inf nb round_scaled_less by (auto simp: nonpos_def f32_mul_def Let_def)
  qed
qed

lemma sdiv_small: "\<bar>n\<bar> \<le> 2 ^ 20 \<Longrightarrow> \<bar>n sdiv 5\<bar> \<le> 2 ^ 20" for n :: int
proof -
  assume n: "\<bar>n\<bar> \<le> 2 ^ 20"
  have "\<bar>n sdiv 5\<bar> \<le> \<bar>n\<bar> div 5" by (simp add: signed_divide_int_def abs_mult sgn_if)
  also have "\<dots> \<le> \<bar>n\<bar>" using zdiv_mono2 [of "\<bar>n\<bar>" 1 5] by simp
  finally show ?thesis using n by simp
qed

text \<open>The number a swing starts from: not above zero, or no more than at the top of the band.\<close>

lemma swing_base_top:
  assumes "rolls_ok R p r" "ordinary R p cb"
  shows "swing_base R cb p off True r \<le> 2 ^ 22"
    "0 < swing_base R cb p off False r \<Longrightarrow> swing_base R cb p off False r \<le> swing_base R cb p off True r"
proof -
  note br = base_roll_top [OF assms]
  define stat where "stat = sint (if (case lookup R p of None \<Rightarrow> False | Some w \<Rightarrow> is_ranged w) then dexterity (snd cb) else strength (snd cb)) sdiv 5"
  have "\<bar>stat\<bar> \<le> 2 ^ 20" using assms(2) sdiv_small by (auto simp: stat_def ordinary_def)
  then have st: "- (2 ^ 20) \<le> stat" "stat \<le> 2 ^ 20" by (simp_all add: abs_le_iff)
  have w: "wrap32 (base_roll R p m r + stat) = base_roll R p m r + stat" for m by (rule wrap32_id; cases m; use br st in simp)
  let ?x = "base_roll R p False r + stat" and ?y = "base_roll R p True r + stat"
  have xy: "?x \<le> ?y" "?y \<le> 2 ^ 22" using br st by simp_all
  have sb: "swing_base R cb p off m r = (if off then f32_to_i32 (f32_mul (f32_of_int (base_roll R p m r + stat)) OFFHAND_DAMAGE_MULT)
      else base_roll R p m r + stat)" for m unfolding swing_base_def Let_def stat_def [symmetric] w ..
  have k: "f32_nn OFFHAND_DAMAGE_MULT" "f32_val OFFHAND_DAMAGE_MULT \<le> 2 ^ 149" by (simp_all add: OFFHAND_DAMAGE_MULT_def f32_nn_def f32_eval)
  have low: "f32_to_i32 (f32_mul (f32_of_int z) OFFHAND_DAMAGE_MULT) \<le> 0" if "z \<le> 0" for z
    using nonpos_i32 [OF nonpos_mul [OF nonpos_of_int [OF that] k(1)]] .
  have "f32_to_i32 (f32_mul (f32_of_int ?y) OFFHAND_DAMAGE_MULT) \<le> 2 ^ 22"
  proof (cases "0 \<le> ?y")
    case True
    have "?y \<le> 2 ^ 24" using xy(2) by simp
    from softened [OF True this k] show ?thesis using xy(2) by linarith
  next
    case False
    then have "?y \<le> 0" by simp
    from low [OF this] have "f32_to_i32 (f32_mul (f32_of_int ?y) OFFHAND_DAMAGE_MULT) \<le> 0" .
    also have "(0 :: int) \<le> 2 ^ 22" by simp
    finally show ?thesis .
  qed
  then show "swing_base R cb p off True r \<le> 2 ^ 22" using xy by (simp add: sb)
  assume pos: "0 < swing_base R cb p off False r"
  have x: "0 \<le> ?x"
  proof (rule ccontr)
    assume "\<not> 0 \<le> ?x"
    then have "?x \<le> 0" by simp
    then show False using pos low [of ?x] by (simp add: sb split: if_splits)
  qed
  then have y: "0 \<le> ?y" using xy by simp
  have ix: "f32_nn (f32_of_int ?x)" "f32_nn (f32_of_int ?y)" using small_int [of ?x] small_int [of ?y] x y xy by simp_all
  have le: "f32_le (f32_of_int ?x) (f32_of_int ?y)" by (rule f32_of_int_mono [OF x xy(1)])
  have fin: "f32_nn (f32_mul (f32_of_int z) OFFHAND_DAMAGE_MULT)" if "0 \<le> z" "z \<le> 2 ^ 22" for z
  proof -
    have i: "f32_nn (f32_of_int z)" using small_int [of z] that by simp
    have "f32_le (f32_mul (f32_of_int z) OFFHAND_DAMAGE_MULT) (f32_of_int z)" using f32_mul_shrink i k by (simp add: f32_nn_def)
    then show ?thesis using f32_nn_below f32_mul_nn_key [OF i k(1)] i by (simp add: f32_nn_def)
  qed
  have m: "f32_le (f32_mul (f32_of_int ?x) OFFHAND_DAMAGE_MULT) (f32_mul (f32_of_int ?y) OFFHAND_DAMAGE_MULT)"
    by (rule f32_mul_mono) (use ix le k in \<open>simp_all add: f32_nn_def\<close>)
  have "f32_to_i32 (f32_mul (f32_of_int ?x) OFFHAND_DAMAGE_MULT) \<le> f32_to_i32 (f32_mul (f32_of_int ?y) OFFHAND_DAMAGE_MULT)"
    using f32_to_i32_mono [OF fin fin m] x y xy by simp
  then show "swing_base R cb p off False r \<le> swing_base R cb p off True r" using xy by (simp add: sb)
qed

text \<open>C16. A seated target takes the most the same swing could do: with the same dice it is never missed and never hit for less than
  a standing one, and every swing that lands deals at least a point.  This is so for every skill score, hand and set of buffs, for
  levels 1 to 60, and for strength, dexterity and weapon damage of either sign up to 2^20, far past what the game reaches.\<close>

theorem sitting_takes_the_worst:
  assumes "rolls_ok R p r" "ordinary R p cb"
  shows "\<not> sw_missed (calc_swing_max R cb p off r) \<and> sw_amount (calc_swing R cb p off r) \<le> sw_amount (calc_swing_max R cb p off r)
    \<and> (if sw_missed (calc_swing R cb p off r) then sw_amount (calc_swing R cb p off r) = 0 else 1 \<le> sw_amount (calc_swing R cb p off r))"
proof -
  note sb = swing_base_top [OF assms, of off]
  define sm cm where "sm = skill_damage_mult cb (weapon_skill_key R p)"
    and "cm = (if f32_lt (crit_roll r) (crit_chance_of cb off) then crit_size r else F32_ONE)"
  have sm: "factor_ok sm" using skill_mult_ok assms(2) by (simp add: sm_def ordinary_def)
  have "f32_le F32_ONE 0x40000000" by (simp add: F32_ONE_def f32_eval)
  moreover have "f32_nn (crit_size r)" using assms(1) f32_nn_below [of "crit_size r" "0x40000000"] two_facts nn_key [OF one_val(1)]
    by (simp add: rolls_ok_def f32_le_def f32_nn_def)
  ultimately have cm: "factor_ok cm" using assms(1) one_val by (simp add: cm_def factor_ok_def rolls_ok_def)
  let ?x = "swing_base R cb p off False r" and ?y = "swing_base R cb p off True r" and ?t = "f32_of_int (2 ^ 22)"
  let ?dealt = "\<lambda>b. max (f32_to_i32 (f32_mul (f32_mul (f32_of_int b) sm) cm)) 1"
  have "?dealt ?x \<le> ?dealt ?y"
  proof (cases "?x \<le> 0")
    case True
    then have "f32_to_i32 (f32_mul (f32_mul (f32_of_int ?x) sm) cm) \<le> 0"
      using sm cm by (intro nonpos_i32 nonpos_mul nonpos_of_int) (simp_all add: factor_ok_def)
    then show ?thesis by simp
  next
    case False
    then have x: "0 \<le> ?x" "?x \<le> ?y" "?y \<le> 2 ^ 22" using sb by simp_all
    have t: "f32_nn ?t" using small_int [of "2 ^ 22"] by simp
    have ix: "f32_nn (f32_of_int ?x)" "f32_nn (f32_of_int ?y)" using small_int [of ?x] small_int [of ?y] x by simp_all
    have le: "f32_le (f32_of_int ?x) (f32_of_int ?y)" "f32_le (f32_of_int ?y) ?t" using f32_of_int_mono x by simp_all
    note one = scaled_mono [OF ix le(1) sm le(2) t two_facts(3)]
    have t2: "f32_nn (f32_mul 0x40000000 ?t)" using f32_mul_nn_key [OF two_facts(1) t] two_facts(3) f32_key_sign by (simp add: f32_nn_def)
    note two = scaled_mono [OF one(1,2,3) cm one(4) t2 two_facts(4)]
    from f32_to_i32_mono [OF two(1,2,3)] show ?thesis by simp
  qed
  then show ?thesis
    unfolding calc_swing_def calc_swing_max_def swing_with_def Let_def sm_def [symmetric] cm_def [symmetric] by (auto simp: le_max_iff_disj)
qed

theorem sitting_takes_the_worst_witness:
  "let r = \<lparr>miss_roll = 0x3f000000, band_roll = 0, fist_roll = 2, crit_roll = 0x3f000000, crit_size = 0x40000000\<rparr>
   in \<not> sw_missed (calc_swing_max [] (demo_conn, demo_body) [] False r)
     \<and> sw_amount (calc_swing [] (demo_conn, demo_body) [] False r) \<le> sw_amount (calc_swing_max [] (demo_conn, demo_body) [] False r)"
proof -
  let ?r = "\<lparr>miss_roll = 0x3f000000, band_roll = 0, fist_roll = 2, crit_roll = 0x3f000000, crit_size = 0x40000000\<rparr>"
  have rolls: "rolls_ok [] [] ?r" by (simp add: rolls_ok_def F32_ONE_def f32_eval lookup_def)
  have able: "ordinary [] [] (demo_conn, demo_body)" by (simp add: ordinary_def demo_body_def lookup_def)
  show ?thesis unfolding Let_def using sitting_takes_the_worst [OF rolls able, of False] by blast
qed

end
