(* ===== verification/Alignment.thy ===== *)
theory Alignment
  imports Swings Spells
begin

text \<open>
  Alignment (\<open>world/alignment.rs\<close>): one score from evil to good, its tiers, the momentum rule, and what it does to the prestige
  classes.
\<close>

section \<open>Tiers\<close>

definition SCORE_CAP :: f32 where "SCORE_CAP = 0x44fa0000"

text \<open>0.00001.\<close>

definition SPELL_MANA_FRACTION :: f32 where "SPELL_MANA_FRACTION = 0x3727c5ac"

datatype align_tier = TierEvil | TierBad | TierNeutral | TierGood | TierExalted

text \<open>1500, 300, -300, -1500.\<close>

definition tier_for :: "f32 \<Rightarrow> align_tier" where
  "tier_for score =
     (if f32_le 0x44bb8000 score then TierExalted
      else if f32_le 0x43960000 score then TierGood
      else if f32_le 0xc3960000 score then TierNeutral
      else if f32_le 0xc4bb8000 score then TierBad
      else TierEvil)"

fun tier_name :: "align_tier \<Rightarrow> string" where
  "tier_name TierEvil = ''Evil''"
| "tier_name TierBad = ''Bad''"
| "tier_name TierNeutral = ''Neutral''"
| "tier_name TierGood = ''Good''"
| "tier_name TierExalted = ''Exalted''"

definition starting_score :: "string \<Rightarrow> f32" where
  "starting_score cl =
     (if cl = ''Paladin'' then 0x43fa0000
      else if cl = ''Cleric'' then 0x43c80000
      else if cl = ''Monk'' \<or> cl = ''Witch Hunter'' then 0x42c80000
      else if cl = ''Blood Mage'' then 0xc3fa0000
      else if cl = ''Shadow Knight'' \<or> cl = ''Necromancer'' then 0xc4c80000
      else 0)"

section \<open>Moving the score\<close>

definition f32_zero :: "f32 \<Rightarrow> bool" where
  "f32_zero a \<longleftrightarrow> f32_mag a = 0"

definition align_apply :: "f32 \<Rightarrow> f32 \<Rightarrow> f32" where
  "align_apply score delta =
     (if f32_zero delta then score
      else
        let away = (f32_lt 0 score \<and> f32_lt 0 delta) \<or> (f32_lt score 0 \<and> f32_lt delta 0);
            scaled = (if away then f32_mul delta (f32_max (f32_sub F32_ONE (f32_div (f32_abs score) SCORE_CAP)) 0) else delta)
        in f32_clamp (f32_add score scaled) (f32_neg SCORE_CAP) SCORE_CAP)"

definition kill_delta :: "string option \<Rightarrow> bool \<Rightarrow> f32" where
  "kill_delta t named =
     (let k = (case t of None \<Rightarrow> ''neutral'' | Some s \<Rightarrow> s) in
      if k = ''exalted'' then 0xc2a00000
      else if k = ''good'' then 0xc1f00000
      else if k = ''innocent'' then 0xc2700000
      else if k = ''bad'' then 0x41200000
      else if k = ''evil'' then (if named then 0x42480000 else 0x41c80000)
      else if k = ''undead'' then (if named then 0x42480000 else 0x41a00000)
      else 0)"

definition spell_sign :: "spell \<Rightarrow> f32" where
  "spell_sign s =
     (let hostile = target_type s \<in> {''ENEMY'', ''AOE''} \<and> f32_lt 0 (base_damage s) in
      if target_type s = ''PET_CHARM'' then 0xbf800000
      else if f32_lt 0 (hp_cost s) then 0xbf800000
      else if target_type s = ''PET_SUMMON'' \<and> spell_damage_type s = ''SHADOW'' then 0xbf800000
      else if hostile \<and> spell_damage_type s = ''SHADOW'' then 0xbf800000
      else if hostile \<and> spell_damage_type s = ''HOLY'' then F32_ONE
      else if f32_lt 0 (heal_amount s) \<or> f32_lt 0 (hot_hps s) then F32_ONE
      else 0)"

definition spell_delta :: "spell \<Rightarrow> f32" where
  "spell_delta s = f32_mul (f32_mul (spell_sign s) (mana_cost s)) SPELL_MANA_FRACTION"

section \<open>The prestige classes\<close>

definition effective_class :: "string \<Rightarrow> f32 \<Rightarrow> string" where
  "effective_class cl score =
     (if cl = ''Paladin'' \<and> tier_for score = TierEvil then ''Paladin_Fallen''
      else if cl = ''Shadow Knight'' \<and> tier_for score = TierExalted then ''Shadow Knight_Redeemed''
      else cl)"

definition off_side_multiplier :: "string \<Rightarrow> f32 \<Rightarrow> f32" where
  "off_side_multiplier cl score =
     (let t = tier_for score in
      if cl \<in> {''Paladin'', ''Shadow Knight''} \<and> t = TierNeutral then 0x3f333333
      else if cl = ''Paladin'' \<and> t = TierBad \<or> cl = ''Shadow Knight'' \<and> t = TierGood then 0x3ecccccd
      else F32_ONE)"

definition penalise :: "spell \<Rightarrow> f32 \<Rightarrow> spell" where
  "penalise s m =
     s\<lparr>base_damage := f32_mul (base_damage s) m, heal_amount := f32_mul (heal_amount s) m, hot_hps := f32_mul (hot_hps s) m,
       mp_regen_hps := f32_mul (mp_regen_hps s) m\<rparr>"

section \<open>The score moves with the deed and stays in its range\<close>

definition score_ok :: "f32 \<Rightarrow> bool" where
  "score_ok s \<longleftrightarrow> f32_finite s \<and> \<bar>f32_val s\<bar> \<le> 2000 * 2 ^ 149"

lemma cap_facts: "f32_finite SCORE_CAP" "f32_val SCORE_CAP = 2000 * 2 ^ 149" "f32_nn SCORE_CAP" "f32_finite 0" "f32_val 0 = 0"
  by (simp_all add: SCORE_CAP_def f32_nn_def f32_eval)

lemma momentum:
  assumes "score_ok s"
  shows "f32_nn (f32_max (f32_sub F32_ONE (f32_div (f32_abs s) SCORE_CAP)) 0)"
    "f32_val (f32_max (f32_sub F32_ONE (f32_div (f32_abs s) SCORE_CAP)) 0) \<le> 2 ^ 149"
proof -
  have a: "f32_finite (f32_abs s)" "f32_val (f32_abs s) = \<bar>f32_val s\<bar>"
    using assms f32_mag_less [of s] by (simp_all add: score_ok_def f32_abs_def f32_finite_def f32_val_def)
  then have nn: "f32_nn (f32_abs s)" by (simp add: f32_nn_def)
  have d: "f32_nn (f32_div (f32_abs s) SCORE_CAP)" "f32_val (f32_div (f32_abs s) SCORE_CAP) \<le> 2 ^ 149"
    using f32_div_le_one [OF nn cap_facts(3)] a assms cap_facts(2) by (simp_all add: score_ok_def)
  note y = rest_of_one [OF d]
  have z: "f32_nn 0" using cap_facts by (simp add: f32_nn_def)
  show "f32_nn (f32_max (f32_sub F32_ONE (f32_div (f32_abs s) SCORE_CAP)) 0)"
    "f32_val (f32_max (f32_sub F32_ONE (f32_div (f32_abs s) SCORE_CAP)) 0) \<le> 2 ^ 149"
    using y z cap_facts by (auto simp: f32_max_def)
qed

lemma clamp_range:
  assumes "\<not> f32_nan x"
  shows "score_ok (f32_clamp x (f32_neg SCORE_CAP) SCORE_CAP)"
    "f32_finite s \<Longrightarrow> f32_le s SCORE_CAP \<Longrightarrow> f32_le s x \<Longrightarrow> f32_le s (f32_clamp x (f32_neg SCORE_CAP) SCORE_CAP)"
    "f32_finite s \<Longrightarrow> f32_le (f32_neg SCORE_CAP) s \<Longrightarrow> f32_le x s \<Longrightarrow> f32_le (f32_clamp x (f32_neg SCORE_CAP) SCORE_CAP) s"
proof -
  have k: "f32_key SCORE_CAP = int 1157234688" "f32_key (f32_neg SCORE_CAP) = - int 1157234688" "\<not> f32_nan SCORE_CAP" "\<not> f32_nan (f32_neg SCORE_CAP)"
    "f32_finite (f32_neg SCORE_CAP)" "f32_val (f32_neg SCORE_CAP) = - (2000 * 2 ^ 149)"
    using cap_facts by (simp_all add: SCORE_CAP_def f32_key_def f32_eval)
  have fin: "f32_finite x" if "\<bar>f32_key x\<bar> \<le> int 1157234688"
    using that by (auto simp: f32_key_def f32_finite_def F32_INF_def split: if_splits)
  let ?c = "f32_clamp x (f32_neg SCORE_CAP) SCORE_CAP"
  have cases: "?c = f32_neg SCORE_CAP \<and> f32_key x < - int 1157234688 \<or> ?c = SCORE_CAP \<and> int 1157234688 < f32_key x
      \<or> ?c = x \<and> \<bar>f32_key x\<bar> \<le> int 1157234688"
    using assms k by (auto simp: f32_clamp_def f32_lt_def Let_def)
  have mid: "\<bar>f32_val x\<bar> \<le> 2000 * 2 ^ 149" if "\<bar>f32_key x\<bar> \<le> int 1157234688"
  proof -
    have "f32_le x SCORE_CAP" "f32_le (f32_neg SCORE_CAP) x" using that assms k by (auto simp: f32_le_def)
    then show ?thesis using f32_le_val fin [OF that] cap_facts k by fastforce
  qed
  show "score_ok ?c" using cases cap_facts k mid fin by (auto simp: score_ok_def)
  show "f32_finite s \<Longrightarrow> f32_le s SCORE_CAP \<Longrightarrow> f32_le s x \<Longrightarrow> f32_le s ?c"
    using cases k by (auto simp: f32_le_def)
  show "f32_finite s \<Longrightarrow> f32_le (f32_neg SCORE_CAP) s \<Longrightarrow> f32_le x s \<Longrightarrow> f32_le ?c s"
    using cases k by (auto simp: f32_le_def)
qed

lemma rkey_zero: "rkey 0 149 = 0" "f32_key 0 = 0" "\<not> f32_nan 0"
  by (simp_all add: rkey_def f32_key_def f32_eval)

text \<open>A product with a factor of at most one keeps its side and is no further from zero.\<close>

lemma scaled_delta:
  assumes "f32_finite d" "f32_nn f" "f32_val f \<le> 2 ^ 149"
  shows "f32_finite (f32_mul d f)" "0 \<le> f32_val d \<Longrightarrow> 0 \<le> f32_val (f32_mul d f)" "f32_val d \<le> 0 \<Longrightarrow> f32_val (f32_mul d f) \<le> 0"
proof -
  have f: "f32_finite f" "0 \<le> f32_val f" using assms(2) by (simp_all add: f32_nn_def)
  note key = f32_mul_key [OF assms(1) f]
  have "\<bar>f32_val d * f32_val f\<bar> \<le> \<bar>f32_val d\<bar> * 2 ^ 149" using assms(3) f(2) by (simp add: abs_mult mult_left_mono)
  then have b: "f32_val d * f32_val f \<le> \<bar>f32_val d\<bar> * 2 ^ 149" "- (\<bar>f32_val d\<bar> * 2 ^ 149) \<le> f32_val d * f32_val f" by linarith+
  have r: "rkey (\<bar>f32_val d\<bar> * 2 ^ 149) 149 = \<bar>f32_key d\<bar>" "rkey (- (\<bar>f32_val d\<bar> * 2 ^ 149)) 149 = - \<bar>f32_key d\<bar>"
    using f32_key_val [OF assms(1)] rkey_shift [of "\<bar>f32_val d\<bar>"] rkey_shift [of "- \<bar>f32_val d\<bar>"] by (auto simp: rkey_def abs_if)
  have "\<bar>f32_key (f32_mul d f)\<bar> \<le> \<bar>f32_key d\<bar>"
    using rkey_mono [OF b(1), of 149] rkey_mono [OF b(2), of 149] key(1) r by linarith
  then show fin: "f32_finite (f32_mul d f)" using assms(1) by (auto simp: f32_finite_def f32_key_def split: if_splits)
  show "0 \<le> f32_val d \<Longrightarrow> 0 \<le> f32_val (f32_mul d f)"
  proof -
    assume d: "0 \<le> f32_val d"
    have "0 \<le> f32_val d * f32_val f" using d f(2) by (rule mult_nonneg_nonneg)
    then have "0 \<le> rkey (f32_val d * f32_val f) 149" by (auto simp: rkey_def dest: leD)
    then have "0 \<le> f32_key (f32_mul d f)" by (simp only: key(1))
    then have "f32_le 0 (f32_mul d f)" using key(2) rkey_zero by (simp add: f32_le_def)
    then show ?thesis using f32_le_val [of 0 "f32_mul d f"] fin cap_facts by simp
  qed
  show "f32_val d \<le> 0 \<Longrightarrow> f32_val (f32_mul d f) \<le> 0"
  proof -
    assume d: "f32_val d \<le> 0"
    then have "f32_val d * f32_val f \<le> 0" using f(2) by (simp add: mult_nonpos_nonneg)
    from rkey_mono [OF this, of 149] have "f32_key (f32_mul d f) \<le> 0" by (simp only: key(1) rkey_zero(1))
    then have "f32_le (f32_mul d f) 0" using key(2) rkey_zero by (simp add: f32_le_def)
    then show ?thesis using f32_le_val [OF fin] cap_facts by simp
  qed
qed

text \<open>A move never goes against its sign and stays in the range.\<close>

lemma align_apply_side:
  assumes "score_ok s" "f32_finite d"
  shows "score_ok (align_apply s d) \<and> (0 \<le> f32_val d \<longrightarrow> f32_le s (align_apply s d)) \<and> (f32_val d \<le> 0 \<longrightarrow> f32_le (align_apply s d) s)"
proof (cases "f32_zero d")
  case True
  then show ?thesis using assms(1) by (simp add: align_apply_def f32_le_refl score_ok_def)
next
  case False
  have s: "f32_finite s" using assms(1) by (simp add: score_ok_def)
  define m where "m = f32_max (f32_sub F32_ONE (f32_div (f32_abs s) SCORE_CAP)) 0"
  note mo = momentum [OF assms(1), folded m_def]
  define x where "x = (if (f32_lt 0 s \<and> f32_lt 0 d) \<or> (f32_lt s 0 \<and> f32_lt d 0) then f32_mul d m else d)"
  have x: "f32_finite x" "0 \<le> f32_val d \<Longrightarrow> 0 \<le> f32_val x" "f32_val d \<le> 0 \<Longrightarrow> f32_val x \<le> 0"
    using scaled_delta [OF assms(2) mo] assms(2) by (auto simp: x_def)
  have app: "align_apply s d = f32_clamp (f32_add s x) (f32_neg SCORE_CAP) SCORE_CAP"
    using False by (simp add: align_apply_def Let_def x_def m_def)
  have nan: "\<not> f32_nan (f32_add s x)" using f32_add_key(2) s x(1) .
  note cl = clamp_range [OF nan]
  have caps: "f32_le s SCORE_CAP" "f32_le (f32_neg SCORE_CAP) s"
    using assms(1) f32_le_val cap_facts by (auto simp: score_ok_def)
  have "f32_le s (f32_add s x)" if "0 \<le> f32_val d" using f32_add_up [OF s x(1) x(2) [OF that]] .
  moreover have "f32_le (f32_add s x) s" if "f32_val d \<le> 0" using f32_add_down [OF s x(1) x(3) [OF that]] .
  ultimately show ?thesis using cl(1) cl(2) [OF s caps(1)] cl(3) [OF s caps(2)] unfolding app by blast
qed

section \<open>Deeds\<close>

text \<open>Spells of the dark and of the bright side, by what they do; and the kinds of victim.\<close>

definition dark_spell :: "spell \<Rightarrow> bool" where
  "dark_spell s \<longleftrightarrow> target_type s = ''PET_CHARM'' \<or> f32_lt 0 (hp_cost s)
     \<or> (target_type s = ''PET_SUMMON'' \<and> spell_damage_type s = ''SHADOW'')
     \<or> (target_type s \<in> {''ENEMY'', ''AOE''} \<and> f32_lt 0 (base_damage s) \<and> spell_damage_type s = ''SHADOW'')"

definition bright_spell :: "spell \<Rightarrow> bool" where
  "bright_spell s \<longleftrightarrow> \<not> dark_spell s
     \<and> (target_type s \<in> {''ENEMY'', ''AOE''} \<and> f32_lt 0 (base_damage s) \<and> spell_damage_type s = ''HOLY''
        \<or> f32_lt 0 (heal_amount s) \<or> f32_lt 0 (hot_hps s))"

lemma sign_of_spell: "spell_sign s = (if dark_spell s then 0xbf800000 else if bright_spell s then F32_ONE else 0)"
  by (auto simp: spell_sign_def dark_spell_def bright_spell_def Let_def)

lemma minus_one_mul:
  assumes "f32_nn m"
  shows "f32_finite (f32_mul 0xbf800000 m)" "f32_val (f32_mul 0xbf800000 m) \<le> 0"
proof -
  have one: "f32_finite 0xbf800000" "f32_val 0xbf800000 = - (2 ^ 149)" by (simp_all add: f32_eval)
  have m: "f32_finite m" "0 \<le> f32_val m" using assms by (simp_all add: f32_nn_def)
  note key = f32_mul_key [OF one(1) m]
  have "rkey (f32_val 0xbf800000 * f32_val m) 149 = rkey (- f32_val m) 0" using rkey_shift [of "- f32_val m"] one(2) by (simp add: mult.commute)
  also have "\<dots> = - f32_key m" using f32_key_val [OF m(1)] m(2) by (auto simp: rkey_def)
  finally have k: "f32_key (f32_mul 0xbf800000 m) = - f32_key m" using key(1) by simp
  then show fin: "f32_finite (f32_mul 0xbf800000 m)" using m(1) by (auto simp: f32_finite_def f32_key_def split: if_splits)
  have "0 \<le> f32_key m" using f32_key_sign [OF m(1)] m(2) by simp
  then have "f32_le (f32_mul 0xbf800000 m) 0" using k key(2) rkey_zero by (simp add: f32_le_def)
  then show "f32_val (f32_mul 0xbf800000 m) \<le> 0" using f32_le_val [OF fin] cap_facts by simp
qed

lemma zero_mul: "f32_finite b \<Longrightarrow> f32_finite a \<Longrightarrow> f32_mag a = 0 \<Longrightarrow> f32_mag (f32_mul a b) = 0"
proof -
  have z: "round_scaled 0 149 = 0" "mag_units 0 = 0" by (simp_all add: f32_eval)
  show "f32_finite b \<Longrightarrow> f32_finite a \<Longrightarrow> f32_mag a = 0 \<Longrightarrow> f32_mag (f32_mul a b) = 0"
    using finite_not_nan by (auto simp: f32_mul_def Let_def z)
qed

lemma fraction: "f32_nn SPELL_MANA_FRACTION" "f32_val SPELL_MANA_FRACTION \<le> 2 ^ 149"
  by (simp_all add: SPELL_MANA_FRACTION_def f32_nn_def f32_eval)

lemma one_mul: "f32_nn m \<Longrightarrow> f32_nn (f32_mul F32_ONE m)"
  using scaled_delta(1,2) [of m F32_ONE] one_val f32_mul_comm [of F32_ONE m] by (simp add: f32_nn_def)

lemma spell_delta_side:
  assumes "f32_nn (mana_cost s)"
  shows "f32_finite (spell_delta s)" "bright_spell s \<Longrightarrow> 0 \<le> f32_val (spell_delta s)" "dark_spell s \<Longrightarrow> f32_val (spell_delta s) \<le> 0"
    "\<not> bright_spell s \<Longrightarrow> \<not> dark_spell s \<Longrightarrow> f32_zero (spell_delta s)"
proof -
  let ?x = "f32_mul (spell_sign s) (mana_cost s)"
  have m: "f32_finite (mana_cost s)" using assms by (simp add: f32_nn_def)
  have z: "f32_finite 0" "f32_mag 0 = 0" by (simp_all add: f32_eval)
  have zz: "f32_mag (f32_mul 0 (mana_cost s)) = 0" by (rule zero_mul [OF m z])
  then have zf: "f32_finite (f32_mul 0 (mana_cost s))" by (simp add: f32_finite_def F32_INF_def)
  have x: "f32_finite ?x" "bright_spell s \<Longrightarrow> 0 \<le> f32_val ?x" "dark_spell s \<Longrightarrow> f32_val ?x \<le> 0"
    using one_mul [OF assms] minus_one_mul [OF assms] zf unfolding sign_of_spell by (auto simp: f32_nn_def bright_spell_def)
  note sc = scaled_delta [OF x(1) fraction]
  show "f32_finite (spell_delta s)" "bright_spell s \<Longrightarrow> 0 \<le> f32_val (spell_delta s)" "dark_spell s \<Longrightarrow> f32_val (spell_delta s) \<le> 0"
    using sc x(2,3) by (simp_all add: spell_delta_def)
  show "\<not> bright_spell s \<Longrightarrow> \<not> dark_spell s \<Longrightarrow> f32_zero (spell_delta s)"
    using zero_mul [OF _ zf zz, of SPELL_MANA_FRACTION] fraction by (simp add: spell_delta_def sign_of_spell f32_zero_def f32_nn_def)
qed

definition evil_kind :: "string option \<Rightarrow> bool" where
  "evil_kind t \<longleftrightarrow> t \<in> {Some ''bad'', Some ''evil'', Some ''undead''}"

definition good_kind :: "string option \<Rightarrow> bool" where
  "good_kind t \<longleftrightarrow> t \<in> {Some ''exalted'', Some ''good'', Some ''innocent''}"

lemma kill_delta_side:
  shows "f32_finite (kill_delta t named)" "evil_kind t \<Longrightarrow> f32_lt 0 (kill_delta t named) \<and> 0 \<le> f32_val (kill_delta t named)"
    "good_kind t \<Longrightarrow> f32_lt (kill_delta t named) 0 \<and> f32_val (kill_delta t named) \<le> 0"
    "\<not> evil_kind t \<Longrightarrow> \<not> good_kind t \<Longrightarrow> kill_delta t named = 0"
proof -
  show "f32_finite (kill_delta t named)"
    by (simp add: kill_delta_def Let_def f32_eval split: option.splits)
  show "evil_kind t \<Longrightarrow> f32_lt 0 (kill_delta t named) \<and> 0 \<le> f32_val (kill_delta t named)"
    by (auto simp: evil_kind_def kill_delta_def f32_lt_def f32_key_def f32_eval)
  show "good_kind t \<Longrightarrow> f32_lt (kill_delta t named) 0 \<and> f32_val (kill_delta t named) \<le> 0"
    by (auto simp: good_kind_def kill_delta_def f32_lt_def f32_key_def f32_eval)
  show "\<not> evil_kind t \<Longrightarrow> \<not> good_kind t \<Longrightarrow> kill_delta t named = 0"
    by (auto simp: evil_kind_def good_kind_def kill_delta_def Let_def split: option.splits)
qed

lemma kill_delta_values:
  "kill_delta t named \<in> {0xc2a00000, 0xc1f00000, 0xc2700000, 0x41200000, 0x42480000, 0x41c80000, 0x41a00000, 0}"
  by (simp add: kill_delta_def Let_def)

lemma from_the_centre: "align_apply 0 (kill_delta t named) = kill_delta t named"
proof -
  have still: "\<not> f32_lt 0 0" by (simp add: f32_lt_def)
  have "if f32_zero d then d = 0 else f32_clamp (f32_add 0 d) (f32_neg SCORE_CAP) SCORE_CAP = d"
    if "d \<in> {0xc2a00000, 0xc1f00000, 0xc2700000, 0x41200000, 0x42480000, 0x41c80000, 0x41a00000, 0}" for d
    using that by (elim insertE emptyE) (simp_all add: f32_zero_def f32_clamp_def SCORE_CAP_def f32_lt_def f32_key_def f32_eval)
  from this [OF kill_delta_values [of t named]] show ?thesis by (auto simp: align_apply_def still Let_def split: if_splits)
qed


text \<open>A cleric's first spell: twelve mana, holy damage.\<close>

definition demo_smite :: spell where
  "demo_smite =
     \<lparr>spell_name = ''Smite'', target_type = ''ENEMY'', spell_damage_type = ''HOLY'', base_damage = 0x41200000,
      heal_amount = 0, mana_cost = 0x41400000, hp_cost = 0, cast_time = 0, cooldown = 0, aoe_radius = 0, min_level = 0,
      classes = [], res_xp_percent = 0, summon_item = [], summon_max = 0, class_min_levels = [], song_scale_at_learn =
      0, hot_hps = 0, hot_duration = 0, mp_regen_hps = 0, mp_regen_duration = 0, spell_is_lich_form = False,
      lich_mp_regen = 0, str_buff = 0, agi_buff = 0, int_buff = 0, wis_buff = 0, con_buff = 0, max_hp_buff = 0,
      max_mp_buff = 0, primary_stat_buff_duration = 0, move_speed_mult = 0, move_speed_duration = 0, haste_amount = 0,
      haste_duration = 0, damage_shield_amount = 0, damage_shield_duration = 0, absorb_amount = 0, accuracy_buff = 0,
      crit_buff = 0, stat_buff_duration = 0, pet_type = [], port = [], port_group = False, is_song = False, dot_dps = 0,
      dot_duration = 0, spell_duration = 0, cc_duration = 0, root_duration = 0, slow_amount = 0, slow_duration = 0,
      attack_slow_amount = 0, attack_slow_duration = 0, silence_duration = 0, is_dispel = False, spell_range = 0\<rparr>"


end
