(* ===== verification/Casts.thy ===== *)
theory Casts
  imports Alignment CharData
begin

text \<open>
  The gate in front of a cast (\<open>world/cast_gate.rs\<close>) and the memorized spells (\<open>world/spell_gems.rs\<close>).  Rolls and clock readings
  are arguments; times are milliseconds.
\<close>

section \<open>Timing\<close>

definition CAST_TOLERANCE_MS :: nat where "CAST_TOLERANCE_MS = 100"

definition CAST_HOLD_GRACE_MS :: nat where "CAST_HOLD_GRACE_MS = 2000"

datatype cast_timing_verdict = NotReady | Ready | Held

definition cast_timing :: "nat option \<Rightarrow> nat \<Rightarrow> cast_timing_verdict" where
  "cast_timing elapsed required =
     (case elapsed of
        None \<Rightarrow> NotReady
      | Some e \<Rightarrow> if e + CAST_TOLERANCE_MS < required then NotReady
                  else if required + CAST_HOLD_GRACE_MS < e then Held else Ready)"

definition beaten_by_interrupt :: "instant option \<Rightarrow> instant option \<Rightarrow> bool" where
  "beaten_by_interrupt interrupted_at bar_began_at =
     (case (interrupted_at, bar_began_at) of (Some hit, Some began) \<Rightarrow> began \<le> hit | _ \<Rightarrow> False)"

section \<open>What a failed cast costs\<close>

text \<open>1000.0; 10.0 and 0.25.\<close>

definition interrupt_charge :: "f32 \<Rightarrow> f32 \<Rightarrow> nat option \<Rightarrow> int \<Rightarrow> f32 \<Rightarrow> f32" where
  "interrupt_charge cost cast_time_s elapsed damage_applied mp_now =
     (if damage_applied \<le> 0 \<or> f32_le cast_time_s 0 \<or> f32_le cost 0 then 0
      else case elapsed of
        None \<Rightarrow> 0
      | Some e \<Rightarrow>
          let fraction = f32_clamp (f32_div (f32_of_int (int e)) (f32_mul cast_time_s 0x447a0000)) 0 F32_ONE
          in f32_max (f32_min (f32_mul cost fraction) mp_now) 0)"

definition FIZZLE_BASE_PERCENT :: f32 where "FIZZLE_BASE_PERCENT = 0x41200000"

definition FIZZLE_MANA_FRACTION :: f32 where "FIZZLE_MANA_FRACTION = 0x3e800000"

definition FIZZLE_LINE :: string where "FIZZLE_LINE = ''Your spell fizzles!''"

text \<open>20.0, 5.0, 1.0 and 95.0.\<close>

definition fizzle_chance :: "int \<Rightarrow> int \<Rightarrow> int \<Rightarrow> int \<Rightarrow> bool \<Rightarrow> f32" where
  "fizzle_chance spell_level skill0 level0 prime_stat bard =
     (let par_skill = wrap32 (min (wrap32 (wrap32 (spell_level * 5) - 10)) 235 + spell_level);
          act_skill = wrap32 (skill0 + level0);
          diff0 = f32_of_int (wrap32 (par_skill - act_skill));
          stat_par = (if bard then 110 else 125);
          diff = f32_sub diff0 (f32_div (f32_of_int (wrap32 (prime_stat - stat_par))) 0x41a00000)
      in f32_clamp (f32_add FIZZLE_BASE_PERCENT (f32_div diff 0x40a00000)) F32_ONE 0x42be0000)"

definition fizzles :: "f32 \<Rightarrow> f32 \<Rightarrow> bool" where
  "fizzles chance_percent roll = f32_le roll chance_percent"

definition fizzle_mana :: "f32 \<Rightarrow> f32 \<Rightarrow> f32" where
  "fizzle_mana cost mp_now = f32_max (f32_min (f32_mul cost FIZZLE_MANA_FRACTION) mp_now) 0"

definition casting_score :: "string \<Rightarrow> body \<Rightarrow> int" where
  "casting_score discipline b = current_score b CastingSkill discipline"

definition roll_fizzle :: "f32 \<Rightarrow> connection \<times> body \<Rightarrow> spell \<Rightarrow> bool" where
  "roll_fizzle roll cb s =
     (if is_song s then False
      else
        let c = fst cb; b = snd cb; bard = cls c = ''Bard'';
            stat = (if bard then charisma b else case mana_stat (cls c) of Some ManaWis \<Rightarrow> wisdom b | _ \<Rightarrow> intelligence b)
        in fizzles (fizzle_chance (required_level s (cls c)) (casting_score (discipline_for_spell (spell_name s)) b) (clevel b) (sint stat) bard)
             roll)"

section \<open>The memorized spells\<close>

definition GEM_COUNT :: int where "GEM_COUNT = 10"

definition MIN_GEMS :: int where "MIN_GEMS = 3"

definition LEVELS_PER_EXTRA_GEM :: int where "LEVELS_PER_EXTRA_GEM = 5"

definition unlocked_gems :: "int \<Rightarrow> int" where
  "unlocked_gems level0 = max MIN_GEMS (min GEM_COUNT (MIN_GEMS + level0 sdiv LEVELS_PER_EXTRA_GEM))"

text \<open>The class is the one the character casts as.\<close>

definition check_gem :: "spell_book \<Rightarrow> string \<Rightarrow> int \<Rightarrow> int \<Rightarrow> string \<Rightarrow> string + spell" where
  "check_gem book cl level0 gem sname =
     (if gem < 0 \<or> unlocked_gems level0 \<le> gem then Inl ''That gem is not open to you yet.''
      else case spell_lookup book sname of
        None \<Rightarrow> Inl ''That spell isn't known here yet.''
      | Some s \<Rightarrow>
          if cl \<notin> set (classes s) \<or> level0 < required_level s cl then Inl ''You cannot memorize that spell.''
          else Inr s)"

definition gem_snapshot :: "(int \<times> string) list \<Rightarrow> string list" where
  "gem_snapshot gems = map (\<lambda>g. case map_of gems (int g) of None \<Rightarrow> [] | Some s \<Rightarrow> s) [0..<10]"

definition is_memorized :: "(int \<times> string) list \<Rightarrow> string \<Rightarrow> bool" where
  "is_memorized gems sname = list_ex (\<lambda>(_, s). s = sname) gems"

definition seed_gem :: "spell_book \<Rightarrow> string \<Rightarrow> int \<Rightarrow> nat \<times> string \<Rightarrow> (int \<times> string) list \<times> nat \<Rightarrow> (int \<times> string) list \<times> nat" where
  "seed_gem book cl level0 entry0 acc =
     (case entry0 of (g, sname) \<Rightarrow>
      case acc of (gems, taken) \<Rightarrow>
        if sname = [] then acc
        else case check_gem book cl level0 (int g) sname of
          Inl _ \<Rightarrow> acc
        | Inr _ \<Rightarrow> (AList.update (int g) sname gems, Suc taken))"

definition seed_gems :: "spell_book \<Rightarrow> string \<Rightarrow> int \<Rightarrow> string list \<Rightarrow> (int \<times> string) list \<Rightarrow> (int \<times> string) list \<times> nat" where
  "seed_gems book cl level0 offered gems = fold (seed_gem book cl level0) (zip [0..<length offered] offered) (gems, 0)"

section \<open>Costs\<close>

lemma capped:
  assumes "f32_nn m"
  shows "within (f32_max (f32_min x m) 0) m"
proof -
  have z: "f32_nn 0" "f32_key 0 = 0" "\<not> f32_nan 0" using cap_facts by (simp_all add: f32_nn_def f32_eval)
  have m: "\<not> f32_nan m" "0 \<le> f32_key m" using assms f32_nnD nn_key by blast+
  have y: "\<not> f32_nan (f32_min x m)" "f32_key (f32_min x m) \<le> f32_key m" using m by (auto simp: f32_min_def f32_lt_def)
  then have le: "f32_le (f32_max (f32_min x m) 0) m" "0 \<le> f32_key (f32_max (f32_min x m) 0)"
    using z m by (auto simp: f32_max_def f32_lt_def f32_le_def)
  have "f32_nn (f32_max (f32_min x m) 0)" using f32_nn_below [OF le(1) _ le(2)] assms by (simp add: f32_nn_def)
  then show ?thesis using le(1) assms by (simp add: within_def)
qed

lemma clamp_percent:
  assumes "\<not> f32_nan x"
  shows "f32_le F32_ONE (f32_clamp x F32_ONE 0x42be0000)" "f32_le (f32_clamp x F32_ONE 0x42be0000) 0x42be0000"
proof -
  have k: "f32_key F32_ONE = 1065353216" "f32_key 0x42be0000 = 1119748096" "\<not> f32_nan F32_ONE" "\<not> f32_nan 0x42be0000"
    by (simp_all add: F32_ONE_def f32_key_def f32_eval)
  show "f32_le F32_ONE (f32_clamp x F32_ONE 0x42be0000)" "f32_le (f32_clamp x F32_ONE 0x42be0000) 0x42be0000"
    using assms k by (auto simp: f32_clamp_def f32_lt_def f32_le_def Let_def)
qed

text \<open>An integer as a float is finite, and so are its quotients here.\<close>

lemma of_i32_finite: "\<bar>n\<bar> \<le> 2147483648 \<Longrightarrow> f32_finite (f32_of_int n)"
proof -
  assume n: "\<bar>n\<bar> \<le> 2147483648"
  have "round_scaled (nat \<bar>n\<bar> * 2 ^ 149) 0 \<le> round_scaled (2147483648 * 2 ^ 149) 0" using n by (intro round_scaled_mono mult_right_mono) simp_all
  also have "\<dots> < F32_INF" by (simp add: f32_eval)
  finally have "round_scaled (nat \<bar>n\<bar> * 2 ^ 149) 0 < F32_INF" .
  then show ?thesis by (simp add: f32_finite_def f32_of_int_def F32_INF_def)
qed

lemma wrap32_range: "\<bar>wrap32 n\<bar> \<le> 2147483648"
  using pos_mod_bound [of 4294967296 "n + 2147483648"] pos_mod_sign [of 4294967296 "n + 2147483648"] by (simp add: wrap32_def)

lemma div_not_nan: "\<not> f32_nan a \<Longrightarrow> f32_finite b \<Longrightarrow> f32_mag b \<noteq> 0 \<Longrightarrow> \<not> f32_nan (f32_div a b)"
proof -
  have inf: "\<not> f32_nan (f32_pack s F32_INF)" for s by (simp add: f32_nan_def F32_INF_def)
  show "\<not> f32_nan a \<Longrightarrow> f32_finite b \<Longrightarrow> f32_mag b \<noteq> 0 \<Longrightarrow> \<not> f32_nan (f32_div a b)"
    using inf finite_not_nan by (auto simp: f32_div_def Let_def)
qed

lemma finite_plus_not_nan: "f32_finite a \<Longrightarrow> \<not> f32_nan b \<Longrightarrow> \<not> f32_nan (f32_add a b)"
  using f32_add_key(2) [of a b] finite_not_nan by (auto simp: f32_add_def Let_def)

lemma not_nan_plus_finite: "\<not> f32_nan a \<Longrightarrow> f32_finite b \<Longrightarrow> \<not> f32_nan (f32_add a b)"
  using f32_add_key(2) [of a b] finite_not_nan by (auto simp: f32_add_def Let_def)

lemma fizzle_not_nan: "\<not> f32_nan (f32_add FIZZLE_BASE_PERCENT (f32_div (f32_sub (f32_of_int (wrap32 m)) (f32_div (f32_of_int (wrap32 n)) 0x41a00000)) 0x40a00000))"
proof -
  have c: "f32_finite 0x41a00000" "f32_mag 0x41a00000 \<noteq> 0" "f32_finite 0x40a00000" "f32_mag 0x40a00000 \<noteq> 0" "f32_finite FIZZLE_BASE_PERCENT"
    by (simp_all add: FIZZLE_BASE_PERCENT_def f32_eval)
  have "\<not> f32_nan (f32_div (f32_of_int (wrap32 n)) 0x41a00000)" by (rule div_not_nan) (use c in simp_all)
  then have "\<not> f32_nan (f32_sub (f32_of_int (wrap32 m)) (f32_div (f32_of_int (wrap32 n)) 0x41a00000))"
    unfolding f32_sub_def by (intro finite_plus_not_nan of_i32_finite wrap32_range) simp
  then have "\<not> f32_nan (f32_div (f32_sub (f32_of_int (wrap32 m)) (f32_div (f32_of_int (wrap32 n)) 0x41a00000)) 0x40a00000)"
    by (rule div_not_nan) (use c in simp_all)
  then show ?thesis by (rule finite_plus_not_nan [OF c(5)])
qed

text \<open>C24. A cast that fails costs no more than the caster holds: what an interrupt or a fizzle charges lies between nothing and the mana
  held, whatever the spell's numbers, and the chance of a fizzle is between one and ninety-five percent, whatever the level, the
  skill and the stat.  A cast is honoured only from a tenth of a second before its bar ends to two seconds after.\<close>

theorem failed_casts_cost_what_is_held:
  assumes "f32_nn mp_now"
  shows "within (interrupt_charge cost cast_time_s elapsed dmg mp_now) mp_now \<and> within (fizzle_mana cost mp_now) mp_now
    \<and> f32_le F32_ONE (fizzle_chance sl sk l st bard) \<and> f32_le (fizzle_chance sl sk l st bard) 0x42be0000
    \<and> (cast_timing elapsed required = Ready \<longleftrightarrow> (\<exists>e. elapsed = Some e \<and> required \<le> e + 100 \<and> e \<le> required + 2000))"
proof -
  have "within (interrupt_charge cost cast_time_s elapsed dmg mp_now) mp_now"
    using within_zero [OF assms] capped [OF assms] by (auto simp: interrupt_charge_def Let_def split: option.splits)
  moreover have "within (fizzle_mana cost mp_now) mp_now" using capped [OF assms] by (simp add: fizzle_mana_def)
  moreover have "f32_le F32_ONE (fizzle_chance sl sk l st bard) \<and> f32_le (fizzle_chance sl sk l st bard) 0x42be0000"
    unfolding fizzle_chance_def Let_def using clamp_percent [OF fizzle_not_nan] by blast
  moreover have "cast_timing elapsed required = Ready \<longleftrightarrow> (\<exists>e. elapsed = Some e \<and> required \<le> e + 100 \<and> e \<le> required + 2000)"
    by (auto simp: cast_timing_def CAST_TOLERANCE_MS_def CAST_HOLD_GRACE_MS_def split: option.splits)
  ultimately show ?thesis by blast
qed

theorem failed_casts_cost_what_is_held_witness:
  "within (interrupt_charge 0x42480000 0x40000000 (Some 1000) 7 0x41a00000) 0x41a00000 \<and> cast_timing (Some 2950) 3000 = Ready"
proof -
  have m: "f32_nn 0x41a00000" by (simp add: f32_nn_def f32_eval)
  show ?thesis using failed_casts_cost_what_is_held [OF m, of "0x42480000" "0x40000000" "Some 1000" 7]
      failed_casts_cost_what_is_held [OF m, of _ _ "Some 2950" _ _ _ _ _ _ 3000] by simp
qed

section \<open>The seeded bar\<close>

lemma seed_gem_ok:
  assumes "\<forall>(g, s)\<in>set gems. \<exists>x. check_gem book cl l g s = Inr x" "distinct (map fst gems)"
    "seed_gem book cl l e (gems, n) = (gems', n')"
  shows "(\<forall>(g, s)\<in>set gems'. \<exists>x. check_gem book cl l g s = Inr x) \<and> distinct (map fst gems')"
proof -
  obtain g s where e: "e = (g, s)" by (cases e)
  have mem: "set (AList.update k v m) \<subseteq> insert (k, v) (set m)" for k :: int and v :: string and m by (induction m) auto
  show ?thesis
    using assms mem [of "int g" s gems] by (auto simp: seed_gem_def e distinct_update split: if_splits sum.splits)
qed

lemma seed_gems_ok:
  assumes "\<forall>(g, s)\<in>set gems. \<exists>x. check_gem book cl l g s = Inr x" "distinct (map fst gems)"
    "fold (seed_gem book cl l) es (gems, n) = (gems', n')"
  shows "\<forall>(g, s)\<in>set gems'. \<exists>x. check_gem book cl l g s = Inr x"
  using assms
proof (induction es arbitrary: gems n)
  case (Cons e es)
  obtain g1 n1 where s: "seed_gem book cl l e (gems, n) = (g1, n1)" by (metis surj_pair)
  show ?case using Cons.IH [of g1 n1] seed_gem_ok [OF Cons.prems(1,2) s] Cons.prems(3) s by simp
qed simp

end
