(* ===== verification/Spec2Isabelle.thy ===== *)
theory Spec2Isabelle
  imports Storage Saving Money Sessions Standing Laws Training Attributes Deaths Fate Sight Casts
begin

text \<open>
  Verification of the Project Dawn server, a Rust game server (\<open>src/crates/projectdawn-server\<close>) with its
  wire types in \<open>src/crates/protocol\<close>.

  The parts modelled here are the ones that own a player's wealth and the rules about who may touch it.

  \<^item> \<open>Prelude\<close>: fixed-width arithmetic written out (saturating and wrapping 32 and 64 bit), decimal
    parsing and printing as Rust does it, association lists for the hash maps.
  \<^item> \<open>Coins\<close> (\<open>protocol/src/world.rs\<close>, \<open>Coins\<close> and \<open>CoinAmount\<close>): the four-tier purse.
  \<^item> \<open>Items\<close> (\<open>world/items.rs\<close>): the item registry; the table itself is an argument.
  \<^item> \<open>InvCore\<close>, \<open>InvMove\<close>, \<open>Place\<close>, \<open>InvPlace\<close>, \<open>InvTake\<close>, \<open>InvRows\<close>, \<open>Vault\<close> (\<open>world/inventory.rs\<close>):
    base slots, bags, the hand, worn items and the bank vaults, with every operation.  \<open>Place\<close> states the
    top-up and claim passes once, as a locale the inventory and the vault both interpret.
  \<^item> \<open>Trade\<close> (\<open>world/trade.rs\<close>) and \<open>GroupState\<close> (\<open>world/groups.rs\<close>): sessions and groups.
  \<^item> \<open>F32\<close>, \<open>Factions\<close> (\<open>world/factions.rs\<close>, \<open>world/npcs.rs\<close>): IEEE binary32 arithmetic on bit
    patterns, standings, levels and service range.
  \<^item> \<open>Conn\<close> (\<open>world/connection.rs\<close>, \<open>world/ledger.rs\<close>): the stores of a connection and its queue of ledger rows; the
    locale \<open>ledgered\<close> is the contract of a handler towards the books.
  \<^item> \<open>Persist\<close> (\<open>world/persistence.rs\<close>, \<open>db/mod.rs\<close>): the flush, its transaction, the conservation query, the prune.
  \<^item> \<open>Banking\<close> (\<open>world/tick/banking.rs\<close>), \<open>Vendors\<close> (\<open>world/tick/vendors.rs\<close>): the bank and merchant handlers.
  \<^item> \<open>World\<close>, \<open>Trading\<close> (\<open>world/tick/trading.rs\<close>, \<open>db/mod.rs\<close>): connections, managers and database together; the
    six trade intents, the commit and the sweep.  Dashes in the messages are written \<open>--\<close>.

  \<^item> \<open>Body\<close> (\<open>world/connection.rs\<close>): the character half of a connection.  \<open>CharData\<close>, \<open>Levels\<close>,
    \<open>Progress\<close>, \<open>Growth\<close>, \<open>Deaths\<close> (\<open>char_data.rs\<close>, \<open>world/progression.rs\<close>): race and class, the experience curve on
    bit-exact doubles (\<open>F64\<close>), awards, the death penalty and resurrection.
  \<^item> \<open>Buffs\<close>, \<open>Spells\<close>, \<open>BuffOps\<close>, \<open>Attributes\<close> (\<open>world/buffs.rs\<close>, \<open>world/spells.rs\<close>, \<open>world/tick/spell_buffs.rs\<close>,
    \<open>world/tick/buff_tick.rs\<close>): buffs on a player and the account of every attribute.
  \<^item> \<open>Skills\<close>, \<open>Training\<close> (\<open>world/skills.rs\<close>): trained skills and what a class may wield and wear.
  \<^item> \<open>Handling\<close> (\<open>world/tick/inventory_ops.rs\<close>): the handlers that move, split, wear, destroy and use items.  \<open>Hunger\<close>,
    \<open>Upkeep\<close> (\<open>world/hunger.rs\<close>, \<open>world/encumbrance.rs\<close>, \<open>world/regen.rs\<close>): food, load and regeneration.
  \<^item> \<open>Ground\<close>, \<open>Looting\<close> (\<open>world/loot.rs\<close>, \<open>world/corpses.rs\<close>, \<open>world/tick/looting.rs\<close>, \<open>world/tick/death_sweep.rs\<close>,
    \<open>apply_drops\<close>): the record \<open>land\<close> joins the world, the characters, the loot bags, the corpses and the corpse tables; a
    phase of the tick takes the land and returns it with the messages sent.  \<open>Spoils\<close>, \<open>Land\<close>, \<open>Mortal\<close>, \<open>Dropping\<close> and
    \<open>Wake\<close> show what each phase keeps, \<open>Fate\<close> what every run of them does.
  \<^item> \<open>Swings\<close> (\<open>world/combat.rs\<close>), \<open>Alignment\<close> (\<open>world/alignment.rs\<close>), \<open>Casts\<close> (\<open>world/cast_gate.rs\<close>,
    \<open>world/spell_gems.rs\<close>): the rules of a blow, of good and evil, and of the gate in front of a cast.  \<open>Sight\<close> (\<open>world/aoi.rs\<close>): the
    grid of cells that says who sees whom; its theorem holds for cells below \<open>2 ^ 30\<close>, past which the 32-bit differences wrap.

  State is passed explicitly: an operation takes the record and returns it updated, with the result or the
  error as an option or a sum.  A handler takes the world it reads, the intent and the connection,
  and returns the connection and the messages it sends.  A \<open>HashMap\<close> is an association list with the library's update
  and delete; where the code's result depends on its iteration order the model fixes the list's order.

  What is shown: \<open>Storage\<close> and \<open>Saving\<close> hold the inventory's properties, \<open>Money\<close> the purse's,
  \<open>Sessions\<close> those of trades and groups, \<open>Standing\<close> those of factions, \<open>Market\<close> the merchants', \<open>Books\<close> that one
  character's handlers, the flush and the prune keep the ledger and the stores in step, \<open>Realm\<close> and \<open>Laws\<close> the same
  for every character of the world at once, trades between them included.  \<open>Demo\<close> and \<open>Town\<close> are the small world the
  instances run on.

  Bounds: coin totals are assumed below \<open>2 ^ 62\<close> copper where a handler adds to a purse
  (\<open>coins_bounded\<close>); stacks are below \<open>2 ^ 31\<close> where they pass through the signed count column
  (\<open>conn_small\<close>); a run of the whole world (\<open>realm_run\<close>) or of the land (\<open>land_run\<close>) carries the number of splits in it that took a
  whole filled bag, the one operation that loses units without a row (\<open>spilt\<close>), and the theorems on the books are about runs with
  none; on the ground both bounds follow from the totals of the whole land (\<open>land_light\<close>).  No definition uses fuel: every recursion is structural or has its termination proof.

  Not modelled: the network layer and the client binding, SQLite itself (a transaction commits as a whole or
  not at all; its answers are arguments), content files, terrain, and so far the handlers of combat and casting that read the
  enemies, what mobs drop, quests, enemies and pets.  Who sees a point of the ground is an argument of the looting handlers.
\<close>

end
